(* ===== verification/Prelude.thy ===== *)
theory Prelude
  imports Main "HOL-Library.Word" "HOL-Library.AList" "HOL-Library.Product_Lexorder"
begin

text \<open>
  What the component theories share: the machine integers and byte strings of the program, the
  outcome of a fallible call (a value, an error, or a panic), the arithmetic of the Rust standard
  library the sources use, SSZ bit lists as lists of booleans, and generic lemmas on words, lists
  and association lists.

  Integers keep their width: \<open>u64\<close> is a 64-bit word whose \<open>+\<close>, \<open>-\<close> and \<open>*\<close> wrap, as release
  builds do. A \<open>usize\<close> that counts the elements of a container is a \<open>nat\<close>; where the code does
  arithmetic on a \<open>usize\<close> that could wrap, the model computes with \<open>u64\<close>. A root (\<open>H256\<close>) is a
  256-bit word: its numeric order is the lexicographic order of its 32 big-endian bytes, which is
  the order the code sorts roots by.
\<close>

named_theorems outcome_simps "inversion of chained fallible calls"
named_theorems bit_simps "facts on bit lists and the indices set in them"
named_theorems word_nat "words read as natural numbers"

type_synonym u8 = "8 word"
type_synonym u32 = "32 word"
type_synonym u64 = "64 word"
type_synonym i64 = "64 word"
type_synonym H256 = "256 word"
type_synonym bytes = "u8 list"

subsection \<open>Outcomes\<close>

datatype ('a, 'e) result = Ok 'a | Err 'e | Panic

fun bind_res :: "('a, 'e) result \<Rightarrow> ('a \<Rightarrow> ('b, 'e) result) \<Rightarrow> ('b, 'e) result" where
  "bind_res (Ok a) f = f a"
| "bind_res (Err e) f = Err e"
| "bind_res Panic f = Panic"

fun map_err :: "('e \<Rightarrow> 'd) \<Rightarrow> ('a, 'e) result \<Rightarrow> ('a, 'd) result" where
  "map_err f (Ok a) = Ok a"
| "map_err f (Err e) = Err (f e)"
| "map_err f Panic = Panic"

text \<open>\<open>Option::expect\<close> and \<open>Result::expect\<close> panic when the value is missing.\<close>

fun expect :: "'a option \<Rightarrow> ('a, 'e) result" where
  "expect (Some a) = Ok a"
| "expect None = Panic"

fun expect_ok :: "('a, 'e) result \<Rightarrow> ('a, 'f) result" where
  "expect_ok (Ok a) = Ok a"
| "expect_ok (Err e) = Panic"
| "expect_ok Panic = Panic"

fun ok_value :: "('a, 'e) result \<Rightarrow> 'a option" where
  "ok_value (Ok a) = Some a"
| "ok_value (Err e) = None"
| "ok_value Panic = None"

fun ok_or :: "'a option \<Rightarrow> 'e \<Rightarrow> ('a, 'e) result" where
  "ok_or (Some a) e = Ok a"
| "ok_or None e = Err e"

text \<open>A loop whose body may fail: the first error or panic ends it.\<close>

fun fold_res :: "('x \<Rightarrow> 'a \<Rightarrow> ('a, 'e) result) \<Rightarrow> 'x list \<Rightarrow> 'a \<Rightarrow> ('a, 'e) result" where
  "fold_res f [] a = Ok a"
| "fold_res f (x # xs) a = bind_res (f x a) (fold_res f xs)"

text \<open>Collecting the results of a fallible call on every element; the first failure ends it.\<close>

fun map_res :: "('x \<Rightarrow> ('a, 'e) result) \<Rightarrow> 'x list \<Rightarrow> ('a list, 'e) result" where
  "map_res f [] = Ok []"
| "map_res f (x # xs) = bind_res (f x) (\<lambda>a. bind_res (map_res f xs) (\<lambda>as. Ok (a # as)))"

text \<open>
  A computation that may also run forever has an optional outcome, \<open>None\<close> for never returning.
\<close>

definition bind_run ::
  "('a, 'e) result option \<Rightarrow> ('a \<Rightarrow> ('b, 'e) result option) \<Rightarrow> ('b, 'e) result option" where
  "bind_run m f = Option.bind m
     (\<lambda>r. case r of Ok a \<Rightarrow> f a | Err e \<Rightarrow> Some (Err e) | Panic \<Rightarrow> Some Panic)"

subsection \<open>Arithmetic of the standard library\<close>

definition checked_sub :: "u64 \<Rightarrow> u64 \<Rightarrow> u64 option" where
  "checked_sub a b = (if b \<le> a then Some (a - b) else None)"

definition checked_add :: "u64 \<Rightarrow> u64 \<Rightarrow> u64 option" where
  "checked_add a b = (if unat a + unat b < 2 ^ 64 then Some (a + b) else None)"

definition checked_mul :: "u64 \<Rightarrow> u64 \<Rightarrow> u64 option" where
  "checked_mul a b = (if unat a * unat b < 2 ^ 64 then Some (a * b) else None)"

definition saturating_sub :: "u64 \<Rightarrow> u64 \<Rightarrow> u64" where
  "saturating_sub a b = (if a < b then 0 else a - b)"

text \<open>\<open>div_ceil\<close> rounds the quotient up, with no intermediate overflow.\<close>

definition div_ceil :: "u64 \<Rightarrow> u64 \<Rightarrow> u64" where
  "div_ceil a b = (if a mod b = 0 then a div b else a div b + 1)"

text \<open>\<open>u64::isqrt\<close> is the integer square root, computed here two bits at a time.\<close>

fun isqrt_nat :: "nat \<Rightarrow> nat" where
  "isqrt_nat n =
     (if n = 0 then 0
      else let r = 2 * isqrt_nat (n div 4) in if (r + 1) * (r + 1) \<le> n then r + 1 else r)"

declare isqrt_nat.simps [simp del]

definition isqrt :: "u64 \<Rightarrow> u64" where
  "isqrt a = word_of_nat (isqrt_nat (unat a))"

text \<open>
  \<open>Iterator::max_by_key\<close> keeps the last of several greatest elements and \<open>min_by_key\<close> the first
  of several least ones.
\<close>

fun max_by_key :: "('a \<Rightarrow> 'k::linorder) \<Rightarrow> 'a list \<Rightarrow> 'a option" where
  "max_by_key f [] = None"
| "max_by_key f (x # xs) =
     Some (fold (\<lambda>y best. if f best \<le> f y then y else best) xs x)"

fun min_by_key :: "('a \<Rightarrow> 'k::linorder) \<Rightarrow> 'a list \<Rightarrow> 'a option" where
  "min_by_key f [] = None"
| "min_by_key f (x # xs) =
     Some (fold (\<lambda>y best. if f y < f best then y else best) xs x)"

subsection \<open>Formatting\<close>

text \<open>Decimal digits of a number, as \<open>format!\<close> prints it.\<close>

fun decimal :: "nat \<Rightarrow> string" where
  "decimal n = (if n < 10 then [char_of (48 + n)] else decimal (n div 10) @ [char_of (48 + n mod 10)])"

declare decimal.simps [simp del]

subsection \<open>SSZ bit lists\<close>

text \<open>
  A bit list is the list of its bits; its bound is checked where the code builds one.
  \<open>set\<close> fails beyond the length and \<open>union\<close> has the length of the longer operand.
\<close>

type_synonym bitlist = "bool list"

definition with_capacity :: "nat \<Rightarrow> nat \<Rightarrow> bitlist option" where
  "with_capacity limit n = (if n \<le> limit then Some (replicate n False) else None)"

definition bit_get :: "bitlist \<Rightarrow> nat \<Rightarrow> bool option" where
  "bit_get bs i = (if i < length bs then Some (bs ! i) else None)"

definition bit_set :: "bitlist \<Rightarrow> nat \<Rightarrow> bool \<Rightarrow> bitlist option" where
  "bit_set bs i b = (if i < length bs then Some (bs[i := b]) else None)"

fun bit_union :: "bitlist \<Rightarrow> bitlist \<Rightarrow> bitlist" where
  "bit_union [] ys = ys"
| "bit_union xs [] = xs"
| "bit_union (x # xs) (y # ys) = (x \<or> y) # bit_union xs ys"

text \<open>Set the bits at the given indices in turn; \<open>None\<close> at the first index out of range.\<close>

fun set_all :: "bitlist \<Rightarrow> nat list \<Rightarrow> bitlist option" where
  "set_all bs [] = Some bs"
| "set_all bs (i # is) = Option.bind (bit_set bs i True) (\<lambda>bs'. set_all bs' is)"

text \<open>The positions of the set bits, in ascending order.\<close>

definition set_positions :: "bitlist \<Rightarrow> nat list" where
  "set_positions bs = filter (\<lambda>i. bs ! i) [0..<length bs]"

subsection \<open>Hash maps\<close>

text \<open>
  A \<open>HashMap\<close> is an association list with distinct keys; its order stands for the iteration
  order. \<open>entry(k).or_insert(d)\<close> adds \<open>d\<close> only where the key is absent.
\<close>

definition or_insert :: "'k \<Rightarrow> 'v \<Rightarrow> ('k \<times> 'v) list \<Rightarrow> ('k \<times> 'v) list" where
  "or_insert k d m = (if map_of m k = None then AList.update k d m else m)"

definition collect_map :: "('k \<times> 'v) list \<Rightarrow> ('k \<times> 'v) list" where
  "collect_map kvs = fold (\<lambda>(k, v). AList.update k v) kvs []"


section \<open>Outcomes: inversion\<close>

lemma bind_res_Ok_iff [outcome_simps]: "bind_res m f = Ok b \<longleftrightarrow> (\<exists>a. m = Ok a \<and> f a = Ok b)"
  by (cases m) auto

lemma bind_res_Err_iff [outcome_simps]:
  "bind_res m f = Err e \<longleftrightarrow> m = Err e \<or> (\<exists>a. m = Ok a \<and> f a = Err e)"
  by (cases m) auto

lemma bind_res_Panic_iff [outcome_simps]:
  "bind_res m f = Panic \<longleftrightarrow> m = Panic \<or> (\<exists>a. m = Ok a \<and> f a = Panic)"
  by (cases m) auto

lemma expect_Ok_iff [outcome_simps]: "expect x = Ok a \<longleftrightarrow> x = Some a"
  by (cases x) auto

lemma expect_Err [simp]: "expect x \<noteq> Err e"
  by (cases x) auto

lemma expect_Panic_iff [outcome_simps]: "expect x = Panic \<longleftrightarrow> x = None"
  by (cases x) auto

lemma ok_or_Ok_iff [outcome_simps]: "ok_or x e = Ok a \<longleftrightarrow> x = Some a"
  by (cases x) auto

lemma ok_or_Err_iff [outcome_simps]: "ok_or x e = Err e' \<longleftrightarrow> x = None \<and> e' = e"
  by (cases x) auto

lemma ok_or_Panic [simp]: "ok_or x e \<noteq> Panic"
  by (cases x) auto

lemma map_err_Ok_iff [outcome_simps]: "map_err f m = Ok a \<longleftrightarrow> m = Ok a"
  by (cases m) auto

lemma map_err_Err_iff [outcome_simps]: "map_err f m = Err e \<longleftrightarrow> (\<exists>d. m = Err d \<and> e = f d)"
  by (cases m) auto

lemma map_err_Panic_iff [outcome_simps]: "map_err f m = Panic \<longleftrightarrow> m = Panic"
  by (cases m) auto

lemma expect_ok_Ok_iff [outcome_simps]: "expect_ok m = Ok a \<longleftrightarrow> m = Ok a"
  by (cases m) auto

lemma bind_res_cong [fundef_cong]:
  "m = m' \<Longrightarrow> (\<And>a. m' = Ok a \<Longrightarrow> f a = f' a) \<Longrightarrow> bind_res m f = bind_res m' f'"
  by (cases m') auto

lemma bind_run_simps [simp]:
  "bind_run None f = None" "bind_run (Some (Ok a)) f = f a"
  "bind_run (Some (Err e)) f = Some (Err e)" "bind_run (Some Panic) f = Some Panic"
  by (simp_all add: bind_run_def)

lemma bind_run_Ok_iff [outcome_simps]:
  "bind_run m f = Some (Ok b) \<longleftrightarrow> (\<exists>a. m = Some (Ok a) \<and> f a = Some (Ok b))"
  by (cases m rule: option.exhaust) (auto simp: bind_run_def split: result.splits)

lemma bind_run_Err_iff [outcome_simps]:
  "bind_run m f = Some (Err e) \<longleftrightarrow> m = Some (Err e) \<or> (\<exists>a. m = Some (Ok a) \<and> f a = Some (Err e))"
  by (cases m rule: option.exhaust) (auto simp: bind_run_def split: result.splits)

lemma bind_run_Panic_iff [outcome_simps]:
  "bind_run m f = Some Panic \<longleftrightarrow> m = Some Panic \<or> (\<exists>a. m = Some (Ok a) \<and> f a = Some Panic)"
  by (cases m rule: option.exhaust) (auto simp: bind_run_def split: result.splits)

lemma map_res_Ok_iff [outcome_simps]:
  "map_res f xs = Ok ys \<longleftrightarrow> list_all2 (\<lambda>x y. f x = Ok y) xs ys"
  by (induction xs arbitrary: ys) (auto simp: bind_res_Ok_iff list_all2_Cons1)

text \<open>
  \<open>keeps I m\<close>: from a state with the invariant \<open>I\<close>, \<open>m\<close> does not panic, and where it succeeds
  the new state has \<open>I\<close> again. What every loop body keeps, the loop keeps.
\<close>

definition keeps :: "('a \<Rightarrow> bool) \<Rightarrow> ('a \<Rightarrow> ('a, 'e) result) \<Rightarrow> bool" where
  "keeps I m \<longleftrightarrow> (\<forall>a. I a \<longrightarrow> m a \<noteq> Panic \<and> (\<forall>a'. m a = Ok a' \<longrightarrow> I a'))"

lemma keepsI:
  assumes "\<And>a. I a \<Longrightarrow> m a \<noteq> Panic" and "\<And>a a'. I a \<Longrightarrow> m a = Ok a' \<Longrightarrow> I a'"
  shows "keeps I m"
  unfolding keeps_def
proof (intro allI impI conjI)
  fix a assume "I a"
  then show "m a \<noteq> Panic" by (rule assms(1))
next
  fix a a' assume "I a" and "m a = Ok a'"
  then show "I a'" by (rule assms(2))
qed

lemma keeps_no_panic: "keeps I m \<Longrightarrow> I a \<Longrightarrow> m a \<noteq> Panic"
  unfolding keeps_def by blast

lemma keeps_Ok: "keeps I m \<Longrightarrow> I a \<Longrightarrow> m a = Ok a' \<Longrightarrow> I a'"
  unfolding keeps_def by blast

lemma keeps_fold_res:
  assumes "\<forall>x \<in> set xs. keeps I (f x)"
  shows "keeps I (fold_res f xs)"
  using assms
proof (induction xs)
  case Nil
  then show ?case by (simp add: keeps_def)
next
  case (Cons x xs)
  then have hd: "keeps I (f x)" and tl: "keeps I (fold_res f xs)" by simp_all
  show ?case
  proof (rule keepsI)
    fix a assume "I a"
    with hd have "f x a \<noteq> Panic" and "\<And>b. f x a = Ok b \<Longrightarrow> I b"
      by (blast dest: keeps_no_panic keeps_Ok)+
    then show "fold_res f (x # xs) a \<noteq> Panic"
      using keeps_no_panic [OF tl] by (cases "f x a") auto
  next
    fix a a' assume "I a" and "fold_res f (x # xs) a = Ok a'"
    then obtain b where "f x a = Ok b" and "fold_res f xs b = Ok a'"
      by (auto simp: bind_res_Ok_iff)
    with \<open>I a\<close> show "I a'" using keeps_Ok [OF hd] keeps_Ok [OF tl] by blast
  qed
qed

lemma bind_res_Ok_right [simp]: "bind_res m Ok = m"
  by (cases m) simp_all

lemma fold_res_append: "fold_res f (xs @ ys) a = bind_res (fold_res f xs a) (fold_res f ys)"
proof (induction xs arbitrary: a)
  case (Cons x xs)
  then show ?case by (cases "f x a") simp_all
qed simp

lemma fold_res_single: "fold_res f [x] = f x"
  by (rule ext) (metis bind_res_Ok_right fold_res.simps ext)

lemma map_res_Panic: "map_res f xs = Panic \<Longrightarrow> \<exists>x. f x = Panic"
  by (induction xs) (auto simp: bind_res_Panic_iff)

lemma fold_res_no_Err: "(\<And>x a. f x a \<noteq> Err e) \<Longrightarrow> fold_res f xs a \<noteq> Err e"
  by (induction xs arbitrary: a) (auto simp: bind_res_Err_iff)

section \<open>Arithmetic\<close>

lemma isqrt_nat_bounds: "isqrt_nat n * isqrt_nat n \<le> n \<and> n < (isqrt_nat n + 1) * (isqrt_nat n + 1)"
proof (induction n rule: isqrt_nat.induct)
  case (1 n)
  show ?case
  proof (cases "n = 0")
    case True
    then show ?thesis by (simp add: isqrt_nat.simps)
  next
    case False
    define q where "q = isqrt_nat (n div 4)"
    from 1 False have q: "q * q \<le> n div 4" "n div 4 < (q + 1) * (q + 1)"
      by (simp_all add: q_def)
    have lo: "(2 * q) * (2 * q) \<le> n"
      using q(1) by simp
    have hi: "n < (2 * q + 2) * (2 * q + 2)"
    proof -
      have "n < 4 * ((q + 1) * (q + 1))" using q(2) by linarith
      then show ?thesis by (simp add: algebra_simps)
    qed
    have eq: "isqrt_nat n = (if (2 * q + 1) * (2 * q + 1) \<le> n then 2 * q + 1 else 2 * q)"
      using False by (simp add: isqrt_nat.simps [of n] q_def Let_def)
    show ?thesis using lo hi unfolding eq by (simp add: not_le)
  qed
qed

lemma isqrt_nat_unique:
  assumes "k * k \<le> n" and "n < (k + 1) * (k + 1)"
  shows "isqrt_nat n = k"
proof (rule ccontr)
  assume "isqrt_nat n \<noteq> k"
  then consider "isqrt_nat n + 1 \<le> k" | "k + 1 \<le> isqrt_nat n" by linarith
  then show False
  proof cases
    case 1
    then have "(isqrt_nat n + 1) * (isqrt_nat n + 1) \<le> k * k" by (intro mult_le_mono)
    with isqrt_nat_bounds [of n] assms show False by linarith
  next
    case 2
    then have "(k + 1) * (k + 1) \<le> isqrt_nat n * isqrt_nat n" by (intro mult_le_mono)
    with isqrt_nat_bounds [of n] assms show False by linarith
  qed
qed

lemma isqrt_nat_square_iff: "isqrt_nat n * isqrt_nat n = n \<longleftrightarrow> (\<exists>k. n = k * k)"
proof
  assume "\<exists>k. n = k * k"
  then obtain k where "n = k * k" ..
  moreover from this have "isqrt_nat n = k" by (intro isqrt_nat_unique) auto
  ultimately show "isqrt_nat n * isqrt_nat n = n" by simp
qed metis

lemma isqrt_nat_less:
  assumes "n < m * m"
  shows "isqrt_nat n < m"
proof (rule ccontr)
  assume "\<not> isqrt_nat n < m"
  then have "m * m \<le> isqrt_nat n * isqrt_nat n" by (intro mult_le_mono) auto
  with isqrt_nat_bounds [of n] assms show False by linarith
qed

lemma unat_less_u64 [simp]: "unat (a :: u64) < 18446744073709551616"
  using unsigned_less [of a] by simp

lemma unat_isqrt [word_nat]: "unat (isqrt a) = isqrt_nat (unat a)"
proof -
  have "isqrt_nat (unat a) < 2 ^ 32" by (rule isqrt_nat_less) simp
  then show ?thesis by (simp add: isqrt_def unat_of_nat)
qed

text \<open>The square of a 64-bit integer square root does not wrap.\<close>

lemma isqrt_square_eq_iff: "isqrt a * isqrt a = a \<longleftrightarrow> (\<exists>k. unat a = k * k)"
proof -
  have "isqrt_nat (unat a) * isqrt_nat (unat a) \<le> unat a"
    using isqrt_nat_bounds [of "unat a"] by simp
  also have "\<dots> < 2 ^ 64" by simp
  finally have "unat (isqrt a * isqrt a) = isqrt_nat (unat a) * isqrt_nat (unat a)"
    by (simp add: unat_word_ariths unat_isqrt)
  then have "isqrt a * isqrt a = a \<longleftrightarrow> isqrt_nat (unat a) * isqrt_nat (unat a) = unat a"
    by (metis word_unat_eq_iff)
  then show ?thesis by (simp only: isqrt_nat_square_iff)
qed

lemma checked_sub_Some_iff [simp]: "checked_sub a b = Some c \<longleftrightarrow> b \<le> a \<and> c = a - b"
  by (auto simp: checked_sub_def)

lemma checked_sub_None_iff [simp]: "checked_sub a b = None \<longleftrightarrow> a < b"
  by (auto simp: checked_sub_def not_le)

lemma unat_checked_sub [word_nat]: "b \<le> (a :: u64) \<Longrightarrow> unat (a - b) = unat a - unat b"
  by (simp add: unat_sub)

lemma unat_succ: "a < b \<Longrightarrow> unat (a + 1) = unat a + 1" for a b :: u64
proof -
  assume "a < b"
  then have "unat a < unat b" by (simp add: word_less_nat_alt)
  with unat_less_u64 [of b] have "unat a + 1 < 18446744073709551616" by linarith
  then show ?thesis by (simp add: unat_word_ariths)
qed

section \<open>Bit lists\<close>

lemma bit_get_Some_iff [simp]: "bit_get bs i = Some b \<longleftrightarrow> i < length bs \<and> b = bs ! i"
  by (auto simp: bit_get_def)

lemma bit_get_None_iff [simp]: "bit_get bs i = None \<longleftrightarrow> length bs \<le> i"
  by (auto simp: bit_get_def)

lemma with_capacity_Some_iff [simp]:
  "with_capacity limit n = Some bs \<longleftrightarrow> n \<le> limit \<and> bs = replicate n False"
  by (auto simp: with_capacity_def)

lemma with_capacity_None_iff [simp]: "with_capacity limit n = None \<longleftrightarrow> limit < n"
  by (auto simp: with_capacity_def)

lemma set_all_char:
  "set_all bs is =
     (if \<forall>i \<in> set is. i < length bs
      then Some (map (\<lambda>k. bs ! k \<or> k \<in> set is) [0..<length bs]) else None)"
proof (induction "is" arbitrary: bs)
  case Nil
  then show ?case by (simp add: map_nth)
next
  case (Cons i "is")
  show ?case
  proof (cases "i < length bs")
    case True
    have eq: "map (\<lambda>k. bs[i := True] ! k \<or> k \<in> set is) [0..<length bs] =
      map (\<lambda>k. bs ! k \<or> k \<in> set (i # is)) [0..<length bs]"
      using True by (auto simp: nth_list_update)
    with True Cons.IH [of "bs[i := True]"] show ?thesis
      by (auto simp: bit_set_def)
  next
    case False
    then show ?thesis by (auto simp: bit_set_def)
  qed
qed

lemma set_all_Some_iff [bit_simps]:
  "set_all bs is = Some bs' \<longleftrightarrow>
     (\<forall>i \<in> set is. i < length bs) \<and> bs' = map (\<lambda>k. bs ! k \<or> k \<in> set is) [0..<length bs]"
  by (auto simp: set_all_char)

lemma set_all_None_iff [bit_simps]: "set_all bs is = None \<longleftrightarrow> (\<exists>i \<in> set is. length bs \<le> i)"
  by (auto simp: set_all_char not_less)

lemma length_set_all: "set_all bs is = Some bs' \<Longrightarrow> length bs' = length bs"
  by (auto simp: set_all_Some_iff)

lemma set_set_positions [simp]: "set (set_positions bs) = {i. i < length bs \<and> bs ! i}"
  by (auto simp: set_positions_def)

lemma sorted_set_positions [simp]: "sorted (set_positions bs)"
  by (simp add: set_positions_def sorted_wrt_filter)

lemma distinct_set_positions [simp]: "distinct (set_positions bs)"
  by (simp add: set_positions_def)

lemma length_set_positions: "length (set_positions bs) = length (filter id bs)"
proof -
  have "filter id bs = filter id (map ((!) bs) [0..<length bs])" by (simp add: map_nth)
  then show ?thesis by (simp add: set_positions_def filter_map o_def)
qed

text \<open>Setting exactly the marked positions in a cleared list of the same length rebuilds it.\<close>

lemma set_all_set_positions:
  "length xs \<le> n \<Longrightarrow> set_all (replicate n False) (set_positions xs) =
     Some (xs @ replicate (n - length xs) False)"
  by (auto simp: set_all_char nth_append intro!: nth_equalityI split: if_splits)

lemma bit_union_replicate [bit_simps]:
  "bit_union bs (replicate n False) = bs @ replicate (n - length bs) False"
proof (induction bs arbitrary: n)
  case Nil
  then show ?case by simp
next
  case (Cons b bs)
  then show ?case by (cases n) simp_all
qed

section \<open>Greatest and least elements\<close>

lemma fold_max_key:
  "fold (\<lambda>y best. if f best \<le> f y then y else best) xs x \<in> insert x (set xs) \<and>
   (\<forall>y \<in> insert x (set xs). f y \<le> f (fold (\<lambda>y best. if f best \<le> f y then y else best) xs x))"
  for f :: "'a \<Rightarrow> 'k::linorder"
proof (induction xs arbitrary: x)
  case Nil
  then show ?case by simp
next
  case (Cons z zs)
  define b where "b = (if f x \<le> f z then z else x)"
  from Cons.IH [of b] have "f x \<le> f b" and "f z \<le> f b" and
    "fold (\<lambda>y best. if f best \<le> f y then y else best) zs b \<in> insert b (set zs)" and
    "\<forall>y \<in> insert b (set zs). f y \<le> f (fold (\<lambda>y best. if f best \<le> f y then y else best) zs b)"
    by (auto simp: b_def)
  then show ?case
    by (auto simp: b_def intro: order_trans split: if_splits)
qed

lemma max_by_key_Some:
  assumes "max_by_key f xs = Some x"
  shows "x \<in> set xs" and "y \<in> set xs \<Longrightarrow> f y \<le> f x"
proof -
  from assms obtain z zs where "xs = z # zs"
    and "x = fold (\<lambda>y best. if f best \<le> f y then y else best) zs z"
    by (cases xs) auto
  with fold_max_key [of f zs z] show "x \<in> set xs" and "y \<in> set xs \<Longrightarrow> f y \<le> f x" by auto
qed

lemma max_by_key_None_iff [simp]: "max_by_key f xs = None \<longleftrightarrow> xs = []"
  by (cases xs) auto

text \<open>A greatest element is unique, hence independent of the iteration order, where keys differ.\<close>

lemma max_by_key_unique:
  assumes "max_by_key f xs = Some x" and "inj_on f (set xs)"
    and "y \<in> set xs" and "\<forall>z \<in> set xs. f z \<le> f y"
  shows "x = y"
  using assms max_by_key_Some [OF assms(1)] by (meson antisym inj_onD)

lemma fold_min_key:
  "fold (\<lambda>y best. if f y < f best then y else best) xs x \<in> insert x (set xs) \<and>
   (\<forall>y \<in> insert x (set xs). f (fold (\<lambda>y best. if f y < f best then y else best) xs x) \<le> f y)"
  for f :: "'a \<Rightarrow> 'k::linorder"
proof (induction xs arbitrary: x)
  case Nil
  then show ?case by simp
next
  case (Cons z zs)
  define b where "b = (if f z < f x then z else x)"
  from Cons.IH [of b] have "f b \<le> f x" and "f b \<le> f z" and
    "fold (\<lambda>y best. if f y < f best then y else best) zs b \<in> insert b (set zs)" and
    "\<forall>y \<in> insert b (set zs). f (fold (\<lambda>y best. if f y < f best then y else best) zs b) \<le> f y"
    by (auto simp: b_def)
  then show ?case
    by (auto simp: b_def intro: order_trans split: if_splits)
qed

lemma min_by_key_Some:
  assumes "min_by_key f xs = Some x"
  shows "x \<in> set xs" and "y \<in> set xs \<Longrightarrow> f x \<le> f y"
proof -
  from assms obtain z zs where "xs = z # zs"
    and "x = fold (\<lambda>y best. if f y < f best then y else best) zs z"
    by (cases xs) auto
  with fold_min_key [of f zs z] show "x \<in> set xs" and "y \<in> set xs \<Longrightarrow> f x \<le> f y" by auto
qed

lemma min_by_key_None_iff [simp]: "min_by_key f xs = None \<longleftrightarrow> xs = []"
  by (cases xs) auto

section \<open>Formatting\<close>

lemma decimal_chars: "c \<in> set (decimal n) \<Longrightarrow> \<exists>k < 10. c = char_of (48 + k :: nat)"
proof (induction n rule: decimal.induct)
  case (1 n)
  show ?case
  proof (cases "n < 10")
    case True
    with "1.prems" show ?thesis by (subst (asm) decimal.simps) auto
  next
    case False
    with "1.prems" have "c \<in> set (decimal (n div 10)) \<or> c = char_of (48 + n mod 10)"
      by (subst (asm) decimal.simps) auto
    with "1.IH" [OF False] show ?thesis by (metis mod_less_divisor zero_less_numeral)
  qed
qed

section \<open>Hash maps\<close>

lemma map_of_or_insert:
  "map_of (or_insert k d m) = (map_of m)(k \<mapsto> (case map_of m k of None \<Rightarrow> d | Some v \<Rightarrow> v))"
  by (auto simp: or_insert_def AList.update_conv' split: option.splits)

lemma distinct_or_insert [intro]:
  "distinct (map fst m) \<Longrightarrow> distinct (map fst (or_insert k d m))"
  by (simp add: or_insert_def distinct_update)

lemma fst_set_or_insert: "fst ` set (or_insert k d m) = insert k (fst ` set m)"
  by (auto simp: or_insert_def dom_update map_of_eq_None_iff)

lemma map_of_update [simp]: "map_of (AList.update k v m) = (map_of m)(k \<mapsto> v)"
  by (rule AList.update_conv')

lemma map_of_collect_map: "map_of (collect_map kvs) = map_of (rev kvs)"
proof -
  have "map_of (fold (\<lambda>(k, v). AList.update k v) kvs m) = map_of (rev kvs @ m)" for m :: "('a \<times> 'b) list"
    by (induction kvs arbitrary: m) auto
  from this [of "[]"] show ?thesis by (simp add: collect_map_def)
qed

lemma distinct_collect_map [simp]: "distinct (map fst (collect_map kvs))"
proof -
  have "distinct (map fst m) \<Longrightarrow> distinct (map fst (fold (\<lambda>(k, v). AList.update k v) kvs m))"
    for m :: "('a \<times> 'b) list"
    by (induction kvs arbitrary: m) (auto simp: distinct_update)
  then show ?thesis by (simp add: collect_map_def)
qed

lemma length_filter_map_of_cong:
  assumes "distinct (map fst xs)" and "distinct (map fst ys)" and "map_of xs = map_of ys"
  shows "length (filter P xs) = length (filter P ys)"
proof -
  have "set xs = set ys" using assms map_of_inject_set by blast
  moreover have "distinct (filter P xs)" "distinct (filter P ys)"
    using assms(1,2) by (simp_all add: distinct_map)
  ultimately show ?thesis by (metis distinct_card set_filter)
qed

lemma length_filter_mono: "(\<And>x. P x \<Longrightarrow> Q x) \<Longrightarrow> length (filter P xs) \<le> length (filter Q xs)"
  by (induction xs) auto

lemma map_filter_ok [simp]: "List.map_filter ok_value (map Ok xs) = xs"
  by (induction xs) (simp_all add: map_filter_simps)

lemma sorted_map_of_unique:
  fixes xs ys :: "('k::linorder \<times> 'v) list"
  assumes "sorted_wrt (<) (map fst xs)" and "sorted_wrt (<) (map fst ys)" and "map_of xs = map_of ys"
  shows "xs = ys"
proof -
  have d: "distinct (map fst xs)" "distinct (map fst ys)" "sorted (map fst xs)" "sorted (map fst ys)"
    using assms(1,2) by (simp_all add: strict_sorted_iff)
  then have eq: "set xs = set ys" using assms(3) by (simp add: map_of_inject_set)
  then have "inj_on fst (set xs \<union> set ys)" using d(1) by (simp add: distinct_map)
  from map_sorted_distinct_set_unique [OF this d(3,1,4,2) eq] show ?thesis .
qed

text \<open>
  A computation that returns, and whose value, if it has one, satisfies a predicate.
\<close>

definition returns :: "('a, 'e) result option \<Rightarrow> ('a \<Rightarrow> bool) \<Rightarrow> bool" where
  "returns m P \<longleftrightarrow> (\<exists>r. m = Some r \<and> (\<forall>a. r = Ok a \<longrightarrow> P a))"

lemma returns_simps [simp]:
  "returns (Some (Ok a)) P \<longleftrightarrow> P a" "returns (Some (Err e)) P" "returns (Some Panic) P"
  by (simp_all add: returns_def)

lemma returns_bind:
  assumes "returns m P" and "\<And>a. P a \<Longrightarrow> returns (f a) Q"
  shows "returns (bind_run m f) Q"
proof -
  from assms(1) obtain r where r: "m = Some r" "\<forall>a. r = Ok a \<longrightarrow> P a" by (auto simp: returns_def)
  show ?thesis using r assms(2) by (cases r) (auto simp: returns_def)
qed

section \<open>Filtering with a partial map\<close>

lemma set_map_filter_Some: "y \<in> set (List.map_filter f xs) \<longleftrightarrow> (\<exists>x \<in> set xs. f x = Some y)"
  by (induction xs) (auto simp: map_filter_simps split: option.splits)

lemma length_map_filter: "length (List.map_filter f xs) \<le> length xs"
  by (induction xs) (auto simp: map_filter_simps split: option.splits)

lemma sorted_wrt_map_filter:
  assumes "sorted_wrt P xs" and "\<And>x y a b. P x y \<Longrightarrow> f x = Some a \<Longrightarrow> f y = Some b \<Longrightarrow> Q a b"
  shows "sorted_wrt Q (List.map_filter f xs)"
  using assms(1)
proof (induction xs)
  case (Cons x xs)
  show ?case
  proof (cases "f x")
    case None
    with Cons show ?thesis by (simp add: map_filter_simps)
  next
    case (Some a)
    have "\<forall>b \<in> set (List.map_filter f xs). Q a b"
      using Cons.prems assms(2) [OF _ Some] unfolding set_map_filter_Some Ball_def by auto
    with Cons Some show ?thesis by (simp add: map_filter_simps)
  qed
qed (simp add: map_filter_simps)

section \<open>Small numbers as roots\<close>

lemma ucast_add_nonzero: "0 < n \<Longrightarrow> n < 18446744073709551616 \<Longrightarrow> (ucast (x :: u64) + word_of_nat n :: H256) \<noteq> 0"
proof
  assume n: "0 < n" "n < 18446744073709551616" and z: "(ucast x + word_of_nat n :: H256) = 0"
  have "(word_of_nat (unat x + n) :: H256) = 0" using z by simp
  then have "unat (word_of_nat (unat x + n) :: H256) = 0" by simp
  moreover have "unat x + n < 2 ^ 256"
    by (rule less_trans [OF add_strict_mono [OF unat_less_u64 n(2)]]) simp
  ultimately show False using n by (simp only: unat_of_nat) simp
qed

end
