(* ===== verification/Metrics.thy ===== *)
theory Metrics
  imports Complex_Main Prelude
begin

text \<open>
  The metrics of the blockchain crates (\<open>crates/blockchain/src/metrics.rs\<close>,
  \<open>state_transition/src/metrics.rs\<close>, \<open>crates/common/metrics\<close>) and the statics of
  \<open>crates/net/p2p/src/metrics.rs\<close>, whose values are in \<open>Peer_Metrics\<close>. A metric is a lazily
  initialized static: its first use registers it with the default Prometheus registry and panics when
  the registry refuses it. The Prometheus library is the parameter \<open>prometheus\<close>; the locale
  \<open>prometheus_library\<close> states what it documents. A float is kept as the integer or duration it is
  converted from.
\<close>

section \<open>Metrics and the library\<close>

datatype metric_kind = IntGauge | IntCounter | Histogram

record metric =
  mt_kind :: metric_kind
  mt_name :: string
  mt_help :: string
  mt_labels :: "string list"
  mt_buckets :: "rat list"

definition int_gauge :: "string \<Rightarrow> string \<Rightarrow> metric" where
  "int_gauge name help =
     \<lparr>mt_kind = IntGauge, mt_name = name, mt_help = help, mt_labels = [], mt_buckets = []\<rparr>"

definition int_gauge_vec :: "string \<Rightarrow> string \<Rightarrow> string list \<Rightarrow> metric" where
  "int_gauge_vec name help labels = (int_gauge name help)\<lparr>mt_labels := labels\<rparr>"

definition int_counter :: "string \<Rightarrow> string \<Rightarrow> metric" where
  "int_counter name help =
     \<lparr>mt_kind = IntCounter, mt_name = name, mt_help = help, mt_labels = [], mt_buckets = []\<rparr>"

definition int_counter_vec :: "string \<Rightarrow> string \<Rightarrow> string list \<Rightarrow> metric" where
  "int_counter_vec name help labels = (int_counter name help)\<lparr>mt_labels := labels\<rparr>"

definition histogram :: "string \<Rightarrow> string \<Rightarrow> rat list \<Rightarrow> metric" where
  "histogram name help buckets =
     \<lparr>mt_kind = Histogram, mt_name = name, mt_help = help, mt_labels = [], mt_buckets = buckets\<rparr>"

datatype f64 = OfCount u64 | OfNanos nat

text \<open>A call that returns nothing panics: registration fails, or label values do not fit a metric.\<close>

record 'r prometheus =
  pr_register :: "metric \<Rightarrow> 'r \<Rightarrow> 'r option"
  pr_set :: "metric \<Rightarrow> string list \<Rightarrow> i64 \<Rightarrow> 'r \<Rightarrow> 'r option"
  pr_inc_by :: "metric \<Rightarrow> string list \<Rightarrow> u64 \<Rightarrow> 'r \<Rightarrow> 'r option"
  pr_observe :: "metric \<Rightarrow> f64 \<Rightarrow> 'r \<Rightarrow> 'r option"
  pr_gather_text :: "'r \<Rightarrow> (bytes, string) result"

text \<open>The process: the statics that were initialized, and the default registry.\<close>

record 'r metrics =
  mx_lazy :: "metric list"
  mx_registry :: 'r

type_synonym 'r metrics_run = "('r metrics, unit) result"

section \<open>Statics\<close>

subsection \<open>Blockchain\<close>

definition LEAN_HEAD_SLOT :: metric where
  "LEAN_HEAD_SLOT = int_gauge ''lean_head_slot''
     ''Latest slot of the lean chain''"

definition LEAN_LATEST_JUSTIFIED_SLOT :: metric where
  "LEAN_LATEST_JUSTIFIED_SLOT = int_gauge ''lean_latest_justified_slot''
     ''Latest justified slot''"

definition LEAN_LATEST_FINALIZED_SLOT :: metric where
  "LEAN_LATEST_FINALIZED_SLOT = int_gauge ''lean_latest_finalized_slot''
     ''Latest finalized slot''"

definition LEAN_CURRENT_SLOT :: metric where
  "LEAN_CURRENT_SLOT = int_gauge ''lean_current_slot''
     ''Current slot of the lean chain''"

definition LEAN_VALIDATORS_COUNT :: metric where
  "LEAN_VALIDATORS_COUNT = int_gauge ''lean_validators_count''
     ''Number of validators managed by a node''"

definition LEAN_SAFE_TARGET_SLOT :: metric where
  "LEAN_SAFE_TARGET_SLOT = int_gauge ''lean_safe_target_slot''
     ''Safe target slot''"

definition LEAN_NODE_INFO :: metric where
  "LEAN_NODE_INFO = int_gauge_vec ''lean_node_info''
     ''Node information (always 1)'' [''name'', ''version'']"

definition LEAN_NODE_START_TIME_SECONDS :: metric where
  "LEAN_NODE_START_TIME_SECONDS = int_gauge ''lean_node_start_time_seconds''
     ''Timestamp when node started''"

definition LEAN_GOSSIP_SIGNATURES :: metric where
  "LEAN_GOSSIP_SIGNATURES = int_gauge ''lean_gossip_signatures''
     ''Number of gossip signatures in fork-choice store''"

definition LEAN_LATEST_NEW_AGGREGATED_PAYLOADS :: metric where
  "LEAN_LATEST_NEW_AGGREGATED_PAYLOADS = int_gauge ''lean_latest_new_aggregated_payloads''
     ''Number of new aggregated payload items''"

definition LEAN_LATEST_KNOWN_AGGREGATED_PAYLOADS :: metric where
  "LEAN_LATEST_KNOWN_AGGREGATED_PAYLOADS = int_gauge ''lean_latest_known_aggregated_payloads''
     ''Number of known aggregated payload items''"

definition LEAN_IS_AGGREGATOR :: metric where
  "LEAN_IS_AGGREGATOR = int_gauge ''lean_is_aggregator''
     ''Validator's is_aggregator status. True=1, False=0''"

definition LEAN_ATTESTATION_COMMITTEE_COUNT :: metric where
  "LEAN_ATTESTATION_COMMITTEE_COUNT = int_gauge ''lean_attestation_committee_count''
     ''Number of attestation committees (ATTESTATION_COMMITTEE_COUNT)''"

definition LEAN_TABLE_BYTES :: metric where
  "LEAN_TABLE_BYTES = int_gauge_vec ''lean_table_bytes''
     ''Byte size of a storage table (key + value bytes)'' [''table'']"

definition LEAN_ATTESTATIONS_VALID_TOTAL :: metric where
  "LEAN_ATTESTATIONS_VALID_TOTAL = int_counter ''lean_attestations_valid_total''
     ''Total number of valid attestations''"

definition LEAN_ATTESTATIONS_INVALID_TOTAL :: metric where
  "LEAN_ATTESTATIONS_INVALID_TOTAL = int_counter ''lean_attestations_invalid_total''
     ''Total number of invalid attestations''"

definition LEAN_FORK_CHOICE_REORGS_TOTAL :: metric where
  "LEAN_FORK_CHOICE_REORGS_TOTAL = int_counter ''lean_fork_choice_reorgs_total''
     ''Count of fork choice reorganizations''"

definition LEAN_PQ_SIG_AGGREGATED_SIGNATURES_TOTAL :: metric where
  "LEAN_PQ_SIG_AGGREGATED_SIGNATURES_TOTAL = int_counter ''lean_pq_sig_aggregated_signatures_total''
     ''Total number of aggregated signatures''"

definition LEAN_PQ_SIG_ATTESTATIONS_IN_AGGREGATED_SIGNATURES_TOTAL :: metric where
  "LEAN_PQ_SIG_ATTESTATIONS_IN_AGGREGATED_SIGNATURES_TOTAL = int_counter ''lean_pq_sig_attestations_in_aggregated_signatures_total''
     ''Total number of attestations included into aggregated signatures''"

definition LEAN_PQ_SIG_AGGREGATED_SIGNATURES_VALID_TOTAL :: metric where
  "LEAN_PQ_SIG_AGGREGATED_SIGNATURES_VALID_TOTAL = int_counter ''lean_pq_sig_aggregated_signatures_valid_total''
     ''Total number of valid aggregated signatures''"

definition LEAN_PQ_SIG_AGGREGATED_SIGNATURES_INVALID_TOTAL :: metric where
  "LEAN_PQ_SIG_AGGREGATED_SIGNATURES_INVALID_TOTAL = int_counter ''lean_pq_sig_aggregated_signatures_invalid_total''
     ''Total number of invalid aggregated signatures''"

definition LEAN_PQ_SIG_ATTESTATION_SIGNATURES_TOTAL :: metric where
  "LEAN_PQ_SIG_ATTESTATION_SIGNATURES_TOTAL = int_counter ''lean_pq_sig_attestation_signatures_total''
     ''Total number of individual attestation signatures''"

definition LEAN_PQ_SIG_ATTESTATION_SIGNATURES_VALID_TOTAL :: metric where
  "LEAN_PQ_SIG_ATTESTATION_SIGNATURES_VALID_TOTAL = int_counter ''lean_pq_sig_attestation_signatures_valid_total''
     ''Total number of valid individual attestation signatures''"

definition LEAN_PQ_SIG_ATTESTATION_SIGNATURES_INVALID_TOTAL :: metric where
  "LEAN_PQ_SIG_ATTESTATION_SIGNATURES_INVALID_TOTAL = int_counter ''lean_pq_sig_attestation_signatures_invalid_total''
     ''Total number of invalid individual attestation signatures''"

definition LEAN_FORK_CHOICE_BLOCK_PROCESSING_TIME_SECONDS :: metric where
  "LEAN_FORK_CHOICE_BLOCK_PROCESSING_TIME_SECONDS = histogram ''lean_fork_choice_block_processing_time_seconds''
     ''Duration to process a block''
     [5 / 1000, 1 / 100, 25 / 1000, 5 / 100, 1 / 10, 1, 125 / 100, 15 / 10, 2, 4]"

definition LEAN_ATTESTATION_VALIDATION_TIME_SECONDS :: metric where
  "LEAN_ATTESTATION_VALIDATION_TIME_SECONDS = histogram ''lean_attestation_validation_time_seconds''
     ''Duration to validate an attestation''
     [5 / 1000, 1 / 100, 25 / 1000, 5 / 100, 1 / 10, 1]"

definition LEAN_PQ_SIG_ATTESTATION_SIGNING_TIME_SECONDS :: metric where
  "LEAN_PQ_SIG_ATTESTATION_SIGNING_TIME_SECONDS = histogram ''lean_pq_sig_attestation_signing_time_seconds''
     ''Time taken to sign an attestation''
     [5 / 1000, 1 / 100, 25 / 1000, 5 / 100, 1 / 10, 1]"

definition LEAN_PQ_SIG_ATTESTATION_VERIFICATION_TIME_SECONDS :: metric where
  "LEAN_PQ_SIG_ATTESTATION_VERIFICATION_TIME_SECONDS = histogram ''lean_pq_sig_attestation_verification_time_seconds''
     ''Time taken to verify an attestation signature''
     [5 / 1000, 1 / 100, 25 / 1000, 5 / 100, 1 / 10, 1]"

definition LEAN_PQ_SIG_AGGREGATED_SIGNATURES_BUILDING_TIME_SECONDS :: metric where
  "LEAN_PQ_SIG_AGGREGATED_SIGNATURES_BUILDING_TIME_SECONDS = histogram ''lean_pq_sig_aggregated_signatures_building_time_seconds''
     ''Time taken to build an aggregated attestation signature''
     [1 / 10, 25 / 100, 5 / 10, 75 / 100, 1, 125 / 100, 15 / 10, 2, 4]"

definition LEAN_PQ_SIG_AGGREGATED_SIGNATURES_VERIFICATION_TIME_SECONDS :: metric where
  "LEAN_PQ_SIG_AGGREGATED_SIGNATURES_VERIFICATION_TIME_SECONDS = histogram ''lean_pq_sig_aggregated_signatures_verification_time_seconds''
     ''Time taken to verify an aggregated attestation signature''
     [1 / 10, 25 / 100, 5 / 10, 75 / 100, 1, 125 / 100, 15 / 10, 2, 4]"

definition LEAN_COMMITTEE_SIGNATURES_AGGREGATION_TIME_SECONDS :: metric where
  "LEAN_COMMITTEE_SIGNATURES_AGGREGATION_TIME_SECONDS = histogram ''lean_committee_signatures_aggregation_time_seconds''
     ''Time taken to aggregate committee signatures''
     [5 / 1000, 1 / 100, 25 / 1000, 5 / 100, 1 / 10, 25 / 100, 5 / 10, 75 / 100, 1]"

definition LEAN_FORK_CHOICE_REORG_DEPTH :: metric where
  "LEAN_FORK_CHOICE_REORG_DEPTH = histogram ''lean_fork_choice_reorg_depth''
     ''Depth of fork choice reorgs (in blocks)''
     [1, 2, 3, 5, 7, 10, 20, 30, 50, 100]"

subsection \<open>State transition\<close>

definition LEAN_STATE_TRANSITION_SLOTS_PROCESSED_TOTAL :: metric where
  "LEAN_STATE_TRANSITION_SLOTS_PROCESSED_TOTAL = int_counter ''lean_state_transition_slots_processed_total''
     ''Count of processed slots''"

definition LEAN_STATE_TRANSITION_ATTESTATIONS_PROCESSED_TOTAL :: metric where
  "LEAN_STATE_TRANSITION_ATTESTATIONS_PROCESSED_TOTAL = int_counter ''lean_state_transition_attestations_processed_total''
     ''Count of processed attestations''"

definition LEAN_FINALIZATIONS_TOTAL :: metric where
  "LEAN_FINALIZATIONS_TOTAL = int_counter_vec ''lean_finalizations_total''
     ''Total number of finalization attempts'' [''result'']"

definition LEAN_STATE_TRANSITION_TIME_SECONDS :: metric where
  "LEAN_STATE_TRANSITION_TIME_SECONDS = histogram ''lean_state_transition_time_seconds''
     ''Duration of the entire state transition''
     [25 / 100, 5 / 10, 75 / 100, 1, 125 / 100, 15 / 10, 2, 25 / 10, 3, 4]"

definition LEAN_STATE_TRANSITION_SLOTS_PROCESSING_TIME_SECONDS :: metric where
  "LEAN_STATE_TRANSITION_SLOTS_PROCESSING_TIME_SECONDS = histogram ''lean_state_transition_slots_processing_time_seconds''
     ''Duration to process slots''
     [5 / 1000, 1 / 100, 25 / 1000, 5 / 100, 1 / 10, 1]"

definition LEAN_STATE_TRANSITION_BLOCK_PROCESSING_TIME_SECONDS :: metric where
  "LEAN_STATE_TRANSITION_BLOCK_PROCESSING_TIME_SECONDS = histogram ''lean_state_transition_block_processing_time_seconds''
     ''Duration to process a block in state transition''
     [5 / 1000, 1 / 100, 25 / 1000, 5 / 100, 1 / 10, 1]"

definition LEAN_STATE_TRANSITION_ATTESTATIONS_PROCESSING_TIME_SECONDS :: metric where
  "LEAN_STATE_TRANSITION_ATTESTATIONS_PROCESSING_TIME_SECONDS = histogram ''lean_state_transition_attestations_processing_time_seconds''
     ''Duration to process attestations''
     [5 / 1000, 1 / 100, 25 / 1000, 5 / 100, 1 / 10, 1]"

subsection \<open>P2P\<close>

definition LEAN_CONNECTED_PEERS :: metric where
  "LEAN_CONNECTED_PEERS = int_gauge_vec ''lean_connected_peers''
     ''Number of connected peers'' [''client'']"

definition LEAN_PEER_CONNECTION_EVENTS_TOTAL :: metric where
  "LEAN_PEER_CONNECTION_EVENTS_TOTAL = int_counter_vec ''lean_peer_connection_events_total''
     ''Total number of peer connection events'' [''direction'', ''result'']"

definition LEAN_PEER_DISCONNECTION_EVENTS_TOTAL :: metric where
  "LEAN_PEER_DISCONNECTION_EVENTS_TOTAL = int_counter_vec ''lean_peer_disconnection_events_total''
     ''Total number of peer disconnection events'' [''direction'', ''reason'']"

definition LEAN_ATTESTATION_COMMITTEE_SUBNET :: metric where
  "LEAN_ATTESTATION_COMMITTEE_SUBNET = int_gauge ''lean_attestation_committee_subnet''
     ''Node's attestation committee subnet''"

text \<open>What \<open>init\<close> forces, in its order, and the statics of the other crates.\<close>

definition blockchain_metrics :: "metric list" where
  "blockchain_metrics =
     [LEAN_HEAD_SLOT, LEAN_LATEST_JUSTIFIED_SLOT, LEAN_LATEST_FINALIZED_SLOT, LEAN_CURRENT_SLOT,
      LEAN_VALIDATORS_COUNT, LEAN_SAFE_TARGET_SLOT, LEAN_NODE_INFO, LEAN_NODE_START_TIME_SECONDS,
      LEAN_GOSSIP_SIGNATURES, LEAN_LATEST_NEW_AGGREGATED_PAYLOADS, LEAN_LATEST_KNOWN_AGGREGATED_PAYLOADS,
      LEAN_IS_AGGREGATOR, LEAN_ATTESTATION_COMMITTEE_COUNT, LEAN_TABLE_BYTES, LEAN_ATTESTATIONS_VALID_TOTAL,
      LEAN_ATTESTATIONS_INVALID_TOTAL, LEAN_FORK_CHOICE_REORGS_TOTAL,
      LEAN_PQ_SIG_AGGREGATED_SIGNATURES_TOTAL, LEAN_PQ_SIG_ATTESTATIONS_IN_AGGREGATED_SIGNATURES_TOTAL,
      LEAN_PQ_SIG_AGGREGATED_SIGNATURES_VALID_TOTAL, LEAN_PQ_SIG_AGGREGATED_SIGNATURES_INVALID_TOTAL,
      LEAN_PQ_SIG_ATTESTATION_SIGNATURES_TOTAL, LEAN_PQ_SIG_ATTESTATION_SIGNATURES_VALID_TOTAL,
      LEAN_PQ_SIG_ATTESTATION_SIGNATURES_INVALID_TOTAL, LEAN_FORK_CHOICE_BLOCK_PROCESSING_TIME_SECONDS,
      LEAN_ATTESTATION_VALIDATION_TIME_SECONDS, LEAN_PQ_SIG_ATTESTATION_SIGNING_TIME_SECONDS,
      LEAN_PQ_SIG_ATTESTATION_VERIFICATION_TIME_SECONDS,
      LEAN_PQ_SIG_AGGREGATED_SIGNATURES_BUILDING_TIME_SECONDS,
      LEAN_PQ_SIG_AGGREGATED_SIGNATURES_VERIFICATION_TIME_SECONDS,
      LEAN_COMMITTEE_SIGNATURES_AGGREGATION_TIME_SECONDS, LEAN_FORK_CHOICE_REORG_DEPTH]"

definition other_metrics :: "metric list" where
  "other_metrics =
     [LEAN_STATE_TRANSITION_SLOTS_PROCESSED_TOTAL, LEAN_STATE_TRANSITION_ATTESTATIONS_PROCESSED_TOTAL,
      LEAN_FINALIZATIONS_TOTAL, LEAN_STATE_TRANSITION_TIME_SECONDS,
      LEAN_STATE_TRANSITION_SLOTS_PROCESSING_TIME_SECONDS,
      LEAN_STATE_TRANSITION_BLOCK_PROCESSING_TIME_SECONDS,
      LEAN_STATE_TRANSITION_ATTESTATIONS_PROCESSING_TIME_SECONDS, LEAN_CONNECTED_PEERS,
      LEAN_PEER_CONNECTION_EVENTS_TOTAL, LEAN_PEER_DISCONNECTION_EVENTS_TOTAL,
      LEAN_ATTESTATION_COMMITTEE_SUBNET]"

definition all_metrics :: "metric list" where
  "all_metrics = blockchain_metrics @ other_metrics"

lemmas static_defs =
  LEAN_HEAD_SLOT_def
  LEAN_LATEST_JUSTIFIED_SLOT_def
  LEAN_LATEST_FINALIZED_SLOT_def
  LEAN_CURRENT_SLOT_def
  LEAN_VALIDATORS_COUNT_def
  LEAN_SAFE_TARGET_SLOT_def
  LEAN_NODE_INFO_def
  LEAN_NODE_START_TIME_SECONDS_def
  LEAN_GOSSIP_SIGNATURES_def
  LEAN_LATEST_NEW_AGGREGATED_PAYLOADS_def
  LEAN_LATEST_KNOWN_AGGREGATED_PAYLOADS_def
  LEAN_IS_AGGREGATOR_def
  LEAN_ATTESTATION_COMMITTEE_COUNT_def
  LEAN_TABLE_BYTES_def
  LEAN_ATTESTATIONS_VALID_TOTAL_def
  LEAN_ATTESTATIONS_INVALID_TOTAL_def
  LEAN_FORK_CHOICE_REORGS_TOTAL_def
  LEAN_PQ_SIG_AGGREGATED_SIGNATURES_TOTAL_def
  LEAN_PQ_SIG_ATTESTATIONS_IN_AGGREGATED_SIGNATURES_TOTAL_def
  LEAN_PQ_SIG_AGGREGATED_SIGNATURES_VALID_TOTAL_def
  LEAN_PQ_SIG_AGGREGATED_SIGNATURES_INVALID_TOTAL_def
  LEAN_PQ_SIG_ATTESTATION_SIGNATURES_TOTAL_def
  LEAN_PQ_SIG_ATTESTATION_SIGNATURES_VALID_TOTAL_def
  LEAN_PQ_SIG_ATTESTATION_SIGNATURES_INVALID_TOTAL_def
  LEAN_FORK_CHOICE_BLOCK_PROCESSING_TIME_SECONDS_def
  LEAN_ATTESTATION_VALIDATION_TIME_SECONDS_def
  LEAN_PQ_SIG_ATTESTATION_SIGNING_TIME_SECONDS_def
  LEAN_PQ_SIG_ATTESTATION_VERIFICATION_TIME_SECONDS_def
  LEAN_PQ_SIG_AGGREGATED_SIGNATURES_BUILDING_TIME_SECONDS_def
  LEAN_PQ_SIG_AGGREGATED_SIGNATURES_VERIFICATION_TIME_SECONDS_def
  LEAN_COMMITTEE_SIGNATURES_AGGREGATION_TIME_SECONDS_def
  LEAN_FORK_CHOICE_REORG_DEPTH_def
  LEAN_STATE_TRANSITION_SLOTS_PROCESSED_TOTAL_def
  LEAN_STATE_TRANSITION_ATTESTATIONS_PROCESSED_TOTAL_def
  LEAN_FINALIZATIONS_TOTAL_def
  LEAN_STATE_TRANSITION_TIME_SECONDS_def
  LEAN_STATE_TRANSITION_SLOTS_PROCESSING_TIME_SECONDS_def
  LEAN_STATE_TRANSITION_BLOCK_PROCESSING_TIME_SECONDS_def
  LEAN_STATE_TRANSITION_ATTESTATIONS_PROCESSING_TIME_SECONDS_def
  LEAN_CONNECTED_PEERS_def
  LEAN_PEER_CONNECTION_EVENTS_TOTAL_def
  LEAN_PEER_DISCONNECTION_EVENTS_TOTAL_def
  LEAN_ATTESTATION_COMMITTEE_SUBNET_def

section \<open>Operations\<close>

definition force :: "'r prometheus \<Rightarrow> metric \<Rightarrow> 'r metrics \<Rightarrow> 'r metrics_run" where
  "force P m mx =
     (if m \<in> set (mx_lazy mx) then Ok mx
      else bind_res (expect (pr_register P m (mx_registry mx))) (\<lambda>r.
             Ok \<lparr>mx_lazy = m # mx_lazy mx, mx_registry = r\<rparr>))"

text \<open>Using a static initializes it first.\<close>

definition use_metric :: "'r prometheus \<Rightarrow> metric \<Rightarrow> ('r \<Rightarrow> 'r option) \<Rightarrow> 'r metrics \<Rightarrow> 'r metrics_run" where
  "use_metric P m call mx =
     bind_res (force P m mx) (\<lambda>mx. bind_res (expect (call (mx_registry mx))) (\<lambda>r. Ok (mx\<lparr>mx_registry := r\<rparr>)))"

definition set_gauge :: "'r prometheus \<Rightarrow> metric \<Rightarrow> string list \<Rightarrow> i64 \<Rightarrow> 'r metrics \<Rightarrow> 'r metrics_run" where
  "set_gauge P m labels v = use_metric P m (pr_set P m labels v)"

definition inc_counter :: "'r prometheus \<Rightarrow> metric \<Rightarrow> string list \<Rightarrow> u64 \<Rightarrow> 'r metrics \<Rightarrow> 'r metrics_run" where
  "inc_counter P m labels n = use_metric P m (pr_inc_by P m labels n)"

definition observe :: "'r prometheus \<Rightarrow> metric \<Rightarrow> f64 \<Rightarrow> 'r metrics \<Rightarrow> 'r metrics_run" where
  "observe P m v = use_metric P m (pr_observe P m v)"

text \<open>\<open>u64::try_into\<close> to a signed integer, and \<open>as\<close>, which reinterprets the bits.\<close>

definition to_i64 :: "u64 \<Rightarrow> i64 option" where
  "to_i64 v = (if unat v < 2 ^ 63 then Some v else None)"

definition set_gauge_checked :: "'r prometheus \<Rightarrow> metric \<Rightarrow> u64 \<Rightarrow> 'r metrics \<Rightarrow> 'r metrics_run" where
  "set_gauge_checked P m v mx = bind_res (expect (to_i64 v)) (\<lambda>v. set_gauge P m [] v mx)"

subsection \<open>Blockchain\<close>

definition metrics_init :: "'r prometheus \<Rightarrow> 'r metrics \<Rightarrow> 'r metrics_run" where
  "metrics_init P mx = fold_res (force P) blockchain_metrics mx"

definition update_head_slot :: "'r prometheus \<Rightarrow> u64 \<Rightarrow> 'r metrics \<Rightarrow> 'r metrics_run" where
  "update_head_slot P slot = set_gauge_checked P LEAN_HEAD_SLOT slot"

definition update_latest_justified_slot :: "'r prometheus \<Rightarrow> u64 \<Rightarrow> 'r metrics \<Rightarrow> 'r metrics_run" where
  "update_latest_justified_slot P slot = set_gauge_checked P LEAN_LATEST_JUSTIFIED_SLOT slot"

definition update_latest_finalized_slot :: "'r prometheus \<Rightarrow> u64 \<Rightarrow> 'r metrics \<Rightarrow> 'r metrics_run" where
  "update_latest_finalized_slot P slot = set_gauge_checked P LEAN_LATEST_FINALIZED_SLOT slot"

definition update_current_slot :: "'r prometheus \<Rightarrow> u64 \<Rightarrow> 'r metrics \<Rightarrow> 'r metrics_run" where
  "update_current_slot P slot = set_gauge_checked P LEAN_CURRENT_SLOT slot"

definition update_validators_count :: "'r prometheus \<Rightarrow> u64 \<Rightarrow> 'r metrics \<Rightarrow> 'r metrics_run" where
  "update_validators_count P count = set_gauge_checked P LEAN_VALIDATORS_COUNT count"

definition update_safe_target_slot :: "'r prometheus \<Rightarrow> u64 \<Rightarrow> 'r metrics \<Rightarrow> 'r metrics_run" where
  "update_safe_target_slot P slot = set_gauge_checked P LEAN_SAFE_TARGET_SLOT slot"

definition set_node_info :: "'r prometheus \<Rightarrow> string \<Rightarrow> string \<Rightarrow> 'r metrics \<Rightarrow> 'r metrics_run" where
  "set_node_info P name version = set_gauge P LEAN_NODE_INFO [name, version] 1"

text \<open>The clock gives the seconds since the epoch, or nothing when it is before the epoch.\<close>

definition set_node_start_time :: "'r prometheus \<Rightarrow> u64 option \<Rightarrow> 'r metrics \<Rightarrow> 'r metrics_run" where
  "set_node_start_time P now mx =
     bind_res (expect now) (\<lambda>timestamp. set_gauge P LEAN_NODE_START_TIME_SECONDS [] timestamp mx)"

definition inc_attestations_valid :: "'r prometheus \<Rightarrow> 'r metrics \<Rightarrow> 'r metrics_run" where
  "inc_attestations_valid P = inc_counter P LEAN_ATTESTATIONS_VALID_TOTAL [] 1"

definition inc_attestations_invalid :: "'r prometheus \<Rightarrow> 'r metrics \<Rightarrow> 'r metrics_run" where
  "inc_attestations_invalid P = inc_counter P LEAN_ATTESTATIONS_INVALID_TOTAL [] 1"

definition inc_fork_choice_reorgs :: "'r prometheus \<Rightarrow> 'r metrics \<Rightarrow> 'r metrics_run" where
  "inc_fork_choice_reorgs P = inc_counter P LEAN_FORK_CHOICE_REORGS_TOTAL [] 1"

definition inc_pq_sig_aggregated_signatures :: "'r prometheus \<Rightarrow> 'r metrics \<Rightarrow> 'r metrics_run" where
  "inc_pq_sig_aggregated_signatures P = inc_counter P LEAN_PQ_SIG_AGGREGATED_SIGNATURES_TOTAL [] 1"

definition inc_pq_sig_attestations_in_aggregated_signatures ::
  "'r prometheus \<Rightarrow> u64 \<Rightarrow> 'r metrics \<Rightarrow> 'r metrics_run" where
  "inc_pq_sig_attestations_in_aggregated_signatures P count =
     inc_counter P LEAN_PQ_SIG_ATTESTATIONS_IN_AGGREGATED_SIGNATURES_TOTAL [] count"

definition inc_pq_sig_aggregated_signatures_valid :: "'r prometheus \<Rightarrow> 'r metrics \<Rightarrow> 'r metrics_run" where
  "inc_pq_sig_aggregated_signatures_valid P =
     inc_counter P LEAN_PQ_SIG_AGGREGATED_SIGNATURES_VALID_TOTAL [] 1"

definition inc_pq_sig_aggregated_signatures_invalid :: "'r prometheus \<Rightarrow> 'r metrics \<Rightarrow> 'r metrics_run" where
  "inc_pq_sig_aggregated_signatures_invalid P =
     inc_counter P LEAN_PQ_SIG_AGGREGATED_SIGNATURES_INVALID_TOTAL [] 1"

definition inc_pq_sig_attestation_signatures :: "'r prometheus \<Rightarrow> 'r metrics \<Rightarrow> 'r metrics_run" where
  "inc_pq_sig_attestation_signatures P = inc_counter P LEAN_PQ_SIG_ATTESTATION_SIGNATURES_TOTAL [] 1"

definition inc_pq_sig_attestation_signatures_valid :: "'r prometheus \<Rightarrow> 'r metrics \<Rightarrow> 'r metrics_run" where
  "inc_pq_sig_attestation_signatures_valid P =
     inc_counter P LEAN_PQ_SIG_ATTESTATION_SIGNATURES_VALID_TOTAL [] 1"

definition inc_pq_sig_attestation_signatures_invalid :: "'r prometheus \<Rightarrow> 'r metrics \<Rightarrow> 'r metrics_run" where
  "inc_pq_sig_attestation_signatures_invalid P =
     inc_counter P LEAN_PQ_SIG_ATTESTATION_SIGNATURES_INVALID_TOTAL [] 1"

definition update_table_bytes :: "'r prometheus \<Rightarrow> string \<Rightarrow> u64 \<Rightarrow> 'r metrics \<Rightarrow> 'r metrics_run" where
  "update_table_bytes P table_name n = set_gauge P LEAN_TABLE_BYTES [table_name] n"

definition update_gossip_signatures :: "'r prometheus \<Rightarrow> nat \<Rightarrow> 'r metrics \<Rightarrow> 'r metrics_run" where
  "update_gossip_signatures P count = set_gauge P LEAN_GOSSIP_SIGNATURES [] (word_of_nat count)"

definition update_latest_new_aggregated_payloads :: "'r prometheus \<Rightarrow> nat \<Rightarrow> 'r metrics \<Rightarrow> 'r metrics_run" where
  "update_latest_new_aggregated_payloads P count =
     set_gauge P LEAN_LATEST_NEW_AGGREGATED_PAYLOADS [] (word_of_nat count)"

definition update_latest_known_aggregated_payloads :: "'r prometheus \<Rightarrow> nat \<Rightarrow> 'r metrics \<Rightarrow> 'r metrics_run" where
  "update_latest_known_aggregated_payloads P count =
     set_gauge P LEAN_LATEST_KNOWN_AGGREGATED_PAYLOADS [] (word_of_nat count)"

definition set_is_aggregator :: "'r prometheus \<Rightarrow> bool \<Rightarrow> 'r metrics \<Rightarrow> 'r metrics_run" where
  "set_is_aggregator P is_aggregator = set_gauge P LEAN_IS_AGGREGATOR [] (of_bool is_aggregator)"

text \<open>A count that does not fit is shown as zero.\<close>

definition set_attestation_committee_count :: "'r prometheus \<Rightarrow> u64 \<Rightarrow> 'r metrics \<Rightarrow> 'r metrics_run" where
  "set_attestation_committee_count P count =
     set_gauge P LEAN_ATTESTATION_COMMITTEE_COUNT [] (case to_i64 count of Some v \<Rightarrow> v | None \<Rightarrow> 0)"

definition observe_fork_choice_reorg_depth :: "'r prometheus \<Rightarrow> u64 \<Rightarrow> 'r metrics \<Rightarrow> 'r metrics_run" where
  "observe_fork_choice_reorg_depth P depth = observe P LEAN_FORK_CHOICE_REORG_DEPTH (OfCount depth)"

subsection \<open>Timers\<close>

text \<open>A guard remembers when it was made; dropping it records the time since then.\<close>

record timing_guard =
  tg_histogram :: metric
  tg_start :: nat

definition timing_guard_new ::
  "'r prometheus \<Rightarrow> metric \<Rightarrow> nat \<Rightarrow> 'r metrics \<Rightarrow> ('r metrics \<times> timing_guard, unit) result" where
  "timing_guard_new P m now mx =
     bind_res (force P m mx) (\<lambda>mx. Ok (mx, \<lparr>tg_histogram = m, tg_start = now\<rparr>))"

definition timing_guard_drop :: "'r prometheus \<Rightarrow> timing_guard \<Rightarrow> nat \<Rightarrow> 'r metrics \<Rightarrow> 'r metrics_run" where
  "timing_guard_drop P g now = observe P (tg_histogram g) (OfNanos (now - tg_start g))"


definition time_fork_choice_block_processing :: "'r prometheus \<Rightarrow> nat \<Rightarrow> 'r metrics \<Rightarrow> ('r metrics \<times> timing_guard, unit) result" where
  "time_fork_choice_block_processing P = timing_guard_new P LEAN_FORK_CHOICE_BLOCK_PROCESSING_TIME_SECONDS"

definition time_attestation_validation :: "'r prometheus \<Rightarrow> nat \<Rightarrow> 'r metrics \<Rightarrow> ('r metrics \<times> timing_guard, unit) result" where
  "time_attestation_validation P = timing_guard_new P LEAN_ATTESTATION_VALIDATION_TIME_SECONDS"

definition time_pq_sig_attestation_signing :: "'r prometheus \<Rightarrow> nat \<Rightarrow> 'r metrics \<Rightarrow> ('r metrics \<times> timing_guard, unit) result" where
  "time_pq_sig_attestation_signing P = timing_guard_new P LEAN_PQ_SIG_ATTESTATION_SIGNING_TIME_SECONDS"

definition time_pq_sig_attestation_verification :: "'r prometheus \<Rightarrow> nat \<Rightarrow> 'r metrics \<Rightarrow> ('r metrics \<times> timing_guard, unit) result" where
  "time_pq_sig_attestation_verification P = timing_guard_new P LEAN_PQ_SIG_ATTESTATION_VERIFICATION_TIME_SECONDS"

definition time_pq_sig_aggregated_signatures_building :: "'r prometheus \<Rightarrow> nat \<Rightarrow> 'r metrics \<Rightarrow> ('r metrics \<times> timing_guard, unit) result" where
  "time_pq_sig_aggregated_signatures_building P = timing_guard_new P LEAN_PQ_SIG_AGGREGATED_SIGNATURES_BUILDING_TIME_SECONDS"

definition time_pq_sig_aggregated_signatures_verification :: "'r prometheus \<Rightarrow> nat \<Rightarrow> 'r metrics \<Rightarrow> ('r metrics \<times> timing_guard, unit) result" where
  "time_pq_sig_aggregated_signatures_verification P = timing_guard_new P LEAN_PQ_SIG_AGGREGATED_SIGNATURES_VERIFICATION_TIME_SECONDS"

definition time_committee_signatures_aggregation :: "'r prometheus \<Rightarrow> nat \<Rightarrow> 'r metrics \<Rightarrow> ('r metrics \<times> timing_guard, unit) result" where
  "time_committee_signatures_aggregation P = timing_guard_new P LEAN_COMMITTEE_SIGNATURES_AGGREGATION_TIME_SECONDS"

subsection \<open>State transition\<close>

definition inc_slots_processed :: "'r prometheus \<Rightarrow> u64 \<Rightarrow> 'r metrics \<Rightarrow> 'r metrics_run" where
  "inc_slots_processed P count = inc_counter P LEAN_STATE_TRANSITION_SLOTS_PROCESSED_TOTAL [] count"

definition inc_attestations_processed :: "'r prometheus \<Rightarrow> u64 \<Rightarrow> 'r metrics \<Rightarrow> 'r metrics_run" where
  "inc_attestations_processed P count = inc_counter P LEAN_STATE_TRANSITION_ATTESTATIONS_PROCESSED_TOTAL [] count"

definition inc_finalizations :: "'r prometheus \<Rightarrow> string \<Rightarrow> 'r metrics \<Rightarrow> 'r metrics_run" where
  "inc_finalizations P res = inc_counter P LEAN_FINALIZATIONS_TOTAL [res] 1"

definition time_state_transition :: "'r prometheus \<Rightarrow> nat \<Rightarrow> 'r metrics \<Rightarrow> ('r metrics \<times> timing_guard, unit) result" where
  "time_state_transition P = timing_guard_new P LEAN_STATE_TRANSITION_TIME_SECONDS"

definition time_slots_processing :: "'r prometheus \<Rightarrow> nat \<Rightarrow> 'r metrics \<Rightarrow> ('r metrics \<times> timing_guard, unit) result" where
  "time_slots_processing P = timing_guard_new P LEAN_STATE_TRANSITION_SLOTS_PROCESSING_TIME_SECONDS"

definition time_block_processing :: "'r prometheus \<Rightarrow> nat \<Rightarrow> 'r metrics \<Rightarrow> ('r metrics \<times> timing_guard, unit) result" where
  "time_block_processing P = timing_guard_new P LEAN_STATE_TRANSITION_BLOCK_PROCESSING_TIME_SECONDS"

definition time_attestations_processing :: "'r prometheus \<Rightarrow> nat \<Rightarrow> 'r metrics \<Rightarrow> ('r metrics \<times> timing_guard, unit) result" where
  "time_attestations_processing P = timing_guard_new P LEAN_STATE_TRANSITION_ATTESTATIONS_PROCESSING_TIME_SECONDS"

section \<open>Calls\<close>

text \<open>
  Every use the code makes of the metrics, a timed section as one call with its two instants. The calls
  of the peer metrics are in \<open>Peer_Metrics\<close>; here they initialize a static.
\<close>

datatype peer_static = ConnectedPeers | PeerConnectionEvents | PeerDisconnectionEvents | CommitteeSubnet

fun peer_metric :: "peer_static \<Rightarrow> metric" where
  "peer_metric ConnectedPeers = LEAN_CONNECTED_PEERS"
| "peer_metric PeerConnectionEvents = LEAN_PEER_CONNECTION_EVENTS_TOTAL"
| "peer_metric PeerDisconnectionEvents = LEAN_PEER_DISCONNECTION_EVENTS_TOTAL"
| "peer_metric CommitteeSubnet = LEAN_ATTESTATION_COMMITTEE_SUBNET"

datatype metric_call = MetricsInit | UpdateHeadSlot u64 | UpdateLatestJustifiedSlot u64
  | UpdateLatestFinalizedSlot u64 | UpdateCurrentSlot u64 | UpdateValidatorsCount u64
  | UpdateSafeTargetSlot u64 | SetNodeInfo string string | SetNodeStartTime "u64 option"
  | IncAttestationsValid | IncAttestationsInvalid | IncForkChoiceReorgs | IncPqSigAggregatedSignatures
  | IncPqSigAttestationsInAggregatedSignatures u64 | IncPqSigAggregatedSignaturesValid
  | IncPqSigAggregatedSignaturesInvalid | IncPqSigAttestationSignatures
  | IncPqSigAttestationSignaturesValid | IncPqSigAttestationSignaturesInvalid | UpdateTableBytes string u64
  | UpdateGossipSignatures nat | UpdateLatestNewAggregatedPayloads nat
  | UpdateLatestKnownAggregatedPayloads nat | SetIsAggregator bool | SetAttestationCommitteeCount u64
  | ObserveForkChoiceReorgDepth u64 | IncSlotsProcessed u64 | IncAttestationsProcessed u64
  | IncFinalizations string | TimeForkChoiceBlockProcessing nat nat | TimeAttestationValidation nat nat
  | TimePqSigAttestationSigning nat nat | TimePqSigAttestationVerification nat nat
  | TimePqSigAggregatedSignaturesBuilding nat nat | TimePqSigAggregatedSignaturesVerification nat nat
  | TimeCommitteeSignaturesAggregation nat nat | TimeStateTransition nat nat | TimeSlotsProcessing nat nat
  | TimeBlockProcessing nat nat | TimeAttestationsProcessing nat nat | PeerMetric peer_static

definition timed ::
  "'r prometheus \<Rightarrow> (nat \<Rightarrow> 'r metrics \<Rightarrow> ('r metrics \<times> timing_guard, unit) result) \<Rightarrow> nat \<Rightarrow> nat \<Rightarrow>
   'r metrics \<Rightarrow> 'r metrics_run" where
  "timed P start t0 t1 mx = bind_res (start t0 mx) (\<lambda>(mx, guard). timing_guard_drop P guard t1 mx)"

fun run_call :: "'r prometheus \<Rightarrow> metric_call \<Rightarrow> 'r metrics \<Rightarrow> 'r metrics_run" where
  "run_call P MetricsInit = metrics_init P"
| "run_call P (UpdateHeadSlot a) = update_head_slot P a"
| "run_call P (UpdateLatestJustifiedSlot a) = update_latest_justified_slot P a"
| "run_call P (UpdateLatestFinalizedSlot a) = update_latest_finalized_slot P a"
| "run_call P (UpdateCurrentSlot a) = update_current_slot P a"
| "run_call P (UpdateValidatorsCount a) = update_validators_count P a"
| "run_call P (UpdateSafeTargetSlot a) = update_safe_target_slot P a"
| "run_call P (SetNodeInfo a b) = set_node_info P a b"
| "run_call P (SetNodeStartTime a) = set_node_start_time P a"
| "run_call P IncAttestationsValid = inc_attestations_valid P"
| "run_call P IncAttestationsInvalid = inc_attestations_invalid P"
| "run_call P IncForkChoiceReorgs = inc_fork_choice_reorgs P"
| "run_call P IncPqSigAggregatedSignatures = inc_pq_sig_aggregated_signatures P"
| "run_call P (IncPqSigAttestationsInAggregatedSignatures a) = inc_pq_sig_attestations_in_aggregated_signatures P a"
| "run_call P IncPqSigAggregatedSignaturesValid = inc_pq_sig_aggregated_signatures_valid P"
| "run_call P IncPqSigAggregatedSignaturesInvalid = inc_pq_sig_aggregated_signatures_invalid P"
| "run_call P IncPqSigAttestationSignatures = inc_pq_sig_attestation_signatures P"
| "run_call P IncPqSigAttestationSignaturesValid = inc_pq_sig_attestation_signatures_valid P"
| "run_call P IncPqSigAttestationSignaturesInvalid = inc_pq_sig_attestation_signatures_invalid P"
| "run_call P (UpdateTableBytes a b) = update_table_bytes P a b"
| "run_call P (UpdateGossipSignatures a) = update_gossip_signatures P a"
| "run_call P (UpdateLatestNewAggregatedPayloads a) = update_latest_new_aggregated_payloads P a"
| "run_call P (UpdateLatestKnownAggregatedPayloads a) = update_latest_known_aggregated_payloads P a"
| "run_call P (SetIsAggregator a) = set_is_aggregator P a"
| "run_call P (SetAttestationCommitteeCount a) = set_attestation_committee_count P a"
| "run_call P (ObserveForkChoiceReorgDepth a) = observe_fork_choice_reorg_depth P a"
| "run_call P (IncSlotsProcessed a) = inc_slots_processed P a"
| "run_call P (IncAttestationsProcessed a) = inc_attestations_processed P a"
| "run_call P (IncFinalizations a) = inc_finalizations P a"
| "run_call P (TimeForkChoiceBlockProcessing t0 t1) = timed P (time_fork_choice_block_processing P) t0 t1"
| "run_call P (TimeAttestationValidation t0 t1) = timed P (time_attestation_validation P) t0 t1"
| "run_call P (TimePqSigAttestationSigning t0 t1) = timed P (time_pq_sig_attestation_signing P) t0 t1"
| "run_call P (TimePqSigAttestationVerification t0 t1) = timed P (time_pq_sig_attestation_verification P) t0 t1"
| "run_call P (TimePqSigAggregatedSignaturesBuilding t0 t1) = timed P (time_pq_sig_aggregated_signatures_building P) t0 t1"
| "run_call P (TimePqSigAggregatedSignaturesVerification t0 t1) = timed P (time_pq_sig_aggregated_signatures_verification P) t0 t1"
| "run_call P (TimeCommitteeSignaturesAggregation t0 t1) = timed P (time_committee_signatures_aggregation P) t0 t1"
| "run_call P (TimeStateTransition t0 t1) = timed P (time_state_transition P) t0 t1"
| "run_call P (TimeSlotsProcessing t0 t1) = timed P (time_slots_processing P) t0 t1"
| "run_call P (TimeBlockProcessing t0 t1) = timed P (time_block_processing P) t0 t1"
| "run_call P (TimeAttestationsProcessing t0 t1) = timed P (time_attestations_processing P) t0 t1"
| "run_call P (PeerMetric s) = force P (peer_metric s)"

lemmas api_defs =
  update_head_slot_def
  update_latest_justified_slot_def
  update_latest_finalized_slot_def
  update_current_slot_def
  update_validators_count_def
  update_safe_target_slot_def
  set_node_info_def
  set_node_start_time_def
  inc_attestations_valid_def
  inc_attestations_invalid_def
  inc_fork_choice_reorgs_def
  inc_pq_sig_aggregated_signatures_def
  inc_pq_sig_attestations_in_aggregated_signatures_def
  inc_pq_sig_aggregated_signatures_valid_def
  inc_pq_sig_aggregated_signatures_invalid_def
  inc_pq_sig_attestation_signatures_def
  inc_pq_sig_attestation_signatures_valid_def
  inc_pq_sig_attestation_signatures_invalid_def
  update_table_bytes_def
  update_gossip_signatures_def
  update_latest_new_aggregated_payloads_def
  update_latest_known_aggregated_payloads_def
  set_is_aggregator_def
  set_attestation_committee_count_def
  observe_fork_choice_reorg_depth_def
  inc_slots_processed_def
  inc_attestations_processed_def
  inc_finalizations_def

lemmas timer_defs =
  time_fork_choice_block_processing_def
  time_attestation_validation_def
  time_pq_sig_attestation_signing_def
  time_pq_sig_attestation_verification_def
  time_pq_sig_aggregated_signatures_building_def
  time_pq_sig_aggregated_signatures_verification_def
  time_committee_signatures_aggregation_def
  time_state_transition_def
  time_slots_processing_def
  time_block_processing_def
  time_attestations_processing_def

section \<open>What the library documents\<close>

definition is_letter :: "char \<Rightarrow> bool" where
  "is_letter c = (let n = of_char c :: nat in 65 \<le> n \<and> n \<le> 90 \<or> 97 \<le> n \<and> n \<le> 122 \<or> n = 95)"

definition is_digit :: "char \<Rightarrow> bool" where
  "is_digit c = (let n = of_char c :: nat in 48 \<le> n \<and> n \<le> 57)"

fun valid_ident :: "string \<Rightarrow> bool" where
  "valid_ident [] = False"
| "valid_ident (c # cs) = (is_letter c \<and> list_all (\<lambda>c. is_letter c \<or> is_digit c) cs)"

text \<open>A descriptor the library accepts: names are identifiers, there is a help text, labels differ, buckets ascend.\<close>

definition metric_valid :: "metric \<Rightarrow> bool" where
  "metric_valid m \<longleftrightarrow> valid_ident (mt_name m) \<and> mt_help m \<noteq> [] \<and> list_all valid_ident (mt_labels m) \<and>
     distinct (mt_labels m) \<and> \<not> (mt_kind m = Histogram \<and> ''le'' \<in> set (mt_labels m)) \<and> sorted_wrt (<) (mt_buckets m)"

locale prometheus_library =
  fixes P :: "'r prometheus" and registered :: "'r \<Rightarrow> metric set"
    and reading :: "'r \<Rightarrow> metric \<times> string list \<Rightarrow> 64 word" and samples :: "'r \<Rightarrow> metric \<Rightarrow> f64 list"
  assumes register_fresh: "metric_valid m \<Longrightarrow> mt_name m \<notin> mt_name ` registered r \<Longrightarrow>
      \<exists>r'. pr_register P m r = Some r' \<and> registered r' = insert m (registered r) \<and>
        reading r' = reading r \<and> samples r' = samples r"
    and set_registered: "m \<in> registered r \<Longrightarrow> mt_kind m = IntGauge \<Longrightarrow> length labels = length (mt_labels m) \<Longrightarrow>
      \<exists>r'. pr_set P m labels v r = Some r' \<and> registered r' = registered r \<and>
        reading r' = (reading r)((m, labels) := v) \<and> samples r' = samples r"
    and inc_registered: "m \<in> registered r \<Longrightarrow> mt_kind m = IntCounter \<Longrightarrow> length labels = length (mt_labels m) \<Longrightarrow>
      \<exists>r'. pr_inc_by P m labels n r = Some r' \<and> registered r' = registered r \<and>
        reading r' = (reading r)((m, labels) := reading r (m, labels) + n) \<and> samples r' = samples r"
    and observe_registered: "m \<in> registered r \<Longrightarrow> mt_kind m = Histogram \<Longrightarrow>
      \<exists>r'. pr_observe P m x r = Some r' \<and> registered r' = registered r \<and>
        reading r' = reading r \<and> samples r' = (samples r)(m := samples r m @ [x])"

section \<open>The statics are valid and have different names\<close>

lemma all_metrics_valid: "list_all metric_valid all_metrics"
  by (simp add: all_metrics_def blockchain_metrics_def other_metrics_def static_defs int_gauge_def int_gauge_vec_def
      int_counter_def int_counter_vec_def histogram_def metric_valid_def is_letter_def is_digit_def)

lemma all_metrics_distinct: "distinct (map mt_name all_metrics)"
  by (simp add: all_metrics_def blockchain_metrics_def other_metrics_def static_defs int_gauge_def int_gauge_vec_def
      int_counter_def int_counter_vec_def histogram_def)

lemma metric_by_name: "m \<in> set all_metrics \<Longrightarrow> m' \<in> set all_metrics \<Longrightarrow> mt_name m = mt_name m' \<Longrightarrow> m = m'"
  using all_metrics_distinct by (meson distinct_map inj_onD)

lemma static_members:
  "m \<in> set blockchain_metrics \<Longrightarrow> m \<in> set all_metrics" "m \<in> set other_metrics \<Longrightarrow> m \<in> set all_metrics"
  by (simp_all add: all_metrics_def)

text \<open>A call that succeeds, with what holds of its result.\<close>

definition yields :: "('a, 'e) result \<Rightarrow> ('a \<Rightarrow> bool) \<Rightarrow> bool" where
  "yields r Q \<longleftrightarrow> (\<exists>x. r = Ok x \<and> Q x)"

lemma yields_Ok [simp]: "yields (Ok x) Q \<longleftrightarrow> Q x"
  by (simp add: yields_def)

lemma yields_Panic [simp]: "\<not> yields Panic Q"
  by (simp add: yields_def)

lemma yields_bind: "yields r R \<Longrightarrow> (\<And>x. R x \<Longrightarrow> yields (f x) Q) \<Longrightarrow> yields (bind_res r f) Q"
  by (auto simp: yields_def)

lemma yields_mono: "yields r R \<Longrightarrow> (\<And>x. R x \<Longrightarrow> Q x) \<Longrightarrow> yields r Q"
  by (auto simp: yields_def)

section \<open>Metrics in use\<close>

text \<open>
  The invariant: the initialized statics are registered, and nothing else is registered under the
  name of a static.
\<close>

definition metrics_ok :: "('r \<Rightarrow> metric set) \<Rightarrow> 'r metrics \<Rightarrow> bool" where
  "metrics_ok registered mx \<longleftrightarrow>
     set (mx_lazy mx) \<subseteq> registered (mx_registry mx) \<inter> set all_metrics \<and>
     (\<forall>m \<in> registered (mx_registry mx). mt_name m \<in> mt_name ` set all_metrics \<longrightarrow> m \<in> set (mx_lazy mx))"

context prometheus_library
begin

text \<open>What a call does to the readings of gauges and counters and to the samples of histograms.\<close>

definition goes ::
  "'r metrics \<Rightarrow> 'r metrics_run \<Rightarrow> (metric \<times> string list \<Rightarrow> 64 word) \<Rightarrow> (metric \<Rightarrow> f64 list) \<Rightarrow> bool" where
  "goes mx run rd sm \<longleftrightarrow> yields run (\<lambda>mx'. metrics_ok registered mx' \<and> set (mx_lazy mx) \<subseteq> set (mx_lazy mx') \<and>
     reading (mx_registry mx') = rd \<and> samples (mx_registry mx') = sm)"

lemma force_goes:
  assumes ok: "metrics_ok registered mx" and m: "m \<in> set all_metrics"
  shows "yields (force P m mx) (\<lambda>mx'. metrics_ok registered mx' \<and> set (mx_lazy mx') = insert m (set (mx_lazy mx)) \<and>
    m \<in> registered (mx_registry mx') \<and>
    reading (mx_registry mx') = reading (mx_registry mx) \<and> samples (mx_registry mx') = samples (mx_registry mx))"
proof (cases "m \<in> set (mx_lazy mx)")
  case True
  with ok show ?thesis by (auto simp: force_def metrics_ok_def)
next
  case False
  have "mt_name m \<notin> mt_name ` registered (mx_registry mx)"
  proof
    assume "mt_name m \<in> mt_name ` registered (mx_registry mx)"
    then obtain x where x: "mt_name m = mt_name x" "x \<in> registered (mx_registry mx)" by blast
    from m x(1) have "mt_name x \<in> mt_name ` set all_metrics" by (metis image_eqI)
    with ok x(2) have "x \<in> set (mx_lazy mx)" unfolding metrics_ok_def by blast
    moreover from this ok have "x \<in> set all_metrics" unfolding metrics_ok_def by blast
    ultimately show False using metric_by_name [OF m _ x(1)] False by blast
  qed
  moreover have "metric_valid m" using all_metrics_valid m by (simp add: list_all_iff)
  ultimately obtain r' where "pr_register P m (mx_registry mx) = Some r'"
    "registered r' = insert m (registered (mx_registry mx))" "reading r' = reading (mx_registry mx)"
    "samples r' = samples (mx_registry mx)" using register_fresh by blast
  with False ok m show ?thesis by (auto simp: force_def metrics_ok_def)
qed

lemma use_goes:
  assumes "metrics_ok registered mx" and "m \<in> set all_metrics"
    and "\<And>r. m \<in> registered r \<Longrightarrow> \<exists>r'. call r = Some r' \<and> registered r' = registered r \<and>
      reading r' = f (reading r) \<and> samples r' = g (samples r)"
  shows "goes mx (use_metric P m call mx) (f (reading (mx_registry mx))) (g (samples (mx_registry mx)))"
  unfolding goes_def use_metric_def
proof (rule yields_bind [OF force_goes [OF assms(1,2)]], elim conjE)
  fix mx1
  assume mx1: "metrics_ok registered mx1" "set (mx_lazy mx1) = insert m (set (mx_lazy mx))"
    "m \<in> registered (mx_registry mx1)" "reading (mx_registry mx1) = reading (mx_registry mx)"
    "samples (mx_registry mx1) = samples (mx_registry mx)"
  from assms(3) [OF mx1(3)] obtain r' where "call (mx_registry mx1) = Some r'"
    "registered r' = registered (mx_registry mx1)" "reading r' = f (reading (mx_registry mx1))"
    "samples r' = g (samples (mx_registry mx1))" by blast
  with mx1 show "yields (bind_res (expect (call (mx_registry mx1))) (\<lambda>r. Ok (mx1\<lparr>mx_registry := r\<rparr>)))
    (\<lambda>mx'. metrics_ok registered mx' \<and> set (mx_lazy mx) \<subseteq> set (mx_lazy mx') \<and>
      reading (mx_registry mx') = f (reading (mx_registry mx)) \<and>
      samples (mx_registry mx') = g (samples (mx_registry mx)))"
    by (auto simp: metrics_ok_def)
qed

lemma set_gauge_goes:
  assumes "metrics_ok registered mx" and "m \<in> set all_metrics" and "mt_kind m = IntGauge"
    and "length labels = length (mt_labels m)"
  shows "goes mx (set_gauge P m labels v mx) ((reading (mx_registry mx))((m, labels) := v)) (samples (mx_registry mx))"
  unfolding set_gauge_def
  by (rule use_goes [OF assms(1,2), where f = "\<lambda>rd. rd((m, labels) := v)" and g = "\<lambda>s. s"])
    (rule set_registered [OF _ assms(3,4)])

lemma inc_counter_goes:
  assumes "metrics_ok registered mx" and "m \<in> set all_metrics" and "mt_kind m = IntCounter"
    and "length labels = length (mt_labels m)"
  shows "goes mx (inc_counter P m labels n mx)
    ((reading (mx_registry mx))((m, labels) := reading (mx_registry mx) (m, labels) + n)) (samples (mx_registry mx))"
  unfolding inc_counter_def
  by (rule use_goes [OF assms(1,2), where f = "\<lambda>rd. rd((m, labels) := rd (m, labels) + n)" and g = "\<lambda>s. s"])
    (rule inc_registered [OF _ assms(3,4)])

lemma observe_goes:
  assumes "metrics_ok registered mx" and "m \<in> set all_metrics" and "mt_kind m = Histogram"
  shows "goes mx (observe P m x mx) (reading (mx_registry mx))
    ((samples (mx_registry mx))(m := samples (mx_registry mx) m @ [x]))"
  unfolding observe_def
  by (rule use_goes [OF assms(1,2), where f = "\<lambda>rd. rd" and g = "\<lambda>s. s(m := s m @ [x])"])
    (rule observe_registered [OF _ assms(3)])

lemma goesD: "goes mx run rd sm \<Longrightarrow> \<exists>mx'. run = Ok mx' \<and> metrics_ok registered mx' \<and>
    set (mx_lazy mx) \<subseteq> set (mx_lazy mx') \<and> reading (mx_registry mx') = rd \<and> samples (mx_registry mx') = sm"
  by (auto simp: goes_def yields_def)

lemma set_checked_goes:
  assumes "metrics_ok registered mx" and "m \<in> set all_metrics" and "mt_kind m = IntGauge" and "mt_labels m = []"
    and "unat v < 2 ^ 63"
  shows "goes mx (set_gauge_checked P m v mx) ((reading (mx_registry mx))((m, []) := v)) (samples (mx_registry mx))"
  using set_gauge_goes [OF assms(1-3), of "[]"] assms(4,5) by (simp add: set_gauge_checked_def to_i64_def)

lemma timed_goes:
  assumes "metrics_ok registered mx" and m: "m \<in> set all_metrics" and h: "mt_kind m = Histogram"
  shows "goes mx (timed P (timing_guard_new P m) t0 t1 mx) (reading (mx_registry mx))
    ((samples (mx_registry mx))(m := samples (mx_registry mx) m @ [OfNanos (t1 - t0)]))"
proof -
  from force_goes [OF assms(1,2)] obtain mx1 where mx1: "force P m mx = Ok mx1" "metrics_ok registered mx1"
    "set (mx_lazy mx1) = insert m (set (mx_lazy mx))" "reading (mx_registry mx1) = reading (mx_registry mx)"
    "samples (mx_registry mx1) = samples (mx_registry mx)" by (auto simp: yields_def)
  from observe_goes [OF mx1(2) m h] mx1(3-5) show ?thesis
    by (auto simp: timed_def timing_guard_new_def timing_guard_drop_def mx1(1) goes_def intro: yields_mono)
qed

lemma init_goes:
  assumes "metrics_ok registered mx" and "set ms \<subseteq> set all_metrics"
  shows "yields (fold_res (force P) ms mx) (\<lambda>mx'. metrics_ok registered mx' \<and>
    set (mx_lazy mx') = set ms \<union> set (mx_lazy mx) \<and> reading (mx_registry mx') = reading (mx_registry mx) \<and>
    samples (mx_registry mx') = samples (mx_registry mx))"
  using assms
proof (induction ms arbitrary: mx)
  case (Cons m ms)
  from Cons.prems(2) have m: "m \<in> set all_metrics" and ms: "set ms \<subseteq> set all_metrics" by simp_all
  show ?case unfolding fold_res.simps
  proof (rule yields_bind [OF force_goes [OF Cons.prems(1) m]], elim conjE)
    fix mx1
    assume "metrics_ok registered mx1" and "set (mx_lazy mx1) = insert m (set (mx_lazy mx))"
      and "reading (mx_registry mx1) = reading (mx_registry mx)" and "samples (mx_registry mx1) = samples (mx_registry mx)"
    with Cons.IH [OF this(1) ms] show "yields (fold_res (force P) ms mx1) (\<lambda>mx'. metrics_ok registered mx' \<and>
      set (mx_lazy mx') = set (m # ms) \<union> set (mx_lazy mx) \<and> reading (mx_registry mx') = reading (mx_registry mx) \<and>
      samples (mx_registry mx') = samples (mx_registry mx))" by (auto elim!: yields_mono)
  qed
qed simp

end

section \<open>No call panics\<close>

text \<open>The calls whose argument fits its gauge.\<close>

fun call_fits :: "metric_call \<Rightarrow> bool" where
  "call_fits (UpdateHeadSlot slot) \<longleftrightarrow> unat slot < 2 ^ 63"
| "call_fits (UpdateLatestJustifiedSlot slot) \<longleftrightarrow> unat slot < 2 ^ 63"
| "call_fits (UpdateLatestFinalizedSlot slot) \<longleftrightarrow> unat slot < 2 ^ 63"
| "call_fits (UpdateCurrentSlot slot) \<longleftrightarrow> unat slot < 2 ^ 63"
| "call_fits (UpdateValidatorsCount count) \<longleftrightarrow> unat count < 2 ^ 63"
| "call_fits (UpdateSafeTargetSlot slot) \<longleftrightarrow> unat slot < 2 ^ 63"
| "call_fits (SetNodeStartTime now) \<longleftrightarrow> now \<noteq> None"
| "call_fits _ \<longleftrightarrow> True"

lemmas member_defs = all_metrics_def blockchain_metrics_def other_metrics_def

lemmas shape_defs = static_defs int_gauge_def int_gauge_vec_def int_counter_def int_counter_vec_def histogram_def

context prometheus_library
begin

definition ran :: "'r metrics \<Rightarrow> 'r metrics_run \<Rightarrow> bool" where
  "ran mx run \<longleftrightarrow> yields run (\<lambda>mx'. metrics_ok registered mx' \<and> set (mx_lazy mx) \<subseteq> set (mx_lazy mx'))"

lemma goes_ran: "goes mx run rd sm \<Longrightarrow> ran mx run"
  by (auto simp: goes_def ran_def intro: yields_mono)

lemmas call_ran = set_gauge_goes [THEN goes_ran] inc_counter_goes [THEN goes_ran] observe_goes [THEN goes_ran]
  set_checked_goes [THEN goes_ran] timed_goes [THEN goes_ran]

lemma force_ran:
  assumes "metrics_ok registered mx" and "m \<in> set all_metrics"
  shows "ran mx (force P m mx)"
  unfolding ran_def by (rule yields_mono [OF force_goes [OF assms]]) auto

lemma init_ran:
  assumes "metrics_ok registered mx"
  shows "yields (metrics_init P mx) (\<lambda>mx'. metrics_ok registered mx' \<and>
    set (mx_lazy mx') = set blockchain_metrics \<union> set (mx_lazy mx))"
  unfolding metrics_init_def
  by (rule yields_mono [OF init_goes [OF assms]]) (auto intro: static_members)

lemma run_call_ran:
  assumes ok: "metrics_ok registered mx" and "call_fits c"
  shows "ran mx (run_call P c mx)"
proof (cases c)
  case MetricsInit
  show ?thesis unfolding MetricsInit run_call.simps ran_def by (rule yields_mono [OF init_ran [OF ok]]) auto
next
  case (PeerMetric s)
  then show ?thesis by (cases s) (auto intro!: force_ran [OF ok] simp: member_defs)
qed (use assms(2) in \<open>auto intro!: call_ran [OF ok] simp: api_defs timer_defs member_defs,
  (simp_all add: shape_defs)?\<close>)

end

context prometheus_library
begin

lemma run_calls_ran:
  assumes "metrics_ok registered mx" and "list_all call_fits cs"
  shows "yields (fold_res (run_call P) cs mx) (\<lambda>mx'. metrics_ok registered mx' \<and>
    set (mx_lazy mx) \<subseteq> set (mx_lazy mx') \<and> (MetricsInit \<in> set cs \<longrightarrow> set blockchain_metrics \<subseteq> set (mx_lazy mx')))"
  using assms
proof (induction cs arbitrary: mx)
  case (Cons c cs)
  have "yields (run_call P c mx) (\<lambda>mx1. metrics_ok registered mx1 \<and> set (mx_lazy mx) \<subseteq> set (mx_lazy mx1) \<and>
      (c = MetricsInit \<longrightarrow> set blockchain_metrics \<subseteq> set (mx_lazy mx1)))"
    using run_call_ran [OF Cons.prems(1), of c] init_ran [OF Cons.prems(1)] Cons.prems(2)
    by (cases "c = MetricsInit") (auto simp: ran_def yields_def)
  then show ?case unfolding fold_res.simps
  proof (rule yields_bind, elim conjE)
    fix mx1
    assume mx1: "metrics_ok registered mx1" "set (mx_lazy mx) \<subseteq> set (mx_lazy mx1)"
      "c = MetricsInit \<longrightarrow> set blockchain_metrics \<subseteq> set (mx_lazy mx1)"
    from Cons.prems(2) have "list_all call_fits cs" by simp
    from Cons.IH [OF mx1(1) this] mx1(2,3)
    show "yields (fold_res (run_call P) cs mx1) (\<lambda>mx'. metrics_ok registered mx' \<and> set (mx_lazy mx) \<subseteq> set (mx_lazy mx') \<and>
      (MetricsInit \<in> set (c # cs) \<longrightarrow> set blockchain_metrics \<subseteq> set (mx_lazy mx')))" by (auto elim!: yields_mono)
  qed
qed simp

end

lemma misfit_panics: "\<not> call_fits c \<Longrightarrow> run_call P c mx = Panic"
  by (cases c) (simp_all add: api_defs set_gauge_checked_def to_i64_def)

lemma run_calls_Ok_fits: "fold_res (run_call P) cs mx = Ok mx' \<Longrightarrow> list_all call_fits cs"
proof (induction cs arbitrary: mx)
  case (Cons c cs)
  then show ?case using misfit_panics [of c P mx] by (cases "run_call P c mx") auto
qed simp

section \<open>A library of lists\<close>

record list_registry =
  lr_metrics :: "metric list"
  lr_values :: "((metric \<times> string list) \<times> 64 word) list"
  lr_samples :: "(metric \<times> f64) list"

definition list_reading :: "list_registry \<Rightarrow> metric \<times> string list \<Rightarrow> 64 word" where
  "list_reading r k = (case map_of (lr_values r) k of None \<Rightarrow> 0 | Some v \<Rightarrow> v)"

definition list_samples :: "list_registry \<Rightarrow> metric \<Rightarrow> f64 list" where
  "list_samples r m = map snd (filter (\<lambda>(m', _). m' = m) (lr_samples r))"

definition list_prometheus :: "list_registry prometheus" where
  "list_prometheus =
     \<lparr>pr_register = (\<lambda>m r. if metric_valid m \<and> mt_name m \<notin> mt_name ` set (lr_metrics r)
        then Some (r\<lparr>lr_metrics := m # lr_metrics r\<rparr>) else None),
      pr_set = (\<lambda>m labels v r. if m \<in> set (lr_metrics r) \<and> length labels = length (mt_labels m)
        then Some (r\<lparr>lr_values := ((m, labels), v) # lr_values r\<rparr>) else None),
      pr_inc_by = (\<lambda>m labels n r. if m \<in> set (lr_metrics r) \<and> length labels = length (mt_labels m)
        then Some (r\<lparr>lr_values := ((m, labels), list_reading r (m, labels) + n) # lr_values r\<rparr>) else None),
      pr_observe = (\<lambda>m x r. if m \<in> set (lr_metrics r)
        then Some (r\<lparr>lr_samples := lr_samples r @ [(m, x)]\<rparr>) else None),
      pr_gather_text = (\<lambda>r. Ok [])\<rparr>"

interpretation list_metrics: prometheus_library list_prometheus "\<lambda>r. set (lr_metrics r)" list_reading list_samples
  by unfold_locales (simp_all add: list_prometheus_def list_reading_def list_samples_def fun_eq_iff)

section \<open>Property\<close>

text \<open>
  C34. The metrics never get in the way. In a process whose registry has nothing under the names of the
  node's metrics, a sequence of metric calls of the blockchain, the state transition and the network
  code succeeds, whatever its order and whichever call uses a metric first, exactly when every slot
  and count set as a checked gauge is below \<open>2^63\<close> and the clock is not before the epoch; and after
  the initialization all metrics of the blockchain are registered. In particular no two of the 43
  statics claim the same name, and every name, label and bucket list is one that Prometheus accepts.
\<close>

theorem metric_calls_succeed:
  assumes "prometheus_library P registered reading samples"
    and "\<forall>m \<in> registered r. mt_name m \<notin> mt_name ` set all_metrics"
  shows "(\<exists>mx. fold_res (run_call P) cs \<lparr>mx_lazy = [], mx_registry = r\<rparr> = Ok mx \<and>
      (MetricsInit \<in> set cs \<longrightarrow> set blockchain_metrics \<subseteq> registered (mx_registry mx))) \<longleftrightarrow> list_all call_fits cs"
proof
  assume "list_all call_fits cs"
  moreover have "metrics_ok registered \<lparr>mx_lazy = [], mx_registry = r\<rparr>" using assms(2) by (simp add: metrics_ok_def)
  ultimately show "\<exists>mx. fold_res (run_call P) cs \<lparr>mx_lazy = [], mx_registry = r\<rparr> = Ok mx \<and>
      (MetricsInit \<in> set cs \<longrightarrow> set blockchain_metrics \<subseteq> registered (mx_registry mx))"
    using prometheus_library.run_calls_ran [OF assms(1)] by (fastforce simp: yields_def metrics_ok_def)
qed (auto dest: run_calls_Ok_fits)

theorem metric_calls_succeed_witness:
  "(\<exists>mx. fold_res (run_call list_prometheus) [UpdateHeadSlot 5, MetricsInit, PeerMetric ConnectedPeers, IncFinalizations ''success'']
      \<lparr>mx_lazy = [], mx_registry = \<lparr>lr_metrics = [], lr_values = [], lr_samples = []\<rparr>\<rparr> = Ok mx \<and>
      set blockchain_metrics \<subseteq> set (lr_metrics (mx_registry mx))) \<and>
   \<not> (\<exists>mx. fold_res (run_call list_prometheus) [UpdateHeadSlot (2 ^ 63)]
      \<lparr>mx_lazy = [], mx_registry = \<lparr>lr_metrics = [], lr_values = [], lr_samples = []\<rparr>\<rparr> = Ok mx)"
  using metric_calls_succeed [OF list_metrics.prometheus_library_axioms, of "\<lparr>lr_metrics = [], lr_values = [], lr_samples = []\<rparr>"
      "[UpdateHeadSlot 5, MetricsInit, PeerMetric ConnectedPeers, IncFinalizations ''success'']"]
    metric_calls_succeed [OF list_metrics.prometheus_library_axioms, of "\<lparr>lr_metrics = [], lr_values = [], lr_samples = []\<rparr>"
      "[UpdateHeadSlot (2 ^ 63)]"]
  by simp

end
