(* ===== verification/Types.thy ===== *)
theory Types
  imports Prelude
begin

text \<open>
  The containers of \<open>crates/common/types\<close>: checkpoints, attestations, blocks and the consensus
  state, as records with the fields of the source in its order. A field carries a prefix for its
  container, since Rust field names repeat (\<open>slot\<close> is \<open>cp_slot\<close>, \<open>ad_slot\<close>, \<open>hdr_slot\<close>,
  \<open>blk_slot\<close> and \<open>st_slot\<close>). SSZ lists are lists; their limits are the constants below.

  Merkle roots come from the \<open>tree_hash\<close> crate and signatures from \<open>leansig\<close>: both are
  parameters of the model, the records \<open>hashing\<close> and \<open>crypto\<close>.
\<close>

section \<open>Checkpoints and attestations\<close>

record checkpoint =
  cp_root :: H256
  cp_slot :: u64

definition checkpoint_default :: checkpoint where
  "checkpoint_default = \<lparr>cp_root = 0, cp_slot = 0\<rparr>"

record attestation_data =
  ad_slot :: u64
  ad_head :: checkpoint
  ad_target :: checkpoint
  ad_source :: checkpoint

record attestation =
  att_validator_id :: u64
  att_data :: attestation_data

record signed_attestation =
  sa_validator_id :: u64
  sa_data :: attestation_data
  sa_signature :: bytes

type_synonym aggregation_bits = bitlist

record aggregated_attestation =
  aa_aggregation_bits :: aggregation_bits
  aa_data :: attestation_data

text \<open>The indices of the set bits, as validator ids.\<close>

definition validator_indices :: "aggregation_bits \<Rightarrow> u64 list" where
  "validator_indices bits = map word_of_nat (set_positions bits)"

section \<open>Blocks\<close>

record aggregated_signature_proof =
  asp_participants :: aggregation_bits
  asp_proof_data :: bytes

definition proof_empty :: "aggregation_bits \<Rightarrow> aggregated_signature_proof" where
  "proof_empty participants = \<lparr>asp_participants = participants, asp_proof_data = []\<rparr>"

definition participant_indices :: "aggregated_signature_proof \<Rightarrow> u64 list" where
  "participant_indices p = validator_indices (asp_participants p)"

record signed_aggregated_attestation =
  saa_data :: attestation_data
  saa_proof :: aggregated_signature_proof

record block_body =
  body_attestations :: "aggregated_attestation list"

definition block_body_default :: block_body where
  "block_body_default = \<lparr>body_attestations = []\<rparr>"

record block_header =
  hdr_slot :: u64
  hdr_proposer_index :: u64
  hdr_parent_root :: H256
  hdr_state_root :: H256
  hdr_body_root :: H256

record block =
  blk_slot :: u64
  blk_proposer_index :: u64
  blk_parent_root :: H256
  blk_state_root :: H256
  blk_body :: block_body

record block_signatures =
  bs_attestation_signatures :: "aggregated_signature_proof list"
  bs_proposer_signature :: bytes

record block_with_attestation =
  bwa_block :: block
  bwa_proposer_attestation :: attestation

record signed_block_with_attestation =
  sb_message :: block_with_attestation
  sb_signature :: block_signatures

record block_signatures_with_attestation =
  bsa_proposer_attestation :: attestation
  bsa_signatures :: block_signatures

definition from_signed_block ::
  "signed_block_with_attestation \<Rightarrow> block_signatures_with_attestation" where
  "from_signed_block sb =
     \<lparr>bsa_proposer_attestation = bwa_proposer_attestation (sb_message sb),
      bsa_signatures = sb_signature sb\<rparr>"

definition to_signed_block ::
  "block_signatures_with_attestation \<Rightarrow> block \<Rightarrow> signed_block_with_attestation" where
  "to_signed_block bsa b =
     \<lparr>sb_message = \<lparr>bwa_block = b, bwa_proposer_attestation = bsa_proposer_attestation bsa\<rparr>,
      sb_signature = bsa_signatures bsa\<rparr>"

section \<open>The consensus state\<close>

definition HISTORICAL_ROOTS_LIMIT :: nat where
  "HISTORICAL_ROOTS_LIMIT = 262144"

definition VALIDATOR_REGISTRY_LIMIT :: nat where
  "VALIDATOR_REGISTRY_LIMIT = 4096"

record chain_config =
  cc_genesis_time :: u64

record validator =
  val_pubkey :: bytes
  val_index :: u64

record state =
  st_config :: chain_config
  st_slot :: u64
  st_latest_block_header :: block_header
  st_latest_justified :: checkpoint
  st_latest_finalized :: checkpoint
  st_historical_block_hashes :: "H256 list"
  st_justified_slots :: bitlist
  st_validators :: "validator list"
  st_justifications_roots :: "H256 list"
  st_justifications_validators :: bitlist

record hashing =
  h_state :: "state \<Rightarrow> H256"
  h_header :: "block_header \<Rightarrow> H256"
  h_body :: "block_body \<Rightarrow> H256"
  h_block :: "block \<Rightarrow> H256"
  h_data :: "attestation_data \<Rightarrow> H256"

definition block_header_of :: "hashing \<Rightarrow> block \<Rightarrow> block_header" where
  "block_header_of H b =
     \<lparr>hdr_slot = blk_slot b, hdr_proposer_index = blk_proposer_index b,
      hdr_parent_root = blk_parent_root b, hdr_state_root = blk_state_root b,
      hdr_body_root = h_body H (blk_body b)\<rparr>"

text \<open>The debug assertion on the body root is absent from release builds.\<close>

definition from_header_and_body :: "block_header \<Rightarrow> block_body \<Rightarrow> block" where
  "from_header_and_body h body =
     \<lparr>blk_slot = hdr_slot h, blk_proposer_index = hdr_proposer_index h,
      blk_parent_root = hdr_parent_root h, blk_state_root = hdr_state_root h,
      blk_body = body\<rparr>"

text \<open>Genesis panics when there are more validators than the registry holds.\<close>

definition from_genesis :: "hashing \<Rightarrow> u64 \<Rightarrow> validator list \<Rightarrow> (state, 'e) result" where
  "from_genesis H genesis_time validators =
     (let genesis_header =
            \<lparr>hdr_slot = 0, hdr_proposer_index = 0, hdr_parent_root = 0, hdr_state_root = 0,
             hdr_body_root = h_body H block_body_default\<rparr>
      in if length validators \<le> VALIDATOR_REGISTRY_LIMIT
         then Ok \<lparr>st_config = \<lparr>cc_genesis_time = genesis_time\<rparr>,
                  st_slot = 0,
                  st_latest_block_header = genesis_header,
                  st_latest_justified = checkpoint_default,
                  st_latest_finalized = checkpoint_default,
                  st_historical_block_hashes = [],
                  st_justified_slots = [],
                  st_validators = validators,
                  st_justifications_roots = [],
                  st_justifications_validators = []\<rparr>
         else Panic)"

record genesis_config =
  gc_genesis_time :: u64
  gc_genesis_validators :: "bytes list"

definition genesis_validators_of :: "genesis_config \<Rightarrow> validator list" where
  "genesis_validators_of gc =
     map (\<lambda>(i, pubkey). \<lparr>val_pubkey = pubkey, val_index = word_of_nat i\<rparr>)
       (enumerate 0 (gc_genesis_validators gc))"

section \<open>Signatures\<close>

text \<open>
  The signature library as the code calls it: decoding of public keys and signatures (\<open>None\<close> is a
  decoding error), encoding, signing, single verification, aggregation and aggregate verification.
\<close>

record ('pk, 'sig, 'sk) crypto =
  c_pubkey :: "bytes \<Rightarrow> 'pk option"
  c_signature :: "bytes \<Rightarrow> 'sig option"
  c_signature_bytes :: "'sig \<Rightarrow> bytes"
  c_sign :: "'sk \<Rightarrow> u32 \<Rightarrow> H256 \<Rightarrow> 'sig option"
  c_verify :: "'pk \<Rightarrow> u32 \<Rightarrow> H256 \<Rightarrow> 'sig \<Rightarrow> bool"
  c_aggregate :: "'pk list \<Rightarrow> 'sig list \<Rightarrow> H256 \<Rightarrow> u32 \<Rightarrow> bytes option"
  c_decode_aggregate :: "bytes \<Rightarrow> bool"
  c_verify_aggregate :: "'pk list \<Rightarrow> H256 \<Rightarrow> bytes \<Rightarrow> u32 \<Rightarrow> bool"

section \<open>Encodings\<close>

text \<open>
  An SSZ encoding of the values of a type; decoding fails on malformed bytes. A value the encoding
  carries, because its lists are within their bounds, is decoded as it was encoded. Strings are
  ASCII.
\<close>

record 'a ssz =
  ssz_encode :: "'a \<Rightarrow> bytes"
  ssz_decode :: "bytes \<Rightarrow> 'a option"

definition carries :: "'a ssz \<Rightarrow> 'a \<Rightarrow> bool" where
  "carries E x \<longleftrightarrow> ssz_decode E (ssz_encode E x) = Some x"

definition string_bytes :: "string \<Rightarrow> bytes" where
  "string_bytes s = map (\<lambda>c. word_of_nat (of_char c)) s"

section \<open>Facts\<close>

lemma from_header_and_body_block_header_of [simp]:
  "from_header_and_body (block_header_of H b) (blk_body b) = b"
  by (simp add: from_header_and_body_def block_header_of_def)

lemma to_signed_block_from_signed_block [simp]:
  "to_signed_block (from_signed_block sb) (bwa_block (sb_message sb)) = sb"
  by (simp add: to_signed_block_def from_signed_block_def)

lemma unat_validator_indices:
  assumes "length bits \<le> 2 ^ 64"
  shows "map unat (validator_indices bits) = set_positions bits"
proof -
  have "unat (word_of_nat i :: u64) = i" if "i \<in> set (set_positions bits)" for i
    using that assms by (simp add: unat_of_nat)
  then show ?thesis unfolding validator_indices_def map_map by (intro map_idI) simp
qed

lemma length_genesis_validators_of [simp]:
  "length (genesis_validators_of gc) = length (gc_genesis_validators gc)"
  by (simp add: genesis_validators_of_def)

lemma string_bytes_inject: "string_bytes s = string_bytes t \<longleftrightarrow> s = t"
proof -
  have "inj (\<lambda>c. word_of_nat (of_char c) :: u8)"
  proof (rule injI)
    fix c d :: char
    have u: "unat (word_of_nat (of_char e) :: u8) = of_char e" for e :: char
      by (simp add: unat_of_nat)
    assume "(word_of_nat (of_char c) :: u8) = word_of_nat (of_char d)"
    then have "(of_char c :: nat) = of_char d" using u by metis
    then show "c = d" by simp
  qed
  then show ?thesis by (auto simp: string_bytes_def inj_map_eq_map)
qed

end
