(* ===== verification/Justified_Slots.thy ===== *)
theory Justified_Slots
  imports Types
begin

text \<open>
  The justified-slots window of \<open>crates/blockchain/state_transition/src/justified_slots_ops.rs\<close>:
  a bit list whose index 0 is the slot after the finalized one; slots up to the finalized one are
  justified implicitly. The abstract view is the set of justified slots. The locale
  \<open>justified_window\<close> states what the state transition relies on; the lemmas its clients use are
  proved there and interpreted on the bit-list operations.
\<close>

section \<open>Operations\<close>

definition relative_index :: "u64 \<Rightarrow> u64 \<Rightarrow> nat option" where
  "relative_index target_slot finalized_slot =
     Option.bind (checked_sub target_slot finalized_slot)
       (\<lambda>d. map_option unat (checked_sub d 1))"

definition is_slot_justified :: "bitlist \<Rightarrow> u64 \<Rightarrow> u64 \<Rightarrow> bool" where
  "is_slot_justified slots finalized_slot target_slot =
     (case relative_index target_slot finalized_slot of
        None \<Rightarrow> True
      | Some idx \<Rightarrow> (case bit_get slots idx of None \<Rightarrow> False | Some b \<Rightarrow> b))"

definition set_justified :: "bitlist \<Rightarrow> u64 \<Rightarrow> u64 \<Rightarrow> (bitlist, 'e) result" where
  "set_justified slots finalized_slot target_slot =
     (case relative_index target_slot finalized_slot of
        None \<Rightarrow> Ok slots
      | Some idx \<Rightarrow> expect (bit_set slots idx True))"

definition extend_to_slot :: "bitlist \<Rightarrow> u64 \<Rightarrow> u64 \<Rightarrow> (bitlist, 'e) result" where
  "extend_to_slot slots finalized_slot target_slot =
     (case relative_index target_slot finalized_slot of
        None \<Rightarrow> Ok slots
      | Some required_idx \<Rightarrow>
          (let required_capacity = required_idx + 1
           in if length slots \<ge> required_capacity then Ok slots
              else bind_res (expect (with_capacity HISTORICAL_ROOTS_LIMIT required_capacity))
                     (\<lambda>extended. Ok (bit_union slots extended))))"

definition shift_window :: "bitlist \<Rightarrow> nat \<Rightarrow> (bitlist, 'e) result" where
  "shift_window slots delta =
     (if delta = 0 then Ok slots
      else if delta \<ge> length slots then expect (with_capacity HISTORICAL_ROOTS_LIMIT 0)
      else
        (let remaining = length slots - delta
         in bind_res (expect (with_capacity HISTORICAL_ROOTS_LIMIT remaining))
              (\<lambda>new_bits. expect (set_all new_bits
                 (filter (\<lambda>i. bit_get slots (i + delta) = Some True) [0..<remaining])))))"

text \<open>The slots that count as justified.\<close>

definition justified_set :: "bitlist \<Rightarrow> u64 \<Rightarrow> u64 set" where
  "justified_set slots finalized_slot = {t. is_slot_justified slots finalized_slot t}"

section \<open>The contract of the window\<close>

locale justified_window =
  fixes is_just :: "'w \<Rightarrow> u64 \<Rightarrow> u64 \<Rightarrow> bool"
    and mark :: "'w \<Rightarrow> u64 \<Rightarrow> u64 \<Rightarrow> ('w, 'e) result"
    and extend :: "'w \<Rightarrow> u64 \<Rightarrow> u64 \<Rightarrow> ('w, 'e) result"
    and shift :: "'w \<Rightarrow> nat \<Rightarrow> ('w, 'e) result"
    and size_of :: "'w \<Rightarrow> nat"
    and bound :: nat
  assumes finalized_justified: "t \<le> f \<Longrightarrow> is_just w f t"
    and beyond_unjustified: "unat f + size_of w < unat t \<Longrightarrow> \<not> is_just w f t"
    and mark_ok: "f < t \<Longrightarrow> unat t \<le> unat f + size_of w \<Longrightarrow>
      \<exists>w'. mark w f t = Ok w' \<and> size_of w' = size_of w \<and>
        (\<forall>u. is_just w' f u \<longleftrightarrow> u = t \<or> is_just w f u)"
    and extend_ok: "unat t - unat f \<le> bound \<Longrightarrow>
      \<exists>w'. extend w f t = Ok w' \<and> size_of w' = max (size_of w) (unat t - unat f) \<and>
        (\<forall>u. is_just w' f u \<longleftrightarrow> is_just w f u)"
    and shift_ok: "f \<le> f' \<Longrightarrow> size_of w \<le> bound \<Longrightarrow>
      \<exists>w'. shift w (unat (f' - f)) = Ok w' \<and> size_of w' = size_of w - unat (f' - f) \<and>
        (\<forall>u. is_just w' f' u \<longleftrightarrow> u \<le> f' \<or> is_just w f u)"
begin

lemma justified_cases: "is_just w f t \<Longrightarrow> t \<le> f \<or> unat t \<le> unat f + size_of w"
  using beyond_unjustified by (meson not_le)

lemma unjustified_above: "\<not> is_just w f t \<Longrightarrow> f < t"
  using finalized_justified by (meson not_le)

text \<open>Justifying a target and then moving the finalized boundary: what remains justified.\<close>

lemma mark_shift:
  assumes "f < t" and "unat t \<le> unat f + size_of w" and "f \<le> f'" and "size_of w \<le> bound"
  shows "\<exists>w1 w2. mark w f t = Ok w1 \<and> shift w1 (unat (f' - f)) = Ok w2 \<and>
    size_of w1 = size_of w \<and> size_of w2 = size_of w - unat (f' - f) \<and>
    (\<forall>u. is_just w2 f' u \<longleftrightarrow> u \<le> f' \<or> u = t \<or> is_just w f u)"
proof -
  from mark_ok [OF assms(1,2)] obtain w1 where w1: "mark w f t = Ok w1" "size_of w1 = size_of w"
    "\<forall>u. is_just w1 f u \<longleftrightarrow> u = t \<or> is_just w f u" by blast
  from shift_ok [OF assms(3), of w1] w1(2) assms(4) obtain w2 where
    "shift w1 (unat (f' - f)) = Ok w2" "size_of w2 = size_of w1 - unat (f' - f)"
    "\<forall>u. is_just w2 f' u \<longleftrightarrow> u \<le> f' \<or> is_just w1 f u" by auto
  with w1 show ?thesis by auto
qed

end

section \<open>The bit-list window meets the contract\<close>

lemma relative_index_None [simp]: "t \<le> f \<Longrightarrow> relative_index t f = None"
  by (cases "t = f") (auto simp: relative_index_def checked_sub_def)

lemma relative_index_Some:
  assumes "f < t"
  shows "relative_index t f = Some (unat t - unat f - 1)"
proof -
  from assms have le: "f \<le> t" by simp
  from assms have lt: "unat f < unat t" by (simp add: word_less_nat_alt)
  from le have d: "unat (t - f) = unat t - unat f" by (simp add: unat_sub)
  with lt have one: "1 \<le> t - f" by (simp add: word_le_nat_alt)
  have "unat (t - f - 1) = unat t - unat f - 1"
    using d one by (simp add: unat_sub)
  with le one show ?thesis by (simp add: relative_index_def checked_sub_def)
qed

lemma is_slot_justified_iff:
  "is_slot_justified slots f t \<longleftrightarrow>
     t \<le> f \<or> (unat t \<le> unat f + length slots \<and> slots ! (unat t - unat f - 1))"
proof (cases "t \<le> f")
  case True
  then show ?thesis by (simp add: is_slot_justified_def)
next
  case False
  then have "f < t" by simp
  moreover from this have "unat f < unat t" by (simp add: word_less_nat_alt)
  ultimately show ?thesis
    by (auto simp: is_slot_justified_def relative_index_Some bit_get_def)
qed

lemma set_justified_Ok:
  assumes "f < t" and "unat t \<le> unat f + length slots"
  shows "set_justified slots f t = Ok (slots[unat t - unat f - 1 := True])"
proof -
  from assms have "unat f < unat t" by (simp add: word_less_nat_alt)
  with assms show ?thesis
    by (auto simp: set_justified_def relative_index_Some bit_set_def)
qed

lemma extend_to_slot_Ok:
  assumes "unat t - unat f \<le> HISTORICAL_ROOTS_LIMIT"
  shows "extend_to_slot slots f t = Ok (slots @ replicate (unat t - unat f - length slots) False)"
proof (cases "t \<le> f")
  case True
  then have "unat t \<le> unat f" by (simp add: word_le_nat_alt)
  with True show ?thesis by (simp add: extend_to_slot_def)
next
  case False
  then have "f < t" and "unat f < unat t" by (simp_all add: word_less_nat_alt not_le)
  then have "relative_index t f = Some (unat t - unat f - 1)"
    and "unat t - unat f - 1 + 1 = unat t - unat f"
    by (simp_all add: relative_index_Some)
  with assms show ?thesis
    by (simp only: extend_to_slot_def Let_def with_capacity_def option.case if_True expect.simps
        bind_res.simps bit_union_replicate split: if_splits) simp
qed

lemma shift_window_Ok:
  assumes "length slots \<le> HISTORICAL_ROOTS_LIMIT"
  shows "shift_window slots delta = Ok (drop delta slots)"
proof -
  have "map (\<lambda>k. replicate (length slots - delta) False ! k \<or>
      k < length slots - delta \<and> slots ! (k + delta)) [0..<length slots - delta] = drop delta slots"
    by (auto intro!: nth_equalityI simp: add.commute)
  with assms show ?thesis
    by (auto simp: shift_window_def with_capacity_def set_all_char bit_get_def add.commute Let_def
        intro!: nth_equalityI)
qed

interpretation window: justified_window is_slot_justified set_justified extend_to_slot
  shift_window length HISTORICAL_ROOTS_LIMIT
proof (standard, goal_cases)
  case (1 t f w)
  then show ?case by (simp add: is_slot_justified_iff)
next
  case (2 f w t)
  then show ?case by (simp add: is_slot_justified_iff word_le_nat_alt)
next
  case (3 f t w)
  then have lt: "unat f < unat t" by (simp add: word_less_nat_alt)
  have "is_slot_justified (w[unat t - unat f - 1 := True]) f u \<longleftrightarrow> u = t \<or> is_slot_justified w f u" for u
  proof (cases "u \<le> f")
    case True
    then show ?thesis by (simp add: is_slot_justified_iff)
  next
    case False
    then have "unat f < unat u" by (simp add: word_less_nat_alt not_le)
    moreover from this lt have "unat u - Suc (unat f) = unat t - Suc (unat f) \<longleftrightarrow> u = t"
      by (auto simp: word_unat_eq_iff)
    ultimately show ?thesis using 3 lt False
      by (auto simp: is_slot_justified_iff nth_list_update)
  qed
  with 3 show ?case by (intro exI [of _ "w[unat t - unat f - 1 := True]"]) (simp add: set_justified_Ok)
next
  case (4 t f w)
  have "is_slot_justified (w @ replicate n False) f u \<longleftrightarrow> is_slot_justified w f u" for n u
  proof (cases "u \<le> f")
    case True
    then show ?thesis by (simp add: is_slot_justified_iff)
  next
    case False
    then have "unat f < unat u" by (simp add: word_less_nat_alt not_le)
    then show ?thesis by (auto simp: is_slot_justified_iff nth_append)
  qed
  with 4 show ?case by (simp add: extend_to_slot_Ok)
next
  case (5 f f' w)
  then have d: "unat (f' - f) = unat f' - unat f" and le: "unat f \<le> unat f'"
    by (simp_all add: unat_sub word_le_nat_alt)
  have "is_slot_justified (drop (unat f' - unat f) w) f' u \<longleftrightarrow> u \<le> f' \<or> is_slot_justified w f u" for u
  proof (cases "u \<le> f'")
    case True
    then show ?thesis by (simp add: is_slot_justified_iff)
  next
    case False
    then have "unat f' < unat u" by (simp add: word_less_nat_alt not_le)
    with le show ?thesis by (auto simp: is_slot_justified_iff word_le_nat_alt)
  qed
  with 5 d show ?case by (simp add: shift_window_Ok)
qed

section \<open>The justified set\<close>

text \<open>
  C37. The window implements a set of justified slots. For a slot above the finalized one and within
  the window, marking it adds exactly that slot; moving the finalized boundary up to \<open>f'\<close>
  afterwards keeps every justified slot and adds those up to \<open>f'\<close>; extending the window up to the
  size limit changes nothing. None of the three panics.
\<close>

theorem window_refines_justified_set:
  fixes w :: bitlist
  assumes "f < t" and "unat t \<le> unat f + length w" and "f \<le> f'"
    and "length w \<le> HISTORICAL_ROOTS_LIMIT" and "unat u - unat f \<le> HISTORICAL_ROOTS_LIMIT"
  shows "\<exists>w1 w2 w3. set_justified w f t = (Ok w1 :: (bitlist, 'e) result) \<and>
    shift_window w1 (unat (f' - f)) = (Ok w2 :: (bitlist, 'e) result) \<and>
    extend_to_slot w f u = (Ok w3 :: (bitlist, 'e) result) \<and>
    justified_set w1 f = insert t (justified_set w f) \<and>
    justified_set w2 f' = {..f'} \<union> insert t (justified_set w f) \<and>
    justified_set w3 f = justified_set w f"
proof -
  from window.mark_ok [OF assms(1,2)] obtain w1 where
    w1: "set_justified w f t = (Ok w1 :: (bitlist, 'e) result)" "length w1 = length w"
      "\<forall>x. is_slot_justified w1 f x \<longleftrightarrow> x = t \<or> is_slot_justified w f x" by blast
  from window.shift_ok [OF assms(3), of w1] w1(2) assms(4) obtain w2 where
    w2: "shift_window w1 (unat (f' - f)) = (Ok w2 :: (bitlist, 'e) result)"
      "\<forall>x. is_slot_justified w2 f' x \<longleftrightarrow> x \<le> f' \<or> is_slot_justified w1 f x" by auto
  from window.extend_ok [OF assms(5), of w] obtain w3 where
    w3: "extend_to_slot w f u = (Ok w3 :: (bitlist, 'e) result)"
      "\<forall>x. is_slot_justified w3 f x \<longleftrightarrow> is_slot_justified w f x" by blast
  show ?thesis using w1 w2 w3 by (auto simp: justified_set_def)
qed

theorem window_refines_justified_set_witness:
  "\<exists>w1 w2 w3. set_justified [True, False, False] 4 7 = (Ok w1 :: (bitlist, unit) result) \<and>
    shift_window w1 (unat ((6 :: u64) - 4)) = (Ok w2 :: (bitlist, unit) result) \<and>
    extend_to_slot [True, False, False] 4 9 = (Ok w3 :: (bitlist, unit) result) \<and>
    justified_set w1 4 = insert 7 (justified_set [True, False, False] 4) \<and>
    justified_set w2 6 = {..6} \<union> insert 7 (justified_set [True, False, False] 4) \<and>
    justified_set w3 4 = justified_set [True, False, False] 4"
  by (rule window_refines_justified_set) (simp_all add: HISTORICAL_ROOTS_LIMIT_def)

end
