(* ===== verification/State_Transition.thy ===== *)
theory State_Transition
  imports Justified_Slots
begin

text \<open>
  The state transition function of \<open>crates/blockchain/state_transition/src/lib.rs\<close>: advancing
  through empty slots, the block header, the attestations with 3SF-mini justification and
  finalization, and the whole transition with its state-root check.

  A function on \<open>&mut State\<close> takes the state and returns the new one; on an error the state is
  dropped, as every caller of the source drops it. A panic (\<open>expect\<close>, an index out of range) is
  the outcome \<open>Panic\<close>. Metrics and logging have no counterpart.
\<close>

section \<open>Errors\<close>

datatype st_error =
    StateSlotIsNewer u64 u64
  | SlotMismatch u64 u64
  | ParentSlotIsNewer u64 u64
  | InvalidProposer u64 u64
  | InvalidParent H256 H256
  | NoValidators
  | StateRootMismatch H256 H256
  | SlotGapTooLarge nat nat nat
  | ZeroHashInJustificationRoots

section \<open>Slots and the block header\<close>

definition process_slots :: "hashing \<Rightarrow> state \<Rightarrow> u64 \<Rightarrow> (state, st_error) result" where
  "process_slots H s target_slot =
     (if st_slot s \<ge> target_slot then Err (StateSlotIsNewer target_slot (st_slot s))
      else
        (let hdr = st_latest_block_header s;
             s1 = (if hdr_state_root hdr = 0
                   then s\<lparr>st_latest_block_header := hdr\<lparr>hdr_state_root := h_state H s\<rparr>\<rparr>
                   else s)
         in Ok (s1\<lparr>st_slot := target_slot\<rparr>)))"

definition current_proposer :: "u64 \<Rightarrow> u64 \<Rightarrow> u64 option" where
  "current_proposer slot num_validators =
     (if num_validators > 0 then Some (slot mod num_validators) else None)"

definition is_proposer :: "u64 \<Rightarrow> u64 \<Rightarrow> u64 \<Rightarrow> bool" where
  "is_proposer validator_index slot num_validators =
     (current_proposer slot num_validators = Some validator_index)"

text \<open>
  The slot-gap guard adds \<open>usize\<close> values, so the sum is computed at 64 bits. The conversion back
  to a bounded list panics beyond the limit.
\<close>

definition process_block_header :: "hashing \<Rightarrow> state \<Rightarrow> block \<Rightarrow> (state, st_error) result" where
  "process_block_header H s b =
     (let parent_header = st_latest_block_header s
      in if blk_slot b \<noteq> st_slot s then Err (SlotMismatch (st_slot s) (blk_slot b))
         else if blk_slot b \<le> hdr_slot parent_header
         then Err (ParentSlotIsNewer (hdr_slot parent_header) (blk_slot b))
         else
           bind_res (ok_or (current_proposer (blk_slot b) (word_of_nat (length (st_validators s))))
                       NoValidators)
             (\<lambda>expected_proposer.
               if blk_proposer_index b \<noteq> expected_proposer
               then Err (InvalidProposer expected_proposer (blk_proposer_index b))
               else
                 (let parent_root = h_header H parent_header
                  in if blk_parent_root b \<noteq> parent_root
                     then Err (InvalidParent parent_root (blk_parent_root b))
                     else
                       (let s1 = (if hdr_slot parent_header = 0
                                  then s\<lparr>st_latest_justified :=
                                           (st_latest_justified s)\<lparr>cp_root := parent_root\<rparr>,
                                         st_latest_finalized :=
                                           (st_latest_finalized s)\<lparr>cp_root := parent_root\<rparr>\<rparr>
                                  else s);
                            num_empty_slots = blk_slot b - hdr_slot parent_header - 1;
                            current_len = length (st_historical_block_hashes s);
                            new_total = word_of_nat current_len + 1 + num_empty_slots
                        in if new_total > word_of_nat HISTORICAL_ROOTS_LIMIT
                           then Err (SlotGapTooLarge (unat num_empty_slots) current_len
                                       HISTORICAL_ROOTS_LIMIT)
                           else
                             (let hashes = st_historical_block_hashes s @ [parent_root] @
                                             replicate (unat num_empty_slots) 0
                              in if length hashes > HISTORICAL_ROOTS_LIMIT then Panic
                                 else
                                   bind_res (extend_to_slot (st_justified_slots s1)
                                               (cp_slot (st_latest_finalized s1)) (blk_slot b - 1))
                                     (\<lambda>js. Ok (s1\<lparr>st_historical_block_hashes := hashes,
                                                   st_justified_slots := js,
                                                   st_latest_block_header :=
                                                     \<lparr>hdr_slot = blk_slot b,
                                                      hdr_proposer_index = blk_proposer_index b,
                                                      hdr_parent_root = blk_parent_root b,
                                                      hdr_state_root = 0,
                                                      hdr_body_root = h_body H (blk_body b)\<rparr>\<rparr>)))))))"

section \<open>Justifiable slots and valid votes\<close>

definition slot_is_justifiable_after :: "u64 \<Rightarrow> u64 \<Rightarrow> bool" where
  "slot_is_justifiable_after slot finalized_slot =
     (case checked_sub slot finalized_slot of
        None \<Rightarrow> False
      | Some delta \<Rightarrow>
          delta \<le> 5
          \<or> isqrt delta ^ 2 = delta
          \<or> (case Option.bind (checked_mul delta 4) (\<lambda>v. checked_add v 1) of
                None \<Rightarrow> False
              | Some val \<Rightarrow> isqrt val ^ 2 = val \<and> val mod 2 = 1))"

definition checkpoint_exists :: "state \<Rightarrow> checkpoint \<Rightarrow> bool" where
  "checkpoint_exists s cp =
     (unat (cp_slot cp) < length (st_historical_block_hashes s) \<and>
      st_historical_block_hashes s ! unat (cp_slot cp) = cp_root cp)"

definition is_valid_vote :: "state \<Rightarrow> checkpoint \<Rightarrow> checkpoint \<Rightarrow> bool" where
  "is_valid_vote s source target =
     (if \<not> is_slot_justified (st_justified_slots s) (cp_slot (st_latest_finalized s)) (cp_slot source)
      then False
      else if is_slot_justified (st_justified_slots s) (cp_slot (st_latest_finalized s)) (cp_slot target)
      then False
      else if cp_root source = 0 \<or> cp_root target = 0 then False
      else if \<not> checkpoint_exists s source \<or> \<not> checkpoint_exists s target then False
      else if cp_slot target \<le> cp_slot source then False
      else slot_is_justifiable_after (cp_slot target) (cp_slot (st_latest_finalized s)))"

section \<open>Attestations\<close>

type_synonym votes = "(H256 \<times> bitlist) list"

text \<open>The vote map as it is read from the flattened state fields.\<close>

definition load_justifications :: "state \<Rightarrow> votes" where
  "load_justifications s =
     (let validator_count = length (st_validators s)
      in collect_map
           (map (\<lambda>(i, root). (root, take validator_count
                    (drop (i * validator_count) (st_justifications_validators s))))
              (enumerate 0 (st_justifications_roots s))))"

text \<open>The latest slot above the finalized one at which each root appears.\<close>

definition record_root :: "H256 list \<Rightarrow> nat \<Rightarrow> (H256 \<times> u64) list \<Rightarrow> (H256 \<times> u64) list" where
  "record_root hashes n m =
     (let root = hashes ! n; slot = word_of_nat n
      in case map_of m root of
           None \<Rightarrow> AList.update root slot m
         | Some x \<Rightarrow> AList.update root (max x slot) m)"

definition root_to_slot_map :: "state \<Rightarrow> (H256 \<times> u64) list" where
  "root_to_slot_map s =
     fold (record_root (st_historical_block_hashes s))
       [unat (cp_slot (st_latest_finalized s) + 1)..<length (st_historical_block_hashes s)] []"

definition try_finalize ::
  "state \<Rightarrow> checkpoint \<Rightarrow> checkpoint \<Rightarrow> votes \<Rightarrow> (H256 \<times> u64) list \<Rightarrow> (state \<times> votes, st_error) result"
where
  "try_finalize s source target justifications root_to_slot =
     (if list_ex (\<lambda>n. slot_is_justifiable_after (word_of_nat n) (cp_slot (st_latest_finalized s)))
           [unat (cp_slot source + 1)..<unat (cp_slot target)]
      then Ok (s, justifications)
      else
        (let old_finalized_slot = cp_slot (st_latest_finalized s);
             s1 = s\<lparr>st_latest_finalized := source\<rparr>;
             delta = unat (cp_slot (st_latest_finalized s1) - old_finalized_slot)
         in bind_res (shift_window (st_justified_slots s1) delta)
              (\<lambda>js. Ok (s1\<lparr>st_justified_slots := js\<rparr>,
                        filter (\<lambda>(root, _). case map_of root_to_slot root of
                                  Some slot \<Rightarrow> slot > cp_slot (st_latest_finalized s1)
                                | None \<Rightarrow> False) justifications))))"

text \<open>One round of the loop over the attestations of a block.\<close>

definition process_attestation ::
  "nat \<Rightarrow> (H256 \<times> u64) list \<Rightarrow> aggregated_attestation \<Rightarrow> state \<times> votes \<Rightarrow> (state \<times> votes, st_error) result"
where
  "process_attestation validator_count root_to_slot att = (\<lambda>(s, justifications).
     (let source = ad_source (aa_data att); target = ad_target (aa_data att)
      in if \<not> is_valid_vote s source target then Ok (s, justifications)
         else
           (let j1 = or_insert (cp_root target) (replicate validator_count False) justifications
            in if length (aa_aggregation_bits att) > validator_count then Ok (s, j1)
               else
                 bind_res (expect (set_all (the (map_of j1 (cp_root target)))
                                     (set_positions (aa_aggregation_bits att))))
                   (\<lambda>votes.
                     (let j2 = AList.update (cp_root target) votes j1;
                          vote_count = length (filter id votes)
                      in if 3 * vote_count \<ge> 2 * validator_count
                         then bind_res (set_justified (st_justified_slots s)
                                          (cp_slot (st_latest_finalized s)) (cp_slot target))
                                (\<lambda>js. try_finalize
                                        (s\<lparr>st_latest_justified := target, st_justified_slots := js\<rparr>)
                                        source target (AList.delete (cp_root target) j2) root_to_slot)
                         else Ok (s, j2))))))"

definition serialize_justifications :: "state \<Rightarrow> votes \<Rightarrow> nat \<Rightarrow> (state, st_error) result" where
  "serialize_justifications s justifications validator_count =
     (let roots = sort (map fst justifications)
      in bind_res (expect (with_capacity (HISTORICAL_ROOTS_LIMIT * VALIDATOR_REGISTRY_LIMIT)
                             (length roots * validator_count)))
           (\<lambda>cleared. bind_res (expect (set_all cleared
                (set_positions (concat (map (\<lambda>r. the (map_of justifications r)) roots)))))
             (\<lambda>bits. if length roots > HISTORICAL_ROOTS_LIMIT then Panic
                     else Ok (s\<lparr>st_justifications_roots := roots,
                                st_justifications_validators := bits\<rparr>))))"

definition process_attestations ::
  "state \<Rightarrow> aggregated_attestation list \<Rightarrow> (state, st_error) result" where
  "process_attestations s attestations =
     (if list_ex (\<lambda>root. root = 0) (st_justifications_roots s)
      then Err ZeroHashInJustificationRoots
      else
        (let validator_count = length (st_validators s)
         in bind_res (fold_res (process_attestation validator_count (root_to_slot_map s))
                        attestations (s, load_justifications s))
              (\<lambda>(s', justifications). serialize_justifications s' justifications validator_count)))"

section \<open>The transition\<close>

definition process_block :: "hashing \<Rightarrow> state \<Rightarrow> block \<Rightarrow> (state, st_error) result" where
  "process_block H s b =
     bind_res (process_block_header H s b)
       (\<lambda>s'. process_attestations s' (body_attestations (blk_body b)))"

definition state_transition :: "hashing \<Rightarrow> state \<Rightarrow> block \<Rightarrow> (state, st_error) result" where
  "state_transition H s b =
     bind_res (process_slots H s (blk_slot b))
       (\<lambda>s1. bind_res (process_block H s1 b)
         (\<lambda>s2. let computed_state_root = h_state H s2
               in if blk_state_root b \<noteq> computed_state_root
                  then Err (StateRootMismatch (blk_state_root b) computed_state_root)
                  else Ok s2))"

section \<open>Justifiable slots\<close>

definition justifiable_distance :: "nat \<Rightarrow> bool" where
  "justifiable_distance d \<longleftrightarrow> d \<le> 5 \<or> (\<exists>k. d = k * k) \<or> (\<exists>k. d = k * (k + 1))"

lemma odd_square_pronic: "(\<exists>m. 4 * d + 1 = m * m) \<longleftrightarrow> (\<exists>k. d = k * (k + 1))" for d :: nat
proof
  assume "\<exists>m. 4 * d + 1 = m * m"
  then obtain m where m: "4 * d + 1 = m * m" ..
  then have "odd (m * m)" by presburger
  then obtain k where "m = 2 * k + 1" by (auto elim: oddE)
  with m have "4 * d = 4 * (k * (k + 1))" by (simp add: algebra_simps)
  then have "d = k * (k + 1)" by linarith
  then show "\<exists>k. d = k * (k + 1)" ..
next
  assume "\<exists>k. d = k * (k + 1)"
  then obtain k where "d = k * (k + 1)" ..
  then have "4 * d + 1 = (2 * k + 1) * (2 * k + 1)" by (simp add: algebra_simps)
  then show "\<exists>m. 4 * d + 1 = m * m" ..
qed

lemma slot_is_justifiable_after_below: "slot < fin \<Longrightarrow> \<not> slot_is_justifiable_after slot fin"
  by (auto simp: slot_is_justifiable_after_def checked_sub_def)

lemma pronic_check:
  assumes "unat d < 2 ^ 62"
  shows "(case Option.bind (checked_mul d 4) (\<lambda>v. checked_add v 1) of
            None \<Rightarrow> False | Some val \<Rightarrow> isqrt val ^ 2 = val \<and> val mod 2 = 1)
         \<longleftrightarrow> (\<exists>k. unat d = k * (k + 1))"
proof -
  have v: "unat (d * 4) = 4 * unat d" using assms by (simp add: unat_word_ariths)
  then have val: "unat (d * 4 + 1) = 4 * unat d + 1" using assms by (simp add: unat_word_ariths)
  then have "unat ((d * 4 + 1) mod 2) = 1" by (simp add: unat_mod) presburger
  then have odd: "(d * 4 + 1) mod 2 = 1" by (metis unat_1 word_unat_eq_iff)
  have "Option.bind (checked_mul d 4) (\<lambda>v. checked_add v 1) = Some (d * 4 + 1)"
    using assms v by (simp add: checked_mul_def checked_add_def)
  then show ?thesis
    using odd val odd_square_pronic [of "unat d"]
    by (simp add: power2_eq_square isqrt_square_eq_iff)
qed

lemma slot_is_justifiable_after_iff:
  assumes "unat slot - unat fin < 2 ^ 62"
  shows "slot_is_justifiable_after slot fin \<longleftrightarrow>
    fin \<le> slot \<and> justifiable_distance (unat slot - unat fin)"
proof (cases "fin \<le> slot")
  case True
  then have d: "unat (slot - fin) = unat slot - unat fin" by (simp add: unat_sub)
  with True assms pronic_check [of "slot - fin"] show ?thesis
    by (simp add: slot_is_justifiable_after_def checked_sub_def justifiable_distance_def
        power2_eq_square isqrt_square_eq_iff word_le_nat_alt)
next
  case False
  then show ?thesis by (simp add: slot_is_justifiable_after_below)
qed

lemma slot_is_justifiable_after_refl [simp]: "slot_is_justifiable_after f f"
  by (simp add: slot_is_justifiable_after_def checked_sub_def)

section \<open>Valid votes\<close>

lemma is_valid_voteD:
  assumes "is_valid_vote s source target"
  shows "cp_slot (st_latest_finalized s) < cp_slot target"
    and "unat (cp_slot target) < length (st_historical_block_hashes s)"
    and "st_historical_block_hashes s ! unat (cp_slot target) = cp_root target"
    and "cp_root target \<noteq> 0" and "cp_slot source < cp_slot target"
    and "checkpoint_exists s source"
    and "is_slot_justified (st_justified_slots s) (cp_slot (st_latest_finalized s)) (cp_slot source)"
    and "\<not> is_slot_justified (st_justified_slots s) (cp_slot (st_latest_finalized s)) (cp_slot target)"
    and "cp_root source \<noteq> 0"
  using assms
  by (auto simp: is_valid_vote_def checkpoint_exists_def not_le dest: window.unjustified_above split: if_splits)

text \<open>
  Finalization cannot move backwards: the finalized slot itself is justifiable, so it lies in the
  gap between any source below it and the target.
\<close>

lemma no_justifiable_between:
  assumes "f < t" and "s < t"
    and "\<not> list_ex (\<lambda>n. slot_is_justifiable_after (word_of_nat n) f) [unat (s + 1)..<unat t]"
  shows "f \<le> s"
proof (rule ccontr)
  assume "\<not> f \<le> s"
  then have "unat s < unat f" by (simp add: word_less_nat_alt not_le)
  moreover from this have "unat (s + 1) = unat s + 1"
    by (intro unat_succ) (simp add: word_less_nat_alt)
  moreover have "unat f < unat t" using assms(1) by (simp add: word_less_nat_alt)
  ultimately have "unat f \<in> set [unat (s + 1)..<unat t]" by simp
  with assms(3) have "\<not> slot_is_justifiable_after (word_of_nat (unat f)) f"
    unfolding list_ex_iff by blast
  then show False by simp
qed

section \<open>The map from roots to slots\<close>

text \<open>What the map knows after the slots below \<open>n\<close> have been recorded.\<close>

definition roots_recorded :: "H256 list \<Rightarrow> nat \<Rightarrow> nat \<Rightarrow> (H256 \<times> u64) list \<Rightarrow> bool" where
  "roots_recorded hashes lo n m \<longleftrightarrow>
     (\<forall>r k. map_of m r = Some k \<longrightarrow> lo \<le> unat k \<and> unat k < n \<and> hashes ! unat k = r) \<and>
     (\<forall>i. lo \<le> i \<and> i < n \<longrightarrow> (\<exists>k. map_of m (hashes ! i) = Some k \<and> i \<le> unat k))"

lemma record_root_recorded:
  assumes "roots_recorded hashes lo n m" and "lo \<le> n" and "n < 2 ^ 64"
  shows "roots_recorded hashes lo (Suc n) (record_root hashes n m)"
proof -
  define w where "w = (word_of_nat n :: u64)"
  have w: "unat w = n" using assms(3) by (simp add: w_def unat_of_nat)
  have "max x w = w" if "map_of m (hashes ! n) = Some x" for x
  proof -
    from that assms(1) have "unat x < n" unfolding roots_recorded_def by blast
    then show ?thesis using w by (simp add: max_def word_le_nat_alt)
  qed
  then have upd: "map_of (record_root hashes n m) = (map_of m)(hashes ! n \<mapsto> w)"
    by (auto simp: record_root_def Let_def w_def split: option.splits)
  show ?thesis
    unfolding roots_recorded_def
  proof (intro conjI allI impI)
    fix r k assume "map_of (record_root hashes n m) r = Some k"
    then have "(r = hashes ! n \<and> k = w) \<or> map_of m r = Some k"
      using upd by (auto split: if_splits)
    then show "lo \<le> unat k" and "unat k < Suc n" and "hashes ! unat k = r"
      using assms(1,2) w by (auto simp: roots_recorded_def dest!: spec)
  next
    fix i assume i: "lo \<le> i \<and> i < Suc n"
    show "\<exists>k. map_of (record_root hashes n m) (hashes ! i) = Some k \<and> i \<le> unat k"
    proof (cases "hashes ! i = hashes ! n")
      case True
      with upd w i show ?thesis by (intro exI [of _ w]) simp
    next
      case False
      with i have "lo \<le> i \<and> i < n" by (cases "i = n") auto
      with assms(1) obtain k where "map_of m (hashes ! i) = Some k" "i \<le> unat k"
        unfolding roots_recorded_def by blast
      with upd False show ?thesis by auto
    qed
  qed
qed

lemma fold_record_root:
  assumes "lo \<le> n" and "n \<le> 2 ^ 64"
  shows "roots_recorded hashes lo n (fold (record_root hashes) [lo..<n] [])"
  using assms
proof (induction n)
  case 0
  then show ?case by (simp add: roots_recorded_def)
next
  case (Suc n)
  show ?case
  proof (cases "lo \<le> n")
    case True
    with Suc have "roots_recorded hashes lo n (fold (record_root hashes) [lo..<n] [])" by simp
    with True Suc.prems show ?thesis by (simp add: record_root_recorded)
  next
    case False
    with Suc.prems have "lo = Suc n" by simp
    then show ?thesis by (simp add: roots_recorded_def)
  qed
qed

text \<open>Every root above the finalized slot is in the map, with the latest slot it appears at.\<close>

lemma root_to_slot_map_complete:
  assumes "r \<in> set (drop (Suc (unat (cp_slot (st_latest_finalized s)))) (st_historical_block_hashes s))"
    and "length (st_historical_block_hashes s) \<le> HISTORICAL_ROOTS_LIMIT"
  shows "\<exists>k. map_of (root_to_slot_map s) r = Some k \<and> unat k < length (st_historical_block_hashes s) \<and>
    st_historical_block_hashes s ! unat k = r \<and>
    (\<forall>i < length (st_historical_block_hashes s). cp_slot (st_latest_finalized s) < word_of_nat i \<longrightarrow>
       st_historical_block_hashes s ! i = r \<longrightarrow> i \<le> unat k)"
proof -
  let ?h = "st_historical_block_hashes s" and ?f = "cp_slot (st_latest_finalized s)"
  have len: "length ?h \<le> 262144" using assms(2) by (simp add: HISTORICAL_ROOTS_LIMIT_def)
  from assms(1) obtain i where i: "Suc (unat ?f) + i < length ?h" "?h ! (Suc (unat ?f) + i) = r"
    by (auto simp: in_set_conv_nth less_diff_conv add.commute)
  have f1: "unat (?f + 1) = Suc (unat ?f)"
    using i(1) len by (simp add: unat_word_ariths)
  have rec: "roots_recorded ?h (Suc (unat ?f)) (length ?h) (root_to_slot_map s)"
    unfolding root_to_slot_map_def f1
    by (rule fold_record_root) (use i len in auto)
  then obtain k where k: "map_of (root_to_slot_map s) r = Some k"
    using i unfolding roots_recorded_def by (metis le_add1)
  have "unat k < length ?h" "?h ! unat k = r"
    using rec k unfolding roots_recorded_def by blast+
  moreover have "j \<le> unat k" if "j < length ?h" "?f < word_of_nat j" "?h ! j = r" for j
  proof -
    have "unat (word_of_nat j :: u64) = j" using that(1) len by (simp add: unat_of_nat)
    with that(2) have "Suc (unat ?f) \<le> j" by (simp add: word_less_nat_alt)
    with rec that k show ?thesis unfolding roots_recorded_def by (metis option.inject)
  qed
  ultimately show ?thesis using k by blast
qed

section \<open>Votes: flattening and reading back\<close>

definition votes_ok :: "nat \<Rightarrow> votes \<Rightarrow> bool" where
  "votes_ok n j \<longleftrightarrow> distinct (map fst j) \<and> (\<forall>(r, v) \<in> set j. length v = n)"

lemma concat_votes_length:
  "\<forall>r \<in> set rs. length (f r) = n \<Longrightarrow> length (concat (map f rs)) = length rs * n"
  by (induction rs) auto

lemma votes_ok_length:
  assumes "votes_ok n j" and "r \<in> fst ` set j"
  shows "length (the (map_of j r)) = n"
proof -
  from assms(2) obtain v where "map_of j r = Some v"
    by (metis domD dom_map_of_conv_image_fst)
  with assms(1) show ?thesis by (auto simp: votes_ok_def dest: map_of_SomeD)
qed

lemma serialize_justifications_Ok:
  assumes "votes_ok n j" and "length j \<le> HISTORICAL_ROOTS_LIMIT" and "n \<le> VALIDATOR_REGISTRY_LIMIT"
  shows "serialize_justifications s j n =
    Ok (s\<lparr>st_justifications_roots := sort (map fst j),
          st_justifications_validators :=
            concat (map (\<lambda>r. the (map_of j r)) (sort (map fst j)))\<rparr>)"
proof -
  let ?rs = "sort (map fst j)" and ?bits = "concat (map (\<lambda>r. the (map_of j r)) (sort (map fst j)))"
  have len: "length ?bits = length ?rs * n"
    by (rule concat_votes_length) (use assms(1) in \<open>auto intro!: votes_ok_length\<close>)
  have "length ?rs * n \<le> HISTORICAL_ROOTS_LIMIT * VALIDATOR_REGISTRY_LIMIT"
    using assms(2,3) by (intro mult_le_mono) simp_all
  moreover have "set_all (replicate (length ?rs * n) False) (set_positions ?bits) = Some ?bits"
    using set_all_set_positions [of ?bits "length ?rs * n"] len by simp
  ultimately show ?thesis
    using assms(2) by (simp add: serialize_justifications_def with_capacity_def Let_def)
qed

lemma chunk_of_concat:
  assumes "\<forall>v \<in> set vs. length v = n" and "i < length vs"
  shows "take n (drop (i * n) (concat vs)) = vs ! i"
  using assms
proof (induction vs arbitrary: i)
  case Nil
  then show ?case by simp
next
  case (Cons v vs)
  then show ?case by (cases i) (auto simp: add.commute)
qed

lemma map_fst_enumerate: "map fst (map (\<lambda>(i, r). (r, f i)) (enumerate 0 rs)) = rs"
  by (rule nth_equalityI) (auto simp: nth_enumerate_eq)

lemma distinct_load_justifications [simp]: "distinct (map fst (load_justifications s))"
  by (simp add: load_justifications_def Let_def)

lemma load_justifications_map_of:
  assumes "distinct (st_justifications_roots s)" and "i < length (st_justifications_roots s)"
  shows "map_of (load_justifications s) (st_justifications_roots s ! i) =
    Some (take (length (st_validators s))
            (drop (i * length (st_validators s)) (st_justifications_validators s)))"
proof -
  let ?n = "length (st_validators s)" and ?rs = "st_justifications_roots s"
  let ?kv = "map (\<lambda>(i, root). (root, take ?n (drop (i * ?n) (st_justifications_validators s)))) (enumerate 0 ?rs)"
  have fst: "map fst ?kv = ?rs" by (rule map_fst_enumerate)
  have "distinct (map fst (rev ?kv))"
    using assms(1) fst by (simp flip: rev_map)
  moreover have "(?rs ! i, take ?n (drop (i * ?n) (st_justifications_validators s))) \<in> set (rev ?kv)"
  proof -
    have "?kv ! i = (?rs ! i, take ?n (drop (i * ?n) (st_justifications_validators s)))"
      using assms(2) by (simp add: nth_enumerate_eq)
    then show ?thesis using assms(2) nth_mem [of i ?kv] by simp
  qed
  ultimately show ?thesis
    unfolding load_justifications_def Let_def map_of_collect_map by (rule map_of_is_SomeI)
qed

lemma load_justifications_keys:
  "fst ` set (load_justifications s) = set (st_justifications_roots s)"
proof -
  let ?n = "length (st_validators s)" and ?rs = "st_justifications_roots s"
  let ?kv = "map (\<lambda>(i, root). (root, take ?n (drop (i * ?n) (st_justifications_validators s)))) (enumerate 0 ?rs)"
  have kv: "fst ` set ?kv = set ?rs"
    by (simp only: map_fst_enumerate flip: set_map)
  have "fst ` set (collect_map ?kv) = dom (map_of (rev ?kv))"
    by (simp only: dom_map_of_conv_image_fst flip: map_of_collect_map)
  also have "\<dots> = set ?rs" by (simp only: dom_map_of_conv_image_fst set_rev kv)
  finally show ?thesis by (simp only: load_justifications_def Let_def)
qed

lemma load_justifications_votes_ok:
  assumes "distinct (st_justifications_roots s)"
    and "length (st_justifications_validators s) =
      length (st_justifications_roots s) * length (st_validators s)"
  shows "votes_ok (length (st_validators s)) (load_justifications s)"
proof -
  let ?n = "length (st_validators s)" and ?rs = "st_justifications_roots s"
  have "length v = ?n" if "(r, v) \<in> set (load_justifications s)" for r v
  proof -
    have d: "distinct (map fst (load_justifications s))" by simp
    from that have "r \<in> set ?rs" using load_justifications_keys [of s] by force
    then obtain i where i: "i < length ?rs" "r = ?rs ! i" by (auto simp: in_set_conv_nth)
    from that d have "map_of (load_justifications s) r = Some v" by (rule map_of_is_SomeI [rotated])
    with load_justifications_map_of [OF assms(1) i(1)] i(2)
    have "v = take ?n (drop (i * ?n) (st_justifications_validators s))" by simp
    moreover have "i * ?n + ?n \<le> length (st_justifications_validators s)"
      using i(1) mult_le_mono1 [of "Suc i" "length ?rs" ?n] assms(2) by simp
    ultimately show ?thesis by simp
  qed
  then show ?thesis by (auto simp: votes_ok_def)
qed

text \<open>Reading back what was flattened gives the same vote map.\<close>

lemma load_serialize:
  assumes "votes_ok (length (st_validators s)) j" and "length j \<le> HISTORICAL_ROOTS_LIMIT"
    and "length (st_validators s) \<le> VALIDATOR_REGISTRY_LIMIT"
    and "serialize_justifications s j (length (st_validators s)) = Ok s'"
  shows "map_of (load_justifications s') = map_of j"
proof (rule ext)
  fix r
  let ?n = "length (st_validators s)" and ?rs = "sort (map fst j)"
  let ?vs = "map (\<lambda>r. the (map_of j r)) ?rs"
  have s': "s' = s\<lparr>st_justifications_roots := ?rs, st_justifications_validators := concat ?vs\<rparr>"
    using serialize_justifications_Ok [OF assms(1-3)] assms(4) by simp
  then have rs': "st_justifications_roots s' = ?rs" and v': "st_validators s' = st_validators s"
    and jv': "st_justifications_validators s' = concat ?vs" by simp_all
  have d: "distinct ?rs" using assms(1) by (simp add: votes_ok_def)
  show "map_of (load_justifications s') r = map_of j r"
  proof (cases "r \<in> fst ` set j")
    case True
    then have "r \<in> set ?rs" by simp
    then obtain i where i: "i < length ?rs" "r = ?rs ! i" by (metis in_set_conv_nth)
    have "\<forall>v \<in> set ?vs. length v = ?n"
      using assms(1) by (auto intro!: votes_ok_length)
    then have "take ?n (drop (i * ?n) (concat ?vs)) = ?vs ! i"
      using i(1) by (intro chunk_of_concat) simp_all
    moreover have "map_of (load_justifications s') r =
      Some (take ?n (drop (i * ?n) (concat ?vs)))"
      using load_justifications_map_of [of s' i] d i rs' jv' v' by simp
    moreover have "map_of j r = Some (the (map_of j r))"
      using True by (metis domIff dom_map_of_conv_image_fst option.collapse)
    ultimately show ?thesis using i by simp
  next
    case False
    then have "map_of j r = None" by (simp add: map_of_eq_None_iff)
    moreover have "r \<notin> fst ` set (load_justifications s')"
      using False rs' by (simp add: load_justifications_keys)
    then have "map_of (load_justifications s') r = None" by (simp add: map_of_eq_None_iff)
    ultimately show ?thesis by simp
  qed
qed

section \<open>Properties\<close>

text \<open>
  C38. A slot is justifiable after a finalized one exactly when it is not before it and the distance
  is at most five, a perfect square or a pronic number. The 64-bit computation of the square tests
  is exact for distances below \<open>2 ^ 62\<close>.
\<close>

theorem justifiable_iff_square_or_pronic:
  assumes "unat slot - unat fin < 2 ^ 62"
  shows "slot_is_justifiable_after slot fin \<longleftrightarrow> fin \<le> slot \<and>
    (unat slot - unat fin \<le> 5 \<or> (\<exists>k. unat slot - unat fin = k * k) \<or>
     (\<exists>k. unat slot - unat fin = k * (k + 1)))"
  using slot_is_justifiable_after_iff [OF assms] by (simp add: justifiable_distance_def)

theorem justifiable_iff_square_or_pronic_witness:
  "slot_is_justifiable_after 36 6 \<and> \<not> slot_is_justifiable_after 13 6"
proof -
  have "(\<exists>k::nat. 30 = k * (k + 1))" by (rule exI [of _ 5]) simp
  then have pos: "slot_is_justifiable_after 36 6"
    using justifiable_iff_square_or_pronic [of 36 6] by simp
  have "k * k \<noteq> 7 \<and> k * (k + 1) \<noteq> 7" for k :: nat
  proof (cases "k \<le> 2")
    case True
    then have "k = 0 \<or> k = 1 \<or> k = 2" by linarith
    then show ?thesis by auto
  next
    case False
    then have "3 * 3 \<le> k * k" by (intro mult_le_mono) auto
    then show ?thesis by auto
  qed
  then have "\<not> slot_is_justifiable_after 13 6"
    using justifiable_iff_square_or_pronic [of 13 6] by auto
  with pos show ?thesis ..
qed

end
