(* ===== verification/Example_Chain.thy ===== *)
theory Example_Chain
  imports State_Transition
begin

text \<open>
  A concrete chain of three validators and three blocks on which the hypotheses of the theorems
  are instantiated: the second block justifies slot 1 and the third justifies slot 2 and finalizes
  slot 1. Roots are small numbers computed from the slot.
\<close>

section \<open>Data\<close>

definition demo_hashing :: hashing where
  "demo_hashing = \<lparr>h_state = (\<lambda>s. ucast (st_slot s) + 1000),
     h_header = (\<lambda>h. ucast (hdr_slot h) + 2000),
     h_body = (\<lambda>b. word_of_nat (length (body_attestations b)) + 3000),
     h_block = (\<lambda>b. ucast (blk_slot b) + 2000),
     h_data = (\<lambda>d. ucast (ad_slot d) + 4000)\<rparr>"

definition demo_validators :: "validator list" where
  "demo_validators = map (\<lambda>i. \<lparr>val_pubkey = [word_of_nat i], val_index = word_of_nat i\<rparr>) [0..<3]"

definition demo_genesis :: state where
  "demo_genesis = (case (from_genesis demo_hashing 12 demo_validators :: (state, st_error) result) of Ok s \<Rightarrow> s | _ \<Rightarrow> undefined)"

definition demo_checkpoint :: "u64 \<Rightarrow> checkpoint" where
  "demo_checkpoint slot = \<lparr>cp_root = ucast slot + 2000, cp_slot = slot\<rparr>"

definition demo_data :: "u64 \<Rightarrow> u64 \<Rightarrow> u64 \<Rightarrow> attestation_data" where
  "demo_data slot source target = \<lparr>ad_slot = slot, ad_head = demo_checkpoint target,
     ad_target = demo_checkpoint target, ad_source = demo_checkpoint source\<rparr>"

definition demo_block :: "u64 \<Rightarrow> aggregated_attestation list \<Rightarrow> block" where
  "demo_block slot atts = \<lparr>blk_slot = slot, blk_proposer_index = slot mod 3,
     blk_parent_root = ucast slot + 1999, blk_state_root = ucast slot + 1000,
     blk_body = \<lparr>body_attestations = atts\<rparr>\<rparr>"

definition demo_attestation :: "u64 \<Rightarrow> u64 \<Rightarrow> aggregated_attestation" where
  "demo_attestation source target = \<lparr>aa_aggregation_bits = [True, False, True],
     aa_data = demo_data target source target\<rparr>"


definition demo_state :: "u64 \<Rightarrow> u64 \<Rightarrow> u64 \<Rightarrow> H256 list \<Rightarrow> bitlist \<Rightarrow> nat \<Rightarrow> state" where
  "demo_state slot fin jus hashes js n =
     \<lparr>st_config = \<lparr>cc_genesis_time = 12\<rparr>, st_slot = slot,
      st_latest_block_header = \<lparr>hdr_slot = slot, hdr_proposer_index = slot mod 3,
        hdr_parent_root = ucast slot + 1999, hdr_state_root = 0, hdr_body_root = word_of_nat n + 3000\<rparr>,
      st_latest_justified = demo_checkpoint jus, st_latest_finalized = demo_checkpoint fin,
      st_historical_block_hashes = hashes, st_justified_slots = js,
      st_validators = demo_validators, st_justifications_roots = [], st_justifications_validators = []\<rparr>"

text \<open>Signatures that count as valid when they are not empty.\<close>

definition demo_crypto :: "(bytes, bytes, unit) crypto" where
  "demo_crypto = \<lparr>c_pubkey = Some, c_signature = Some, c_signature_bytes = (\<lambda>sig. sig),
     c_sign = (\<lambda>_ _ _. Some [1]), c_verify = (\<lambda>_ _ _ sig. sig \<noteq> []),
     c_aggregate = (\<lambda>_ _ _ _. Some [1]), c_decode_aggregate = (\<lambda>_. True),
     c_verify_aggregate = (\<lambda>_ _ p _. p \<noteq> [])\<rparr>"

text \<open>An encoding that carries one value.\<close>

definition demo_ssz :: "'a \<Rightarrow> 'a ssz" where
  "demo_ssz x = \<lparr>ssz_encode = (\<lambda>_. [7, 7]), ssz_decode = (\<lambda>_. Some x)\<rparr>"

section \<open>The transitions\<close>

lemmas demo_defs = demo_hashing_def demo_validators_def demo_genesis_def demo_checkpoint_def
  demo_data_def demo_block_def demo_attestation_def demo_state_def from_genesis_def
  checkpoint_default_def block_body_default_def
  HISTORICAL_ROOTS_LIMIT_def VALIDATOR_REGISTRY_LIMIT_def

lemmas transition_defs = state_transition_def process_slots_def process_block_def
  process_block_header_def current_proposer_def process_attestations_def load_justifications_def
  collect_map_def root_to_slot_map_def serialize_justifications_def with_capacity_def
  set_positions_def extend_to_slot_Ok

lemmas attestation_defs = record_root_def process_attestation_def is_valid_vote_def
  is_slot_justified_iff checkpoint_exists_def slot_is_justifiable_after_def checked_sub_def
  or_insert_def bit_set_def set_justified_Ok try_finalize_def shift_window_Ok Let_def
  word_le_nat_alt word_less_nat_alt

lemma replicate_3 [simp]: "replicate 3 x = [x, x, x]"
  by (simp add: eval_nat_numeral)

lemma demo_transition_1:
  "state_transition demo_hashing demo_genesis (demo_block 1 []) =
     Ok (demo_state 1 0 0 [2000] [] 0)"
  by (simp add: transition_defs demo_defs)

lemma demo_transition_2:
  "state_transition demo_hashing (demo_state 1 0 0 [2000] [] 0) (demo_block 2 [demo_attestation 0 1]) =
     Ok (demo_state 2 0 1 [2000, 2001] [True] 1)"
  by (simp add: transition_defs demo_defs attestation_defs)

lemma demo_transition_3:
  "state_transition demo_hashing (demo_state 2 0 1 [2000, 2001] [True] 1)
       (demo_block 3 [demo_attestation 1 2]) =
     Ok (demo_state 3 1 2 [2000, 2001, 2002] [True] 1)"
  by (simp add: transition_defs demo_defs attestation_defs)

end
