(* ===== verification/Signatures.thy ===== *)
theory Signatures
  imports Example_Chain
begin

text \<open>
  The signature wrappers of \<open>crates/common/crypto/src/lib.rs\<close>, the errors of the chain store and
  the verification of a signed block, from \<open>crates/blockchain/src/store.rs\<close>. The signature
  library itself is the parameter \<open>crypto\<close>.
\<close>

section \<open>Aggregation\<close>

datatype aggregation_error = EmptyInput | CountMismatch nat nat | AggregationFailed | ProofTooBig nat

datatype verification_error = DeserializationFailed | ProofError

definition MIB :: nat where
  "MIB = 1048576"

definition aggregate_signatures ::
  "('pk, 'sig, 'sk) crypto \<Rightarrow> 'pk list \<Rightarrow> 'sig list \<Rightarrow> H256 \<Rightarrow> u32 \<Rightarrow> (bytes, aggregation_error) result"
where
  "aggregate_signatures C public_keys signatures message slot =
     (if length public_keys \<noteq> length signatures
      then Err (CountMismatch (length public_keys) (length signatures))
      else if public_keys = [] then Err EmptyInput
      else bind_res (ok_or (c_aggregate C public_keys signatures message slot) AggregationFailed)
             (\<lambda>serialized. if length serialized \<le> MIB then Ok serialized
                           else Err (ProofTooBig (length serialized))))"

definition verify_aggregated_signature ::
  "('pk, 'sig, 'sk) crypto \<Rightarrow> bytes \<Rightarrow> 'pk list \<Rightarrow> H256 \<Rightarrow> u32 \<Rightarrow> (unit, verification_error) result"
where
  "verify_aggregated_signature C proof_data public_keys message slot =
     (if \<not> c_decode_aggregate C proof_data then Err DeserializationFailed
      else if c_verify_aggregate C public_keys message proof_data slot then Ok ()
      else Err ProofError)"

definition get_pubkey :: "('pk, 'sig, 'sk) crypto \<Rightarrow> validator \<Rightarrow> 'pk option" where
  "get_pubkey C v = c_pubkey C (val_pubkey v)"

text \<open>\<open>u64\<close> to \<open>u32\<close> with \<open>try_into().expect(..)\<close>.\<close>

definition try_u32 :: "u64 \<Rightarrow> (u32, 'e) result" where
  "try_u32 n = (if unat n < 2 ^ 32 then Ok (ucast n) else Panic)"

section \<open>Errors of the chain store\<close>

datatype store_error =
    MissingParentState H256 u64
  | InvalidValidatorIndex
  | PubkeyDecodingFailed u64
  | SignatureDecodingFailed
  | SignatureVerificationFailed
  | ProposerSignatureDecodingFailed
  | ProposerSignatureVerificationFailed
  | StateTransitionFailed st_error
  | UnknownSourceBlock H256
  | UnknownTargetBlock H256
  | UnknownHeadBlock H256
  | SourceExceedsTarget
  | HeadOlderThanTarget u64 u64
  | SourceSlotMismatch u64 u64
  | TargetSlotMismatch u64 u64
  | HeadSlotMismatch u64 u64
  | AttestationTooFarInFuture u64 u64
  | AttestationSignatureMismatch nat nat
  | ParticipantsMismatch
  | AggregateVerificationFailed verification_error
  | SignatureAggregationFailed aggregation_error
  | MissingTargetState H256
  | NotProposer u64 u64
  | ProposerAttestationMismatch u64 u64

section \<open>Verification of a signed block\<close>

text \<open>The public keys of the validators with the given ids, which are in range.\<close>

definition validator_pubkeys ::
  "('pk, 'sig, 'sk) crypto \<Rightarrow> validator list \<Rightarrow> u64 list \<Rightarrow> ('pk list, store_error) result" where
  "validator_pubkeys C validators =
     map_res (\<lambda>vid. ok_or (get_pubkey C (validators ! unat vid)) (PubkeyDecodingFailed vid))"

definition verify_attestation_proof ::
  "hashing \<Rightarrow> ('pk, 'sig, 'sk) crypto \<Rightarrow> validator list \<Rightarrow>
   aggregated_attestation \<times> aggregated_signature_proof \<Rightarrow> (unit, store_error) result" where
  "verify_attestation_proof H C validators = (\<lambda>(attestation, aggregated_proof).
     if aa_aggregation_bits attestation \<noteq> asp_participants aggregated_proof
     then Err ParticipantsMismatch
     else
       (let validator_ids = validator_indices (aa_aggregation_bits attestation)
        in if list_ex (\<lambda>vid. vid \<ge> word_of_nat (length validators)) validator_ids
           then Err InvalidValidatorIndex
           else
             bind_res (try_u32 (ad_slot (aa_data attestation))) (\<lambda>slot.
               (let message = h_data H (aa_data attestation)
                in bind_res (validator_pubkeys C validators validator_ids) (\<lambda>public_keys.
                     map_err AggregateVerificationFailed
                       (verify_aggregated_signature C (asp_proof_data aggregated_proof)
                          public_keys message slot))))))"

definition verify_signatures ::
  "hashing \<Rightarrow> ('pk, 'sig, 'sk) crypto \<Rightarrow> state \<Rightarrow> signed_block_with_attestation \<Rightarrow> (unit, store_error) result"
where
  "verify_signatures H C st signed_block =
     (let b = bwa_block (sb_message signed_block);
          attestations = body_attestations (blk_body b);
          attestation_signatures = bs_attestation_signatures (sb_signature signed_block);
          validators = st_validators st;
          proposer_attestation = bwa_proposer_attestation (sb_message signed_block)
      in if length attestations \<noteq> length attestation_signatures
         then Err (AttestationSignatureMismatch (length attestation_signatures) (length attestations))
         else
           bind_res (fold_res (\<lambda>ap _. verify_attestation_proof H C validators ap)
                       (zip attestations attestation_signatures) ())
             (\<lambda>_. if att_validator_id proposer_attestation \<noteq> blk_proposer_index b
                  then Err (ProposerAttestationMismatch (att_validator_id proposer_attestation)
                              (blk_proposer_index b))
                  else
                    bind_res (ok_or (c_signature C (bs_proposer_signature (sb_signature signed_block)))
                                ProposerSignatureDecodingFailed)
                      (\<lambda>proposer_signature.
                        bind_res (ok_or (if unat (blk_proposer_index b) < length validators
                                         then Some (validators ! unat (blk_proposer_index b)) else None)
                                    InvalidValidatorIndex)
                          (\<lambda>proposer.
                            bind_res (ok_or (get_pubkey C proposer) (PubkeyDecodingFailed (val_index proposer)))
                              (\<lambda>proposer_pubkey.
                                bind_res (try_u32 (ad_slot (att_data proposer_attestation)))
                                  (\<lambda>slot.
                                    if c_verify C proposer_pubkey slot
                                         (h_data H (att_data proposer_attestation)) proposer_signature
                                    then Ok () else Err ProposerSignatureVerificationFailed))))))"

section \<open>Facts\<close>

lemma try_u32_Ok_iff [outcome_simps]: "try_u32 n = Ok m \<longleftrightarrow> unat n < 2 ^ 32 \<and> m = ucast n"
  by (auto simp: try_u32_def)

lemma try_u32_Panic_iff [outcome_simps]: "try_u32 n = Panic \<longleftrightarrow> 2 ^ 32 \<le> unat n"
  by (auto simp: try_u32_def)

lemma try_u32_no_Err [simp]: "try_u32 n \<noteq> Err e"
  by (simp add: try_u32_def)

lemma fold_res_unit_Ok:
  "fold_res (\<lambda>x _. f x) xs () = Ok () \<longleftrightarrow> (\<forall>x \<in> set xs. f x = Ok ())"
  by (induction xs) (auto simp: bind_res_Ok_iff)

lemma fold_res_unit_Panic:
  "fold_res (\<lambda>x _. f x) xs () = Panic \<Longrightarrow> \<exists>x \<in> set xs. f x = Panic"
  by (induction xs) (auto simp: bind_res_Panic_iff)

text \<open>What one verified attestation says of the signatures behind it.\<close>

definition proof_valid ::
  "hashing \<Rightarrow> ('pk, 'sig, 'sk) crypto \<Rightarrow> validator list \<Rightarrow>
   aggregated_attestation \<Rightarrow> aggregated_signature_proof \<Rightarrow> bool" where
  "proof_valid H C validators att p \<longleftrightarrow>
     asp_participants p = aa_aggregation_bits att \<and> unat (ad_slot (aa_data att)) < 2 ^ 32 \<and>
     (\<forall>vid \<in> set (validator_indices (aa_aggregation_bits att)). vid < word_of_nat (length validators)) \<and>
     (\<exists>pks. list_all2 (\<lambda>vid pk. c_pubkey C (val_pubkey (validators ! unat vid)) = Some pk)
          (validator_indices (aa_aggregation_bits att)) pks \<and>
        c_decode_aggregate C (asp_proof_data p) \<and>
        c_verify_aggregate C pks (h_data H (aa_data att)) (asp_proof_data p)
          (ucast (ad_slot (aa_data att))))"

lemma verify_aggregated_signature_Ok_iff [outcome_simps]:
  "verify_aggregated_signature C p pks m slot = Ok x \<longleftrightarrow>
     c_decode_aggregate C p \<and> c_verify_aggregate C pks m p slot"
  by (auto simp: verify_aggregated_signature_def)

lemma verify_attestation_proof_Ok_iff:
  "verify_attestation_proof H C validators (att, p) = Ok x \<longleftrightarrow> proof_valid H C validators att p"
  by (auto simp: verify_attestation_proof_def proof_valid_def outcome_simps validator_pubkeys_def
      get_pubkey_def list_ex_iff not_le Let_def split: if_splits) (meson leD)

lemma verify_signatures_Ok_iff:
  "verify_signatures H C st sb = Ok () \<longleftrightarrow>
     (let b = bwa_block (sb_message sb); pa = bwa_proposer_attestation (sb_message sb);
          vs = st_validators st
      in list_all2 (proof_valid H C vs) (body_attestations (blk_body b))
           (bs_attestation_signatures (sb_signature sb)) \<and>
         att_validator_id pa = blk_proposer_index b \<and> unat (blk_proposer_index b) < length vs \<and>
         unat (ad_slot (att_data pa)) < 2 ^ 32 \<and>
         (\<exists>sig pk. c_signature C (bs_proposer_signature (sb_signature sb)) = Some sig \<and>
            c_pubkey C (val_pubkey (vs ! unat (blk_proposer_index b))) = Some pk \<and>
            c_verify C pk (ucast (ad_slot (att_data pa))) (h_data H (att_data pa)) sig))"
proof -
  have *: "fold_res (\<lambda>ap _. verify_attestation_proof H C vs ap) (zip as ps) () = Ok () \<longleftrightarrow>
      (\<forall>(a, p) \<in> set (zip as ps). proof_valid H C vs a p)" for vs as ps
    unfolding fold_res_unit_Ok by (auto simp: verify_attestation_proof_Ok_iff)
  show ?thesis
    by (auto simp: verify_signatures_def Let_def outcome_simps * list_all2_iff get_pubkey_def
        split: if_splits)
qed

text \<open>Verification panics only where a slot does not fit 32 bits.\<close>

definition slots_fit :: "signed_block_with_attestation \<Rightarrow> bool" where
  "slots_fit sb \<longleftrightarrow> unat (ad_slot (att_data (bwa_proposer_attestation (sb_message sb)))) < 2 ^ 32 \<and>
     (\<forall>att \<in> set (body_attestations (blk_body (bwa_block (sb_message sb)))). unat (ad_slot (aa_data att)) < 2 ^ 32)"

lemma verify_attestation_proof_no_panic:
  "unat (ad_slot (aa_data att)) < 2 ^ 32 \<Longrightarrow> verify_attestation_proof H C validators (att, p) \<noteq> Panic"
  by (auto simp: verify_attestation_proof_def Let_def outcome_simps validator_pubkeys_def
      verify_aggregated_signature_def split: if_splits dest!: map_res_Panic)

lemma verify_signatures_no_panic:
  assumes "slots_fit sb"
  shows "verify_signatures H C st sb \<noteq> Panic"
proof -
  have "verify_attestation_proof H C vs ap \<noteq> Panic"
    if "ap \<in> set (zip (body_attestations (blk_body (bwa_block (sb_message sb)))) ps)" for ap vs ps
  proof -
    obtain att p where ap: "ap = (att, p)" by (cases ap)
    with that assms have "unat (ad_slot (aa_data att)) < 2 ^ 32" by (auto simp: slots_fit_def dest: set_zip_leftD)
    then show ?thesis unfolding ap by (rule verify_attestation_proof_no_panic)
  qed
  then have "fold_res (\<lambda>ap _. verify_attestation_proof H C vs ap)
      (zip (body_attestations (blk_body (bwa_block (sb_message sb)))) ps) () \<noteq> Panic" for vs ps
    using fold_res_unit_Panic by blast
  with assms show ?thesis
    by (auto simp: verify_signatures_def slots_fit_def Let_def outcome_simps split: if_splits)
qed

section \<open>Properties\<close>

text \<open>
  C15. A signed block passes verification exactly when there is one proof per attestation, every
  proof is valid for its attestation (same participants, all of them validators with decodable
  keys, and the aggregate verifies under those keys), and the proposer attestation is by the
  block's proposer, a validator whose signature over it verifies.
\<close>

theorem verify_signatures_sound_complete:
  "verify_signatures H C st sb = Ok () \<longleftrightarrow>
     (let b = bwa_block (sb_message sb); pa = bwa_proposer_attestation (sb_message sb);
          vs = st_validators st
      in list_all2 (proof_valid H C vs) (body_attestations (blk_body b))
           (bs_attestation_signatures (sb_signature sb)) \<and>
         att_validator_id pa = blk_proposer_index b \<and> unat (blk_proposer_index b) < length vs \<and>
         unat (ad_slot (att_data pa)) < 2 ^ 32 \<and>
         (\<exists>sig pk. c_signature C (bs_proposer_signature (sb_signature sb)) = Some sig \<and>
            c_pubkey C (val_pubkey (vs ! unat (blk_proposer_index b))) = Some pk \<and>
            c_verify C pk (ucast (ad_slot (att_data pa))) (h_data H (att_data pa)) sig))"
  by (rule verify_signatures_Ok_iff)

text \<open>
  C40. Verification panics on a block whose first attestation has a slot beyond 32 bits, whatever
  its signatures are, if only there are as many proofs as attestations, the first proof names the
  participants of the first attestation, and these are validators: the slot is converted before
  anything is verified, so a block that needs no valid signature stops the process.
\<close>

theorem verify_signatures_panics_on_large_slot:
  assumes "body_attestations (blk_body (bwa_block (sb_message sb))) = att # atts"
    and "bs_attestation_signatures (sb_signature sb) = p # ps" and "length ps = length atts"
    and "asp_participants p = aa_aggregation_bits att"
    and "\<forall>vid \<in> set (validator_indices (aa_aggregation_bits att)). vid < word_of_nat (length (st_validators st))"
    and "2 ^ 32 \<le> unat (ad_slot (aa_data att))"
  shows "verify_signatures H C st sb = Panic"
proof -
  have "try_u32 (ad_slot (aa_data att)) = (Panic :: (u32, store_error) result)"
    using assms(6) by (simp add: try_u32_def)
  moreover have "\<not> list_ex (\<lambda>vid. vid \<ge> word_of_nat (length (st_validators st)))
      (validator_indices (aa_aggregation_bits att))"
    using assms(5) by (auto simp: list_ex_iff not_le)
  ultimately show ?thesis
    using assms(1-4) by (simp add: verify_signatures_def verify_attestation_proof_def Let_def)
qed

theorem verify_signatures_panics_on_large_slot_witness:
  "verify_signatures demo_hashing demo_crypto demo_genesis
     \<lparr>sb_message =
        \<lparr>bwa_block = demo_block 1 [\<lparr>aa_aggregation_bits = [], aa_data = demo_data (2 ^ 40) 0 1\<rparr>],
         bwa_proposer_attestation = \<lparr>att_validator_id = 0, att_data = demo_data 1 0 1\<rparr>\<rparr>,
      sb_signature = \<lparr>bs_attestation_signatures = [proof_empty []], bs_proposer_signature = []\<rparr>\<rparr> =
   Panic"
  by (rule verify_signatures_panics_on_large_slot [where p = "proof_empty []" and ps = "[]" and atts = "[]"
        and att = "\<lparr>aa_aggregation_bits = [], aa_data = demo_data (2 ^ 40) 0 1\<rparr>"])
    (simp_all add: demo_block_def demo_data_def proof_empty_def validator_indices_def set_positions_def)

end
