(* ===== verification/Keys.thy ===== *)
theory Keys
  imports Types "HOL-Library.List_Lexorder"
begin

text \<open>
  Keys of the storage tables as byte strings, from \<open>crates/storage/src/store.rs\<close>: roots are their
  32 bytes, gossip signatures are keyed by the little-endian (SSZ) validator id followed by the
  root, and the live chain by the big-endian slot followed by the root. A key decodes to what was
  encoded, and the byte order of live-chain keys is the order of slots and then roots.
\<close>

section \<open>Integers as bytes\<close>

fun be_bytes :: "nat \<Rightarrow> nat \<Rightarrow> bytes" where
  "be_bytes 0 n = []"
| "be_bytes (Suc k) n = word_of_nat (n div 256 ^ k) # be_bytes k (n mod 256 ^ k)"

definition of_be_bytes :: "bytes \<Rightarrow> nat" where
  "of_be_bytes bs = foldl (\<lambda>acc b. acc * 256 + unat b) 0 bs"

section \<open>Keys\<close>

type_synonym signature_key = "u64 \<times> H256"

definition root_bytes :: "H256 \<Rightarrow> bytes" where
  "root_bytes root = be_bytes 32 (unat root)"

definition encode_signature_key :: "signature_key \<Rightarrow> bytes" where
  "encode_signature_key = (\<lambda>(validator_id, root). rev (be_bytes 8 (unat validator_id)) @ root_bytes root)"

definition decode_signature_key :: "bytes \<Rightarrow> (signature_key, 'e) result" where
  "decode_signature_key bs =
     (if length bs = 40
      then Ok (word_of_nat (of_be_bytes (rev (take 8 bs))), word_of_nat (of_be_bytes (drop 8 bs)))
      else Panic)"

definition encode_live_chain_key :: "u64 \<times> H256 \<Rightarrow> bytes" where
  "encode_live_chain_key = (\<lambda>(slot, root). be_bytes 8 (unat slot) @ root_bytes root)"

definition decode_live_chain_key :: "bytes \<Rightarrow> (u64 \<times> H256, 'e) result" where
  "decode_live_chain_key bs =
     (if length bs = 40
      then Ok (word_of_nat (of_be_bytes (take 8 bs)), word_of_nat (of_be_bytes (drop 8 bs)))
      else Panic)"

section \<open>Bytes and their order\<close>

lemma length_be_bytes [simp]: "length (be_bytes k n) = k"
  by (induction k arbitrary: n) auto

lemma foldl_be_bytes:
  "n < 256 ^ k \<Longrightarrow> foldl (\<lambda>acc b. acc * 256 + unat b) a (be_bytes k n) = a * 256 ^ k + n"
proof (induction k arbitrary: n a)
  case 0
  then show ?case by simp
next
  case (Suc k)
  then have "n div 256 ^ k < 256" by (simp add: less_mult_imp_div_less)
  then have "unat (word_of_nat (n div 256 ^ k) :: u8) = n div 256 ^ k" by (simp add: unat_of_nat)
  with Suc show ?case by (simp add: algebra_simps)
qed

lemma of_be_bytes_be_bytes [simp]: "n < 256 ^ k \<Longrightarrow> of_be_bytes (be_bytes k n) = n"
  by (simp add: of_be_bytes_def foldl_be_bytes)

lemma less_div_mod_iff: "n < m \<longleftrightarrow> n div c < m div c \<or> n div c = m div c \<and> n mod c < m mod c"
  for n m c :: nat
proof (cases "n div c" "m div c" rule: linorder_cases)
  case less
  then have "\<not> m \<le> n" using div_le_mono [of m n c] by linarith
  with less show ?thesis by simp
next
  case equal
  have "n = n div c * c + n mod c" "m = m div c * c + m mod c" by simp_all
  with equal show ?thesis by (metis less_irrefl nat_add_left_cancel_less)
next
  case greater
  then have "\<not> n \<le> m" using div_le_mono [of n m c] by linarith
  with greater show ?thesis by simp
qed

lemma be_bytes_less_iff:
  assumes "n < 256 ^ k" and "m < 256 ^ k"
  shows "be_bytes k n < be_bytes k m \<longleftrightarrow> n < m"
  using assms
proof (induction k arbitrary: n m)
  case 0
  then show ?case by simp
next
  case (Suc k)
  then have d: "n div 256 ^ k < 256" "m div 256 ^ k < 256" by (simp_all add: less_mult_imp_div_less)
  then have u: "unat (word_of_nat (n div 256 ^ k) :: u8) = n div 256 ^ k"
    "unat (word_of_nat (m div 256 ^ k) :: u8) = m div 256 ^ k" by (simp_all add: unat_of_nat)
  have iff: "n < m \<longleftrightarrow> n div 256 ^ k < m div 256 ^ k \<or>
      n div 256 ^ k = m div 256 ^ k \<and> n mod 256 ^ k < m mod 256 ^ k"
    by (rule less_div_mod_iff)
  have "be_bytes (Suc k) n < be_bytes (Suc k) m \<longleftrightarrow> n div 256 ^ k < m div 256 ^ k \<or>
      n div 256 ^ k = m div 256 ^ k \<and> be_bytes k (n mod 256 ^ k) < be_bytes k (m mod 256 ^ k)"
    by (simp add: word_less_nat_alt word_unat_eq_iff u)
  with Suc.IH [of "n mod 256 ^ k" "m mod 256 ^ k"] iff show ?case by simp
qed

lemma append_less_iff:
  "length xs = length ys \<Longrightarrow> xs @ us < ys @ vs \<longleftrightarrow> xs < ys \<or> xs = ys \<and> us < (vs :: 'a::linorder list)"
  by (induction xs ys rule: list_induct2) auto

lemma unat_256: "unat (w :: H256) < 256 ^ 32"
  using unsigned_less [of w] by simp

lemma unat_64: "unat (w :: u64) < 256 ^ 8"
  using unsigned_less [of w] by simp

lemma root_bytes_less_iff [simp]: "root_bytes a < root_bytes b \<longleftrightarrow> a < b"
  unfolding root_bytes_def by (simp add: be_bytes_less_iff [OF unat_256 unat_256] word_less_nat_alt)

lemma root_bytes_inject [simp]: "root_bytes a = root_bytes b \<longleftrightarrow> a = b"
  using root_bytes_less_iff by (metis antisym_conv3 less_irrefl)

lemma be_bytes_8_inject [simp]: "be_bytes 8 (unat (a :: u64)) = be_bytes 8 (unat b) \<longleftrightarrow> a = b"
  using be_bytes_less_iff [OF unat_64 unat_64] by (metis antisym_conv3 less_irrefl word_less_nat_alt)

lemma length_root_bytes [simp]: "length (root_bytes r) = 32"
  by (simp add: root_bytes_def)

lemma of_be_bytes_root [simp]: "of_be_bytes (root_bytes r) = unat r"
  using unat_256 by (simp add: root_bytes_def)

lemma of_be_bytes_slot [simp]: "of_be_bytes (be_bytes 8 (unat (w :: u64))) = unat w"
  using unat_64 by simp

lemma decode_encode_signature_key: "decode_signature_key (encode_signature_key key) = Ok key"
  by (cases key) (simp add: decode_signature_key_def encode_signature_key_def)

lemma decode_encode_live_chain_key: "decode_live_chain_key (encode_live_chain_key key) = Ok key"
  by (cases key) (simp add: decode_live_chain_key_def encode_live_chain_key_def)

lemma inj_encode_signature_key [simp]: "inj encode_signature_key"
  by (rule injI) (metis decode_encode_signature_key result.inject(1))

lemma inj_encode_live_chain_key [simp]: "inj encode_live_chain_key"
  by (rule injI) (metis decode_encode_live_chain_key result.inject(1))

lemma inj_root_bytes [simp]: "inj root_bytes"
  by (rule injI) simp

lemma encode_live_chain_key_less_iff:
  "encode_live_chain_key (slot, root) < encode_live_chain_key (slot', root') \<longleftrightarrow>
     slot < slot' \<or> slot = slot' \<and> root < root'"
  by (simp add: encode_live_chain_key_def append_less_iff be_bytes_less_iff [OF unat_64 unat_64]
      word_less_nat_alt [where 'a = 64])

lemma be_bytes_small: "n < 256 \<Longrightarrow> be_bytes (Suc k) n = replicate k 0 @ [word_of_nat n]"
proof (induction k)
  case (Suc k)
  have "(256 :: nat) \<le> 256 ^ Suc k" by simp
  with Suc.prems have "n < 256 ^ Suc k" by (rule less_le_trans)
  then have "n div 256 ^ Suc k = 0" "n mod 256 ^ Suc k = n" by simp_all
  with Suc show ?case by (subst be_bytes.simps) simp
qed simp

lemma last_be_byte: "\<exists>xs. be_bytes (Suc k) n = xs @ [word_of_nat (n mod 256)]"
proof (induction k arbitrary: n)
  case 0
  show ?case by (intro exI [of _ "[]"]) (simp add: word_unat_eq_iff unat_of_nat)
next
  case (Suc k)
  from Suc.IH [of "n mod 256 ^ Suc k"] obtain xs where "be_bytes (Suc k) (n mod 256 ^ Suc k) =
    xs @ [word_of_nat (n mod 256 ^ Suc k mod 256)]" by blast
  moreover have "n mod 256 ^ Suc k mod 256 = n mod 256" by (simp add: mod_mod_cancel)
  ultimately show ?case by (intro exI [of _ "word_of_nat (n div 256 ^ Suc k) # xs"]) (subst be_bytes.simps, simp)
qed

text \<open>
  Gossip signature keys start with the little-endian validator id: for ids of one byte their order is
  the order of the ids, for larger ids it is not.
\<close>

lemma small_key_order:
  assumes "unat v < 256" and "unat w < 256"
  shows "encode_signature_key (v, r) < encode_signature_key (w, r) \<longleftrightarrow> v < w"
proof -
  have eight: "(8 :: nat) = Suc 7" by simp
  have b: "rev (be_bytes 8 (unat u)) = word_of_nat (unat u) # replicate 7 0" if "unat u < 256" for u :: u64
    unfolding eight be_bytes_small [OF that] by (simp only: rev_append rev_replicate rev.simps append.simps)
  have "unat (word_of_nat (unat u) :: u8) = unat u" if "unat u < 256" for u :: u64
    using that unfolding unat_of_nat by simp
  with assms have "(word_of_nat (unat v) :: u8) < word_of_nat (unat w) \<longleftrightarrow> v < w"
    unfolding word_less_nat_alt by metis
  then show ?thesis using assms unfolding encode_signature_key_def prod.case b [OF assms(1)] b [OF assms(2)]
    by auto
qed

lemma wide_ids_reordered: "encode_signature_key (256, r) < encode_signature_key (1, r)"
proof -
  have eight: "(8 :: nat) = Suc 7" by simp
  from last_be_byte [of 7 256] last_be_byte [of 7 1] obtain xs ys where
    "be_bytes 8 256 = xs @ [0]" "be_bytes 8 1 = ys @ [1]" unfolding eight by auto
  then show ?thesis by (simp add: encode_signature_key_def)
qed

section \<open>Properties\<close>

text \<open>
  Both key encodings are 40 bytes long and decode to the key they were made from.
\<close>

lemma storage_keys_roundtrip:
  "decode_signature_key (encode_signature_key (validator_id, root)) = Ok (validator_id, root) \<and>
   decode_live_chain_key (encode_live_chain_key (slot, root)) = Ok (slot, root) \<and>
   length (encode_signature_key (validator_id, root)) = 40 \<and>
   length (encode_live_chain_key (slot, root)) = 40"
  unfolding decode_encode_signature_key decode_encode_live_chain_key
  by (simp add: encode_signature_key_def encode_live_chain_key_def)

text \<open>
  The byte order of live-chain keys is the order of slots and, within a slot, of roots: what
  makes a scan of the table visit the blocks by ascending slot.
\<close>

lemma live_chain_key_order:
  "encode_live_chain_key (slot, root) < encode_live_chain_key (slot', root') \<longleftrightarrow>
     slot < slot' \<or> slot = slot' \<and> root < root'"
  by (rule encode_live_chain_key_less_iff)

end
