(* ===== verification/Payload_Buffer.thy ===== *)
theory Payload_Buffer
  imports Keys
begin

text \<open>
  The bounded buffer of aggregated payloads of \<open>crates/storage/src/store.rs\<close> and the stored
  containers of \<open>crates/storage/src/types.rs\<close>. A push beyond the capacity evicts the oldest entry,
  so the buffer always holds the newest entries in order of insertion. A hash set or map built
  from the entries is a list with one element per key; its order stands for the iteration order.
\<close>

section \<open>Stored containers\<close>

record stored_signature =
  ss_slot :: u64
  ss_signature_bytes :: bytes

definition stored_signature_new ::
  "('pk, 'sig, 'sk) crypto \<Rightarrow> u64 \<Rightarrow> 'sig \<Rightarrow> stored_signature" where
  "stored_signature_new C slot signature =
     \<lparr>ss_slot = slot, ss_signature_bytes = c_signature_bytes C signature\<rparr>"

definition to_validator_signature :: "('pk, 'sig, 'sk) crypto \<Rightarrow> stored_signature \<Rightarrow> 'sig option" where
  "to_validator_signature C s = c_signature C (ss_signature_bytes s)"

record stored_aggregated_payload =
  sap_slot :: u64
  sap_proof :: aggregated_signature_proof

section \<open>The buffer\<close>

definition AGGREGATED_PAYLOAD_CAP :: nat where
  "AGGREGATED_PAYLOAD_CAP = 4096"

definition NEW_PAYLOAD_CAP :: nat where
  "NEW_PAYLOAD_CAP = 512"

record payload_buffer =
  pb_entries :: "(signature_key \<times> stored_aggregated_payload) list"
  pb_capacity :: nat

definition buffer_new :: "nat \<Rightarrow> payload_buffer" where
  "buffer_new capacity = \<lparr>pb_entries = [], pb_capacity = capacity\<rparr>"

definition buffer_push ::
  "signature_key \<times> stored_aggregated_payload \<Rightarrow> payload_buffer \<Rightarrow> payload_buffer" where
  "buffer_push entry b =
     (let es = (if length (pb_entries b) \<ge> pb_capacity b then tl (pb_entries b) else pb_entries b)
      in b\<lparr>pb_entries := es @ [entry]\<rparr>)"

definition buffer_push_batch ::
  "(signature_key \<times> stored_aggregated_payload) list \<Rightarrow> payload_buffer \<Rightarrow> payload_buffer" where
  "buffer_push_batch entries b = fold buffer_push entries b"

definition buffer_drain ::
  "payload_buffer \<Rightarrow> (signature_key \<times> stored_aggregated_payload) list \<times> payload_buffer" where
  "buffer_drain b = (pb_entries b, b\<lparr>pb_entries := []\<rparr>)"

text \<open>The groups are in the order of first insertion; the code returns a hash map.\<close>

definition buffer_grouped ::
  "payload_buffer \<Rightarrow> (signature_key \<times> stored_aggregated_payload list) list" where
  "buffer_grouped b = fold (\<lambda>(key, payload) m.
     AList.update key ((case map_of m key of None \<Rightarrow> [] | Some ps \<Rightarrow> ps) @ [payload]) m) (pb_entries b) []"

definition buffer_unique_keys :: "payload_buffer \<Rightarrow> signature_key list" where
  "buffer_unique_keys b = remdups (map fst (pb_entries b))"

definition buffer_len :: "payload_buffer \<Rightarrow> nat" where
  "buffer_len b = length (pb_entries b)"

section \<open>Facts\<close>

definition buffer_ok :: "payload_buffer \<Rightarrow> bool" where
  "buffer_ok b \<longleftrightarrow> 0 < pb_capacity b \<and> length (pb_entries b) \<le> pb_capacity b"

lemma buffer_push_entries:
  assumes "buffer_ok b"
  shows "buffer_push e b =
    b\<lparr>pb_entries := drop (Suc (length (pb_entries b)) - pb_capacity b) (pb_entries b @ [e])\<rparr>"
  using assms by (auto simp: buffer_push_def buffer_ok_def Let_def tl_def drop_Suc split: list.splits)

lemma buffer_push_ok: "buffer_ok b \<Longrightarrow> buffer_ok (buffer_push e b)"
  by (auto simp: buffer_ok_def buffer_push_def Let_def)

lemma drop_newest:
  assumes "k = 0 \<or> k + c \<le> length xs"
  shows "drop (length (drop k xs) - c) (drop k xs) = drop (length xs - c) xs"
proof -
  from assms have "length xs - k - c + k = length xs - c \<or> k = 0" by arith
  then show ?thesis by auto
qed

lemma buffer_push_batch_run:
  assumes "buffer_ok b"
  shows "buffer_ok (buffer_push_batch es b) \<and> buffer_push_batch es b =
    b\<lparr>pb_entries := drop (length (pb_entries b @ es) - pb_capacity b) (pb_entries b @ es)\<rparr>"
  using assms
proof (induction es arbitrary: b)
  case Nil
  then show ?case by (simp add: buffer_push_batch_def buffer_ok_def)
next
  case (Cons e es)
  from Cons.prems have cap: "length (pb_entries b) \<le> pb_capacity b"
    and pos: "0 < pb_capacity b" by (simp_all add: buffer_ok_def)
  let ?b1 = "buffer_push e b"
  let ?k = "Suc (length (pb_entries b)) - pb_capacity b"
  have b1: "?b1 = b\<lparr>pb_entries := drop ?k (pb_entries b @ [e])\<rparr>"
    by (rule buffer_push_entries [OF Cons.prems])
  have ok1: "buffer_ok ?b1" by (rule buffer_push_ok [OF Cons.prems])
  have eq: "drop ?k (pb_entries b @ [e]) @ es = drop ?k (pb_entries b @ e # es)"
    using cap pos by simp
  have "drop (length (drop ?k (pb_entries b @ e # es)) - pb_capacity b) (drop ?k (pb_entries b @ e # es)) =
      drop (length (pb_entries b @ e # es) - pb_capacity b) (pb_entries b @ e # es)"
    by (rule drop_newest) auto
  note newest = this
  have cap1: "pb_capacity ?b1 = pb_capacity b" and upd: "?b1\<lparr>pb_entries := x\<rparr> = b\<lparr>pb_entries := x\<rparr>" for x
    by (simp_all add: b1)
  have E1: "pb_entries ?b1 @ es = drop ?k (pb_entries b @ e # es)"
    unfolding b1 using eq by simp
  have "buffer_push_batch (e # es) b = buffer_push_batch es ?b1" by (simp add: buffer_push_batch_def)
  with Cons.IH [OF ok1] show ?case unfolding E1 cap1 upd newest by argo
qed

lemma map_of_grouped_fold:
  "(case map_of (fold (\<lambda>(key, payload) m.
       AList.update key ((case map_of m key of None \<Rightarrow> [] | Some ps \<Rightarrow> ps) @ [payload]) m) es m) k of
      None \<Rightarrow> [] | Some ps \<Rightarrow> ps) =
   (case map_of m k of None \<Rightarrow> [] | Some ps \<Rightarrow> ps) @ map snd (filter (\<lambda>(k', _). k' = k) es)"
proof (induction es arbitrary: m)
  case Nil
  then show ?case by simp
next
  case (Cons e es)
  obtain k0 p0 where "e = (k0, p0)" by (cases e)
  then show ?case by (simp only: fold_Cons comp_apply Cons.IH prod.case) (auto split: option.splits)
qed

lemma map_of_grouped:
  "(case map_of (buffer_grouped b) k of None \<Rightarrow> [] | Some ps \<Rightarrow> ps) =
     map snd (filter (\<lambda>(k', _). k' = k) (pb_entries b))"
  unfolding buffer_grouped_def map_of_grouped_fold by simp

lemma set_buffer_unique_keys [simp]: "set (buffer_unique_keys b) = fst ` set (pb_entries b)"
  by (simp add: buffer_unique_keys_def)

lemma set_buffer_push_batch: "set (pb_entries (buffer_push_batch es b)) \<subseteq> set (pb_entries b) \<union> set es"
  unfolding buffer_push_batch_def
proof (induction es arbitrary: b)
  case (Cons e es)
  have "set (pb_entries (buffer_push e b)) \<subseteq> set (pb_entries b) \<union> {e}"
    by (cases "pb_entries b") (auto simp: buffer_push_def Let_def)
  with Cons.IH [of "buffer_push e b"] show ?case by auto
qed simp

lemma distinct_buffer_grouped: "distinct (map fst (buffer_grouped b))"
proof -
  have "distinct (map fst m) \<Longrightarrow> distinct (map fst (fold (\<lambda>(key, payload) m.
      AList.update key ((case map_of m key of None \<Rightarrow> [] | Some ps \<Rightarrow> ps) @ [payload]) m) es m))"
    for m :: "(signature_key \<times> stored_aggregated_payload list) list" and es
  proof (induction es arbitrary: m)
    case (Cons e es)
    show ?case unfolding fold_Cons comp_apply
      by (rule Cons.IH, cases e) (simp only: prod.case distinct_update Cons.prems)
  qed simp
  then show ?thesis by (simp add: buffer_grouped_def)
qed

lemma grouped_entries:
  assumes "(k, ps) \<in> set (buffer_grouped b)" and "p \<in> set ps"
  shows "(k, p) \<in> set (pb_entries b)"
  using map_of_grouped [of b k] map_of_is_SomeI [OF distinct_buffer_grouped assms(1)] assms(2) by auto

lemma grouped_key:
  assumes "(k, ps) \<in> set (buffer_grouped b)"
  shows "k \<in> fst ` set (pb_entries b)"
proof -
  have "fst ` set (fold (\<lambda>(key, payload) m. AList.update key
      ((case map_of m key of None \<Rightarrow> [] | Some ps \<Rightarrow> ps) @ [payload]) m) es m) = fst ` set m \<union> fst ` set es"
    for m :: "(signature_key \<times> stored_aggregated_payload list) list" and es
  proof (induction es arbitrary: m)
    case (Cons e es)
    show ?case unfolding fold_Cons comp_apply Cons.IH by (cases e) (simp add: dom_update Un_ac)
  qed simp
  from this [of "pb_entries b" "[]"] assms show ?thesis by (force simp: buffer_grouped_def)
qed

section \<open>Properties\<close>

text \<open>
  Grouping a buffer by key loses nothing and keeps the order of insertion within each group;
  the keys are exactly those of the entries.
\<close>

lemma buffer_grouped_payloads:
  "(case map_of (buffer_grouped b) k of None \<Rightarrow> [] | Some ps \<Rightarrow> ps) =
     map snd (filter (\<lambda>(k', _). k' = k) (pb_entries b)) \<and>
   distinct (buffer_unique_keys b) \<and> set (buffer_unique_keys b) = fst ` set (pb_entries b)"
  using map_of_grouped [of b k] by (simp add: buffer_unique_keys_def)

end
