(* ===== verification/State_Invariants.thy ===== *)
theory State_Invariants
  imports Example_Chain
begin

text \<open>
  The invariant of the consensus state and what the transition does on it: a well-formed state
  never makes the transition panic, every accepted block leaves a well-formed state with the
  finalized slot at or above the old one, and the blocks accepted and the errors returned are
  characterized exactly. Optimised routines are compared with their references: the jump over
  empty slots with the slot-by-slot loop.
\<close>

section \<open>Well-formed states\<close>

text \<open>
  Between blocks: the history has one entry per slot below the latest block's, the justified-slots
  window reaches up to the slot before it, the finalized checkpoint does not pass the justified
  one, and the open votes are for distinct non-zero roots of the unfinalized history, one bit per
  validator.
\<close>

definition wf_state :: "state \<Rightarrow> bool" where
  "wf_state s \<longleftrightarrow>
     length (st_historical_block_hashes s) = unat (hdr_slot (st_latest_block_header s)) \<and>
     length (st_historical_block_hashes s) \<le> HISTORICAL_ROOTS_LIMIT \<and>
     hdr_slot (st_latest_block_header s) \<le> st_slot s \<and>
     cp_slot (st_latest_finalized s) \<le> cp_slot (st_latest_justified s) \<and>
     cp_slot (st_latest_justified s) \<le> hdr_slot (st_latest_block_header s) \<and>
     length (st_justified_slots s) =
       length (st_historical_block_hashes s) - 1 - unat (cp_slot (st_latest_finalized s)) \<and>
     length (st_validators s) \<le> VALIDATOR_REGISTRY_LIMIT \<and>
     sorted (st_justifications_roots s) \<and> distinct (st_justifications_roots s) \<and>
     length (st_justifications_validators s) =
       length (st_justifications_roots s) * length (st_validators s) \<and>
     0 \<notin> set (st_justifications_roots s) \<and>
     set (st_justifications_roots s) \<subseteq>
       set (drop (Suc (unat (cp_slot (st_latest_finalized s)))) (st_historical_block_hashes s))"

text \<open>The same while the attestations of a block are processed from \<open>s0\<close> on.\<close>

definition wf_processing :: "state \<Rightarrow> state \<times> votes \<Rightarrow> bool" where
  "wf_processing s0 = (\<lambda>(s, j).
     st_config s = st_config s0 \<and> st_slot s = st_slot s0 \<and>
     st_latest_block_header s = st_latest_block_header s0 \<and>
     st_historical_block_hashes s = st_historical_block_hashes s0 \<and>
     st_validators s = st_validators s0 \<and>
     cp_slot (st_latest_finalized s0) \<le> cp_slot (st_latest_finalized s) \<and>
     cp_slot (st_latest_finalized s) \<le> cp_slot (st_latest_justified s) \<and>
     cp_slot (st_latest_justified s) \<le> hdr_slot (st_latest_block_header s) \<and>
     length (st_justified_slots s) =
       length (st_historical_block_hashes s) - 1 - unat (cp_slot (st_latest_finalized s)) \<and>
     votes_ok (length (st_validators s)) j \<and>
     0 \<notin> fst ` set j \<and>
     fst ` set j \<subseteq>
       set (drop (Suc (unat (cp_slot (st_latest_finalized s)))) (st_historical_block_hashes s)))"

lemma wf_processingD:
  assumes "wf_processing s0 (s, j)"
  shows "st_historical_block_hashes s = st_historical_block_hashes s0"
    and "st_latest_block_header s = st_latest_block_header s0"
    and "st_validators s = st_validators s0"
    and "cp_slot (st_latest_finalized s0) \<le> cp_slot (st_latest_finalized s)"
    and "cp_slot (st_latest_finalized s) \<le> cp_slot (st_latest_justified s)"
    and "cp_slot (st_latest_justified s) \<le> hdr_slot (st_latest_block_header s)"
    and "length (st_justified_slots s) =
       length (st_historical_block_hashes s0) - 1 - unat (cp_slot (st_latest_finalized s))"
    and "votes_ok (length (st_validators s0)) j" and "0 \<notin> fst ` set j"
    and "fst ` set j \<subseteq>
       set (drop (Suc (unat (cp_slot (st_latest_finalized s)))) (st_historical_block_hashes s0))"
  using assms by (auto simp: wf_processing_def)

lemma in_set_drop_nth: "unat f < i \<Longrightarrow> i < length h \<Longrightarrow> h ! i \<in> set (drop (Suc (unat f)) h)"
  using nth_mem [of "i - Suc (unat f)" "drop (Suc (unat f)) h"] by simp

lemma wf_votes_length:
  assumes "votes_ok n j" and "fst ` set j \<subseteq> set (drop k h)"
  shows "length j \<le> length h"
proof -
  have "length j = card (fst ` set j)"
    using assms(1) unfolding votes_ok_def by (metis distinct_card length_map set_map)
  also have "\<dots> \<le> card (set (drop k h))" using assms(2) by (intro card_mono) auto
  also have "\<dots> \<le> length (drop k h)" by (rule card_length)
  finally show ?thesis by simp
qed

subsection \<open>Finalization\<close>

lemma votes_ok_filter: "votes_ok n j \<Longrightarrow> votes_ok n (filter P j)"
  by (auto simp: votes_ok_def distinct_map_filter)

text \<open>
  Where finalization goes through, the new finalized slot is at or above the old one, so the
  subtraction does not wrap and the window shifts by the distance.
\<close>

lemma try_finalize_Ok:
  assumes "cp_slot (st_latest_finalized s) < cp_slot target" and "cp_slot source < cp_slot target"
    and "length (st_justified_slots s) \<le> HISTORICAL_ROOTS_LIMIT"
  shows "try_finalize s source target j rts = Ok (s, j) \<or>
    (cp_slot (st_latest_finalized s) \<le> cp_slot source \<and>
     try_finalize s source target j rts =
       Ok (s\<lparr>st_latest_finalized := source,
             st_justified_slots := drop (unat (cp_slot source) - unat (cp_slot (st_latest_finalized s)))
               (st_justified_slots s)\<rparr>,
           filter (\<lambda>(root, _). case map_of rts root of
                     Some slot \<Rightarrow> slot > cp_slot source | None \<Rightarrow> False) j))"
proof (cases "list_ex (\<lambda>n. slot_is_justifiable_after (word_of_nat n) (cp_slot (st_latest_finalized s)))
           [unat (cp_slot source + 1)..<unat (cp_slot target)]")
  case True
  then show ?thesis by (simp add: try_finalize_def)
next
  case False
  with assms have le: "cp_slot (st_latest_finalized s) \<le> cp_slot source"
    by (intro no_justifiable_between)
  from False assms(3) le show ?thesis
    by (intro disjI2 conjI) (simp_all add: try_finalize_def shift_window_Ok unat_sub Let_def
        cong: option.case_cong)
qed

lemma retained_roots:
  assumes "fst ` set j \<subseteq> set (drop (Suc (unat (cp_slot (st_latest_finalized s0)))) h)"
    and "h = st_historical_block_hashes s0" and "length h \<le> HISTORICAL_ROOTS_LIMIT"
    and "(r, v) \<in> set j" and "map_of (root_to_slot_map s0) r = Some k" and "f < k"
  shows "r \<in> set (drop (Suc (unat f)) h)"
proof -
  from assms(1,2,4) have "r \<in> set (drop (Suc (unat (cp_slot (st_latest_finalized s0))))
      (st_historical_block_hashes s0))" by force
  from root_to_slot_map_complete [OF this] assms(2,3,5)
  have "unat k < length h" and "h ! unat k = r" by auto
  moreover from assms(6) have "unat f < unat k" by (simp add: word_less_nat_alt)
  ultimately show ?thesis using in_set_drop_nth [of f "unat k" h] by simp
qed

lemma set_drop_mono: "a \<le> b \<Longrightarrow> set (drop b h) \<subseteq> set (drop a h)"
  by (rule set_drop_subset_set_drop)

lemma try_finalize_wf:
  assumes wf: "wf_processing s0 (s, j)"
    and lim: "length (st_historical_block_hashes s0) \<le> HISTORICAL_ROOTS_LIMIT"
    and len: "length (st_historical_block_hashes s0) = unat (hdr_slot (st_latest_block_header s0))"
    and t: "cp_slot (st_latest_finalized s) < cp_slot target" "cp_slot source < cp_slot target"
      "unat (cp_slot target) < length (st_historical_block_hashes s0)"
    and jus: "st_latest_justified s = target"
  shows "try_finalize s source target j (root_to_slot_map s0) \<noteq> Panic"
    and "try_finalize s source target j (root_to_slot_map s0) = Ok sj \<Longrightarrow> wf_processing s0 sj"
proof -
  from wf_processingD(7) [OF wf] lim have js: "length (st_justified_slots s) \<le> HISTORICAL_ROOTS_LIMIT"
    by simp
  note cases = try_finalize_Ok [OF t(1,2) js, of j "root_to_slot_map s0"]
  from cases show "try_finalize s source target j (root_to_slot_map s0) \<noteq> Panic" by auto
  assume ok: "try_finalize s source target j (root_to_slot_map s0) = Ok sj"
  show "wf_processing s0 sj"
  proof (cases "sj = (s, j)")
    case True
    with wf show ?thesis by simp
  next
    case False
    let ?j = "filter (\<lambda>(root, _). case map_of (root_to_slot_map s0) root of
                     Some slot \<Rightarrow> slot > cp_slot source | None \<Rightarrow> False) j"
    let ?h = "st_historical_block_hashes s0"
    from False ok cases have le: "cp_slot (st_latest_finalized s) \<le> cp_slot source"
      and sj: "sj = (s\<lparr>st_latest_finalized := source,
             st_justified_slots := drop (unat (cp_slot source) - unat (cp_slot (st_latest_finalized s)))
               (st_justified_slots s)\<rparr>, ?j)" by auto
    have s0f: "unat (cp_slot (st_latest_finalized s0)) \<le> unat (cp_slot (st_latest_finalized s))"
      using wf_processingD(4) [OF wf] by (simp add: word_le_nat_alt)
    have keys0: "fst ` set j \<subseteq> set (drop (Suc (unat (cp_slot (st_latest_finalized s0)))) ?h)"
    proof (rule subset_trans)
      show "fst ` set j \<subseteq> set (drop (Suc (unat (cp_slot (st_latest_finalized s)))) ?h)"
        by (rule wf_processingD [OF wf])
    qed (rule set_drop_mono, use s0f in simp)
    have "r \<in> set (drop (Suc (unat (cp_slot source))) ?h)" if "(r, v) \<in> set ?j" for r v
    proof -
      from that obtain k where "map_of (root_to_slot_map s0) r = Some k" "cp_slot source < k"
        "(r, v) \<in> set j" by (auto split: option.splits)
      with retained_roots [OF keys0 refl lim] show ?thesis by blast
    qed
    then have keys: "fst ` set ?j \<subseteq> set (drop (Suc (unat (cp_slot source))) ?h)" by force
    have nz: "0 \<notin> fst ` set ?j" using wf_processingD(9) [OF wf] by force
    have ok': "votes_ok (length (st_validators s)) ?j"
      using wf_processingD(3,8) [OF wf] by (simp add: votes_ok_filter)
    have "unat (cp_slot (st_latest_finalized s)) \<le> unat (cp_slot source)"
      using le by (simp add: word_le_nat_alt)
    moreover have "target = st_latest_justified s" using jus by simp
    moreover have "cp_slot source \<le> cp_slot target" using t(2) by simp
    ultimately show ?thesis
      using wf keys nz ok' le sj t(2) jus
      by (auto simp: wf_processing_def intro: order_trans)
  qed
qed

subsection \<open>One attestation\<close>

lemma or_insert_wf:
  assumes "votes_ok n j"
  shows "votes_ok n (or_insert r (replicate n False) j)"
proof -
  have d: "distinct (map fst (or_insert r (replicate n False) j))"
    using assms by (auto simp: votes_ok_def)
  have "length v = n" if "(k, v) \<in> set (or_insert r (replicate n False) j)" for k v
  proof -
    from that d have "map_of (or_insert r (replicate n False) j) k = Some v"
      by (rule map_of_is_SomeI [rotated])
    then have "v = replicate n False \<or> map_of j k = Some v"
      by (auto simp: map_of_or_insert split: if_splits option.splits)
    with assms show ?thesis by (auto simp: votes_ok_def dest: map_of_SomeD)
  qed
  with d show ?thesis by (auto simp: votes_ok_def)
qed

lemma update_votes_ok:
  assumes "votes_ok n j" and "length v = n"
  shows "votes_ok n (AList.update r v j)"
proof -
  have d: "distinct (map fst (AList.update r v j))"
    using assms by (auto simp: votes_ok_def distinct_update)
  have "length w = n" if "(k, w) \<in> set (AList.update r v j)" for k w
  proof -
    from that d have "map_of (AList.update r v j) k = Some w"
      by (rule map_of_is_SomeI [rotated])
    with assms show ?thesis
      by (auto simp: votes_ok_def split: if_splits dest: map_of_SomeD)
  qed
  with d show ?thesis by (auto simp: votes_ok_def)
qed

lemma delete_votes_ok: "votes_ok n j \<Longrightarrow> votes_ok n (AList.delete r j)"
  by (simp add: AList.delete_eq votes_ok_filter)

lemma wf_processing_j:
  assumes "wf_processing s0 (s, j)" and "votes_ok (length (st_validators s)) j'"
    and "fst ` set j' \<subseteq> insert r (fst ` set j)" and "r \<noteq> 0"
    and "r \<in> set (drop (Suc (unat (cp_slot (st_latest_finalized s)))) (st_historical_block_hashes s))"
  shows "wf_processing s0 (s, j')"
proof -
  let ?D = "set (drop (Suc (unat (cp_slot (st_latest_finalized s)))) (st_historical_block_hashes s))"
  have "fst ` set j \<subseteq> ?D" and "0 \<notin> fst ` set j" using wf_processingD [OF assms(1)] by simp_all
  with assms(3-5) have "fst ` set j' \<subseteq> ?D" and "0 \<notin> fst ` set j'" by blast+
  with assms(1,2) show ?thesis unfolding wf_processing_def by auto
qed

text \<open>What processing one attestation amounts to: the vote is ignored, recorded, or justifies its target.\<close>

lemma process_attestation_cases:
  fixes att :: aggregated_attestation and s0 :: state and j :: votes
  defines "source \<equiv> ad_source (aa_data att)" and "target \<equiv> ad_target (aa_data att)"
    and "n \<equiv> length (st_validators s0)"
  defines "j1 \<equiv> or_insert (cp_root target) (replicate n False) j"
  assumes wf: "wf_processing s0 (s, j)"
  obtains (invalid) "\<not> is_valid_vote s source target" "process_attestation n rts att (s, j) = Ok (s, j)"
  | (oversized) "is_valid_vote s source target" "process_attestation n rts att (s, j) = Ok (s, j1)"
      "n < length (aa_aggregation_bits att)"
  | (recorded) votes where "is_valid_vote s source target" "length (aa_aggregation_bits att) \<le> n"
      "set_all (the (map_of j1 (cp_root target))) (set_positions (aa_aggregation_bits att)) = Some votes"
      "length votes = n"
      "process_attestation n rts att (s, j) = Ok (s, AList.update (cp_root target) votes j1)"
      "3 * length (filter id votes) < 2 * n"
  | (justified) votes js where "is_valid_vote s source target" "length (aa_aggregation_bits att) \<le> n"
      "set_all (the (map_of j1 (cp_root target))) (set_positions (aa_aggregation_bits att)) = Some votes"
      "length votes = n" "2 * n \<le> 3 * length (filter id votes)"
      "length js = length (st_justified_slots s)"
      "\<forall>u. is_slot_justified js (cp_slot (st_latest_finalized s)) u \<longleftrightarrow>
         u = cp_slot target \<or> is_slot_justified (st_justified_slots s) (cp_slot (st_latest_finalized s)) u"
      "process_attestation n rts att (s, j) =
         try_finalize (s\<lparr>st_latest_justified := target, st_justified_slots := js\<rparr>) source target
           (AList.delete (cp_root target) (AList.update (cp_root target) votes j1)) rts"
proof (cases "is_valid_vote s source target \<and> length (aa_aggregation_bits att) \<le> n")
  case False
  with invalid oversized show ?thesis
    by (cases "is_valid_vote s source target")
      (simp_all add: process_attestation_def Let_def source_def target_def j1_def)
next
  case True
  then have valid: "is_valid_vote s source target" and fits: "length (aa_aggregation_bits att) \<le> n" by auto
  note v = is_valid_voteD [OF valid] and w = wf_processingD [OF wf]
  have "votes_ok n j1" unfolding j1_def n_def using w(8) by (rule or_insert_wf)
  then have "length (the (map_of j1 (cp_root target))) = n"
    by (rule votes_ok_length) (simp add: j1_def fst_set_or_insert)
  then obtain votes where votes: "set_all (the (map_of j1 (cp_root target)))
      (set_positions (aa_aggregation_bits att)) = Some votes" "length votes = n"
    using fits by (auto simp: set_all_char)
  have "unat (cp_slot target) \<le> unat (cp_slot (st_latest_finalized s)) + length (st_justified_slots s)"
    using v(1,2) w(1,7) by (simp add: word_less_nat_alt)
  from window.mark_ok [OF v(1) this, where 'a = st_error] obtain js where
    js: "set_justified (st_justified_slots s) (cp_slot (st_latest_finalized s)) (cp_slot target) =
      (Ok js :: (bitlist, st_error) result)" "length js = length (st_justified_slots s)"
      "\<forall>u. is_slot_justified js (cp_slot (st_latest_finalized s)) u \<longleftrightarrow>
         u = cp_slot target \<or> is_slot_justified (st_justified_slots s) (cp_slot (st_latest_finalized s)) u" by blast
  note run = process_attestation_def [of n rts att] Let_def
  show ?thesis
  proof (cases "2 * n \<le> 3 * length (filter id votes)")
    case True
    show ?thesis
      by (rule justified [OF valid fits votes True js(2,3)])
        (use valid fits votes True js(1) in \<open>simp add: run source_def target_def j1_def\<close>)
  next
    case False
    show ?thesis
      by (rule recorded [OF valid fits votes])
        (use valid fits votes False in \<open>simp_all add: run source_def target_def j1_def not_le\<close>)
  qed
qed

lemma process_attestation_keeps:
  assumes lim: "length (st_historical_block_hashes s0) \<le> HISTORICAL_ROOTS_LIMIT"
    and len: "length (st_historical_block_hashes s0) = unat (hdr_slot (st_latest_block_header s0))"
  shows "keeps (wf_processing s0)
    (process_attestation (length (st_validators s0)) (root_to_slot_map s0) att)"
proof -
  let ?n = "length (st_validators s0)" and ?rts = "root_to_slot_map s0"
  let ?source = "ad_source (aa_data att)" and ?target = "ad_target (aa_data att)"
  have "process_attestation ?n ?rts att (s, j) \<noteq> Panic \<and>
    (\<forall>sj. process_attestation ?n ?rts att (s, j) = Ok sj \<longrightarrow> wf_processing s0 sj)"
    if wf: "wf_processing s0 (s, j)" for s j
  proof -
    let ?j1 = "or_insert (cp_root ?target) (replicate ?n False) j"
    note w = wf_processingD [OF wf]
    have ok1: "votes_ok ?n ?j1" using w(8) by (rule or_insert_wf)
    have keep: "wf_processing s0 (s, j')"
      if "is_valid_vote s ?source ?target" "votes_ok ?n j'" "fst ` set j' \<subseteq> insert (cp_root ?target) (fst ` set j)" for j'
    proof -
      note v = is_valid_voteD [OF that(1)]
      have r: "cp_root ?target \<in> set (drop (Suc (unat (cp_slot (st_latest_finalized s)))) (st_historical_block_hashes s))"
        using v(1-3) in_set_drop_nth [of "cp_slot (st_latest_finalized s)" "unat (cp_slot ?target)"
            "st_historical_block_hashes s"] by (simp add: word_less_nat_alt)
      show ?thesis by (rule wf_processing_j [OF wf _ that(3) v(4) r]) (use that(2) w(3) in simp)
    qed
    from wf show ?thesis
    proof (cases rule: process_attestation_cases [where att = att and rts = ?rts])
      case oversized
      with keep [OF _ ok1] show ?thesis by (simp add: fst_set_or_insert)
    next
      case (recorded votes)
      have "wf_processing s0 (s, AList.update (cp_root ?target) votes ?j1)"
        by (rule keep [OF recorded(1) update_votes_ok [OF ok1 recorded(4)]]) (auto simp: dom_update fst_set_or_insert)
      with recorded(5) show ?thesis by simp
    next
      case (justified votes js)
      note v = is_valid_voteD [OF justified(1)]
      let ?s1 = "s\<lparr>st_latest_justified := ?target, st_justified_slots := js\<rparr>"
      let ?j3 = "AList.delete (cp_root ?target) (AList.update (cp_root ?target) votes ?j1)"
      have "votes_ok ?n ?j3" by (intro delete_votes_ok update_votes_ok ok1 justified(4))
      moreover have "fst ` set ?j3 \<subseteq> insert (cp_root ?target) (fst ` set j)"
      proof -
        have "fst ` set ?j3 \<subseteq> fst ` set (AList.update (cp_root ?target) votes ?j1)"
          by (auto simp: AList.delete_eq rev_image_eqI)
        then show ?thesis by (auto simp: dom_update fst_set_or_insert)
      qed
      ultimately have "wf_processing s0 (s, ?j3)" by (rule keep [OF justified(1)])
      moreover have lt: "unat (cp_slot ?target) < length (st_historical_block_hashes s0)" using v(2) w(1) by simp
      then have "cp_slot ?target \<le> hdr_slot (st_latest_block_header s0)" using len by (simp add: word_le_nat_alt)
      ultimately have wf3: "wf_processing s0 (?s1, ?j3)"
        using v(1) justified(6) unfolding wf_processing_def by auto
      show ?thesis
        unfolding justified(8) using try_finalize_wf [OF wf3 lim len _ v(5) lt] v(1) by simp
    qed (use wf in simp)
  qed
  then show ?thesis unfolding keeps_def by (metis surj_pair)
qed

lemma wf_processing_start:
  assumes "sorted (st_justifications_roots s)" "distinct (st_justifications_roots s)"
    "length (st_justifications_validators s) = length (st_justifications_roots s) * length (st_validators s)"
    "0 \<notin> set (st_justifications_roots s)"
    "set (st_justifications_roots s) \<subseteq>
       set (drop (Suc (unat (cp_slot (st_latest_finalized s)))) (st_historical_block_hashes s))"
    "cp_slot (st_latest_finalized s) \<le> cp_slot (st_latest_justified s)"
    "cp_slot (st_latest_justified s) \<le> hdr_slot (st_latest_block_header s)"
    "length (st_justified_slots s) =
       length (st_historical_block_hashes s) - 1 - unat (cp_slot (st_latest_finalized s))"
  shows "wf_processing s (s, load_justifications s)"
  using assms by (auto simp: wf_processing_def load_justifications_keys load_justifications_votes_ok)

lemma set_justified_no_Err [simp]: "set_justified w f t \<noteq> Err e"
  by (simp add: set_justified_def split: option.splits)

lemma shift_window_no_Err [simp]: "shift_window w d \<noteq> Err e"
  by (auto simp: shift_window_def Let_def bind_res_Err_iff)

lemma extend_to_slot_no_Err [simp]: "extend_to_slot w f t \<noteq> Err e"
  by (auto simp: extend_to_slot_def Let_def bind_res_Err_iff split: option.splits)

lemma try_finalize_no_Err [simp]: "try_finalize s source target j rts \<noteq> Err e"
  by (auto simp: try_finalize_def Let_def bind_res_Err_iff)

lemma process_attestation_no_Err: "process_attestation n rts att sj \<noteq> Err e"
  by (cases sj) (auto simp: process_attestation_def Let_def bind_res_Err_iff split: if_splits)

text \<open>On a well-formed state the attestations of a block always go through.\<close>

lemma process_attestations_run:
  assumes "wf_state s"
  shows "\<exists>s1 j. wf_processing s (s1, j) \<and> votes_ok (length (st_validators s)) j \<and>
    process_attestations s atts =
      Ok (s1\<lparr>st_justifications_roots := sort (map fst j),
             st_justifications_validators := concat (map (\<lambda>r. the (map_of j r)) (sort (map fst j)))\<rparr>)"
proof -
  let ?n = "length (st_validators s)"
  let ?loop = "fold_res (process_attestation ?n (root_to_slot_map s)) atts (s, load_justifications s)"
  from assms have lim: "length (st_historical_block_hashes s) \<le> HISTORICAL_ROOTS_LIMIT"
    and len: "length (st_historical_block_hashes s) = unat (hdr_slot (st_latest_block_header s))"
    and n: "?n \<le> VALIDATOR_REGISTRY_LIMIT" and nz: "0 \<notin> set (st_justifications_roots s)"
    by (auto simp: wf_state_def)
  have start: "wf_processing s (s, load_justifications s)"
    using assms by (intro wf_processing_start) (auto simp: wf_state_def)
  have k: "keeps (wf_processing s) (fold_res (process_attestation ?n (root_to_slot_map s)) atts)"
    by (intro keeps_fold_res ballI process_attestation_keeps lim len)
  have "?loop \<noteq> Panic" using k start by (rule keeps_no_panic)
  moreover have "?loop \<noteq> Err e" for e
    by (intro fold_res_no_Err process_attestation_no_Err)
  ultimately obtain s1 j where loop: "?loop = Ok (s1, j)"
    by (metis result.exhaust surj_pair)
  then have wf1: "wf_processing s (s1, j)" using keeps_Ok [OF k start] by simp
  note w = wf_processingD [OF wf1]
  have "length j \<le> HISTORICAL_ROOTS_LIMIT"
    using wf_votes_length [OF w(8) w(10)] lim by simp
  with loop nz serialize_justifications_Ok [OF w(8) _ n, of s1] wf1 w(8) show ?thesis
    by (auto simp: process_attestations_def list_ex_iff)
qed

lemma wf_processing_finish:
  assumes "wf_state s" and wf1: "wf_processing s (s1, j)"
    and s': "s' = s1\<lparr>st_justifications_roots := sort (map fst j),
             st_justifications_validators := concat (map (\<lambda>r. the (map_of j r)) (sort (map fst j)))\<rparr>"
  shows "wf_state s'"
proof -
  note w = wf_processingD [OF wf1]
  have "length (concat (map (\<lambda>r. the (map_of j r)) (sort (map fst j)))) =
      length (sort (map fst j)) * length (st_validators s)"
    by (rule concat_votes_length) (use w(8) in \<open>auto intro!: votes_ok_length\<close>)
  moreover have "distinct (map fst j)" using w(8) by (simp add: votes_ok_def)
  moreover have "st_slot s1 = st_slot s" using wf1 by (simp add: wf_processing_def)
  ultimately show ?thesis
    using assms(1) w by (auto simp: wf_state_def s')
qed

lemma process_attestations_wf:
  assumes "wf_state s" and "process_attestations s atts = Ok s'"
  shows "wf_state s'"
    and "cp_slot (st_latest_finalized s) \<le> cp_slot (st_latest_finalized s')"
    and "st_latest_block_header s' = st_latest_block_header s" and "st_slot s' = st_slot s"
    and "st_validators s' = st_validators s" and "st_config s' = st_config s"
    and "st_historical_block_hashes s' = st_historical_block_hashes s"
proof -
  from process_attestations_run [OF assms(1), of atts] assms(2)
  obtain s1 j where wf1: "wf_processing s (s1, j)"
    and s': "s' = s1\<lparr>st_justifications_roots := sort (map fst j),
             st_justifications_validators := concat (map (\<lambda>r. the (map_of j r)) (sort (map fst j)))\<rparr>"
    by auto
  from assms(1) wf1 s' show "wf_state s'" by (rule wf_processing_finish)
  from wf_processingD [OF wf1] s'
  show "cp_slot (st_latest_finalized s) \<le> cp_slot (st_latest_finalized s')"
    and "st_latest_block_header s' = st_latest_block_header s"
    and "st_validators s' = st_validators s"
    and "st_historical_block_hashes s' = st_historical_block_hashes s" by simp_all
  from wf1 s' show "st_slot s' = st_slot s" and "st_config s' = st_config s"
    by (simp_all add: wf_processing_def)
qed

subsection \<open>Slots and the header\<close>

lemma process_slots_Ok_iff:
  "process_slots H s t = Ok s' \<longleftrightarrow> st_slot s < t \<and>
     s' = s\<lparr>st_latest_block_header := (if hdr_state_root (st_latest_block_header s) = 0
               then (st_latest_block_header s)\<lparr>hdr_state_root := h_state H s\<rparr>
               else st_latest_block_header s), st_slot := t\<rparr>"
  by (auto simp: process_slots_def Let_def)

lemma process_slots_no_Panic [simp]: "process_slots H s t \<noteq> Panic"
  by (simp add: process_slots_def Let_def)

lemma process_slots_wf:
  assumes "wf_state s" and "process_slots H s t = Ok s'"
  shows "wf_state s'"
  using assms by (auto simp: process_slots_Ok_iff wf_state_def)

text \<open>The slot-gap guard is exact on a well-formed state: the sum is the block's slot.\<close>

lemma slot_gap_total:
  assumes "length h = unat p" and "p < b"
  shows "word_of_nat (length h) + 1 + (b - p - 1) = (b :: u64)"
  using assms by simp

lemma slot_gap_length:
  assumes "length h = unat p" and "p < b"
  shows "length (h @ [r] @ replicate (unat (b - p - 1)) z) = unat (b :: u64)"
proof -
  have lt: "unat p < unat b" using assms(2) by (simp add: word_less_nat_alt)
  have "unat (b - p) = unat b - unat p" using assms(2) by (simp add: unat_sub)
  moreover from this lt have "1 \<le> b - p" by (simp add: word_le_nat_alt)
  ultimately have "unat (b - p - 1) = unat b - unat p - 1" by (simp add: unat_sub)
  with assms(1) lt show ?thesis by simp
qed

lemma header_no_panic:
  assumes "wf_state s"
  shows "process_block_header H s b \<noteq> Panic"
proof
  assume P: "process_block_header H s b = Panic"
  let ?hd = "st_latest_block_header s" and ?h = "st_historical_block_hashes s"
  let ?f = "cp_slot (st_latest_finalized s)"
  from assms have len: "length ?h = unat (hdr_slot ?hd)" by (simp add: wf_state_def)
  from P have lt: "hdr_slot ?hd < blk_slot b"
    by (auto simp: process_block_header_def Let_def not_le split: if_splits)
  note tot = slot_gap_total [OF len lt] and gl = slot_gap_length [OF len lt]
  from P tot have b: "blk_slot b \<le> word_of_nat HISTORICAL_ROOTS_LIMIT"
    by (auto simp: process_block_header_def Let_def bind_res_Panic_iff not_le split: if_splits)
  then have bn: "unat (blk_slot b) \<le> HISTORICAL_ROOTS_LIMIT"
    by (simp add: HISTORICAL_ROOTS_LIMIT_def word_le_nat_alt)
  have "unat (blk_slot b - 1) - unat ?f \<le> HISTORICAL_ROOTS_LIMIT"
    using bn unat_sub [of 1 "blk_slot b"] lt by (cases "blk_slot b = 0") (auto simp: unat_minus_one)
  then have "extend_to_slot (st_justified_slots s) ?f (blk_slot b - 1) \<noteq> (Panic :: (bool list, st_error) result)"
    by (simp add: extend_to_slot_Ok)
  with P gl bn show False
    by (auto simp: process_block_header_def Let_def bind_res_Panic_iff split: if_splits)
qed

lemma header_Ok_guards:
  assumes "process_block_header H s b = Ok s'"
  shows "blk_slot b = st_slot s" and "hdr_slot (st_latest_block_header s) < blk_slot b"
    and "is_proposer (blk_proposer_index b) (blk_slot b) (word_of_nat (length (st_validators s)))"
    and "blk_parent_root b = h_header H (st_latest_block_header s)"
  using assms
  by (auto simp: process_block_header_def Let_def bind_res_Ok_iff ok_or_Ok_iff not_le is_proposer_def
      split: if_splits)

lemma header_Ok:
  assumes "wf_state s" and "process_block_header H s b = Ok s'"
  shows "blk_slot b \<le> word_of_nat HISTORICAL_ROOTS_LIMIT" and "s' =
     s\<lparr>st_latest_justified := (if hdr_slot (st_latest_block_header s) = 0
           then (st_latest_justified s)\<lparr>cp_root := blk_parent_root b\<rparr> else st_latest_justified s),
       st_latest_finalized := (if hdr_slot (st_latest_block_header s) = 0
           then (st_latest_finalized s)\<lparr>cp_root := blk_parent_root b\<rparr> else st_latest_finalized s),
       st_historical_block_hashes := st_historical_block_hashes s @ [blk_parent_root b] @
           replicate (unat (blk_slot b - hdr_slot (st_latest_block_header s) - 1)) 0,
       st_justified_slots := st_justified_slots s @ replicate (unat (blk_slot b) - 1 -
           unat (cp_slot (st_latest_finalized s)) - length (st_justified_slots s)) False,
       st_latest_block_header := (block_header_of H b)\<lparr>hdr_state_root := 0\<rparr>\<rparr>"
proof -
  let ?hd = "st_latest_block_header s" and ?h = "st_historical_block_hashes s"
  let ?f = "cp_slot (st_latest_finalized s)"
  from assms have len: "length ?h = unat (hdr_slot ?hd)" by (simp add: wf_state_def)
  note g = header_Ok_guards [OF assms(2)]
  note tot = slot_gap_total [OF len g(2)] and gl = slot_gap_length [OF len g(2)]
  from assms(2) tot show b: "blk_slot b \<le> word_of_nat HISTORICAL_ROOTS_LIMIT"
    by (auto simp: process_block_header_def Let_def bind_res_Ok_iff not_le split: if_splits)
  then have bn: "unat (blk_slot b) \<le> HISTORICAL_ROOTS_LIMIT"
    by (simp add: HISTORICAL_ROOTS_LIMIT_def word_le_nat_alt)
  have b1: "unat (blk_slot b - 1) = unat (blk_slot b) - 1"
    using g(2) by (cases "blk_slot b = 0") (auto simp: unat_minus_one)
  then have "extend_to_slot (st_justified_slots s) ?f (blk_slot b - 1) =
     (Ok (st_justified_slots s @ replicate (unat (blk_slot b) - 1 - unat ?f - length (st_justified_slots s)) False)
      :: (bool list, st_error) result)"
    using bn by (simp add: extend_to_slot_Ok)
  with assms(2) show "s' = s\<lparr>st_latest_justified := (if hdr_slot (st_latest_block_header s) = 0
           then (st_latest_justified s)\<lparr>cp_root := blk_parent_root b\<rparr> else st_latest_justified s),
       st_latest_finalized := (if hdr_slot (st_latest_block_header s) = 0
           then (st_latest_finalized s)\<lparr>cp_root := blk_parent_root b\<rparr> else st_latest_finalized s),
       st_historical_block_hashes := st_historical_block_hashes s @ [blk_parent_root b] @
           replicate (unat (blk_slot b - hdr_slot (st_latest_block_header s) - 1)) 0,
       st_justified_slots := st_justified_slots s @ replicate (unat (blk_slot b) - 1 -
           unat (cp_slot (st_latest_finalized s)) - length (st_justified_slots s)) False,
       st_latest_block_header := (block_header_of H b)\<lparr>hdr_state_root := 0\<rparr>\<rparr>"
    by (auto simp: process_block_header_def Let_def bind_res_Ok_iff block_header_of_def split: if_splits)
qed

lemma header_wf:
  assumes "wf_state s" and "process_block_header H s b = Ok s'"
  shows "wf_state s'"
proof -
  note g = header_Ok_guards [OF assms(2)] and ok = header_Ok [OF assms]
  from assms have len: "length (st_historical_block_hashes s) = unat (hdr_slot (st_latest_block_header s))"
    by (simp add: wf_state_def)
  note gl = slot_gap_length [OF len g(2)]
  have bn: "unat (blk_slot b) \<le> HISTORICAL_ROOTS_LIMIT"
    using ok(1) by (simp add: HISTORICAL_ROOTS_LIMIT_def word_le_nat_alt)
  have lt: "unat (hdr_slot (st_latest_block_header s)) < unat (blk_slot b)"
    using g(2) by (simp add: word_less_nat_alt)
  let ?h' = "st_historical_block_hashes s @ [blk_parent_root b] @
           replicate (unat (blk_slot b - hdr_slot (st_latest_block_header s) - 1)) 0"
  have sub: "set (drop k (st_historical_block_hashes s)) \<subseteq> set (drop k ?h')" for k by auto
  have h': "st_historical_block_hashes s' = ?h'" using ok(2) by simp
  have fj: "cp_slot (st_latest_finalized s') = cp_slot (st_latest_finalized s)"
    "cp_slot (st_latest_justified s') = cp_slot (st_latest_justified s)" using ok(2) by auto
  have hdr: "hdr_slot (st_latest_block_header s') = blk_slot b"
    using ok(2) by (simp add: block_header_of_def)
  have js: "length (st_justified_slots s') = unat (blk_slot b) - 1 - unat (cp_slot (st_latest_finalized s))"
    using ok(2) assms(1) lt len by (simp add: wf_state_def)
  have rest: "st_slot s' = st_slot s" "st_validators s' = st_validators s"
    "st_justifications_roots s' = st_justifications_roots s"
    "st_justifications_validators s' = st_justifications_validators s" using ok(2) by simp_all
  have j: "cp_slot (st_latest_justified s) \<le> blk_slot b"
    using assms(1) g(2) by (auto simp: wf_state_def)
  have r: "set (st_justifications_roots s) \<subseteq> set (drop (Suc (unat (cp_slot (st_latest_finalized s)))) ?h')"
    using assms(1) sub [of "Suc (unat (cp_slot (st_latest_finalized s)))"] unfolding wf_state_def by blast
  show ?thesis
    using assms(1) gl bn js j r g(1) unfolding wf_state_def h' fj hdr rest by simp
qed

lemma process_attestations_no_panic: "wf_state s \<Longrightarrow> process_attestations s atts \<noteq> Panic"
  using process_attestations_run [of s atts] by auto

lemma process_block_no_panic: "wf_state s \<Longrightarrow> process_block H s b \<noteq> Panic"
  by (auto simp: process_block_def bind_res_Panic_iff header_no_panic process_attestations_no_panic
      dest: header_wf)

lemma process_block_wf: "wf_state s \<Longrightarrow> process_block H s b = Ok s' \<Longrightarrow> wf_state s'"
  by (auto simp: process_block_def bind_res_Ok_iff dest: header_wf process_attestations_wf)

lemma state_transition_no_panic:
  assumes "wf_state s"
  shows "state_transition H s b \<noteq> Panic"
proof -
  have "process_block H s1 b \<noteq> Panic" if "process_slots H s (blk_slot b) = Ok s1" for s1
    using process_slots_wf [OF assms that] by (rule process_block_no_panic)
  then show ?thesis by (auto simp: state_transition_def Let_def bind_res_Panic_iff split: if_splits)
qed

lemma state_transition_Ok_steps:
  assumes "state_transition H s b = Ok s'"
  obtains s1 s2 where "process_slots H s (blk_slot b) = Ok s1" and "process_block_header H s1 b = Ok s2"
    and "process_attestations s2 (body_attestations (blk_body b)) = Ok s'" and "h_state H s' = blk_state_root b"
  using assms by (auto simp: state_transition_def process_block_def Let_def bind_res_Ok_iff split: if_splits)

lemma state_transition_wf:
  assumes "wf_state s" and "state_transition H s b = Ok s'"
  shows "wf_state s' \<and> cp_slot (st_latest_finalized s) \<le> cp_slot (st_latest_finalized s')"
proof -
  from assms(2) obtain s1 s2 where st: "process_slots H s (blk_slot b) = Ok s1" "process_block_header H s1 b = Ok s2"
    "process_attestations s2 (body_attestations (blk_body b)) = Ok s'" by (rule state_transition_Ok_steps)
  have w1: "wf_state s1" by (rule process_slots_wf [OF assms(1) st(1)])
  have w2: "wf_state s2" by (rule header_wf [OF w1 st(2)])
  have "cp_slot (st_latest_finalized s2) = cp_slot (st_latest_finalized s)"
    using header_Ok(2) [OF w1 st(2)] st(1) by (auto simp: process_slots_Ok_iff)
  then show ?thesis using process_attestations_wf(1,2) [OF w2 st(3)] by simp
qed

section \<open>Slot by slot\<close>

function process_slots_stepwise :: "hashing \<Rightarrow> u64 \<Rightarrow> state \<Rightarrow> state" where
  "process_slots_stepwise H target s =
     (if st_slot s < target
      then process_slots_stepwise H target
             ((if hdr_state_root (st_latest_block_header s) = 0
               then s\<lparr>st_latest_block_header :=
                       (st_latest_block_header s)\<lparr>hdr_state_root := h_state H s\<rparr>\<rparr>
               else s)\<lparr>st_slot := st_slot s + 1\<rparr>)
      else s)"
  by pat_completeness auto
termination
proof (relation "measure (\<lambda>(H, t, s). unat t - unat (st_slot s))", simp, goal_cases)
  case (1 H t s)
  then have "unat (st_slot s) < unat t" by (simp add: word_less_nat_alt)
  with unat_succ [OF 1] show ?case by simp
qed

declare process_slots_stepwise.simps [simp del]

lemma stepwise_cached:
  assumes "hdr_state_root (st_latest_block_header s) \<noteq> 0" and "st_slot s \<le> t"
  shows "process_slots_stepwise H t s = s\<lparr>st_slot := t\<rparr>"
  using assms
proof (induction H t s rule: process_slots_stepwise.induct)
  case (1 H t s)
  show ?case
  proof (cases "st_slot s < t")
    case True
    then have "st_slot s + 1 \<le> t" by (simp add: inc_le)
    with 1 True show ?thesis by (simp add: process_slots_stepwise.simps [of H t s])
  next
    case False
    with 1 have "st_slot s = t" by simp
    then show ?thesis by (auto simp: process_slots_stepwise.simps [of H t s])
  qed
qed

section \<open>Proposers\<close>

lemma is_proposer_iff:
  assumes "n \<noteq> 0"
  shows "is_proposer i slot n \<longleftrightarrow> unat i = unat slot mod unat n"
  using assms by (auto simp: is_proposer_def current_proposer_def word_gt_0 word_unat_eq_iff unat_mod)

section \<open>Which blocks go through\<close>

lemma num_validators_eq_0:
  "wf_state s \<Longrightarrow> word_of_nat (length (st_validators s)) = (0 :: u64) \<longleftrightarrow> st_validators s = []"
proof -
  assume "wf_state s"
  then have "length (st_validators s) < 2 ^ 64" by (simp add: wf_state_def VALIDATOR_REGISTRY_LIMIT_def)
  then have "unat (word_of_nat (length (st_validators s)) :: u64) = length (st_validators s)"
    by (simp add: unat_of_nat)
  then show ?thesis by (cases "st_validators s") (auto simp: word_unat_eq_iff simp del: of_nat_Suc)
qed

lemma process_block_accepts_iff:
  assumes "wf_state s"
  shows "(\<exists>s'. process_block H s b = Ok s') \<longleftrightarrow>
    blk_slot b = st_slot s \<and> hdr_slot (st_latest_block_header s) < blk_slot b \<and>
    is_proposer (blk_proposer_index b) (blk_slot b) (word_of_nat (length (st_validators s))) \<and>
    blk_parent_root b = h_header H (st_latest_block_header s) \<and>
    unat (blk_slot b) \<le> HISTORICAL_ROOTS_LIMIT" (is "?l \<longleftrightarrow> ?r")
proof
  assume ?l
  then obtain s1 where s1: "process_block_header H s b = Ok s1"
    by (auto simp: process_block_def bind_res_Ok_iff)
  from header_Ok_guards [OF s1] header_Ok(1) [OF assms s1] show ?r
    by (simp add: HISTORICAL_ROOTS_LIMIT_def word_le_nat_alt)
next
  assume r: ?r
  from assms have len: "length (st_historical_block_hashes s) = unat (hdr_slot (st_latest_block_header s))"
    by (simp add: wf_state_def)
  from r have lt: "hdr_slot (st_latest_block_header s) < blk_slot b" by blast
  have lim: "\<not> word_of_nat HISTORICAL_ROOTS_LIMIT < blk_slot b"
    using r by (auto simp: HISTORICAL_ROOTS_LIMIT_def word_less_nat_alt)
  have "process_block_header H s b \<noteq> Err e" for e
    using r lim slot_gap_total [OF len lt]
    by (auto simp: process_block_header_def Let_def bind_res_Err_iff ok_or_Err_iff is_proposer_def split: if_splits)
  then obtain s1 where s1: "process_block_header H s b = Ok s1"
    using header_no_panic [OF assms] by (metis result.exhaust)
  from process_attestations_run [OF header_wf [OF assms s1]] s1 show ?l
    by (auto simp: process_block_def bind_res_Ok_iff)
qed

text \<open>The latest header with the state root that entering the next slot fills in.\<close>

definition cached_header :: "hashing \<Rightarrow> state \<Rightarrow> block_header" where
  "cached_header H s =
     (let header = st_latest_block_header s
      in if hdr_state_root header = 0 then header\<lparr>hdr_state_root := h_state H s\<rparr> else header)"

lemma header_Err:
  assumes "wf_state s" and "process_block_header H s b = Err e"
    and "st_slot s = blk_slot b" and "hdr_slot (st_latest_block_header s) < blk_slot b"
  shows "e = NoValidators \<and> st_validators s = [] \<or>
    (\<exists>p. e = InvalidProposer p (blk_proposer_index b) \<and> p \<noteq> blk_proposer_index b \<and>
       is_proposer p (blk_slot b) (word_of_nat (length (st_validators s)))) \<or>
    (e = InvalidParent (h_header H (st_latest_block_header s)) (blk_parent_root b) \<and>
       blk_parent_root b \<noteq> h_header H (st_latest_block_header s)) \<or>
    (e = SlotGapTooLarge (unat (blk_slot b) - 1 - length (st_historical_block_hashes s))
         (length (st_historical_block_hashes s)) HISTORICAL_ROOTS_LIMIT \<and>
       HISTORICAL_ROOTS_LIMIT < unat (blk_slot b))"
proof -
  from assms have len: "length (st_historical_block_hashes s) = unat (hdr_slot (st_latest_block_header s))"
    by (simp add: wf_state_def)
  have nle: "\<not> blk_slot b \<le> hdr_slot (st_latest_block_header s)" using assms(4) by simp
  have lim: "word_of_nat HISTORICAL_ROOTS_LIMIT < blk_slot b \<longleftrightarrow> HISTORICAL_ROOTS_LIMIT < unat (blk_slot b)"
    by (simp add: HISTORICAL_ROOTS_LIMIT_def word_less_nat_alt)
  have gap: "unat (blk_slot b - hdr_slot (st_latest_block_header s) - 1) =
      unat (blk_slot b) - 1 - length (st_historical_block_hashes s)"
    using slot_gap_length [OF len assms(4)] by simp
  have noval: "current_proposer (blk_slot b) (word_of_nat (length (st_validators s))) = None \<longleftrightarrow>
      st_validators s = []"
    using num_validators_eq_0 [OF assms(1)] by (simp add: current_proposer_def word_gt_0)
  from assms(2) nle have
    "(current_proposer (blk_slot b) (word_of_nat (length (st_validators s))) = None \<and> e = NoValidators) \<or>
     (\<exists>p. current_proposer (blk_slot b) (word_of_nat (length (st_validators s))) = Some p \<and>
        e = InvalidProposer p (blk_proposer_index b) \<and> p \<noteq> blk_proposer_index b) \<or>
     (e = InvalidParent (h_header H (st_latest_block_header s)) (blk_parent_root b) \<and>
       blk_parent_root b \<noteq> h_header H (st_latest_block_header s)) \<or>
     (word_of_nat HISTORICAL_ROOTS_LIMIT < blk_slot b \<and>
        e = SlotGapTooLarge (unat (blk_slot b - hdr_slot (st_latest_block_header s) - 1))
          (length (st_historical_block_hashes s)) HISTORICAL_ROOTS_LIMIT)"
    unfolding process_block_header_def Let_def slot_gap_total [OF len assms(4)]
    using assms(3) by (auto simp: bind_res_Err_iff ok_or_Err_iff ok_or_Ok_iff split: if_splits)
  then show ?thesis
    unfolding noval lim gap is_proposer_def by blast
qed

lemma process_attestations_no_Err: "wf_state s \<Longrightarrow> process_attestations s atts \<noteq> Err e"
  using process_attestations_run [of s atts] by auto

section \<open>States reachable from genesis\<close>

inductive reachable :: "hashing \<Rightarrow> u64 \<Rightarrow> validator list \<Rightarrow> state \<Rightarrow> bool"
  for H genesis_time validators where
  genesis: "from_genesis H genesis_time validators = (Ok s :: (state, st_error) result) \<Longrightarrow>
    reachable H genesis_time validators s"
| transition: "reachable H genesis_time validators s \<Longrightarrow> state_transition H s b = Ok s' \<Longrightarrow>
    reachable H genesis_time validators s'"

lemma from_genesis_Ok:
  assumes "from_genesis H t vs = Ok s"
  shows "wf_state s" and "st_validators s = vs" and "st_config s = \<lparr>cc_genesis_time = t\<rparr>"
  using assms by (auto simp: from_genesis_def Let_def wf_state_def checkpoint_default_def split: if_splits)

lemma state_transition_keeps:
  assumes "wf_state s" and "state_transition H s b = Ok s'"
  shows "st_validators s' = st_validators s" and "st_config s' = st_config s"
    and "st_slot s' = blk_slot b" and "st_slot s < st_slot s'"
    and "st_latest_block_header s' = (block_header_of H b)\<lparr>hdr_state_root := 0\<rparr>"
    and "h_state H s' = blk_state_root b"
    and "take (length (st_historical_block_hashes s)) (st_historical_block_hashes s') =
      st_historical_block_hashes s"
proof -
  from assms(2) obtain s1 s2 where st: "process_slots H s (blk_slot b) = Ok s1"
    "process_block_header H s1 b = Ok s2"
    "process_attestations s2 (body_attestations (blk_body b)) = Ok s'"
    and root: "h_state H s' = blk_state_root b" by (rule state_transition_Ok_steps)
  have w1: "wf_state s1" by (rule process_slots_wf [OF assms(1) st(1)])
  have w2: "wf_state s2" by (rule header_wf [OF w1 st(2)])
  note a = process_attestations_wf [OF w2 st(3)] and h = header_Ok(2) [OF w1 st(2)]
  show "st_validators s' = st_validators s" "st_config s' = st_config s" "st_slot s' = blk_slot b"
    "st_slot s < st_slot s'"
    using a(4-6) h st(1) by (simp_all add: process_slots_Ok_iff)
  show "st_latest_block_header s' = (block_header_of H b)\<lparr>hdr_state_root := 0\<rparr>"
    using a(3) h by simp
  show "take (length (st_historical_block_hashes s)) (st_historical_block_hashes s') =
      st_historical_block_hashes s" using a(7) h st(1) by (simp add: process_slots_Ok_iff)
  show "h_state H s' = blk_state_root b" by (rule root)
qed

lemma reachable_wf:
  assumes "reachable H t vs s"
  shows "wf_state s \<and> st_validators s = vs \<and> st_config s = \<lparr>cc_genesis_time = t\<rparr>"
  using assms
  by induction (auto simp: from_genesis_Ok state_transition_keeps dest: state_transition_wf)

section \<open>Properties\<close>

text \<open>
  C1. On a well-formed state no block makes the state transition panic: every index, every bounded
  list and bit list and every \<open>expect\<close> of the source is covered by the guards before it.
\<close>

theorem state_transition_never_panics:
  assumes "wf_state s"
  shows "state_transition H s b \<noteq> Panic"
  by (rule state_transition_no_panic [OF assms])

lemma wf_demo_genesis: "wf_state demo_genesis"
  by (simp add: wf_state_def demo_defs)

lemma wf_demo_state_2: "wf_state (demo_state 2 0 1 [2000, 2001] [True] 1)"
  by (simp add: wf_state_def demo_defs)

theorem state_transition_never_panics_witness:
  "state_transition demo_hashing demo_genesis (demo_block 9 [demo_attestation 5 7]) \<noteq> Panic"
  by (rule state_transition_never_panics [OF wf_demo_genesis])

text \<open>
  C6. An accepted block leaves a well-formed state, and the finalized slot never moves backwards.
\<close>

theorem state_transition_preserves:
  assumes "wf_state s" and "state_transition H s b = Ok s'"
  shows "wf_state s' \<and> cp_slot (st_latest_finalized s) \<le> cp_slot (st_latest_finalized s')"
  by (rule state_transition_wf [OF assms])

theorem state_transition_preserves_witness:
  "wf_state (demo_state 3 1 2 [2000, 2001, 2002] [True] 1)"
  using state_transition_preserves [OF wf_demo_state_2 demo_transition_3] by blast

text \<open>
  C5. Every state reachable from a genesis state by accepted blocks is well-formed and keeps the
  validators and the configuration of genesis.
\<close>

theorem reachable_invariant:
  assumes "reachable H t vs s"
  shows "wf_state s \<and> st_validators s = vs \<and> st_config s = \<lparr>cc_genesis_time = t\<rparr>"
  by (rule reachable_wf [OF assms])

lemma reachable_demo_1: "reachable demo_hashing 12 demo_validators (demo_state 1 0 0 [2000] [] 0)"
proof (rule reachable.transition [OF _ demo_transition_1])
  show "reachable demo_hashing 12 demo_validators demo_genesis"
    by (rule reachable.genesis) (simp add: demo_defs)
qed

theorem reachable_invariant_witness:
  "wf_state (demo_state 2 0 1 [2000, 2001] [True] 1) \<and>
   st_validators (demo_state 2 0 1 [2000, 2001] [True] 1) = demo_validators"
  using reachable_invariant [OF reachable.transition [OF reachable_demo_1 demo_transition_2]] by blast

text \<open>
  C21. What an accepted block does to the state: the slot is the block's, the header is the block's
  with a cleared state root, the history of block roots only grows, the validators and the
  configuration stay, and the state root is the one the block announces.
\<close>

theorem state_transition_post:
  assumes "wf_state s" and "state_transition H s b = Ok s'"
  shows "st_slot s < blk_slot b \<and> st_slot s' = blk_slot b \<and>
    st_latest_block_header s' = (block_header_of H b)\<lparr>hdr_state_root := 0\<rparr> \<and>
    h_state H s' = blk_state_root b \<and>
    length (st_historical_block_hashes s') = unat (blk_slot b) \<and>
    take (length (st_historical_block_hashes s)) (st_historical_block_hashes s') =
      st_historical_block_hashes s \<and>
    st_validators s' = st_validators s \<and> st_config s' = st_config s"
proof -
  note k = state_transition_keeps [OF assms]
  have "length (st_historical_block_hashes s') = unat (hdr_slot (st_latest_block_header s'))"
    using state_transition_wf [OF assms] by (simp add: wf_state_def)
  also have "\<dots> = unat (blk_slot b)" using k(5) by (simp add: block_header_of_def)
  finally show ?thesis using k by simp
qed

theorem state_transition_post_witness:
  "st_slot (demo_state 2 0 1 [2000, 2001] [True] 1) < blk_slot (demo_block 3 [demo_attestation 1 2])"
  using state_transition_post [OF wf_demo_state_2 demo_transition_3] by blast

text \<open>
  C22. The errors of the transition on a well-formed state, each with its cause: the block is not
  ahead of the state; there is no validator; the block's proposer is not the expected one, which is
  reported; its parent is not the root of the latest header, with the state root cached in it, which
  is reported; the history would exceed its limit, with the number of empty slots and the length of the
  history; or the announced state root is not that of the state after all processing, which is
  reported. The remaining error kinds do not occur.
\<close>

theorem state_transition_error_cases:
  assumes "wf_state s" and "state_transition H s b = Err e"
  shows "(e = StateSlotIsNewer (blk_slot b) (st_slot s) \<and> blk_slot b \<le> st_slot s) \<or>
    (e = NoValidators \<and> st_validators s = []) \<or>
    (\<exists>p. e = InvalidProposer p (blk_proposer_index b) \<and> p \<noteq> blk_proposer_index b \<and>
       is_proposer p (blk_slot b) (word_of_nat (length (st_validators s)))) \<or>
    (e = InvalidParent (h_header H (cached_header H s)) (blk_parent_root b) \<and>
       blk_parent_root b \<noteq> h_header H (cached_header H s)) \<or>
    (e = SlotGapTooLarge (unat (blk_slot b) - 1 - length (st_historical_block_hashes s))
         (length (st_historical_block_hashes s)) HISTORICAL_ROOTS_LIMIT \<and>
       HISTORICAL_ROOTS_LIMIT < unat (blk_slot b)) \<or>
    (\<exists>s1 s2. process_slots H s (blk_slot b) = Ok s1 \<and> process_block H s1 b = Ok s2 \<and>
       e = StateRootMismatch (blk_state_root b) (h_state H s2) \<and> blk_state_root b \<noteq> h_state H s2)"
proof (cases "blk_slot b \<le> st_slot s")
  case True
  with assms(2) show ?thesis by (simp add: state_transition_def process_slots_def)
next
  case False
  define s1 where "s1 = s\<lparr>st_latest_block_header := cached_header H s, st_slot := blk_slot b\<rparr>"
  from False have ps: "process_slots H s (blk_slot b) = Ok s1"
    by (simp add: process_slots_Ok_iff s1_def cached_header_def Let_def)
  have w1: "wf_state s1" by (rule process_slots_wf [OF assms(1) ps])
  have lt: "hdr_slot (st_latest_block_header s1) < blk_slot b" "st_slot s1 = blk_slot b"
    using False assms(1) by (auto simp: s1_def wf_state_def cached_header_def Let_def)
  have v: "st_validators s1 = st_validators s" "st_latest_block_header s1 = cached_header H s"
    "st_historical_block_hashes s1 = st_historical_block_hashes s" by (simp_all add: s1_def)
  from assms(2) ps consider "process_block_header H s1 b = Err e" |
    s2 where "process_block_header H s1 b = Ok s2" "process_attestations s2 (body_attestations (blk_body b)) = Err e" |
    s2 where "process_block H s1 b = Ok s2" "e = StateRootMismatch (blk_state_root b) (h_state H s2)"
      "blk_state_root b \<noteq> h_state H s2"
    by (auto simp: state_transition_def process_block_def Let_def bind_res_Err_iff bind_res_Ok_iff split: if_splits)
  then show ?thesis
  proof cases
    case 1
    from header_Err [OF w1 1 lt(2,1), unfolded v] show ?thesis by (elim disjE) auto
  next
    case 2
    with process_attestations_no_Err header_wf [OF w1] show ?thesis by blast
  next
    case 3
    with ps show ?thesis by blast
  qed
qed

theorem state_transition_error_cases_witness:
  "\<exists>r. state_transition demo_hashing demo_genesis ((demo_block 1 [])\<lparr>blk_parent_root := 5\<rparr>) =
     Err (InvalidParent r 5) \<and> r = h_header demo_hashing (cached_header demo_hashing demo_genesis) \<and> r \<noteq> 5"
proof -
  have run: "state_transition demo_hashing demo_genesis ((demo_block 1 [])\<lparr>blk_parent_root := 5\<rparr>) =
     Err (InvalidParent 2000 5)"
    by (simp add: transition_defs demo_defs)
  from state_transition_error_cases [OF wf_demo_genesis run] run show ?thesis
    by (intro exI [of _ 2000]) (simp add: demo_defs)
qed

text \<open>
  C39. Jumping over the empty slots equals the slot-by-slot loop of the specification, which caches
  the state root in the header on its first round, as long as the root of the state is not zero.
\<close>

theorem process_slots_is_stepwise:
  assumes "st_slot s < t" and "h_state H s \<noteq> 0"
  shows "process_slots H s t = Ok (process_slots_stepwise H t s)"
proof -
  let ?s1 = "(if hdr_state_root (st_latest_block_header s) = 0
               then s\<lparr>st_latest_block_header :=
                       (st_latest_block_header s)\<lparr>hdr_state_root := h_state H s\<rparr>\<rparr>
               else s)\<lparr>st_slot := st_slot s + 1\<rparr>"
  have "process_slots_stepwise H t s = process_slots_stepwise H t ?s1"
    using assms(1) by (simp add: process_slots_stepwise.simps [of H t s])
  also have "\<dots> = ?s1\<lparr>st_slot := t\<rparr>"
    using assms by (intro stepwise_cached) (auto simp: inc_le)
  finally show ?thesis using assms(1) by (simp add: process_slots_def Let_def)
qed

theorem process_slots_is_stepwise_witness:
  "process_slots demo_hashing demo_genesis 4 = Ok (process_slots_stepwise demo_hashing 4 demo_genesis)"
  by (rule process_slots_is_stepwise) (simp_all add: demo_defs)

text \<open>
  Proposers take turns: within any run of as many consecutive slots as there are validators,
  each validator is the proposer of exactly one slot.
\<close>

lemma proposer_round_robin:
  assumes "n \<noteq> 0" and "i < n" and "unat slot + unat n < 2 ^ 64"
  shows "\<exists>!k. k < unat n \<and> is_proposer i (slot + word_of_nat k) n"
proof -
  let ?s = "unat slot" and ?n = "unat n" and ?i = "unat i"
  have n0: "0 < ?n" using assms(1) by (simp add: unat_gt_0)
  have i: "?i < ?n" using assms(2) by (simp add: word_less_nat_alt)
  have un: "unat (slot + word_of_nat k) = ?s + k" if "k < ?n" for k
    using that assms(3) by (simp add: unat_word_ariths unat_of_nat)
  have iff: "is_proposer i (slot + word_of_nat k) n \<longleftrightarrow> ?i = (?s + k) mod ?n" if "k < ?n" for k
    using un [OF that] by (simp add: is_proposer_iff [OF assms(1)])
  let ?k = "(?i + ?n - ?s mod ?n) mod ?n"
  have "(?s + ?k) mod ?n = (?s mod ?n + (?i + ?n - ?s mod ?n)) mod ?n"
    by (metis mod_add_left_eq mod_add_right_eq)
  also have "\<dots> = ?i"
    using n0 i by (simp add: less_imp_le_nat le_add_diff_inverse trans_le_add2)
  finally have ex: "(?s + ?k) mod ?n = ?i" .
  have uniq: "k = l" if "k < ?n" "l < ?n" "(?s + k) mod ?n = (?s + l) mod ?n" for k l
  proof -
    have *: "a = b" if "a \<le> b" "b < ?n" "(?s + a) mod ?n = (?s + b) mod ?n" for a b
    proof -
      from that(1,3) have "?n dvd b - a" 
        using mod_eq_dvd_iff_nat [of "?s + a" "?s + b" ?n] by simp
      then show ?thesis using that(1,2) nat_dvd_not_less [of "b - a" ?n] by (cases "b - a = 0") auto
    qed
    show ?thesis using that *[of k l] *[of l k] by (cases "k \<le> l") auto
  qed
  show ?thesis
  proof (rule ex1I [of _ ?k])
    show "?k < ?n \<and> is_proposer i (slot + word_of_nat ?k) n"
      using n0 ex iff [of ?k] by simp
    fix k assume k: "k < ?n \<and> is_proposer i (slot + word_of_nat k) n"
    then have lt: "k < ?n" by blast
    have ltk: "?k < ?n" using n0 by simp
    have "(?s + k) mod ?n = (?s + ?k) mod ?n" unfolding ex using k iff [OF lt] by simp
    then show "k = ?k" by (rule uniq [OF lt ltk])
  qed
qed

end
