(* ===== verification/Block_Building.thy ===== *)
theory Block_Building
  imports Signatures Payload_Buffer State_Invariants
begin

text \<open>
  Building a block, from \<open>crates/blockchain/src/store.rs\<close>: grouping attestations by their data,
  the fixed-point collection of attestations for a candidate block, and the selection of existing
  proofs. Both loops end, so they are total functions: each round of the collection includes a key
  it had not included, and each selected proof covers a validator not covered before. The groups are in
  the order in which their data first occurs, and the validators still to be covered are taken in
  ascending order, where the code takes whatever order its hash map and hash set have.
\<close>

section \<open>Bit lists of validators\<close>

definition max_id :: "u64 list \<Rightarrow> nat" where
  "max_id ids = fold (\<lambda>v m. max m (unat v)) ids 0"

definition bits_of_ids :: "u64 list \<Rightarrow> (aggregation_bits, store_error) result" where
  "bits_of_ids ids =
     bind_res (expect (with_capacity VALIDATOR_REGISTRY_LIMIT (max_id ids + 1)))
       (\<lambda>bits. expect (set_all bits (map unat ids)))"

definition aggregation_bits_from_validator_indices :: "u64 list \<Rightarrow> (aggregation_bits, store_error) result" where
  "aggregation_bits_from_validator_indices ids = (if ids = [] then Ok [] else bits_of_ids ids)"

section \<open>Grouping\<close>

definition add_to_group :: "hashing \<Rightarrow> attestation \<Rightarrow>
  (H256 \<times> (attestation_data \<times> u64 list)) list \<Rightarrow> (H256 \<times> (attestation_data \<times> u64 list)) list" where
  "add_to_group H attestation groups =
     (let data_root = h_data H (att_data attestation);
          entry = (case map_of groups data_root of None \<Rightarrow> (att_data attestation, []) | Some g \<Rightarrow> g)
      in AList.update data_root (fst entry, snd entry @ [att_validator_id attestation]) groups)"

definition aggregate_attestations_by_data ::
  "hashing \<Rightarrow> attestation list \<Rightarrow> (aggregated_attestation list, store_error) result" where
  "aggregate_attestations_by_data H attestations =
     map_res (\<lambda>(_, data, validator_ids).
         bind_res (bits_of_ids validator_ids)
           (\<lambda>bits. Ok \<lparr>aa_aggregation_bits = bits, aa_data = data\<rparr>))
       (fold (add_to_group H) attestations [])"

section \<open>Selecting proofs\<close>

type_synonym payload_map = "(signature_key \<times> aggregated_signature_proof list) list"

definition covered_by :: "u64 list \<Rightarrow> aggregated_signature_proof \<Rightarrow> u64 list" where
  "covered_by remaining p = filter (\<lambda>vid. vid \<in> set remaining) (validator_indices (asp_participants p))"

definition best_proof ::
  "payload_map \<Rightarrow> H256 \<Rightarrow> u64 list \<Rightarrow> (aggregated_signature_proof \<times> u64 list) option" where
  "best_proof payloads message remaining =
     (case remaining of
        [] \<Rightarrow> None
      | target_id # _ \<Rightarrow>
          (case map_of payloads (target_id, message) of
             None \<Rightarrow> None
           | Some candidates \<Rightarrow>
               (case max_by_key (\<lambda>(_, covered). length covered)
                       (map (\<lambda>p. (p, covered_by remaining p)) candidates) of
                  None \<Rightarrow> None
                | Some (p, covered) \<Rightarrow> if covered = [] then None else Some (p, covered))))"

lemma best_proof_Some:
  assumes "best_proof payloads message remaining = Some (p, covered)"
  shows "covered \<noteq> []" and "covered = covered_by remaining p" and "remaining \<noteq> []"
    and "\<exists>candidates. map_of payloads (hd remaining, message) = Some candidates \<and> p \<in> set candidates"
  using assms
  by (auto simp: best_proof_def split: list.splits option.splits if_splits dest!: max_by_key_Some(1))

lemma best_proof_covers:
  assumes "best_proof payloads message remaining = Some (p, covered)"
  obtains vid where "vid \<in> set remaining" and "\<not> vid \<notin> set covered"
proof -
  obtain vid where vid: "vid \<in> set covered" using best_proof_Some(1) [OF assms] by (cases covered) auto
  then have "vid \<in> set remaining" using best_proof_Some(2) [OF assms] by (simp add: covered_by_def)
  with vid show thesis using that by blast
qed

function select_proofs ::
  "payload_map \<Rightarrow> attestation_data \<Rightarrow> H256 \<Rightarrow> u64 list \<Rightarrow>
   (aggregated_attestation \<times> aggregated_signature_proof) list" where
  "select_proofs payloads data message remaining =
     (case best_proof payloads message remaining of
        None \<Rightarrow> []
      | Some (p, covered) \<Rightarrow>
          (\<lparr>aa_aggregation_bits = asp_participants p, aa_data = data\<rparr>, p) #
          select_proofs payloads data message (filter (\<lambda>vid. vid \<notin> set covered) remaining))"
  by pat_completeness auto
termination
proof (relation "measure (\<lambda>(_, _, _, remaining). length remaining)", simp, goal_cases)
  case (1 payloads data message remaining x p covered)
  then have b: "best_proof payloads message remaining = Some (p, covered)" by simp
  then obtain vid where "vid \<in> set remaining" "\<not> vid \<notin> set covered" by (rule best_proof_covers)
  then show ?case by (simp add: length_filter_less)
qed

declare select_proofs.simps [simp del]

definition select_aggregated_proofs ::
  "hashing \<Rightarrow> attestation list \<Rightarrow> payload_map \<Rightarrow>
   (aggregated_attestation list \<times> aggregated_signature_proof list, store_error) result" where
  "select_aggregated_proofs H attestations payloads =
     bind_res (aggregate_attestations_by_data H attestations)
       (\<lambda>aggregated.
          (let results = concat (map (\<lambda>a. select_proofs payloads (aa_data a) (h_data H (aa_data a))
                                        (validator_indices (aa_aggregation_bits a))) aggregated)
           in Ok (map fst results, map snd results)))"

section \<open>Building a block\<close>

definition sig_key :: "hashing \<Rightarrow> attestation \<Rightarrow> signature_key" where
  "sig_key H attestation = (att_validator_id attestation, h_data H (att_data attestation))"

text \<open>One pass over the available attestations.\<close>

definition collect_step ::
  "hashing \<Rightarrow> checkpoint \<Rightarrow> H256 list \<Rightarrow> payload_map \<Rightarrow> attestation \<Rightarrow>
   attestation list \<times> signature_key list \<Rightarrow> attestation list \<times> signature_key list" where
  "collect_step H justified known_block_roots payloads attestation = (\<lambda>(new_attestations, included_keys).
     if cp_root (ad_head (att_data attestation)) \<notin> set known_block_roots
     then (new_attestations, included_keys)
     else if ad_source (att_data attestation) \<noteq> justified then (new_attestations, included_keys)
     else if sig_key H attestation \<in> set included_keys then (new_attestations, included_keys)
     else if map_of payloads (sig_key H attestation) \<noteq> None
     then (new_attestations @ [attestation], sig_key H attestation # included_keys)
     else (new_attestations, included_keys))"

definition candidate_block :: "u64 \<Rightarrow> u64 \<Rightarrow> H256 \<Rightarrow> aggregated_attestation list \<Rightarrow> (block, store_error) result" where
  "candidate_block slot proposer_index parent_root attestations =
     (if length attestations \<le> VALIDATOR_REGISTRY_LIMIT
      then Ok \<lparr>blk_slot = slot, blk_proposer_index = proposer_index, blk_parent_root = parent_root,
               blk_state_root = 0, blk_body = \<lparr>body_attestations = attestations\<rparr>\<rparr>
      else Panic)"

definition apply_block :: "hashing \<Rightarrow> state \<Rightarrow> u64 \<Rightarrow> block \<Rightarrow> (state, store_error) result" where
  "apply_block H head_state slot b =
     map_err StateTransitionFailed
       (bind_res (process_slots H head_state slot) (\<lambda>post_state. process_block H post_state b))"

lemma collect_step_mono:
  "set (snd acc) \<subseteq> set (snd (collect_step H j roots payloads a acc))"
  by (auto simp: collect_step_def split: prod.splits)

lemma fold_collect_new:
  assumes "fold (collect_step H j roots payloads) avail (new0, keys) = (new, keys')" and "new \<noteq> new0"
  shows "set keys \<subseteq> set keys' \<and> (\<exists>a \<in> set avail. sig_key H a \<notin> set keys \<and> sig_key H a \<in> set keys')"
  using assms
proof (induction avail arbitrary: new0 keys)
  case Nil
  then show ?case by simp
next
  case (Cons a avail)
  let ?acc = "collect_step H j roots payloads a (new0, keys)"
  have mono: "set (snd acc) \<subseteq> set (snd (fold (collect_step H j roots payloads) xs acc))" for acc xs
  proof (induction xs arbitrary: acc)
    case (Cons x xs)
    from Cons.IH [of "collect_step H j roots payloads x acc"] collect_step_mono [of acc H j roots payloads x]
    show ?case by auto
  qed simp
  show ?case
  proof (cases "fst ?acc = new0")
    case True
    then have eq: "?acc = (new0, keys)" by (auto simp: collect_step_def split: if_splits)
    with Cons show ?thesis by auto
  next
    case False
    then have "sig_key H a \<notin> set keys" "sig_key H a \<in> set (snd ?acc)" "set keys \<subseteq> set (snd ?acc)"
      by (auto simp: collect_step_def split: if_splits)
    with mono [of ?acc avail] Cons.prems(1) show ?thesis by auto
  qed
qed

function collect_attestations ::
  "hashing \<Rightarrow> state \<Rightarrow> u64 \<Rightarrow> u64 \<Rightarrow> H256 \<Rightarrow> attestation list \<Rightarrow> H256 list \<Rightarrow> payload_map \<Rightarrow>
   attestation list \<Rightarrow> signature_key list \<Rightarrow> (attestation list, store_error) result" where
  "collect_attestations H head_state slot proposer_index parent_root available known_block_roots
       payloads included included_keys =
     bind_res (aggregate_attestations_by_data H included) (\<lambda>attestations.
       bind_res (candidate_block slot proposer_index parent_root attestations) (\<lambda>b.
         bind_res (apply_block H head_state slot b) (\<lambda>post_state.
           if available = [] \<or> known_block_roots = [] then Ok included
           else
             (case fold (collect_step H (st_latest_justified post_state) known_block_roots payloads)
                     available ([], included_keys) of
                (new_attestations, included_keys') \<Rightarrow>
                  if new_attestations = [] then Ok included
                  else collect_attestations H head_state slot proposer_index parent_root available
                         known_block_roots payloads (included @ new_attestations) included_keys'))))"
  by pat_completeness auto
termination
proof (relation "measure (\<lambda>(H, _, _, _, _, available, _, _, _, keys).
    length (filter (\<lambda>a. sig_key H a \<notin> set keys) available))", goal_cases)
  case 1
  show ?case by simp
next
  case (2 H head_state slot proposer parent available roots payloads included keys as b post new keys')
  then have f: "fold (collect_step H (st_latest_justified post) roots payloads) available ([], keys) = (new, keys')"
    and "new \<noteq> []" by simp_all
  from fold_collect_new [OF this] obtain a where a: "set keys \<subseteq> set keys'" "a \<in> set available"
    "sig_key H a \<notin> set keys" "sig_key H a \<in> set keys'" by blast
  have "length (filter (\<lambda>a. sig_key H a \<notin> set keys') available) =
      length (filter (\<lambda>a. sig_key H a \<notin> set keys') (filter (\<lambda>a. sig_key H a \<notin> set keys) available))"
    using a(1) by (auto simp: intro!: arg_cong [of _ _ length] filter_cong)
  also have "\<dots> < length (filter (\<lambda>a. sig_key H a \<notin> set keys) available)"
    using a(2-4) by (intro length_filter_less [of a]) auto
  finally show ?case by simp
qed

declare collect_attestations.simps [simp del]

definition build_block ::
  "hashing \<Rightarrow> state \<Rightarrow> u64 \<Rightarrow> u64 \<Rightarrow> H256 \<Rightarrow> attestation list \<Rightarrow> H256 list \<Rightarrow> payload_map \<Rightarrow>
   (block \<times> state \<times> aggregated_signature_proof list, store_error) result" where
  "build_block H head_state slot proposer_index parent_root available known_block_roots payloads =
     bind_res (collect_attestations H head_state slot proposer_index parent_root available
                 known_block_roots payloads [] [])
       (\<lambda>included. bind_res (select_aggregated_proofs H included payloads)
         (\<lambda>(attestations, signatures).
           bind_res (candidate_block slot proposer_index parent_root attestations) (\<lambda>final_block.
             bind_res (apply_block H head_state slot final_block) (\<lambda>post_state.
               Ok (final_block\<lparr>blk_state_root := h_state H post_state\<rparr>, post_state, signatures)))))"

section \<open>Facts on bit lists of validators\<close>

lemma fold_max_le: "(\<forall>v \<in> set ids. unat v \<le> fold (\<lambda>v m. max m (unat v)) ids a) \<and>
  a \<le> fold (\<lambda>v m. max m (unat v)) ids a"
proof (induction ids arbitrary: a)
  case (Cons v ids)
  from Cons [of "max a (unat v)"] show ?case by auto
qed simp

lemma le_max_id: "v \<in> set ids \<Longrightarrow> unat v \<le> max_id ids"
  using fold_max_le [of ids 0] by (auto simp: max_id_def)

lemma fold_max_less:
  "\<forall>v \<in> set ids. unat v < n \<Longrightarrow> a < n \<Longrightarrow> fold (\<lambda>v m. max m (unat v)) ids a < n"
  by (induction ids arbitrary: a) auto

lemma max_id_less: "\<forall>v \<in> set ids. unat v < n \<Longrightarrow> 0 < n \<Longrightarrow> max_id ids < n"
  by (simp add: max_id_def fold_max_less)

lemma fold_max_mem: "fold (\<lambda>v m. max m (unat v)) ids a \<in> insert a (unat ` set ids)"
proof (induction ids arbitrary: a)
  case (Cons v ids)
  from Cons [of "max a (unat v)"] show ?case by (auto simp: max_def split: if_splits)
qed simp

lemma bits_of_ids_Ok:
  assumes "\<forall>v \<in> set ids. unat v < VALIDATOR_REGISTRY_LIMIT"
  shows "\<exists>bits. bits_of_ids ids = Ok bits \<and> length bits = max_id ids + 1 \<and>
    length bits \<le> VALIDATOR_REGISTRY_LIMIT \<and> set (validator_indices bits) = set ids"
proof -
  define n where "n = max_id ids + 1"
  have n: "n \<le> VALIDATOR_REGISTRY_LIMIT"
    using max_id_less [OF assms] by (simp add: VALIDATOR_REGISTRY_LIMIT_def n_def)
  have lt: "\<forall>i \<in> set (map unat ids). i < n"
    using le_max_id [of _ ids] by (auto simp: less_Suc_eq_le n_def)
  define bits where "bits = map (\<lambda>k. replicate n False ! k \<or> k \<in> set (map unat ids)) [0..<n]"
  have run: "bits_of_ids ids = Ok bits"
    unfolding bits_of_ids_def n_def [symmetric] using n lt
    by (simp add: with_capacity_def set_all_char bits_def)
  have "set (set_positions bits) = set (map unat ids)"
    using lt by (auto simp: bits_def)
  then have "set (validator_indices bits) = word_of_nat ` unat ` set ids"
    unfolding validator_indices_def by (simp del: set_set_positions)
  then have "set (validator_indices bits) = set ids" by (simp add: image_image)
  moreover have "length bits = max_id ids + 1" by (simp add: bits_def n_def)
  ultimately show ?thesis using run n by (simp add: n_def)
qed

lemma bits_of_ids_Panic:
  assumes "v \<in> set ids" and "VALIDATOR_REGISTRY_LIMIT \<le> unat v"
  shows "bits_of_ids ids = Panic"
  using le_max_id [OF assms(1)] assms(2)
  by (simp add: bits_of_ids_def with_capacity_def)

lemma length_validator_indices_le:
  assumes "set (validator_indices bits) = set ids" and "length bits \<le> VALIDATOR_REGISTRY_LIMIT"
  shows "length (validator_indices bits) \<le> length ids"
proof -
  have "map unat (validator_indices bits) = set_positions bits"
    using assms(2) by (intro unat_validator_indices) (simp add: VALIDATOR_REGISTRY_LIMIT_def)
  then have "distinct (validator_indices bits)" by (metis distinct_map distinct_set_positions)
  then have "length (validator_indices bits) = card (set ids)" using assms(1) by (metis distinct_card)
  then show ?thesis by (simp add: card_length)
qed

section \<open>Facts on grouping and selection\<close>

definition group_ids :: "(H256 \<times> (attestation_data \<times> u64 list)) list \<Rightarrow> u64 list" where
  "group_ids groups = concat (map (\<lambda>(_, _, ids). ids) groups)"

lemma length_group_ids_update:
  assumes "distinct (map fst groups)"
  shows "length (group_ids (AList.update r (d, ids) groups)) =
    length (group_ids groups) + length ids - (case map_of groups r of None \<Rightarrow> 0 | Some (_, old) \<Rightarrow> length old) \<and>
    (case map_of groups r of None \<Rightarrow> 0 | Some (_, old) \<Rightarrow> length old) \<le> length (group_ids groups)"
  using assms
proof (induction groups)
  case Nil
  then show ?case by (simp add: group_ids_def)
next
  case (Cons g groups)
  obtain q e old where g: "g = (q, e, old)" by (metis prod.exhaust)
  show ?case
  proof (cases "q = r")
    case True
    then show ?thesis by (simp add: g group_ids_def)
  next
    case False
    with Cons g show ?thesis by (auto simp: group_ids_def split: option.splits prod.splits)
  qed
qed

lemma fold_add_to_group:
  assumes "distinct (map fst groups)" and "\<forall>(r, d, ids) \<in> set groups. ids \<noteq> [] \<and> set ids \<subseteq> V"
    and "\<forall>a \<in> set atts. att_validator_id a \<in> V"
  shows "distinct (map fst (fold (add_to_group H) atts groups)) \<and>
    (\<forall>(r, d, ids) \<in> set (fold (add_to_group H) atts groups). ids \<noteq> [] \<and> set ids \<subseteq> V) \<and>
    length (group_ids (fold (add_to_group H) atts groups)) = length (group_ids groups) + length atts"
  using assms
proof (induction atts arbitrary: groups)
  case Nil
  then show ?case by simp
next
  case (Cons a atts)
  let ?r = "h_data H (att_data a)"
  let ?e = "case map_of groups ?r of None \<Rightarrow> (att_data a, []) | Some g \<Rightarrow> g"
  let ?g = "AList.update ?r (fst ?e, snd ?e @ [att_validator_id a]) groups"
  have step: "add_to_group H a groups = ?g" by (simp add: add_to_group_def Let_def)
  have d: "distinct (map fst ?g)" using Cons.prems(1) by (simp add: distinct_update)
  have sub: "set (snd ?e @ [att_validator_id a]) \<subseteq> V"
    using Cons.prems(2,3) by (auto split: option.splits dest!: map_of_SomeD)
  have "ids \<noteq> [] \<and> set ids \<subseteq> V" if "(r, d, ids) \<in> set ?g" for r d ids
    using map_of_is_SomeI [OF d that] sub Cons.prems(2)
    by (auto split: if_splits dest!: map_of_SomeD)
  then have v: "\<forall>(r, d, ids) \<in> set ?g. ids \<noteq> [] \<and> set ids \<subseteq> V" by blast
  have "length (group_ids ?g) = length (group_ids groups) + 1"
    using length_group_ids_update [OF Cons.prems(1), of ?r "fst ?e" "snd ?e @ [att_validator_id a]"]
    by (auto split: option.splits)
  with Cons.IH [OF d v] Cons.prems(3) step show ?case by simp
qed

lemma length_select_proofs: "length (select_proofs payloads data message remaining) \<le> length remaining"
proof (induction payloads data message remaining rule: select_proofs.induct)
  case (1 payloads data message remaining)
  show ?case
  proof (cases "best_proof payloads message remaining")
    case None
    then show ?thesis by (simp add: select_proofs.simps [of payloads data message remaining])
  next
    case (Some pc)
    obtain p covered where pc: "pc = (p, covered)" by (cases pc)
    with Some have b: "best_proof payloads message remaining = Some (p, covered)" by simp
    then obtain vid where "vid \<in> set remaining" "\<not> vid \<notin> set covered" by (rule best_proof_covers)
    then have "length (filter (\<lambda>vid. vid \<notin> set covered) remaining) < length remaining"
      by (intro length_filter_less) auto
    with 1 [OF b] b show ?thesis
      by (simp add: select_proofs.simps [of payloads data message remaining])
  qed
qed

lemma select_proofs_aligned:
  "\<forall>(a, p) \<in> set (select_proofs payloads data message remaining).
     aa_data a = data \<and> aa_aggregation_bits a = asp_participants p \<and>
     (\<exists>vid candidates. map_of payloads (vid, message) = Some candidates \<and> p \<in> set candidates)"
proof (induction payloads data message remaining rule: select_proofs.induct)
  case (1 payloads data message remaining)
  show ?case
  proof (cases "best_proof payloads message remaining")
    case None
    then show ?thesis by (simp add: select_proofs.simps [of payloads data message remaining])
  next
    case (Some pc)
    obtain p covered where pc: "pc = (p, covered)" by (cases pc)
    with Some have b: "best_proof payloads message remaining = Some (p, covered)" by simp
    from best_proof_Some(4) [OF b] 1 [OF b] b show ?thesis
      by (auto simp: select_proofs.simps [of payloads data message remaining])
  qed
qed

lemma map_res_groups:
  assumes "\<forall>(r, d, ids) \<in> set groups. ids \<noteq> [] \<and> set ids \<subseteq> {v. unat v < VALIDATOR_REGISTRY_LIMIT}"
  shows "\<exists>aggs. map_res (\<lambda>(_, data, validator_ids). bind_res (bits_of_ids validator_ids)
         (\<lambda>bits. Ok \<lparr>aa_aggregation_bits = bits, aa_data = data\<rparr>)) groups = Ok aggs \<and>
    length aggs \<le> length (group_ids groups) \<and>
    sum_list (map (\<lambda>a. length (validator_indices (aa_aggregation_bits a))) aggs) \<le> length (group_ids groups)"
  using assms
proof (induction groups)
  case Nil
  then show ?case by (simp add: group_ids_def)
next
  case (Cons g groups)
  obtain r d ids where g: "g = (r, d, ids)" by (metis prod.exhaust)
  with Cons.prems have ids: "ids \<noteq> []" "\<forall>v \<in> set ids. unat v < VALIDATOR_REGISTRY_LIMIT" by auto
  from bits_of_ids_Ok [OF ids(2)] obtain bits where bits: "bits_of_ids ids = Ok bits"
    "length bits \<le> VALIDATOR_REGISTRY_LIMIT" "set (validator_indices bits) = set ids" by blast
  from Cons.IH Cons.prems obtain aggs where "map_res (\<lambda>(_, data, validator_ids). bind_res (bits_of_ids validator_ids)
         (\<lambda>bits. Ok \<lparr>aa_aggregation_bits = bits, aa_data = data\<rparr>)) groups = Ok aggs"
    "length aggs \<le> length (group_ids groups)"
    "sum_list (map (\<lambda>a. length (validator_indices (aa_aggregation_bits a))) aggs) \<le> length (group_ids groups)"
    by auto
  moreover have "1 \<le> length ids" using ids(1) by (cases ids) auto
  moreover have "length (group_ids (g # groups)) = length ids + length (group_ids groups)"
    by (simp add: group_ids_def g)
  ultimately show ?case
    using bits length_validator_indices_le [OF bits(3,2)] by (simp add: g)
qed

lemma aggregate_Ok:
  assumes "\<forall>a \<in> set atts. unat (att_validator_id a) < VALIDATOR_REGISTRY_LIMIT"
  shows "\<exists>aggs. aggregate_attestations_by_data H atts = Ok aggs \<and> length aggs \<le> length atts \<and>
    sum_list (map (\<lambda>a. length (validator_indices (aa_aggregation_bits a))) aggs) \<le> length atts"
proof -
  let ?V = "{v. unat v < VALIDATOR_REGISTRY_LIMIT}"
  let ?g = "fold (add_to_group H) atts []"
  have "distinct (map fst ?g) \<and> (\<forall>(r, d, ids) \<in> set ?g. ids \<noteq> [] \<and> set ids \<subseteq> ?V) \<and>
      length (group_ids ?g) = length (group_ids []) + length atts"
    by (rule fold_add_to_group) (use assms in auto)
  then have g: "\<forall>(r, d, ids) \<in> set ?g. ids \<noteq> [] \<and> set ids \<subseteq> ?V"
    and len: "length (group_ids ?g) = length atts" by (auto simp: group_ids_def)
  from map_res_groups [OF g] show ?thesis
    unfolding aggregate_attestations_by_data_def len .
qed

lemma select_aggregated_proofs_Ok:
  assumes "\<forall>a \<in> set atts. unat (att_validator_id a) < VALIDATOR_REGISTRY_LIMIT"
  shows "\<exists>as ps. select_aggregated_proofs H atts payloads = Ok (as, ps) \<and>
    length as = length ps \<and> length as \<le> length atts"
proof -
  obtain aggs where aggs: "aggregate_attestations_by_data H atts = Ok aggs"
    "sum_list (map (\<lambda>a. length (validator_indices (aa_aggregation_bits a))) aggs) \<le> length atts"
    using aggregate_Ok [OF assms] by blast
  have "length (concat (map (\<lambda>a. select_proofs payloads (aa_data a) (h_data H (aa_data a))
        (validator_indices (aa_aggregation_bits a))) aggs)) \<le>
      sum_list (map (\<lambda>a. length (validator_indices (aa_aggregation_bits a))) aggs)"
    unfolding length_concat map_map o_def by (intro sum_list_mono length_select_proofs)
  with aggs show ?thesis unfolding select_aggregated_proofs_def Let_def
    by (simp del: length_concat)
qed

section \<open>Facts on the collection\<close>

text \<open>What the collection has included: available attestations, each key once.\<close>

definition included_ok :: "hashing \<Rightarrow> attestation list \<Rightarrow> attestation list \<Rightarrow> signature_key list \<Rightarrow> bool" where
  "included_ok H available included keys \<longleftrightarrow> set included \<subseteq> set available \<and>
     distinct (map (sig_key H) included) \<and> set (map (sig_key H) included) \<subseteq> set keys"

lemma fold_collect_included:
  assumes "included_ok H avail (inc @ new0) keys" and "set xs \<subseteq> set avail"
    and "fold (collect_step H j roots payloads) xs (new0, keys) = (new, keys')"
  shows "included_ok H avail (inc @ new) keys'"
  using assms
proof (induction xs arbitrary: new0 keys)
  case Nil
  then show ?case by simp
next
  case (Cons a xs)
  obtain n1 k1 where s: "collect_step H j roots payloads a (new0, keys) = (n1, k1)" by (metis prod.exhaust)
  from s consider "n1 = new0" "k1 = keys"
    | "n1 = new0 @ [a]" "k1 = sig_key H a # keys" "sig_key H a \<notin> set keys"
    by (auto simp: collect_step_def split: if_splits)
  then have "included_ok H avail (inc @ n1) k1"
  proof cases
    case 2
    from Cons.prems(1) 2(3) have "sig_key H a \<notin> set (map (sig_key H) (inc @ new0))"
      unfolding included_ok_def by blast
    moreover have "map (sig_key H) (inc @ n1) = map (sig_key H) (inc @ new0) @ [sig_key H a]"
      by (simp add: 2)
    ultimately show ?thesis
      using Cons.prems(1,2) 2 unfolding included_ok_def
      by (simp only: distinct_append set_append set_simps) auto
  qed (use Cons.prems(1) in simp)
  with Cons s show ?case by auto
qed

lemma included_ok_length:
  assumes "included_ok H available included keys"
  shows "length included \<le> length available"
proof -
  have "length included = card (sig_key H ` set included)"
    using assms unfolding included_ok_def by (metis distinct_card length_map set_map)
  also have "\<dots> \<le> card (sig_key H ` set available)"
    using assms by (intro card_mono) (auto simp: included_ok_def)
  also have "\<dots> \<le> length available" by (metis card_length length_map set_map)
  finally show ?thesis .
qed

lemma apply_block_no_panic: "wf_state st \<Longrightarrow> apply_block H st slot b \<noteq> Panic"
  by (auto simp: apply_block_def map_err_Panic_iff bind_res_Panic_iff process_block_no_panic
      dest: process_slots_wf)

lemma collect_attestations_ok:
  assumes "wf_state st" and "length available \<le> VALIDATOR_REGISTRY_LIMIT"
    and "\<forall>a \<in> set available. unat (att_validator_id a) < VALIDATOR_REGISTRY_LIMIT"
    and "included_ok H available included keys"
  shows "collect_attestations H st slot p parent available roots payloads included keys \<noteq> Panic \<and>
    (\<forall>inc. collect_attestations H st slot p parent available roots payloads included keys = Ok inc \<longrightarrow>
      (\<exists>keys'. included_ok H available inc keys'))"
  using assms
proof (induction H st slot p parent available roots payloads included keys rule: collect_attestations.induct)
  case (1 H st slot p parent available roots payloads included keys)
  have "\<forall>a \<in> set included. unat (att_validator_id a) < VALIDATOR_REGISTRY_LIMIT"
    using 1(4,5) by (auto simp: included_ok_def)
  from aggregate_Ok [OF this, of H] obtain aggs where
    aggs: "aggregate_attestations_by_data H included = Ok aggs"
    "length aggs \<le> length included" by blast
  with included_ok_length [OF 1(5)] 1(3) have "length aggs \<le> VALIDATOR_REGISTRY_LIMIT" by linarith
  then obtain b where b: "candidate_block slot p parent aggs = Ok b"
    by (simp add: candidate_block_def)
  show ?case
  proof (cases "apply_block H st slot b")
    case (Ok post)
    show ?thesis
    proof (cases "available = [] \<or> roots = []")
      case True
      then have run: "collect_attestations H st slot p parent available roots payloads included keys = Ok included"
        by (subst collect_attestations.simps) (simp add: aggs b Ok)
      show ?thesis unfolding run using 1(5) by auto
    next
      case False
      obtain new keys' where f: "fold (collect_step H (st_latest_justified post) roots payloads) available ([], keys) = (new, keys')"
        by (metis prod.exhaust)
      show ?thesis
      proof (cases "new = []")
        case True
        then have run: "collect_attestations H st slot p parent available roots payloads included keys = Ok included"
          by (subst collect_attestations.simps) (simp add: aggs b Ok f)
        show ?thesis unfolding run using 1(5) by auto
      next
        case new: False
        have inc: "included_ok H available (included @ new) keys'"
          by (rule fold_collect_included [OF _ _ f]) (use 1(5) in auto)
        have run: "collect_attestations H st slot p parent available roots payloads included keys =
            collect_attestations H st slot p parent available roots payloads (included @ new) keys'"
          using False new by (subst collect_attestations.simps) (simp add: aggs b Ok f)
        show ?thesis
          unfolding run by (rule 1(1) [OF aggs(1) b Ok False f [symmetric] new 1(2-4) inc])
      qed
    qed
  next
    case (Err e)
    have run: "collect_attestations H st slot p parent available roots payloads included keys = Err e"
      by (subst collect_attestations.simps) (simp add: aggs b Err)
    show ?thesis unfolding run by simp
  next
    case Panic
    with apply_block_no_panic [OF 1(2)] show ?thesis by blast
  qed
qed

lemma process_block_header_state_root:
  "process_block_header H s (b\<lparr>blk_state_root := r\<rparr>) = process_block_header H s b"
  by (simp add: process_block_header_def cong: if_cong)

lemma process_block_state_root: "process_block H s (b\<lparr>blk_state_root := r\<rparr>) = process_block H s b"
  by (simp add: process_block_def process_block_header_state_root)

lemma build_block_Ok:
  assumes "build_block H st slot p parent available roots payloads = Ok (b, post, sigs)"
  obtains included atts fb where
    "collect_attestations H st slot p parent available roots payloads [] [] = Ok included"
    "select_aggregated_proofs H included payloads = Ok (atts, sigs)"
    "candidate_block slot p parent atts = Ok fb" "apply_block H st slot fb = Ok post"
    "b = fb\<lparr>blk_state_root := h_state H post\<rparr>"
  using assms by (auto simp: build_block_def bind_res_Ok_iff split: prod.splits)

lemma select_aggregated_aligned:
  assumes "select_aggregated_proofs H included payloads = Ok (atts, sigs)"
  shows "list_all2 (\<lambda>a q. aa_aggregation_bits a = asp_participants q \<and>
    (\<exists>vid candidates. map_of payloads (vid, h_data H (aa_data a)) = Some candidates \<and> q \<in> set candidates))
    atts sigs"
proof -
  from assms obtain aggs where aggs: "aggregate_attestations_by_data H included = Ok aggs"
    by (auto simp: select_aggregated_proofs_def bind_res_Ok_iff)
  define res where "res = concat (map (\<lambda>a. select_proofs payloads (aa_data a)
        (h_data H (aa_data a)) (validator_indices (aa_aggregation_bits a))) aggs)"
  from assms aggs have atts: "atts = map fst res" and sigs: "sigs = map snd res"
    by (simp_all add: select_aggregated_proofs_def Let_def res_def)
  have "aa_aggregation_bits a = asp_participants q \<and>
      (\<exists>vid candidates. map_of payloads (vid, h_data H (aa_data a)) = Some candidates \<and> q \<in> set candidates)"
    if "(a, q) \<in> set res" for a q
  proof -
    from that obtain g :: aggregated_attestation where "(a, q) \<in> set (select_proofs payloads (aa_data g) (h_data H (aa_data g))
        (validator_indices (aa_aggregation_bits g)))" by (auto simp: res_def)
    from bspec [OF select_proofs_aligned this] show ?thesis by auto
  qed
  then show ?thesis
    unfolding atts sigs list_all2_map1 list_all2_map2 list_all2_same by auto
qed

lemma build_block_accepted:
  assumes "build_block H st slot p parent available roots payloads = Ok (b, post, sigs)"
  shows "state_transition H st b = Ok post \<and> blk_slot b = slot \<and> blk_proposer_index b = p \<and>
    blk_parent_root b = parent"
proof -
  from assms obtain included atts fb where
    fb: "candidate_block slot p parent atts = Ok fb" "apply_block H st slot fb = Ok post"
      "b = fb\<lparr>blk_state_root := h_state H post\<rparr>"
    by (rule build_block_Ok)
  from fb(1) have f: "blk_slot fb = slot" "blk_proposer_index fb = p" "blk_parent_root fb = parent"
    by (auto simp: candidate_block_def split: if_splits)
  from fb(2) have "bind_res (process_slots H st slot) (\<lambda>s. process_block H s fb) = Ok post"
    by (simp add: apply_block_def map_err_Ok_iff)
  then show ?thesis
    using f by (auto simp: fb(3) state_transition_def bind_res_Ok_iff process_block_state_root Let_def)
qed

lemma build_block_aligned:
  assumes "build_block H st slot p parent available roots payloads = Ok (b, post, sigs)"
  shows "list_all2 (\<lambda>a q. aa_aggregation_bits a = asp_participants q \<and>
    (\<exists>vid candidates. map_of payloads (vid, h_data H (aa_data a)) = Some candidates \<and> q \<in> set candidates))
    (body_attestations (blk_body b)) sigs"
proof -
  from assms obtain included atts fb where
    sel: "select_aggregated_proofs H included payloads = Ok (atts, sigs)"
    and fb: "candidate_block slot p parent atts = Ok fb" "b = fb\<lparr>blk_state_root := h_state H post\<rparr>"
    by (rule build_block_Ok)
  from fb have "body_attestations (blk_body b) = atts"
    by (auto simp: candidate_block_def split: if_splits)
  with select_aggregated_aligned [OF sel] show ?thesis by simp
qed

section \<open>Where the selected attestations come from\<close>

lemma fold_add_to_group_data:
  assumes "\<forall>(r, d, ids) \<in> set groups. d \<in> X" and "att_data ` set atts \<subseteq> X" and "distinct (map fst groups)"
  shows "\<forall>(r, d, ids) \<in> set (fold (add_to_group H) atts groups). d \<in> X"
  using assms
proof (induction atts arbitrary: groups)
  case (Cons a atts)
  let ?r = "h_data H (att_data a)"
  let ?e = "case map_of groups ?r of None \<Rightarrow> (att_data a, []) | Some g \<Rightarrow> g"
  let ?g = "AList.update ?r (fst ?e, snd ?e @ [att_validator_id a]) groups"
  have e: "fst ?e \<in> X" using Cons.prems(1,2) by (auto split: option.splits dest!: map_of_SomeD)
  have d: "distinct (map fst ?g)" using Cons.prems(3) by (simp add: distinct_update)
  have "d \<in> X" if "(r, d, ids) \<in> set ?g" for r d ids
    using map_of_is_SomeI [OF d that] e Cons.prems(1) by (auto split: if_splits dest!: map_of_SomeD)
  then have "\<forall>(r, d, ids) \<in> set ?g. d \<in> X" by blast
  from Cons.IH [OF this _ d] Cons.prems(2) show ?case by (simp add: add_to_group_def Let_def)
qed simp

lemma aggregate_data:
  assumes "aggregate_attestations_by_data H atts = Ok aggs" and "a \<in> set aggs"
  shows "aa_data a \<in> att_data ` set atts"
proof -
  have g: "\<forall>(r, d, ids) \<in> set (fold (add_to_group H) atts []). d \<in> att_data ` set atts"
    by (rule fold_add_to_group_data) simp_all
  have "map_res (\<lambda>(_, data, ids). bind_res (bits_of_ids ids) (\<lambda>bits. Ok \<lparr>aa_aggregation_bits = bits, aa_data = data\<rparr>)) gs = Ok as
      \<Longrightarrow> \<forall>(r, d, ids) \<in> set gs. d \<in> X \<Longrightarrow> x \<in> set as \<Longrightarrow> aa_data x \<in> X" for gs as X and x :: aggregated_attestation
    by (induction gs arbitrary: as) (auto simp: outcome_simps)
  from this [OF assms(1) [unfolded aggregate_attestations_by_data_def] g assms(2)] show ?thesis .
qed

lemma selected_verified:
  assumes run: "select_aggregated_proofs H included payloads = Ok (atts, sigs)"
    and inj: "inj_on (h_data H) D" and D: "att_data ` set included \<subseteq> D"
    and pay: "\<And>v r ps p. map_of payloads (v, r) = Some ps \<Longrightarrow> p \<in> set ps \<Longrightarrow>
      \<exists>d \<in> D. h_data H d = r \<and> proof_valid H C vs \<lparr>aa_aggregation_bits = asp_participants p, aa_data = d\<rparr> p"
  shows "list_all2 (proof_valid H C vs) atts sigs \<and> aa_data ` set atts \<subseteq> D"
proof -
  from run obtain aggs where aggs: "aggregate_attestations_by_data H included = Ok aggs"
    by (auto simp: select_aggregated_proofs_def bind_res_Ok_iff)
  define res where "res = concat (map (\<lambda>a. select_proofs payloads (aa_data a)
        (h_data H (aa_data a)) (validator_indices (aa_aggregation_bits a))) aggs)"
  from run aggs have r: "atts = map fst res" "sigs = map snd res"
    by (simp_all add: select_aggregated_proofs_def Let_def res_def)
  have "proof_valid H C vs a p \<and> aa_data a \<in> D" if "(a, p) \<in> set res" for a p
  proof -
    from that obtain g :: aggregated_attestation where g: "g \<in> set aggs" "(a, p) \<in> set (select_proofs payloads (aa_data g)
        (h_data H (aa_data g)) (validator_indices (aa_aggregation_bits g)))" by (auto simp: res_def)
    from bspec [OF select_proofs_aligned g(2)] obtain v ps where a: "aa_data a = aa_data g"
      "aa_aggregation_bits a = asp_participants p" "map_of payloads (v, h_data H (aa_data g)) = Some ps" "p \<in> set ps" by auto
    have aD: "aa_data a \<in> D" using aggregate_data [OF aggs g(1)] D a(1) by auto
    from pay [OF a(3,4)] obtain d where d: "d \<in> D" "h_data H d = h_data H (aa_data g)"
      "proof_valid H C vs \<lparr>aa_aggregation_bits = asp_participants p, aa_data = d\<rparr> p" by blast
    with aD a(1) inj have "d = aa_data a" by (metis inj_onD)
    moreover have "\<lparr>aa_aggregation_bits = asp_participants p, aa_data = aa_data a\<rparr> = a"
      using a(2) by (cases a) simp
    ultimately show ?thesis using d(3) aD by simp
  qed
  then show ?thesis unfolding r by (auto simp: list_all2_map1 list_all2_map2 list_all2_same)
qed

lemma aggregate_no_Err: "aggregate_attestations_by_data H atts \<noteq> Err e"
proof -
  have "map_res (\<lambda>(_, data, ids). bind_res (bits_of_ids ids) (\<lambda>bits. Ok \<lparr>aa_aggregation_bits = bits, aa_data = data\<rparr>)) gs \<noteq> Err e"
    for gs :: "(H256 \<times> attestation_data \<times> u64 list) list"
    by (induction gs) (auto simp: bits_of_ids_def outcome_simps split: prod.splits)
  then show ?thesis by (simp add: aggregate_attestations_by_data_def)
qed

lemma collect_attestations_no_Err:
  assumes "\<And>as b. candidate_block slot p parent as = Ok b \<Longrightarrow> \<exists>post. apply_block H st slot b = Ok post"
  shows "collect_attestations H st slot p parent available roots payloads included keys \<noteq> Err e"
  using assms
proof (induction H st slot p parent available roots payloads included keys rule: collect_attestations.induct)
  case (1 H st slot p parent available roots payloads included keys)
  show ?case
  proof
    assume err: "collect_attestations H st slot p parent available roots payloads included keys = Err e"
    then obtain as b where as: "aggregate_attestations_by_data H included = Ok as" "candidate_block slot p parent as = Ok b"
      using aggregate_no_Err by (subst (asm) collect_attestations.simps) (auto simp: bind_res_Err_iff candidate_block_def split: if_splits)
    from 1(2) [OF as(2)] obtain post where post: "apply_block H st slot b = Ok post" by blast
    with err as obtain new keys' where n: "\<not> (available = [] \<or> roots = [])"
      "(new, keys') = fold (collect_step H (st_latest_justified post) roots payloads) available ([], keys)" "new \<noteq> []"
      "collect_attestations H st slot p parent available roots payloads (included @ new) keys' = Err e"
      by (subst (asm) collect_attestations.simps) (auto split: if_splits prod.splits)
    have "collect_attestations H st slot p parent available roots payloads (included @ new) keys' \<noteq> Err e"
      by (rule 1(1) [OF as post n(1-3)]) (rule 1(2))
    with n(4) show False by blast
  qed
qed

text \<open>A block is built whenever every candidate can be applied to the state.\<close>

lemma build_block_returns_block:
  assumes wf: "wf_state st" and len: "length available \<le> VALIDATOR_REGISTRY_LIMIT"
    and ids: "\<forall>a \<in> set available. unat (att_validator_id a) < VALIDATOR_REGISTRY_LIMIT"
    and ok: "\<And>as b. candidate_block slot p parent as = Ok b \<Longrightarrow> \<exists>post. apply_block H st slot b = Ok post"
  shows "\<exists>included b post sigs. build_block H st slot p parent available roots payloads = Ok (b, post, sigs) \<and>
    set included \<subseteq> set available \<and> length sigs \<le> VALIDATOR_REGISTRY_LIMIT \<and>
    select_aggregated_proofs H included payloads = Ok (body_attestations (blk_body b), sigs)"
proof -
  have inc0: "included_ok H available [] []" by (simp add: included_ok_def)
  note c = collect_attestations_ok [OF wf len ids inc0, of slot p parent roots payloads]
  have "collect_attestations H st slot p parent available roots payloads [] [] \<noteq> Err e" for e
    by (rule collect_attestations_no_Err) (rule ok)
  with c obtain included where inc: "collect_attestations H st slot p parent available roots payloads [] [] = Ok included"
    by (cases "collect_attestations H st slot p parent available roots payloads [] []") auto
  with c obtain keys where i: "included_ok H available included keys" by blast
  then have "\<forall>a \<in> set included. unat (att_validator_id a) < VALIDATOR_REGISTRY_LIMIT"
    using ids by (auto simp: included_ok_def)
  from select_aggregated_proofs_Ok [OF this, of H payloads] obtain as ps where
    sel: "select_aggregated_proofs H included payloads = Ok (as, ps)" "length as = length ps" "length as \<le> length included"
    by blast
  have l: "length as \<le> VALIDATOR_REGISTRY_LIMIT" using sel(3) included_ok_length [OF i] len by linarith
  then obtain fb where fb: "candidate_block slot p parent as = Ok fb" "body_attestations (blk_body fb) = as"
    by (simp add: candidate_block_def)
  from ok [OF fb(1)] obtain post where post: "apply_block H st slot fb = Ok post" by blast
  have run: "build_block H st slot p parent available roots payloads =
      Ok (fb\<lparr>blk_state_root := h_state H post\<rparr>, post, ps)"
    by (simp add: build_block_def inc sel(1) fb(1) post)
  show ?thesis
    using run sel l i fb(2) by (intro exI [of _ included] exI [of _ "fb\<lparr>blk_state_root := h_state H post\<rparr>"]
        exI [of _ post] exI [of _ ps]) (simp add: included_ok_def)
qed

section \<open>Properties\<close>

text \<open>
  Building a block on a well-formed state always returns and never panics, when there is at
  most one available attestation per possible validator and their ids fit the registry.
\<close>

lemma build_block_never_panics:
  assumes "wf_state st" and "length available \<le> VALIDATOR_REGISTRY_LIMIT"
    and "\<forall>a \<in> set available. unat (att_validator_id a) < VALIDATOR_REGISTRY_LIMIT"
  shows "build_block H st slot p parent available roots payloads \<noteq> Panic"
proof -
  have inc0: "included_ok H available [] []" by (simp add: included_ok_def)
  note c = collect_attestations_ok [OF assms inc0, of slot p parent roots payloads]
  have "bind_res (select_aggregated_proofs H inc payloads)
      (\<lambda>(as, ps). bind_res (candidate_block slot p parent as) (\<lambda>fb. bind_res (apply_block H st slot fb)
         (\<lambda>post. Ok (fb\<lparr>blk_state_root := h_state H post\<rparr>, post, ps)))) \<noteq> Panic"
    if run: "collect_attestations H st slot p parent available roots payloads [] [] = Ok inc" for inc
  proof -
    from c run obtain keys' where inc: "included_ok H available inc keys'" by blast
    then have ids: "\<forall>a \<in> set inc. unat (att_validator_id a) < VALIDATOR_REGISTRY_LIMIT"
      using assms(3) by (auto simp: included_ok_def)
    from select_aggregated_proofs_Ok [OF ids] obtain as ps where
      "select_aggregated_proofs H inc payloads = Ok (as, ps)" "length as \<le> length inc" by blast
    moreover from this included_ok_length [OF inc] assms(2) have "length as \<le> VALIDATOR_REGISTRY_LIMIT" by linarith
    ultimately show ?thesis
      by (auto simp: candidate_block_def bind_res_Panic_iff apply_block_no_panic [OF assms(1)])
  qed
  with c show ?thesis by (auto simp: build_block_def bind_res_Panic_iff)
qed

text \<open>
  The bit list made from validator ids names exactly those validators; it is as long as the
  greatest id requires and panics exactly when an id does not fit the registry.
\<close>

lemma aggregation_bits_roundtrip:
  "if \<exists>v \<in> set ids. VALIDATOR_REGISTRY_LIMIT \<le> unat v
   then aggregation_bits_from_validator_indices ids = Panic
   else \<exists>bits. aggregation_bits_from_validator_indices ids = Ok bits \<and>
     set (validator_indices bits) = set ids \<and> sorted (map unat (validator_indices bits)) \<and>
     distinct (validator_indices bits)"
proof (cases "\<exists>v \<in> set ids. VALIDATOR_REGISTRY_LIMIT \<le> unat v")
  case True
  then obtain v where v: "v \<in> set ids" "VALIDATOR_REGISTRY_LIMIT \<le> unat v" by blast
  then have "ids \<noteq> []" by auto
  with True bits_of_ids_Panic [OF v] show ?thesis
    by (simp add: aggregation_bits_from_validator_indices_def)
next
  case False
  then have ids: "\<forall>v \<in> set ids. unat v < VALIDATOR_REGISTRY_LIMIT" by (simp add: not_le)
  obtain bits where bits: "aggregation_bits_from_validator_indices ids = Ok bits"
    "set (validator_indices bits) = set ids" "length bits \<le> VALIDATOR_REGISTRY_LIMIT"
    using bits_of_ids_Ok [OF ids]
    by (cases "ids = []") (auto simp: aggregation_bits_from_validator_indices_def validator_indices_def set_positions_def)
  have "map unat (validator_indices bits) = set_positions bits"
    using bits(3) by (intro unat_validator_indices) (simp add: VALIDATOR_REGISTRY_LIMIT_def)
  then have "sorted (map unat (validator_indices bits))" "distinct (validator_indices bits)"
    by (simp, metis distinct_map distinct_set_positions)
  with False bits show ?thesis by auto
qed

end
