(* ===== verification/Tables.thy ===== *)
theory Tables
  imports Keys
begin

text \<open>
  Typed tables: what a table of the persistent backend holds after decoding, in the order of the
  encoded keys, which is the order a scan visits. The locale \<open>keyed_table\<close> states what an encoding
  has to satisfy; it is interpreted on the three key encodings of the store.
\<close>

definition tbl_put :: "('k \<Rightarrow> bytes) \<Rightarrow> 'k \<Rightarrow> 'v \<Rightarrow> ('k \<times> 'v) list \<Rightarrow> ('k \<times> 'v) list" where
  "tbl_put enc k v t =
     filter (\<lambda>(k', _). enc k' < enc k) t @ [(k, v)] @ filter (\<lambda>(k', _). enc k < enc k') t"

definition tbl_put_batch :: "('k \<Rightarrow> bytes) \<Rightarrow> ('k \<times> 'v) list \<Rightarrow> ('k \<times> 'v) list \<Rightarrow> ('k \<times> 'v) list" where
  "tbl_put_batch enc kvs t = fold (\<lambda>(k, v). tbl_put enc k v) kvs t"

definition tbl_delete :: "'k list \<Rightarrow> ('k \<times> 'v) list \<Rightarrow> ('k \<times> 'v) list" where
  "tbl_delete ks t = filter (\<lambda>(k, _). k \<notin> set ks) t"

definition tbl_sorted :: "('k \<Rightarrow> bytes) \<Rightarrow> ('k \<times> 'v) list \<Rightarrow> bool" where
  "tbl_sorted enc t \<longleftrightarrow> sorted_wrt (\<lambda>a b. enc (fst a) < enc (fst b)) t"

lemma tbl_sorted_Nil [simp]: "tbl_sorted enc []"
  by (simp add: tbl_sorted_def)

lemma tbl_sorted_filter [simp]: "tbl_sorted enc t \<Longrightarrow> tbl_sorted enc (filter P t)"
  by (simp add: tbl_sorted_def sorted_wrt_filter)

lemma tbl_sorted_delete [simp]: "tbl_sorted enc t \<Longrightarrow> tbl_sorted enc (tbl_delete ks t)"
  by (simp add: tbl_delete_def)

lemma map_of_tbl_delete [simp]: "map_of (tbl_delete ks t) k = (if k \<in> set ks then None else map_of t k)"
  by (induction t) (auto simp: tbl_delete_def)

lemma map_of_filter_key:
  "map_of (filter (\<lambda>(k, _). P k) t) k = (if P k then map_of t k else None)"
  by (induction t) (auto split: if_splits)

lemma set_tbl_put:
  fixes enc :: "'k \<Rightarrow> bytes"
  assumes "inj enc"
  shows "set (tbl_put enc k (v :: 'v) t) = insert (k, v) {e \<in> set t. fst e \<noteq> k}"
proof -
  have lt: "enc (fst e) < enc k \<or> enc k < enc (fst e) \<longleftrightarrow> fst e \<noteq> k" for e :: "'k \<times> 'v"
    using inj_eq [OF assms, of "fst e" k] linorder_neq_iff [of "enc (fst e)" "enc k"] by simp
  have "set (tbl_put enc k v t) = insert (k, v)
      {e \<in> set t. enc (fst e) < enc k \<or> enc k < enc (fst e)}"
    unfolding tbl_put_def case_prod_unfold set_append set_filter by auto
  then show ?thesis unfolding lt .
qed

lemma tbl_sorted_distinct: "tbl_sorted enc t \<Longrightarrow> distinct (map fst t)"
  by (induction t) (auto simp: tbl_sorted_def)

locale keyed_table =
  fixes enc :: "'k \<Rightarrow> bytes"
  assumes inj_enc: "inj enc"
begin

lemma map_of_put [simp]: "map_of (tbl_put enc k v t) = (map_of t)(k \<mapsto> v)"
proof
  fix q
  have "enc q < enc k \<or> q = k \<or> enc k < enc q" using inj_enc by (metis injD neqE)
  then show "map_of (tbl_put enc k v t) q = ((map_of t)(k \<mapsto> v)) q"
    by (auto simp: tbl_put_def map_of_filter_key map_add_def split: option.splits)
qed

lemma sorted_put [simp]:
  fixes t :: "('k \<times> 'v) list"
  assumes "tbl_sorted enc t"
  shows "tbl_sorted enc (tbl_put enc k v t)"
proof -
  have "sorted_wrt (\<lambda>a b. enc (fst a) < enc (fst b)) (filter P t)" for P :: "'k \<times> 'v \<Rightarrow> bool"
    using assms by (simp add: tbl_sorted_def sorted_wrt_filter)
  then show ?thesis
    by (auto simp: tbl_put_def tbl_sorted_def sorted_wrt_append intro: less_trans)
qed

lemma length_put:
  assumes "tbl_sorted enc t"
  shows "length (tbl_put enc k v t) = (if map_of t k = None then Suc (length t) else length t)"
proof -
  have d: "distinct (map fst t)" "distinct (map fst (tbl_put enc k v t))"
    by (rule tbl_sorted_distinct [OF assms], rule tbl_sorted_distinct [OF sorted_put [OF assms]])
  have "length (tbl_put enc k v t) = card (dom (map_of (tbl_put enc k v t)))"
    using d(2) by (simp only: dom_map_of_conv_image_fst) (metis distinct_card length_map set_map)
  also have "\<dots> = card (insert k (dom (map_of t)))" by simp
  also have "\<dots> = (if map_of t k = None then Suc (card (dom (map_of t))) else card (dom (map_of t)))"
    by (simp add: card_insert_if finite_dom_map_of domIff insert_absorb)
  also have "card (dom (map_of t)) = length t"
    using d(1) by (simp only: dom_map_of_conv_image_fst) (metis distinct_card length_map set_map)
  finally show ?thesis .
qed

lemma map_of_put_batch: "map_of (tbl_put_batch enc kvs t) = map_of t ++ map_of (rev kvs)"
proof (induction kvs arbitrary: t)
  case Nil
  then show ?case by (simp add: tbl_put_batch_def)
next
  case (Cons kv kvs)
  obtain k v where kv: "kv = (k, v)" by (cases kv)
  have "tbl_put_batch enc (kv # kvs) t = tbl_put_batch enc kvs (tbl_put enc k v t)"
    by (simp add: tbl_put_batch_def kv)
  with Cons.IH kv show ?case by (auto simp: map_add_def fun_eq_iff split: option.splits)
qed

lemma sorted_put_batch [simp]: "tbl_sorted enc t \<Longrightarrow> tbl_sorted enc (tbl_put_batch enc kvs t)"
  by (induction kvs arbitrary: t) (auto simp: tbl_put_batch_def)

end

interpretation root_table: keyed_table root_bytes
  by unfold_locales simp

interpretation signature_table: keyed_table encode_signature_key
  by unfold_locales simp

interpretation chain_table: keyed_table encode_live_chain_key
  by unfold_locales simp

text \<open>
  A scan of the live chain visits slots in ascending order, so stopping at the first slot that is
  not below a bound selects exactly the entries below it.
\<close>

lemma live_chain_takeWhile:
  assumes "tbl_sorted encode_live_chain_key t"
  shows "takeWhile (\<lambda>((slot, _), _). slot < bound) t = filter (\<lambda>((slot, _), _). slot < bound) t"
  using assms
proof (induction t)
  case Nil
  then show ?case by simp
next
  case (Cons e t)
  obtain slot root v where e: "e = ((slot, root), v)" by (metis prod.exhaust)
  have tl: "tbl_sorted encode_live_chain_key t" using Cons.prems by (simp add: tbl_sorted_def)
  have le: "slot \<le> slot'" if "((slot', root'), v') \<in> set t" for slot' root' v'
    using Cons.prems that e
    by (auto simp: tbl_sorted_def encode_live_chain_key_less_iff dest!: bspec)
  show ?case
  proof (cases "slot < bound")
    case True
    with Cons.IH [OF tl] e show ?thesis by simp
  next
    case False
    with le have "filter (\<lambda>((slot, _), _). slot < bound) t = []"
      by (force simp: filter_empty_conv)
    with False e show ?thesis by simp
  qed
qed

end
