(* ===== verification/Storage.thy ===== *)
theory Storage
  imports Tables Payload_Buffer Example_Chain
begin

text \<open>
  The fork-choice store of \<open>crates/storage/src/store.rs\<close>. The persistent tables are the fields of
  \<open>tables\<close>, each in the order of its encoded keys (the iteration order of the persistent backend);
  the metadata entries, written once at initialization and updated afterwards, and the in-memory
  buffers are the further fields of \<open>store\<close>. Encoding of values and failures of the backend have
  no counterpart: the code stops on a backend error, and what it decodes is what it encoded.

  An \<open>&mut self\<close> method maps a store to a store; a method that counts what it removed returns the
  count as well. The unstable sort by slot is a parameter, of which only the ordering by slot and
  the permutation are used.
\<close>

section \<open>State\<close>

record tables =
  t_block_headers :: "(H256 \<times> block_header) list"
  t_block_bodies :: "(H256 \<times> block_body) list"
  t_block_signatures :: "(H256 \<times> block_signatures_with_attestation) list"
  t_states :: "(H256 \<times> state) list"
  t_gossip_signatures :: "(signature_key \<times> stored_signature) list"
  t_attestation_data_by_root :: "(H256 \<times> attestation_data) list"
  t_live_chain :: "((u64 \<times> H256) \<times> H256) list"

record store = tables +
  s_time :: u64
  s_config :: chain_config
  s_head :: H256
  s_safe_target :: H256
  s_latest_justified :: checkpoint
  s_latest_finalized :: checkpoint
  s_new_payloads :: payload_buffer
  s_known_payloads :: payload_buffer
  s_gossip_signatures_count :: nat

record fork_checkpoints =
  fc_head :: H256
  fc_justified :: "checkpoint option"
  fc_finalized :: "checkpoint option"

definition head_only :: "H256 \<Rightarrow> fork_checkpoints" where
  "head_only head = \<lparr>fc_head = head, fc_justified = None, fc_finalized = None\<rparr>"

definition fork_checkpoints_new ::
  "H256 \<Rightarrow> checkpoint option \<Rightarrow> checkpoint option \<Rightarrow> fork_checkpoints" where
  "fork_checkpoints_new head justified finalized =
     \<lparr>fc_head = head, fc_justified = justified, fc_finalized = finalized\<rparr>"

definition BLOCKS_TO_KEEP :: nat where
  "BLOCKS_TO_KEEP = 21600"

definition STATES_TO_KEEP :: nat where
  "STATES_TO_KEEP = 3000"

definition EMPTY_BODY_ROOT :: "hashing \<Rightarrow> H256" where
  "EMPTY_BODY_ROOT H = h_body H block_body_default"

section \<open>Initialization\<close>

definition empty_tables :: tables where
  "empty_tables = \<lparr>t_block_headers = [], t_block_bodies = [], t_block_signatures = [], t_states = [],
     t_gossip_signatures = [], t_attestation_data_by_root = [], t_live_chain = []\<rparr>"

definition count_gossip_signatures :: "'a tables_scheme \<Rightarrow> nat" where
  "count_gossip_signatures db = length (t_gossip_signatures db)"

definition init_store ::
  "hashing \<Rightarrow> tables \<Rightarrow> state \<Rightarrow> block_body option \<Rightarrow> (store, 'e) result" where
  "init_store H db anchor_state0 anchor_body =
     (let original_state_root = hdr_state_root (st_latest_block_header anchor_state0);
          zeroed = anchor_state0\<lparr>st_latest_block_header :=
                     (st_latest_block_header anchor_state0)\<lparr>hdr_state_root := 0\<rparr>\<rparr>;
          anchor_state_root = h_state H zeroed
      in if original_state_root = 0 \<or> original_state_root = anchor_state_root
         then
           (let header = (st_latest_block_header zeroed)\<lparr>hdr_state_root := anchor_state_root\<rparr>;
                anchor_state = zeroed\<lparr>st_latest_block_header := header\<rparr>;
                anchor_block_root = h_header H header;
                anchor_checkpoint = \<lparr>cp_root = anchor_block_root, cp_slot = hdr_slot header\<rparr>
            in Ok \<lparr>t_block_headers = tbl_put root_bytes anchor_block_root header (t_block_headers db),
                   t_block_bodies =
                     (case anchor_body of
                        Some body \<Rightarrow> tbl_put root_bytes anchor_block_root body (t_block_bodies db)
                      | None \<Rightarrow> t_block_bodies db),
                   t_block_signatures = t_block_signatures db,
                   t_states = tbl_put root_bytes anchor_block_root anchor_state (t_states db),
                   t_gossip_signatures = t_gossip_signatures db,
                   t_attestation_data_by_root = t_attestation_data_by_root db,
                   t_live_chain = tbl_put encode_live_chain_key (hdr_slot header, anchor_block_root)
                     (hdr_parent_root header) (t_live_chain db),
                   s_time = 0, s_config = st_config anchor_state,
                   s_head = anchor_block_root, s_safe_target = anchor_block_root,
                   s_latest_justified = anchor_checkpoint, s_latest_finalized = anchor_checkpoint,
                   s_new_payloads = buffer_new NEW_PAYLOAD_CAP,
                   s_known_payloads = buffer_new AGGREGATED_PAYLOAD_CAP,
                   s_gossip_signatures_count = count_gossip_signatures db\<rparr>)
         else Panic)"

definition from_anchor_state :: "hashing \<Rightarrow> tables \<Rightarrow> state \<Rightarrow> (store, 'e) result" where
  "from_anchor_state H db anchor_state = init_store H db anchor_state None"

definition get_forkchoice_store ::
  "hashing \<Rightarrow> tables \<Rightarrow> state \<Rightarrow> block \<Rightarrow> (store, 'e) result" where
  "get_forkchoice_store H db anchor_state anchor_block =
     (if (st_latest_block_header anchor_state)\<lparr>hdr_state_root := 0\<rparr> =
         (block_header_of H anchor_block)\<lparr>hdr_state_root := 0\<rparr>
      then init_store H db anchor_state (Some (blk_body anchor_block))
      else Panic)"

section \<open>Metadata\<close>

definition set_time :: "u64 \<Rightarrow> store \<Rightarrow> store" where
  "set_time time s = s\<lparr>s_time := time\<rparr>"

definition set_safe_target :: "H256 \<Rightarrow> store \<Rightarrow> store" where
  "set_safe_target safe_target s = s\<lparr>s_safe_target := safe_target\<rparr>"

section \<open>Pruning\<close>

definition prune_live_chain :: "u64 \<Rightarrow> store \<Rightarrow> nat \<times> store" where
  "prune_live_chain finalized_slot s =
     (let keys_to_delete =
            map fst (takeWhile (\<lambda>((slot, _), _). slot < finalized_slot) (t_live_chain s))
      in if keys_to_delete = [] then (0, s)
         else (length keys_to_delete,
               s\<lparr>t_live_chain := tbl_delete keys_to_delete (t_live_chain s)\<rparr>))"

definition prune_by_slot :: "('v \<Rightarrow> u64) \<Rightarrow> u64 \<Rightarrow> ('k \<times> 'v) list \<Rightarrow> nat \<times> ('k \<times> 'v) list" where
  "prune_by_slot get_slot finalized_slot t =
     (let to_delete = map fst (filter (\<lambda>(_, v). get_slot v \<le> finalized_slot) t)
      in (length to_delete, if to_delete = [] then t else tbl_delete to_delete t))"

definition prune_gossip_signatures :: "u64 \<Rightarrow> store \<Rightarrow> nat \<times> store" where
  "prune_gossip_signatures finalized_slot s =
     (case prune_by_slot ss_slot finalized_slot (t_gossip_signatures s) of
        (pruned, t) \<Rightarrow>
          (pruned, s\<lparr>t_gossip_signatures := t,
                     s_gossip_signatures_count := s_gossip_signatures_count s - pruned\<rparr>))"

definition prune_attestation_data_by_root :: "u64 \<Rightarrow> store \<Rightarrow> nat \<times> store" where
  "prune_attestation_data_by_root finalized_slot s =
     (case prune_by_slot ad_slot finalized_slot (t_attestation_data_by_root s) of
        (pruned, t) \<Rightarrow> (pruned, s\<lparr>t_attestation_data_by_root := t\<rparr>))"

text \<open>The keys beyond the retention window, by descending slot, that are not protected.\<close>

definition keys_beyond ::
  "((H256 \<times> u64) list \<Rightarrow> (H256 \<times> u64) list) \<Rightarrow> nat \<Rightarrow> H256 list \<Rightarrow>
   (H256 \<times> block_header) list \<Rightarrow> H256 list" where
  "keys_beyond sort_desc keep protected_roots headers =
     (let entries = map (\<lambda>(root, header). (root, hdr_slot header)) headers
      in if length entries \<le> keep then []
         else map fst (filter (\<lambda>(key, _). key \<notin> set protected_roots)
                (drop keep (sort_desc entries))))"

definition prune_old_states ::
  "((H256 \<times> u64) list \<Rightarrow> (H256 \<times> u64) list) \<Rightarrow> H256 list \<Rightarrow> store \<Rightarrow> nat \<times> store" where
  "prune_old_states sort_desc protected_roots s =
     (let keys = keys_beyond sort_desc STATES_TO_KEEP protected_roots (t_block_headers s)
      in (length keys, if keys = [] then s else s\<lparr>t_states := tbl_delete keys (t_states s)\<rparr>))"

definition prune_old_blocks ::
  "((H256 \<times> u64) list \<Rightarrow> (H256 \<times> u64) list) \<Rightarrow> H256 list \<Rightarrow> store \<Rightarrow> nat \<times> store" where
  "prune_old_blocks sort_desc protected_roots s =
     (let keys = keys_beyond sort_desc BLOCKS_TO_KEEP protected_roots (t_block_headers s)
      in (length keys,
          if keys = [] then s
          else s\<lparr>t_block_headers := tbl_delete keys (t_block_headers s),
                 t_block_bodies := tbl_delete keys (t_block_bodies s),
                 t_block_signatures := tbl_delete keys (t_block_signatures s)\<rparr>))"

definition prune_old_data ::
  "((H256 \<times> u64) list \<Rightarrow> (H256 \<times> u64) list) \<Rightarrow> store \<Rightarrow> store" where
  "prune_old_data sort_desc s =
     (let protected_roots = [cp_root (s_latest_finalized s), cp_root (s_latest_justified s)]
      in snd (prune_old_blocks sort_desc protected_roots
               (snd (prune_old_states sort_desc protected_roots s))))"

section \<open>Checkpoints\<close>

definition update_checkpoints :: "fork_checkpoints \<Rightarrow> store \<Rightarrow> store" where
  "update_checkpoints fc s =
     (let old_finalized_slot = cp_slot (s_latest_finalized s);
          s1 = s\<lparr>s_head := fc_head fc,
                 s_latest_justified :=
                   (case fc_justified fc of Some cp \<Rightarrow> cp | None \<Rightarrow> s_latest_justified s),
                 s_latest_finalized :=
                   (case fc_finalized fc of Some cp \<Rightarrow> cp | None \<Rightarrow> s_latest_finalized s)\<rparr>
      in case fc_finalized fc of
           Some finalized \<Rightarrow>
             if cp_slot finalized > old_finalized_slot
             then snd (prune_attestation_data_by_root (cp_slot finalized)
                    (snd (prune_gossip_signatures (cp_slot finalized)
                      (snd (prune_live_chain (cp_slot finalized) s1)))))
             else s1
         | None \<Rightarrow> s1)"

section \<open>Blocks and states\<close>

definition get_live_chain :: "'a tables_scheme \<Rightarrow> (H256 \<times> (u64 \<times> H256)) list" where
  "get_live_chain s =
     collect_map (map (\<lambda>((slot, root), parent_root). (root, (slot, parent_root))) (t_live_chain s))"

definition get_block_roots :: "'a tables_scheme \<Rightarrow> H256 list" where
  "get_block_roots s = remdups (map (\<lambda>((_, root), _). root) (t_live_chain s))"

definition get_block_header :: "'a tables_scheme \<Rightarrow> H256 \<Rightarrow> block_header option" where
  "get_block_header s root = map_of (t_block_headers s) root"

definition write_signed_block :: "hashing \<Rightarrow> H256 \<Rightarrow> signed_block_with_attestation \<Rightarrow> store \<Rightarrow> store" where
  "write_signed_block H root signed_block s =
     (let b = bwa_block (sb_message signed_block);
          signatures = \<lparr>bsa_proposer_attestation = bwa_proposer_attestation (sb_message signed_block),
                        bsa_signatures = sb_signature signed_block\<rparr>;
          header = block_header_of H b;
          s1 = s\<lparr>t_block_headers := tbl_put root_bytes root header (t_block_headers s)\<rparr>;
          s2 = (if hdr_body_root header \<noteq> EMPTY_BODY_ROOT H
                then s1\<lparr>t_block_bodies := tbl_put root_bytes root (blk_body b) (t_block_bodies s1)\<rparr>
                else s1)
      in s2\<lparr>t_block_signatures := tbl_put root_bytes root signatures (t_block_signatures s2)\<rparr>)"

definition insert_pending_block ::
  "hashing \<Rightarrow> H256 \<Rightarrow> signed_block_with_attestation \<Rightarrow> store \<Rightarrow> store" where
  "insert_pending_block H root signed_block s = write_signed_block H root signed_block s"

definition insert_signed_block ::
  "hashing \<Rightarrow> H256 \<Rightarrow> signed_block_with_attestation \<Rightarrow> store \<Rightarrow> store" where
  "insert_signed_block H root signed_block s =
     (let s1 = write_signed_block H root signed_block s;
          b = bwa_block (sb_message signed_block)
      in s1\<lparr>t_live_chain := tbl_put encode_live_chain_key (blk_slot b, root) (blk_parent_root b)
              (t_live_chain s1)\<rparr>)"

definition get_signed_block ::
  "hashing \<Rightarrow> 'a tables_scheme \<Rightarrow> H256 \<Rightarrow> signed_block_with_attestation option" where
  "get_signed_block H s root =
     Option.bind (map_of (t_block_headers s) root)
       (\<lambda>header. Option.bind (map_of (t_block_signatures s) root)
         (\<lambda>signatures. Option.bind
           (if hdr_body_root header = EMPTY_BODY_ROOT H then Some block_body_default
            else map_of (t_block_bodies s) root)
           (\<lambda>body. Some (to_signed_block signatures (from_header_and_body header body)))))"

definition get_state :: "'a tables_scheme \<Rightarrow> H256 \<Rightarrow> state option" where
  "get_state s root = map_of (t_states s) root"

definition has_state :: "'a tables_scheme \<Rightarrow> H256 \<Rightarrow> bool" where
  "has_state s root = (map_of (t_states s) root \<noteq> None)"

definition insert_state :: "H256 \<Rightarrow> state \<Rightarrow> store \<Rightarrow> store" where
  "insert_state root st s = s\<lparr>t_states := tbl_put root_bytes root st (t_states s)\<rparr>"

section \<open>Attestation data\<close>

definition insert_attestation_data_by_root :: "H256 \<Rightarrow> attestation_data \<Rightarrow> store \<Rightarrow> store" where
  "insert_attestation_data_by_root root data s =
     s\<lparr>t_attestation_data_by_root := tbl_put root_bytes root data (t_attestation_data_by_root s)\<rparr>"

definition insert_attestation_data_by_root_batch ::
  "(H256 \<times> attestation_data) list \<Rightarrow> store \<Rightarrow> store" where
  "insert_attestation_data_by_root_batch entries s =
     (if entries = [] then s
      else s\<lparr>t_attestation_data_by_root :=
               tbl_put_batch root_bytes entries (t_attestation_data_by_root s)\<rparr>)"

definition get_attestation_data_by_root :: "'a tables_scheme \<Rightarrow> H256 \<Rightarrow> attestation_data option" where
  "get_attestation_data_by_root s root = map_of (t_attestation_data_by_root s) root"

text \<open>One round of the loop: the lookup goes through a cache, then the later vote is kept.\<close>

definition extract_step ::
  "(H256 \<Rightarrow> attestation_data option) \<Rightarrow> signature_key \<Rightarrow>
   (H256 \<times> attestation_data option) list \<times> (u64 \<times> attestation_data) list \<Rightarrow>
   (H256 \<times> attestation_data option) list \<times> (u64 \<times> attestation_data) list" where
  "extract_step lookup = (\<lambda>(validator_id, data_root) (data_cache, res).
     (let cache = or_insert data_root (lookup data_root) data_cache
      in case the (map_of cache data_root) of
           None \<Rightarrow> (cache, res)
         | Some data \<Rightarrow>
             (cache,
              if (case map_of res validator_id of
                    None \<Rightarrow> True | Some existing \<Rightarrow> ad_slot existing < ad_slot data)
              then AList.update validator_id data res else res)))"

definition extract_latest_attestations ::
  "'a tables_scheme \<Rightarrow> signature_key list \<Rightarrow> (u64 \<times> attestation_data) list" where
  "extract_latest_attestations s keys =
     snd (fold (extract_step (get_attestation_data_by_root s)) keys ([], []))"

definition extract_latest_known_attestations :: "store \<Rightarrow> (u64 \<times> attestation_data) list" where
  "extract_latest_known_attestations s =
     extract_latest_attestations s (buffer_unique_keys (s_known_payloads s))"

section \<open>Aggregated payloads\<close>

definition iter_known_aggregated_payloads ::
  "store \<Rightarrow> (signature_key \<times> stored_aggregated_payload list) list" where
  "iter_known_aggregated_payloads s = buffer_grouped (s_known_payloads s)"

definition iter_known_aggregated_payload_keys :: "store \<Rightarrow> signature_key list" where
  "iter_known_aggregated_payload_keys s = buffer_unique_keys (s_known_payloads s)"

definition insert_known_aggregated_payload ::
  "signature_key \<Rightarrow> stored_aggregated_payload \<Rightarrow> store \<Rightarrow> store" where
  "insert_known_aggregated_payload key payload s =
     s\<lparr>s_known_payloads := buffer_push (key, payload) (s_known_payloads s)\<rparr>"

definition insert_known_aggregated_payloads_batch ::
  "(signature_key \<times> stored_aggregated_payload) list \<Rightarrow> store \<Rightarrow> store" where
  "insert_known_aggregated_payloads_batch entries s =
     s\<lparr>s_known_payloads := buffer_push_batch entries (s_known_payloads s)\<rparr>"

definition iter_new_aggregated_payloads ::
  "store \<Rightarrow> (signature_key \<times> stored_aggregated_payload list) list" where
  "iter_new_aggregated_payloads s = buffer_grouped (s_new_payloads s)"

definition iter_new_aggregated_payload_keys :: "store \<Rightarrow> signature_key list" where
  "iter_new_aggregated_payload_keys s = buffer_unique_keys (s_new_payloads s)"

definition insert_new_aggregated_payload ::
  "signature_key \<Rightarrow> stored_aggregated_payload \<Rightarrow> store \<Rightarrow> store" where
  "insert_new_aggregated_payload key payload s =
     s\<lparr>s_new_payloads := buffer_push (key, payload) (s_new_payloads s)\<rparr>"

definition insert_new_aggregated_payloads_batch ::
  "(signature_key \<times> stored_aggregated_payload) list \<Rightarrow> store \<Rightarrow> store" where
  "insert_new_aggregated_payloads_batch entries s =
     s\<lparr>s_new_payloads := buffer_push_batch entries (s_new_payloads s)\<rparr>"

definition promote_new_aggregated_payloads :: "store \<Rightarrow> store" where
  "promote_new_aggregated_payloads s =
     (case buffer_drain (s_new_payloads s) of
        (drained, b) \<Rightarrow> s\<lparr>s_new_payloads := b,
                          s_known_payloads := buffer_push_batch drained (s_known_payloads s)\<rparr>)"

definition new_aggregated_payloads_count :: "store \<Rightarrow> nat" where
  "new_aggregated_payloads_count s = buffer_len (s_new_payloads s)"

definition known_aggregated_payloads_count :: "store \<Rightarrow> nat" where
  "known_aggregated_payloads_count s = buffer_len (s_known_payloads s)"

section \<open>Gossip signatures\<close>

definition delete_gossip_signatures :: "signature_key list \<Rightarrow> store \<Rightarrow> store" where
  "delete_gossip_signatures keys s =
     (if keys = [] then s
      else s\<lparr>t_gossip_signatures := tbl_delete keys (t_gossip_signatures s),
             s_gossip_signatures_count := s_gossip_signatures_count s - length keys\<rparr>)"

definition iter_gossip_signatures :: "'a tables_scheme \<Rightarrow> (signature_key \<times> stored_signature) list" where
  "iter_gossip_signatures s = t_gossip_signatures s"

definition insert_gossip_signature ::
  "('pk, 'sig, 'sk) crypto \<Rightarrow> H256 \<Rightarrow> u64 \<Rightarrow> u64 \<Rightarrow> 'sig \<Rightarrow> store \<Rightarrow> store" where
  "insert_gossip_signature C data_root slot validator_id signature s =
     (let key = (validator_id, data_root);
          is_new = (map_of (t_gossip_signatures s) key = None);
          s1 = s\<lparr>t_gossip_signatures := tbl_put encode_signature_key key
                  (stored_signature_new C slot signature) (t_gossip_signatures s)\<rparr>
      in if is_new then s1\<lparr>s_gossip_signatures_count := s_gossip_signatures_count s1 + 1\<rparr> else s1)"

section \<open>Derived accessors\<close>

definition head_slot :: "store \<Rightarrow> (u64, 'e) result" where
  "head_slot s = bind_res (expect (get_block_header s (s_head s))) (\<lambda>h. Ok (hdr_slot h))"

definition safe_target_slot :: "store \<Rightarrow> (u64, 'e) result" where
  "safe_target_slot s =
     bind_res (expect (get_block_header s (s_safe_target s))) (\<lambda>h. Ok (hdr_slot h))"

definition head_state :: "store \<Rightarrow> (state, 'e) result" where
  "head_state s = expect (get_state s (s_head s))"

end
