(* ===== verification/Storage_Properties.thy ===== *)
theory Storage_Properties
  imports Storage "HOL-Library.Multiset"
begin

text \<open>
  The invariant of the store (tables in key order, bounded buffers, an exact signature counter),
  that every operation keeps it, and what the operations do: blocks are read back as they were
  written, pruning removes exactly what is below the finalized slot, retention keeps the newest and
  the protected entries, and the latest vote of each validator is extracted.
\<close>

section \<open>The invariant\<close>

definition tables_ok :: "'a tables_scheme \<Rightarrow> bool" where
  "tables_ok s \<longleftrightarrow>
     tbl_sorted root_bytes (t_block_headers s) \<and> tbl_sorted root_bytes (t_block_bodies s) \<and>
     tbl_sorted root_bytes (t_block_signatures s) \<and> tbl_sorted root_bytes (t_states s) \<and>
     tbl_sorted encode_signature_key (t_gossip_signatures s) \<and>
     tbl_sorted root_bytes (t_attestation_data_by_root s) \<and>
     tbl_sorted encode_live_chain_key (t_live_chain s)"

definition store_ok :: "store \<Rightarrow> bool" where
  "store_ok s \<longleftrightarrow> tables_ok s \<and>
     pb_capacity (s_new_payloads s) = NEW_PAYLOAD_CAP \<and> buffer_ok (s_new_payloads s) \<and>
     pb_capacity (s_known_payloads s) = AGGREGATED_PAYLOAD_CAP \<and> buffer_ok (s_known_payloads s) \<and>
     s_gossip_signatures_count s = length (t_gossip_signatures s)"

text \<open>
  The steps of the store. The callers delete gossip signatures they have just read, so the keys
  of a deletion are present and distinct. The sort by slot is any one that orders by descending
  slot and permutes its input.
\<close>

definition sorts_desc :: "(('k \<times> u64) list \<Rightarrow> ('k \<times> u64) list) \<Rightarrow> bool" where
  "sorts_desc f \<longleftrightarrow> (\<forall>xs. mset (f xs) = mset xs \<and> sorted_wrt (\<lambda>a b. snd b \<le> snd a) (f xs))"

inductive store_step :: "('pk, 'sig, 'sk) crypto \<Rightarrow> store \<Rightarrow> store \<Rightarrow> bool" for C where
  "store_step C s (set_time t s)"
| "store_step C s (set_safe_target r s)"
| "store_step C s (update_checkpoints fc s)"
| "sorts_desc f \<Longrightarrow> store_step C s (prune_old_data f s)"
| "store_step C s (insert_pending_block H root sb s)"
| "store_step C s (insert_signed_block H root sb s)"
| "store_step C s (insert_state root st s)"
| "store_step C s (insert_attestation_data_by_root root d s)"
| "store_step C s (insert_attestation_data_by_root_batch entries s)"
| "store_step C s (insert_known_aggregated_payload key payload s)"
| "store_step C s (insert_known_aggregated_payloads_batch payloads s)"
| "store_step C s (insert_new_aggregated_payload key payload s)"
| "store_step C s (insert_new_aggregated_payloads_batch payloads s)"
| "store_step C s (promote_new_aggregated_payloads s)"
| "distinct keys \<Longrightarrow> set keys \<subseteq> dom (map_of (t_gossip_signatures s)) \<Longrightarrow>
     store_step C s (delete_gossip_signatures keys s)"
| "store_step C s (insert_gossip_signature C data_root slot v sig s)"

section \<open>Deletion and pruning of tables\<close>

lemma sorts_desc_sort_key: "sorts_desc (\<lambda>xs :: ('k \<times> u64) list. rev (sort_key snd xs))"
proof -
  have "sorted_wrt (\<lambda>a b. snd b \<le> snd a) (rev (sort_key snd xs))" for xs :: "('k \<times> u64) list"
    using sorted_sort_key [of snd xs] by (simp add: sorted_wrt_rev sorted_map)
  then show ?thesis unfolding sorts_desc_def by simp
qed

lemma length_tbl_delete:
  assumes "distinct (map fst t)" and "distinct ks" and "set ks \<subseteq> fst ` set t"
  shows "length (tbl_delete ks t) = length t - length ks"
proof -
  have d: "distinct (map fst (tbl_delete ks t))"
    using assms(1) by (simp add: tbl_delete_def distinct_map_filter)
  have "fst ` set (tbl_delete ks t) = fst ` set t - set ks" by (force simp: tbl_delete_def)
  then have "card (fst ` set (tbl_delete ks t)) = card (fst ` set t) - card (set ks)"
    using assms(3) by (simp add: card_Diff_subset)
  with d assms(1,2) show ?thesis by (metis distinct_card length_map set_map)
qed

lemma prune_by_slot_filter:
  assumes "distinct (map fst t)"
  shows "prune_by_slot get bound t =
    (length (filter (\<lambda>(_, v). get v \<le> bound) t), filter (\<lambda>(_, v). \<not> get v \<le> bound) t)"
proof -
  have "k \<in> fst ` set (filter (\<lambda>(_, v). get v \<le> bound) t) \<longleftrightarrow> get v \<le> bound"
    if "(k, v) \<in> set t" for k v
    using that by (auto simp: image_iff dest: eq_key_imp_eq_value [OF assms])
  then have "tbl_delete (map fst (filter (\<lambda>(_, v). get v \<le> bound) t)) t =
      filter (\<lambda>(_, v). \<not> get v \<le> bound) t"
    unfolding tbl_delete_def by (intro filter_cong) (auto simp del: set_filter)
  moreover have "filter (\<lambda>(_, v). \<not> get v \<le> bound) t = t"
    if "filter (\<lambda>(_, v). get v \<le> bound) t = []"
    using that by (auto simp: filter_empty_conv intro!: filter_True)
  ultimately show ?thesis by (auto simp: prune_by_slot_def Let_def)
qed

lemma prune_live_chain_filter:
  assumes "tbl_sorted encode_live_chain_key (t_live_chain s)"
  shows "snd (prune_live_chain bound s) =
    s\<lparr>t_live_chain := filter (\<lambda>((slot, _), _). \<not> slot < bound) (t_live_chain s)\<rparr>"
proof -
  let ?t = "t_live_chain s"
  let ?ks = "map fst (takeWhile (\<lambda>((slot, _), _). slot < bound) ?t)"
  have ks: "set ?ks = fst ` {e \<in> set ?t. fst (fst e) < bound}"
    unfolding live_chain_takeWhile [OF assms] by (auto simp: case_prod_unfold)
  have "tbl_delete ?ks ?t = filter (\<lambda>((slot, _), _). \<not> slot < bound) ?t"
    unfolding tbl_delete_def ks by (rule filter_cong [OF refl]) (auto simp: image_iff)
  moreover have "filter (\<lambda>((slot, _), _). \<not> slot < bound) ?t = ?t" if "?ks = []"
    using that ks by (auto intro!: filter_True)
  ultimately show ?thesis by (auto simp: prune_live_chain_def Let_def)
qed

lemma length_filter_not: "length (filter (\<lambda>x. \<not> P x) xs) = length xs - length (filter P xs)"
  using sum_length_filter_compl [of P xs] by simp

section \<open>Every step keeps the invariant\<close>

lemma tables_ok_prune [simp]:
  assumes "tables_ok s"
  shows "tables_ok (snd (prune_live_chain b s))" "tables_ok (snd (prune_gossip_signatures b s))"
    "tables_ok (snd (prune_attestation_data_by_root b s))"
  using assms tbl_sorted_distinct
  by (fastforce simp: tables_ok_def prune_live_chain_filter prune_gossip_signatures_def
      prune_attestation_data_by_root_def prune_by_slot_filter)+

lemma prune_gossip_count:
  assumes "tables_ok s" and "s_gossip_signatures_count s = length (t_gossip_signatures s)"
  shows "s_gossip_signatures_count (snd (prune_gossip_signatures b s)) =
    length (t_gossip_signatures (snd (prune_gossip_signatures b s)))"
proof -
  have "distinct (map fst (t_gossip_signatures s))"
    using assms(1) tbl_sorted_distinct unfolding tables_ok_def by blast
  with assms(2) show ?thesis
    by (simp add: prune_gossip_signatures_def prune_by_slot_filter case_prod_unfold length_filter_not)
qed

lemma prune_fields [simp]:
  "s_new_payloads (snd (prune_live_chain b s)) = s_new_payloads s"
  "s_known_payloads (snd (prune_live_chain b s)) = s_known_payloads s"
  "s_gossip_signatures_count (snd (prune_live_chain b s)) = s_gossip_signatures_count s"
  "t_gossip_signatures (snd (prune_live_chain b s)) = t_gossip_signatures s"
  "s_new_payloads (snd (prune_gossip_signatures b s)) = s_new_payloads s"
  "s_known_payloads (snd (prune_gossip_signatures b s)) = s_known_payloads s"
  "s_new_payloads (snd (prune_attestation_data_by_root b s)) = s_new_payloads s"
  "s_known_payloads (snd (prune_attestation_data_by_root b s)) = s_known_payloads s"
  "s_gossip_signatures_count (snd (prune_attestation_data_by_root b s)) = s_gossip_signatures_count s"
  "t_gossip_signatures (snd (prune_attestation_data_by_root b s)) = t_gossip_signatures s"
  by (simp_all add: prune_live_chain_def prune_gossip_signatures_def
      prune_attestation_data_by_root_def Let_def case_prod_unfold)

lemma store_ok_metadata [simp]:
  "store_ok (s\<lparr>s_head := h\<rparr>) = store_ok s" "store_ok (s\<lparr>s_latest_justified := j\<rparr>) = store_ok s"
  "store_ok (s\<lparr>s_latest_finalized := j\<rparr>) = store_ok s" "store_ok (s\<lparr>s_time := t\<rparr>) = store_ok s"
  "store_ok (s\<lparr>s_safe_target := h\<rparr>) = store_ok s"
  by (simp_all add: store_ok_def tables_ok_def)

lemma store_ok_prune_finalized:
  assumes "store_ok s"
  shows "store_ok (snd (prune_attestation_data_by_root b
    (snd (prune_gossip_signatures b (snd (prune_live_chain b s))))))"
proof -
  have "tables_ok s" using assms by (simp add: store_ok_def)
  then have "s_gossip_signatures_count (snd (prune_gossip_signatures b (snd (prune_live_chain b s)))) =
    length (t_gossip_signatures (snd (prune_gossip_signatures b (snd (prune_live_chain b s)))))"
    using assms by (intro prune_gossip_count) (simp_all add: store_ok_def)
  then show ?thesis using assms by (simp add: store_ok_def)
qed

lemma store_ok_update_checkpoints: "store_ok s \<Longrightarrow> store_ok (update_checkpoints fc s)"
  by (simp add: update_checkpoints_def Let_def store_ok_prune_finalized split: option.splits)

lemma store_ok_write_signed_block: "store_ok s \<Longrightarrow> store_ok (write_signed_block H root sb s)"
  by (simp add: store_ok_def tables_ok_def write_signed_block_def Let_def)

lemma store_ok_insert_signed_block:
  assumes "store_ok s"
  shows "store_ok (insert_signed_block H root sb s)"
  using store_ok_write_signed_block [OF assms, of H root sb]
  by (simp add: insert_signed_block_def Let_def store_ok_def tables_ok_def)

lemma store_ok_insert_data:
  assumes "store_ok s"
  shows "store_ok (insert_state root st s)" "store_ok (insert_attestation_data_by_root r d s)"
    "store_ok (insert_attestation_data_by_root_batch es s)"
  using assms by (simp_all add: store_ok_def tables_ok_def insert_state_def
      insert_attestation_data_by_root_def insert_attestation_data_by_root_batch_def)

lemma store_ok_delete_gossip:
  assumes "store_ok s" and "distinct keys" and "set keys \<subseteq> dom (map_of (t_gossip_signatures s))"
  shows "store_ok (delete_gossip_signatures keys s)"
proof -
  have "distinct (map fst (t_gossip_signatures s))"
    using assms(1) tbl_sorted_distinct unfolding store_ok_def tables_ok_def by blast
  with assms have "length (tbl_delete keys (t_gossip_signatures s)) =
      length (t_gossip_signatures s) - length keys"
    by (intro length_tbl_delete) (simp_all add: dom_map_of_conv_image_fst)
  with assms(1) show ?thesis
    by (simp add: delete_gossip_signatures_def store_ok_def tables_ok_def)
qed

lemma store_ok_insert_gossip: "store_ok s \<Longrightarrow> store_ok (insert_gossip_signature C dr slot v sig s)"
  by (simp add: insert_gossip_signature_def Let_def store_ok_def tables_ok_def signature_table.length_put)

lemma store_ok_prune_old: "store_ok s \<Longrightarrow> store_ok (prune_old_data f s)"
  by (simp add: prune_old_data_def prune_old_states_def prune_old_blocks_def Let_def store_ok_def tables_ok_def)

lemma buffer_push_capacity: "pb_capacity (buffer_push e b) = pb_capacity b"
  by (simp add: buffer_push_def Let_def)

lemma buffer_push_batch_capacity: "pb_capacity (buffer_push_batch es b) = pb_capacity b"
  unfolding buffer_push_batch_def by (induction es arbitrary: b) (simp_all add: buffer_push_capacity)

lemma buffer_push_batch_ok: "buffer_ok b \<Longrightarrow> buffer_ok (buffer_push_batch es b)"
  using buffer_push_batch_run by blast

lemma buffer_ok_cleared: "buffer_ok b \<Longrightarrow> buffer_ok (b\<lparr>pb_entries := []\<rparr>)"
  by (simp add: buffer_ok_def)

lemma store_ok_payloads:
  assumes "store_ok s"
  shows "store_ok (insert_known_aggregated_payload key payload s)"
    and "store_ok (insert_known_aggregated_payloads_batch payloads s)"
    and "store_ok (insert_new_aggregated_payload key payload s)"
    and "store_ok (insert_new_aggregated_payloads_batch payloads s)"
    and "store_ok (promote_new_aggregated_payloads s)"
  using assms
  by (simp_all add: store_ok_def tables_ok_def insert_known_aggregated_payload_def
      insert_known_aggregated_payloads_batch_def insert_new_aggregated_payload_def
      insert_new_aggregated_payloads_batch_def promote_new_aggregated_payloads_def buffer_drain_def
      buffer_push_ok buffer_push_batch_ok buffer_push_capacity buffer_push_batch_capacity
      buffer_ok_cleared)

lemma store_step_ok: "store_step C s s' \<Longrightarrow> store_ok s \<Longrightarrow> store_ok s'"
  by (induction rule: store_step.induct)
    (simp_all add: store_ok_update_checkpoints store_ok_prune_old store_ok_payloads
      store_ok_delete_gossip store_ok_insert_gossip store_ok_write_signed_block
      store_ok_insert_signed_block store_ok_insert_data insert_pending_block_def
      set_time_def set_safe_target_def)

lemma init_store_ok:
  assumes "init_store H db anchor_state body = Ok s" and "tables_ok db"
  shows "store_ok s"
  using assms
  by (auto simp: init_store_def Let_def store_ok_def tables_ok_def buffer_new_def buffer_ok_def
      NEW_PAYLOAD_CAP_def AGGREGATED_PAYLOAD_CAP_def count_gossip_signatures_def
      split: if_splits option.splits)

section \<open>Retention\<close>

lemma keys_beyond_old:
  assumes "sorts_desc f" and "r \<in> set (keys_beyond f keep protected headers)"
  shows "r \<notin> set protected \<and> (\<exists>h. (r, h) \<in> set headers \<and>
    keep \<le> length (filter (\<lambda>(_, h'). hdr_slot h \<le> hdr_slot h') headers))"
proof -
  let ?es = "map (\<lambda>(root, header). (root, hdr_slot header)) headers"
  from assms(2) obtain slot where r: "(r, slot) \<in> set (drop keep (f ?es))" "r \<notin> set protected"
    and len: "\<not> length ?es \<le> keep"
    by (auto simp: keys_beyond_def Let_def split: if_splits)
  from assms(1) have ms: "mset (f ?es) = mset ?es" and so: "sorted_wrt (\<lambda>a b. snd b \<le> snd a) (f ?es)"
    by (auto simp: sorts_desc_def)
  have st: "set (f ?es) = set ?es" by (rule mset_eq_setD [OF ms])
  from r(1) st have "(r, slot) \<in> set ?es" by (metis in_set_dropD)
  then obtain h where h: "(r, h) \<in> set headers" "slot = hdr_slot h" by auto
  have "\<forall>e \<in> set (take keep (f ?es)). slot \<le> snd e"
  proof
    fix e assume "e \<in> set (take keep (f ?es))"
    moreover have "sorted_wrt (\<lambda>a b. snd b \<le> snd a) (take keep (f ?es) @ drop keep (f ?es))"
      using so by simp
    ultimately show "slot \<le> snd e" using r(1) unfolding sorted_wrt_append by force
  qed
  then have "filter (\<lambda>e. slot \<le> snd e) (take keep (f ?es)) = take keep (f ?es)" by simp
  moreover have "length (take keep (f ?es)) = keep"
    using len mset_eq_length [OF ms] by simp
  moreover have "length (filter (\<lambda>e. slot \<le> snd e) (f ?es)) =
      length (filter (\<lambda>e. slot \<le> snd e) (take keep (f ?es))) + length (filter (\<lambda>e. slot \<le> snd e) (drop keep (f ?es)))"
    by (metis append_take_drop_id filter_append length_append)
  ultimately have "keep \<le> length (filter (\<lambda>e. slot \<le> snd e) (f ?es))" by simp
  also have "\<dots> = length (filter (\<lambda>e. slot \<le> snd e) ?es)"
    by (rule mset_eq_length) (simp only: mset_filter ms)
  also have "\<dots> = length (filter (\<lambda>(_, h'). hdr_slot h \<le> hdr_slot h') headers)"
    by (simp add: filter_map o_def case_prod_unfold h(2))
  finally show ?thesis using r(2) h(1) by blast
qed

lemma set_take_drop: "set xs = set (take k xs) \<union> set (drop k xs)"
  by (metis append_take_drop_id set_append)

lemma keys_beyond_bound:
  assumes "sorts_desc f" and "distinct (map fst headers)"
  shows "length (tbl_delete (keys_beyond f keep protected headers) headers) \<le> keep + length protected"
proof -
  let ?es = "map (\<lambda>(root, header). (root, hdr_slot header)) headers"
  let ?ks = "keys_beyond f keep protected headers"
  have fst_es: "map fst ?es = map fst headers" by (simp add: case_prod_unfold)
  show ?thesis
  proof (cases "length ?es \<le> keep")
    case True
    then show ?thesis by (simp add: keys_beyond_def tbl_delete_def)
  next
    case False
    from assms(1) have ms: "mset (f ?es) = mset ?es" by (auto simp: sorts_desc_def)
    have ks: "?ks = filter (\<lambda>k. k \<notin> set protected) (map fst (drop keep (f ?es)))"
      using False by (simp add: keys_beyond_def filter_map o_def case_prod_unfold)
    have all: "set (map fst headers) = set (map fst (take keep (f ?es))) \<union> set (map fst (drop keep (f ?es)))"
    proof -
      have "set (map fst headers) = fst ` set (f ?es)"
        using mset_eq_setD [OF ms] by (simp only: fst_es [symmetric] set_map)
      then show ?thesis by (subst (asm) set_take_drop [of _ keep]) (simp add: image_Un)
    qed
    have "fst ` set (tbl_delete ?ks headers) \<subseteq> set (map fst (take keep (f ?es))) \<union> set protected"
    proof
      fix k assume "k \<in> fst ` set (tbl_delete ?ks headers)"
      then have "k \<in> set (map fst headers)" and "k \<notin> set ?ks" by (auto simp: tbl_delete_def)
      with all ks show "k \<in> set (map fst (take keep (f ?es))) \<union> set protected" by auto
    qed
    then have "card (fst ` set (tbl_delete ?ks headers)) \<le> card (set (map fst (take keep (f ?es))) \<union> set protected)"
      by (intro card_mono) auto
    also have "\<dots> \<le> card (set (map fst (take keep (f ?es)))) + card (set protected)" by (rule card_Un_le)
    also have "\<dots> \<le> keep + length protected"
      using card_length [of "map fst (take keep (f ?es))"] card_length [of protected] by simp
    finally have "card (set (map fst (tbl_delete ?ks headers))) \<le> keep + length protected" by simp
    moreover have "distinct (map fst (tbl_delete ?ks headers))"
      using assms(2) by (simp add: tbl_delete_def distinct_map_filter)
    ultimately show ?thesis by (simp only: distinct_card length_map)
  qed
qed

section \<open>The latest votes\<close>

definition latest_inv ::
  "(H256 \<Rightarrow> attestation_data option) \<Rightarrow> signature_key list \<Rightarrow>
   (H256 \<times> attestation_data option) list \<times> (u64 \<times> attestation_data) list \<Rightarrow> bool" where
  "latest_inv lookup keys = (\<lambda>(cache, res).
     (\<forall>r x. map_of cache r = Some x \<longrightarrow> x = lookup r) \<and> distinct (map fst res) \<and>
     (\<forall>v d. map_of res v = Some d \<longrightarrow> (\<exists>r. (v, r) \<in> set keys \<and> lookup r = Some d)) \<and>
     (\<forall>v r d. (v, r) \<in> set keys \<longrightarrow> lookup r = Some d \<longrightarrow>
        (\<exists>d'. map_of res v = Some d' \<and> ad_slot d \<le> ad_slot d')))"

lemma extract_step_inv:
  assumes "latest_inv lookup keys acc"
  shows "latest_inv lookup (keys @ [key]) (extract_step lookup key acc)"
proof -
  obtain v r where key: "key = (v, r)" by (cases key)
  obtain cache res where acc: "acc = (cache, res)" by (cases acc)
  let ?c = "or_insert r (lookup r) cache"
  have c: "\<forall>q x. map_of ?c q = Some x \<longrightarrow> x = lookup q" and cr: "the (map_of ?c r) = lookup r"
    using assms acc by (auto simp: latest_inv_def map_of_or_insert split: option.splits if_splits)
  define res' where "res' = snd (extract_step lookup key acc)"
  have run: "extract_step lookup key acc = (?c, res')"
    using cr by (auto simp: res'_def extract_step_def key acc Let_def split: option.splits)
  have res': "res' = res \<or> (\<exists>d. lookup r = Some d \<and> res' = AList.update v d res \<and>
      (\<forall>e. map_of res v = Some e \<longrightarrow> ad_slot e < ad_slot d))"
    "\<And>d. lookup r = Some d \<Longrightarrow> \<exists>e. map_of res' v = Some e \<and> ad_slot d \<le> ad_slot e"
    using cr by (auto simp: res'_def extract_step_def key acc Let_def not_less
        simp del: map_of_eq_Some_iff split: option.splits if_splits)
  have old: "distinct (map fst res)"
    "\<And>u d. map_of res u = Some d \<Longrightarrow> \<exists>q. (u, q) \<in> set keys \<and> lookup q = Some d"
    "\<And>u q d. (u, q) \<in> set keys \<Longrightarrow> lookup q = Some d \<Longrightarrow>
       \<exists>d'. map_of res u = Some d' \<and> ad_slot d \<le> ad_slot d'"
    using assms acc unfolding latest_inv_def by blast+
  have grows: "\<exists>e'. map_of res' u = Some e' \<and> ad_slot e \<le> ad_slot e'" if "map_of res u = Some e" for u e
    using res'(1) that by (cases "u = v") (auto simp del: map_of_eq_Some_iff)
  show ?thesis
    unfolding latest_inv_def run prod.case
  proof (intro conjI allI impI)
    show "distinct (map fst res')" using res'(1) old(1) by (auto simp: distinct_update)
    show "\<And>q x. map_of ?c q = Some x \<Longrightarrow> x = lookup q" using c by blast
    show "\<exists>q. (u, q) \<in> set (keys @ [key]) \<and> lookup q = Some d" if "map_of res' u = Some d" for u d
    proof (cases "map_of res u = Some d")
      case True
      with old(2) show ?thesis by auto
    next
      case False
      with that res'(1) have "u = v" "lookup r = Some d"
        by (auto simp del: map_of_eq_Some_iff split: if_splits)
      with key show ?thesis by auto
    qed
    show "\<exists>d'. map_of res' u = Some d' \<and> ad_slot d \<le> ad_slot d'"
      if "(u, q) \<in> set (keys @ [key])" "lookup q = Some d" for u q d
    proof (cases "(u, q) \<in> set keys")
      case True
      from old(3) [OF this that(2)] grows show ?thesis by (meson order_trans)
    next
      case False
      with that(1) key have "u = v" "q = r" by auto
      with res'(2) that(2) show ?thesis by simp
    qed
  qed
qed

lemma extract_latest_inv: "latest_inv lookup keys (fold (extract_step lookup) keys ([], []))"
proof (induction keys rule: rev_induct)
  case Nil
  then show ?case by (simp add: latest_inv_def)
next
  case (snoc k keys)
  then show ?case by (simp add: extract_step_inv)
qed

section \<open>Properties\<close>

text \<open>
  C25. Every operation of the store keeps its invariant: all tables stay in key order, both payload
  buffers stay within their capacity, and the signature counter is the number of stored gossip
  signatures. A store initialized from sorted tables has the invariant.
\<close>

theorem store_invariant:
  assumes "init_store H db anchor_state body = Ok s0" and "tables_ok db"
    and "(store_step C)\<^sup>*\<^sup>* s0 s"
  shows "store_ok s"
proof -
  from assms(3) init_store_ok [OF assms(1,2)] show ?thesis by (induction) (auto dest: store_step_ok)
qed

lemma tables_ok_empty [simp]: "tables_ok empty_tables"
  by (simp add: tables_ok_def empty_tables_def)

lemma demo_store_exists:
  obtains s where "init_store demo_hashing empty_tables demo_genesis None = (Ok s :: (store, st_error) result)"
    and "store_ok s"
proof -
  obtain s where s: "init_store demo_hashing empty_tables demo_genesis None = (Ok s :: (store, st_error) result)"
    by (auto simp: init_store_def Let_def demo_defs)
  then have "store_ok s" by (rule init_store_ok) simp
  with s show thesis by (rule that)
qed

theorem store_invariant_witness:
  "\<exists>s0. init_store demo_hashing empty_tables demo_genesis None = (Ok s0 :: (store, st_error) result) \<and>
    store_ok (insert_gossip_signature demo_crypto 7 1 2 [3] (set_time 5 s0))"
proof -
  obtain s0 where s0: "init_store demo_hashing empty_tables demo_genesis None = (Ok s0 :: (store, st_error) result)"
    by (rule demo_store_exists)
  have "(store_step demo_crypto)\<^sup>*\<^sup>* s0 (insert_gossip_signature demo_crypto 7 1 2 [3] (set_time 5 s0))"
    by (rule rtranclp.rtrancl_into_rtrancl [OF r_into_rtranclp]) (rule store_step.intros)+
  from store_invariant [OF s0 _ this] s0 show ?thesis by auto
qed

text \<open>
  A signed block is read back as it was written, where no other body has the root of the empty
  one (empty bodies are not stored). A pending insertion does the same and is invisible to fork
  choice; a full insertion adds exactly one entry to the live chain.
\<close>

lemma signed_block_roundtrip:
  assumes "h_body H (blk_body (bwa_block (sb_message sb))) = EMPTY_BODY_ROOT H \<Longrightarrow>
    blk_body (bwa_block (sb_message sb)) = block_body_default"
  shows "get_signed_block H (insert_signed_block H root sb s) root = Some sb \<and>
    get_signed_block H (insert_pending_block H root sb s) root = Some sb \<and>
    t_live_chain (insert_pending_block H root sb s) = t_live_chain s \<and>
    map_of (t_live_chain (insert_signed_block H root sb s)) =
      (map_of (t_live_chain s))((blk_slot (bwa_block (sb_message sb)), root) \<mapsto>
        blk_parent_root (bwa_block (sb_message sb)))"
proof -
  let ?b = "bwa_block (sb_message sb)"
  have sigs: "\<lparr>bsa_proposer_attestation = bwa_proposer_attestation (sb_message sb),
      bsa_signatures = sb_signature sb\<rparr> = from_signed_block sb"
    by (simp add: from_signed_block_def)
  have root: "hdr_body_root (block_header_of H ?b) = h_body H (blk_body ?b)"
    by (simp add: block_header_of_def)
  have "get_signed_block H (write_signed_block H root sb s) root = Some sb"
  proof (cases "h_body H (blk_body ?b) = EMPTY_BODY_ROOT H")
    case True
    then have "blk_body ?b = block_body_default" by (rule assms)
    then have "from_header_and_body (block_header_of H ?b) block_body_default = ?b"
      by (metis from_header_and_body_block_header_of)
    with True show ?thesis
      by (simp add: get_signed_block_def write_signed_block_def Let_def sigs root)
  next
    case False
    then show ?thesis by (simp add: get_signed_block_def write_signed_block_def Let_def sigs root)
  qed
  then show ?thesis
    by (auto simp: insert_signed_block_def insert_pending_block_def get_signed_block_def Let_def
        write_signed_block_def)
qed

definition demo_signed_block :: "block \<Rightarrow> signed_block_with_attestation" where
  "demo_signed_block b = \<lparr>sb_message = \<lparr>bwa_block = b, bwa_proposer_attestation =
       \<lparr>att_validator_id = blk_proposer_index b, att_data = demo_data 1 0 1\<rparr>\<rparr>,
     sb_signature = \<lparr>bs_attestation_signatures = [], bs_proposer_signature = [1]\<rparr>\<rparr>"

text \<open>
  C26. When the finalized checkpoint moves to a higher slot, the live chain keeps exactly the
  entries at or above it, and gossip signatures and attestation data keep exactly those above it;
  blocks, signatures of blocks and states are untouched. Without an advance only head and
  checkpoints change.
\<close>

theorem update_checkpoints_prunes:
  assumes "store_ok s"
  shows "s_head (update_checkpoints fc s) = fc_head fc \<and>
    s_latest_finalized (update_checkpoints fc s) =
      (case fc_finalized fc of Some cp \<Rightarrow> cp | None \<Rightarrow> s_latest_finalized s) \<and>
    s_latest_justified (update_checkpoints fc s) =
      (case fc_justified fc of Some cp \<Rightarrow> cp | None \<Rightarrow> s_latest_justified s) \<and>
    t_states (update_checkpoints fc s) = t_states s \<and>
    t_block_headers (update_checkpoints fc s) = t_block_headers s \<and>
    t_block_bodies (update_checkpoints fc s) = t_block_bodies s \<and>
    t_block_signatures (update_checkpoints fc s) = t_block_signatures s \<and>
    (let f = cp_slot (s_latest_finalized (update_checkpoints fc s))
     in if f \<le> cp_slot (s_latest_finalized s)
        then t_live_chain (update_checkpoints fc s) = t_live_chain s \<and>
          t_gossip_signatures (update_checkpoints fc s) = t_gossip_signatures s \<and>
          t_attestation_data_by_root (update_checkpoints fc s) = t_attestation_data_by_root s
        else t_live_chain (update_checkpoints fc s) =
            filter (\<lambda>((slot, _), _). f \<le> slot) (t_live_chain s) \<and>
          t_gossip_signatures (update_checkpoints fc s) =
            filter (\<lambda>(_, v). f < ss_slot v) (t_gossip_signatures s) \<and>
          t_attestation_data_by_root (update_checkpoints fc s) =
            filter (\<lambda>(_, v). f < ad_slot v) (t_attestation_data_by_root s))"
proof -
  have so: "tbl_sorted encode_live_chain_key (t_live_chain s)"
    and d: "distinct (map fst (t_gossip_signatures s))"
      "distinct (map fst (t_attestation_data_by_root s))"
    using assms tbl_sorted_distinct unfolding store_ok_def tables_ok_def by blast+
  show ?thesis
    using so d
    by (auto simp: update_checkpoints_def Let_def prune_live_chain_filter prune_gossip_signatures_def
        prune_attestation_data_by_root_def prune_by_slot_filter not_less not_le split: option.splits)
qed

theorem update_checkpoints_prunes_witness:
  "\<exists>s. store_ok s \<and> s_head (update_checkpoints (head_only 5) s) = 5"
proof -
  obtain s0 where s0: "store_ok s0" by (rule demo_store_exists)
  from update_checkpoints_prunes [OF s0, of "head_only 5"] s0 show ?thesis
    by (auto simp: head_only_def)
qed

text \<open>
  C28. Retention: a state is deleted only if it is not the finalized or justified one and at least
  \<open>STATES_TO_KEEP\<close> headers are at least as recent; after pruning, at most \<open>BLOCKS_TO_KEEP\<close> blocks
  and the protected ones remain.
\<close>

theorem retention:
  assumes "sorts_desc f" and "store_ok s"
  shows "(\<forall>r. get_state s r \<noteq> None \<longrightarrow> get_state (prune_old_data f s) r = None \<longrightarrow>
      r \<noteq> cp_root (s_latest_finalized s) \<and> r \<noteq> cp_root (s_latest_justified s) \<and>
      (\<exists>h. (r, h) \<in> set (t_block_headers s) \<and>
        STATES_TO_KEEP \<le> length (filter (\<lambda>(_, h'). hdr_slot h \<le> hdr_slot h') (t_block_headers s)))) \<and>
    length (t_block_headers (prune_old_data f s)) \<le> BLOCKS_TO_KEEP + 2"
proof -
  let ?p = "[cp_root (s_latest_finalized s), cp_root (s_latest_justified s)]"
  let ?ks = "keys_beyond f STATES_TO_KEEP ?p (t_block_headers s)"
  let ?kb = "keys_beyond f BLOCKS_TO_KEEP ?p (t_block_headers s)"
  have d: "distinct (map fst (t_block_headers s))"
    using assms(2) tbl_sorted_distinct unfolding store_ok_def tables_ok_def by blast
  have st: "t_states (prune_old_data f s) = tbl_delete ?ks (t_states s)"
    by (simp add: prune_old_data_def prune_old_states_def prune_old_blocks_def Let_def tbl_delete_def)
  have bl: "t_block_headers (prune_old_data f s) = tbl_delete ?kb (t_block_headers s)"
    by (simp add: prune_old_data_def prune_old_states_def prune_old_blocks_def Let_def tbl_delete_def)
  have "r \<in> set ?ks" if "get_state s r \<noteq> None" "get_state (prune_old_data f s) r = None" for r
    using that by (simp add: get_state_def st split: if_splits)
  with keys_beyond_old [OF assms(1), of _ STATES_TO_KEEP ?p "t_block_headers s"]
    keys_beyond_bound [OF assms(1) d, of BLOCKS_TO_KEEP ?p]
  show ?thesis unfolding bl by fastforce
qed

theorem retention_witness:
  "\<exists>s f. sorts_desc f \<and> store_ok s \<and> length (t_block_headers (prune_old_data f s)) \<le> BLOCKS_TO_KEEP + 2"
proof -
  obtain s0 where s0: "store_ok s0" by (rule demo_store_exists)
  with retention [OF sorts_desc_sort_key s0] sorts_desc_sort_key show ?thesis by blast
qed

text \<open>
  C27. The latest votes extracted from a list of payload keys: a validator has one exactly when one
  of its keys has known attestation data, and it is one of those data with the greatest slot,
  whatever the order of the keys.
\<close>

theorem extract_latest_is_latest:
  "(\<forall>v d. map_of (extract_latest_attestations s keys) v = Some d \<longrightarrow>
      (\<exists>r. (v, r) \<in> set keys \<and> get_attestation_data_by_root s r = Some d)) \<and>
   (\<forall>v r d. (v, r) \<in> set keys \<longrightarrow> get_attestation_data_by_root s r = Some d \<longrightarrow>
      (\<exists>d'. map_of (extract_latest_attestations s keys) v = Some d' \<and> ad_slot d \<le> ad_slot d'))"
  using extract_latest_inv [of "get_attestation_data_by_root s" keys]
  unfolding extract_latest_attestations_def latest_inv_def case_prod_unfold by blast

theorem extract_latest_is_latest_witness:
  "\<exists>(s :: store) d'. map_of (extract_latest_attestations s [(1, 7), (1, 8)]) 1 = Some d' \<and> 3 \<le> ad_slot d'"
proof -
  obtain s0 where "store_ok s0" by (rule demo_store_exists)
  let ?s = "insert_attestation_data_by_root 8 (demo_data 3 0 1) s0"
  have "get_attestation_data_by_root ?s 8 = Some (demo_data 3 0 1)"
    by (simp add: get_attestation_data_by_root_def insert_attestation_data_by_root_def)
  moreover have "(1, 8) \<in> set [(1 :: u64, 7 :: H256), (1, 8)]" by simp
  ultimately obtain d' where "map_of (extract_latest_attestations ?s [(1, 7), (1, 8)]) 1 = Some d'"
    "ad_slot (demo_data 3 0 1) \<le> ad_slot d'"
    using extract_latest_is_latest [of ?s "[(1, 7), (1, 8)]"] by blast
  moreover have "ad_slot (demo_data 3 0 1) = 3" by (simp add: demo_data_def)
  ultimately show ?thesis by metis
qed

end
