(* ===== verification/Finality.thy ===== *)
theory Finality
  imports State_Invariants
begin

text \<open>
  What justification and finalization mean for the attestations of a block. The votes a block adds
  are compared with the validators that support a root, whether from the open votes of the
  pre-state or from the block; a slot becomes justified only with a two-thirds supermajority, and a
  checkpoint is finalized only as the justified source of a justified target with no justifiable
  slot in between.
\<close>

section \<open>Votes and justification\<close>

definition vote_bits :: "votes \<Rightarrow> H256 \<Rightarrow> nat set" where
  "vote_bits j r = (case map_of j r of None \<Rightarrow> {} | Some v \<Rightarrow> set (set_positions v))"

definition attesters :: "aggregated_attestation \<Rightarrow> nat set" where
  "attesters att = set (set_positions (aa_aggregation_bits att))"

abbreviation just :: "state \<Rightarrow> u64 \<Rightarrow> bool" where
  "just s t \<equiv> is_slot_justified (st_justified_slots s) (cp_slot (st_latest_finalized s)) t"

abbreviation gap_free :: "u64 \<Rightarrow> u64 \<Rightarrow> u64 \<Rightarrow> bool" where
  "gap_free f a b \<equiv> \<not> list_ex (\<lambda>n. slot_is_justifiable_after (word_of_nat n) f) [unat (a + 1)..<unat b]"

lemma try_finalize_effect:
  assumes "try_finalize s source target j rts = Ok (s', j')"
    and "cp_slot (st_latest_finalized s) < cp_slot target" and "cp_slot source < cp_slot target"
    and "length (st_justified_slots s) \<le> HISTORICAL_ROOTS_LIMIT"
  shows "st_latest_justified s' = st_latest_justified s \<and> (\<forall>r. vote_bits j' r \<subseteq> vote_bits j r) \<and>
    ((s' = s) \<or>
     (st_latest_finalized s' = source \<and> cp_slot (st_latest_finalized s) \<le> cp_slot source \<and>
      gap_free (cp_slot (st_latest_finalized s)) (cp_slot source) (cp_slot target) \<and>
      (\<forall>t. just s' t \<longleftrightarrow> t \<le> cp_slot source \<or> just s t)))"
proof (cases "gap_free (cp_slot (st_latest_finalized s)) (cp_slot source) (cp_slot target)")
  case False
  with assms(1) show ?thesis by (simp add: try_finalize_def)
next
  case True
  let ?f = "cp_slot (st_latest_finalized s)"
  have le: "?f \<le> cp_slot source" by (rule no_justifiable_between [OF assms(2,3) True])
  from window.shift_ok [OF le assms(4), where 'a = st_error] obtain w' where
    w': "shift_window (st_justified_slots s) (unat (cp_slot source - ?f)) = (Ok w' :: (bitlist, st_error) result)"
    and iff: "\<forall>u. is_slot_justified w' (cp_slot source) u \<longleftrightarrow> u \<le> cp_slot source \<or> just s u" by blast
  from assms(1) True w' have s': "s' = s\<lparr>st_latest_finalized := source, st_justified_slots := w'\<rparr>"
    and j': "j' = filter (\<lambda>(root, _). case map_of rts root of
        Some slot \<Rightarrow> slot > cp_slot source | None \<Rightarrow> False) j"
    by (auto simp: try_finalize_def Let_def cong: option.case_cong)
  have "vote_bits (filter (\<lambda>(root, _). P root) j) r \<subseteq> vote_bits j r" for P r
  proof -
    have "map_of (filter (\<lambda>(root, _). P root) j) r = (if P r then map_of j r else None)"
      by (induction j) (auto split: if_splits)
    then show ?thesis by (simp add: vote_bits_def)
  qed
  then show ?thesis unfolding j' using s' iff le True by simp
qed

lemma vote_bits_or_insert [simp]: "vote_bits (or_insert r (replicate n False) j) q = vote_bits j q"
  by (auto simp: vote_bits_def map_of_or_insert split: option.splits)

text \<open>Votes for a root after an attestation was added to them.\<close>

lemma added_votes:
  assumes "set_all (the (map_of (or_insert r (replicate n False) j) r)) (set_positions bits) = Some votes"
  shows "set (set_positions votes) = vote_bits j r \<union> set (set_positions bits)"
    and "length (filter id votes) = card (vote_bits j r \<union> set (set_positions bits))"
    and "vote_bits (AList.update r votes (or_insert r (replicate n False) j)) q \<subseteq>
      vote_bits j q \<union> (if q = r then set (set_positions bits) else {})"
proof -
  have old: "set (set_positions (the (map_of (or_insert r (replicate n False) j) r))) = vote_bits j r"
    by (auto simp: vote_bits_def map_of_or_insert split: option.splits)
  show new: "set (set_positions votes) = vote_bits j r \<union> set (set_positions bits)"
    using assms by (auto simp: set_all_Some_iff simp flip: old)
  then show "length (filter id votes) = card (vote_bits j r \<union> set (set_positions bits))"
    by (metis distinct_card distinct_set_positions length_set_positions)
  show "vote_bits (AList.update r votes (or_insert r (replicate n False) j)) q \<subseteq>
      vote_bits j q \<union> (if q = r then set (set_positions bits) else {})"
    using new by (auto simp: vote_bits_def map_of_or_insert split: option.splits)
qed

lemma process_attestation_step:
  assumes wf: "wf_processing s0 (s, j)"
    and lim: "length (st_historical_block_hashes s0) \<le> HISTORICAL_ROOTS_LIMIT"
    and run: "process_attestation (length (st_validators s0)) rts att (s, j) = Ok (s', j')"
  defines "source \<equiv> ad_source (aa_data att)" and "target \<equiv> ad_target (aa_data att)"
  shows "\<forall>r. vote_bits j' r \<subseteq> vote_bits j r \<union> (if r = cp_root target then attesters att else {})"
    and "s' = s \<or>
      (is_valid_vote s source target \<and> st_latest_justified s' = target \<and>
       length (aa_aggregation_bits att) \<le> length (st_validators s0) \<and>
       2 * length (st_validators s0) \<le> 3 * card (vote_bits j (cp_root target) \<union> attesters att) \<and>
       (st_latest_finalized s' = st_latest_finalized s \<and>
          (\<forall>t. just s' t \<longleftrightarrow> t = cp_slot target \<or> just s t) \<or>
        st_latest_finalized s' = source \<and> cp_slot (st_latest_finalized s) \<le> cp_slot source \<and>
          gap_free (cp_slot (st_latest_finalized s)) (cp_slot source) (cp_slot target) \<and>
          (\<forall>t. just s' t \<longleftrightarrow> t \<le> cp_slot source \<or> t = cp_slot target \<or> just s t)))"
    (is ?B)
proof -
  let ?A = "\<forall>r. vote_bits j' r \<subseteq> vote_bits j r \<union> (if r = cp_root target then attesters att else {})"
  from wf have "?A \<and> ?B"
  proof (cases rule: process_attestation_cases [where att = att and rts = rts])
    case (recorded votes)
    note recorded = recorded [folded source_def target_def]
    with run have "s' = s" and j': "j' = AList.update (cp_root target) votes
        (or_insert (cp_root target) (replicate (length (st_validators s0)) False) j)" by simp_all
    with added_votes(3) [OF recorded(3), folded attesters_def] show ?thesis unfolding j' by blast
  next
    case (justified votes js)
    note justified = justified [folded source_def target_def]
    let ?j2 = "AList.update (cp_root target) votes (or_insert (cp_root target) (replicate (length (st_validators s0)) False) j)"
    let ?s1 = "s\<lparr>st_latest_justified := target, st_justified_slots := js\<rparr>"
    note v = is_valid_voteD [OF justified(1)] and w = wf_processingD [OF wf]
    note add = added_votes [OF justified(3), folded attesters_def]
    have tf: "try_finalize ?s1 source target (AList.delete (cp_root target) ?j2) rts = Ok (s', j')"
      using run justified(8) by simp
    have len: "length (st_justified_slots ?s1) \<le> HISTORICAL_ROOTS_LIMIT" using justified(6) w(7) lim by simp
    have fin: "cp_slot (st_latest_finalized ?s1) < cp_slot target" using v(1) by simp
    note eff = try_finalize_effect [OF tf fin v(5) len]
    have "vote_bits (AList.delete (cp_root target) ?j2) r \<subseteq> vote_bits ?j2 r" for r
      by (auto simp: vote_bits_def AList.delete_conv' split: option.splits)
    with eff add(3) have ?A by (meson subset_trans)
    moreover from eff have ?B
    proof (elim conjE disjE, goal_cases)
      case 1
      with justified(1,2,5,7) add(2) show ?case by simp
    next
      case 2
      with justified(1,2,5,7) add(2) show ?case by simp
    qed
    ultimately show ?thesis by blast
  qed (use run in \<open>simp_all add: target_def\<close>)
  then show ?A and ?B by blast+
qed

text \<open>An attestation that is not counted adds no votes.\<close>

lemma skipped_votes:
  assumes wf: "wf_processing s0 (s, j)"
    and run: "process_attestation (length (st_validators s0)) rts att (s, j) = Ok (s', j')"
    and skip: "\<not> (is_valid_vote s (ad_source (aa_data att)) (ad_target (aa_data att)) \<and>
      length (aa_aggregation_bits att) \<le> length (st_validators s0))"
  shows "vote_bits j' r = vote_bits j r"
  using wf
  by (cases rule: process_attestation_cases [where att = att and rts = rts]) (use run skip in simp_all)

section \<open>Who supports a target\<close>

text \<open>
  The loop over the attestations before the \<open>k\<close>-th one: the state and the open votes. Attestation \<open>k\<close>
  is counted if it passes the checks in that state and its bits fit the validators; the others are
  skipped.
\<close>

definition stage :: "state \<Rightarrow> aggregated_attestation list \<Rightarrow> nat \<Rightarrow> (state \<times> votes, st_error) result" where
  "stage s atts k = fold_res (process_attestation (length (st_validators s)) (root_to_slot_map s)) (take k atts)
     (s, load_justifications s)"

abbreviation source_of :: "aggregated_attestation \<Rightarrow> checkpoint" where
  "source_of att \<equiv> ad_source (aa_data att)"

abbreviation target_of :: "aggregated_attestation \<Rightarrow> checkpoint" where
  "target_of att \<equiv> ad_target (aa_data att)"

definition counted :: "state \<Rightarrow> aggregated_attestation list \<Rightarrow> nat \<Rightarrow> bool" where
  "counted s atts k \<longleftrightarrow> k < length atts \<and> length (aa_aggregation_bits (atts ! k)) \<le> length (st_validators s) \<and>
     (case stage s atts k of
        Ok (s1, _) \<Rightarrow> is_valid_vote s1 (source_of (atts ! k)) (target_of (atts ! k))
      | _ \<Rightarrow> False)"

text \<open>The validators behind a root: those with an open vote before the block, and the counted attesters.\<close>

definition supporters :: "state \<Rightarrow> aggregated_attestation list \<Rightarrow> nat \<Rightarrow> H256 \<Rightarrow> nat set" where
  "supporters s atts k root = vote_bits (load_justifications s) root \<union>
     (\<Union>i \<in> {i. i < k \<and> counted s atts i \<and> cp_root (target_of (atts ! i)) = root}. attesters (atts ! i))"

definition supermajority :: "state \<Rightarrow> nat set \<Rightarrow> bool" where
  "supermajority s voters \<longleftrightarrow> voters \<subseteq> {..<length (st_validators s)} \<and> 2 * length (st_validators s) \<le> 3 * card voters"

text \<open>The \<open>k\<close>-th attestation justifies its target, with the support collected up to it.\<close>

definition justifies :: "state \<Rightarrow> aggregated_attestation list \<Rightarrow> nat \<Rightarrow> bool" where
  "justifies s atts k \<longleftrightarrow> counted s atts k \<and> checkpoint_exists s (target_of (atts ! k)) \<and>
     supermajority s (supporters s atts (Suc k) (cp_root (target_of (atts ! k))))"

definition justified_by :: "state \<Rightarrow> aggregated_attestation list \<Rightarrow> u64 \<Rightarrow> bool" where
  "justified_by s atts t \<longleftrightarrow> (\<exists>k. justifies s atts k \<and> cp_slot (target_of (atts ! k)) = t)"

text \<open>
  It also finalizes its source: no slot between source and target is justifiable after the slot that
  is finalized when the attestation is processed.
\<close>

definition finalizes :: "state \<Rightarrow> aggregated_attestation list \<Rightarrow> nat \<Rightarrow> bool" where
  "finalizes s atts k \<longleftrightarrow> justifies s atts k \<and> checkpoint_exists s (source_of (atts ! k)) \<and>
     cp_root (source_of (atts ! k)) \<noteq> 0 \<and> cp_slot (source_of (atts ! k)) < cp_slot (target_of (atts ! k)) \<and>
     (case stage s atts k of
        Ok (s1, _) \<Rightarrow> cp_slot (st_latest_finalized s1) \<le> cp_slot (source_of (atts ! k)) \<and>
          gap_free (cp_slot (st_latest_finalized s1)) (cp_slot (source_of (atts ! k))) (cp_slot (target_of (atts ! k)))
      | _ \<Rightarrow> False)"

definition finalized_by :: "state \<Rightarrow> aggregated_attestation list \<Rightarrow> checkpoint \<Rightarrow> bool" where
  "finalized_by s atts cp \<longleftrightarrow> (\<exists>k. finalizes s atts k \<and> source_of (atts ! k) = cp) \<and>
     (just s (cp_slot cp) \<or> justified_by s atts (cp_slot cp))"

lemma finalized_byD: "finalized_by s atts cp \<Longrightarrow> checkpoint_exists s cp \<and> cp_root cp \<noteq> 0"
  by (auto simp: finalized_by_def finalizes_def)

definition finality_inv :: "state \<Rightarrow> aggregated_attestation list \<Rightarrow> nat \<Rightarrow> state \<times> votes \<Rightarrow> bool" where
  "finality_inv s0 atts k = (\<lambda>(s, j).
     (\<forall>r. vote_bits j r \<subseteq> supporters s0 atts k r) \<and>
     (\<forall>t. just s t \<longrightarrow> just s0 t \<or> justified_by s0 atts t \<or> t < cp_slot (st_latest_finalized s)) \<and>
     (just s0 (cp_slot (st_latest_finalized s)) \<or> justified_by s0 atts (cp_slot (st_latest_finalized s))) \<and>
     (st_latest_finalized s = st_latest_finalized s0 \<or> finalized_by s0 atts (st_latest_finalized s)) \<and>
     (st_latest_justified s = st_latest_justified s0 \<or>
       checkpoint_exists s0 (st_latest_justified s) \<and> cp_root (st_latest_justified s) \<noteq> 0 \<and>
       (\<exists>i. justifies s0 atts i \<and> st_latest_justified s = target_of (atts ! i))))"

lemma stage_Suc:
  assumes "k < length atts"
  shows "stage s atts (Suc k) = bind_res (stage s atts k)
    (process_attestation (length (st_validators s)) (root_to_slot_map s) (atts ! k))"
  using assms by (simp add: stage_def take_Suc_conv_app_nth fold_res_append fold_res_single)

lemma vote_bits_range:
  assumes "votes_ok n j"
  shows "vote_bits j r \<subseteq> {..<n}"
proof (cases "map_of j r")
  case (Some v)
  with assms have "length v = n" by (auto simp: votes_ok_def dest: map_of_SomeD)
  with Some show ?thesis by (auto simp: vote_bits_def)
qed (simp add: vote_bits_def)

lemma supporters_mono: "k \<le> k' \<Longrightarrow> supporters s atts k r \<subseteq> supporters s atts k' r"
  by (force simp: supporters_def)

lemma supporters_range:
  assumes "votes_ok (length (st_validators s)) (load_justifications s)"
  shows "supporters s atts k r \<subseteq> {..<length (st_validators s)}"
  using vote_bits_range [OF assms] by (auto simp: supporters_def attesters_def counted_def)

lemma attesters_support:
  "counted s atts k \<Longrightarrow> attesters (atts ! k) \<subseteq> supporters s atts (Suc k) (cp_root (target_of (atts ! k)))"
  by (auto simp: supporters_def)

lemma finality_inv_step:
  assumes wf: "wf_processing s0 (s, j)" and start: "votes_ok (length (st_validators s0)) (load_justifications s0)"
    and lim: "length (st_historical_block_hashes s0) \<le> HISTORICAL_ROOTS_LIMIT"
    and run: "process_attestation (length (st_validators s0)) rts (atts ! k) (s, j) = Ok (s', j')"
    and k: "k < length atts" "stage s0 atts k = Ok (s, j)" and inv: "finality_inv s0 atts k (s, j)"
  shows "finality_inv s0 atts (Suc k) (s', j')"
proof -
  let ?att = "atts ! k" and ?n = "length (st_validators s0)"
  let ?source = "source_of ?att" and ?target = "target_of ?att"
  note step = process_attestation_step [OF wf lim run]
  have cnt: "counted s0 atts k" if "is_valid_vote s ?source ?target" "length (aa_aggregation_bits ?att) \<le> ?n"
    using that k by (simp add: counted_def)
  from inv have sup: "vote_bits j r \<subseteq> supporters s0 atts (Suc k) r" for r
    using supporters_mono [of k "Suc k"] by (force simp: finality_inv_def)
  have sup': "vote_bits j' r \<subseteq> supporters s0 atts (Suc k) r" for r
  proof (cases "counted s0 atts k")
    case True
    with step(1) [rule_format, of r] sup [of r] attesters_support [OF True] show ?thesis by (auto split: if_splits)
  next
    case False
    with cnt skipped_votes [OF wf run] sup show ?thesis by blast
  qed
  have target: "checkpoint_exists s0 ?target \<and> justifies s0 atts k"
    if "is_valid_vote s ?source ?target" and "length (aa_aggregation_bits ?att) \<le> ?n"
      and "2 * ?n \<le> 3 * card (vote_bits j (cp_root ?target) \<union> attesters ?att)"
  proof -
    have ce: "checkpoint_exists s0 ?target"
      using is_valid_voteD(2,3) [OF that(1)] wf_processingD(1) [OF wf] by (simp add: checkpoint_exists_def)
    note c = cnt [OF that(1,2)] and rng = supporters_range [OF start, of atts "Suc k" "cp_root ?target"]
    have "card (vote_bits j (cp_root ?target) \<union> attesters ?att) \<le> card (supporters s0 atts (Suc k) (cp_root ?target))"
      using sup attesters_support [OF c] finite_subset [OF rng] by (intro card_mono) auto
    with ce c rng that(3) show ?thesis by (simp add: justifies_def supermajority_def)
  qed
  from step(2) show ?thesis
  proof (elim disjE conjE, goal_cases)
    case 1
    with inv sup' show ?case by (simp add: finality_inv_def)
  next
    case prems: 2
    note v = is_valid_voteD [OF \<open>is_valid_vote s ?source ?target\<close>]
    from target prems have "checkpoint_exists s0 ?target" "justifies s0 atts k" by auto
    moreover from this have "justified_by s0 atts (cp_slot ?target)" unfolding justified_by_def by blast
    ultimately show ?case using prems v(4) inv sup' unfolding finality_inv_def by auto
  next
    case prems: 3
    note v = is_valid_voteD [OF \<open>is_valid_vote s ?source ?target\<close>] and w = wf_processingD [OF wf]
    from target prems have ce: "checkpoint_exists s0 ?target" and jk: "justifies s0 atts k" by auto
    then have jb: "justified_by s0 atts (cp_slot ?target)" unfolding justified_by_def by blast
    have js: "just s0 (cp_slot ?source) \<or> justified_by s0 atts (cp_slot ?source)"
      using inv v(7) \<open>cp_slot (st_latest_finalized s) \<le> cp_slot ?source\<close>
      unfolding finality_inv_def by auto
    have "finalizes s0 atts k"
      unfolding finalizes_def using v(5,6,9) w(1) jk prems(6,7) k(2) by (simp add: checkpoint_exists_def)
    with js have fb: "finalized_by s0 atts ?source" unfolding finalized_by_def by blast
    have jt: "just s0 t \<or> justified_by s0 atts t \<or> t < cp_slot ?source" if "just s' t" for t
    proof -
      from that prems(8) consider "t < cp_slot ?source" | "t = cp_slot ?source" | "t = cp_slot ?target" | "just s t"
        by (auto simp: le_less)
      then show ?thesis
      proof cases
        case 4
        with inv have "just s0 t \<or> justified_by s0 atts t \<or> t < cp_slot (st_latest_finalized s)"
          by (simp add: finality_inv_def)
        with prems(6) show ?thesis by auto
      qed (use js jb in auto)
    qed
    show ?case using prems(2,5) jk ce v(4) js fb jt sup' unfolding finality_inv_def by auto
  qed
qed

lemma stage_inv:
  assumes wf: "wf_state s" and "k \<le> length atts"
  shows "\<exists>s1 j. stage s atts k = Ok (s1, j) \<and> wf_processing s (s1, j) \<and> finality_inv s atts k (s1, j)"
  using assms(2)
proof (induction k)
  case 0
  have "wf_processing s (s, load_justifications s)"
    using wf by (intro wf_processing_start) (auto simp: wf_state_def)
  then show ?case by (auto simp: stage_def finality_inv_def supporters_def window.finalized_justified)
next
  case (Suc k)
  let ?n = "length (st_validators s)"
  from wf have lim: "length (st_historical_block_hashes s) \<le> HISTORICAL_ROOTS_LIMIT"
    and len: "length (st_historical_block_hashes s) = unat (hdr_slot (st_latest_block_header s))"
    by (auto simp: wf_state_def)
  have start: "votes_ok ?n (load_justifications s)"
    using wf wf_processingD(8) [OF wf_processing_start [of s]] by (auto simp: wf_state_def)
  from Suc obtain s1 j where 1: "stage s atts k = Ok (s1, j)" "wf_processing s (s1, j)" "finality_inv s atts k (s1, j)"
    by auto
  note keep = process_attestation_keeps [OF lim len, of "atts ! k"]
  obtain s2 j2 where 2: "process_attestation ?n (root_to_slot_map s) (atts ! k) (s1, j) = Ok (s2, j2)"
    using keeps_no_panic [OF keep 1(2)] process_attestation_no_Err by (metis result.exhaust surj_pair)
  have "stage s atts (Suc k) = Ok (s2, j2)" using Suc.prems 1(1) 2 by (simp add: stage_Suc)
  moreover have "wf_processing s (s2, j2)" by (rule keeps_Ok [OF keep 1(2) 2])
  moreover have "finality_inv s atts (Suc k) (s2, j2)"
    using Suc.prems by (intro finality_inv_step [OF 1(2) start lim 2 _ 1(1,3)]) simp
  ultimately show ?case by blast
qed

text \<open>What is justified stays justified, and an attestation that completes a quorum justifies its target.\<close>

lemma quorum_justifies:
  assumes wf: "wf_processing s0 (s, j)"
    and lim: "length (st_historical_block_hashes s0) \<le> HISTORICAL_ROOTS_LIMIT"
    and run: "process_attestation (length (st_validators s0)) rts att (s, j) = Ok (s', j')"
    and valid: "is_valid_vote s (source_of att) (target_of att)"
    and fits: "length (aa_aggregation_bits att) \<le> length (st_validators s0)"
    and quorum: "2 * length (st_validators s0) \<le> 3 * card (vote_bits j (cp_root (target_of att)) \<union> attesters att)"
  shows "just s' (cp_slot (target_of att))"
  using wf
proof (cases rule: process_attestation_cases [where att = att and rts = rts])
  case (recorded votes)
  with added_votes(2) [OF recorded(3)] quorum show ?thesis by (simp add: attesters_def)
next
  case (justified votes js)
  note v = is_valid_voteD [OF justified(1)] and w = wf_processingD [OF wf]
  let ?s1 = "s\<lparr>st_latest_justified := target_of att, st_justified_slots := js\<rparr>"
  have len: "length (st_justified_slots ?s1) \<le> HISTORICAL_ROOTS_LIMIT" using justified(6) w(7) lim by simp
  have fin: "cp_slot (st_latest_finalized ?s1) < cp_slot (target_of att)" using v(1) by simp
  from try_finalize_effect [OF run [unfolded justified(8)] fin v(5) len] justified(7) show ?thesis by auto
qed (use valid fits in simp_all)

lemma process_attestation_just_mono:
  assumes "wf_processing s0 (s, j)"
    and "length (st_historical_block_hashes s0) \<le> HISTORICAL_ROOTS_LIMIT"
    and "process_attestation (length (st_validators s0)) rts att (s, j) = Ok (s', j')" and "just s t"
  shows "just s' t"
  using process_attestation_step(2) [OF assms(1-3)] assms(4) by auto

lemma stage_just_mono:
  assumes wf: "wf_state s" and st: "stage s atts k = Ok (s1, j1)" and t: "just s1 t" and le: "k \<le> m" "m \<le> length atts"
  shows "\<exists>s2 j2. stage s atts m = Ok (s2, j2) \<and> just s2 t"
  using le
proof (induction m)
  case 0
  with st t show ?case by auto
next
  case (Suc m)
  show ?case
  proof (cases "k \<le> m")
    case True
    with Suc obtain s2 j2 where 2: "stage s atts m = Ok (s2, j2)" "just s2 t" by auto
    from stage_inv [OF wf, of m atts] stage_inv [OF wf, of "Suc m" atts] Suc.prems(2) 2(1) obtain s3 j3 where
      w: "wf_processing s (s2, j2)" and 3: "stage s atts (Suc m) = Ok (s3, j3)" by auto
    have "length (st_historical_block_hashes s) \<le> HISTORICAL_ROOTS_LIMIT" using wf by (simp add: wf_state_def)
    from process_attestation_just_mono [OF w this _ 2(2)] 3 2(1) Suc.prems(2) show ?thesis by (auto simp: stage_Suc)
  next
    case False
    with Suc.prems(1) have "Suc m = k" by simp
    with st t show ?thesis by auto
  qed
qed

lemma process_attestations_finality:
  assumes wf: "wf_state s" and run: "process_attestations s atts = Ok s'"
  shows "\<And>t. just s' t \<Longrightarrow> just s t \<or> justified_by s atts t \<or> t < cp_slot (st_latest_finalized s')"
    and "just s (cp_slot (st_latest_finalized s')) \<or> justified_by s atts (cp_slot (st_latest_finalized s'))"
    and "st_latest_finalized s' = st_latest_finalized s \<or> finalized_by s atts (st_latest_finalized s')"
    and "st_latest_justified s' = st_latest_justified s \<or>
       checkpoint_exists s (st_latest_justified s') \<and> cp_root (st_latest_justified s') \<noteq> 0 \<and>
       (\<exists>k. justifies s atts k \<and> st_latest_justified s' = target_of (atts ! k))"
    and "\<And>k s1 j1. stage s atts k = Ok (s1, j1) \<Longrightarrow> counted s atts k \<Longrightarrow>
       2 * length (st_validators s) \<le> 3 * card (vote_bits j1 (cp_root (target_of (atts ! k))) \<union> attesters (atts ! k)) \<Longrightarrow>
       just s' (cp_slot (target_of (atts ! k)))"
proof -
  let ?n = "length (st_validators s)"
  from stage_inv [OF wf, of "length atts" atts] obtain s1 j where
    loop: "stage s atts (length atts) = Ok (s1, j)" and inv: "finality_inv s atts (length atts) (s1, j)" by auto
  with run obtain rs bs where s': "s' = s1\<lparr>st_justifications_roots := rs, st_justifications_validators := bs\<rparr>"
    by (auto simp: stage_def process_attestations_def serialize_justifications_def Let_def bind_res_Ok_iff split: if_splits)
  show "\<And>t. just s' t \<Longrightarrow> just s t \<or> justified_by s atts t \<or> t < cp_slot (st_latest_finalized s')"
    and "just s (cp_slot (st_latest_finalized s')) \<or> justified_by s atts (cp_slot (st_latest_finalized s'))"
    and "st_latest_finalized s' = st_latest_finalized s \<or> finalized_by s atts (st_latest_finalized s')"
    and "st_latest_justified s' = st_latest_justified s \<or>
       checkpoint_exists s (st_latest_justified s') \<and> cp_root (st_latest_justified s') \<noteq> 0 \<and>
       (\<exists>k. justifies s atts k \<and> st_latest_justified s' = target_of (atts ! k))"
    using inv unfolding finality_inv_def by (simp_all add: s')
  fix k s2 j2
  assume 2: "stage s atts k = Ok (s2, j2)" "counted s atts k"
    "2 * ?n \<le> 3 * card (vote_bits j2 (cp_root (target_of (atts ! k))) \<union> attesters (atts ! k))"
  then have k: "k < length atts" "length (aa_aggregation_bits (atts ! k)) \<le> ?n"
    "is_valid_vote s2 (source_of (atts ! k)) (target_of (atts ! k))" by (simp_all add: counted_def)
  from stage_inv [OF wf, of k atts] stage_inv [OF wf, of "Suc k" atts] k(1) 2(1) obtain s3 j3 where
    w: "wf_processing s (s2, j2)" and 3: "stage s atts (Suc k) = Ok (s3, j3)" by auto
  have "length (st_historical_block_hashes s) \<le> HISTORICAL_ROOTS_LIMIT" using wf by (simp add: wf_state_def)
  from quorum_justifies [OF w this _ k(3,2) 2(3)] 3 2(1) k(1) have "just s3 (cp_slot (target_of (atts ! k)))"
    by (auto simp: stage_Suc)
  from stage_just_mono [OF wf 3 this, of "length atts"] k(1) loop show "just s' (cp_slot (target_of (atts ! k)))" by (auto simp: s')
qed

section \<open>Properties\<close>

text \<open>
  C2. Justification and finalization by the attestations of a block. The loop counts an attestation if
  it is valid in the state the earlier ones have led to and its bits fit the validators. A slot
  that becomes justified and is not below the new finalized one is the target of a counted attestation, on
  the chain, and at least two thirds of the validators support it by an open vote from before the
  block or a counted attestation up to this one; the latest justified checkpoint changes only to
  such a target. Conversely a counted attestation that brings the recorded votes to two thirds
  justifies its target. The finalized checkpoint changes only to the source of such an attestation,
  which is on the chain and justified, with no slot before the target that is justifiable after the
  slot finalized at that moment of the loop. For the first finalization of a block that is the slot
  finalized before the block; for a later one it is not, although \<open>docs/3sf_mini.md\<close> says that the
  slot finalized before the block is used throughout.
\<close>

theorem justification_and_finalization:
  assumes "wf_state s" and "process_attestations s atts = Ok s'"
  shows "(\<forall>t. cp_slot (st_latest_finalized s') \<le> t \<longrightarrow>
      is_slot_justified (st_justified_slots s') (cp_slot (st_latest_finalized s')) t \<longrightarrow>
      is_slot_justified (st_justified_slots s) (cp_slot (st_latest_finalized s)) t \<or>
      justified_by s atts t) \<and>
    (st_latest_justified s' = st_latest_justified s \<or>
      (\<exists>k. justifies s atts k \<and> st_latest_justified s' = target_of (atts ! k))) \<and>
    (\<forall>k s1 j1. stage s atts k = Ok (s1, j1) \<and> counted s atts k \<and>
      2 * length (st_validators s) \<le> 3 * card (vote_bits j1 (cp_root (target_of (atts ! k))) \<union> attesters (atts ! k)) \<longrightarrow>
      is_slot_justified (st_justified_slots s') (cp_slot (st_latest_finalized s')) (cp_slot (target_of (atts ! k)))) \<and>
    (st_latest_finalized s' = st_latest_finalized s \<or> finalized_by s atts (st_latest_finalized s'))"
  using process_attestations_finality [OF assms] by (metis not_le)

definition demo_voting_state :: state where
  "demo_voting_state = demo_state 3 0 1 [2000, 2001, 2002] [True, False] 1"

theorem justification_and_finalization_witness:
  "justified_by demo_voting_state [demo_attestation 1 2] 2 \<and>
   finalized_by demo_voting_state [demo_attestation 1 2] (demo_checkpoint 1)"
proof -
  have wf: "wf_state demo_voting_state"
    by (simp add: wf_state_def demo_voting_state_def demo_defs)
  have run: "process_attestations demo_voting_state [demo_attestation 1 2] =
      Ok (demo_state 3 1 2 [2000, 2001, 2002] [True] 1)"
    by (simp add: demo_voting_state_def transition_defs demo_defs attestation_defs)
  have "st_latest_finalized demo_voting_state \<noteq> demo_checkpoint 1"
    and "st_latest_justified demo_voting_state \<noteq> demo_checkpoint 2"
    by (simp_all add: demo_voting_state_def demo_defs)
  moreover have "\<not> just demo_voting_state 2" "just (demo_state 3 1 2 [2000, 2001, 2002] [True] 1) 2"
    by (simp_all add: demo_voting_state_def demo_defs is_slot_justified_def relative_index_def checked_sub_def bit_get_def)
  ultimately show ?thesis
    using justification_and_finalization [OF wf run]
      justification_and_finalization [OF wf run, THEN conjunct1, THEN spec, of 2]
    by (simp add: demo_state_def demo_checkpoint_def)
qed

end
