(* ===== verification/Fork_Choice.thy ===== *)
theory Fork_Choice
  imports Finality
begin

text \<open>
  LMD-GHOST of \<open>crates/blockchain/fork_choice/src/lib.rs\<close>. The two \<open>while\<close> loops follow parent and
  child links and need not end on an arbitrary map, so they are partial functions into \<open>option\<close>;
  that they end is proved where a parent's slot is below its child's. Hash maps are association
  lists whose order is the iteration order; the head is shown not to depend on it.
\<close>

section \<open>Weights\<close>

type_synonym block_map = "(H256 \<times> (u64 \<times> H256)) list"
type_synonym weight_map = "(H256 \<times> u64) list"
type_synonym vote_map = "(u64 \<times> attestation_data) list"

definition weight :: "weight_map \<Rightarrow> H256 \<Rightarrow> u64" where
  "weight weights root = (case map_of weights root of None \<Rightarrow> 0 | Some n \<Rightarrow> n)"

definition bump :: "H256 \<Rightarrow> weight_map \<Rightarrow> weight_map" where
  "bump root weights = AList.update root (weight weights root + 1) weights"

text \<open>The walk from the head of one attestation back to the start slot.\<close>

partial_function (option) walk_back ::
  "u64 \<Rightarrow> block_map \<Rightarrow> H256 \<Rightarrow> weight_map \<Rightarrow> weight_map option" where
  [code]: "walk_back start_slot blocks current_root weights =
     (case map_of blocks current_root of
        None \<Rightarrow> Some weights
      | Some (slot, parent_root) \<Rightarrow>
          if slot > start_slot
          then walk_back start_slot blocks parent_root (bump current_root weights)
          else Some weights)"

fun walk_all :: "u64 \<Rightarrow> block_map \<Rightarrow> attestation_data list \<Rightarrow> weight_map \<Rightarrow> weight_map option" where
  "walk_all start_slot blocks [] weights = Some weights"
| "walk_all start_slot blocks (d # ds) weights =
     Option.bind (walk_back start_slot blocks (cp_root (ad_head d)) weights)
       (walk_all start_slot blocks ds)"

definition compute_block_weights :: "u64 \<Rightarrow> block_map \<Rightarrow> vote_map \<Rightarrow> weight_map option" where
  "compute_block_weights start_slot blocks attestations =
     walk_all start_slot blocks (map snd attestations) []"

section \<open>The head\<close>

definition push_child :: "weight_map \<Rightarrow> u64 \<Rightarrow> H256 \<times> u64 \<times> H256 \<Rightarrow>
  (H256 \<times> H256 list) list \<Rightarrow> (H256 \<times> H256 list) list" where
  "push_child weights min_score = (\<lambda>(root, _, parent_root) children_map.
     if parent_root = 0 then children_map
     else if min_score > 0 \<and> weight weights root < min_score then children_map
     else AList.update parent_root
            ((case map_of children_map parent_root of None \<Rightarrow> [] | Some cs \<Rightarrow> cs) @ [root])
            children_map)"

definition children_map_of :: "weight_map \<Rightarrow> u64 \<Rightarrow> block_map \<Rightarrow> (H256 \<times> H256 list) list" where
  "children_map_of weights min_score blocks = fold (push_child weights min_score) blocks []"

partial_function (option) descend ::
  "(H256 \<times> H256 list) list \<Rightarrow> weight_map \<Rightarrow> H256 \<Rightarrow> H256 option" where
  [code]: "descend children_map weights head =
     (case map_of children_map head of
        None \<Rightarrow> Some head
      | Some children \<Rightarrow>
          (case max_by_key (\<lambda>root. (weight weights root, root)) children of
             None \<Rightarrow> Some head
           | Some best \<Rightarrow> descend children_map weights best))"

definition compute_lmd_ghost_head ::
  "H256 \<Rightarrow> block_map \<Rightarrow> vote_map \<Rightarrow> u64 \<Rightarrow> (H256 \<times> weight_map) option" where
  "compute_lmd_ghost_head start_root0 blocks attestations min_score =
     (if blocks = [] then Some (start_root0, [])
      else
        (let start_root =
               (if start_root0 = 0
                then (case min_by_key (\<lambda>(_, (slot, _)). slot) blocks of
                        Some (root, _) \<Rightarrow> root | None \<Rightarrow> start_root0)
                else start_root0)
         in case map_of blocks start_root of
              None \<Rightarrow> Some (start_root, [])
            | Some (start_slot, _) \<Rightarrow>
                Option.bind (compute_block_weights start_slot blocks attestations)
                  (\<lambda>weights. Option.bind
                    (descend (children_map_of weights min_score blocks) weights start_root)
                    (\<lambda>head. Some (head, weights)))))"

section \<open>Specification\<close>

text \<open>Block trees: distinct roots, and a parent that is present has a smaller slot.\<close>

definition block_tree :: "block_map \<Rightarrow> bool" where
  "block_tree blocks \<longleftrightarrow> distinct (map fst blocks) \<and>
     (\<forall>(_, slot, parent) \<in> set blocks.
        case map_of blocks parent of None \<Rightarrow> True | Some (pslot, _) \<Rightarrow> pslot < slot)"

text \<open>\<open>supports start B head r\<close>: the walk back from \<open>head\<close>, above the start slot, meets \<open>r\<close>.\<close>

inductive supports :: "u64 \<Rightarrow> (H256 \<rightharpoonup> u64 \<times> H256) \<Rightarrow> H256 \<Rightarrow> H256 \<Rightarrow> bool" for start_slot B where
  here: "B r = Some (slot, parent) \<Longrightarrow> slot > start_slot \<Longrightarrow>
    supports start_slot B r r"
| up: "B h = Some (slot, parent) \<Longrightarrow> slot > start_slot \<Longrightarrow>
    supports start_slot B parent r \<Longrightarrow> supports start_slot B h r"

definition eligible_children :: "(H256 \<rightharpoonup> u64 \<times> H256) \<Rightarrow> (H256 \<Rightarrow> u64) \<Rightarrow> u64 \<Rightarrow> H256 \<Rightarrow> H256 set" where
  "eligible_children B w min_score h =
     {r. h \<noteq> 0 \<and> (\<exists>slot. B r = Some (slot, h)) \<and> (min_score = 0 \<or> min_score \<le> w r)}"

text \<open>
  The greedy descent: from a block go to its heaviest eligible child, the highest root winning a
  tie, until there is none.
\<close>

inductive ghost_path :: "(H256 \<rightharpoonup> u64 \<times> H256) \<Rightarrow> (H256 \<Rightarrow> u64) \<Rightarrow> u64 \<Rightarrow> H256 \<Rightarrow> H256 \<Rightarrow> bool"
  for B w min_score where
  stop: "eligible_children B w min_score h = {} \<Longrightarrow> ghost_path B w min_score h h"
| step: "c \<in> eligible_children B w min_score h \<Longrightarrow>
    \<forall>r \<in> eligible_children B w min_score h. w r < w c \<or> w r = w c \<and> r \<le> c \<Longrightarrow>
    ghost_path B w min_score c e \<Longrightarrow> ghost_path B w min_score h e"

inductive_cases supportsE: "supports start_slot B h r"
inductive_cases ghost_pathE: "ghost_path B w min_score h e"

section \<open>Weights count supporting attestations\<close>

lemma block_tree_parent:
  assumes "block_tree blocks" and "map_of blocks r = Some (slot, p)"
    and "map_of blocks p = Some (pslot, q)"
  shows "pslot < slot"
proof -
  from assms(2) have "(r, slot, p) \<in> set blocks" by (rule map_of_SomeD)
  with assms(1) have "case map_of blocks p of None \<Rightarrow> True | Some (pslot, _) \<Rightarrow> pslot < slot"
    unfolding block_tree_def by fast
  with assms(3) show ?thesis by simp
qed

lemma supports_unfold:
  "supports start (map_of blocks) h r \<longleftrightarrow> (case map_of blocks h of None \<Rightarrow> False
     | Some (slot, p) \<Rightarrow> slot > start \<and> (r = h \<or> supports start (map_of blocks) p r))"
  by (auto elim: supportsE intro: supports.intros split: option.splits)

lemma supports_slot:
  assumes "supports start (map_of blocks) h r" and "block_tree blocks"
  shows "\<exists>s p s' p'. map_of blocks h = Some (s, p) \<and> map_of blocks r = Some (s', p') \<and>
    s' \<le> s \<and> start < s' \<and> (r \<noteq> h \<longrightarrow> s' < s)"
  using assms
proof induction
  case (here r slot parent)
  then show ?case by auto
next
  case (up h slot parent r)
  then obtain s p s' p' where *: "map_of blocks parent = Some (s, p)" "map_of blocks r = Some (s', p')"
    "s' \<le> s" "start < s'" by blast
  from block_tree_parent [OF up.prems up.hyps(1) *(1)] have "s < slot" .
  with * up.hyps show ?case by auto
qed

lemma supports_parent_irrefl:
  assumes "block_tree blocks" and "map_of blocks h = Some (slot, p)"
  shows "\<not> supports start (map_of blocks) p h"
proof
  assume "supports start (map_of blocks) p h"
  from supports_slot [OF this assms(1)] obtain s q s' q' where
    "map_of blocks p = Some (s, q)" "map_of blocks h = Some (s', q')" "s' \<le> s" by blast
  with block_tree_parent [OF assms(1,2)] assms(2) show False by force
qed

lemma weight_bump [simp]: "weight (bump r w) q = weight w q + (if q = r then 1 else 0)"
  by (simp add: weight_def bump_def)

lemma walk_back_counts:
  assumes "block_tree blocks"
  shows "\<exists>w'. walk_back start blocks h w = Some w' \<and>
    (\<forall>r. weight w' r = weight w r + (if supports start (map_of blocks) h r then 1 else 0))"
proof (induction "case map_of blocks h of None \<Rightarrow> 0 | Some (slot, _) \<Rightarrow> Suc (unat slot)"
    arbitrary: h w rule: less_induct)
  case less
  show ?case
  proof (cases "map_of blocks h")
    case None
    then show ?thesis by (subst walk_back.simps) (simp add: supports_unfold)
  next
    case (Some sp)
    then obtain slot p where h: "map_of blocks h = Some (slot, p)" by (cases sp) auto
    show ?thesis
    proof (cases "start < slot")
      case False
      with h show ?thesis by (subst walk_back.simps) (simp add: supports_unfold)
    next
      case True
      have "(case map_of blocks p of None \<Rightarrow> 0 | Some (s, _) \<Rightarrow> Suc (unat s)) < Suc (unat slot)"
        using block_tree_parent [OF assms h] by (auto simp: word_less_nat_alt split: option.splits)
      with less [of p "bump h w"] h obtain w' where w': "walk_back start blocks p (bump h w) = Some w'"
        "\<forall>r. weight w' r = weight (bump h w) r + (if supports start (map_of blocks) p r then 1 else 0)" by auto
      have "walk_back start blocks h w = Some w'"
        using h True w'(1) by (subst walk_back.simps) simp
      moreover have "weight w' r = weight w r + (if supports start (map_of blocks) h r then 1 else 0)" for r
        using w'(2) h True supports_parent_irrefl [OF assms h, of start]
        by (auto simp: supports_unfold [of start blocks h])
      ultimately show ?thesis by blast
    qed
  qed
qed

lemma walk_all_counts:
  assumes "block_tree blocks"
  shows "\<exists>w'. walk_all start blocks ds w = Some w' \<and>
    (\<forall>r. weight w' r = weight w r +
       word_of_nat (length (filter (\<lambda>d. supports start (map_of blocks) (cp_root (ad_head d)) r) ds)))"
proof (induction ds arbitrary: w)
  case Nil
  then show ?case by simp
next
  case (Cons d ds)
  from walk_back_counts [OF assms, of start "cp_root (ad_head d)" w] obtain w1 where
    w1: "walk_back start blocks (cp_root (ad_head d)) w = Some w1"
    "\<forall>r. weight w1 r = weight w r + (if supports start (map_of blocks) (cp_root (ad_head d)) r then 1 else 0)" by blast
  from Cons.IH [of w1] w1 show ?case by (auto simp: algebra_simps)
qed

lemma compute_block_weights_counts:
  assumes "block_tree blocks"
  shows "\<exists>w. compute_block_weights start blocks atts = Some w \<and>
    (\<forall>r. weight w r = word_of_nat (length
       (filter (\<lambda>(_, d). supports start (map_of blocks) (cp_root (ad_head d)) r) atts)))"
  using walk_all_counts [OF assms, of start "map snd atts" "[]"]
  by (simp add: compute_block_weights_def weight_def filter_map o_def case_prod_unfold)

text \<open>Whoever supports a block supports every ancestor of it above the start slot.\<close>

lemma supports_trans:
  assumes "supports start (map_of blocks) h r" and "map_of blocks r = Some (slot, p)"
    and "map_of blocks p = Some (pslot, q)" and "start < pslot"
  shows "supports start (map_of blocks) h p"
  using assms
proof induction
  case (here r slot' parent)
  then show ?case by (auto intro: supports.intros)
next
  case (up h slot parent r)
  then show ?case by (auto intro: supports.up)
qed

section \<open>Descending to the head\<close>

lemma map_of_push_child:
  "map_of (push_child w m (root, slot, parent) cm) h =
     (if parent = h \<and> h \<noteq> 0 \<and> (m = 0 \<or> m \<le> weight w root)
      then Some ((case map_of cm h of None \<Rightarrow> [] | Some cs \<Rightarrow> cs) @ [root]) else map_of cm h)"
  by (auto simp: push_child_def not_less word_gt_0)

lemma map_of_children_map:
  "(case map_of (fold (push_child w m) bs cm) h of None \<Rightarrow> [] | Some cs \<Rightarrow> cs) =
     (case map_of cm h of None \<Rightarrow> [] | Some cs \<Rightarrow> cs) @
     map fst (filter (\<lambda>(root, _, parent). parent = h \<and> h \<noteq> 0 \<and> (m = 0 \<or> m \<le> weight w root)) bs)"
proof (induction bs arbitrary: cm)
  case Nil
  then show ?case by simp
next
  case (Cons b bs)
  obtain root slot parent where b: "b = (root, slot, parent)" by (cases b)
  show ?case unfolding b fold_Cons comp_apply Cons.IH by (auto simp: map_of_push_child)
qed

lemma set_children:
  assumes "distinct (map fst blocks)"
  shows "set (case map_of (children_map_of w m blocks) h of None \<Rightarrow> [] | Some cs \<Rightarrow> cs) =
    eligible_children (map_of blocks) (weight w) m h"
  using assms unfolding children_map_of_def map_of_children_map
  by (force simp: eligible_children_def map_of_eq_Some_iff)

lemma descend_unfold:
  "descend cm w h = (case max_by_key (\<lambda>root. (weight w root, root))
       (case map_of cm h of None \<Rightarrow> [] | Some cs \<Rightarrow> cs) of
     None \<Rightarrow> Some h | Some best \<Rightarrow> descend cm w best)"
  by (subst descend.simps) (simp split: option.splits)

lemma descend_ghost_path:
  assumes "block_tree blocks" and "map_of blocks h = Some (slot, p)"
  shows "\<exists>e. descend (children_map_of w m blocks) w h = Some e \<and>
    ghost_path (map_of blocks) (weight w) m h e \<and> map_of blocks e \<noteq> None"
  using assms(2)
proof (induction "2 ^ 64 - unat slot" arbitrary: h slot p rule: less_induct)
  case less
  let ?cs = "case map_of (children_map_of w m blocks) h of None \<Rightarrow> [] | Some cs \<Rightarrow> cs"
  let ?E = "eligible_children (map_of blocks) (weight w) m h"
  from assms(1) have E: "set ?cs = ?E" by (intro set_children) (simp add: block_tree_def)
  show ?case
  proof (cases "max_by_key (\<lambda>root. (weight w root, root)) ?cs")
    case None
    then have "?E = {}" using E by (simp only: max_by_key_None_iff) simp
    with None less.prems show ?thesis
      by (subst descend_unfold) (auto intro: ghost_path.stop)
  next
    case (Some c)
    note best = max_by_key_Some [OF Some]
    from best(1) E have c: "c \<in> ?E" by simp
    then obtain cslot where cs: "map_of blocks c = Some (cslot, h)" by (auto simp: eligible_children_def)
    from block_tree_parent [OF assms(1) cs less.prems] have "unat slot < unat cslot"
      by (simp add: word_less_nat_alt)
    then have "2 ^ 64 - unat cslot < 2 ^ 64 - unat slot" 
      using unat_less_u64 [of slot] by (intro diff_less_mono2) simp_all
    from less.hyps [OF this cs] obtain e where e: "descend (children_map_of w m blocks) w c = Some e"
      "ghost_path (map_of blocks) (weight w) m c e" "map_of blocks e \<noteq> None" by blast
    have "weight w r < weight w c \<or> weight w r = weight w c \<and> r \<le> c" if "r \<in> ?E" for r
      using best(2) [of r] that unfolding E [symmetric] by (auto simp: less_eq_prod_def)
    with c e(2) have "ghost_path (map_of blocks) (weight w) m h e" by (auto intro: ghost_path.step)
    moreover have "descend (children_map_of w m blocks) w h = Some e"
      using Some e(1) by (subst descend_unfold) simp
    ultimately show ?thesis using e(3) by blast
  qed
qed

lemma ghost_path_unique:
  assumes "ghost_path (map_of blocks) w m h e" and "ghost_path (map_of blocks) w m h e'"
  shows "e = e'"
  using assms
proof (induction arbitrary: e')
  case (stop h)
  then show ?case by (auto elim: ghost_pathE)
next
  case (step c h e)
  from step.prems consider (none) "eligible_children (map_of blocks) w m h = {}"
    | (best) c' where "c' \<in> eligible_children (map_of blocks) w m h" "ghost_path (map_of blocks) w m c' e'"
        "\<forall>r \<in> eligible_children (map_of blocks) w m h. w r < w c' \<or> w r = w c' \<and> r \<le> c'"
    by (rule ghost_pathE) blast+
  then show ?case
  proof cases
    case none
    with step.hyps show ?thesis by simp
  next
    case best
    with step.hyps have "c' = c" by (metis antisym less_asym less_irrefl)
    with best step.IH show ?thesis by simp
  qed
qed

section \<open>The whole function\<close>

lemma ghost_head_run:
  assumes "block_tree blocks" and "start \<noteq> 0" and "map_of blocks start = Some (slot, p)"
  shows "\<exists>h w. compute_lmd_ghost_head start blocks atts m = Some (h, w) \<and>
    ghost_path (map_of blocks) (weight w) m start h \<and> map_of blocks h \<noteq> None \<and>
    (\<forall>r. weight w r = word_of_nat (length
       (filter (\<lambda>(_, d). supports slot (map_of blocks) (cp_root (ad_head d)) r) atts)))"
proof -
  from compute_block_weights_counts [OF assms(1), of slot atts] obtain w where
    w: "compute_block_weights slot blocks atts = Some w"
    "\<forall>r. weight w r = word_of_nat (length
       (filter (\<lambda>(_, d). supports slot (map_of blocks) (cp_root (ad_head d)) r) atts))" by blast
  from descend_ghost_path [OF assms(1,3), of w m] obtain h where
    "descend (children_map_of w m blocks) w start = Some h"
    "ghost_path (map_of blocks) (weight w) m start h" "map_of blocks h \<noteq> None" by blast
  with w assms(2,3) show ?thesis by (auto simp: compute_lmd_ghost_head_def)
qed

lemma ghost_head_zero:
  assumes "blocks \<noteq> []" and "distinct (map fst blocks)" and "0 \<notin> fst ` set blocks"
  shows "\<exists>r slot p. compute_lmd_ghost_head 0 blocks atts m = compute_lmd_ghost_head r blocks atts m \<and>
    r \<noteq> 0 \<and> map_of blocks r = Some (slot, p) \<and> (\<forall>(_, s, _) \<in> set blocks. slot \<le> s)"
proof -
  from assms(1) obtain r slot p where mn: "min_by_key (\<lambda>(_, (slot, _)). slot) blocks = Some (r, slot, p)"
    by (cases "min_by_key (\<lambda>(_, (slot, _)). slot) blocks") auto
  from min_by_key_Some [OF mn] have mem: "(r, slot, p) \<in> set blocks"
    and le: "\<forall>(_, s, _) \<in> set blocks. slot \<le> s" by auto
  from mem assms have "r \<noteq> 0" "map_of blocks r = Some (slot, p)" by (force, simp)
  with mn le assms(1) show ?thesis
    by (intro exI [of _ r] exI [of _ slot] exI [of _ p]) (auto simp: compute_lmd_ghost_head_def)
qed

lemma block_tree_cong:
  assumes "block_tree blocks" and "map_of blocks = map_of blocks'" and "distinct (map fst blocks')"
  shows "block_tree blocks'"
proof -
  have "set blocks' = set blocks"
    using assms map_of_inject_set unfolding block_tree_def by blast
  with assms show ?thesis by (simp add: block_tree_def)
qed

section \<open>Properties\<close>

text \<open>
  C7. LMD-GHOST is total on block trees: both loops end, and the head is the end of the greedy
  descent from the start block, in which each step takes the eligible child with the greatest
  weight (the highest root on a tie) and stops at a block without eligible children. The weight of
  a block is the number of attestations whose head descends from it above the start slot.
\<close>

theorem ghost_head_is_greedy_descent:
  assumes "block_tree blocks" and "start \<noteq> 0" and "map_of blocks start = Some (slot, p)"
  shows "\<exists>h w. compute_lmd_ghost_head start blocks atts m = Some (h, w) \<and>
    ghost_path (map_of blocks) (weight w) m start h \<and> map_of blocks h \<noteq> None \<and>
    (\<forall>r. weight w r = word_of_nat (length
       (filter (\<lambda>(_, d). supports slot (map_of blocks) (cp_root (ad_head d)) r) atts)))"
  by (rule ghost_head_run [OF assms])

definition demo_blocks :: block_map where
  "demo_blocks = [(1, 0, 0), (2, 1, 1), (3, 2, 2), (4, 2, 2)]"

definition demo_votes :: vote_map where
  "demo_votes = [(0, demo_data 2 0 0\<lparr>ad_head := \<lparr>cp_root = 3, cp_slot = 2\<rparr>\<rparr>),
     (1, demo_data 2 0 0\<lparr>ad_head := \<lparr>cp_root = 4, cp_slot = 2\<rparr>\<rparr>)]"

lemma demo_blocks_tree: "block_tree demo_blocks"
  by (simp add: block_tree_def demo_blocks_def)

theorem ghost_head_is_greedy_descent_witness:
  "\<exists>h w. compute_lmd_ghost_head 1 demo_blocks demo_votes 0 = Some (h, w) \<and>
    ghost_path (map_of demo_blocks) (weight w) 0 1 h"
  using ghost_head_is_greedy_descent [OF demo_blocks_tree, of 1 0 0 demo_votes 0]
  by (auto simp: demo_blocks_def)

text \<open>
  With the zero root the start is a block of least slot, so on a non-empty tree without the
  zero root the head is a block of the tree in every case.
\<close>

lemma ghost_head_from_zero:
  assumes "block_tree blocks" and "blocks \<noteq> []" and "0 \<notin> fst ` set blocks"
  shows "\<exists>r slot p h w. map_of blocks r = Some (slot, p) \<and> (\<forall>(_, s, _) \<in> set blocks. slot \<le> s) \<and>
    compute_lmd_ghost_head 0 blocks atts m = Some (h, w) \<and> ghost_path (map_of blocks) (weight w) m r h"
proof -
  from assms have "distinct (map fst blocks)" by (simp add: block_tree_def)
  from ghost_head_zero [OF assms(2) this assms(3), of atts m] obtain r slot p where
    r: "compute_lmd_ghost_head 0 blocks atts m = compute_lmd_ghost_head r blocks atts m"
      "r \<noteq> 0" "map_of blocks r = Some (slot, p)" "\<forall>(_, s, _) \<in> set blocks. slot \<le> s" by blast
  with ghost_head_run [OF assms(1) r(2,3), of atts m] show ?thesis by metis
qed

text \<open>The head does not depend on the iteration order of the two hash maps.\<close>

lemma ghost_head_order_independent:
  assumes "block_tree blocks" and "map_of blocks = map_of blocks'" and "distinct (map fst blocks')"
    and "distinct (map fst atts)" and "distinct (map fst atts')" and "map_of atts = map_of atts'"
    and "start \<noteq> 0"
  shows "map_option fst (compute_lmd_ghost_head start blocks atts m) =
    map_option fst (compute_lmd_ghost_head start blocks' atts' m)"
proof (cases "map_of blocks start")
  case None
  with assms(2,7) show ?thesis by (simp add: compute_lmd_ghost_head_def)
next
  case (Some sp)
  then obtain slot p where st: "map_of blocks start = Some (slot, p)" by (cases sp) auto
  with assms(2) have st': "map_of blocks' start = Some (slot, p)" by simp
  have tree': "block_tree blocks'" by (rule block_tree_cong [OF assms(1-3)])
  from ghost_head_run [OF assms(1,7) st, of atts m] obtain h w where
    h: "compute_lmd_ghost_head start blocks atts m = Some (h, w)"
      "ghost_path (map_of blocks) (weight w) m start h"
      "\<forall>r. weight w r = word_of_nat (length
         (filter (\<lambda>(_, d). supports slot (map_of blocks) (cp_root (ad_head d)) r) atts))" by blast
  from ghost_head_run [OF tree' assms(7) st', of atts' m] obtain h' w' where
    h': "compute_lmd_ghost_head start blocks' atts' m = Some (h', w')"
      "ghost_path (map_of blocks) (weight w') m start h'"
      "\<forall>r. weight w' r = word_of_nat (length
         (filter (\<lambda>(_, d). supports slot (map_of blocks) (cp_root (ad_head d)) r) atts'))"
    unfolding assms(2) by blast
  have "weight w = weight w'"
    using h(3) h'(3) length_filter_map_of_cong [OF assms(4-6)] by (intro ext) metis
  with ghost_path_unique h(1,2) h'(1,2) show ?thesis by auto
qed

text \<open>
  Weights accumulate towards the start: a block's weight is at most that of its parent, where
  the parent is itself above the start slot.
\<close>

lemma weight_child_le_parent:
  assumes "block_tree blocks" and "compute_block_weights start_slot blocks atts = Some w"
    and "length atts < 2 ^ 64" and "map_of blocks c = Some (slot, p)"
    and "map_of blocks p = Some (pslot, q)" and "start_slot < pslot"
  shows "weight w c \<le> weight w p"
proof -
  let ?P = "\<lambda>r (_ :: u64, d). supports start_slot (map_of blocks) (cp_root (ad_head d)) r"
  have w: "weight w r = word_of_nat (length (filter (?P r) atts))" for r
    using compute_block_weights_counts [OF assms(1), of start_slot atts] assms(2) by auto
  have un: "unat (weight w r) = length (filter (?P r) atts)" for r
    using le_less_trans [OF length_filter_le assms(3)] unfolding w by (simp add: unat_of_nat)
  have "length (filter (?P c) atts) \<le> length (filter (?P p) atts)"
    by (rule length_filter_mono) (auto intro: supports_trans [OF _ assms(4-6)])
  then show ?thesis by (simp add: word_le_nat_alt un)
qed

end
