(* ===== verification/Chain_Store.thy ===== *)
theory Chain_Store
  imports Block_Building Storage_Properties Fork_Choice
begin

text \<open>
  The fork-choice store operations of \<open>crates/blockchain/src/store.rs\<close>: head and safe target,
  aggregation of gossip signatures, validation of attestations, ticks, gossip handlers, blocks,
  attestation targets and block production.

  A handler on \<open>&mut Store\<close> returns the store it leaves behind together with its outcome, so that
  what an error leaves in the store is part of the model; after a panic the store is irrelevant. A
  handler that runs fork choice may in principle not return, so its value is an option. Reorg depth
  feeds a metric only and is a function of its own; metrics and logging have no counterpart.
\<close>

section \<open>Constants\<close>

definition MILLISECONDS_PER_INTERVAL :: u64 where
  "MILLISECONDS_PER_INTERVAL = 800"

definition INTERVALS_PER_SLOT :: u64 where
  "INTERVALS_PER_SLOT = 5"

definition MILLISECONDS_PER_SLOT :: u64 where
  "MILLISECONDS_PER_SLOT = MILLISECONDS_PER_INTERVAL * INTERVALS_PER_SLOT"

definition JUSTIFICATION_LOOKBACK_SLOTS :: nat where
  "JUSTIFICATION_LOOKBACK_SLOTS = 3"

definition ATTESTATION_COMMITTEE_COUNT :: u64 where
  "ATTESTATION_COMMITTEE_COUNT = 1"

definition MAX_REORG_DEPTH :: nat where
  "MAX_REORG_DEPTH = 128"

definition compute_subnet_id :: "u64 \<Rightarrow> u64" where
  "compute_subnet_id validator_id = validator_id mod ATTESTATION_COMMITTEE_COUNT"

section \<open>Head and safe target\<close>

function reorg_walk :: "store \<Rightarrow> u64 \<Rightarrow> H256 \<Rightarrow> H256 \<Rightarrow> nat \<Rightarrow> nat option" where
  "reorg_walk s target_slot target_root current_root depth =
     (case get_block_header s current_root of
        None \<Rightarrow> None
      | Some current_header \<Rightarrow>
          if hdr_slot current_header \<le> target_slot
          then (if current_root \<noteq> target_root then Some depth else None)
          else if depth + 1 \<ge> MAX_REORG_DEPTH then Some (depth + 1)
          else reorg_walk s target_slot target_root (hdr_parent_root current_header) (depth + 1))"
  by pat_completeness auto
termination by (relation "measure (\<lambda>(_, _, _, _, depth). MAX_REORG_DEPTH - depth)") auto

declare reorg_walk.simps [simp del]

definition reorg_depth :: "H256 \<Rightarrow> H256 \<Rightarrow> store \<Rightarrow> nat option" where
  "reorg_depth old_head new_head s =
     (if new_head = old_head then None
      else Option.bind (get_block_header s old_head) (\<lambda>old_head_header.
        Option.bind (get_block_header s new_head) (\<lambda>new_head_header.
          (let old_slot = hdr_slot old_head_header; new_slot = hdr_slot new_head_header
           in if new_slot \<ge> old_slot then reorg_walk s old_slot old_head new_head 0
              else reorg_walk s new_slot new_head old_head 0))))"

definition update_head :: "store \<Rightarrow> store option" where
  "update_head s =
     Option.bind (compute_lmd_ghost_head (cp_root (s_latest_justified s)) (get_live_chain s)
                    (extract_latest_known_attestations s) 0)
       (\<lambda>(new_head, _). Some (update_checkpoints (head_only new_head) s))"

definition accept_new_attestations :: "store \<Rightarrow> store option" where
  "accept_new_attestations s = update_head (promote_new_aggregated_payloads s)"

definition update_safe_target :: "store \<Rightarrow> (store, store_error) result option" where
  "update_safe_target s =
     (case get_state s (s_head s) of
        None \<Rightarrow> Some Panic
      | Some st \<Rightarrow>
          (let num_validators = word_of_nat (length (st_validators st));
               min_target_score = div_ceil (num_validators * 2) 3;
               all_keys = remdups (iter_known_aggregated_payload_keys s @ iter_new_aggregated_payload_keys s);
               attestations = extract_latest_attestations s all_keys
           in Option.bind (compute_lmd_ghost_head (cp_root (s_latest_justified s)) (get_live_chain s)
                             attestations min_target_score)
                (\<lambda>(safe_target, _). Some (Ok (set_safe_target safe_target s)))))"

section \<open>Aggregating gossip signatures\<close>

text \<open>Groups are in the order of their first signature, where the code iterates over a hash map.\<close>

definition group_signature ::
  "('pk, 'sig, 'sk) crypto \<Rightarrow> signature_key \<times> stored_signature \<Rightarrow>
   (H256 \<times> (u64 \<times> 'sig) list) list \<Rightarrow> (H256 \<times> (u64 \<times> 'sig) list) list" where
  "group_signature C = (\<lambda>((validator_id, data_root), stored_sig) groups.
     case to_validator_signature C stored_sig of
       None \<Rightarrow> groups
     | Some sig \<Rightarrow>
         AList.update data_root
           ((case map_of groups data_root of None \<Rightarrow> [] | Some g \<Rightarrow> g) @ [(validator_id, sig)]) groups)"

text \<open>The signatures of a group whose validator exists and has a decodable key.\<close>

definition usable_signature ::
  "('pk, 'sig, 'sk) crypto \<Rightarrow> validator list \<Rightarrow> u64 \<times> 'sig \<Rightarrow> (u64 \<times> 'pk \<times> 'sig) option" where
  "usable_signature C validators = (\<lambda>(vid, sig).
     if unat vid < length validators
     then (case get_pubkey C (validators ! unat vid) of
             None \<Rightarrow> None | Some pubkey \<Rightarrow> Some (vid, pubkey, sig))
     else None)"

record aggregation_acc =
  ga_aggregates :: "signed_aggregated_attestation list"
  ga_payloads :: "(signature_key \<times> stored_aggregated_payload) list"
  ga_deletes :: "signature_key list"

definition aggregate_group ::
  "('pk, 'sig, 'sk) crypto \<Rightarrow> store \<Rightarrow> validator list \<Rightarrow> H256 \<times> (u64 \<times> 'sig) list \<Rightarrow>
   aggregation_acc \<Rightarrow> (aggregation_acc, store_error) result" where
  "aggregate_group C s validators = (\<lambda>(data_root, validators_and_sigs) acc.
     case get_attestation_data_by_root s data_root of
       None \<Rightarrow> Ok acc
     | Some data \<Rightarrow>
         (let usable = List.map_filter (usable_signature C validators) validators_and_sigs;
              ids = map fst usable
          in if ids = [] then Ok acc
             else
               (case aggregate_signatures C (map (fst \<circ> snd) usable) (map (snd \<circ> snd) usable)
                       data_root (ucast (ad_slot data)) of
                  Ok proof_data \<Rightarrow>
                    bind_res (aggregation_bits_from_validator_indices ids) (\<lambda>participants.
                      (let p = \<lparr>asp_participants = participants, asp_proof_data = proof_data\<rparr>;
                           payload = \<lparr>sap_slot = ad_slot data, sap_proof = p\<rparr>
                       in Ok \<lparr>ga_aggregates = ga_aggregates acc @ [\<lparr>saa_data = data, saa_proof = p\<rparr>],
                              ga_payloads = ga_payloads acc @ map (\<lambda>vid. ((vid, data_root), payload)) ids,
                              ga_deletes = ga_deletes acc @ map (\<lambda>vid. (vid, data_root)) ids\<rparr>))
                | _ \<Rightarrow> Ok acc)))"

definition aggregate_committee_signatures ::
  "('pk, 'sig, 'sk) crypto \<Rightarrow> store \<Rightarrow> (store \<times> signed_aggregated_attestation list, store_error) result"
where
  "aggregate_committee_signatures C s =
     (let gossip_sigs = iter_gossip_signatures s
      in if gossip_sigs = [] then Ok (s, [])
         else
           bind_res (head_state s) (\<lambda>st.
             (let groups = fold (group_signature C) gossip_sigs []
              in bind_res (fold_res (aggregate_group C s (st_validators st)) groups
                             \<lparr>ga_aggregates = [], ga_payloads = [], ga_deletes = []\<rparr>)
                   (\<lambda>acc. Ok (delete_gossip_signatures (ga_deletes acc)
                                (insert_new_aggregated_payloads_batch (ga_payloads acc) s),
                              ga_aggregates acc)))))"

section \<open>Validation of attestation data\<close>

definition validate_attestation_data :: "store \<Rightarrow> attestation_data \<Rightarrow> (unit, store_error) result" where
  "validate_attestation_data s data =
     bind_res (ok_or (get_block_header s (cp_root (ad_source data))) (UnknownSourceBlock (cp_root (ad_source data))))
       (\<lambda>source_header.
     bind_res (ok_or (get_block_header s (cp_root (ad_target data))) (UnknownTargetBlock (cp_root (ad_target data))))
       (\<lambda>target_header.
     bind_res (ok_or (get_block_header s (cp_root (ad_head data))) (UnknownHeadBlock (cp_root (ad_head data))))
       (\<lambda>head_header.
         if cp_slot (ad_source data) > cp_slot (ad_target data) then Err SourceExceedsTarget
         else if cp_slot (ad_head data) < cp_slot (ad_target data)
         then Err (HeadOlderThanTarget (cp_slot (ad_head data)) (cp_slot (ad_target data)))
         else if hdr_slot source_header \<noteq> cp_slot (ad_source data)
         then Err (SourceSlotMismatch (cp_slot (ad_source data)) (hdr_slot source_header))
         else if hdr_slot target_header \<noteq> cp_slot (ad_target data)
         then Err (TargetSlotMismatch (cp_slot (ad_target data)) (hdr_slot target_header))
         else if hdr_slot head_header \<noteq> cp_slot (ad_head data)
         then Err (HeadSlotMismatch (cp_slot (ad_head data)) (hdr_slot head_header))
         else
           (let current_slot = s_time s div INTERVALS_PER_SLOT
            in if ad_slot data > current_slot + 1
               then Err (AttestationTooFarInFuture (ad_slot data) current_slot)
               else Ok ()))))"

section \<open>Ticks\<close>

text \<open>What one interval of a slot does; the fifth interval number is unreachable.\<close>

definition tick_interval ::
  "('pk, 'sig, 'sk) crypto \<Rightarrow> bool \<Rightarrow> bool \<Rightarrow> u64 \<Rightarrow> store \<Rightarrow>
   (store \<times> signed_aggregated_attestation list, store_error) result option" where
  "tick_interval C should_signal_proposal is_aggregator interval s =
     (if interval = 0
      then (if should_signal_proposal
            then map_option (\<lambda>s'. Ok (s', [])) (accept_new_attestations s) else Some (Ok (s, [])))
      else if interval = 1 then Some (Ok (s, []))
      else if interval = 2
      then (if is_aggregator then Some (aggregate_committee_signatures C s) else Some (Ok (s, [])))
      else if interval = 3 then bind_run (update_safe_target s) (\<lambda>s'. Some (Ok (s', [])))
      else if interval = 4 then map_option (\<lambda>s'. Ok (s', [])) (accept_new_attestations s)
      else Some Panic)"

partial_function (option) tick_loop ::
  "('pk, 'sig, 'sk) crypto \<Rightarrow> bool \<Rightarrow> bool \<Rightarrow> u64 \<Rightarrow> store \<Rightarrow> signed_aggregated_attestation list \<Rightarrow>
   (store \<times> signed_aggregated_attestation list, store_error) result option" where
  [code]: "tick_loop C has_proposal is_aggregator time s new_aggregates =
     (if s_time s < time
      then
        Option.bind (tick_interval C (has_proposal \<and> s_time s + 1 = time) is_aggregator
                       ((s_time s + 1) mod INTERVALS_PER_SLOT) (set_time (s_time s + 1) s))
          (\<lambda>r. case r of
                 Ok (s', aggregates) \<Rightarrow>
                   tick_loop C has_proposal is_aggregator time s' (new_aggregates @ aggregates)
               | Err e \<Rightarrow> Some (Err e)
               | Panic \<Rightarrow> Some Panic)
      else Some (Ok (s, new_aggregates)))"

definition tick_time :: "store \<Rightarrow> u64 \<Rightarrow> u64" where
  "tick_time s timestamp_ms =
     saturating_sub timestamp_ms (cc_genesis_time (s_config s) * 1000) div MILLISECONDS_PER_INTERVAL"

definition on_tick ::
  "('pk, 'sig, 'sk) crypto \<Rightarrow> store \<Rightarrow> u64 \<Rightarrow> bool \<Rightarrow> bool \<Rightarrow>
   (store \<times> signed_aggregated_attestation list, store_error) result option" where
  "on_tick C s timestamp_ms has_proposal is_aggregator =
     (let time = tick_time s timestamp_ms;
          s1 = (if saturating_sub time (s_time s) > INTERVALS_PER_SLOT
                then set_time (time - INTERVALS_PER_SLOT) s else s)
      in tick_loop C has_proposal is_aggregator time s1 [])"

section \<open>Gossip\<close>

definition in_our_subnet :: "u64 list \<Rightarrow> u64 \<Rightarrow> bool" where
  "in_our_subnet local_validator_ids validator_id =
     list_ex (\<lambda>vid. compute_subnet_id vid = compute_subnet_id validator_id) local_validator_ids"

text \<open>The checks of a gossiped attestation; what passes is the decoded signature.\<close>

definition check_gossip_attestation ::
  "hashing \<Rightarrow> ('pk, 'sig, 'sk) crypto \<Rightarrow> store \<Rightarrow> signed_attestation \<Rightarrow> ('sig, store_error) result" where
  "check_gossip_attestation H C s sa =
     (let data = sa_data sa; validator_id = sa_validator_id sa; data_root = h_data H data
      in bind_res (validate_attestation_data s data) (\<lambda>_.
         bind_res (ok_or (get_state s (cp_root (ad_target data))) (MissingTargetState (cp_root (ad_target data))))
           (\<lambda>target_state.
             if validator_id \<ge> word_of_nat (length (st_validators target_state))
             then Err InvalidValidatorIndex
             else
               bind_res (ok_or (get_pubkey C (st_validators target_state ! unat validator_id))
                           (PubkeyDecodingFailed validator_id)) (\<lambda>validator_pubkey.
               bind_res (try_u32 (ad_slot data)) (\<lambda>slot.
               bind_res (ok_or (c_signature C (sa_signature sa)) SignatureDecodingFailed) (\<lambda>signature.
                 if c_verify C validator_pubkey slot data_root signature then Ok signature
                 else Err SignatureVerificationFailed))))))"

definition on_gossip_attestation ::
  "hashing \<Rightarrow> ('pk, 'sig, 'sk) crypto \<Rightarrow> store \<Rightarrow> signed_attestation \<Rightarrow> u64 list \<Rightarrow>
   store \<times> (unit, store_error) result" where
  "on_gossip_attestation H C s sa local_validator_ids =
     (case check_gossip_attestation H C s sa of
        Err e \<Rightarrow> (s, Err e)
      | Panic \<Rightarrow> (s, Panic)
      | Ok signature \<Rightarrow>
          (let data = sa_data sa; data_root = h_data H data;
               s1 = insert_attestation_data_by_root data_root data s
           in (if in_our_subnet local_validator_ids (sa_validator_id sa)
               then insert_gossip_signature C data_root (ad_slot data) (sa_validator_id sa) signature s1
               else s1, Ok ())))"

definition check_gossip_aggregate ::
  "hashing \<Rightarrow> ('pk, 'sig, 'sk) crypto \<Rightarrow> store \<Rightarrow> signed_aggregated_attestation \<Rightarrow> (unit, store_error) result"
where
  "check_gossip_aggregate H C s aggregated =
     (let data = saa_data aggregated; ids = participant_indices (saa_proof aggregated)
      in bind_res (validate_attestation_data s data) (\<lambda>_.
         bind_res (ok_or (get_state s (cp_root (ad_target data))) (MissingTargetState (cp_root (ad_target data))))
           (\<lambda>target_state.
             if list_ex (\<lambda>vid. vid \<ge> word_of_nat (length (st_validators target_state))) ids
             then Err InvalidValidatorIndex
             else
               bind_res (validator_pubkeys C (st_validators target_state) ids) (\<lambda>pubkeys.
               bind_res (try_u32 (ad_slot data)) (\<lambda>slot.
                 map_err AggregateVerificationFailed
                   (verify_aggregated_signature C (asp_proof_data (saa_proof aggregated)) pubkeys
                      (h_data H data) slot))))))"

definition on_gossip_aggregated_attestation ::
  "hashing \<Rightarrow> ('pk, 'sig, 'sk) crypto \<Rightarrow> store \<Rightarrow> signed_aggregated_attestation \<Rightarrow>
   store \<times> (unit, store_error) result" where
  "on_gossip_aggregated_attestation H C s aggregated =
     (case check_gossip_aggregate H C s aggregated of
        Err e \<Rightarrow> (s, Err e)
      | Panic \<Rightarrow> (s, Panic)
      | Ok _ \<Rightarrow>
          (let data = saa_data aggregated; data_root = h_data H data;
               s1 = insert_attestation_data_by_root data_root data s;
               payload = \<lparr>sap_slot = ad_slot data, sap_proof = saa_proof aggregated\<rparr>
           in (insert_new_aggregated_payloads_batch
                 (map (\<lambda>vid. ((vid, data_root), payload)) (participant_indices (saa_proof aggregated))) s1,
               Ok ())))"

section \<open>Blocks\<close>

text \<open>The checkpoints of the post-state that are ahead of the store's.\<close>

definition advance_checkpoints :: "state \<Rightarrow> store \<Rightarrow> store" where
  "advance_checkpoints post_state s =
     (let justified = (if cp_slot (st_latest_justified post_state) > cp_slot (s_latest_justified s)
                       then Some (st_latest_justified post_state) else None);
          finalized = (if cp_slot (st_latest_finalized post_state) > cp_slot (s_latest_finalized s)
                       then Some (st_latest_finalized post_state) else None)
      in if justified \<noteq> None \<or> finalized \<noteq> None
         then update_checkpoints (fork_checkpoints_new (s_head s) justified finalized) s else s)"

definition body_data_entries ::
  "hashing \<Rightarrow> (aggregated_attestation \<times> aggregated_signature_proof) list \<Rightarrow> (H256 \<times> attestation_data) list"
where
  "body_data_entries H aps = map (\<lambda>(att, _). (h_data H (aa_data att), aa_data att)) aps"

definition body_payload_entries ::
  "hashing \<Rightarrow> (aggregated_attestation \<times> aggregated_signature_proof) list \<Rightarrow>
   (signature_key \<times> stored_aggregated_payload) list" where
  "body_payload_entries H aps =
     concat (map (\<lambda>(att, p). map (\<lambda>vid. ((vid, h_data H (aa_data att)),
                \<lparr>sap_slot = ad_slot (aa_data att), sap_proof = p\<rparr>))
              (validator_indices (aa_aggregation_bits att))) aps)"

text \<open>Everything an accepted block writes before the head is recomputed.\<close>

definition record_block ::
  "hashing \<Rightarrow> signed_block_with_attestation \<Rightarrow> state \<Rightarrow> store \<Rightarrow> store" where
  "record_block H signed_block post_state0 s =
     (let b = bwa_block (sb_message signed_block);
          block_root = h_block H b;
          pa = bwa_proposer_attestation (sb_message signed_block);
          aps = zip (body_attestations (blk_body b)) (bs_attestation_signatures (sb_signature signed_block));
          post_state = post_state0\<lparr>st_latest_block_header :=
                         (st_latest_block_header post_state0)\<lparr>hdr_state_root := blk_state_root b\<rparr>\<rparr>
      in insert_known_aggregated_payloads_batch (body_payload_entries H aps)
           (insert_attestation_data_by_root_batch
              (body_data_entries H aps @ [(h_data H (att_data pa), att_data pa)])
              (insert_state block_root post_state
                 (insert_signed_block H block_root signed_block
                    (advance_checkpoints post_state s)))))"

text \<open>The proposer's own attestation, recorded after the head is recomputed.\<close>

definition record_proposer_attestation ::
  "hashing \<Rightarrow> ('pk, 'sig, 'sk) crypto \<Rightarrow> signed_block_with_attestation \<Rightarrow> bool \<Rightarrow> u64 list \<Rightarrow> store \<Rightarrow>
   store \<times> (unit, store_error) result" where
  "record_proposer_attestation H C signed_block verify local_validator_ids s =
     (let pa = bwa_proposer_attestation (sb_message signed_block);
          proposer_vid = att_validator_id pa;
          data_root = h_data H (att_data pa)
      in if \<not> verify
         then (case aggregation_bits_from_validator_indices [proposer_vid] of
                 Ok participants \<Rightarrow>
                   (insert_new_aggregated_payload (proposer_vid, data_root)
                      \<lparr>sap_slot = ad_slot (att_data pa), sap_proof = proof_empty participants\<rparr> s, Ok ())
               | Err e \<Rightarrow> (s, Err e)
               | Panic \<Rightarrow> (s, Panic))
         else if in_our_subnet local_validator_ids proposer_vid
         then (case c_signature C (bs_proposer_signature (sb_signature signed_block)) of
                 None \<Rightarrow> (s, Err SignatureDecodingFailed)
               | Some proposer_sig \<Rightarrow>
                   (insert_gossip_signature C data_root (ad_slot (att_data pa)) proposer_vid proposer_sig s,
                    Ok ()))
         else (s, Ok ()))"

definition on_block_core ::
  "hashing \<Rightarrow> ('pk, 'sig, 'sk) crypto \<Rightarrow> store \<Rightarrow> signed_block_with_attestation \<Rightarrow> bool \<Rightarrow> u64 list \<Rightarrow>
   (store \<times> (unit, store_error) result) option" where
  "on_block_core H C s signed_block verify local_validator_ids =
     (let b = bwa_block (sb_message signed_block); block_root = h_block H b
      in if has_state s block_root then Some (s, Ok ())
         else
           (case get_state s (blk_parent_root b) of
              None \<Rightarrow> Some (s, Err (MissingParentState (blk_parent_root b) (blk_slot b)))
            | Some parent_state \<Rightarrow>
                (case (if verify then verify_signatures H C parent_state signed_block else Ok ()) of
                   Err e \<Rightarrow> Some (s, Err e)
                 | Panic \<Rightarrow> Some (s, Panic)
                 | Ok _ \<Rightarrow>
                     (case state_transition H parent_state b of
                        Err e \<Rightarrow> Some (s, Err (StateTransitionFailed e))
                      | Panic \<Rightarrow> Some (s, Panic)
                      | Ok post_state \<Rightarrow>
                          map_option (record_proposer_attestation H C signed_block verify local_validator_ids)
                            (update_head (record_block H signed_block post_state s))))))"

definition on_block ::
  "hashing \<Rightarrow> ('pk, 'sig, 'sk) crypto \<Rightarrow> store \<Rightarrow> signed_block_with_attestation \<Rightarrow> u64 list \<Rightarrow>
   (store \<times> (unit, store_error) result) option" where
  "on_block H C s signed_block local_validator_ids = on_block_core H C s signed_block True local_validator_ids"

definition on_block_without_verification ::
  "hashing \<Rightarrow> ('pk, 'sig, 'sk) crypto \<Rightarrow> store \<Rightarrow> signed_block_with_attestation \<Rightarrow>
   (store \<times> (unit, store_error) result) option" where
  "on_block_without_verification H C s signed_block = on_block_core H C s signed_block False []"

section \<open>Attestation targets\<close>

text \<open>At most three steps back towards the safe target.\<close>

fun look_back :: "nat \<Rightarrow> store \<Rightarrow> u64 \<Rightarrow> H256 \<Rightarrow> block_header \<Rightarrow> (H256 \<times> block_header, store_error) result" where
  "look_back 0 s safe_slot root header = Ok (root, header)"
| "look_back (Suc n) s safe_slot root header =
     (if hdr_slot header > safe_slot
      then bind_res (expect (get_block_header s (hdr_parent_root header)))
             (\<lambda>parent. look_back n s safe_slot (hdr_parent_root header) parent)
      else Ok (root, header))"

partial_function (option) walk_to_justifiable ::
  "store \<Rightarrow> u64 \<Rightarrow> H256 \<Rightarrow> block_header \<Rightarrow> (H256 \<times> block_header, store_error) result option" where
  [code]: "walk_to_justifiable s finalized_slot root header =
     (if hdr_slot header > finalized_slot \<and> \<not> slot_is_justifiable_after (hdr_slot header) finalized_slot
      then (case get_block_header s (hdr_parent_root header) of
              None \<Rightarrow> Some Panic
            | Some parent \<Rightarrow> walk_to_justifiable s finalized_slot (hdr_parent_root header) parent)
      else Some (Ok (root, header)))"

definition get_attestation_target :: "store \<Rightarrow> (checkpoint, store_error) result option" where
  "get_attestation_target s =
     bind_run (Some (expect (get_block_header s (s_head s)))) (\<lambda>head_header.
     bind_run (Some (safe_target_slot s)) (\<lambda>safe_slot.
     bind_run (Some (look_back JUSTIFICATION_LOOKBACK_SLOTS s safe_slot (s_head s) head_header))
       (\<lambda>(root1, header1).
     bind_run (walk_to_justifiable s (cp_slot (s_latest_finalized s)) root1 header1)
       (\<lambda>(root, header).
         if hdr_slot header < cp_slot (s_latest_justified s) then Some (Ok (s_latest_justified s))
         else Some (Ok \<lparr>cp_root = root, cp_slot = hdr_slot header\<rparr>)))))"

definition produce_attestation_data :: "store \<Rightarrow> u64 \<Rightarrow> (attestation_data, store_error) result option" where
  "produce_attestation_data s slot =
     bind_run (Some (head_slot s)) (\<lambda>h.
     bind_run (get_attestation_target s) (\<lambda>target.
       Some (Ok \<lparr>ad_slot = slot, ad_head = \<lparr>cp_root = s_head s, cp_slot = h\<rparr>,
                 ad_target = target, ad_source = s_latest_justified s\<rparr>)))"

section \<open>Producing a block\<close>

definition get_proposal_head ::
  "('pk, 'sig, 'sk) crypto \<Rightarrow> store \<Rightarrow> u64 \<Rightarrow> (store \<times> H256, store_error) result option" where
  "get_proposal_head C s slot =
     (let slot_time_ms = cc_genesis_time (s_config s) * 1000 + slot * MILLISECONDS_PER_SLOT
      in bind_run (on_tick C s slot_time_ms True False) (\<lambda>(s1, _).
           map_option (\<lambda>s2. Ok (s2, s_head s2)) (accept_new_attestations s1)))"

definition build_on_head ::
  "hashing \<Rightarrow> store \<Rightarrow> H256 \<Rightarrow> u64 \<Rightarrow> u64 \<Rightarrow> (block \<times> aggregated_signature_proof list, store_error) result"
where
  "build_on_head H s head_root slot validator_index =
     bind_res (ok_or (get_state s head_root) (MissingParentState head_root slot)) (\<lambda>st.
       if \<not> is_proposer validator_index slot (word_of_nat (length (st_validators st)))
       then Err (NotProposer validator_index slot)
       else
         (let known_payloads = iter_known_aggregated_payloads s;
              known_attestations = extract_latest_attestations s (map fst known_payloads);
              available = map (\<lambda>(v, data). \<lparr>att_validator_id = v, att_data = data\<rparr>) known_attestations;
              payloads = collect_map (map (\<lambda>(key, sps). (key, map sap_proof sps)) known_payloads)
          in bind_res (build_block H st slot validator_index head_root available (get_block_roots s) payloads)
               (\<lambda>(b, _, signatures). Ok (b, signatures))))"

definition produce_block_with_signatures ::
  "hashing \<Rightarrow> ('pk, 'sig, 'sk) crypto \<Rightarrow> store \<Rightarrow> u64 \<Rightarrow> u64 \<Rightarrow>
   (store \<times> (block \<times> aggregated_signature_proof list, store_error) result) option" where
  "produce_block_with_signatures H C s slot validator_index =
     Option.bind (get_proposal_head C s slot)
       (\<lambda>r. case r of
              Ok (s1, head_root) \<Rightarrow> Some (s1, build_on_head H s1 head_root slot validator_index)
            | Err e \<Rightarrow> Some (s, Err e)
            | Panic \<Rightarrow> Some (s, Panic))"

end
