(* ===== verification/Chain_Invariant.thy ===== *)
theory Chain_Invariant
  imports Chain_Store
begin

text \<open>
  The invariant of the store of a running node. The live chain is a finite tree of blocks whose
  slots grow from parent to child (\<open>live_tree\<close>), every live block has its header and its state
  (\<open>chain_ok\<close>), and every stored state remembers the history of its own chain (\<open>state_tracked\<close>).
  Most operations do not touch the tables the invariant reads: the locale \<open>chain_neutral\<close> states
  that once and is interpreted for each of them. The others (block import, checkpoint updates, head
  and safe target updates) are shown to return and to keep the invariant one by one.
\<close>

section \<open>The live chain as a block tree\<close>

definition live_tree :: "((u64 \<times> H256) \<times> H256) list \<Rightarrow> bool" where
  "live_tree t \<longleftrightarrow>
     (\<forall>slot slot' r p p'. ((slot, r), p) \<in> set t \<longrightarrow> ((slot', r), p') \<in> set t \<longrightarrow> slot = slot') \<and>
     (\<forall>slot r p pslot q. ((slot, r), p) \<in> set t \<longrightarrow> ((pslot, p), q) \<in> set t \<longrightarrow> pslot < slot)"

lemma live_chain_lookup:
  assumes "tbl_sorted encode_live_chain_key (t_live_chain s)" and "live_tree (t_live_chain s)"
  shows "map_of (get_live_chain s) r = Some (slot, p) \<longleftrightarrow> ((slot, r), p) \<in> set (t_live_chain s)"
proof -
  let ?f = "\<lambda>((slot, root), parent_root). (root, (slot, parent_root))"
  let ?t = "t_live_chain s"
  have d: "distinct (map fst ?t)" by (rule tbl_sorted_distinct [OF assms(1)])
  have uniq: "e = e'" if "e \<in> set ?t" "e' \<in> set ?t" "fst (?f e) = fst (?f e')" for e e'
  proof -
    obtain sl rt q where e: "e = ((sl, rt), q)" by (metis prod.exhaust)
    obtain sl' rt' q' where e': "e' = ((sl', rt'), q')" by (metis prod.exhaust)
    from that(3) have rt: "rt' = rt" by (simp add: e e')
    note e = e e' [unfolded rt]
    with that assms(2) have "sl = sl'" unfolding live_tree_def by blast
    with e that(1,2) d show ?thesis by (metis eq_key_imp_eq_value)
  qed
  have "distinct ?t" using d by (simp add: distinct_map)
  then have "distinct (map fst (rev (map ?f ?t)))"
    using uniq unfolding rev_map [symmetric] by (auto simp: distinct_map intro!: inj_onI)
  then have "map_of (rev (map ?f ?t)) r = Some (slot, p) \<longleftrightarrow> (r, slot, p) \<in> set (rev (map ?f ?t))"
    by (rule map_of_eq_Some_iff)
  then show ?thesis by (force simp: get_live_chain_def map_of_collect_map)
qed

lemma live_chain_block_tree:
  assumes "tbl_sorted encode_live_chain_key (t_live_chain s)" and "live_tree (t_live_chain s)"
  shows "block_tree (get_live_chain s)"
proof -
  note look = live_chain_lookup [OF assms]
  have d: "distinct (map fst (get_live_chain s))" by (simp add: get_live_chain_def)
  have "case map_of (get_live_chain s) p of None \<Rightarrow> True | Some (pslot, _) \<Rightarrow> pslot < slot"
    if "(r, slot, p) \<in> set (get_live_chain s)" for r slot p
  proof (cases "map_of (get_live_chain s) p")
    case (Some x)
    then obtain pslot q where x: "map_of (get_live_chain s) p = Some (pslot, q)" by (cases x) auto
    from that d have "map_of (get_live_chain s) r = Some (slot, p)" by simp
    then have "((slot, r), p) \<in> set (t_live_chain s)" and "((pslot, p), q) \<in> set (t_live_chain s)"
      using x by (simp_all only: look)
    with assms(2) have "pslot < slot" unfolding live_tree_def by blast
    with x show ?thesis by simp
  qed simp
  with d show ?thesis unfolding block_tree_def by blast
qed

section \<open>What a transition adds to the history\<close>

lemma state_transition_history:
  assumes wf: "wf_state s" and run: "state_transition H s b = Ok s'"
  shows "\<exists>n. st_historical_block_hashes s' =
      st_historical_block_hashes s @ [blk_parent_root b] @ replicate n 0"
    and "cp_slot (st_latest_justified s') = cp_slot (st_latest_justified s) \<or>
      (unat (cp_slot (st_latest_justified s')) < length (st_historical_block_hashes s') \<and>
       st_historical_block_hashes s' ! unat (cp_slot (st_latest_justified s')) =
         cp_root (st_latest_justified s') \<and> cp_root (st_latest_justified s') \<noteq> 0)"
    and "hdr_slot (st_latest_block_header s) < blk_slot b"
proof -
  from run obtain s1 s2 where st: "process_slots H s (blk_slot b) = Ok s1"
    "process_block_header H s1 b = Ok s2"
    "process_attestations s2 (body_attestations (blk_body b)) = Ok s'" by (rule state_transition_Ok_steps)
  have w1: "wf_state s1" by (rule process_slots_wf [OF wf st(1)])
  have w2: "wf_state s2" by (rule header_wf [OF w1 st(2)])
  note a = process_attestations_wf(7) [OF w2 st(3)] and h = header_Ok(2) [OF w1 st(2)]
  have s1: "st_historical_block_hashes s1 = st_historical_block_hashes s"
    "st_latest_justified s1 = st_latest_justified s"
    "hdr_slot (st_latest_block_header s1) = hdr_slot (st_latest_block_header s)"
    using st(1) by (auto simp: process_slots_Ok_iff)
  show "\<exists>n. st_historical_block_hashes s' =
      st_historical_block_hashes s @ [blk_parent_root b] @ replicate n 0"
    using a h s1 by auto
  have "cp_slot (st_latest_justified s2) = cp_slot (st_latest_justified s)" using h s1 by simp
  with process_attestations_finality(4) [OF w2 st(3)] a
  show "cp_slot (st_latest_justified s') = cp_slot (st_latest_justified s) \<or>
      (unat (cp_slot (st_latest_justified s')) < length (st_historical_block_hashes s') \<and>
       st_historical_block_hashes s' ! unat (cp_slot (st_latest_justified s')) =
         cp_root (st_latest_justified s') \<and> cp_root (st_latest_justified s') \<noteq> 0)"
    by (auto simp: checkpoint_exists_def)
  show "hdr_slot (st_latest_block_header s) < blk_slot b"
    using header_Ok_guards(2) [OF st(2)] s1 by simp
qed

section \<open>The invariant\<close>

text \<open>
  What the store holds about a block whose state it has: the state is well-formed and not ahead of
  the store's checkpoints, the block and those of its ancestors that are not below the finalized
  slot are in the live chain, and its header is stored, with the state of its parent unless it is
  the anchor.
\<close>

definition state_tracked :: "u64 \<Rightarrow> store \<Rightarrow> H256 \<Rightarrow> state \<Rightarrow> bool" where
  "state_tracked a s r st \<longleftrightarrow>
     (let slot = hdr_slot (st_latest_block_header st); f = cp_slot (s_latest_finalized s);
          hist = st_historical_block_hashes st
      in wf_state st \<and> a \<le> slot \<and>
         cp_slot (st_latest_justified st) \<le> cp_slot (s_latest_justified s) \<and>
         cp_slot (st_latest_finalized st) \<le> f \<and>
         (\<forall>slot' p. ((slot', r), p) \<in> set (t_live_chain s) \<longrightarrow> slot' = slot) \<and>
         (f \<le> slot \<longrightarrow> (\<exists>p. ((slot, r), p) \<in> set (t_live_chain s))) \<and>
         (\<forall>i < length hist. unat f \<le> i \<longrightarrow> hist ! i \<noteq> 0 \<longrightarrow>
            (\<exists>p. ((word_of_nat i, hist ! i), p) \<in> set (t_live_chain s))) \<and>
         (\<exists>h. get_block_header s r = Some h \<and> hdr_slot h = slot \<and>
            (a < slot \<longrightarrow> (\<exists>pst. get_state s (hdr_parent_root h) = Some pst \<and>
               hdr_slot (st_latest_block_header pst) < slot))))"

definition chain_ok :: "u64 \<Rightarrow> store \<Rightarrow> bool" where
  "chain_ok a s \<longleftrightarrow> store_ok s \<and> live_tree (t_live_chain s) \<and>
     (\<forall>r st. get_state s r = Some st \<longrightarrow> state_tracked a s r st) \<and>
     (\<forall>slot r p. ((slot, r), p) \<in> set (t_live_chain s) \<longrightarrow> get_state s r \<noteq> None) \<and>
     a \<le> cp_slot (s_latest_finalized s) \<and>
     cp_slot (s_latest_finalized s) \<le> cp_slot (s_latest_justified s) \<and>
     cp_root (s_latest_justified s) \<noteq> 0 \<and>
     (\<exists>p. ((cp_slot (s_latest_justified s), cp_root (s_latest_justified s)), p) \<in> set (t_live_chain s)) \<and>
     get_state s (s_head s) \<noteq> None \<and> get_state s (s_safe_target s) \<noteq> None"

lemma chain_okD:
  assumes "chain_ok a s"
  shows "store_ok s" and "live_tree (t_live_chain s)"
    and "\<And>r st. get_state s r = Some st \<Longrightarrow> state_tracked a s r st"
    and "\<And>slot r p. ((slot, r), p) \<in> set (t_live_chain s) \<Longrightarrow> get_state s r \<noteq> None"
    and "a \<le> cp_slot (s_latest_finalized s)"
    and "cp_slot (s_latest_finalized s) \<le> cp_slot (s_latest_justified s)"
    and "cp_root (s_latest_justified s) \<noteq> 0"
    and "\<exists>p. ((cp_slot (s_latest_justified s), cp_root (s_latest_justified s)), p) \<in> set (t_live_chain s)"
    and "get_state s (s_head s) \<noteq> None" and "get_state s (s_safe_target s) \<noteq> None"
  using assms unfolding chain_ok_def by blast+

lemma state_trackedD:
  assumes "state_tracked a s r st"
  shows "wf_state st" and "a \<le> hdr_slot (st_latest_block_header st)"
    and "cp_slot (st_latest_justified st) \<le> cp_slot (s_latest_justified s)"
    and "cp_slot (st_latest_finalized st) \<le> cp_slot (s_latest_finalized s)"
    and "\<And>slot p. ((slot, r), p) \<in> set (t_live_chain s) \<Longrightarrow> slot = hdr_slot (st_latest_block_header st)"
    and "cp_slot (s_latest_finalized s) \<le> hdr_slot (st_latest_block_header st) \<Longrightarrow>
      \<exists>p. ((hdr_slot (st_latest_block_header st), r), p) \<in> set (t_live_chain s)"
    and "\<And>i. i < length (st_historical_block_hashes st) \<Longrightarrow> unat (cp_slot (s_latest_finalized s)) \<le> i \<Longrightarrow>
      st_historical_block_hashes st ! i \<noteq> 0 \<Longrightarrow>
      \<exists>p. ((word_of_nat i, st_historical_block_hashes st ! i), p) \<in> set (t_live_chain s)"
    and "\<exists>h. get_block_header s r = Some h \<and> hdr_slot h = hdr_slot (st_latest_block_header st) \<and>
      (a < hdr_slot (st_latest_block_header st) \<longrightarrow>
        (\<exists>pst. get_state s (hdr_parent_root h) = Some pst \<and>
           hdr_slot (st_latest_block_header pst) < hdr_slot (st_latest_block_header st)))"
  using assms unfolding state_tracked_def Let_def by blast+

text \<open>What ticks and gossip leave alone.\<close>

definition chain_frame :: "store \<Rightarrow> store \<Rightarrow> bool" where
  "chain_frame s s' \<longleftrightarrow> t_states s' = t_states s \<and> t_block_headers s' = t_block_headers s \<and>
     t_block_bodies s' = t_block_bodies s \<and> t_block_signatures s' = t_block_signatures s \<and>
     t_live_chain s' = t_live_chain s \<and> s_latest_justified s' = s_latest_justified s \<and>
     s_latest_finalized s' = s_latest_finalized s"

lemma chain_frame_refl [simp]: "chain_frame s s"
  by (simp add: chain_frame_def)

lemma chain_frame_trans: "chain_frame s s' \<Longrightarrow> chain_frame s' s'' \<Longrightarrow> chain_frame s s''"
  by (simp add: chain_frame_def)

lemma chain_frame_reads:
  assumes "chain_frame s s'"
  shows "get_state s' r = get_state s r" "get_block_header s' r = get_block_header s r"
  using assms by (simp_all add: chain_frame_def get_state_def get_block_header_def)

text \<open>The head is not behind the justified block; only recording a block may break this, until the head is updated.\<close>

definition head_ok :: "store \<Rightarrow> bool" where
  "head_ok s \<longleftrightarrow> (\<forall>st. get_state s (s_head s) = Some st \<longrightarrow>
     cp_slot (s_latest_justified s) \<le> hdr_slot (st_latest_block_header st))"

definition chain_inv :: "u64 \<Rightarrow> store \<Rightarrow> bool" where
  "chain_inv a s \<longleftrightarrow> chain_ok a s \<and> head_ok s"

lemma chain_invD: "chain_inv a s \<Longrightarrow> chain_ok a s" "chain_inv a s \<Longrightarrow> head_ok s"
  by (simp_all add: chain_inv_def)

text \<open>
  The contract of the operations that do not touch blocks, states or checkpoints: they keep the
  store invariant and with it the whole chain invariant.
\<close>

locale chain_neutral =
  fixes op :: "store \<Rightarrow> store"
  assumes tables_kept: "t_live_chain (op s) = t_live_chain s" "t_states (op s) = t_states s"
      "t_block_headers (op s) = t_block_headers s" "t_block_bodies (op s) = t_block_bodies s"
      "t_block_signatures (op s) = t_block_signatures s"
    and metadata_kept: "s_latest_justified (op s) = s_latest_justified s"
      "s_latest_finalized (op s) = s_latest_finalized s" "s_head (op s) = s_head s"
      "s_safe_target (op s) = s_safe_target s" "s_config (op s) = s_config s"
    and ok_kept: "store_ok s \<Longrightarrow> store_ok (op s)"
begin

lemma reads_kept [simp]:
  "get_state (op s) r = get_state s r" "get_block_header (op s) r = get_block_header s r"
  "get_live_chain (op s) = get_live_chain s"
  by (simp_all add: get_state_def get_block_header_def get_live_chain_def tables_kept)

lemma keeps_chain: "chain_ok a s \<Longrightarrow> chain_ok a (op s)"
  by (simp add: chain_ok_def state_tracked_def tables_kept metadata_kept ok_kept)

lemma keeps_inv: "chain_inv a s \<Longrightarrow> chain_inv a (op s)"
  using keeps_chain by (simp add: chain_inv_def head_ok_def metadata_kept)

lemma keeps_frame: "chain_frame s (op s)"
  by (simp add: chain_frame_def tables_kept metadata_kept)

end

lemmas neutral_defs = set_time_def insert_attestation_data_by_root_def
  insert_attestation_data_by_root_batch_def insert_known_aggregated_payloads_batch_def
  insert_new_aggregated_payload_def insert_new_aggregated_payloads_batch_def
  promote_new_aggregated_payloads_def insert_gossip_signature_def buffer_drain_def Let_def

interpretation neutral_set_time: chain_neutral "set_time t" for t
  by unfold_locales (simp_all add: neutral_defs)

interpretation neutral_data: chain_neutral "insert_attestation_data_by_root r d" for r d
  by unfold_locales (simp_all add: store_ok_insert_data, simp_all add: neutral_defs)

interpretation neutral_data_batch: chain_neutral "insert_attestation_data_by_root_batch es" for es
  by unfold_locales (simp_all add: store_ok_insert_data, simp_all add: neutral_defs)

interpretation neutral_known: chain_neutral "insert_known_aggregated_payloads_batch ps" for ps
  by unfold_locales (simp_all add: store_ok_payloads, simp_all add: neutral_defs)

interpretation neutral_new: chain_neutral "insert_new_aggregated_payload k p" for k p
  by unfold_locales (simp_all add: store_ok_payloads, simp_all add: neutral_defs)

interpretation neutral_new_batch: chain_neutral "insert_new_aggregated_payloads_batch ps" for ps
  by unfold_locales (simp_all add: store_ok_payloads, simp_all add: neutral_defs)

interpretation neutral_promote: chain_neutral promote_new_aggregated_payloads
  by unfold_locales (simp_all add: store_ok_payloads, simp_all add: neutral_defs)

interpretation neutral_gossip: chain_neutral "insert_gossip_signature C dr slot v sig" for C dr slot v sig
  by unfold_locales (simp_all add: store_ok_insert_gossip, simp_all add: neutral_defs)

section \<open>Head and safe target\<close>

lemma get_head_fields [simp]:
  "get_state (s\<lparr>s_head := h\<rparr>) r = get_state s r"
  "get_block_header (s\<lparr>s_head := h\<rparr>) r = get_block_header s r"
  "get_state (s\<lparr>s_safe_target := h\<rparr>) r = get_state s r"
  "get_block_header (s\<lparr>s_safe_target := h\<rparr>) r = get_block_header s r"
  by (simp_all add: get_state_def get_block_header_def)

lemma chain_ok_head:
  assumes "chain_ok a s" and "get_state s h \<noteq> None"
  shows "chain_ok a (s\<lparr>s_head := h\<rparr>)" and "chain_ok a (s\<lparr>s_safe_target := h\<rparr>)"
  using assms by (simp_all add: chain_ok_def state_tracked_def Let_def)

lemma ghost_path_slot:
  assumes "ghost_path (map_of blocks) w m h e" and "block_tree blocks" and "map_of blocks h = Some (slot, p)"
  shows "\<exists>slot' p'. map_of blocks e = Some (slot', p') \<and> slot \<le> slot'"
  using assms
proof (induction arbitrary: slot p)
  case (stop h)
  then show ?case by auto
next
  case (step c h e)
  from step.hyps(1) obtain cslot where c: "map_of blocks c = Some (cslot, h)" by (auto simp: eligible_children_def)
  from block_tree_parent [OF step.prems(1) c step.prems(2)] step.IH [OF step.prems(1) c] show ?case
    by (meson less_imp_le order_trans)
qed

text \<open>Fork choice started at the justified block of the store ends at a live block.\<close>

lemma chain_ghost_head:
  assumes "chain_ok a s"
  shows "\<exists>h w slot p. compute_lmd_ghost_head (cp_root (s_latest_justified s)) (get_live_chain s) atts m = Some (h, w) \<and>
    ghost_path (map_of (get_live_chain s)) (weight w) m (cp_root (s_latest_justified s)) h \<and>
    ((slot, h), p) \<in> set (t_live_chain s) \<and> cp_slot (s_latest_justified s) \<le> slot \<and>
    (\<forall>r. weight w r = word_of_nat (length (filter (\<lambda>(_, d).
       supports (cp_slot (s_latest_justified s)) (map_of (get_live_chain s)) (cp_root (ad_head d)) r) atts)))"
proof -
  note c = chain_okD [OF assms]
  from c(1) have so: "tbl_sorted encode_live_chain_key (t_live_chain s)"
    by (simp add: store_ok_def tables_ok_def)
  note look = live_chain_lookup [OF so c(2)]
  from c(8) obtain p where p: "map_of (get_live_chain s) (cp_root (s_latest_justified s)) =
      Some (cp_slot (s_latest_justified s), p)" unfolding look by blast
  from ghost_head_run [OF live_chain_block_tree [OF so c(2)] c(7) p, of atts m] obtain h w where
    h: "compute_lmd_ghost_head (cp_root (s_latest_justified s)) (get_live_chain s) atts m = Some (h, w)"
    "ghost_path (map_of (get_live_chain s)) (weight w) m (cp_root (s_latest_justified s)) h"
    "map_of (get_live_chain s) h \<noteq> None"
    "\<forall>r. weight w r = word_of_nat (length (filter (\<lambda>(_, d).
       supports (cp_slot (s_latest_justified s)) (map_of (get_live_chain s)) (cp_root (ad_head d)) r) atts))"
    by blast
  from ghost_path_slot [OF h(2) live_chain_block_tree [OF so c(2)] p] obtain slot q where
    "map_of (get_live_chain s) h = Some (slot, q)" and "cp_slot (s_latest_justified s) \<le> slot" by blast
  with h show ?thesis unfolding look by blast
qed

lemma update_checkpoints_head_only [simp]: "update_checkpoints (head_only h) s = s\<lparr>s_head := h\<rparr>"
  by (simp add: update_checkpoints_def head_only_def Let_def)

lemma update_head_run:
  assumes "chain_ok a s"
  shows "\<exists>h. update_head s = Some (s\<lparr>s_head := h\<rparr>) \<and> chain_inv a (s\<lparr>s_head := h\<rparr>)"
proof -
  from chain_ghost_head [OF assms, of "extract_latest_known_attestations s" 0] obtain h w slot p where
    h: "compute_lmd_ghost_head (cp_root (s_latest_justified s)) (get_live_chain s)
      (extract_latest_known_attestations s) 0 = Some (h, w)" "((slot, h), p) \<in> set (t_live_chain s)"
      "cp_slot (s_latest_justified s) \<le> slot" by blast
  have "head_ok (s\<lparr>s_head := h\<rparr>)"
    using h(3) state_trackedD(5) [OF chain_okD(3) [OF assms] h(2)] by (auto simp: head_ok_def)
  with h(1) chain_ok_head(1) [OF assms chain_okD(4) [OF assms h(2)]] show ?thesis
    by (auto simp: update_head_def chain_inv_def)
qed

lemma chain_frame_head [simp]: "chain_frame s (s\<lparr>s_head := h\<rparr>)" "chain_frame s (s\<lparr>s_safe_target := h\<rparr>)"
  by (simp_all add: chain_frame_def)

lemma accept_new_attestations_run:
  assumes "chain_ok a s"
  shows "\<exists>s'. accept_new_attestations s = Some s' \<and> chain_inv a s' \<and> chain_frame s s' \<and>
    s_time s' = s_time s \<and> s_config s' = s_config s"
proof -
  let ?s1 = "promote_new_aggregated_payloads s"
  from update_head_run [OF neutral_promote.keeps_chain [OF assms]] obtain h where
    h: "update_head ?s1 = Some (?s1\<lparr>s_head := h\<rparr>)" "chain_inv a (?s1\<lparr>s_head := h\<rparr>)" by blast
  have "chain_frame s (?s1\<lparr>s_head := h\<rparr>)"
    by (rule chain_frame_trans [OF neutral_promote.keeps_frame]) simp
  with h show ?thesis
    by (simp add: accept_new_attestations_def promote_new_aggregated_payloads_def buffer_drain_def)
qed

lemma update_safe_target_run:
  assumes "chain_inv a s"
  shows "\<exists>h. update_safe_target s = Some (Ok (s\<lparr>s_safe_target := h\<rparr>)) \<and>
    chain_inv a (s\<lparr>s_safe_target := h\<rparr>)"
proof -
  note c = chain_invD(1) [OF assms]
  from chain_okD(9) [OF c] obtain st where st: "get_state s (s_head s) = Some st" by blast
  let ?as = "extract_latest_attestations s
    (remdups (iter_known_aggregated_payload_keys s @ iter_new_aggregated_payload_keys s))"
  let ?m = "div_ceil (word_of_nat (length (st_validators st)) * 2) 3"
  from chain_ghost_head [OF c, of ?as ?m] obtain h w slot p where
    h: "compute_lmd_ghost_head (cp_root (s_latest_justified s)) (get_live_chain s) ?as ?m = Some (h, w)"
      "((slot, h), p) \<in> set (t_live_chain s)" by blast
  with st chain_invD(2) [OF assms] chain_ok_head(2) [OF c chain_okD(4) [OF c h(2)]] show ?thesis
    by (auto simp: update_safe_target_def Let_def set_safe_target_def chain_inv_def head_ok_def)
qed

section \<open>Recording a block\<close>

lemma advance_checkpoints_fields [simp]:
  "t_states (advance_checkpoints st s) = t_states s"
  "t_block_headers (advance_checkpoints st s) = t_block_headers s"
  "s_head (advance_checkpoints st s) = s_head s"
  "s_safe_target (advance_checkpoints st s) = s_safe_target s"
  "s_latest_justified (advance_checkpoints st s) =
     (if cp_slot (st_latest_justified st) > cp_slot (s_latest_justified s)
      then st_latest_justified st else s_latest_justified s)"
  "s_latest_finalized (advance_checkpoints st s) =
     (if cp_slot (st_latest_finalized st) > cp_slot (s_latest_finalized s)
      then st_latest_finalized st else s_latest_finalized s)"
  by (simp_all add: advance_checkpoints_def fork_checkpoints_new_def update_checkpoints_def
      prune_live_chain_def prune_gossip_signatures_def prune_attestation_data_by_root_def
      Let_def case_prod_unfold)

lemma advance_checkpoints_ok: "store_ok s \<Longrightarrow> store_ok (advance_checkpoints st s)"
  by (simp add: advance_checkpoints_def Let_def store_ok_update_checkpoints)

lemma advance_checkpoints_live:
  assumes "store_ok s"
  shows "set (t_live_chain (advance_checkpoints st s)) \<subseteq> set (t_live_chain s)"
    and "\<And>slot r p. ((slot, r), p) \<in> set (t_live_chain s) \<Longrightarrow>
      cp_slot (s_latest_finalized (advance_checkpoints st s)) \<le> slot \<Longrightarrow>
      ((slot, r), p) \<in> set (t_live_chain (advance_checkpoints st s))"
proof -
  have so: "tbl_sorted encode_live_chain_key (t_live_chain s)"
    using assms by (simp add: store_ok_def tables_ok_def)
  have "t_live_chain (advance_checkpoints st s) =
     (if cp_slot (st_latest_finalized st) > cp_slot (s_latest_finalized s)
      then filter (\<lambda>((slot, _), _). \<not> slot < cp_slot (st_latest_finalized st)) (t_live_chain s)
      else t_live_chain s)"
    using so
    by (simp add: advance_checkpoints_def fork_checkpoints_new_def update_checkpoints_def
        prune_gossip_signatures_def prune_attestation_data_by_root_def prune_live_chain_filter
        Let_def case_prod_unfold)
  then show "set (t_live_chain (advance_checkpoints st s)) \<subseteq> set (t_live_chain s)"
    "\<And>slot r p. ((slot, r), p) \<in> set (t_live_chain s) \<Longrightarrow>
      cp_slot (s_latest_finalized (advance_checkpoints st s)) \<le> slot \<Longrightarrow>
      ((slot, r), p) \<in> set (t_live_chain (advance_checkpoints st s))" by auto
qed

lemma record_block_fields:
  fixes sb :: signed_block_with_attestation and st :: state
  defines "b \<equiv> bwa_block (sb_message sb)"
  defines "post \<equiv> st\<lparr>st_latest_block_header := (st_latest_block_header st)\<lparr>hdr_state_root := blk_state_root b\<rparr>\<rparr>"
  shows "get_state (record_block H sb st s) = (get_state s)(h_block H b \<mapsto> post)"
    and "get_block_header (record_block H sb st s) = (get_block_header s)(h_block H b \<mapsto> block_header_of H b)"
    and "t_live_chain (record_block H sb st s) = tbl_put encode_live_chain_key
      (blk_slot b, h_block H b) (blk_parent_root b) (t_live_chain (advance_checkpoints post s))"
    and "s_latest_justified (record_block H sb st s) = s_latest_justified (advance_checkpoints post s)"
    and "s_latest_finalized (record_block H sb st s) = s_latest_finalized (advance_checkpoints post s)"
    and "s_head (record_block H sb st s) = s_head s"
    and "s_safe_target (record_block H sb st s) = s_safe_target s"
  unfolding b_def post_def record_block_def
  by (simp_all add: Let_def neutral_known.tables_kept neutral_known.metadata_kept
      neutral_data_batch.tables_kept neutral_data_batch.metadata_kept insert_state_def
      insert_signed_block_def write_signed_block_def get_state_def get_block_header_def fun_eq_iff)

lemma record_block_ok: "store_ok s \<Longrightarrow> store_ok (record_block H sb st s)"
  by (simp add: record_block_def Let_def store_ok_payloads store_ok_insert_data
      store_ok_insert_signed_block advance_checkpoints_ok)

text \<open>
  A block the store can record: new, on top of a stored state, accepted by the state transition,
  and not the parent of a live block (a live block's parent was recorded before it or precedes the
  anchor, so this excludes hash collisions only).
\<close>

definition recordable :: "u64 \<Rightarrow> hashing \<Rightarrow> store \<Rightarrow> block \<Rightarrow> state \<Rightarrow> state \<Rightarrow> bool" where
  "recordable a H s b pst st \<longleftrightarrow> chain_ok a s \<and> get_state s (h_block H b) = None \<and>
     get_state s (blk_parent_root b) = Some pst \<and> state_transition H pst b = Ok st \<and>
     h_block H b \<notin> snd ` set (t_live_chain s)"

lemma recorded_live:
  fixes sb :: signed_block_with_attestation and st :: state and H :: hashing and s :: store
  defines "b \<equiv> bwa_block (sb_message sb)" and "s' \<equiv> record_block H sb st s"
  assumes "store_ok s"
  shows "\<And>slot r p. ((slot, r), p) \<in> set (t_live_chain s') \<Longrightarrow>
      slot = blk_slot b \<and> r = h_block H b \<and> p = blk_parent_root b \<or> ((slot, r), p) \<in> set (t_live_chain s)"
    and "\<And>slot r p. ((slot, r), p) \<in> set (t_live_chain s) \<Longrightarrow> cp_slot (s_latest_finalized s') \<le> slot \<Longrightarrow>
      \<exists>q. ((slot, r), q) \<in> set (t_live_chain s')"
    and "((blk_slot b, h_block H b), blk_parent_root b) \<in> set (t_live_chain s')"
proof -
  note f = record_block_fields [where sb = sb and st = st and s = s and H = H, folded b_def s'_def]
  let ?adv = "advance_checkpoints (st\<lparr>st_latest_block_header :=
    (st_latest_block_header st)\<lparr>hdr_state_root := blk_state_root b\<rparr>\<rparr>) s"
  have set': "set (t_live_chain s') = insert ((blk_slot b, h_block H b), blk_parent_root b)
      {e \<in> set (t_live_chain ?adv). fst e \<noteq> (blk_slot b, h_block H b)}"
    unfolding f(3) by (rule set_tbl_put) simp
  note l = advance_checkpoints_live [OF assms(3)]
  show "slot = blk_slot b \<and> r = h_block H b \<and> p = blk_parent_root b \<or> ((slot, r), p) \<in> set (t_live_chain s)"
    if "((slot, r), p) \<in> set (t_live_chain s')" for slot r p using that l(1) unfolding set' by auto
  show "\<exists>q. ((slot, r), q) \<in> set (t_live_chain s')"
    if e: "((slot, r), p) \<in> set (t_live_chain s)" and le: "cp_slot (s_latest_finalized s') \<le> slot" for slot r p
    using l(2) [OF e le [unfolded f(5)]] unfolding set' by auto
  show "((blk_slot b, h_block H b), blk_parent_root b) \<in> set (t_live_chain s')" unfolding set' by simp
qed

text \<open>Checkpoints of the store only move forward, and not behind the new state's.\<close>

lemma recorded_checkpoints:
  fixes sb :: signed_block_with_attestation and st :: state and H :: hashing and s :: store
  defines "s' \<equiv> record_block H sb st s"
  shows "cp_slot (s_latest_justified s) \<le> cp_slot (s_latest_justified s')"
    and "cp_slot (s_latest_finalized s) \<le> cp_slot (s_latest_finalized s')"
    and "cp_slot (st_latest_justified st) \<le> cp_slot (s_latest_justified s')"
    and "cp_slot (st_latest_finalized st) \<le> cp_slot (s_latest_finalized s')"
    and "cp_slot (s_latest_finalized s) \<le> cp_slot (s_latest_justified s) \<Longrightarrow>
      cp_slot (st_latest_finalized st) \<le> cp_slot (st_latest_justified st) \<Longrightarrow>
      cp_slot (s_latest_finalized s') \<le> cp_slot (s_latest_justified s')"
    and "s_latest_justified s' = s_latest_justified s \<or> s_latest_justified s' = st_latest_justified st \<and>
      cp_slot (s_latest_justified s) < cp_slot (st_latest_justified st)"
  unfolding s'_def record_block_fields advance_checkpoints_fields by auto

lemma history_index:
  assumes "wf_state st" and "i < length (st_historical_block_hashes st)"
  shows "unat (word_of_nat i :: u64) = i"
proof -
  have "length (st_historical_block_hashes st) = unat (hdr_slot (st_latest_block_header st))"
    using assms(1) by (simp add: wf_state_def)
  with assms(2) unat_less_u64 [of "hdr_slot (st_latest_block_header st)"] have "i < 18446744073709551616"
    by linarith
  then show ?thesis by (simp add: unat_of_nat)
qed

text \<open>The history of a block's state: that of its parent and the parent itself.\<close>

lemma recorded_history:
  assumes wf: "wf_state pst"
    and parent: "f \<le> hdr_slot (st_latest_block_header pst) \<Longrightarrow>
      \<exists>p. ((hdr_slot (st_latest_block_header pst), r), p) \<in> L"
    and older: "\<And>i. i < length (st_historical_block_hashes pst) \<Longrightarrow> unat f \<le> i \<Longrightarrow>
      st_historical_block_hashes pst ! i \<noteq> 0 \<Longrightarrow>
      \<exists>p. ((word_of_nat i, st_historical_block_hashes pst ! i), p) \<in> L"
    and hist: "\<exists>n. hist = st_historical_block_hashes pst @ [r] @ replicate n 0"
    and i: "i < length hist" "unat f \<le> i" "hist ! i \<noteq> (0 :: H256)"
  shows "\<exists>p. ((word_of_nat i :: u64, hist ! i), p) \<in> L"
proof -
  let ?h = "st_historical_block_hashes pst"
  have len: "length ?h = unat (hdr_slot (st_latest_block_header pst))" using wf by (simp add: wf_state_def)
  from hist obtain n where n: "hist = ?h @ [r] @ replicate n 0" by blast
  consider "i < length ?h" | "i = length ?h" | "length ?h < i" by linarith
  then show ?thesis
  proof cases
    case 1
    with older [OF 1 i(2)] i(3) show ?thesis by (simp add: n nth_append)
  next
    case 2
    with parent i(2) len show ?thesis by (simp add: n nth_append word_le_nat_alt)
  next
    case 3
    with i(1,3) show ?thesis by (auto simp: n nth_append nth_Cons split: nat.splits if_splits)
  qed
qed

lemma recorded_old_state:
  fixes sb :: signed_block_with_attestation and st :: state and H :: hashing and s :: store
  defines "b \<equiv> bwa_block (sb_message sb)" and "s' \<equiv> record_block H sb st s"
  assumes rec: "recordable a H s b pst st" and st0: "get_state s r = Some st0"
  shows "state_tracked a s' r st0"
proof -
  from rec have c: "chain_ok a s" and fresh: "get_state s (h_block H b) = None" by (auto simp: recordable_def)
  have neq: "r \<noteq> h_block H b" using fresh st0 by auto
  note f = record_block_fields [where sb = sb and st = st and s = s and H = H, folded b_def s'_def]
  note t = state_trackedD [OF chain_okD(3) [OF c st0]]
  note l = recorded_live [OF chain_okD(1) [OF c], where sb = sb and st = st and H = H, folded b_def s'_def]
  note m = recorded_checkpoints [where sb = sb and st = st and s = s and H = H, folded s'_def]
  have fle: "unat (cp_slot (s_latest_finalized s)) \<le> unat (cp_slot (s_latest_finalized s'))"
    using m(2) by (simp add: word_le_nat_alt)
  have h: "\<exists>h. get_block_header s' r = Some h \<and> hdr_slot h = hdr_slot (st_latest_block_header st0) \<and>
      (a < hdr_slot (st_latest_block_header st0) \<longrightarrow>
        (\<exists>q. get_state s' (hdr_parent_root h) = Some q \<and>
           hdr_slot (st_latest_block_header q) < hdr_slot (st_latest_block_header st0)))"
    using t(8) neq fresh unfolding f by (metis fun_upd_apply option.distinct(1))
  have i: "\<exists>p. ((word_of_nat i, st_historical_block_hashes st0 ! i), p) \<in> set (t_live_chain s')"
    if il: "i < length (st_historical_block_hashes st0)" and fi: "unat (cp_slot (s_latest_finalized s')) \<le> i"
      and nz: "st_historical_block_hashes st0 ! i \<noteq> 0" for i
  proof -
    from t(7) [OF il _ nz] fle fi obtain p where
      p: "((word_of_nat i, st_historical_block_hashes st0 ! i), p) \<in> set (t_live_chain s)" by auto
    have "unat (word_of_nat i :: u64) = i" by (rule history_index [OF t(1) il])
    with fi have "cp_slot (s_latest_finalized s') \<le> word_of_nat i" by (simp add: word_le_nat_alt)
    with l(2) p show ?thesis by blast
  qed
  show ?thesis
    unfolding state_tracked_def Let_def
  proof (intro conjI)
    show "cp_slot (s_latest_finalized s') \<le> hdr_slot (st_latest_block_header st0) \<longrightarrow>
      (\<exists>p. ((hdr_slot (st_latest_block_header st0), r), p) \<in> set (t_live_chain s'))"
      using t(6) l(2) m(2) by (meson order_trans)
    show "\<forall>slot p. ((slot, r), p) \<in> set (t_live_chain s') \<longrightarrow> slot = hdr_slot (st_latest_block_header st0)"
      using l(1) t(5) neq by blast
  qed (use t(1-4) m(1,2) i h in \<open>auto intro: order_trans\<close>)
qed

lemma recorded_new_state:
  fixes sb :: signed_block_with_attestation and st :: state and H :: hashing and s :: store
  defines "b \<equiv> bwa_block (sb_message sb)" and "s' \<equiv> record_block H sb st s"
  assumes rec: "recordable a H s b pst st"
  shows "state_tracked a s' (h_block H b) (st\<lparr>st_latest_block_header :=
    (st_latest_block_header st)\<lparr>hdr_state_root := blk_state_root b\<rparr>\<rparr>)" (is "state_tracked _ _ _ ?post")
proof -
  from rec have c: "chain_ok a s" and fresh: "get_state s (h_block H b) = None"
    and pst: "get_state s (blk_parent_root b) = Some pst" and run: "state_transition H pst b = Ok st"
    by (auto simp: recordable_def)
  note f = record_block_fields [where sb = sb and st = st and s = s and H = H, folded b_def s'_def]
  note t = state_trackedD [OF chain_okD(3) [OF c pst]]
  note l = recorded_live [OF chain_okD(1) [OF c], where sb = sb and st = st and H = H, folded b_def s'_def]
  note m = recorded_checkpoints [where sb = sb and st = st and s = s and H = H, folded s'_def]
  note hi = state_transition_history [OF t(1) run] and k = state_transition_keeps [OF t(1) run]
  have wf: "wf_state ?post" using state_transition_wf [OF t(1) run] by (simp add: wf_state_def)
  have slot: "hdr_slot (st_latest_block_header ?post) = blk_slot b" using k(5) by (simp add: block_header_of_def)
  have live: "\<exists>q. ((word_of_nat i, st_historical_block_hashes ?post ! i), q) \<in> set (t_live_chain s')"
    if il: "i < length (st_historical_block_hashes ?post)" and fi: "unat (cp_slot (s_latest_finalized s')) \<le> i"
      and nz: "st_historical_block_hashes ?post ! i \<noteq> 0" for i
  proof -
    have iw: "unat (word_of_nat i :: u64) = i" by (rule history_index [OF wf il])
    with fi have le: "cp_slot (s_latest_finalized s') \<le> word_of_nat i" by (simp add: word_le_nat_alt)
    have fs: "unat (cp_slot (s_latest_finalized s)) \<le> i" using m(2) fi by (simp add: word_le_nat_alt)
    have "\<exists>p. ((word_of_nat i, st_historical_block_hashes ?post ! i), p) \<in> set (t_live_chain s)"
      by (rule recorded_history [OF t(1) _ _ _ _ fs])
        (use t(6,7) hi(1) il nz in \<open>simp_all\<close>)
    with l(2) le show ?thesis by blast
  qed
  have hd: "get_block_header s' (h_block H b) = Some (block_header_of H b)" and
    pst': "get_state s' (blk_parent_root b) = Some pst" unfolding f using fresh pst by auto
  show ?thesis
    unfolding state_tracked_def Let_def slot
  proof (intro conjI)
    show "\<forall>slot p. ((slot, h_block H b), p) \<in> set (t_live_chain s') \<longrightarrow> slot = blk_slot b"
      using l(1) chain_okD(4) [OF c] fresh by blast
    show "\<exists>h. get_block_header s' (h_block H b) = Some h \<and> hdr_slot h = blk_slot b \<and>
      (a < blk_slot b \<longrightarrow> (\<exists>q. get_state s' (hdr_parent_root h) = Some q \<and>
         hdr_slot (st_latest_block_header q) < blk_slot b))"
      using hd pst' hi(3) by (auto simp: block_header_of_def)
  qed (use wf m(3,4) live l(3) t(2) hi(3) in auto)
qed

lemma recorded_justified:
  fixes sb :: signed_block_with_attestation and st :: state and H :: hashing and s :: store
  defines "b \<equiv> bwa_block (sb_message sb)" and "s' \<equiv> record_block H sb st s"
  assumes rec: "recordable a H s b pst st"
    and fj: "cp_slot (s_latest_finalized s') \<le> cp_slot (s_latest_justified s')"
  shows "cp_root (s_latest_justified s') \<noteq> 0 \<and>
    (\<exists>p. ((cp_slot (s_latest_justified s'), cp_root (s_latest_justified s')), p) \<in> set (t_live_chain s'))"
proof -
  from rec have c: "chain_ok a s" and pst: "get_state s (blk_parent_root b) = Some pst"
    and run: "state_transition H pst b = Ok st" by (auto simp: recordable_def)
  note t = state_trackedD [OF chain_okD(3) [OF c pst]]
  note l = recorded_live [OF chain_okD(1) [OF c], where sb = sb and st = st and H = H, folded b_def s'_def]
  note new = state_trackedD(7) [OF recorded_new_state [OF rec [unfolded b_def]], folded b_def s'_def, simplified]
  let ?j = "st_latest_justified st"
  from recorded_checkpoints(6) [where sb = sb and st = st and s = s and H = H, folded s'_def]
  show ?thesis
  proof (elim disjE conjE)
    assume j: "s_latest_justified s' = s_latest_justified s"
    from chain_okD(8) [OF c] obtain p where
      "((cp_slot (s_latest_justified s), cp_root (s_latest_justified s)), p) \<in> set (t_live_chain s)" by blast
    with l(2) fj j chain_okD(7) [OF c] show ?thesis by auto
  next
    assume j: "s_latest_justified s' = ?j" and lt: "cp_slot (s_latest_justified s) < cp_slot ?j"
    with t(3) have "cp_slot ?j \<noteq> cp_slot (st_latest_justified pst)" by auto
    with state_transition_history(2) [OF t(1) run] have
      h: "unat (cp_slot ?j) < length (st_historical_block_hashes st)"
      "st_historical_block_hashes st ! unat (cp_slot ?j) = cp_root ?j" "cp_root ?j \<noteq> 0" by auto
    with new [of "unat (cp_slot ?j)"] fj j show ?thesis by (simp add: word_le_nat_alt)
  qed
qed

lemma recorded_live_tree:
  fixes sb :: signed_block_with_attestation and st :: state and H :: hashing and s :: store
  defines "b \<equiv> bwa_block (sb_message sb)" and "s' \<equiv> record_block H sb st s"
  assumes rec: "recordable a H s b pst st"
  shows "live_tree (t_live_chain s')"
proof -
  from rec have c: "chain_ok a s" and fresh: "get_state s (h_block H b) = None"
    and pst: "get_state s (blk_parent_root b) = Some pst" and run: "state_transition H pst b = Ok st"
    and np: "h_block H b \<notin> snd ` set (t_live_chain s)"
    by (auto simp: recordable_def)
  note t = state_trackedD [OF chain_okD(3) [OF c pst]]
  note l = recorded_live(1) [OF chain_okD(1) [OF c], where sb = sb and st = st and H = H, folded b_def s'_def]
  have tree: "\<And>slot slot' r p p'. ((slot, r), p) \<in> set (t_live_chain s) \<Longrightarrow>
      ((slot', r), p') \<in> set (t_live_chain s) \<Longrightarrow> slot = slot'"
    "\<And>slot r p pslot q. ((slot, r), p) \<in> set (t_live_chain s) \<Longrightarrow>
      ((pslot, p), q) \<in> set (t_live_chain s) \<Longrightarrow> pslot < slot"
    using chain_okD(2) [OF c] unfolding live_tree_def by blast+
  have nr: "((slot, h_block H b), p) \<notin> set (t_live_chain s)" for slot p
    using chain_okD(4) [OF c] fresh by blast
  have np': "((slot, r), h_block H b) \<notin> set (t_live_chain s)" for slot r using np by force
  have ne: "blk_parent_root b \<noteq> h_block H b" using fresh pst by auto
  have parent: "pslot < blk_slot b" if "((pslot, blk_parent_root b), q) \<in> set (t_live_chain s)" for pslot q
    using t(5) [OF that] state_transition_history(3) [OF t(1) run] by simp
  show ?thesis
    unfolding live_tree_def
  proof (intro conjI allI impI)
    fix slot slot' r p p'
    assume "((slot, r), p) \<in> set (t_live_chain s')" "((slot', r), p') \<in> set (t_live_chain s')"
    then show "slot = slot'" using l tree(1) nr by metis
  next
    fix slot r p pslot q
    assume "((slot, r), p) \<in> set (t_live_chain s')" "((pslot, p), q) \<in> set (t_live_chain s')"
    then show "pslot < slot" using l tree(2) nr np' ne parent by metis
  qed
qed

lemma record_block_keeps_chain:
  assumes rec: "recordable a H s (bwa_block (sb_message sb)) pst st"
  shows "chain_ok a (record_block H sb st s)" (is "chain_ok a ?s'")
proof -
  let ?b = "bwa_block (sb_message sb)"
  from rec have c: "chain_ok a s" and pst: "get_state s (blk_parent_root ?b) = Some pst"
    and run: "state_transition H pst ?b = Ok st" by (auto simp: recordable_def)
  note t = state_trackedD [OF chain_okD(3) [OF c pst]]
  note f = record_block_fields [where sb = sb and st = st and s = s and H = H]
  note m = recorded_checkpoints [where sb = sb and st = st and s = s and H = H]
  have "wf_state st" using state_transition_wf [OF t(1) run] by simp
  then have fj: "cp_slot (s_latest_finalized ?s') \<le> cp_slot (s_latest_justified ?s')"
    using m(5) chain_okD(6) [OF c] by (simp add: wf_state_def)
  have grows: "get_state s r \<noteq> None \<Longrightarrow> get_state ?s' r \<noteq> None" for r unfolding f by simp
  have tracked: "state_tracked a ?s' r st0" if "get_state ?s' r = Some st0" for r st0
    using that recorded_old_state [OF rec] recorded_new_state [OF rec] unfolding f(1)
    by (auto split: if_splits)
  have live: "get_state ?s' r \<noteq> None" if "((slot, r), p) \<in> set (t_live_chain ?s')" for slot r p
  proof -
    from recorded_live(1) [OF chain_okD(1) [OF c] that] chain_okD(4) [OF c]
    have "r = h_block H ?b \<or> get_state s r \<noteq> None" by blast
    then show ?thesis unfolding f by auto
  qed
  show ?thesis
    unfolding chain_ok_def
    using record_block_ok [OF chain_okD(1) [OF c]] recorded_live_tree [OF rec] tracked live
      order_trans [OF chain_okD(5) [OF c] m(2)] fj recorded_justified [OF rec fj]
      grows [OF chain_okD(9) [OF c]] grows [OF chain_okD(10) [OF c]] unfolding f(6,7) by blast
qed

section \<open>Handlers\<close>

lemma record_proposer_attestation_keeps:
  assumes "record_proposer_attestation H C sb verify ids s = (s', r)" and "chain_inv a s"
  shows "chain_inv a s' \<and> s_latest_justified s' = s_latest_justified s \<and>
    s_latest_finalized s' = s_latest_finalized s \<and> get_state s' = get_state s"
  using assms
  by (auto simp: record_proposer_attestation_def Let_def neutral_new.keeps_inv neutral_gossip.keeps_inv
      neutral_new.metadata_kept neutral_gossip.metadata_kept fun_eq_iff
      split: if_splits option.splits result.splits)

text \<open>The proposer's signature was decoded when the block was verified, so recording it succeeds.\<close>

lemma verify_signatures_decodes:
  "verify_signatures H C st sb = Ok x \<Longrightarrow> c_signature C (bs_proposer_signature (sb_signature sb)) \<noteq> None"
  by (auto simp: verify_signatures_def Let_def outcome_simps split: if_splits)

lemma record_proposer_attestation_Ok:
  assumes "verify_signatures H C pst sb = Ok ()"
  shows "snd (record_proposer_attestation H C sb True ids s) = Ok ()"
  using verify_signatures_decodes [OF assms]
  by (auto simp: record_proposer_attestation_def Let_def)

text \<open>
  A block that is known, or whose parent is not, is not recorded. Any other must not have the root
  that a live block names as its parent: that block would have been recorded before its own parent.
\<close>

definition fresh_root :: "hashing \<Rightarrow> store \<Rightarrow> block \<Rightarrow> bool" where
  "fresh_root H s b \<longleftrightarrow> has_state s (h_block H b) \<or> get_state s (blk_parent_root b) = None \<or>
     h_block H b \<notin> snd ` set (t_live_chain s)"

lemma on_block_run:
  fixes sb :: signed_block_with_attestation
  defines "b \<equiv> bwa_block (sb_message sb)"
  assumes inv: "chain_inv a s" and np: "fresh_root H s b"
  shows "\<exists>s' r. on_block H C s sb ids = Some (s', r) \<and> chain_inv a s' \<and>
    cp_slot (s_latest_justified s) \<le> cp_slot (s_latest_justified s') \<and>
    cp_slot (s_latest_finalized s) \<le> cp_slot (s_latest_finalized s') \<and>
    (r \<noteq> Ok () \<longrightarrow> s' = s) \<and>
    (r = Ok () \<longleftrightarrow> has_state s (h_block H b) \<or>
       (\<exists>pst st. get_state s (blk_parent_root b) = Some pst \<and> verify_signatures H C pst sb = Ok () \<and>
          state_transition H pst b = Ok st)) \<and>
    (r = Ok () \<longrightarrow> has_state s' (h_block H b)) \<and>
    (\<forall>pst st. r = Ok () \<and> \<not> has_state s (h_block H b) \<and> get_state s (blk_parent_root b) = Some pst \<and>
       state_transition H pst b = Ok st \<longrightarrow> get_state s' (h_block H b) = Some
         (st\<lparr>st_latest_block_header := (st_latest_block_header st)\<lparr>hdr_state_root := blk_state_root b\<rparr>\<rparr>)) \<and>
    (r = Panic \<longrightarrow> (\<exists>pst. get_state s (blk_parent_root b) = Some pst \<and> verify_signatures H C pst sb = Panic))"
proof (cases "\<not> has_state s (h_block H b) \<and> (\<exists>pst st. get_state s (blk_parent_root b) = Some pst \<and>
    verify_signatures H C pst sb = Ok () \<and> state_transition H pst b = Ok st)")
  case False
  note c = chain_invD(1) [OF inv]
  have np': "state_transition H pst b \<noteq> Panic" if "get_state s (blk_parent_root b) = Some pst" for pst
    using state_transition_no_panic state_trackedD(1) [OF chain_okD(3) [OF c that]] by blast
  have "\<exists>r. on_block H C s sb ids = Some (s, r) \<and>
    (r = Ok () \<longleftrightarrow> has_state s (h_block H b)) \<and>
    (r = Panic \<longrightarrow> (\<exists>pst. get_state s (blk_parent_root b) = Some pst \<and> verify_signatures H C pst sb = Panic))"
    using False np' unfolding on_block_def on_block_core_def Let_def b_def
    by (auto split: option.splits result.splits)
  with inv False show ?thesis by auto
next
  case True
  then obtain pst st where ns: "\<not> has_state s (h_block H b)" and
    p: "get_state s (blk_parent_root b) = Some pst" "verify_signatures H C pst sb = Ok ()"
      "state_transition H pst b = Ok st" by blast
  then have rec: "recordable a H s (bwa_block (sb_message sb)) pst st"
    using chain_invD(1) [OF inv] np by (auto simp: recordable_def fresh_root_def has_state_def get_state_def b_def)
  let ?s1 = "record_block H sb st s"
  let ?st = "st\<lparr>st_latest_block_header := (st_latest_block_header st)\<lparr>hdr_state_root := blk_state_root b\<rparr>\<rparr>"
  note m = recorded_checkpoints [where sb = sb and st = st and s = s and H = H]
  from update_head_run [OF record_block_keeps_chain [OF rec]] obtain h where
    h: "update_head ?s1 = Some (?s1\<lparr>s_head := h\<rparr>)" "chain_inv a (?s1\<lparr>s_head := h\<rparr>)" by blast
  obtain s' r where r: "record_proposer_attestation H C sb True ids (?s1\<lparr>s_head := h\<rparr>) = (s', r)"
    by (meson surj_pair)
  have "on_block H C s sb ids = Some (s', r)"
    using ns p h(1) r by (simp add: on_block_def on_block_core_def Let_def b_def)
  moreover have "r = Ok ()" using record_proposer_attestation_Ok [OF p(2)] r by (metis snd_conv)
  moreover note k = record_proposer_attestation_keeps [OF r h(2)]
  moreover have "get_state ?s1 (h_block H b) = Some ?st" unfolding record_block_fields b_def by simp
  then have "get_state s' (h_block H b) = Some ?st" using k by (simp add: get_state_def fun_eq_iff)
  moreover from this have "has_state s' (h_block H b)" by (simp add: has_state_def get_state_def)
  ultimately show ?thesis using m(1,2) p by auto
qed

section \<open>Initialization\<close>

lemma init_store_chain:
  assumes run: "init_store H empty_tables anchor body = Ok s" and wf: "wf_state anchor"
    and nz: "s_head s \<noteq> 0" "s_head s \<noteq> hdr_parent_root (st_latest_block_header anchor)"
  shows "chain_inv (hdr_slot (st_latest_block_header anchor)) s"
proof -
  let ?slot = "hdr_slot (st_latest_block_header anchor)"
  have ok: "store_ok s" using init_store_ok [OF run] by (simp add: tables_ok_def empty_tables_def)
  define hd where "hd = (st_latest_block_header anchor)\<lparr>hdr_state_root :=
    h_state H (anchor\<lparr>st_latest_block_header := (st_latest_block_header anchor)\<lparr>hdr_state_root := 0\<rparr>\<rparr>)\<rparr>"
  define st where "st = anchor\<lparr>st_latest_block_header := hd\<rparr>"
  have f: "s_latest_justified s = \<lparr>cp_root = s_head s, cp_slot = ?slot\<rparr>"
    "s_latest_finalized s = \<lparr>cp_root = s_head s, cp_slot = ?slot\<rparr>" "s_safe_target s = s_head s"
    "t_live_chain s = [((?slot, s_head s), hdr_parent_root hd)]"
    "t_states s = [(s_head s, st)]" "t_block_headers s = [(s_head s, hd)]" "hdr_slot hd = ?slot"
    using run by (auto simp: init_store_def Let_def empty_tables_def tbl_put_def hd_def st_def split: if_splits)
  have "wf_state st" using wf f(7) by (simp add: wf_state_def st_def)
  moreover have "length (st_historical_block_hashes anchor) = unat ?slot"
    "cp_slot (st_latest_justified anchor) \<le> ?slot" "cp_slot (st_latest_finalized anchor) \<le> ?slot"
    using wf by (auto simp: wf_state_def)
  ultimately have "state_tracked ?slot s (s_head s) st"
    using f by (simp add: state_tracked_def Let_def get_block_header_def st_def)
  moreover have "hdr_parent_root hd \<noteq> s_head s" using nz(2) by (simp add: hd_def)
  ultimately show ?thesis
    using ok f nz(1) by (auto simp: chain_inv_def head_ok_def chain_ok_def live_tree_def get_state_def st_def split: if_splits)
qed

section \<open>Gossip\<close>

lemma on_gossip_attestation_keeps:
  assumes "chain_inv a s"
  shows "chain_inv a (fst (on_gossip_attestation H C s sa ids))"
  using assms
  by (simp add: on_gossip_attestation_def Let_def neutral_data.keeps_inv neutral_gossip.keeps_inv
      split: result.splits)

lemma on_gossip_aggregated_attestation_keeps:
  assumes "chain_inv a s"
  shows "chain_inv a (fst (on_gossip_aggregated_attestation H C s agg))"
  using assms
  by (simp add: on_gossip_aggregated_attestation_def Let_def neutral_data.keeps_inv
      neutral_new_batch.keeps_inv split: result.splits)

end
