(* ===== verification/Chain_Ticks.thy ===== *)
theory Chain_Ticks
  imports Chain_Invariant
begin

text \<open>
  Ticks and attestation targets on a store that satisfies the chain invariant: the aggregation of
  the committee's signatures, the work of one interval, the loop that catches up with the clock, and
  the walks that look for the target of an attestation. The tick loop and the walks are partial in
  the model, as they are in the code; here they are shown to return.
\<close>

section \<open>Aggregation of gossip signatures\<close>

text \<open>Groups of signatures by data root, each signature from one of the given keys.\<close>

definition groups_ok :: "signature_key set \<Rightarrow> (H256 \<times> (u64 \<times> 'sig) list) list \<Rightarrow> bool" where
  "groups_ok keys groups \<longleftrightarrow> distinct (map fst groups) \<and>
     (\<forall>(dr, vs) \<in> set groups. distinct (map fst vs) \<and> (\<forall>v \<in> fst ` set vs. (v, dr) \<in> keys))"

lemma group_signature_ok:
  assumes "groups_ok keys groups" and "(v, dr) \<notin> keys"
  shows "groups_ok (insert (v, dr) keys) (group_signature C ((v, dr), stored) groups)"
proof (cases "to_validator_signature C stored")
  case None
  with assms(1) show ?thesis by (auto simp: group_signature_def groups_ok_def)
next
  case (Some sig)
  define g where "g = (case map_of groups dr of None \<Rightarrow> [] | Some g \<Rightarrow> g)"
  have d: "distinct (map fst groups)" using assms(1) by (simp add: groups_ok_def)
  have old: "distinct (map fst g) \<and> (\<forall>u \<in> fst ` set g. (u, dr) \<in> keys)"
  proof (cases "map_of groups dr")
    case (Some g')
    then have "(dr, g') \<in> set groups" by (rule map_of_SomeD)
    with assms(1) Some show ?thesis unfolding groups_ok_def by (auto simp: g_def)
  qed (simp add: g_def)
  with assms(2) have new: "distinct (map fst (g @ [(v, sig)])) \<and>
      (\<forall>u \<in> fst ` set (g @ [(v, sig)]). (u, dr) \<in> insert (v, dr) keys)" by auto
  have d': "distinct (map fst (AList.update dr (g @ [(v, sig)]) groups))" using d by (simp add: distinct_update)
  have all: "distinct (map fst vs) \<and> (\<forall>u \<in> fst ` set vs. (u, r) \<in> insert (v, dr) keys)"
    if "(r, vs) \<in> set (AList.update dr (g @ [(v, sig)]) groups)" for r vs
  proof (cases "r = dr")
    case True
    with that d' have "vs = g @ [(v, sig)]"
      by (metis (no_types, lifting) map_of_eq_Some_iff map_of_update option.inject fun_upd_same)
    with new True show ?thesis by simp
  next
    case False
    with that d' d have "(r, vs) \<in> set groups"
      by (metis (no_types, lifting) map_of_eq_Some_iff map_of_update fun_upd_other)
    with assms(1) show ?thesis unfolding groups_ok_def by auto
  qed
  have upd: "group_signature C ((v, dr), stored) groups = AList.update dr (g @ [(v, sig)]) groups"
    using Some by (simp add: group_signature_def g_def)
  show ?thesis
    unfolding groups_ok_def upd
  proof (intro conjI ballI)
    show "distinct (map fst (AList.update dr (g @ [(v, sig)]) groups))" by (rule d')
    fix e assume e: "e \<in> set (AList.update dr (g @ [(v, sig)]) groups)"
    obtain r vs where rv: "e = (r, vs)" by (cases e) (rule that)
    from all [OF e [unfolded rv]]
    show "case e of (dr', vs) \<Rightarrow> distinct (map fst vs) \<and> (\<forall>u \<in> fst ` set vs. (u, dr') \<in> insert (v, dr) keys)"
      unfolding rv prod.case .
  qed
qed

lemma fold_group_signature_ok:
  assumes "groups_ok keys groups" and "distinct (map fst sigs)" and "keys \<inter> fst ` set sigs = {}"
  shows "groups_ok (keys \<union> fst ` set sigs) (fold (group_signature C) sigs groups)"
  using assms
proof (induction sigs arbitrary: keys groups)
  case Nil
  then show ?case by simp
next
  case (Cons e sigs)
  obtain v dr stored where e: "e = ((v, dr), stored)" by (metis prod.exhaust)
  have "groups_ok (insert (v, dr) keys) (group_signature C e groups)"
    unfolding e by (rule group_signature_ok) (use Cons.prems e in auto)
  from Cons.IH [OF this] Cons.prems e show ?case by simp
qed

lemma usable_ids:
  fixes C validators
  assumes "distinct (map fst vs)"
  defines "ids \<equiv> map fst (List.map_filter (usable_signature C validators) vs)"
  shows "distinct ids" and "set ids \<subseteq> fst ` set vs" and "\<forall>v \<in> set ids. unat v < length validators"
proof -
  have e: "fst e = fst x \<and> unat (fst e) < length validators" if "usable_signature C validators x = Some e" for x e
    using that by (cases x) (auto simp: usable_signature_def split: if_splits option.splits)
  have "distinct ids \<and> set ids \<subseteq> fst ` set vs \<and> (\<forall>v \<in> set ids. unat v < length validators)"
    using assms(1) unfolding ids_def
  proof (induction vs)
    case Nil
    then show ?case by (simp add: map_filter_simps)
  next
    case (Cons x vs)
    show ?case
    proof (cases "usable_signature C validators x")
      case None
      with Cons show ?thesis by (auto simp: map_filter_simps)
    next
      case (Some y)
      with Cons e [OF Some] show ?thesis by (auto simp: map_filter_simps)
    qed
  qed
  then show "distinct ids" and "set ids \<subseteq> fst ` set vs" and "\<forall>v \<in> set ids. unat v < length validators"
    by blast+
qed

lemma aggregate_group_run:
  assumes n: "length validators \<le> VALIDATOR_REGISTRY_LIMIT" and d: "distinct (map fst vs)"
  shows "\<exists>acc' ids. aggregate_group C s validators (dr, vs) acc = Ok acc' \<and>
    ga_deletes acc' = ga_deletes acc @ map (\<lambda>v. (v, dr)) ids \<and> distinct ids \<and> set ids \<subseteq> fst ` set vs"
proof -
  let ?ids = "map fst (List.map_filter (usable_signature C validators) vs)"
  note u = usable_ids [OF d, of C validators]
  have "\<forall>v \<in> set ?ids. unat v < VALIDATOR_REGISTRY_LIMIT" using u(3) n by fastforce
  from bits_of_ids_Ok [OF this] obtain bits where
    "aggregation_bits_from_validator_indices ?ids = Ok bits"
    by (cases "?ids = []") (auto simp: aggregation_bits_from_validator_indices_def)
  then have "(\<exists>acc'. aggregate_group C s validators (dr, vs) acc = Ok acc' \<and>
      ga_deletes acc' = ga_deletes acc @ map (\<lambda>v. (v, dr)) ?ids) \<or>
    aggregate_group C s validators (dr, vs) acc = Ok acc"
    by (auto simp: aggregate_group_def Let_def split: option.splits result.splits)
  then show ?thesis
  proof (elim disjE exE conjE)
    assume "aggregate_group C s validators (dr, vs) acc = Ok acc"
    then show ?thesis by (intro exI [of _ acc] exI [of _ "[]"]) simp
  qed (use u(1,2) in blast)
qed

lemma aggregate_groups_run:
  assumes n: "length validators \<le> VALIDATOR_REGISTRY_LIMIT" and g: "groups_ok keys groups"
    and acc: "distinct (ga_deletes acc)" "\<forall>(v, dr) \<in> set (ga_deletes acc). dr \<notin> fst ` set groups"
  shows "\<exists>acc'. fold_res (aggregate_group C s validators) groups acc = Ok acc' \<and>
    distinct (ga_deletes acc') \<and> set (ga_deletes acc') \<subseteq> set (ga_deletes acc) \<union> keys"
  using g acc
proof (induction groups arbitrary: acc)
  case Nil
  then show ?case by simp
next
  case (Cons e groups)
  obtain dr vs where e: "e = (dr, vs)" by (cases e)
  have d: "distinct (map fst vs)" and k: "\<forall>v \<in> fst ` set vs. (v, dr) \<in> keys"
    and g: "groups_ok keys groups" and new: "dr \<notin> fst ` set groups"
    using Cons.prems(1) e by (auto simp: groups_ok_def)
  from aggregate_group_run [OF n d, of C s dr acc] obtain acc1 ids where
    a: "aggregate_group C s validators (dr, vs) acc = Ok acc1"
      "ga_deletes acc1 = ga_deletes acc @ map (\<lambda>v. (v, dr)) ids" "distinct ids" "set ids \<subseteq> fst ` set vs" by blast
  have "distinct (ga_deletes acc1)"
    using Cons.prems(2,3) e a(2,3) by (auto simp: distinct_map inj_on_def)
  moreover have "\<forall>(v, dr) \<in> set (ga_deletes acc1). dr \<notin> fst ` set groups"
    using Cons.prems(3) e a(2) new by auto
  ultimately obtain acc' where "fold_res (aggregate_group C s validators) groups acc1 = Ok acc'"
    "distinct (ga_deletes acc')" "set (ga_deletes acc') \<subseteq> set (ga_deletes acc1) \<union> keys"
    using Cons.IH [OF g] by blast
  moreover have "set (ga_deletes acc1) \<subseteq> set (ga_deletes acc) \<union> keys" using a(2,4) k by auto
  ultimately show ?case using a(1) e by auto
qed

lemma delete_gossip_signatures_chain:
  assumes c: "chain_inv a s" and k: "distinct keys" "set keys \<subseteq> dom (map_of (t_gossip_signatures s))"
  shows "chain_inv a (delete_gossip_signatures keys s)"
proof -
  have "store_ok (delete_gossip_signatures keys s)"
    by (rule store_ok_delete_gossip [OF chain_okD(1) [OF chain_invD(1) [OF c]] k])
  then show ?thesis
    using c by (simp add: chain_inv_def head_ok_def chain_ok_def state_tracked_def
        delete_gossip_signatures_def get_state_def get_block_header_def)
qed

lemma aggregate_committee_signatures_step:
  assumes ok: "store_ok s" and wf: "\<And>st. get_state s (s_head s) = Some st \<Longrightarrow> wf_state st"
  shows "aggregate_committee_signatures C s = Ok (s, []) \<or>
    get_state s (s_head s) = None \<and> aggregate_committee_signatures C s = Panic \<or>
    (\<exists>ps keys aggs. aggregate_committee_signatures C s =
        Ok (delete_gossip_signatures keys (insert_new_aggregated_payloads_batch ps s), aggs) \<and>
      distinct keys \<and> set keys \<subseteq> dom (map_of (t_gossip_signatures s)))"
proof (cases "iter_gossip_signatures s = []")
  case True
  then show ?thesis by (simp add: aggregate_committee_signatures_def)
next
  case False
  let ?t = "t_gossip_signatures s"
  show ?thesis
  proof (cases "get_state s (s_head s)")
    case None
    with False show ?thesis by (simp add: aggregate_committee_signatures_def Let_def head_state_def)
  next
    case (Some st)
    with wf have n: "length (st_validators st) \<le> VALIDATOR_REGISTRY_LIMIT" by (simp add: wf_state_def)
    have d: "distinct (map fst ?t)"
      using ok tbl_sorted_distinct unfolding store_ok_def tables_ok_def by blast
    have "groups_ok ({} \<union> fst ` set ?t) (fold (group_signature C) ?t [])"
      by (rule fold_group_signature_ok) (simp_all add: groups_ok_def d)
    then have g: "groups_ok (fst ` set ?t) (fold (group_signature C) ?t [])" by simp
    obtain acc where acc: "fold_res (aggregate_group C s (st_validators st)) (fold (group_signature C) ?t [])
        \<lparr>ga_aggregates = [], ga_payloads = [], ga_deletes = []\<rparr> = Ok acc"
      "distinct (ga_deletes acc)" "set (ga_deletes acc) \<subseteq> fst ` set ?t"
      using aggregate_groups_run [OF n g, of "\<lparr>ga_aggregates = [], ga_payloads = [], ga_deletes = []\<rparr>" C s] by auto
    then have "aggregate_committee_signatures C s = Ok (delete_gossip_signatures (ga_deletes acc)
        (insert_new_aggregated_payloads_batch (ga_payloads acc) s), ga_aggregates acc)"
      using False Some
      by (simp add: aggregate_committee_signatures_def Let_def head_state_def iter_gossip_signatures_def)
    with acc(2,3) show ?thesis by (auto simp: dom_map_of_conv_image_fst)
  qed
qed

lemma aggregate_committee_signatures_run:
  assumes inv: "chain_inv a s"
  shows "\<exists>s' aggs. aggregate_committee_signatures C s = Ok (s', aggs) \<and> chain_inv a s' \<and>
    chain_frame s s' \<and> s_time s' = s_time s \<and> s_config s' = s_config s"
proof -
  note c = chain_invD(1) [OF inv]
  have "wf_state st" if "get_state s (s_head s) = Some st" for st
    using state_trackedD(1) [OF chain_okD(3) [OF c that]] .
  note step = aggregate_committee_signatures_step [OF chain_okD(1) [OF c] this, of C]
  have "chain_inv a (delete_gossip_signatures keys (insert_new_aggregated_payloads_batch ps s))"
    if "distinct keys" "set keys \<subseteq> dom (map_of (t_gossip_signatures s))" for ps keys
    by (rule delete_gossip_signatures_chain [OF neutral_new_batch.keeps_inv [OF inv]])
      (use that in \<open>simp_all add: insert_new_aggregated_payloads_batch_def\<close>)
  with step inv chain_okD(9) [OF c] show ?thesis
    by (auto simp: delete_gossip_signatures_def insert_new_aggregated_payloads_batch_def chain_frame_def)
qed

section \<open>Ticks\<close>

lemma tick_interval_run:
  assumes c: "chain_inv a s" and i: "unat interval < 5"
  shows "\<exists>s' aggs. tick_interval C sig agg interval s = Some (Ok (s', aggs)) \<and> chain_inv a s' \<and>
    chain_frame s s' \<and> s_time s' = s_time s \<and> s_config s' = s_config s"
proof -
  have cases: "interval = 0 \<or> interval = 1 \<or> interval = 2 \<or> interval = 3 \<or> interval = 4"
  proof -
    have w: "interval = word_of_nat n" if "unat interval = n" for n using that by auto
    from i consider "unat interval = 0" | "unat interval = 1" | "unat interval = 2" |
      "unat interval = 3" | "unat interval = 4" by linarith
    then show ?thesis by cases (drule w, simp)+
  qed
  note h = accept_new_attestations_run [OF chain_invD(1) [OF c]]
  obtain h' where h': "update_safe_target s = Some (Ok (s\<lparr>s_safe_target := h'\<rparr>))"
    "chain_inv a (s\<lparr>s_safe_target := h'\<rparr>)" using update_safe_target_run [OF c] by blast
  show ?thesis
    using cases c h h' aggregate_committee_signatures_run [OF c, of C]
    by (elim disjE) (auto simp: tick_interval_def)
qed

lemma tick_loop_run:
  assumes "chain_inv a s"
  shows "\<exists>s' aggs. tick_loop C hp ia time s acc = Some (Ok (s', acc @ aggs)) \<and> chain_inv a s' \<and>
    chain_frame s s' \<and> s_time s' = max (s_time s) time \<and> s_config s' = s_config s"
  using assms
proof (induction "unat time - unat (s_time s)" arbitrary: s acc rule: less_induct)
  case less
  show ?case
  proof (cases "s_time s < time")
    case False
    with less.prems show ?thesis
      by (subst tick_loop.simps) (auto simp: max_def intro: exI [of _ "[]"])
  next
    case True
    let ?t = "s_time s + 1"
    have un: "unat ?t = unat (s_time s) + 1" using True by (intro unat_succ) 
    have le: "?t \<le> time" using True un by (simp add: word_le_nat_alt word_less_nat_alt)
    have "unat (?t mod INTERVALS_PER_SLOT) < 5" by (simp add: INTERVALS_PER_SLOT_def unat_mod)
    from tick_interval_run [OF neutral_set_time.keeps_inv [OF less.prems] this, of C "hp \<and> ?t = time" ia ?t]
    obtain s1 aggs1 where s1: "tick_interval C (hp \<and> ?t = time) ia (?t mod INTERVALS_PER_SLOT) (set_time ?t s) =
        Some (Ok (s1, aggs1))" "chain_inv a s1" "chain_frame (set_time ?t s) s1" "s_time s1 = ?t"
        "s_config s1 = s_config s"
      by (auto simp: set_time_def)
    have "unat time - unat (s_time s1) < unat time - unat (s_time s)"
      using True un s1(4) by (simp add: word_less_nat_alt)
    from less.hyps [OF this s1(2), of "acc @ aggs1"] obtain s' aggs where
      s': "tick_loop C hp ia time s1 (acc @ aggs1) = Some (Ok (s', acc @ aggs1 @ aggs))" "chain_inv a s'"
        "chain_frame s1 s'" "s_time s' = max ?t time" "s_config s' = s_config s1" using s1(4) by auto
    have "tick_loop C hp ia time s acc = Some (Ok (s', acc @ aggs1 @ aggs))"
      using True s1(1) s'(1) by (subst tick_loop.simps) simp
    moreover have "chain_frame s s'"
      using neutral_set_time.keeps_frame s1(3) s'(3) chain_frame_trans by blast
    ultimately show ?thesis using s' s1(5) le True by (auto simp: max_def)
  qed
qed

section \<open>Attestation targets\<close>

inductive ancestor :: "store \<Rightarrow> H256 \<Rightarrow> H256 \<Rightarrow> bool" for s where
  self: "ancestor s r r"
| parent: "get_block_header s r = Some h \<Longrightarrow> ancestor s (hdr_parent_root h) q \<Longrightarrow> ancestor s r q"

lemma ancestor_trans: "ancestor s r q \<Longrightarrow> ancestor s q p \<Longrightarrow> ancestor s r p"
  by (induction rule: ancestor.induct) (auto intro: ancestor.parent)

definition block_at :: "store \<Rightarrow> H256 \<Rightarrow> block_header \<Rightarrow> bool" where
  "block_at s r h \<longleftrightarrow> get_state s r \<noteq> None \<and> get_block_header s r = Some h"

lemma block_at_state:
  assumes "chain_ok a s" and "get_state s r = Some st"
  shows "\<exists>h. block_at s r h \<and> hdr_slot h = hdr_slot (st_latest_block_header st) \<and> a \<le> hdr_slot h"
  using state_trackedD(2,8) [OF chain_okD(3) [OF assms]] assms(2) by (auto simp: block_at_def)

lemma block_at_parent:
  assumes "chain_ok a s" and "block_at s r h" and "a < hdr_slot h"
  shows "\<exists>h'. block_at s (hdr_parent_root h) h' \<and> hdr_slot h' < hdr_slot h"
proof -
  from assms(2) obtain st where st: "get_state s r = Some st" "get_block_header s r = Some h"
    by (auto simp: block_at_def)
  from state_trackedD(8) [OF chain_okD(3) [OF assms(1) st(1)]] st(2) assms(3) obtain pst where
    p: "get_state s (hdr_parent_root h) = Some pst" "hdr_slot (st_latest_block_header pst) < hdr_slot h" by auto
  from block_at_state [OF assms(1) p(1)] p(2) show ?thesis by auto
qed

lemma look_back_run:
  assumes "chain_ok a s" and "a \<le> safe"
  shows "block_at s r h \<Longrightarrow> \<exists>r' h'. look_back n s safe r h = Ok (r', h') \<and> block_at s r' h' \<and>
    ancestor s r r' \<and> hdr_slot h' \<le> hdr_slot h"
proof (induction n arbitrary: r h)
  case 0
  then show ?case by (auto intro: ancestor.self)
next
  case (Suc n)
  show ?case
  proof (cases "safe < hdr_slot h")
    case False
    with Suc.prems show ?thesis by (auto intro: ancestor.self)
  next
    case True
    with assms(2) have "a < hdr_slot h" by simp
    from block_at_parent [OF assms(1) Suc.prems this] obtain ph where
      ph: "block_at s (hdr_parent_root h) ph" "hdr_slot ph < hdr_slot h" by blast
    from Suc.IH [OF ph(1)] obtain r' h' where
      "look_back n s safe (hdr_parent_root h) ph = Ok (r', h')" "block_at s r' h'"
      "ancestor s (hdr_parent_root h) r'" "hdr_slot h' \<le> hdr_slot ph" by blast
    with True ph Suc.prems show ?thesis
      by (auto simp: block_at_def intro: ancestor.parent)
  qed
qed

lemma walk_to_justifiable_run:
  assumes "chain_ok a s" and "a \<le> f"
  shows "block_at s r h \<Longrightarrow> \<exists>r' h'. walk_to_justifiable s f r h = Some (Ok (r', h')) \<and> block_at s r' h' \<and>
    ancestor s r r' \<and> hdr_slot h' \<le> hdr_slot h \<and>
    (hdr_slot h' \<le> f \<or> slot_is_justifiable_after (hdr_slot h') f)"
proof (induction "unat (hdr_slot h)" arbitrary: r h rule: less_induct)
  case less
  show ?case
  proof (cases "f < hdr_slot h \<and> \<not> slot_is_justifiable_after (hdr_slot h) f")
    case False
    with less.prems show ?thesis
      by (subst walk_to_justifiable.simps) (auto intro: ancestor.self)
  next
    case True
    with assms(2) have "a < hdr_slot h" using le_less_trans by blast
    from block_at_parent [OF assms(1) less.prems this] obtain ph where
      ph: "block_at s (hdr_parent_root h) ph" "hdr_slot ph < hdr_slot h" by blast
    from less.hyps [OF _ ph(1)] ph(2) obtain r' h' where
      w: "walk_to_justifiable s f (hdr_parent_root h) ph = Some (Ok (r', h'))" "block_at s r' h'"
      "ancestor s (hdr_parent_root h) r'" "hdr_slot h' \<le> hdr_slot ph"
      "hdr_slot h' \<le> f \<or> slot_is_justifiable_after (hdr_slot h') f"
      by (auto simp: word_less_nat_alt)
    have "walk_to_justifiable s f r h = Some (Ok (r', h'))"
      using True ph(1) w(1) by (subst walk_to_justifiable.simps) (simp add: block_at_def)
    moreover have "ancestor s r r'"
      using less.prems w(3) by (auto simp: block_at_def intro: ancestor.parent)
    ultimately show ?thesis using w ph(2) by (meson less_imp_le order_trans)
  qed
qed

text \<open>The justified checkpoint of the store is a stored block at its own slot.\<close>

lemma justified_block:
  assumes "chain_ok a s"
  shows "\<exists>h. block_at s (cp_root (s_latest_justified s)) h \<and> hdr_slot h = cp_slot (s_latest_justified s)"
proof -
  from chain_okD(8) [OF assms] obtain p where
    p: "((cp_slot (s_latest_justified s), cp_root (s_latest_justified s)), p) \<in> set (t_live_chain s)" by blast
  from chain_okD(4) [OF assms p] obtain st where st: "get_state s (cp_root (s_latest_justified s)) = Some st" by blast
  from block_at_state [OF assms st] state_trackedD(5) [OF chain_okD(3) [OF assms st] p] show ?thesis by auto
qed

lemma get_attestation_target_run:
  assumes inv: "chain_inv a s"
  shows "\<exists>cp h hd. get_attestation_target s = Some (Ok cp) \<and> block_at s (cp_root cp) h \<and>
    hdr_slot h = cp_slot cp \<and> cp_slot (s_latest_justified s) \<le> cp_slot cp \<and>
    get_block_header s (s_head s) = Some hd \<and> cp_slot cp \<le> hdr_slot hd \<and>
    (cp = s_latest_justified s \<or> ancestor s (s_head s) (cp_root cp) \<and>
      (cp_slot cp \<le> cp_slot (s_latest_finalized s) \<or>
       slot_is_justifiable_after (cp_slot cp) (cp_slot (s_latest_finalized s))))"
proof -
  note c = chain_invD(1) [OF inv]
  from chain_okD(9) [OF c] obtain hst where hst: "get_state s (s_head s) = Some hst" by blast
  from block_at_state [OF c hst] obtain hd where
    hd: "block_at s (s_head s) hd" "hdr_slot hd = hdr_slot (st_latest_block_header hst)" by blast
  have jh: "cp_slot (s_latest_justified s) \<le> hdr_slot hd"
    using chain_invD(2) [OF inv] hst hd(2) by (simp add: head_ok_def)
  from chain_okD(10) [OF c] obtain sst where "get_state s (s_safe_target s) = Some sst" by blast
  from block_at_state [OF c this] obtain sh where sh: "block_at s (s_safe_target s) sh" "a \<le> hdr_slot sh" by blast
  from look_back_run [OF c sh(2) hd(1)] obtain r1 h1 where
    l: "look_back JUSTIFICATION_LOOKBACK_SLOTS s (hdr_slot sh) (s_head s) hd = Ok (r1, h1)"
      "block_at s r1 h1" "ancestor s (s_head s) r1" "hdr_slot h1 \<le> hdr_slot hd" by blast
  from walk_to_justifiable_run [OF c chain_okD(5) [OF c] l(2)] obtain r h where
    w: "walk_to_justifiable s (cp_slot (s_latest_finalized s)) r1 h1 = Some (Ok (r, h))" "block_at s r h"
      "ancestor s r1 r" "hdr_slot h \<le> hdr_slot h1"
      "hdr_slot h \<le> cp_slot (s_latest_finalized s) \<or> slot_is_justifiable_after (hdr_slot h) (cp_slot (s_latest_finalized s))"
    by blast
  have run: "get_attestation_target s = Some (Ok (if hdr_slot h < cp_slot (s_latest_justified s)
      then s_latest_justified s else \<lparr>cp_root = r, cp_slot = hdr_slot h\<rparr>))"
    using hd(1) sh(1) l(1) w(1)
    by (simp add: get_attestation_target_def block_at_def safe_target_slot_def)
  show ?thesis
  proof (cases "hdr_slot h < cp_slot (s_latest_justified s)")
    case True
    with run justified_block [OF c] hd(1) jh show ?thesis by (auto simp: block_at_def)
  next
    case False
    have "ancestor s (s_head s) r" by (rule ancestor_trans [OF l(3) w(3)])
    moreover have "hdr_slot h \<le> hdr_slot hd" using w(4) l(4) by (rule order_trans)
    ultimately show ?thesis using False run w(2,5) hd(1)
      by (intro exI [of _ "\<lparr>cp_root = r, cp_slot = hdr_slot h\<rparr>"] exI [of _ h] exI [of _ hd])
        (auto simp: block_at_def)
  qed
qed

text \<open>
  Where the walk ends, exactly. \<open>ancestor_at s k r\<close> is the \<open>k\<close>-th ancestor of a block and
  \<open>walks_back s k m\<close> says at which two ancestors of the head the two loops of
  \<open>get_attestation_target\<close> stop: the first after at most \<open>JUSTIFICATION_LOOKBACK_SLOTS\<close> steps, as soon
  as the slot is not beyond that of the safe target, the second at the first ancestor from there
  whose slot is justifiable after the finalized slot or not beyond it.
\<close>

primrec ancestor_at :: "store \<Rightarrow> nat \<Rightarrow> H256 \<Rightarrow> H256" where
  "ancestor_at s 0 r = r"
| "ancestor_at s (Suc k) r = (case get_block_header s r of None \<Rightarrow> r | Some h \<Rightarrow> ancestor_at s k (hdr_parent_root h))"

definition slot_at :: "store \<Rightarrow> H256 \<Rightarrow> u64" where
  "slot_at s r = (case get_block_header s r of None \<Rightarrow> 0 | Some h \<Rightarrow> hdr_slot h)"

lemma block_at_slot [simp]: "block_at s r h \<Longrightarrow> slot_at s r = hdr_slot h"
  by (simp add: block_at_def slot_at_def)

lemma ancestor_at_stuck: "get_block_header s r = None \<Longrightarrow> ancestor_at s k r = r"
  by (cases k) simp_all

lemma ancestor_at_add: "ancestor_at s (k + m) r = ancestor_at s m (ancestor_at s k r)"
  by (induction k arbitrary: r) (simp_all add: ancestor_at_stuck split: option.splits)

lemma ancestor_at_ancestor: "ancestor s r (ancestor_at s k r)"
  by (induction k arbitrary: r) (auto intro: ancestor.intros split: option.splits)

lemma look_back_steps:
  assumes "chain_ok a s" and "a \<le> safe"
  shows "block_at s r h \<Longrightarrow> \<exists>k h'. look_back n s safe r h = Ok (ancestor_at s k r, h') \<and> block_at s (ancestor_at s k r) h' \<and>
    k \<le> n \<and> (\<forall>i < k. safe < slot_at s (ancestor_at s i r)) \<and> (k = n \<or> hdr_slot h' \<le> safe) \<and> hdr_slot h' \<le> hdr_slot h"
proof (induction n arbitrary: r h)
  case 0
  then show ?case by (intro exI [of _ 0] exI [of _ h]) simp
next
  case (Suc n)
  show ?case
  proof (cases "safe < hdr_slot h")
    case False
    with Suc.prems show ?thesis by (intro exI [of _ 0] exI [of _ h]) simp
  next
    case True
    with assms(2) have "a < hdr_slot h" by simp
    from block_at_parent [OF assms(1) Suc.prems this] obtain ph where
      ph: "block_at s (hdr_parent_root h) ph" "hdr_slot ph < hdr_slot h" by blast
    from Suc.IH [OF ph(1)] obtain k h' where
      k: "look_back n s safe (hdr_parent_root h) ph = Ok (ancestor_at s k (hdr_parent_root h), h')"
      "block_at s (ancestor_at s k (hdr_parent_root h)) h'" "k \<le> n"
      "\<forall>i < k. safe < slot_at s (ancestor_at s i (hdr_parent_root h))" "k = n \<or> hdr_slot h' \<le> safe" "hdr_slot h' \<le> hdr_slot ph"
      by blast
    have h: "get_block_header s r = Some h" using Suc.prems by (simp add: block_at_def)
    have "\<forall>i < Suc k. safe < slot_at s (ancestor_at s i r)"
      using k(4) True Suc.prems h by (auto simp: less_Suc_eq_0_disj)
    with k h True ph show ?thesis
      by (intro exI [of _ "Suc k"] exI [of _ h']) (auto simp: block_at_def)
  qed
qed

lemma walk_steps:
  assumes "chain_ok a s" and "a \<le> f"
  shows "block_at s r h \<Longrightarrow> \<exists>m h'. walk_to_justifiable s f r h = Some (Ok (ancestor_at s m r, h')) \<and>
    block_at s (ancestor_at s m r) h' \<and>
    (\<forall>i < m. f < slot_at s (ancestor_at s i r) \<and> \<not> slot_is_justifiable_after (slot_at s (ancestor_at s i r)) f) \<and>
    (hdr_slot h' \<le> f \<or> slot_is_justifiable_after (hdr_slot h') f) \<and> hdr_slot h' \<le> hdr_slot h"
proof (induction "unat (hdr_slot h)" arbitrary: r h rule: less_induct)
  case less
  show ?case
  proof (cases "f < hdr_slot h \<and> \<not> slot_is_justifiable_after (hdr_slot h) f")
    case False
    with less.prems show ?thesis
      by (subst walk_to_justifiable.simps) (auto intro!: exI [of _ 0] exI [of _ h])
  next
    case True
    with assms(2) have "a < hdr_slot h" using le_less_trans by blast
    from block_at_parent [OF assms(1) less.prems this] obtain ph where
      ph: "block_at s (hdr_parent_root h) ph" "hdr_slot ph < hdr_slot h" by blast
    let ?p = "hdr_parent_root h"
    from less.hyps [OF _ ph(1)] ph(2) obtain m h' where
      w: "walk_to_justifiable s f ?p ph = Some (Ok (ancestor_at s m ?p, h'))" "block_at s (ancestor_at s m ?p) h'"
      "\<forall>i < m. f < slot_at s (ancestor_at s i ?p) \<and> \<not> slot_is_justifiable_after (slot_at s (ancestor_at s i ?p)) f"
      "hdr_slot h' \<le> f \<or> slot_is_justifiable_after (hdr_slot h') f" "hdr_slot h' \<le> hdr_slot ph"
      by (auto simp: word_less_nat_alt)
    have h: "get_block_header s r = Some h" using less.prems by (simp add: block_at_def)
    have "walk_to_justifiable s f r h = Some (Ok (ancestor_at s (Suc m) r, h'))"
      using True ph(1) w(1) h by (subst walk_to_justifiable.simps) (simp add: block_at_def)
    moreover have "\<forall>i < Suc m. f < slot_at s (ancestor_at s i r) \<and> \<not> slot_is_justifiable_after (slot_at s (ancestor_at s i r)) f"
      using w(3) True less.prems h by (auto simp: less_Suc_eq_0_disj)
    ultimately show ?thesis using w h ph(2) by (intro exI [of _ "Suc m"] exI [of _ h']) auto
  qed
qed

definition walks_back :: "store \<Rightarrow> nat \<Rightarrow> nat \<Rightarrow> bool" where
  "walks_back s k m \<longleftrightarrow>
     (let safe = slot_at s (s_safe_target s); f = cp_slot (s_latest_finalized s);
          slot = (\<lambda>i. slot_at s (ancestor_at s i (s_head s)))
      in k \<le> JUSTIFICATION_LOOKBACK_SLOTS \<and> (\<forall>i < k. safe < slot i) \<and>
         (k = JUSTIFICATION_LOOKBACK_SLOTS \<or> slot k \<le> safe) \<and>
         k \<le> m \<and> (\<forall>i. k \<le> i \<and> i < m \<longrightarrow> f < slot i \<and> \<not> slot_is_justifiable_after (slot i) f) \<and>
         (slot m \<le> f \<or> slot_is_justifiable_after (slot m) f))"

lemma get_attestation_target_exact:
  assumes inv: "chain_inv a s"
  shows "\<exists>k m r. walks_back s k m \<and> r = ancestor_at s m (s_head s) \<and> (\<exists>h. block_at s r h) \<and> ancestor s (s_head s) r \<and>
    get_attestation_target s = Some (Ok (if slot_at s r < cp_slot (s_latest_justified s) then s_latest_justified s
      else \<lparr>cp_root = r, cp_slot = slot_at s r\<rparr>))"
proof -
  note c = chain_invD(1) [OF inv]
  from chain_okD(9) [OF c] obtain hst where hst: "get_state s (s_head s) = Some hst" by blast
  from block_at_state [OF c hst] obtain hd where hd: "block_at s (s_head s) hd" by blast
  from chain_okD(10) [OF c] obtain sst where "get_state s (s_safe_target s) = Some sst" by blast
  from block_at_state [OF c this] obtain sh where sh: "block_at s (s_safe_target s) sh" "a \<le> hdr_slot sh" by blast
  from look_back_steps [OF c sh(2) hd, of JUSTIFICATION_LOOKBACK_SLOTS] obtain k h1 where
    l: "look_back JUSTIFICATION_LOOKBACK_SLOTS s (hdr_slot sh) (s_head s) hd = Ok (ancestor_at s k (s_head s), h1)"
      "block_at s (ancestor_at s k (s_head s)) h1" "k \<le> JUSTIFICATION_LOOKBACK_SLOTS"
      "\<forall>i < k. hdr_slot sh < slot_at s (ancestor_at s i (s_head s))" "k = JUSTIFICATION_LOOKBACK_SLOTS \<or> hdr_slot h1 \<le> hdr_slot sh"
    by blast
  let ?f = "cp_slot (s_latest_finalized s)" and ?r1 = "ancestor_at s k (s_head s)"
  from walk_steps [OF c chain_okD(5) [OF c] l(2)] obtain m h where
    w: "walk_to_justifiable s ?f ?r1 h1 = Some (Ok (ancestor_at s m ?r1, h))" "block_at s (ancestor_at s m ?r1) h"
      "\<forall>i < m. ?f < slot_at s (ancestor_at s i ?r1) \<and> \<not> slot_is_justifiable_after (slot_at s (ancestor_at s i ?r1)) ?f"
      "hdr_slot h \<le> ?f \<or> slot_is_justifiable_after (hdr_slot h) ?f"
    by blast
  have b: "ancestor_at s m ?r1 = ancestor_at s (k + m) (s_head s)" by (simp add: ancestor_at_add)
  have mid: "?f < slot_at s (ancestor_at s i (s_head s)) \<and> \<not> slot_is_justifiable_after (slot_at s (ancestor_at s i (s_head s))) ?f"
    if "k \<le> i" "i < k + m" for i
    using w(3) [rule_format, of "i - k"] that ancestor_at_add [of s k "i - k" "s_head s"] by simp
  have "walks_back s k (k + m)"
    unfolding walks_back_def Let_def using l(3-5) w(4) mid block_at_slot [OF sh(1)] block_at_slot [OF l(2)]
      block_at_slot [OF w(2) [unfolded b]] by simp
  moreover have "get_attestation_target s = Some (Ok (if hdr_slot h < cp_slot (s_latest_justified s) then s_latest_justified s
      else \<lparr>cp_root = ancestor_at s (k + m) (s_head s), cp_slot = hdr_slot h\<rparr>))"
    using hd sh(1) l(1) w(1) by (simp add: get_attestation_target_def block_at_def safe_target_slot_def b)
  ultimately show ?thesis
    unfolding block_at_slot [OF w(2) [unfolded b], symmetric] using w(2) [unfolded b] ancestor_at_ancestor by blast
qed

end
