(* ===== verification/Chain_Properties.thy ===== *)
theory Chain_Properties
  imports Chain_Ticks
begin

text \<open>
  What the chain store guarantees: the stores a node can reach (\<open>chain_step\<close>), the conditions under
  which gossip is accepted (\<open>data_acceptable\<close>), and the properties of block import, ticks,
  attestation targets, head selection and block production on every reachable store.
\<close>

section \<open>Specifications\<close>

text \<open>Attestation data that respects time and topology, as the store sees it.\<close>

definition data_acceptable :: "store \<Rightarrow> attestation_data \<Rightarrow> bool" where
  "data_acceptable s d \<longleftrightarrow>
     (\<exists>sh th hh. get_block_header s (cp_root (ad_source d)) = Some sh \<and> hdr_slot sh = cp_slot (ad_source d) \<and>
        get_block_header s (cp_root (ad_target d)) = Some th \<and> hdr_slot th = cp_slot (ad_target d) \<and>
        get_block_header s (cp_root (ad_head d)) = Some hh \<and> hdr_slot hh = cp_slot (ad_head d)) \<and>
     cp_slot (ad_source d) \<le> cp_slot (ad_target d) \<and> cp_slot (ad_target d) \<le> cp_slot (ad_head d) \<and>
     ad_slot d \<le> s_time s div INTERVALS_PER_SLOT + 1"

lemma validate_attestation_data_Ok_iff: "validate_attestation_data s d = Ok x \<longleftrightarrow> data_acceptable s d"
  by (auto simp: validate_attestation_data_def data_acceptable_def outcome_simps Let_def not_less
      split: if_splits)

lemma validate_attestation_data_no_Panic [simp]: "validate_attestation_data s d \<noteq> Panic"
  by (simp add: validate_attestation_data_def outcome_simps Let_def)

lemma check_gossip_attestation_Ok_iff:
  "check_gossip_attestation H C s sa = Ok sig \<longleftrightarrow>
     data_acceptable s (sa_data sa) \<and> unat (ad_slot (sa_data sa)) < 2 ^ 32 \<and>
     (\<exists>st pk. get_state s (cp_root (ad_target (sa_data sa))) = Some st \<and>
        sa_validator_id sa < word_of_nat (length (st_validators st)) \<and>
        c_pubkey C (val_pubkey (st_validators st ! unat (sa_validator_id sa))) = Some pk \<and>
        c_signature C (sa_signature sa) = Some sig \<and>
        c_verify C pk (ucast (ad_slot (sa_data sa))) (h_data H (sa_data sa)) sig)"
  by (auto simp: check_gossip_attestation_def Let_def outcome_simps validate_attestation_data_Ok_iff
      get_pubkey_def not_le split: if_splits)

lemma check_gossip_attestation_Panic:
  "check_gossip_attestation H C s sa = Panic \<Longrightarrow> data_acceptable s (sa_data sa) \<and> 2 ^ 32 \<le> unat (ad_slot (sa_data sa))"
  by (auto simp: check_gossip_attestation_def Let_def outcome_simps validate_attestation_data_Ok_iff split: if_splits)

lemma validator_pubkeys_no_Panic [simp]: "validator_pubkeys C vs ids \<noteq> Panic"
  unfolding validator_pubkeys_def by (induction ids) (auto simp: bind_res_Panic_iff)

lemma verify_aggregated_signature_no_Panic [simp]: "verify_aggregated_signature C p pks m slot \<noteq> Panic"
  by (simp add: verify_aggregated_signature_def)

lemma check_gossip_aggregate_Ok_iff:
  "check_gossip_aggregate H C s agg = Ok x \<longleftrightarrow>
     data_acceptable s (saa_data agg) \<and>
     (\<exists>st. get_state s (cp_root (ad_target (saa_data agg))) = Some st \<and>
        proof_valid H C (st_validators st)
          \<lparr>aa_aggregation_bits = asp_participants (saa_proof agg), aa_data = saa_data agg\<rparr> (saa_proof agg))"
  by (auto simp: check_gossip_aggregate_def Let_def outcome_simps validate_attestation_data_Ok_iff
      proof_valid_def validator_pubkeys_def get_pubkey_def participant_indices_def list_ex_iff not_le
      split: if_splits)

lemma check_gossip_aggregate_Panic:
  "check_gossip_aggregate H C s agg = Panic \<Longrightarrow> data_acceptable s (saa_data agg) \<and> 2 ^ 32 \<le> unat (ad_slot (saa_data agg))"
  by (auto simp: check_gossip_aggregate_def Let_def outcome_simps validate_attestation_data_Ok_iff split: if_splits)

text \<open>Within the first \<open>2^32\<close> slots acceptable data has a slot of 32 bits.\<close>

lemma data_acceptable_slot:
  assumes "data_acceptable s d" and "s_time s div INTERVALS_PER_SLOT + 1 < 2 ^ 32"
  shows "unat (ad_slot d) < 2 ^ 32"
proof -
  have "ad_slot d < 2 ^ 32" using assms by (auto simp: data_acceptable_def intro: le_less_trans)
  then show ?thesis by (simp add: word_less_nat_alt)
qed

section \<open>Reachable stores\<close>

text \<open>
  What happens to the store of a running node: blocks, gossip and ticks, in any order, as long as
  the handler returns. A block that is recorded must not have the root of the parent of a block that
  is already live (\<open>fresh_root\<close>), which only a hash collision could give it.
\<close>

inductive chain_step :: "hashing \<Rightarrow> ('pk, 'sig, 'sk) crypto \<Rightarrow> store \<Rightarrow> store \<Rightarrow> bool" for H C where
  block: "on_block H C s sb ids = Some (s', r) \<Longrightarrow>
    fresh_root H s (bwa_block (sb_message sb)) \<Longrightarrow> chain_step H C s s'"
| attestation: "on_gossip_attestation H C s sa ids = (s', r) \<Longrightarrow> chain_step H C s s'"
| aggregate: "on_gossip_aggregated_attestation H C s agg = (s', r) \<Longrightarrow> chain_step H C s s'"
| tick: "on_tick C s ts hp ia = Some (Ok (s', aggs)) \<Longrightarrow> chain_step H C s s'"

lemma on_tick_run:
  assumes "chain_inv a s"
  shows "\<exists>s' aggs. on_tick C s ts hp ia = Some (Ok (s', aggs)) \<and> chain_inv a s' \<and> chain_frame s s' \<and>
    s_time s' = max (s_time s) (tick_time s ts) \<and> s_config s' = s_config s"
proof -
  let ?t = "tick_time s ts"
  let ?s1 = "if saturating_sub ?t (s_time s) > INTERVALS_PER_SLOT then set_time (?t - INTERVALS_PER_SLOT) s else s"
  have inv: "chain_inv a ?s1" using assms neutral_set_time.keeps_inv by simp
  have fr: "chain_frame s ?s1" using neutral_set_time.keeps_frame by simp
  have tm: "max (s_time ?s1) ?t = max (s_time s) ?t"
  proof (cases "saturating_sub ?t (s_time s) > INTERVALS_PER_SLOT")
    case True
    then have lt: "s_time s \<le> ?t" and gt: "INTERVALS_PER_SLOT < ?t - s_time s"
      by (auto simp: saturating_sub_def split: if_splits)
    have "unat (?t - s_time s) \<le> unat ?t" using lt by (simp add: unat_sub)
    then have "INTERVALS_PER_SLOT \<le> ?t" using gt by (simp add: word_le_nat_alt word_less_nat_alt)
    then have "?t - INTERVALS_PER_SLOT \<le> ?t" by (simp add: word_le_nat_alt unat_sub)
    with True lt show ?thesis by (simp add: set_time_def max_def)
  qed simp
  from tick_loop_run [OF inv, of C hp ia ?t "[]"] obtain s' aggs where
    "tick_loop C hp ia ?t ?s1 [] = Some (Ok (s', aggs))" "chain_inv a s'" "chain_frame ?s1 s'"
    "s_time s' = max (s_time ?s1) ?t" "s_config s' = s_config ?s1" by auto
  with tm chain_frame_trans [OF fr] show ?thesis
    by (auto simp: on_tick_def Let_def set_time_def)
qed

lemma chain_step_inv: "chain_step H C s s' \<Longrightarrow> chain_inv a s \<Longrightarrow> chain_inv a s'"
proof (induction rule: chain_step.induct)
  case (block s sb ids s' r)
  from on_block_run [OF block.prems block.hyps(2), where C = C and ids = ids] block.hyps(1) show ?case by auto
next
  case (attestation s sa ids s' r)
  then show ?case using on_gossip_attestation_keeps by (metis fst_conv)
next
  case (aggregate s agg s' r)
  then show ?case using on_gossip_aggregated_attestation_keeps by (metis fst_conv)
next
  case (tick s ts hp ia s' aggs)
  then show ?case using on_tick_run [OF tick.prems, of C ts hp ia] by auto
qed

section \<open>Properties\<close>

text \<open>
  C3. Block import. On a store with the chain invariant, \<open>on_block\<close> returns; it succeeds exactly
  when the block is already known, or its parent's state is stored, its signatures verify and the
  state transition accepts it. After success its state is stored, for a new block the one the
  transition computes, with the state root in its header; after any error the store is unchanged. It
  does not panic if the slots of the attestations in the block, the proposer's included, are below
  \<open>2^32\<close>. The invariant is kept and the justified and finalized slots never decrease. Known blocks and blocks without a known parent are included; a new
  block with a known parent must not have the root that a live block names as its parent, which
  excludes a collision of roots.
\<close>

theorem on_block_import:
  assumes "chain_inv a s" and "fresh_root H s (bwa_block (sb_message sb))"
  shows "\<exists>s' r. on_block H C s sb ids = Some (s', r) \<and> chain_inv a s' \<and>
    cp_slot (s_latest_justified s) \<le> cp_slot (s_latest_justified s') \<and>
    cp_slot (s_latest_finalized s) \<le> cp_slot (s_latest_finalized s') \<and>
    (r \<noteq> Ok () \<longrightarrow> s' = s) \<and>
    (r = Ok () \<longleftrightarrow> has_state s (h_block H (bwa_block (sb_message sb))) \<or>
       (\<exists>pst st. get_state s (blk_parent_root (bwa_block (sb_message sb))) = Some pst \<and>
          verify_signatures H C pst sb = Ok () \<and> state_transition H pst (bwa_block (sb_message sb)) = Ok st)) \<and>
    (r = Ok () \<longrightarrow> has_state s' (h_block H (bwa_block (sb_message sb)))) \<and>
    (\<forall>pst st. r = Ok () \<and> \<not> has_state s (h_block H (bwa_block (sb_message sb))) \<and>
       get_state s (blk_parent_root (bwa_block (sb_message sb))) = Some pst \<and>
       state_transition H pst (bwa_block (sb_message sb)) = Ok st \<longrightarrow>
       get_state s' (h_block H (bwa_block (sb_message sb))) = Some (st\<lparr>st_latest_block_header :=
         (st_latest_block_header st)\<lparr>hdr_state_root := blk_state_root (bwa_block (sb_message sb))\<rparr>\<rparr>)) \<and>
    (slots_fit sb \<longrightarrow> r \<noteq> Panic)"
  using on_block_run [OF assms, where C = C and ids = ids] verify_signatures_no_panic by blast

definition demo_store :: store where
  "demo_store = (case (init_store demo_hashing empty_tables demo_genesis None :: (store, st_error) result) of
     Ok s \<Rightarrow> s | _ \<Rightarrow> undefined)"

lemma demo_store_init:
  "init_store demo_hashing empty_tables demo_genesis None = (Ok demo_store :: (store, st_error) result)"
  by (simp add: demo_store_def init_store_def Let_def demo_defs)

lemmas demo_store_defs = demo_store_def init_store_def empty_tables_def tbl_put_def Let_def

lemma demo_store_fields:
  "t_live_chain demo_store = [((0, 2000), 0)]" "s_head demo_store = 2000"
  "get_state demo_store 2000 = Some (demo_genesis\<lparr>st_latest_block_header :=
     (st_latest_block_header demo_genesis)\<lparr>hdr_state_root := 1000\<rparr>\<rparr>)"
  "get_state demo_store 2001 = None" "s_time demo_store = 0"
  by (simp_all add: demo_store_defs get_state_def demo_defs)

lemma demo_store_inv: "chain_inv 0 demo_store"
proof -
  have "hdr_slot (st_latest_block_header demo_genesis) = 0" by (simp add: demo_defs)
  with init_store_chain [OF demo_store_init wf_demo_genesis] show ?thesis
    by (simp add: demo_store_fields demo_defs)
qed

text \<open>
  The initial store with the first block recorded on top of it and as the head, and the same store
  with a known vote and a new one for that block.
\<close>

definition demo_two :: store where
  "demo_two = (record_block demo_hashing (demo_signed_block (demo_block 1 [])) (demo_state 1 0 0 [2000] [] 0) demo_store)\<lparr>s_head := 2001\<rparr>"

lemma demo_first_block:
  "bwa_block (sb_message (demo_signed_block (demo_block 1 []))) = demo_block 1 []"
  "h_block demo_hashing (demo_block 1 []) = 2001" "blk_parent_root (demo_block 1 []) = 2000" "blk_slot (demo_block 1 []) = 1"
  "state_transition demo_hashing (demo_genesis\<lparr>st_latest_block_header :=
     (st_latest_block_header demo_genesis)\<lparr>hdr_state_root := 1000\<rparr>\<rparr>) (demo_block 1 []) = Ok (demo_state 1 0 0 [2000] [] 0)"
  by (simp_all add: demo_signed_block_def transition_defs demo_defs)

lemma demo_store_checkpoints:
  "s_latest_justified demo_store = demo_checkpoint 0" "s_latest_finalized demo_store = demo_checkpoint 0"
  "s_safe_target demo_store = 2000" "map_option hdr_slot (get_block_header demo_store 2000) = Some 0"
  by (simp_all add: demo_store_defs get_block_header_def demo_defs)

lemma demo_advance: "advance_checkpoints ((demo_state 1 0 0 [2000] [] 0)\<lparr>st_latest_block_header := h\<rparr>) demo_store = demo_store"
  by (simp add: advance_checkpoints_def demo_store_checkpoints) (simp add: demo_defs)

lemma demo_keys: "encode_live_chain_key (0, 2000) < encode_live_chain_key (1, 2001)"
  by (simp add: encode_live_chain_key_less_iff)

lemma demo_two_fields:
  "get_live_chain demo_two = [(2000, 0, 0), (2001, 1, 2000)]" "s_head demo_two = 2001" "s_safe_target demo_two = 2000"
  "s_latest_justified demo_two = demo_checkpoint 0" "s_latest_finalized demo_two = demo_checkpoint 0"
  "slot_at demo_two 2000 = 0" "slot_at demo_two 2001 = 1" "map_option hdr_parent_root (get_block_header demo_two 2001) = Some 2000"
  "map_option (\<lambda>st. length (st_validators st)) (get_state demo_two 2001) = Some 3"
proof -
  note f = record_block_fields [of demo_hashing "demo_signed_block (demo_block 1 [])" "demo_state 1 0 0 [2000] [] 0" demo_store,
      unfolded demo_first_block demo_advance]
  have "t_live_chain demo_two = [((0, 2000), 0), ((1, 2001), 2000)]"
    unfolding demo_two_def using demo_keys by (simp add: f demo_store_fields tbl_put_def)
  then show "get_live_chain demo_two = [(2000, 0, 0), (2001, 1, 2000)]"
    by (simp add: get_live_chain_def collect_map_def)
  show "s_head demo_two = 2001" "s_safe_target demo_two = 2000"
    "s_latest_justified demo_two = demo_checkpoint 0" "s_latest_finalized demo_two = demo_checkpoint 0"
    by (simp_all add: demo_two_def f demo_store_checkpoints)
  have hdr: "get_block_header demo_two = (get_block_header demo_store)(2001 \<mapsto> block_header_of demo_hashing (demo_block 1 []))"
    using f(2) by (simp add: demo_two_def get_block_header_def fun_eq_iff)
  show "slot_at demo_two 2000 = 0" "slot_at demo_two 2001 = 1"
    using demo_store_checkpoints(4) by (auto simp: slot_at_def hdr block_header_of_def demo_first_block)
  show "map_option hdr_parent_root (get_block_header demo_two 2001) = Some 2000"
    by (simp add: hdr block_header_of_def demo_first_block)
  have "get_state demo_two 2001 = get_state (record_block demo_hashing (demo_signed_block (demo_block 1 []))
      (demo_state 1 0 0 [2000] [] 0) demo_store) 2001" by (simp add: demo_two_def get_state_def)
  then show "map_option (\<lambda>st. length (st_validators st)) (get_state demo_two 2001) = Some 3"
    by (simp add: f) (simp add: demo_defs)
qed

lemma demo_two_inv: "chain_inv 0 demo_two"
proof -
  let ?sb = "demo_signed_block (demo_block 1 [])" and ?st = "demo_state 1 0 0 [2000] [] 0"
  have "recordable 0 demo_hashing demo_store (bwa_block (sb_message ?sb)) (demo_genesis\<lparr>st_latest_block_header :=
     (st_latest_block_header demo_genesis)\<lparr>hdr_state_root := 1000\<rparr>\<rparr>) ?st"
    unfolding recordable_def demo_first_block using chain_invD(1) [OF demo_store_inv] demo_first_block(5)
    by (simp add: demo_store_fields)
  note c = record_block_keeps_chain [OF this]
  have "get_state (record_block demo_hashing ?sb ?st demo_store) 2001 \<noteq> None"
    by (simp add: record_block_fields demo_first_block)
  from chain_ok_head(1) [OF c this] have "chain_ok 0 demo_two" by (simp add: demo_two_def)
  moreover have "head_ok demo_two" unfolding head_ok_def demo_two_fields by (simp add: demo_checkpoint_def)
  ultimately show ?thesis by (simp add: chain_inv_def)
qed

definition demo_payload :: stored_aggregated_payload where
  "demo_payload = \<lparr>sap_slot = 1, sap_proof = \<lparr>asp_participants = [True, True], asp_proof_data = [1]\<rparr>\<rparr>"

definition demo_voting :: store where
  "demo_voting = insert_new_aggregated_payload (1, 4001) demo_payload
     (insert_known_aggregated_payloads_batch [((0, 4001), demo_payload)]
        (insert_attestation_data_by_root 4001 (demo_data 1 0 1) demo_two))"

lemma demo_two_payloads:
  "pb_entries (s_known_payloads demo_two) = []" "pb_entries (s_new_payloads demo_two) = []"
  "pb_capacity (s_known_payloads demo_two) = AGGREGATED_PAYLOAD_CAP" "pb_capacity (s_new_payloads demo_two) = NEW_PAYLOAD_CAP"
proof -
  have "body_attestations (blk_body (demo_block 1 [])) = []" by (simp add: demo_block_def)
  then show "pb_entries (s_known_payloads demo_two) = []" "pb_entries (s_new_payloads demo_two) = []"
    by (simp_all add: demo_two_def record_block_def Let_def demo_advance demo_first_block
        insert_known_aggregated_payloads_batch_def insert_attestation_data_by_root_batch_def insert_state_def
        insert_signed_block_def write_signed_block_def body_payload_entries_def body_data_entries_def buffer_push_batch_def,
        simp_all add: demo_store_defs buffer_new_def demo_defs)
  show "pb_capacity (s_known_payloads demo_two) = AGGREGATED_PAYLOAD_CAP" "pb_capacity (s_new_payloads demo_two) = NEW_PAYLOAD_CAP"
    using chain_okD(1) [OF chain_invD(1) [OF demo_two_inv]] by (simp_all add: store_ok_def)
qed

lemma demo_voting_fields:
  "get_live_chain demo_voting = [(2000, 0, 0), (2001, 1, 2000)]" "s_latest_justified demo_voting = demo_checkpoint 0"
  "s_head demo_voting = 2001" "get_state demo_voting = get_state demo_two"
  "fst ` set (pb_entries (s_known_payloads demo_voting)) = {(0, 4001)}"
  "fst ` set (pb_entries (s_new_payloads demo_voting)) = {(1, 4001)}"
  "get_attestation_data_by_root demo_voting 4001 = Some (demo_data 1 0 1)"
proof -
  show "get_live_chain demo_voting = [(2000, 0, 0), (2001, 1, 2000)]" "s_latest_justified demo_voting = demo_checkpoint 0"
    "s_head demo_voting = 2001" "get_state demo_voting = get_state demo_two"
    by (simp_all add: demo_voting_def neutral_new.metadata_kept neutral_known.metadata_kept neutral_data.metadata_kept
        demo_two_fields fun_eq_iff)
  show "fst ` set (pb_entries (s_known_payloads demo_voting)) = {(0, 4001)}"
    "fst ` set (pb_entries (s_new_payloads demo_voting)) = {(1, 4001)}"
    using demo_two_payloads
    by (simp_all add: demo_voting_def insert_new_aggregated_payload_def insert_known_aggregated_payloads_batch_def
      insert_attestation_data_by_root_def buffer_push_batch_def buffer_push_def)
  show "get_attestation_data_by_root demo_voting 4001 = Some (demo_data 1 0 1)"
    by (simp add: demo_voting_def get_attestation_data_by_root_def insert_new_aggregated_payload_def
     insert_known_aggregated_payloads_batch_def insert_attestation_data_by_root_def)
qed

lemma demo_voting_inv: "chain_inv 0 demo_voting"
  unfolding demo_voting_def by (intro neutral_new.keeps_inv neutral_known.keeps_inv neutral_data.keeps_inv demo_two_inv)

lemma demo_votes:
  assumes "distinct keys" and "set keys = {(1, 4001), (0, 4001)}"
  shows "\<exists>a b. extract_latest_attestations demo_voting keys = [(a, demo_data 1 0 1), (b, demo_data 1 0 1)]"
proof -
  have "length keys = 2" using distinct_card [OF assms(1)] assms(2) by simp
  then obtain x y where xy: "keys = [x, y]" by (auto simp: numeral_2_eq_2 length_Suc_conv)
  with assms have "x = (0, 4001) \<and> y = (1, 4001) \<or> x = (1, 4001) \<and> y = (0, 4001)" by (auto simp: doubleton_eq_iff)
  then show ?thesis
    by (auto simp: xy extract_latest_attestations_def extract_step_def Let_def or_insert_def demo_voting_fields)
qed

lemma demo_supports: "supports 0 (map_of [(2000, 0, 0), (2001, 1, 2000)]) 2001 2001"
  by (rule supports.here [of _ _ 1 2000]) simp_all

lemma demo_children:
  "eligible_children (map_of [(2000, 0, 0), (2001, 1, 2000)]) w m 2000 = (if m = 0 \<or> m \<le> w 2001 then {2001} else {})"
  "eligible_children (map_of [(2000, 0, 0), (2001, 1, 2000)]) w m 2001 = {}"
  by (auto simp: eligible_children_def)

lemma demo_ghost:
  assumes "ghost_path (map_of [(2000, 0, 0), (2001, 1, 2000)]) w m 2000 e"
  shows "e = (if m = 0 \<or> m \<le> w 2001 then 2001 else 2000)"
proof -
  let ?B = "map_of [(2000, 0, 0), (2001, 1, 2000)]"
  have leaf: "e = 2001" if "ghost_path ?B w m 2001 e"
    using that by (rule ghost_pathE) (simp_all only: demo_children empty_iff)
  from assms show ?thesis
  proof (rule ghost_pathE)
    assume "e = 2000" "eligible_children ?B w m 2000 = {}"
    then show ?thesis unfolding demo_children by (simp split: if_splits)
  next
    fix c
    assume "c \<in> eligible_children ?B w m 2000" "ghost_path ?B w m c e"
    with leaf show ?thesis unfolding demo_children by (auto split: if_splits)
  qed
qed

theorem on_block_import_witness:
  "\<exists>s' r. on_block demo_hashing demo_crypto demo_store (demo_signed_block (demo_block 1 [])) [] = Some (s', r) \<and>
     chain_inv 0 s' \<and> r = Ok () \<and> has_state s' 2001"
proof -
  let ?sb = "demo_signed_block (demo_block 1 [])" and ?b = "demo_block 1 []"
  let ?p = "demo_genesis\<lparr>st_latest_block_header := (st_latest_block_header demo_genesis)\<lparr>hdr_state_root := 1000\<rparr>\<rparr>"
  have b: "bwa_block (sb_message ?sb) = ?b" by (simp add: demo_signed_block_def)
  have root: "h_block demo_hashing ?b = 2001" and par: "blk_parent_root ?b = 2000" by (simp_all add: demo_defs)
  have v: "verify_signatures demo_hashing demo_crypto ?p ?sb = Ok ()"
    by (simp add: verify_signatures_def demo_signed_block_def demo_defs demo_crypto_def get_pubkey_def
        try_u32_def Let_def)
  have t: "state_transition demo_hashing ?p ?b = Ok (demo_state 1 0 0 [2000] [] 0)"
    by (simp add: transition_defs demo_defs)
  show ?thesis
    using on_block_import [OF demo_store_inv, of demo_hashing ?sb demo_crypto "[]"] v t
    by (auto simp: b root par demo_store_fields fresh_root_def)
qed

text \<open>
  C9. Every store that blocks, gossip and ticks can produce from an initial one has the chain
  invariant, so a tick always completes without panicking: the head, the safe target and the
  justified block are stored blocks with states, and fork choice ends. After a tick the clock shows
  the interval of the timestamp (or stays where it was, if that is later), and blocks, states and
  checkpoints are as before.
\<close>

theorem reachable_store_ticks:
  assumes "init_store H empty_tables anchor body = Ok s0" and "wf_state anchor" and "s_head s0 \<noteq> 0"
    and "s_head s0 \<noteq> hdr_parent_root (st_latest_block_header anchor)" and "(chain_step H C)\<^sup>*\<^sup>* s0 s"
  shows "chain_inv (hdr_slot (st_latest_block_header anchor)) s \<and>
    (\<forall>ts hp ia. \<exists>s' aggs. on_tick C s ts hp ia = Some (Ok (s', aggs)) \<and>
       s_time s' = max (s_time s) (tick_time s ts) \<and> chain_frame s s')"
proof -
  have "chain_inv (hdr_slot (st_latest_block_header anchor)) s"
    using assms(5)
  proof induction
    case base
    show ?case by (rule init_store_chain [OF assms(1-4)])
  qed (rule chain_step_inv)
  with on_tick_run show ?thesis by metis
qed

theorem reachable_store_ticks_witness:
  "\<exists>s' aggs. on_tick demo_crypto demo_store 99000 True True = Some (Ok (s', aggs)) \<and> s_time s' = 108"
proof -
  have "s_head demo_store \<noteq> 0" "s_head demo_store \<noteq> hdr_parent_root (st_latest_block_header demo_genesis)"
    by (simp_all add: demo_store_fields demo_defs)
  note r = reachable_store_ticks [OF demo_store_init wf_demo_genesis this rtranclp.rtrancl_refl, of demo_crypto]
  have "tick_time demo_store 99000 = 108"
    by (simp add: tick_time_def saturating_sub_def MILLISECONDS_PER_INTERVAL_def demo_store_defs demo_defs)
  with r show ?thesis by (metis demo_store_fields(5) max.absorb2 word_zero_le)
qed

text \<open>
  C20. The attestation target. From the head it walks back while the slot is beyond that of the safe
  target, at most \<open>JUSTIFICATION_LOOKBACK_SLOTS\<close> blocks, and from there on to the first block whose
  slot is justifiable after the finalized slot or not beyond it. That ancestor of the head is the
  target, unless it is behind the justified checkpoint: then the target is the justified checkpoint,
  which need not be on the chain of the head. The target always exists, is a stored block with its
  slot, and lies between the justified checkpoint and the head, so the vote it goes into spans forward.
\<close>

theorem attestation_target_sound:
  assumes "chain_inv a s"
  shows "\<exists>k m r cp h hd. walks_back s k m \<and> r = ancestor_at s m (s_head s) \<and> ancestor s (s_head s) r \<and>
    get_attestation_target s = Some (Ok cp) \<and>
    cp = (if slot_at s r < cp_slot (s_latest_justified s) then s_latest_justified s
          else \<lparr>cp_root = r, cp_slot = slot_at s r\<rparr>) \<and>
    block_at s (cp_root cp) h \<and> hdr_slot h = cp_slot cp \<and> cp_slot (s_latest_justified s) \<le> cp_slot cp \<and>
    get_block_header s (s_head s) = Some hd \<and> cp_slot cp \<le> hdr_slot hd"
proof -
  from get_attestation_target_run [OF assms] obtain cp h hd where
    cp: "get_attestation_target s = Some (Ok cp)" "block_at s (cp_root cp) h" "hdr_slot h = cp_slot cp"
      "cp_slot (s_latest_justified s) \<le> cp_slot cp" "get_block_header s (s_head s) = Some hd" "cp_slot cp \<le> hdr_slot hd"
    by blast
  from get_attestation_target_exact [OF assms] obtain k m r where
    "walks_back s k m" "r = ancestor_at s m (s_head s)" "ancestor s (s_head s) r"
    "get_attestation_target s = Some (Ok (if slot_at s r < cp_slot (s_latest_justified s) then s_latest_justified s
       else \<lparr>cp_root = r, cp_slot = slot_at s r\<rparr>))" by blast
  with cp show ?thesis by (intro exI [of _ k] exI [of _ m] exI [of _ r] exI [of _ cp] exI [of _ h] exI [of _ hd]) simp
qed

theorem attestation_target_sound_witness:
  "get_attestation_target demo_two = Some (Ok \<lparr>cp_root = 2000, cp_slot = 0\<rparr>) \<and> s_head demo_two = 2001"
proof -
  have r: "ancestor_at demo_two 1 2001 = 2000" using demo_two_fields(8) by auto
  note f = demo_two_fields demo_checkpoint_def r
  from attestation_target_sound [OF demo_two_inv] obtain k m cp where
    w: "walks_back demo_two k m" "get_attestation_target demo_two = Some (Ok cp)"
      "cp = (if slot_at demo_two (ancestor_at demo_two m 2001) < 0 then demo_checkpoint 0
         else \<lparr>cp_root = ancestor_at demo_two m 2001, cp_slot = slot_at demo_two (ancestor_at demo_two m 2001)\<rparr>)"
    by (auto simp: f)
  have s0: "slot_at demo_two (ancestor_at demo_two 0 2001) = 1" and s1: "slot_at demo_two (ancestor_at demo_two 1 2001) = 0"
    by (simp_all only: r ancestor_at.simps demo_two_fields)
  note wb = w(1) [unfolded walks_back_def Let_def demo_two_fields demo_checkpoint_def checkpoint.simps]
  have "k \<noteq> 0"
  proof
    assume "k = 0"
    with wb s0 show False by (simp add: JUSTIFICATION_LOOKBACK_SLOTS_def)
  qed
  moreover have "\<not> 1 < k" using wb s1 by fastforce
  ultimately have k: "k = 1" by simp
  from wb k have "1 \<le> m" by (simp only:)
  moreover from wb have "\<forall>i. k \<le> i \<and> i < m \<longrightarrow> 0 < slot_at demo_two (ancestor_at demo_two i 2001)" by blast
  with k s1 have "\<not> 1 < m" by (metis le_refl less_irrefl)
  ultimately have "m = 1" by simp
  with w(2,3) show ?thesis by (simp only: r demo_two_fields) simp
qed

text \<open>
  C16. Gossiped attestations. One is accepted exactly when its data is acceptable (all three blocks
  known at their slots, source not after target, target not after head, not in the future), the
  attester is a validator of the target state and its signature over the data verifies. Then the
  data is stored, and the signature too if the attester is in a subnet of a local validator. An
  error leaves the store as it was, and there is no panic within the first \<open>2^32\<close> slots.
\<close>

theorem gossip_attestation_accepted:
  assumes "on_gossip_attestation H C s sa ids = (s', r)"
  shows "(r = Ok () \<longleftrightarrow> data_acceptable s (sa_data sa) \<and> unat (ad_slot (sa_data sa)) < 2 ^ 32 \<and>
      (\<exists>st pk sig. get_state s (cp_root (ad_target (sa_data sa))) = Some st \<and>
        sa_validator_id sa < word_of_nat (length (st_validators st)) \<and>
        c_pubkey C (val_pubkey (st_validators st ! unat (sa_validator_id sa))) = Some pk \<and>
        c_signature C (sa_signature sa) = Some sig \<and>
        c_verify C pk (ucast (ad_slot (sa_data sa))) (h_data H (sa_data sa)) sig)) \<and>
    (r \<noteq> Ok () \<longrightarrow> s' = s) \<and>
    (r = Ok () \<longrightarrow> get_attestation_data_by_root s' (h_data H (sa_data sa)) = Some (sa_data sa) \<and>
      map_of (t_gossip_signatures s') = (if in_our_subnet ids (sa_validator_id sa)
        then (map_of (t_gossip_signatures s))((sa_validator_id sa, h_data H (sa_data sa)) \<mapsto>
          stored_signature_new C (ad_slot (sa_data sa)) (the (c_signature C (sa_signature sa))))
        else map_of (t_gossip_signatures s))) \<and>
    (s_time s div INTERVALS_PER_SLOT + 1 < 2 ^ 32 \<longrightarrow> r \<noteq> Panic)"
proof (cases "check_gossip_attestation H C s sa")
  case (Ok sig)
  with assms have r: "r = Ok ()" and s': "s' = (if in_our_subnet ids (sa_validator_id sa)
      then insert_gossip_signature C (h_data H (sa_data sa)) (ad_slot (sa_data sa)) (sa_validator_id sa) sig
        (insert_attestation_data_by_root (h_data H (sa_data sa)) (sa_data sa) s)
      else insert_attestation_data_by_root (h_data H (sa_data sa)) (sa_data sa) s)"
    by (auto simp: on_gossip_attestation_def Let_def)
  with Ok [unfolded check_gossip_attestation_Ok_iff] show ?thesis
    by (auto simp: get_attestation_data_by_root_def insert_attestation_data_by_root_def
        insert_gossip_signature_def Let_def)
next
  case (Err e)
  then have "check_gossip_attestation H C s sa \<noteq> Ok sig" for sig by simp
  with assms Err show ?thesis unfolding check_gossip_attestation_Ok_iff
    by (auto simp: on_gossip_attestation_def)
next
  case Panic
  then have "check_gossip_attestation H C s sa \<noteq> Ok sig" for sig by simp
  with assms Panic check_gossip_attestation_Panic [OF Panic] data_acceptable_slot show ?thesis
    unfolding check_gossip_attestation_Ok_iff by (fastforce simp: on_gossip_attestation_def)
qed

definition demo_vote :: signed_attestation where
  "demo_vote = \<lparr>sa_validator_id = 2, sa_data = demo_data 1 0 0, sa_signature = [7]\<rparr>"

theorem gossip_attestation_accepted_witness:
  "\<exists>s'. on_gossip_attestation demo_hashing demo_crypto demo_store demo_vote [0] = (s', Ok ()) \<and>
     get_attestation_data_by_root s' 4001 = Some (demo_data 1 0 0)"
proof -
  obtain s' r where r: "on_gossip_attestation demo_hashing demo_crypto demo_store demo_vote [0] = (s', r)"
    by (meson surj_pair)
  have h: "get_block_header demo_store 2000 = Some ((st_latest_block_header demo_genesis)\<lparr>hdr_state_root := 1000\<rparr>)"
    by (simp add: demo_store_defs get_block_header_def demo_defs)
  have "data_acceptable demo_store (demo_data 1 0 0)"
    by (simp add: data_acceptable_def demo_data_def demo_checkpoint_def h demo_store_fields)
      (simp add: demo_defs)
  then have "r = Ok ()"
    using gossip_attestation_accepted [OF r]
    by (simp add: demo_vote_def demo_data_def demo_checkpoint_def demo_store_fields demo_crypto_def)
      (simp add: demo_defs)
  with gossip_attestation_accepted [OF r] r show ?thesis by (simp add: demo_vote_def demo_defs)
qed

text \<open>
  C17. Gossiped aggregates. One is accepted exactly when its data is acceptable and its proof is
  valid for its participants under the keys of the target state; then the data and one payload per
  participant are stored, to count as new votes. An error leaves the store as it was, and there is
  no panic within the first \<open>2^32\<close> slots.
\<close>

theorem gossip_aggregate_accepted:
  assumes "on_gossip_aggregated_attestation H C s agg = (s', r)"
  shows "(r = Ok () \<longleftrightarrow> data_acceptable s (saa_data agg) \<and>
      (\<exists>st. get_state s (cp_root (ad_target (saa_data agg))) = Some st \<and>
        proof_valid H C (st_validators st)
          \<lparr>aa_aggregation_bits = asp_participants (saa_proof agg), aa_data = saa_data agg\<rparr> (saa_proof agg))) \<and>
    (r \<noteq> Ok () \<longrightarrow> s' = s) \<and>
    (r = Ok () \<longrightarrow> get_attestation_data_by_root s' (h_data H (saa_data agg)) = Some (saa_data agg) \<and>
      s_known_payloads s' = s_known_payloads s \<and>
      s_new_payloads s' = buffer_push_batch
        (map (\<lambda>vid. ((vid, h_data H (saa_data agg)),
               \<lparr>sap_slot = ad_slot (saa_data agg), sap_proof = saa_proof agg\<rparr>))
           (participant_indices (saa_proof agg))) (s_new_payloads s)) \<and>
    (s_time s div INTERVALS_PER_SLOT + 1 < 2 ^ 32 \<longrightarrow> r \<noteq> Panic)"
proof (cases "check_gossip_aggregate H C s agg")
  case (Ok u)
  with assms have "r = Ok ()" and "s' = insert_new_aggregated_payloads_batch
      (map (\<lambda>vid. ((vid, h_data H (saa_data agg)),
             \<lparr>sap_slot = ad_slot (saa_data agg), sap_proof = saa_proof agg\<rparr>)) (participant_indices (saa_proof agg)))
      (insert_attestation_data_by_root (h_data H (saa_data agg)) (saa_data agg) s)"
    by (auto simp: on_gossip_aggregated_attestation_def Let_def)
  with Ok [unfolded check_gossip_aggregate_Ok_iff] show ?thesis
    by (auto simp: get_attestation_data_by_root_def insert_attestation_data_by_root_def
        insert_new_aggregated_payloads_batch_def)
next
  case (Err e)
  then have "check_gossip_aggregate H C s agg \<noteq> Ok ()" by simp
  with assms Err show ?thesis unfolding check_gossip_aggregate_Ok_iff
    by (auto simp: on_gossip_aggregated_attestation_def)
next
  case Panic
  then have "check_gossip_aggregate H C s agg \<noteq> Ok ()" by simp
  with assms Panic check_gossip_aggregate_Panic [OF Panic] data_acceptable_slot show ?thesis
    unfolding check_gossip_aggregate_Ok_iff by (fastforce simp: on_gossip_aggregated_attestation_def)
qed

theorem gossip_aggregate_accepted_witness:
  "\<exists>s' r. on_gossip_aggregated_attestation demo_hashing demo_crypto demo_store
      \<lparr>saa_data = demo_data 9 0 0, saa_proof = \<lparr>asp_participants = [True], asp_proof_data = [1]\<rparr>\<rparr> = (s', r) \<and>
    r \<noteq> Ok () \<and> r \<noteq> Panic \<and> s' = demo_store"
proof -
  let ?agg = "\<lparr>saa_data = demo_data 9 0 0, saa_proof = \<lparr>asp_participants = [True], asp_proof_data = [1]\<rparr>\<rparr>"
  obtain s' r where r: "on_gossip_aggregated_attestation demo_hashing demo_crypto demo_store ?agg = (s', r)"
    by (meson surj_pair)
  have "\<not> data_acceptable demo_store (demo_data 9 0 0)"
    by (simp add: data_acceptable_def demo_store_fields demo_data_def INTERVALS_PER_SLOT_def word_le_nat_alt)
  moreover have "s_time demo_store div INTERVALS_PER_SLOT + 1 < 2 ^ 32"
    by (simp add: demo_store_fields)
  ultimately have "r \<noteq> Ok () \<and> r \<noteq> Panic \<and> s' = demo_store"
    using gossip_aggregate_accepted [OF r] by simp
  with r show ?thesis by blast
qed

text \<open>
  C8. Head and safe target. The head is where the greedy descent from the justified block through
  the live chain ends. The weight of a block is the number of validators whose latest attestation,
  among those of the known payloads, supports it. The safe target is the end of the descent in which
  every step has the support of two thirds of the validators of the head state, where the known and
  the new payloads count.
\<close>

theorem head_and_safe_target:
  assumes "chain_inv a s" and "get_state s (s_head s) = Some st"
  shows "(\<exists>h w keys. update_head s = Some (s\<lparr>s_head := h\<rparr>) \<and>
      ghost_path (map_of (get_live_chain s)) (weight w) 0 (cp_root (s_latest_justified s)) h \<and>
      distinct keys \<and> set keys = fst ` set (pb_entries (s_known_payloads s)) \<and>
      (\<forall>r. weight w r = word_of_nat (length (filter (\<lambda>(_, d). supports (cp_slot (s_latest_justified s))
         (map_of (get_live_chain s)) (cp_root (ad_head d)) r) (extract_latest_attestations s keys))))) \<and>
    (\<exists>t w keys. update_safe_target s = Some (Ok (s\<lparr>s_safe_target := t\<rparr>)) \<and>
      ghost_path (map_of (get_live_chain s)) (weight w)
        (div_ceil (word_of_nat (length (st_validators st)) * 2) 3) (cp_root (s_latest_justified s)) t \<and>
      distinct keys \<and>
      set keys = fst ` set (pb_entries (s_known_payloads s)) \<union> fst ` set (pb_entries (s_new_payloads s)) \<and>
      (\<forall>r. weight w r = word_of_nat (length (filter (\<lambda>(_, d). supports (cp_slot (s_latest_justified s))
         (map_of (get_live_chain s)) (cp_root (ad_head d)) r) (extract_latest_attestations s keys)))))"
    (is "?head \<and> ?safe")
proof
  note c = chain_invD(1) [OF assms(1)]
  have d: "distinct (buffer_unique_keys b)" for b by (simp add: buffer_unique_keys_def)
  from chain_ghost_head [OF c, of "extract_latest_known_attestations s" 0] obtain h w where
    "compute_lmd_ghost_head (cp_root (s_latest_justified s)) (get_live_chain s) (extract_latest_known_attestations s) 0 = Some (h, w)"
    "ghost_path (map_of (get_live_chain s)) (weight w) 0 (cp_root (s_latest_justified s)) h"
    "\<forall>r. weight w r = word_of_nat (length (filter (\<lambda>(_, d). supports (cp_slot (s_latest_justified s))
       (map_of (get_live_chain s)) (cp_root (ad_head d)) r) (extract_latest_known_attestations s)))" by blast
  then show ?head using d
    by (intro exI [of _ h] exI [of _ w] exI [of _ "buffer_unique_keys (s_known_payloads s)"])
      (auto simp: update_head_def extract_latest_known_attestations_def)
  let ?keys = "remdups (iter_known_aggregated_payload_keys s @ iter_new_aggregated_payload_keys s)"
  let ?min = "div_ceil (word_of_nat (length (st_validators st)) * 2) 3"
  from chain_ghost_head [OF c, of "extract_latest_attestations s ?keys" ?min] obtain t v where
    t: "compute_lmd_ghost_head (cp_root (s_latest_justified s)) (get_live_chain s) (extract_latest_attestations s ?keys) ?min = Some (t, v)"
    "ghost_path (map_of (get_live_chain s)) (weight v) ?min (cp_root (s_latest_justified s)) t"
    "\<forall>r. weight v r = word_of_nat (length (filter (\<lambda>(_, d). supports (cp_slot (s_latest_justified s))
       (map_of (get_live_chain s)) (cp_root (ad_head d)) r) (extract_latest_attestations s ?keys)))" by blast
  have "set ?keys = fst ` set (pb_entries (s_known_payloads s)) \<union> fst ` set (pb_entries (s_new_payloads s))"
    by (simp add: iter_known_aggregated_payload_keys_def iter_new_aggregated_payload_keys_def)
  moreover have "update_safe_target s = Some (Ok (s\<lparr>s_safe_target := t\<rparr>))"
    using assms(2) t(1) by (simp add: update_safe_target_def Let_def set_safe_target_def)
  ultimately show ?safe using t(2,3) distinct_remdups by blast
qed

theorem head_and_safe_target_witness:
  "update_safe_target demo_voting = Some (Ok (demo_voting\<lparr>s_safe_target := 2001\<rparr>)) \<and>
   update_safe_target demo_two = Some (Ok (demo_two\<lparr>s_safe_target := 2000\<rparr>)) \<and>
   update_head demo_two = Some (demo_two\<lparr>s_head := 2001\<rparr>)"
proof -
  obtain st where st: "get_state demo_two 2001 = Some st" "length (st_validators st) = 3"
    using demo_two_fields(9) by auto
  have m: "div_ceil (word_of_nat 3 * 2) 3 = 2" by (simp add: div_ceil_def)
  from head_and_safe_target [OF demo_voting_inv, of st] st obtain t w keys where
    t: "update_safe_target demo_voting = Some (Ok (demo_voting\<lparr>s_safe_target := t\<rparr>))"
      "ghost_path (map_of [(2000, 0, 0), (2001, 1, 2000)]) (weight w) 2 2000 t" "distinct keys"
      "set keys = {(1, 4001), (0, 4001)}"
      "\<forall>r. weight w r = word_of_nat (length (filter (\<lambda>(_, d). supports 0 (map_of [(2000, 0, 0), (2001, 1, 2000)])
         (cp_root (ad_head d)) r) (extract_latest_attestations demo_voting keys)))"
    unfolding demo_voting_fields demo_checkpoint_def checkpoint.simps st(2) m by auto
  have "weight w 2001 = 2"
    using t(5) demo_votes [OF t(3,4)] demo_supports by (auto simp: demo_data_def demo_checkpoint_def)
  with t(1) demo_ghost [OF t(2)] have safe: "update_safe_target demo_voting = Some (Ok (demo_voting\<lparr>s_safe_target := 2001\<rparr>))"
    by simp
  note two = head_and_safe_target [OF demo_two_inv, unfolded demo_two_fields demo_checkpoint_def checkpoint.simps, OF st(1),
      unfolded st(2) m demo_two_payloads]
  then obtain h w where h: "update_head demo_two = Some (demo_two\<lparr>s_head := h\<rparr>)"
    "ghost_path (map_of [(2000, 0, 0), (2001, 1, 2000)]) (weight w) 0 2000 h" by auto
  from two obtain t' w' where t': "update_safe_target demo_two = Some (Ok (demo_two\<lparr>s_safe_target := t'\<rparr>))"
    "ghost_path (map_of [(2000, 0, 0), (2001, 1, 2000)]) (weight w') 2 2000 t'" "weight w' 2001 = 0"
    by (auto simp: extract_latest_attestations_def)
  show ?thesis using safe h t' demo_ghost [OF h(2)] demo_ghost [OF t'(2)] by simp
qed

text \<open>
  Block production, without the assumptions under which the block is known to be complete. Producing
  a block always returns. A block that is produced builds on the head the store then has, is by the
  requested validator, which is the proposer of the slot, and is accepted by the state transition on
  the head's state; its proofs match its attestations one by one. The invariant is kept in every case.
\<close>

lemma produced_block_valid:
  assumes inv: "chain_inv a s"
  shows "\<exists>s' r. produce_block_with_signatures H C s slot v = Some (s', r) \<and> chain_inv a s' \<and>
    (\<forall>b sigs. r = Ok (b, sigs) \<longrightarrow> blk_slot b = slot \<and> blk_proposer_index b = v \<and>
       blk_parent_root b = s_head s' \<and>
       list_all2 (\<lambda>att p. aa_aggregation_bits att = asp_participants p) (body_attestations (blk_body b)) sigs \<and>
       (\<exists>st post. get_state s' (s_head s') = Some st \<and> state_transition H st b = Ok post \<and>
          is_proposer v slot (word_of_nat (length (st_validators st)))))"
proof -
  let ?ms = "cc_genesis_time (s_config s) * 1000 + slot * MILLISECONDS_PER_SLOT"
  from on_tick_run [OF inv, of C ?ms True False] obtain s1 aggs where
    s1: "on_tick C s ?ms True False = Some (Ok (s1, aggs))" "chain_inv a s1" by blast
  from accept_new_attestations_run [OF chain_invD(1) [OF s1(2)]] obtain s2 where
    s2: "accept_new_attestations s1 = Some s2" "chain_inv a s2" by blast
  have run: "produce_block_with_signatures H C s slot v = Some (s2, build_on_head H s2 (s_head s2) slot v)"
    using s1(1) s2(1) by (simp add: produce_block_with_signatures_def get_proposal_head_def)
  have "blk_slot b = slot \<and> blk_proposer_index b = v \<and> blk_parent_root b = s_head s2 \<and>
     list_all2 (\<lambda>att p. aa_aggregation_bits att = asp_participants p) (body_attestations (blk_body b)) sigs \<and>
     (\<exists>st post. get_state s2 (s_head s2) = Some st \<and> state_transition H st b = Ok post \<and>
        is_proposer v slot (word_of_nat (length (st_validators st))))"
    if r: "build_on_head H s2 (s_head s2) slot v = Ok (b, sigs)" for b sigs
  proof -
    from r obtain st available payloads post where
      st: "get_state s2 (s_head s2) = Some st" "is_proposer v slot (word_of_nat (length (st_validators st)))" and
      bb: "build_block H st slot v (s_head s2) available (get_block_roots s2) payloads = Ok (b, post, sigs)"
      by (auto simp: build_on_head_def Let_def outcome_simps split: if_splits)
    show ?thesis
      using st build_block_accepted [OF bb] build_block_aligned [OF bb] by (auto elim: list_all2_mono)
  qed
  with run s2(2) show ?thesis by auto
qed

end
