(* ===== verification/Seen_Blocks.thy ===== *)
theory Seen_Blocks
  imports Chain_Properties
begin

text \<open>
  An invariant of the store that survives the pruning of old states and blocks. It speaks about the
  blocks the node has seen, pruned or not: a map from roots to slot and parent. As long as no hash
  collision makes the parent relation cyclic, the live chain stays a tree, fork choice returns,
  every stored block but the anchor can be read back in full, and every stored state belongs to a
  descendant of the anchor.
\<close>

section \<open>Blocks seen\<close>

type_synonym seen_blocks = "H256 \<Rightarrow> (u64 \<times> H256) option"

definition parent_edges :: "seen_blocks \<Rightarrow> (H256 \<times> H256) set" where
  "parent_edges seen = {(r, p). \<exists>slot. seen r = Some (slot, p)}"

lemma parent_edges_iff: "(r, p) \<in> parent_edges seen \<longleftrightarrow> (\<exists>slot. seen r = Some (slot, p))"
  by (simp add: parent_edges_def)

text \<open>A block and its header have the same hash tree root.\<close>

definition ssz_roots :: "hashing \<Rightarrow> bool" where
  "ssz_roots H \<longleftrightarrow> (\<forall>b. h_block H b = h_header H (block_header_of H b))"

text \<open>A block that can be added to the blocks seen without a collision or a cycle.\<close>

definition see :: "hashing \<Rightarrow> block \<Rightarrow> seen_blocks \<Rightarrow> seen_blocks" where
  "see H b seen = seen(h_block H b \<mapsto> (blk_slot b, blk_parent_root b))"

definition no_collision :: "hashing \<Rightarrow> block \<Rightarrow> seen_blocks \<Rightarrow> bool" where
  "no_collision H b seen \<longleftrightarrow> seen \<subseteq>\<^sub>m see H b seen \<and> acyclic (parent_edges (see H b seen))"

lemma parent_edges_mono: "seen \<subseteq>\<^sub>m seen' \<Longrightarrow> parent_edges seen \<subseteq> parent_edges seen'"
  by (fastforce simp: parent_edges_def map_le_def dom_def)

lemma seen_mono: "seen \<subseteq>\<^sub>m seen' \<Longrightarrow> seen r = Some x \<Longrightarrow> seen' r = Some x"
  by (metis domI map_le_def)

lemma wf_ancestors:
  assumes "acyclic (parent_edges seen)"
  shows "wf ((parent_edges seen)\<inverse>)" and "wf (((parent_edges seen)\<^sup>+)\<inverse>)"
proof -
  show w: "wf ((parent_edges seen)\<inverse>)"
    by (rule finite_acyclic_wf_converse [OF finite assms])
  show "wf (((parent_edges seen)\<^sup>+)\<inverse>)" using wf_trancl [OF w] by (simp add: trancl_converse)
qed

section \<open>The invariant\<close>

definition seen_ok :: "hashing \<Rightarrow> H256 \<Rightarrow> seen_blocks \<Rightarrow> store \<Rightarrow> bool" where
  "seen_ok H anchor seen s \<longleftrightarrow> store_ok s \<and> acyclic (parent_edges seen) \<and>
     (\<forall>r h. get_block_header s r = Some h \<longrightarrow> seen r = Some (hdr_slot h, hdr_parent_root h) \<and>
        (r \<noteq> anchor \<longrightarrow> get_signed_block H s r \<noteq> None)) \<and>
     (\<forall>r sb. get_signed_block H s r = Some sb \<longrightarrow> h_block H (bwa_block (sb_message sb)) = r) \<and>
     (\<forall>r st. get_state s r = Some st \<longrightarrow> wf_state st \<and> (r, anchor) \<in> (parent_edges seen)\<^sup>* \<and>
        (\<exists>p. seen r = Some (hdr_slot (st_latest_block_header st), p))) \<and>
     (\<forall>slot r p. ((slot, r), p) \<in> set (t_live_chain s) \<longrightarrow>
        seen r = Some (slot, p) \<and> (r, anchor) \<in> (parent_edges seen)\<^sup>* \<and>
        (r \<noteq> anchor \<longrightarrow> (\<exists>pslot q. seen p = Some (pslot, q) \<and> pslot < slot)))"

lemma seen_okD:
  assumes "seen_ok H anchor seen s"
  shows "store_ok s" and "acyclic (parent_edges seen)"
    and "\<And>r h. get_block_header s r = Some h \<Longrightarrow> seen r = Some (hdr_slot h, hdr_parent_root h)"
    and "\<And>r h. get_block_header s r = Some h \<Longrightarrow> r \<noteq> anchor \<Longrightarrow> get_signed_block H s r \<noteq> None"
    and "\<And>r sb. get_signed_block H s r = Some sb \<Longrightarrow> h_block H (bwa_block (sb_message sb)) = r"
    and "\<And>r st. get_state s r = Some st \<Longrightarrow> wf_state st"
    and "\<And>r st. get_state s r = Some st \<Longrightarrow> (r, anchor) \<in> (parent_edges seen)\<^sup>*"
    and "\<And>r st. get_state s r = Some st \<Longrightarrow> \<exists>p. seen r = Some (hdr_slot (st_latest_block_header st), p)"
    and "\<And>slot r p. ((slot, r), p) \<in> set (t_live_chain s) \<Longrightarrow> seen r = Some (slot, p)"
    and "\<And>slot r p. ((slot, r), p) \<in> set (t_live_chain s) \<Longrightarrow> (r, anchor) \<in> (parent_edges seen)\<^sup>*"
    and "\<And>slot r p. ((slot, r), p) \<in> set (t_live_chain s) \<Longrightarrow> r \<noteq> anchor \<Longrightarrow>
      \<exists>pslot q. seen p = Some (pslot, q) \<and> pslot < slot"
  using assms unfolding seen_ok_def by blast+

lemma seen_ok_mono:
  assumes "seen_ok H anchor seen s" and "seen \<subseteq>\<^sub>m seen'" and "acyclic (parent_edges seen')"
  shows "seen_ok H anchor seen' s"
proof -
  note m = seen_mono [OF assms(2)] and e = rtrancl_mono [OF parent_edges_mono [OF assms(2)]]
  note d = seen_okD [OF assms(1)]
  show ?thesis
    unfolding seen_ok_def
  proof (intro conjI allI impI)
    show "store_ok s" "acyclic (parent_edges seen')" by (fact d(1)) (fact assms(3))
  next
    fix r h
    assume "get_block_header s r = Some h"
    from d(3) [OF this] show "seen' r = Some (hdr_slot h, hdr_parent_root h)" by (rule m)
  next
    fix r st
    assume st: "get_state s r = Some st"
    show "\<exists>p. seen' r = Some (hdr_slot (st_latest_block_header st), p)" using d(8) [OF st] m by blast
    show "(r, anchor) \<in> (parent_edges seen')\<^sup>*" using d(7) [OF st] e by blast
  next
    fix slot r p
    assume l: "((slot, r), p) \<in> set (t_live_chain s)"
    show "seen' r = Some (slot, p)" by (rule m [OF d(9) [OF l]])
    show "(r, anchor) \<in> (parent_edges seen')\<^sup>*" using d(10) [OF l] e by blast
    show "\<exists>pslot q. seen' p = Some (pslot, q) \<and> pslot < slot" if "r \<noteq> anchor"
      using d(11) [OF l that] m by blast
  qed (use d in blast)+
qed

text \<open>A root with a state is no proper ancestor of the anchor, so the anchor is no child of it.\<close>

lemma state_not_anchor_parent:
  assumes "seen_ok H anchor seen s" and "get_state s p \<noteq> None" and "(r, p) \<in> parent_edges seen"
  shows "r \<noteq> anchor"
proof
  assume "r = anchor"
  from assms(2) obtain st where "get_state s p = Some st" by blast
  from seen_okD(7) [OF assms(1) this] assms(3) have "(r, r) \<in> (parent_edges seen)\<^sup>+"
    unfolding \<open>r = anchor\<close> by (rule rtrancl_into_trancl2 [rotated])
  with seen_okD(2) [OF assms(1)] show False by (simp add: acyclic_def)
qed

lemma seen_live_tree:
  assumes "seen_ok H anchor seen s"
  shows "live_tree (t_live_chain s)"
  unfolding live_tree_def
proof (intro conjI allI impI)
  note d = seen_okD [OF assms]
  fix slot slot' r p p'
  assume "((slot, r), p) \<in> set (t_live_chain s)" "((slot', r), p') \<in> set (t_live_chain s)"
  with d(9) have "Some (slot, p) = Some (slot', p')" by metis
  then show "slot = slot'" by simp
next
  note d = seen_okD [OF assms]
  fix slot r p pslot q
  assume r: "((slot, r), p) \<in> set (t_live_chain s)" and p: "((pslot, p), q) \<in> set (t_live_chain s)"
  have "r \<noteq> anchor"
  proof
    assume "r = anchor"
    have "(r, p) \<in> parent_edges seen" using d(9) [OF r] by (auto simp: parent_edges_iff)
    with d(10) [OF p] have "(r, r) \<in> (parent_edges seen)\<^sup>+"
      unfolding \<open>r = anchor\<close> by (rule rtrancl_into_trancl2 [rotated])
    with d(2) show False by (simp add: acyclic_def)
  qed
  from d(11) [OF r this] d(9) [OF p] show "pslot < slot" by auto
qed

section \<open>Fork choice always returns\<close>

lemma ghost_head_total:
  assumes "block_tree blocks"
  shows "\<exists>h w. compute_lmd_ghost_head start blocks atts m = Some (h, w)"
proof -
  have run: "\<exists>h w. Option.bind (compute_block_weights slot blocks atts) (\<lambda>weights.
      Option.bind (descend (children_map_of weights m blocks) weights r) (\<lambda>head. Some (head, weights))) = Some (h, w)"
    if "map_of blocks r = Some (slot, p)" for r slot p
  proof -
    from compute_block_weights_counts [OF assms, of slot atts] obtain w where
      w: "compute_block_weights slot blocks atts = Some w" by blast
    from descend_ghost_path [OF assms that, of w m] obtain e where
      "descend (children_map_of w m blocks) w r = Some e" by blast
    with w show ?thesis by simp
  qed
  show ?thesis
    unfolding compute_lmd_ghost_head_def Let_def
    by (auto split: option.split intro: run)
qed

lemma seen_update_head:
  assumes "seen_ok H anchor seen s"
  shows "\<exists>h. update_head s = Some (s\<lparr>s_head := h\<rparr>)"
proof -
  have so: "tbl_sorted encode_live_chain_key (t_live_chain s)"
    using seen_okD(1) [OF assms] by (simp add: store_ok_def tables_ok_def)
  from ghost_head_total [OF live_chain_block_tree [OF so seen_live_tree [OF assms]],
      of "cp_root (s_latest_justified s)" "extract_latest_known_attestations s" 0] obtain h w where
    "compute_lmd_ghost_head (cp_root (s_latest_justified s)) (get_live_chain s)
       (extract_latest_known_attestations s) 0 = Some (h, w)" by blast
  then show ?thesis by (auto simp: update_head_def)
qed

section \<open>What keeps it\<close>

text \<open>The invariant reads the block tables, the states and the live chain, and nothing else.\<close>

lemma signed_block_cong:
  assumes "t_block_headers s' = t_block_headers s" and "t_block_bodies s' = t_block_bodies s"
    and "t_block_signatures s' = t_block_signatures s"
  shows "get_signed_block H s' r = get_signed_block H s r"
  using assms by (simp add: get_signed_block_def cong: if_cong)

lemma seen_ok_frame:
  assumes "seen_ok H anchor seen s" and "chain_frame s s'" and "store_ok s'"
  shows "seen_ok H anchor seen s'"
proof -
  have "get_signed_block H s' r = get_signed_block H s r" for r
    using assms(2) by (intro signed_block_cong) (simp_all add: chain_frame_def)
  moreover have "t_live_chain s' = t_live_chain s" using assms(2) by (simp add: chain_frame_def)
  ultimately show ?thesis
    using assms(1,3) by (simp add: seen_ok_def chain_frame_reads [OF assms(2)])
qed

text \<open>A signed block that was written is read back with the same header.\<close>

lemma get_written_block:
  "\<exists>sb'. get_signed_block H (write_signed_block H r sb s) r = Some sb' \<and>
     block_header_of H (bwa_block (sb_message sb')) = block_header_of H (bwa_block (sb_message sb))"
  by (auto simp: get_signed_block_def write_signed_block_def Let_def EMPTY_BODY_ROOT_def
      to_signed_block_def from_header_and_body_def block_header_of_def)

lemma get_other_block:
  assumes "r' \<noteq> r"
  shows "get_signed_block H (write_signed_block H r sb s) r' = get_signed_block H s r'"
  using assms by (simp add: get_signed_block_def write_signed_block_def Let_def cong: if_cong)

lemma write_signed_block_fields [simp]:
  "t_states (write_signed_block H r sb s) = t_states s"
  "t_live_chain (write_signed_block H r sb s) = t_live_chain s"
  "get_block_header (write_signed_block H r sb s) =
     (get_block_header s)(r \<mapsto> block_header_of H (bwa_block (sb_message sb)))"
  by (simp_all add: write_signed_block_def Let_def get_block_header_def fun_eq_iff)

lemma seen_ok_write:
  fixes sb :: signed_block_with_attestation
  defines "b \<equiv> bwa_block (sb_message sb)"
  assumes ok: "seen_ok H anchor seen s" and H: "ssz_roots H"
    and b: "seen (h_block H b) = Some (blk_slot b, blk_parent_root b)"
    and s': "store_ok s'" "get_block_header s' = get_block_header (write_signed_block H (h_block H b) sb s)"
      "\<And>r. get_signed_block H s' r = get_signed_block H (write_signed_block H (h_block H b) sb s) r"
    and states: "\<And>r st. get_state s' r = Some st \<Longrightarrow> get_state s r = Some st \<or>
      r = h_block H b \<and> wf_state st \<and> hdr_slot (st_latest_block_header st) = blk_slot b \<and>
      get_state s (blk_parent_root b) \<noteq> None"
    and live: "\<And>slot r p. ((slot, r), p) \<in> set (t_live_chain s') \<Longrightarrow> ((slot, r), p) \<in> set (t_live_chain s) \<or>
      slot = blk_slot b \<and> r = h_block H b \<and> p = blk_parent_root b \<and>
      (\<exists>pst. get_state s p = Some pst \<and> hdr_slot (st_latest_block_header pst) < slot)"
  shows "seen_ok H anchor seen s'"
proof -
  note d = seen_okD [OF ok]
  have edge: "(h_block H b, blk_parent_root b) \<in> parent_edges seen" using b by (simp add: parent_edges_iff)
  have up: "(h_block H b, anchor) \<in> (parent_edges seen)\<^sup>*" if "get_state s (blk_parent_root b) \<noteq> None"
    using that d(7) edge by (meson converse_rtrancl_into_rtrancl not_None_eq)
  show ?thesis
    unfolding seen_ok_def
  proof (intro conjI allI impI)
    show "store_ok s'" "acyclic (parent_edges seen)" by (fact s'(1)) (fact d(2))
  next
    fix r h
    assume h: "get_block_header s' r = Some h"
    show "seen r = Some (hdr_slot h, hdr_parent_root h)"
      using h d(3) b unfolding s'(2) by (auto simp: block_header_of_def b_def split: if_splits)
    show "get_signed_block H s' r \<noteq> None" if "r \<noteq> anchor"
      using h d(4) [OF _ that] get_written_block [of H r sb s] get_other_block [of r "h_block H b" H sb s]
      unfolding s'(2,3) by (cases "r = h_block H b") auto
  next
    fix r sb'
    assume "get_signed_block H s' r = Some sb'"
    then show "h_block H (bwa_block (sb_message sb')) = r"
      using d(5) get_written_block [of H r sb s] get_other_block [of r "h_block H b" H sb s] H
      unfolding s'(3) by (cases "r = h_block H b") (auto simp: ssz_roots_def b_def)
  next
    fix r st
    assume "get_state s' r = Some st"
    note c = states [OF this]
    show "wf_state st" "(r, anchor) \<in> (parent_edges seen)\<^sup>*" using c d(6,7) up by blast+
    show "\<exists>p. seen r = Some (hdr_slot (st_latest_block_header st), p)" using c d(8) b by auto
  next
    fix slot r p
    assume "((slot, r), p) \<in> set (t_live_chain s')"
    note l = live [OF this]
    show "seen r = Some (slot, p)" using l d(9) b by blast
    show "(r, anchor) \<in> (parent_edges seen)\<^sup>*" using l d(10) up by blast
    show "\<exists>pslot q. seen p = Some (pslot, q) \<and> pslot < slot" if "r \<noteq> anchor"
      using l d(11) [OF _ that] d(8) by blast
  qed
qed

lemma seen_ok_pending:
  assumes "seen_ok H anchor seen s" and "ssz_roots H"
    and "seen (h_block H (bwa_block (sb_message sb))) =
      Some (blk_slot (bwa_block (sb_message sb)), blk_parent_root (bwa_block (sb_message sb)))"
  shows "seen_ok H anchor seen (insert_pending_block H (h_block H (bwa_block (sb_message sb))) sb s)"
  by (rule seen_ok_write [OF assms])
    (use seen_okD(1) [OF assms(1)] in
      \<open>simp_all add: insert_pending_block_def store_ok_write_signed_block get_state_def\<close>)

lemma seen_ok_record:
  fixes sb :: signed_block_with_attestation
  defines "b \<equiv> bwa_block (sb_message sb)"
  assumes ok: "seen_ok H anchor seen s" and "ssz_roots H"
    and "seen (h_block H b) = Some (blk_slot b, blk_parent_root b)"
    and pst: "get_state s (blk_parent_root b) = Some pst" and run: "state_transition H pst b = Ok st"
  shows "seen_ok H anchor seen (record_block H sb st s)" (is "seen_ok _ _ _ ?s'")
proof (rule seen_ok_write [OF ok assms(3) assms(4) [unfolded b_def], folded b_def])
  have wf: "wf_state pst" by (rule seen_okD(6) [OF ok pst])
  note f = record_block_fields [where sb = sb and st = st and s = s and H = H, folded b_def]
  note so = seen_okD(1) [OF ok]
  show "store_ok ?s'" by (rule record_block_ok [OF so])
  show "get_block_header ?s' = get_block_header (write_signed_block H (h_block H b) sb s)"
    by (simp add: f b_def)
  show "get_signed_block H ?s' r = get_signed_block H (write_signed_block H (h_block H b) sb s) r" for r
  proof (rule signed_block_cong)
    let ?adv = "\<lambda>post. advance_checkpoints post s"
    have adv: "t_block_headers (?adv post) = t_block_headers s" "t_block_bodies (?adv post) = t_block_bodies s"
      "t_block_signatures (?adv post) = t_block_signatures s" for post
      by (simp_all add: advance_checkpoints_def fork_checkpoints_new_def update_checkpoints_def
          prune_live_chain_def prune_gossip_signatures_def prune_attestation_data_by_root_def
          Let_def case_prod_unfold)
    show "t_block_headers ?s' = t_block_headers (write_signed_block H (h_block H b) sb s)"
      "t_block_bodies ?s' = t_block_bodies (write_signed_block H (h_block H b) sb s)"
      "t_block_signatures ?s' = t_block_signatures (write_signed_block H (h_block H b) sb s)"
      by (simp_all add: record_block_def Let_def neutral_known.tables_kept neutral_data_batch.tables_kept
          insert_state_def insert_signed_block_def write_signed_block_def adv b_def)
  qed
  show "get_state s r = Some st' \<or> r = h_block H b \<and> wf_state st' \<and>
      hdr_slot (st_latest_block_header st') = blk_slot b \<and> get_state s (blk_parent_root b) \<noteq> None"
    if "get_state ?s' r = Some st'" for r st'
    using that pst state_transition_wf [OF wf run] state_transition_keeps(5) [OF wf run]
    by (auto simp: f block_header_of_def wf_state_def split: if_splits)
  show "((slot, r), p) \<in> set (t_live_chain s) \<or> slot = blk_slot b \<and> r = h_block H b \<and> p = blk_parent_root b \<and>
      (\<exists>pst. get_state s p = Some pst \<and> hdr_slot (st_latest_block_header pst) < slot)"
    if "((slot, r), p) \<in> set (t_live_chain ?s')" for slot r p
    using recorded_live(1) [OF so that, folded b_def] pst state_transition_history(3) [OF wf run] by blast
qed

section \<open>Blocks\<close>

lemma record_proposer_attestation_frame:
  assumes "record_proposer_attestation H C sb verify ids s = (s', r)" and "store_ok s"
  shows "chain_frame s s' \<and> store_ok s'"
  using assms
  by (auto simp: record_proposer_attestation_def Let_def neutral_new.keeps_frame neutral_gossip.keeps_frame
      neutral_new.ok_kept neutral_gossip.ok_kept split: if_splits option.splits result.splits)

lemma seen_on_block:
  fixes sb :: signed_block_with_attestation
  defines "b \<equiv> bwa_block (sb_message sb)"
  assumes ok: "seen_ok H anchor seen s" and H: "ssz_roots H"
    and b: "seen (h_block H b) = Some (blk_slot b, blk_parent_root b)"
  shows "\<exists>s' r. on_block H C s sb ids = Some (s', r) \<and> seen_ok H anchor seen s' \<and>
    (r \<noteq> Ok () \<longrightarrow> s' = s) \<and> (r = Ok () \<longrightarrow> has_state s' (h_block H b)) \<and>
    (\<forall>x. x \<noteq> h_block H b \<longrightarrow> get_state s' x = get_state s x) \<and> (\<forall>x. has_state s x \<longrightarrow> has_state s' x)"
proof (cases "\<not> has_state s (h_block H b) \<and> (\<exists>pst st. get_state s (blk_parent_root b) = Some pst \<and>
    verify_signatures H C pst sb = Ok () \<and> state_transition H pst b = Ok st)")
  case False
  have "\<exists>r. on_block H C s sb ids = Some (s, r) \<and> (r = Ok () \<longleftrightarrow> has_state s (h_block H b))"
    using False unfolding on_block_def on_block_core_def Let_def b_def
    by (auto split: option.splits result.splits)
  with ok show ?thesis by auto
next
  case True
  then obtain pst st where ns: "\<not> has_state s (h_block H b)" and
    p: "get_state s (blk_parent_root b) = Some pst" "verify_signatures H C pst sb = Ok ()"
      "state_transition H pst b = Ok st" by blast
  let ?s1 = "record_block H sb st s"
  note f = record_block_fields [where sb = sb and st = st and s = s and H = H, folded b_def]
  have ok1: "seen_ok H anchor seen ?s1"
    by (rule seen_ok_record [OF ok H b [unfolded b_def] p(1,3) [unfolded b_def]])
  from seen_update_head [OF ok1] obtain h where h: "update_head ?s1 = Some (?s1\<lparr>s_head := h\<rparr>)" by blast
  have "store_ok (?s1\<lparr>s_head := h\<rparr>)" using seen_okD(1) [OF ok1] by (simp add: store_ok_def tables_ok_def)
  with seen_ok_frame [OF ok1, of "?s1\<lparr>s_head := h\<rparr>"] have
    ok2: "seen_ok H anchor seen (?s1\<lparr>s_head := h\<rparr>)" by simp
  obtain s' r where r: "record_proposer_attestation H C sb True ids (?s1\<lparr>s_head := h\<rparr>) = (s', r)"
    by (meson surj_pair)
  note fr = record_proposer_attestation_frame [OF r seen_okD(1) [OF ok2]]
  have "on_block H C s sb ids = Some (s', r)"
    using ns p h r by (simp add: on_block_def on_block_core_def Let_def b_def)
  moreover have "r = Ok ()" using record_proposer_attestation_Ok [OF p(2)] r by (metis snd_conv)
  moreover have "get_state s' x = get_state ?s1 x" for x
    using chain_frame_reads(1) [of "?s1\<lparr>s_head := h\<rparr>" s'] fr by simp
  then have "get_state s' (h_block H b) \<noteq> None" and "\<forall>x. x \<noteq> h_block H b \<longrightarrow> get_state s' x = get_state s x"
    unfolding f by simp_all
  moreover have "seen_ok H anchor seen s'" using seen_ok_frame [OF ok2] fr by blast
  moreover have "has_state s' x" if "has_state s x" for x
    using that calculation(3,4) by (cases "x = h_block H b") (simp_all add: has_state_def get_state_def)
  ultimately show ?thesis by (simp add: has_state_def get_state_def)
qed

section \<open>Pruning\<close>

lemma prune_old_data_fields:
  "\<exists>ks kb. t_states (prune_old_data f s) = tbl_delete ks (t_states s) \<and>
     t_block_headers (prune_old_data f s) = tbl_delete kb (t_block_headers s) \<and>
     t_block_bodies (prune_old_data f s) = tbl_delete kb (t_block_bodies s) \<and>
     t_block_signatures (prune_old_data f s) = tbl_delete kb (t_block_signatures s) \<and>
     t_live_chain (prune_old_data f s) = t_live_chain s"
proof -
  let ?p = "[cp_root (s_latest_finalized s), cp_root (s_latest_justified s)]"
  show ?thesis
    by (intro exI [of _ "keys_beyond f STATES_TO_KEEP ?p (t_block_headers s)"]
          exI [of _ "keys_beyond f BLOCKS_TO_KEEP ?p (t_block_headers s)"])
      (simp add: prune_old_data_def prune_old_states_def prune_old_blocks_def Let_def tbl_delete_def)
qed

lemma seen_ok_prune:
  assumes ok: "seen_ok H anchor seen s"
  shows "seen_ok H anchor seen (prune_old_data f s)"
proof -
  let ?s = "prune_old_data f s"
  note d = seen_okD [OF ok]
  obtain ks kb where p: "t_states ?s = tbl_delete ks (t_states s)"
    "t_block_headers ?s = tbl_delete kb (t_block_headers s)" "t_block_bodies ?s = tbl_delete kb (t_block_bodies s)"
    "t_block_signatures ?s = tbl_delete kb (t_block_signatures s)" "t_live_chain ?s = t_live_chain s"
    using prune_old_data_fields [of f s] by blast
  have st: "get_state ?s r = (if r \<in> set ks then None else get_state s r)" for r
    by (simp add: get_state_def p)
  have hd: "get_block_header ?s r = (if r \<in> set kb then None else get_block_header s r)" for r
    by (simp add: get_block_header_def p)
  have sb: "get_signed_block H ?s r = (if r \<in> set kb then None else get_signed_block H s r)" for r
    by (simp add: get_signed_block_def p cong: if_cong)
  show ?thesis
    unfolding seen_ok_def p(5) st hd sb using store_ok_prune_old [OF d(1), of f] d by (auto split: if_splits)
qed

section \<open>Ticks and gossip\<close>

text \<open>What returns leaves blocks and states alone; the time is at most moved by the caller.\<close>

definition quiet :: "store \<Rightarrow> store \<Rightarrow> bool" where
  "quiet s s' \<longleftrightarrow> chain_frame s s' \<and> store_ok s' \<and> s_config s' = s_config s"

lemma quiet_seen: "seen_ok H anchor seen s \<Longrightarrow> quiet s s' \<Longrightarrow> seen_ok H anchor seen s'"
  using seen_ok_frame by (auto simp: quiet_def)

lemma quiet_trans: "quiet s s' \<Longrightarrow> quiet s' s'' \<Longrightarrow> quiet s s''"
  using chain_frame_trans by (auto simp: quiet_def)

context chain_neutral
begin

lemma quiet_after: "quiet s s' \<Longrightarrow> quiet s (op s')"
  using chain_frame_trans [OF _ keeps_frame] ok_kept by (simp add: quiet_def metadata_kept)

end

lemma quiet_set_time: "store_ok s \<Longrightarrow> quiet s (set_time t s)"
  by (rule neutral_set_time.quiet_after) (simp add: quiet_def)

lemma accept_new_attestations_quiet:
  assumes "seen_ok H anchor seen s"
  shows "\<exists>s'. accept_new_attestations s = Some s' \<and> quiet s s' \<and> s_time s' = s_time s"
proof -
  let ?s1 = "promote_new_aggregated_payloads s"
  note ok = neutral_promote.ok_kept [OF seen_okD(1) [OF assms]]
  note fr = neutral_promote.keeps_frame [of s]
  from seen_update_head [OF seen_ok_frame [OF assms fr ok]] obtain h where
    h: "update_head ?s1 = Some (?s1\<lparr>s_head := h\<rparr>)" by blast
  have "chain_frame s (?s1\<lparr>s_head := h\<rparr>)" by (rule chain_frame_trans [OF fr]) simp
  with h ok show ?thesis
    by (simp add: accept_new_attestations_def quiet_def) (simp add: promote_new_aggregated_payloads_def buffer_drain_def)
qed

lemma update_safe_target_quiet:
  assumes "seen_ok H anchor seen s"
  shows "update_safe_target s = Some Panic \<or> (\<exists>h. update_safe_target s = Some (Ok (s\<lparr>s_safe_target := h\<rparr>)))"
proof -
  have so: "tbl_sorted encode_live_chain_key (t_live_chain s)"
    using seen_okD(1) [OF assms] by (simp add: store_ok_def tables_ok_def)
  note total = ghost_head_total [OF live_chain_block_tree [OF so seen_live_tree [OF assms]],
      of "cp_root (s_latest_justified s)"]
  show ?thesis
  proof (cases "get_state s (s_head s)")
    case None
    then show ?thesis by (simp add: update_safe_target_def)
  next
    case (Some st)
    from total [of "extract_latest_attestations s
        (remdups (iter_known_aggregated_payload_keys s @ iter_new_aggregated_payload_keys s))"
        "div_ceil (word_of_nat (length (st_validators st)) * 2) 3"] Some show ?thesis
      by (auto simp: update_safe_target_def Let_def set_safe_target_def)
  qed
qed

lemma aggregate_committee_signatures_quiet:
  assumes "seen_ok H anchor seen s"
  shows "aggregate_committee_signatures C s = Panic \<or>
    (\<exists>s' aggs. aggregate_committee_signatures C s = Ok (s', aggs) \<and> quiet s s' \<and> s_time s' = s_time s)"
proof -
  note so = seen_okD(1) [OF assms]
  have del: "store_ok (delete_gossip_signatures keys (insert_new_aggregated_payloads_batch ps s))"
    if "distinct keys" "set keys \<subseteq> dom (map_of (t_gossip_signatures s))" for keys ps
    by (rule store_ok_delete_gossip [OF neutral_new_batch.ok_kept [OF so] that(1)])
      (use that(2) in \<open>simp add: insert_new_aggregated_payloads_batch_def\<close>)
  from aggregate_committee_signatures_step [where s = s and C = C, OF so] seen_okD(6) [OF assms] have
    "aggregate_committee_signatures C s = Ok (s, []) \<or> aggregate_committee_signatures C s = Panic \<or>
     (\<exists>ps keys aggs. aggregate_committee_signatures C s =
        Ok (delete_gossip_signatures keys (insert_new_aggregated_payloads_batch ps s), aggs) \<and>
      distinct keys \<and> set keys \<subseteq> dom (map_of (t_gossip_signatures s)))" by blast
  with so del show ?thesis
    by (elim disjE exE conjE)
      (simp_all add: quiet_def, simp_all add: delete_gossip_signatures_def
        insert_new_aggregated_payloads_batch_def chain_frame_def)
qed

lemma tick_interval_quiet:
  assumes "seen_ok H anchor seen s"
  shows "\<exists>r. tick_interval C sig agg interval s = Some r \<and> (r = Panic \<or>
    (\<exists>s' aggs. r = Ok (s', aggs) \<and> quiet s s' \<and> s_time s' = s_time s))"
proof -
  have q: "quiet s s" "\<And>h. quiet s (s\<lparr>s_safe_target := h\<rparr>)"
    using seen_okD(1) [OF assms] by (simp_all add: quiet_def)
  from accept_new_attestations_quiet [OF assms] obtain s1 where
    s1: "accept_new_attestations s = Some s1" "quiet s s1" "s_time s1 = s_time s" by blast
  show ?thesis
    using s1 q update_safe_target_quiet [OF assms] aggregate_committee_signatures_quiet [OF assms, of C]
    unfolding tick_interval_def by (elim disjE exE conjE) simp_all
qed

lemma tick_loop_quiet:
  assumes "seen_ok H anchor seen s"
  shows "\<exists>r. tick_loop C hp ia time s acc = Some r \<and> (r = Panic \<or> (\<exists>s' aggs. r = Ok (s', aggs) \<and> quiet s s'))"
  using assms
proof (induction "unat time - unat (s_time s)" arbitrary: s acc rule: less_induct)
  case less
  show ?case
  proof (cases "s_time s < time")
    case False
    with less.prems show ?thesis
      by (subst tick_loop.simps) (simp add: quiet_def seen_okD(1))
  next
    case True
    let ?t = "s_time s + 1"
    let ?i = "?t mod INTERVALS_PER_SLOT"
    have un: "unat ?t = unat (s_time s) + 1" using True by (rule unat_succ)
    note q0 = quiet_set_time [OF seen_okD(1) [OF less.prems], of ?t]
    from tick_interval_quiet [OF quiet_seen [OF less.prems q0], of C "hp \<and> ?t = time" ia ?i] obtain r where
      r: "tick_interval C (hp \<and> ?t = time) ia ?i (set_time ?t s) = Some r"
        "r = Panic \<or> (\<exists>s1 aggs. r = Ok (s1, aggs) \<and> quiet (set_time ?t s) s1 \<and> s_time s1 = ?t)"
      by (auto simp: set_time_def)
    from r(2) show ?thesis
    proof (elim disjE exE conjE)
      assume "r = Panic"
      with r(1) True show ?thesis by (subst tick_loop.simps) simp
    next
      fix s1 aggs
      assume s1: "r = Ok (s1, aggs)" "quiet (set_time ?t s) s1" "s_time s1 = ?t"
      note q1 = quiet_trans [OF q0 s1(2)]
      have "unat time - unat (s_time s1) < unat time - unat (s_time s)"
        using True un s1(3) by (simp add: word_less_nat_alt)
      from less.hyps [OF this quiet_seen [OF less.prems q1], of "acc @ aggs"] r(1) s1(1) True q1
      show ?thesis by (subst tick_loop.simps) (auto intro: quiet_trans)
    qed
  qed
qed

lemma on_tick_quiet:
  assumes "seen_ok H anchor seen s"
  shows "\<exists>r. on_tick C s ts hp ia = Some r \<and> (r = Panic \<or> (\<exists>s' aggs. r = Ok (s', aggs) \<and> quiet s s'))"
proof -
  let ?t = "tick_time s ts"
  let ?s1 = "if saturating_sub ?t (s_time s) > INTERVALS_PER_SLOT then set_time (?t - INTERVALS_PER_SLOT) s else s"
  have q: "quiet s ?s1" using quiet_set_time seen_okD(1) [OF assms] by (simp add: quiet_def)
  from tick_loop_quiet [OF quiet_seen [OF assms q], of C hp ia ?t "[]"] obtain r where
    r: "tick_loop C hp ia ?t ?s1 [] = Some r" "r = Panic \<or> (\<exists>s' aggs. r = Ok (s', aggs) \<and> quiet ?s1 s')" by blast
  from r(2) have "r = Panic \<or> (\<exists>s' aggs. r = Ok (s', aggs) \<and> quiet s s')" using quiet_trans [OF q] by blast
  with r(1) show ?thesis unfolding on_tick_def Let_def by blast
qed

lemma on_gossip_quiet:
  assumes "store_ok s"
  shows "quiet s (fst (on_gossip_attestation H C s sa ids))"
    and "quiet s (fst (on_gossip_aggregated_attestation H C s agg))"
proof -
  have q: "quiet s s" using assms by (simp add: quiet_def)
  note d = neutral_data.quiet_after [OF q]
  show "quiet s (fst (on_gossip_attestation H C s sa ids))"
    using q d neutral_gossip.quiet_after [OF d, where C = C]
    by (simp add: on_gossip_attestation_def Let_def split: result.splits)
  show "quiet s (fst (on_gossip_aggregated_attestation H C s agg))"
    using q neutral_new_batch.quiet_after [OF d]
    by (simp add: on_gossip_aggregated_attestation_def Let_def split: result.splits)
qed

section \<open>The start\<close>

lemma init_store_seen:
  fixes H :: hashing
  assumes run: "init_store H empty_tables st body = Ok s" and wf: "wf_state st"
    and ne: "s_head s \<noteq> hdr_parent_root (st_latest_block_header st)"
  shows "seen_ok H (s_head s) [s_head s \<mapsto> (hdr_slot (st_latest_block_header st), hdr_parent_root (st_latest_block_header st))] s"
    (is "seen_ok H ?r ?seen s")
proof -
  from run have so: "store_ok s" by (rule init_store_ok) (simp add: empty_tables_def tables_ok_def)
  have e: "parent_edges ?seen = {(?r, hdr_parent_root (st_latest_block_header st))}"
    by (auto simp: parent_edges_def split: if_splits)
  have ac: "acyclic (parent_edges ?seen)" using ne unfolding e by (simp add: wf_acyclic)
  define hd where "hd = (st_latest_block_header st)\<lparr>hdr_state_root :=
    h_state H (st\<lparr>st_latest_block_header := (st_latest_block_header st)\<lparr>hdr_state_root := 0\<rparr>\<rparr>)\<rparr>"
  have tab: "t_block_headers s = [(?r, hd)]" "t_states s = [(?r, st\<lparr>st_latest_block_header := hd\<rparr>)]"
    "t_block_signatures s = []" "t_live_chain s = [((hdr_slot hd, ?r), hdr_parent_root hd)]"
    using run by (auto simp: init_store_def Let_def empty_tables_def tbl_put_def hd_def split: if_splits)
  have hd: "hdr_slot hd = hdr_slot (st_latest_block_header st)"
    "hdr_parent_root hd = hdr_parent_root (st_latest_block_header st)" by (simp_all add: hd_def)
  have wf': "wf_state (st\<lparr>st_latest_block_header := hd\<rparr>)" using wf by (simp add: wf_state_def hd)
  have nsb: "get_signed_block H s r = None" for r by (simp add: get_signed_block_def tab bind_eq_None_conv)
  show ?thesis
    unfolding seen_ok_def get_block_header_def get_state_def tab nsb
    using so ac wf' by (auto simp: hd split: if_splits)
qed

end
