(* ===== verification/Key_Manager.thy ===== *)
theory Key_Manager
  imports Chain_Store
begin

text \<open>
  The validator keys of a node (\<open>crates/blockchain/src/key_manager.rs\<close>) and the signatures it makes
  with them. Secret keys are the type \<open>'sk\<close> of the signature scheme; the iteration order of the hash
  map of keys is the order of the association list, so every order is covered.
\<close>

section \<open>Keys\<close>

datatype key_manager_error = ValidatorKeyNotFound u64 | SigningError | SignatureConversionError

record 'sk key_manager =
  km_keys :: "(u64 \<times> 'sk) list"

definition key_manager_new :: "(u64 \<times> 'sk) list \<Rightarrow> 'sk key_manager" where
  "key_manager_new keys = \<lparr>km_keys = keys\<rparr>"

definition validator_ids :: "'sk key_manager \<Rightarrow> u64 list" where
  "validator_ids km = map fst (km_keys km)"

section \<open>Signing\<close>

definition SIGNATURE_SIZE :: nat where
  "SIGNATURE_SIZE = 3600 - 488"

definition sign_message ::
  "('pk, 'sig, 'sk) crypto \<Rightarrow> 'sk key_manager \<Rightarrow> u64 \<Rightarrow> u32 \<Rightarrow> H256 \<Rightarrow> (bytes, key_manager_error) result" where
  "sign_message C km validator_id slot message =
     bind_res (ok_or (map_of (km_keys km) validator_id) (ValidatorKeyNotFound validator_id)) (\<lambda>secret_key.
     bind_res (ok_or (c_sign C secret_key slot message) SigningError) (\<lambda>signature.
       (let sig_bytes = c_signature_bytes C signature
        in if length sig_bytes = SIGNATURE_SIZE then Ok sig_bytes else Err SignatureConversionError)))"

text \<open>The slot of the data is truncated to 32 bits.\<close>

definition sign_attestation ::
  "hashing \<Rightarrow> ('pk, 'sig, 'sk) crypto \<Rightarrow> 'sk key_manager \<Rightarrow> u64 \<Rightarrow> attestation_data \<Rightarrow>
   (bytes, key_manager_error) result" where
  "sign_attestation H C km validator_id data =
     sign_message C km validator_id (ucast (ad_slot data)) (h_data H data)"

section \<open>Signatures verify\<close>

text \<open>What a signature scheme promises for a key pair whose public key is encoded as given.\<close>

definition key_pair :: "('pk, 'sig, 'sk) crypto \<Rightarrow> 'sk \<Rightarrow> bytes \<Rightarrow> bool" where
  "key_pair C sk pubkey \<longleftrightarrow> (\<exists>pk. c_pubkey C pubkey = Some pk \<and>
     (\<forall>slot message sig. c_sign C sk slot message = Some sig \<longrightarrow>
        c_verify C pk slot message sig \<and> c_signature C (c_signature_bytes C sig) = Some sig))"

lemma sign_message_Ok:
  assumes "sign_message C km v slot message = Ok bs" and "map_of (km_keys km) v = Some sk" and "key_pair C sk pubkey"
  shows "\<exists>pk sig. c_pubkey C pubkey = Some pk \<and> c_signature C bs = Some sig \<and>
    c_verify C pk slot message sig \<and> length bs = SIGNATURE_SIZE"
  using assms by (fastforce simp: sign_message_def key_pair_def Let_def outcome_simps split: if_splits)

text \<open>A key that signs every message of every slot, with signatures of the size of the container.\<close>

definition signs :: "('pk, 'sig, 'sk) crypto \<Rightarrow> 'sk \<Rightarrow> bool" where
  "signs C sk \<longleftrightarrow> (\<forall>slot message. \<exists>sig. c_sign C sk slot message = Some sig \<and>
     length (c_signature_bytes C sig) = SIGNATURE_SIZE)"

lemma sign_attestation_signs:
  assumes "map_of (km_keys km) v = Some sk" and "signs C sk"
  shows "\<exists>bs. sign_attestation H C km v d = Ok bs"
proof -
  from assms(2) obtain sig where "c_sign C sk (ucast (ad_slot d)) (h_data H d) = Some sig"
    "length (c_signature_bytes C sig) = SIGNATURE_SIZE" unfolding signs_def by blast
  with assms(1) show ?thesis by (simp add: sign_attestation_def sign_message_def Let_def)
qed

lemma sign_message_cases:
  "sign_message C km v slot message \<noteq> Panic"
  "v \<notin> set (validator_ids km) \<Longrightarrow> sign_message C km v slot message = Err (ValidatorKeyNotFound v)"
  by (auto simp: sign_message_def validator_ids_def Let_def outcome_simps map_of_eq_None_iff
      split: option.splits if_splits)

lemma sign_attestation_no_panic [simp]: "sign_attestation H C km v d \<noteq> Panic"
  by (simp add: sign_attestation_def sign_message_cases)

text \<open>Truncation agrees with the checked conversion of the verifier on 32-bit slots.\<close>

lemma try_u32_truncates: "try_u32 slot = Ok n \<Longrightarrow> n = ucast slot"
  by (auto simp: try_u32_def split: if_splits)

end
