(* ===== verification/Chain_Server.thy ===== *)
theory Chain_Server
  imports Key_Manager
begin

text \<open>
  The blockchain server (\<open>crates/blockchain/src/lib.rs\<close>): the actor that sequences ticks, blocks and
  gossip, keeps blocks whose parent is unknown until the parent arrives, and performs the duties of
  the node's validators. The reference to the P2P actor is the list of the messages sent to it, in
  order, once it is set. Handlers swallow errors, so their outcome is the next server or a panic; a
  handler that loops is an option. A hash set is a list without duplicates, and the order in which
  its elements are visited is the parameter \<open>iter\<close>.
\<close>

section \<open>State and messages\<close>

datatype p2p_message = PublishBlock signed_block_with_attestation
  | PublishAttestation signed_attestation
  | PublishAggregatedAttestation signed_aggregated_attestation
  | FetchBlock H256

record 'sk server =
  sv_store :: store
  sv_p2p :: "p2p_message list option"
  sv_key_manager :: "'sk key_manager"
  sv_pending_blocks :: "(H256 \<times> H256 list) list"
  sv_pending_block_parents :: "(H256 \<times> H256) list"
  sv_is_aggregator :: bool

type_synonym 'sk server_run = "('sk server, store_error) result option"

text \<open>The server and the delay in milliseconds until its first tick.\<close>

definition spawn :: "store \<Rightarrow> (u64 \<times> 'sk) list \<Rightarrow> bool \<Rightarrow> nat \<Rightarrow> ('sk server \<times> nat, store_error) result" where
  "spawn s validator_keys is_aggregator now_ms =
     (let genesis_time = unat (cc_genesis_time (s_config s))
      in if genesis_time \<ge> 2 ^ 63 then Panic
         else Ok (\<lparr>sv_store = s, sv_p2p = None, sv_key_manager = key_manager_new validator_keys,
                   sv_pending_blocks = [], sv_pending_block_parents = [],
                   sv_is_aggregator = is_aggregator\<rparr>, genesis_time * 1000 - now_ms))"

definition send :: "p2p_message \<Rightarrow> 'sk server \<Rightarrow> 'sk server" where
  "send m sv = (case sv_p2p sv of None \<Rightarrow> sv | Some sent \<Rightarrow> sv\<lparr>sv_p2p := Some (sent @ [m])\<rparr>)"

section \<open>Blocks\<close>

text \<open>The metrics updated after a block read the head header and panic without it.\<close>

definition server_process_block ::
  "hashing \<Rightarrow> ('pk, 'sig, 'sk) crypto \<Rightarrow> 'sk server \<Rightarrow> signed_block_with_attestation \<Rightarrow>
   ('sk server \<times> (unit, store_error) result) option" where
  "server_process_block H C sv signed_block =
     map_option (\<lambda>(s, r). (sv\<lparr>sv_store := s\<rparr>, bind_res r (\<lambda>_. bind_res (head_slot s) (\<lambda>_. Ok ()))))
       (on_block H C (sv_store sv) signed_block (validator_ids (sv_key_manager sv)))"

definition request_missing_block :: "H256 \<Rightarrow> 'sk server \<Rightarrow> 'sk server" where
  "request_missing_block block_root sv = send (FetchBlock block_root) sv"

definition pending_insert :: "H256 \<Rightarrow> H256 \<Rightarrow> (H256 \<times> H256 list) list \<Rightarrow> (H256 \<times> H256 list) list" where
  "pending_insert parent_root block_root pending =
     AList.update parent_root
       (case map_of pending parent_root of
          None \<Rightarrow> [block_root]
        | Some roots \<Rightarrow> if block_root \<in> set roots then roots else roots @ [block_root]) pending"

definition collect_pending_children ::
  "hashing \<Rightarrow> (H256 list \<Rightarrow> H256 list) \<Rightarrow> H256 \<Rightarrow> 'sk server \<Rightarrow>
   'sk server \<times> signed_block_with_attestation list" where
  "collect_pending_children H iter parent_root sv =
     (case map_of (sv_pending_blocks sv) parent_root of
        None \<Rightarrow> (sv, [])
      | Some child_roots \<Rightarrow>
          (sv\<lparr>sv_pending_blocks := AList.delete parent_root (sv_pending_blocks sv),
              sv_pending_block_parents := fold AList.delete (iter child_roots) (sv_pending_block_parents sv)\<rparr>,
           List.map_filter (get_signed_block H (sv_store sv)) (iter child_roots)))"

text \<open>The cached missing ancestor, resolved through entries that have become stale.\<close>

partial_function (option) resolve_missing :: "(H256 \<times> H256) list \<Rightarrow> H256 \<Rightarrow> H256 option" where
  [code]: "resolve_missing parents missing_root =
     (case map_of parents missing_root of
        None \<Rightarrow> Some missing_root
      | Some ancestor \<Rightarrow> resolve_missing parents ancestor)"

text \<open>The walk up through stored blocks; the result holds the blocks to enqueue.\<close>

partial_function (option) walk_up_db ::
  "hashing \<Rightarrow> 'sk server \<Rightarrow> H256 \<Rightarrow> ('sk server \<times> signed_block_with_attestation list, store_error) result option"
where
  [code]: "walk_up_db H sv missing_root =
     (case get_block_header (sv_store sv) missing_root of
        None \<Rightarrow> Some (Ok (request_missing_block missing_root sv, []))
      | Some header \<Rightarrow>
          if has_state (sv_store sv) (hdr_parent_root header)
          then Some (bind_res (expect (get_signed_block H (sv_store sv) missing_root)) (\<lambda>block. Ok (sv, [block])))
          else walk_up_db H
                 (sv\<lparr>sv_pending_blocks :=
                       pending_insert (hdr_parent_root header) missing_root (sv_pending_blocks sv),
                     sv_pending_block_parents :=
                       AList.update missing_root (hdr_parent_root header) (sv_pending_block_parents sv)\<rparr>)
                 (hdr_parent_root header))"

definition process_or_pend_block ::
  "hashing \<Rightarrow> ('pk, 'sig, 'sk) crypto \<Rightarrow> (H256 list \<Rightarrow> H256 list) \<Rightarrow> 'sk server \<Rightarrow>
   signed_block_with_attestation \<Rightarrow> ('sk server \<times> signed_block_with_attestation list, store_error) result option"
where
  "process_or_pend_block H C iter sv signed_block =
     (let b = bwa_block (sb_message signed_block);
          block_root = h_block H b;
          parent_root = blk_parent_root b
      in if \<not> has_state (sv_store sv) parent_root
         then Option.bind (resolve_missing (sv_pending_block_parents sv) parent_root) (\<lambda>missing_root.
                walk_up_db H
                  (sv\<lparr>sv_pending_block_parents :=
                        AList.update block_root missing_root (sv_pending_block_parents sv),
                      sv_store := insert_pending_block H block_root signed_block (sv_store sv),
                      sv_pending_blocks := pending_insert parent_root block_root (sv_pending_blocks sv)\<rparr>)
                  missing_root)
         else Option.bind (server_process_block H C sv signed_block) (\<lambda>(sv1, r).
                case r of
                  Ok _ \<Rightarrow> Some (Ok (collect_pending_children H iter block_root sv1))
                | Err _ \<Rightarrow> Some (Ok (sv1, []))
                | Panic \<Rightarrow> Some Panic))"

partial_function (option) cascade ::
  "hashing \<Rightarrow> ('pk, 'sig, 'sk) crypto \<Rightarrow> (H256 list \<Rightarrow> H256 list) \<Rightarrow> 'sk server \<Rightarrow>
   signed_block_with_attestation list \<Rightarrow> 'sk server_run" where
  [code]: "cascade H C iter sv queue =
     (case queue of
        [] \<Rightarrow> Some (Ok sv)
      | block # rest \<Rightarrow>
          Option.bind (process_or_pend_block H C iter sv block) (\<lambda>r.
            case r of
              Ok (sv', enqueued) \<Rightarrow> cascade H C iter sv' (rest @ enqueued)
            | Err e \<Rightarrow> Some (Err e)
            | Panic \<Rightarrow> Some Panic))"

definition server_on_block ::
  "hashing \<Rightarrow> ('pk, 'sig, 'sk) crypto \<Rightarrow> (H256 list \<Rightarrow> H256 list) \<Rightarrow>
   ((H256 \<times> u64) list \<Rightarrow> (H256 \<times> u64) list) \<Rightarrow> 'sk server \<Rightarrow> signed_block_with_attestation \<Rightarrow> 'sk server_run"
where
  "server_on_block H C iter sort_desc sv signed_block =
     bind_run (cascade H C iter sv [signed_block])
       (\<lambda>sv'. Some (Ok (sv'\<lparr>sv_store := prune_old_data sort_desc (sv_store sv')\<rparr>)))"

section \<open>Duties\<close>

definition get_our_proposer :: "'sk server \<Rightarrow> u64 \<Rightarrow> (u64 option, store_error) result" where
  "get_our_proposer sv slot =
     bind_res (head_state (sv_store sv)) (\<lambda>st.
       Ok (find (\<lambda>vid. is_proposer vid slot (word_of_nat (length (st_validators st))))
             (validator_ids (sv_key_manager sv))))"

definition attest_as ::
  "hashing \<Rightarrow> ('pk, 'sig, 'sk) crypto \<Rightarrow> u64 \<Rightarrow> u64 \<Rightarrow> attestation_data \<Rightarrow> u64 \<Rightarrow> 'sk server \<Rightarrow> 'sk server" where
  "attest_as H C slot num_validators data validator_id sv =
     (if is_proposer validator_id slot num_validators then sv
      else case sign_attestation H C (sv_key_manager sv) validator_id data of
             Ok signature \<Rightarrow>
               send (PublishAttestation
                 \<lparr>sa_validator_id = validator_id, sa_data = data, sa_signature = signature\<rparr>) sv
           | _ \<Rightarrow> sv)"

definition produce_attestations ::
  "hashing \<Rightarrow> ('pk, 'sig, 'sk) crypto \<Rightarrow> 'sk server \<Rightarrow> u64 \<Rightarrow> 'sk server_run" where
  "produce_attestations H C sv slot =
     bind_run (Some (head_state (sv_store sv))) (\<lambda>st.
     bind_run (produce_attestation_data (sv_store sv) slot) (\<lambda>data.
       Some (Ok (fold (attest_as H C slot (word_of_nat (length (st_validators st))) data)
                   (validator_ids (sv_key_manager sv)) sv))))"

text \<open>The signed block around a built block, with the proposer's attestation to it.\<close>

definition proposal_attestation ::
  "hashing \<Rightarrow> store \<Rightarrow> u64 \<Rightarrow> u64 \<Rightarrow> block \<Rightarrow> checkpoint \<Rightarrow> attestation" where
  "proposal_attestation H s slot validator_id b target =
     \<lparr>att_validator_id = validator_id,
      att_data = \<lparr>ad_slot = slot, ad_head = \<lparr>cp_root = h_block H b, cp_slot = blk_slot b\<rparr>,
                  ad_target = target, ad_source = s_latest_justified s\<rparr>\<rparr>"

definition propose_block ::
  "hashing \<Rightarrow> ('pk, 'sig, 'sk) crypto \<Rightarrow> 'sk server \<Rightarrow> u64 \<Rightarrow> u64 \<Rightarrow> 'sk server_run" where
  "propose_block H C sv slot validator_id =
     Option.bind (produce_block_with_signatures H C (sv_store sv) slot validator_id) (\<lambda>(s1, r).
       case r of
         Err _ \<Rightarrow> Some (Ok (sv\<lparr>sv_store := s1\<rparr>))
       | Panic \<Rightarrow> Some Panic
       | Ok (b, attestation_signatures) \<Rightarrow>
           bind_run (get_attestation_target s1) (\<lambda>target.
             (let pa = proposal_attestation H s1 slot validator_id b target
              in case sign_attestation H C (sv_key_manager sv) validator_id (att_data pa) of
                   Err _ \<Rightarrow> Some (Ok (sv\<lparr>sv_store := s1\<rparr>))
                 | Panic \<Rightarrow> Some Panic
                 | Ok proposer_signature \<Rightarrow>
                     if length attestation_signatures > VALIDATOR_REGISTRY_LIMIT then Some Panic
                     else
                       (let signed_block =
                              \<lparr>sb_message = \<lparr>bwa_block = b, bwa_proposer_attestation = pa\<rparr>,
                               sb_signature = \<lparr>bs_attestation_signatures = attestation_signatures,
                                               bs_proposer_signature = proposer_signature\<rparr>\<rparr>
                        in Option.bind (server_process_block H C (sv\<lparr>sv_store := s1\<rparr>) signed_block)
                             (\<lambda>(sv2, r2). case r2 of
                                Err _ \<Rightarrow> Some (Ok sv2)
                              | Panic \<Rightarrow> Some Panic
                              | Ok _ \<Rightarrow> Some (Ok (send (PublishBlock signed_block) sv2)))))))"

section \<open>Ticks\<close>

definition tick_slot :: "'sk server \<Rightarrow> u64 \<Rightarrow> u64" where
  "tick_slot sv timestamp_ms =
     saturating_sub timestamp_ms (cc_genesis_time (s_config (sv_store sv)) * 1000) div MILLISECONDS_PER_SLOT"

definition tick_slot_interval :: "'sk server \<Rightarrow> u64 \<Rightarrow> u64" where
  "tick_slot_interval sv timestamp_ms =
     (saturating_sub timestamp_ms (cc_genesis_time (s_config (sv_store sv)) * 1000) mod MILLISECONDS_PER_SLOT)
        div MILLISECONDS_PER_INTERVAL"

definition server_on_tick ::
  "hashing \<Rightarrow> ('pk, 'sig, 'sk) crypto \<Rightarrow> 'sk server \<Rightarrow> u64 \<Rightarrow> 'sk server_run" where
  "server_on_tick H C sv timestamp_ms =
     (let slot = tick_slot sv timestamp_ms; interval = tick_slot_interval sv timestamp_ms
      in bind_run (Some (head_state (sv_store sv))) (\<lambda>st.
         if st_validators st = [] then Some (Ok sv)
         else
           bind_run (Some (if interval = 0 \<and> slot > 0 then get_our_proposer sv slot else Ok None)) (\<lambda>proposer.
           bind_run (on_tick C (sv_store sv) timestamp_ms (proposer \<noteq> None) (sv_is_aggregator sv))
             (\<lambda>(s1, new_aggregates).
               (let sv1 = fold (\<lambda>aggregate. send (PublishAggregatedAttestation aggregate)) new_aggregates
                            (sv\<lparr>sv_store := s1\<rparr>)
                in bind_run (case proposer of None \<Rightarrow> Some (Ok sv1)
                                            | Some validator_id \<Rightarrow> propose_block H C sv1 slot validator_id) (\<lambda>sv2.
                   bind_run (if interval = 1 then produce_attestations H C sv2 slot else Some (Ok sv2)) (\<lambda>sv3.
                   bind_run (Some (safe_target_slot (sv_store sv3))) (\<lambda>_.
                   bind_run (Some (head_slot (sv_store sv3))) (\<lambda>_. Some (Ok sv3))))))))))"

definition ms_to_next_interval :: "u64 \<Rightarrow> u64" where
  "ms_to_next_interval ms_since_epoch =
     MILLISECONDS_PER_INTERVAL - (ms_since_epoch mod MILLISECONDS_PER_INTERVAL)"

section \<open>Handlers\<close>

definition server_on_gossip_attestation ::
  "hashing \<Rightarrow> ('pk, 'sig, 'sk) crypto \<Rightarrow> 'sk server \<Rightarrow> signed_attestation \<Rightarrow> 'sk server_run" where
  "server_on_gossip_attestation H C sv sa =
     (if \<not> sv_is_aggregator sv then Some (Ok sv)
      else case on_gossip_attestation H C (sv_store sv) sa (validator_ids (sv_key_manager sv)) of
             (s, r) \<Rightarrow> Some (if r = Panic then Panic else Ok (sv\<lparr>sv_store := s\<rparr>)))"

definition server_on_gossip_aggregated_attestation ::
  "hashing \<Rightarrow> ('pk, 'sig, 'sk) crypto \<Rightarrow> 'sk server \<Rightarrow> signed_aggregated_attestation \<Rightarrow> 'sk server_run" where
  "server_on_gossip_aggregated_attestation H C sv aggregated =
     (case on_gossip_aggregated_attestation H C (sv_store sv) aggregated of
        (s, r) \<Rightarrow> Some (if r = Panic then Panic else Ok (sv\<lparr>sv_store := s\<rparr>)))"

text \<open>A tick carries the time the handler reads from the clock.\<close>

datatype server_message = Tick u64 | InitP2P | NewBlock signed_block_with_attestation
  | NewAttestation signed_attestation | NewAggregatedAttestation signed_aggregated_attestation

fun handle ::
  "hashing \<Rightarrow> ('pk, 'sig, 'sk) crypto \<Rightarrow> (H256 list \<Rightarrow> H256 list) \<Rightarrow>
   ((H256 \<times> u64) list \<Rightarrow> (H256 \<times> u64) list) \<Rightarrow> server_message \<Rightarrow> 'sk server \<Rightarrow> 'sk server_run" where
  "handle H C iter sort_desc (Tick timestamp) sv = server_on_tick H C sv timestamp"
| "handle H C iter sort_desc InitP2P sv = Some (Ok (sv\<lparr>sv_p2p := Some []\<rparr>))"
| "handle H C iter sort_desc (NewBlock block) sv = server_on_block H C iter sort_desc sv block"
| "handle H C iter sort_desc (NewAttestation sa) sv = server_on_gossip_attestation H C sv sa"
| "handle H C iter sort_desc (NewAggregatedAttestation agg) sv =
     server_on_gossip_aggregated_attestation H C sv agg"

end
