(* ===== verification/Server_Invariant.thy ===== *)
theory Server_Invariant
  imports Seen_Blocks Chain_Server "HOL-Library.Multiset"
begin

text \<open>
  The bookkeeping of pending blocks of the server. Every pending child hangs below its parent among
  the blocks seen and cached ancestors are ancestors (\<open>pending_ok\<close>), so the walks over cached and
  stored ancestors return, the block the code expects to be stored is stored, and the cascade of a
  new block returns: after the first block, which may be set aside, every block of the queue has a
  parent whose state is known, and each step takes one block out of the queue and the pending sets.
  Ticks return as well, with or without a proposal of the node; a block the node builds itself is
  assumed to be new (\<open>fresh_block\<close>).
\<close>

section \<open>The invariant\<close>

definition pending_ok :: "seen_blocks \<Rightarrow> 'sk server \<Rightarrow> bool" where
  "pending_ok seen sv \<longleftrightarrow>
     (\<forall>p roots. map_of (sv_pending_blocks sv) p = Some roots \<longrightarrow>
        roots \<noteq> [] \<and> set roots \<subseteq> {r. (r, p) \<in> parent_edges seen}) \<and>
     (\<forall>r m. map_of (sv_pending_block_parents sv) r = Some m \<longrightarrow> (r, m) \<in> (parent_edges seen)\<^sup>+) \<and>
     distinct (map fst (sv_pending_blocks sv)) \<and> distinct (map fst (sv_pending_block_parents sv))"

definition server_ok :: "hashing \<Rightarrow> H256 \<Rightarrow> seen_blocks \<Rightarrow> 'sk server \<Rightarrow> bool" where
  "server_ok H anchor seen sv \<longleftrightarrow> seen_ok H anchor seen (sv_store sv) \<and> pending_ok seen sv"

text \<open>No block waits for a parent whose state is known.\<close>

definition waiting_ok :: "'sk server \<Rightarrow> bool" where
  "waiting_ok sv \<longleftrightarrow> (\<forall>p. map_of (sv_pending_blocks sv) p \<noteq> None \<longrightarrow> \<not> has_state (sv_store sv) p)"

lemma server_okD: "server_ok H anchor seen sv \<Longrightarrow> seen_ok H anchor seen (sv_store sv)"
  "server_ok H anchor seen sv \<Longrightarrow> pending_ok seen sv"
  by (simp_all add: server_ok_def)

lemma server_ok_mono:
  assumes "server_ok H anchor seen sv" and "seen \<subseteq>\<^sub>m seen'" and "acyclic (parent_edges seen')"
  shows "server_ok H anchor seen' sv"
proof -
  note e = parent_edges_mono [OF assms(2)]
  have "(parent_edges seen)\<^sup>+ \<subseteq> (parent_edges seen')\<^sup>+" using e by (auto intro: trancl_mono)
  with e have "pending_ok seen' sv" using server_okD(2) [OF assms(1)] unfolding pending_ok_def by blast
  with seen_ok_mono [OF server_okD(1) [OF assms(1)] assms(2,3)] show ?thesis by (simp add: server_ok_def)
qed

section \<open>Association lists of pending blocks\<close>

lemma map_of_pending_insert:
  "map_of (pending_insert p r pending) q =
     (if q = p then Some (case map_of pending p of None \<Rightarrow> [r] | Some roots \<Rightarrow> if r \<in> set roots then roots else roots @ [r])
      else map_of pending q)"
  by (simp add: pending_insert_def)

lemma distinct_pending_insert [simp]:
  "distinct (map fst pending) \<Longrightarrow> distinct (map fst (pending_insert p r pending))"
  by (simp add: pending_insert_def distinct_update)

lemma pending_ok_insert:
  assumes "pending_ok seen sv" and "(r, p) \<in> parent_edges seen" and "(r, m) \<in> (parent_edges seen)\<^sup>+"
  shows "pending_ok seen (sv\<lparr>sv_pending_blocks := pending_insert p r (sv_pending_blocks sv),
    sv_pending_block_parents := AList.update r m (sv_pending_block_parents sv)\<rparr>)"
  using assms
  by (auto simp: pending_ok_def map_of_pending_insert distinct_update split: option.splits if_splits)

section \<open>Walks\<close>

lemma resolve_missing_run:
  assumes ac: "acyclic (parent_edges seen)"
    and up: "\<And>r m. map_of parents r = Some m \<Longrightarrow> (r, m) \<in> (parent_edges seen)\<^sup>+"
  shows "\<exists>m. resolve_missing parents r = Some m \<and> map_of parents m = None \<and> (r, m) \<in> (parent_edges seen)\<^sup>*"
  using wf_ancestors(2) [OF ac]
proof (induction r rule: wf_induct_rule)
  case (less r)
  show ?case
  proof (cases "map_of parents r")
    case None
    then show ?thesis by (subst resolve_missing.simps) simp
  next
    case (Some a)
    note e = up [OF Some]
    from less.IH [of a] e obtain m where
      m: "resolve_missing parents a = Some m" "map_of parents m = None" "(a, m) \<in> (parent_edges seen)\<^sup>*" by auto
    with Some show ?thesis
      by (subst resolve_missing.simps) (simp add: trancl_rtrancl_trancl [OF e] trancl_into_rtrancl)
  qed
qed

lemma send_fields [simp]:
  "sv_store (send x sv) = sv_store sv" "sv_pending_blocks (send x sv) = sv_pending_blocks sv"
  "sv_pending_block_parents (send x sv) = sv_pending_block_parents sv"
  "sv_key_manager (send x sv) = sv_key_manager sv" "sv_is_aggregator (send x sv) = sv_is_aggregator sv"
  "sv_p2p (send x sv) = map_option (\<lambda>sent. sent @ [x]) (sv_p2p sv)"
  by (simp_all add: send_def split: option.splits)

text \<open>
  The walk up ends at a stored block whose parent's state is known, which is then enqueued, or at a
  block that is not stored, which is then requested. No stored block misses its parts.
\<close>

definition walk_result :: "hashing \<Rightarrow> seen_blocks \<Rightarrow> 'sk server \<Rightarrow> H256 \<Rightarrow> 'sk server \<Rightarrow>
    signed_block_with_attestation list \<Rightarrow> bool" where
  "walk_result H seen sv r sv' queue \<longleftrightarrow> sv_store sv' = sv_store sv \<and> sv_key_manager sv' = sv_key_manager sv \<and>
     (\<exists>m. (r, m) \<in> (parent_edges seen)\<^sup>* \<and>
       (get_block_header (sv_store sv) m = None \<and> queue = [] \<and>
          sv_p2p sv' = map_option (\<lambda>sent. sent @ [FetchBlock m]) (sv_p2p sv) \<or>
        (\<exists>sb. queue = [sb] \<and> get_signed_block H (sv_store sv) m = Some sb \<and> sv_p2p sv' = sv_p2p sv \<and>
          has_state (sv_store sv) (blk_parent_root (bwa_block (sb_message sb))))))"

lemma get_signed_block_header:
  assumes "get_signed_block H s r = Some sb"
  shows "\<exists>h. get_block_header s r = Some h \<and> blk_slot (bwa_block (sb_message sb)) = hdr_slot h \<and>
    blk_parent_root (bwa_block (sb_message sb)) = hdr_parent_root h"
  using assms by (auto simp: get_signed_block_def get_block_header_def to_signed_block_def
      from_header_and_body_def bind_eq_Some_conv)

lemma walk_up_db_run:
  assumes ok: "server_ok H anchor seen sv" and wait: "waiting_ok sv"
  shows "\<exists>sv' queue. walk_up_db H sv r = Some (Ok (sv', queue)) \<and> server_ok H anchor seen sv' \<and>
    waiting_ok sv' \<and> walk_result H seen sv r sv' queue"
  using wf_ancestors(1) [OF seen_okD(2) [OF server_okD(1) [OF ok]]] ok wait
proof (induction r arbitrary: sv rule: wf_induct_rule)
  case (less r)
  note s = server_okD(1) [OF less.prems(1)]
  show ?case
  proof (cases "get_block_header (sv_store sv) r")
    case None
    then show ?thesis
      using less.prems by (subst walk_up_db.simps)
        (auto simp: request_missing_block_def walk_result_def server_ok_def pending_ok_def waiting_ok_def)
  next
    case (Some h)
    let ?p = "hdr_parent_root h"
    have e: "(r, ?p) \<in> parent_edges seen" using seen_okD(3) [OF s Some] by (simp add: parent_edges_iff)
    show ?thesis
    proof (cases "has_state (sv_store sv) ?p")
      case True
      then have "get_state (sv_store sv) ?p \<noteq> None" by (simp add: has_state_def get_state_def)
      from state_not_anchor_parent [OF s this e] seen_okD(4) [OF s Some] obtain sb where
        sb: "get_signed_block H (sv_store sv) r = Some sb" by blast
      from get_signed_block_header [OF this] Some True have
        "has_state (sv_store sv) (blk_parent_root (bwa_block (sb_message sb)))" by auto
      with sb Some True less.prems show ?thesis
        by (subst walk_up_db.simps) (auto simp: walk_result_def)
    next
      case False
      let ?sv = "sv\<lparr>sv_pending_blocks := pending_insert ?p r (sv_pending_blocks sv),
        sv_pending_block_parents := AList.update r ?p (sv_pending_block_parents sv)\<rparr>"
      have ok: "server_ok H anchor seen ?sv"
        using less.prems(1) pending_ok_insert [OF server_okD(2) [OF less.prems(1)] e r_into_trancl [OF e]]
        by (simp add: server_ok_def)
      have wait: "waiting_ok ?sv"
        using less.prems(2) False by (simp add: waiting_ok_def map_of_pending_insert)
      from less.IH [OF _ ok wait, of ?p] e obtain sv' queue where
        w: "walk_up_db H ?sv ?p = Some (Ok (sv', queue))" "server_ok H anchor seen sv'" "waiting_ok sv'"
          "walk_result H seen ?sv ?p sv' queue" by auto
      have "walk_result H seen sv r sv' queue"
        using w(4) converse_rtrancl_into_rtrancl [OF e] unfolding walk_result_def by auto
      with w Some False show ?thesis by (subst walk_up_db.simps) simp
    qed
  qed
qed

section \<open>The cascade\<close>

text \<open>Visiting a hash set meets every element once, in some order.\<close>

definition visits_all :: "(H256 list \<Rightarrow> H256 list) \<Rightarrow> bool" where
  "visits_all iter \<longleftrightarrow> (\<forall>xs. mset (iter xs) = mset xs)"

definition pending_count :: "'sk server \<Rightarrow> nat" where
  "pending_count sv = sum_list (map (\<lambda>(_, roots). length roots) (sv_pending_blocks sv))"

text \<open>A block that can be processed at once: it was seen and its parent's state is known.\<close>

definition ready :: "hashing \<Rightarrow> seen_blocks \<Rightarrow> store \<Rightarrow> signed_block_with_attestation \<Rightarrow> bool" where
  "ready H seen s sb \<longleftrightarrow> (let b = bwa_block (sb_message sb)
     in has_state s (blk_parent_root b) \<and> seen (h_block H b) = Some (blk_slot b, blk_parent_root b))"

lemma stored_ready:
  assumes "seen_ok H anchor seen s" and "get_signed_block H s r = Some sb"
    and "has_state s (blk_parent_root (bwa_block (sb_message sb)))"
  shows "ready H seen s sb"
  using get_signed_block_header [OF assms(2)] seen_okD(3) [OF assms(1)] seen_okD(5) [OF assms(1,2)] assms(3)
  by (auto simp: ready_def Let_def)

lemma sum_list_delete:
  assumes "distinct (map fst al)" and "map_of al k = Some v"
  shows "sum_list (map f (AList.delete k al)) + f (k, v) = (sum_list (map f al) :: nat)"
  using assms
proof (induction al)
  case Nil
  then show ?case by simp
next
  case (Cons e al)
  obtain k' v' where e: "e = (k', v')" by (cases e)
  show ?case
  proof (cases "k' = k")
    case True
    with Cons.prems(1) e have "k \<notin> fst ` set al" by auto
    with True Cons.prems(2) e show ?thesis by simp
  next
    case False
    with Cons e show ?thesis by simp
  qed
qed

lemma map_of_fold_AList_delete:
  "map_of (fold AList.delete ks al) r = (if r \<in> set ks then None else map_of al r)"
  by (induction ks arbitrary: al) (auto simp: delete_conv)

lemma distinct_fold_delete:
  "distinct (map fst al) \<Longrightarrow> distinct (map fst (fold AList.delete ks al))"
  by (induction ks arbitrary: al) (auto simp: distinct_delete)

lemma collect_pending_children_run:
  assumes ok: "server_ok H anchor seen sv" and it: "visits_all iter" and p: "has_state (sv_store sv) p"
    and run: "collect_pending_children H iter p sv = (sv', queue)"
  shows "server_ok H anchor seen sv' \<and> (\<forall>sb \<in> set queue. ready H seen (sv_store sv) sb) \<and>
    pending_count sv' + length queue \<le> pending_count sv \<and>
    map_of (sv_pending_blocks sv') = (map_of (sv_pending_blocks sv))(p := None) \<and>
    sv_store sv' = sv_store sv \<and> sv_p2p sv' = sv_p2p sv \<and> sv_key_manager sv' = sv_key_manager sv"
proof (cases "map_of (sv_pending_blocks sv) p")
  case None
  with ok run show ?thesis by (auto simp: collect_pending_children_def)
next
  case (Some roots)
  note s = server_okD(1) [OF ok]
  note po = server_okD(2) [OF ok, unfolded pending_ok_def]
  have set_it: "set (iter roots) = set roots" and len_it: "length (iter roots) = length roots"
    using it by (auto simp: visits_all_def dest: mset_eq_setD mset_eq_length)
  from run Some have sv': "sv' = sv\<lparr>sv_pending_blocks := AList.delete p (sv_pending_blocks sv),
      sv_pending_block_parents := fold AList.delete (iter roots) (sv_pending_block_parents sv)\<rparr>"
    and q: "queue = List.map_filter (get_signed_block H (sv_store sv)) (iter roots)"
    by (auto simp: collect_pending_children_def)
  have "server_ok H anchor seen sv'"
    using ok unfolding sv' server_ok_def pending_ok_def
    by (auto simp: map_of_fold_AList_delete distinct_fold_delete distinct_delete delete_conv split: if_splits)
  moreover have "ready H seen (sv_store sv) sb" if "sb \<in> set queue" for sb
  proof -
    from that obtain c where c: "c \<in> set roots" "get_signed_block H (sv_store sv) c = Some sb"
      unfolding q set_map_filter_Some set_it by blast
    from po Some c(1) have "(c, p) \<in> parent_edges seen" by blast
    moreover from get_signed_block_header [OF c(2)] obtain h where
      h: "get_block_header (sv_store sv) c = Some h" "blk_parent_root (bwa_block (sb_message sb)) = hdr_parent_root h"
      by blast
    ultimately have "blk_parent_root (bwa_block (sb_message sb)) = p"
      using seen_okD(3) [OF s h(1)] by (simp add: parent_edges_iff)
    with stored_ready [OF s c(2)] p show ?thesis by simp
  qed
  moreover have "pending_count sv' + length queue \<le> pending_count sv"
    using sum_list_delete [of "sv_pending_blocks sv" p roots "\<lambda>(_, roots). length roots"] po Some
      length_map_filter [of "get_signed_block H (sv_store sv)" "iter roots"] len_it
    by (simp add: pending_count_def sv' q)
  ultimately show ?thesis by (simp add: sv' delete_conv')
qed

text \<open>One step of the cascade on a block that is ready.\<close>

definition cascade_frame :: "'sk server \<Rightarrow> 'sk server \<Rightarrow> bool" where
  "cascade_frame sv sv' \<longleftrightarrow> (\<forall>x. has_state (sv_store sv) x \<longrightarrow> has_state (sv_store sv') x) \<and>
     sv_p2p sv' = sv_p2p sv \<and> sv_key_manager sv' = sv_key_manager sv \<and> (waiting_ok sv \<longrightarrow> waiting_ok sv')"

lemma cascade_frame_refl: "cascade_frame sv sv"
  by (simp add: cascade_frame_def)

lemma cascade_frame_trans: "cascade_frame sv sv' \<Longrightarrow> cascade_frame sv' sv'' \<Longrightarrow> cascade_frame sv sv''"
  by (simp add: cascade_frame_def)

lemma process_ready:
  fixes C :: "('pk, 'sig, 'sk) crypto" and sv :: "'sk server"
  assumes ok: "server_ok H anchor seen sv" and H: "ssz_roots H" and it: "visits_all iter"
    and rd: "ready H seen (sv_store sv) sb"
  shows "\<exists>r. process_or_pend_block H C iter sv sb = Some r \<and> (r = Panic \<or>
    (\<exists>sv' queue. r = Ok (sv', queue) \<and> server_ok H anchor seen sv' \<and> cascade_frame sv sv' \<and>
      (\<forall>x \<in> set queue. ready H seen (sv_store sv') x) \<and> pending_count sv' + length queue \<le> pending_count sv))"
proof -
  let ?b = "bwa_block (sb_message sb)"
  note s = server_okD(1) [OF ok]
  from rd have hp: "has_state (sv_store sv) (blk_parent_root ?b)"
    and b: "seen (h_block H ?b) = Some (blk_slot ?b, blk_parent_root ?b)" by (simp_all add: ready_def Let_def)
  from seen_on_block [OF s H b, of C "validator_ids (sv_key_manager sv)"] obtain s' r where
    r: "on_block H C (sv_store sv) sb (validator_ids (sv_key_manager sv)) = Some (s', r)" "seen_ok H anchor seen s'"
      "r \<noteq> Ok () \<Longrightarrow> s' = sv_store sv" "r = Ok () \<Longrightarrow> has_state s' (h_block H ?b)"
      "\<And>x. x \<noteq> h_block H ?b \<Longrightarrow> get_state s' x = get_state (sv_store sv) x"
      "\<And>x. has_state (sv_store sv) x \<Longrightarrow> has_state s' x" by blast
  let ?sv = "sv\<lparr>sv_store := s'\<rparr>"
  have ok': "server_ok H anchor seen ?sv" using ok r(2) by (simp add: server_ok_def pending_ok_def)
  have proc: "server_process_block H C sv sb =
      Some (?sv, bind_res r (\<lambda>_. bind_res (head_slot s') (\<lambda>_. Ok ())))" using r(1) by (simp add: server_process_block_def)
  show ?thesis
  proof (cases "bind_res r (\<lambda>_. bind_res (head_slot s') (\<lambda>_. Ok ()))")
    case (Ok u)
    then have "r = Ok ()" by (auto simp: outcome_simps)
    note st = r(4) [OF this]
    obtain sv' queue where c: "collect_pending_children H iter (h_block H ?b) ?sv = (sv', queue)"
      by (meson surj_pair)
    note cr = collect_pending_children_run [OF ok' it _ c]
    have "\<not> has_state s' x" if "waiting_ok sv" "map_of (sv_pending_blocks sv') x \<noteq> None" for x
      using that cr st r(5) [of x]
      by (cases "x = h_block H ?b") (auto simp: waiting_ok_def has_state_def get_state_def)
    with cr st r(6) have "cascade_frame sv sv'" by (simp add: cascade_frame_def waiting_ok_def)
    moreover have "pending_count ?sv = pending_count sv" by (simp add: pending_count_def)
    ultimately show ?thesis using hp Ok c cr st
      by (simp add: process_or_pend_block_def Let_def proc)
  next
    case (Err e)
    then have "r \<noteq> Ok ()" by (cases r) (auto simp: outcome_simps head_slot_def)
    with r(3) have "?sv = sv" by simp
    with hp Err proc ok show ?thesis
      by (simp add: process_or_pend_block_def Let_def cascade_frame_refl)
  next
    case Panic
    with hp proc show ?thesis by (simp add: process_or_pend_block_def Let_def)
  qed
qed

lemma ready_frame: "cascade_frame sv sv' \<Longrightarrow> ready H seen (sv_store sv) sb \<Longrightarrow> ready H seen (sv_store sv') sb"
  by (auto simp: cascade_frame_def ready_def Let_def)

lemma cascade_ready:
  fixes C :: "('pk, 'sig, 'sk) crypto" and sv :: "'sk server"
  assumes H: "ssz_roots H" and it: "visits_all iter"
    and "server_ok H anchor seen sv" and "\<forall>sb \<in> set queue. ready H seen (sv_store sv) sb"
  shows "\<exists>r. cascade H C iter sv queue = Some r \<and>
    (r = Panic \<or> (\<exists>sv'. r = Ok sv' \<and> server_ok H anchor seen sv' \<and> cascade_frame sv sv'))"
  using assms(3,4)
proof (induction "pending_count sv + length queue" arbitrary: sv queue rule: less_induct)
  case less
  show ?case
  proof (cases queue)
    case Nil
    with less.prems(1) show ?thesis by (subst cascade.simps) (simp add: cascade_frame_refl)
  next
    case (Cons sb rest)
    with less.prems(2) have "ready H seen (sv_store sv) sb" by simp
    from process_ready [OF less.prems(1) H it this, of C] obtain r where
      r: "process_or_pend_block H C iter sv sb = Some r" "r = Panic \<or>
        (\<exists>sv1 added. r = Ok (sv1, added) \<and> server_ok H anchor seen sv1 \<and> cascade_frame sv sv1 \<and>
          (\<forall>x \<in> set added. ready H seen (sv_store sv1) x) \<and> pending_count sv1 + length added \<le> pending_count sv)"
      by blast
    from r(2) show ?thesis
    proof (elim disjE exE conjE)
      assume "r = Panic"
      with r(1) Cons show ?thesis by (subst cascade.simps) simp
    next
      fix sv1 added
      assume c: "r = Ok (sv1, added)" "server_ok H anchor seen sv1" "cascade_frame sv sv1"
        "\<forall>x \<in> set added. ready H seen (sv_store sv1) x" "pending_count sv1 + length added \<le> pending_count sv"
      have "pending_count sv1 + length (rest @ added) < pending_count sv + length queue" using c(5) Cons by simp
      moreover have "\<forall>x \<in> set (rest @ added). ready H seen (sv_store sv1) x"
        using less.prems(2) Cons c(4) ready_frame [OF c(3)] by auto
      ultimately show ?thesis using less.hyps [OF _ c(2)] r(1) c(1) Cons cascade_frame_trans [OF c(3)]
        by (subst cascade.simps) fastforce
    qed
  qed
qed

section \<open>A new block\<close>

lemma pend_block_run:
  fixes C :: "('pk, 'sig, 'sk) crypto" and sv :: "'sk server" and sb :: signed_block_with_attestation
  defines "b \<equiv> bwa_block (sb_message sb)"
  assumes ok: "server_ok H anchor seen sv" and wait: "waiting_ok sv" and H: "ssz_roots H"
    and b: "seen (h_block H b) = Some (blk_slot b, blk_parent_root b)"
    and np: "\<not> has_state (sv_store sv) (blk_parent_root b)"
  shows "\<exists>sv' queue m. process_or_pend_block H C iter sv sb = Some (Ok (sv', queue)) \<and>
    server_ok H anchor seen sv' \<and> waiting_ok sv' \<and> (h_block H b, m) \<in> (parent_edges seen)\<^sup>+ \<and>
    get_signed_block H (sv_store sv') (h_block H b) \<noteq> None \<and>
    get_state (sv_store sv') = get_state (sv_store sv) \<and> sv_key_manager sv' = sv_key_manager sv \<and>
    (get_block_header (sv_store sv') m = None \<and> queue = [] \<and>
       sv_p2p sv' = map_option (\<lambda>sent. sent @ [FetchBlock m]) (sv_p2p sv) \<or>
     (\<exists>x. queue = [x] \<and> get_signed_block H (sv_store sv') m = Some x \<and> sv_p2p sv' = sv_p2p sv \<and>
       ready H seen (sv_store sv') x))"
proof -
  note s = server_okD(1) [OF ok]
  note po = server_okD(2) [OF ok]
  have e: "(h_block H b, blk_parent_root b) \<in> parent_edges seen" using b by (simp add: parent_edges_iff)
  from resolve_missing_run [OF seen_okD(2) [OF s], of "sv_pending_block_parents sv" "blk_parent_root b"] po
  obtain m0 where m0: "resolve_missing (sv_pending_block_parents sv) (blk_parent_root b) = Some m0"
    "(blk_parent_root b, m0) \<in> (parent_edges seen)\<^sup>*" by (auto simp: pending_ok_def)
  from e m0(2) have up: "(h_block H b, m0) \<in> (parent_edges seen)\<^sup>+" by (rule rtrancl_into_trancl2)
  let ?s1 = "insert_pending_block H (h_block H b) sb (sv_store sv)"
  let ?sv1 = "sv\<lparr>sv_pending_block_parents := AList.update (h_block H b) m0 (sv_pending_block_parents sv),
    sv_store := ?s1, sv_pending_blocks := pending_insert (blk_parent_root b) (h_block H b) (sv_pending_blocks sv)\<rparr>"
  have st: "get_state ?s1 = get_state (sv_store sv)"
    by (simp add: insert_pending_block_def get_state_def fun_eq_iff)
  have ok1: "server_ok H anchor seen ?sv1"
    using seen_ok_pending [OF s H b [unfolded b_def], folded b_def] pending_ok_insert [OF po e up]
    by (simp add: server_ok_def pending_ok_def)
  have wait1: "waiting_ok ?sv1"
    using wait np st by (auto simp: waiting_ok_def map_of_pending_insert has_state_def get_state_def fun_eq_iff)
  from walk_up_db_run [OF ok1 wait1, of m0] obtain sv' queue where
    w: "walk_up_db H ?sv1 m0 = Some (Ok (sv', queue))" "server_ok H anchor seen sv'" "waiting_ok sv'"
      "walk_result H seen ?sv1 m0 sv' queue" by blast
  have run: "process_or_pend_block H C iter sv sb = Some (Ok (sv', queue))"
    using np m0(1) w(1) by (simp add: process_or_pend_block_def Let_def b_def)
  have kept: "sv_store sv' = ?s1" "sv_key_manager sv' = sv_key_manager sv" using w(4) by (simp_all add: walk_result_def)
  have "get_signed_block H ?s1 (h_block H b) \<noteq> None"
    using get_written_block [of H "h_block H b" sb "sv_store sv"] by (auto simp: insert_pending_block_def)
  moreover from w(4) obtain m where m: "(m0, m) \<in> (parent_edges seen)\<^sup>*"
    "get_block_header ?s1 m = None \<and> queue = [] \<and>
       sv_p2p sv' = map_option (\<lambda>sent. sent @ [FetchBlock m]) (sv_p2p sv) \<or>
     (\<exists>x. queue = [x] \<and> get_signed_block H ?s1 m = Some x \<and> sv_p2p sv' = sv_p2p sv \<and>
       has_state ?s1 (blk_parent_root (bwa_block (sb_message x))))" by (auto simp: walk_result_def)
  have "ready H seen ?s1 x" if "get_signed_block H ?s1 m = Some x"
    "has_state ?s1 (blk_parent_root (bwa_block (sb_message x)))" for x
    using stored_ready [OF server_okD(1) [OF ok1]] that by simp
  moreover have "(h_block H b, m) \<in> (parent_edges seen)\<^sup>+" by (rule trancl_rtrancl_trancl [OF up m(1)])
  ultimately show ?thesis using run w(2,3) m(2) st
    by (intro exI [of _ sv'] exI [of _ queue] exI [of _ m]) (auto simp: kept)
qed

lemma waiting_ok_prune: "waiting_ok sv \<Longrightarrow> waiting_ok (sv\<lparr>sv_store := prune_old_data f (sv_store sv)\<rparr>)"
  using prune_old_data_fields [of f "sv_store sv"] by (auto simp: waiting_ok_def has_state_def split: if_splits)

lemma cascade_run:
  fixes C :: "('pk, 'sig, 'sk) crypto" and sv :: "'sk server"
  assumes H: "ssz_roots H" and it: "visits_all iter" and ok: "server_ok H anchor seen sv" and wait: "waiting_ok sv"
    and b: "seen (h_block H (bwa_block (sb_message sb))) =
      Some (blk_slot (bwa_block (sb_message sb)), blk_parent_root (bwa_block (sb_message sb)))"
  shows "\<exists>r. cascade H C iter sv [sb] = Some r \<and>
    (r = Panic \<or> (\<exists>sv'. r = Ok sv' \<and> server_ok H anchor seen sv' \<and> waiting_ok sv'))"
proof (cases "has_state (sv_store sv) (blk_parent_root (bwa_block (sb_message sb)))")
  case True
  with b have "\<forall>x \<in> set [sb]. ready H seen (sv_store sv) x" by (simp add: ready_def Let_def)
  from cascade_ready [OF H it ok this, of C] wait show ?thesis by (auto simp: cascade_frame_def)
next
  case False
  from pend_block_run [OF ok wait H b False, of C iter] obtain sv1 queue where
    p: "process_or_pend_block H C iter sv sb = Some (Ok (sv1, queue))" "server_ok H anchor seen sv1" "waiting_ok sv1"
      "\<forall>x \<in> set queue. ready H seen (sv_store sv1) x" by fastforce
  from cascade_ready [OF H it p(2,4), of C] p(1,3) show ?thesis
    by (subst cascade.simps) (auto simp: cascade_frame_def)
qed

lemma server_on_block_run:
  fixes C :: "('pk, 'sig, 'sk) crypto" and sv :: "'sk server" and sb :: signed_block_with_attestation
  defines "b \<equiv> bwa_block (sb_message sb)"
  assumes H: "ssz_roots H" and it: "visits_all iter" and ok: "server_ok H anchor seen sv" and wait: "waiting_ok sv"
    and nc: "no_collision H b seen"
  shows "\<exists>r. server_on_block H C iter f sv sb = Some r \<and>
    (r = Panic \<or> (\<exists>sv'. r = Ok sv' \<and> server_ok H anchor (see H b seen) sv' \<and> waiting_ok sv'))"
proof -
  have ok': "server_ok H anchor (see H b seen) sv"
    using server_ok_mono [OF ok] nc by (simp add: no_collision_def)
  from cascade_run [OF H it ok' wait, of sb C] obtain r where
    r: "cascade H C iter sv [sb] = Some r"
      "r = Panic \<or> (\<exists>sv'. r = Ok sv' \<and> server_ok H anchor (see H b seen) sv' \<and> waiting_ok sv')"
    by (auto simp: see_def b_def)
  from r(2) show ?thesis
  proof (elim disjE exE conjE)
    assume "r = Panic"
    with r(1) show ?thesis by (simp add: server_on_block_def)
  next
    fix sv1
    assume s: "r = Ok sv1" "server_ok H anchor (see H b seen) sv1" "waiting_ok sv1"
    have "server_ok H anchor (see H b seen) (sv1\<lparr>sv_store := prune_old_data f (sv_store sv1)\<rparr>)"
      using s(2) seen_ok_prune by (auto simp: server_ok_def pending_ok_def)
    with s r(1) waiting_ok_prune [OF s(3)] show ?thesis by (simp add: server_on_block_def)
  qed
qed

section \<open>Ticks without a proposal\<close>

lemma look_back_header:
  assumes "get_block_header s r = Some h" and "look_back n s sl r h = Ok (r', h')"
  shows "get_block_header s r' = Some h'"
  using assms by (induction n arbitrary: r h) (auto simp: outcome_simps split: if_splits)

lemma walk_to_justifiable_total:
  assumes "seen_ok H anchor seen s" and "get_block_header s r = Some h"
  shows "\<exists>x. walk_to_justifiable s f r h = Some x"
  using wf_ancestors(1) [OF seen_okD(2) [OF assms(1)]] assms(2)
proof (induction r arbitrary: h rule: wf_induct_rule)
  case (less r)
  have e: "(hdr_parent_root h, r) \<in> (parent_edges seen)\<inverse>"
    using seen_okD(3) [OF assms(1) less.prems] by (simp add: parent_edges_iff)
  show ?case
    by (subst walk_to_justifiable.simps) (auto split: option.split intro: less.IH [OF e])
qed

lemma get_attestation_target_total:
  assumes "seen_ok H anchor seen s"
  shows "\<exists>x. get_attestation_target s = Some x"
proof -
  have walk: "\<exists>x. bind_run (walk_to_justifiable s f r h) (\<lambda>(r', h'). Some (g r' h')) = Some x"
    if hd: "get_block_header s r = Some h" for f r h and g :: "H256 \<Rightarrow> block_header \<Rightarrow> (checkpoint, store_error) result"
  proof -
    obtain y where y: "walk_to_justifiable s f r h = Some y" using walk_to_justifiable_total [OF assms hd] by blast
    show ?thesis by (cases y) (simp_all add: y split_beta)
  qed
  show ?thesis
  proof (cases "get_block_header s (s_head s)")
    case None
    then show ?thesis by (simp add: get_attestation_target_def)
  next
    case (Some hh)
    show ?thesis
    proof (cases "safe_target_slot s :: (u64, store_error) result")
      case (Ok sl)
      show ?thesis
      proof (cases "look_back JUSTIFICATION_LOOKBACK_SLOTS s sl (s_head s) hh")
        case l: (Ok x)
        obtain r h where x: "x = (r, h)" by (cases x)
        from walk [OF look_back_header [OF Some l [unfolded x]], where
            g = "\<lambda>r' h'. if hdr_slot h' < cp_slot (s_latest_justified s) then Ok (s_latest_justified s)
              else Ok \<lparr>cp_root = r', cp_slot = hdr_slot h'\<rparr>"] Some Ok l x
        show ?thesis by (simp add: get_attestation_target_def if_distrib [of Some])
      qed (use Some Ok in \<open>simp_all add: get_attestation_target_def\<close>)
    qed (use Some in \<open>simp_all add: get_attestation_target_def\<close>)
  qed
qed

lemma attest_as_keeps:
  "sv_store (attest_as H C slot n d v sv) = sv_store sv"
  "sv_pending_blocks (attest_as H C slot n d v sv) = sv_pending_blocks sv"
  "sv_pending_block_parents (attest_as H C slot n d v sv) = sv_pending_block_parents sv"
  "sv_key_manager (attest_as H C slot n d v sv) = sv_key_manager sv"
  by (simp_all add: attest_as_def split: result.splits)

lemma fold_attest_as_keeps:
  "sv_store (fold (attest_as H C slot n d) vs sv) = sv_store sv"
  "sv_pending_blocks (fold (attest_as H C slot n d) vs sv) = sv_pending_blocks sv"
  "sv_pending_block_parents (fold (attest_as H C slot n d) vs sv) = sv_pending_block_parents sv"
  "sv_key_manager (fold (attest_as H C slot n d) vs sv) = sv_key_manager sv"
  by (induction vs arbitrary: sv) (simp_all add: attest_as_keeps)

lemma fold_send_keeps:
  "sv_store (fold (\<lambda>x. send (g x)) xs sv) = sv_store sv"
  "sv_pending_blocks (fold (\<lambda>x. send (g x)) xs sv) = sv_pending_blocks sv"
  "sv_pending_block_parents (fold (\<lambda>x. send (g x)) xs sv) = sv_pending_block_parents sv"
  by (induction xs arbitrary: sv) simp_all

lemma server_ok_cong:
  assumes "server_ok H anchor seen sv" and "waiting_ok sv" and "quiet (sv_store sv) (sv_store sv')"
    and "sv_pending_blocks sv' = sv_pending_blocks sv" and "sv_pending_block_parents sv' = sv_pending_block_parents sv"
  shows "server_ok H anchor seen sv' \<and> waiting_ok sv'"
  using assms quiet_seen [OF server_okD(1) [OF assms(1)] assms(3)]
  by (simp add: server_ok_def pending_ok_def waiting_ok_def has_state_def quiet_def chain_frame_def)

lemma produce_attestations_returns:
  assumes ok: "server_ok H' anchor seen sv" and wait: "waiting_ok sv"
  shows "returns (produce_attestations H C sv slot) (\<lambda>sv'. server_ok H' anchor seen sv' \<and> waiting_ok sv')"
proof -
  obtain x where "get_attestation_target (sv_store sv) = Some x"
    using get_attestation_target_total [OF server_okD(1) [OF ok]] by blast
  then obtain y where y: "produce_attestation_data (sv_store sv) slot = Some y"
    by (cases "head_slot (sv_store sv) :: (u64, store_error) result"; cases x) (simp_all add: produce_attestation_data_def)
  have "quiet (sv_store sv) (sv_store sv)" using seen_okD(1) [OF server_okD(1) [OF ok]] by (simp add: quiet_def)
  note keep = server_ok_cong [OF ok wait, of "fold _ _ sv"]
  show ?thesis
    using \<open>quiet (sv_store sv) (sv_store sv)\<close>
    by (cases "head_state (sv_store sv) :: (state, store_error) result"; cases y)
      (simp_all add: produce_attestations_def y keep fold_attest_as_keeps)
qed

lemma tick_metrics_return:
  "P sv \<Longrightarrow> returns (bind_run (Some (safe_target_slot (sv_store sv))) (\<lambda>_.
    bind_run (Some (head_slot (sv_store sv))) (\<lambda>_. Some (Ok sv)))) P"
  by (cases "get_block_header (sv_store sv) (s_safe_target (sv_store sv))";
      cases "get_block_header (sv_store sv) (s_head (sv_store sv))")
    (simp_all add: safe_target_slot_def head_slot_def)

section \<open>Proposals\<close>

text \<open>
  A block that was just built: its root was not seen, no block seen names it as its parent, and it
  does not name itself.
\<close>

definition fresh_block :: "hashing \<Rightarrow> seen_blocks \<Rightarrow> block \<Rightarrow> bool" where
  "fresh_block H seen b \<longleftrightarrow> seen (h_block H b) = None \<and> h_block H b \<notin> Range (parent_edges seen) \<and>
     blk_parent_root b \<noteq> h_block H b"

lemma fresh_no_collision:
  assumes "acyclic (parent_edges seen)" and "fresh_block H seen b"
  shows "no_collision H b seen"
proof -
  have e: "parent_edges (see H b seen) = insert (h_block H b, blk_parent_root b) (parent_edges seen)"
    using assms(2) by (auto simp: parent_edges_def see_def fresh_block_def split: if_splits)
  have "(blk_parent_root b, h_block H b) \<notin> (parent_edges seen)\<^sup>*"
    using assms(2) by (auto simp: fresh_block_def elim: rtranclE)
  with assms(1) have "acyclic (parent_edges (see H b seen))" unfolding e by (simp add: acyclic_insert)
  moreover have "seen \<subseteq>\<^sub>m see H b seen" using assms(2) by (auto simp: map_le_def see_def fresh_block_def)
  ultimately show ?thesis by (simp add: no_collision_def)
qed

text \<open>The block a proposal is about, if one is built, and the blocks seen after it.\<close>

definition built_block :: "hashing \<Rightarrow> ('pk, 'sig, 'sk) crypto \<Rightarrow> store \<Rightarrow> u64 \<Rightarrow> u64 \<Rightarrow> block option" where
  "built_block H C s slot validator_id =
     (case produce_block_with_signatures H C s slot validator_id of
        Some (_, Ok (b, _)) \<Rightarrow> Some b | _ \<Rightarrow> None)"

definition see_opt :: "hashing \<Rightarrow> block option \<Rightarrow> seen_blocks \<Rightarrow> seen_blocks" where
  "see_opt H b seen = (case b of None \<Rightarrow> seen | Some b \<Rightarrow> see H b seen)"

lemma get_proposal_head_returns:
  assumes "seen_ok H anchor seen s"
  shows "returns (get_proposal_head C s slot) (\<lambda>(s1, _). quiet s s1)"
proof -
  let ?ts = "cc_genesis_time (s_config s) * 1000 + slot * MILLISECONDS_PER_SLOT"
  have "returns (on_tick C s ?ts True False) (\<lambda>(s1, _). quiet s s1)"
    using on_tick_quiet [OF assms, of C ?ts True False] by (auto simp: returns_def)
  then show ?thesis unfolding get_proposal_head_def Let_def
  proof (rule returns_bind)
    fix x
    assume "case x of (s1, _) \<Rightarrow> quiet s s1"
    then obtain s1 aggs where x: "x = (s1, aggs)" "quiet s s1" by auto
    from accept_new_attestations_quiet [OF quiet_seen [OF assms x(2)]] quiet_trans [OF x(2)] x(1)
    show "returns (case x of (s1, _) \<Rightarrow> map_option (\<lambda>s2. Ok (s2, s_head s2)) (accept_new_attestations s1)) (\<lambda>(s1, _). quiet s s1)"
      by auto
  qed
qed

lemma produce_block_total:
  assumes "seen_ok H' anchor seen s"
  shows "\<exists>s1 r. produce_block_with_signatures H C s slot v = Some (s1, r) \<and> quiet s s1"
proof -
  from get_proposal_head_returns [OF assms, of C slot] obtain r where
    r: "get_proposal_head C s slot = Some r" "\<forall>a. r = Ok a \<longrightarrow> quiet s (fst a)" by (auto simp: returns_def)
  have "quiet s s" using seen_okD(1) [OF assms] by (simp add: quiet_def)
  with r show ?thesis by (cases r) (auto simp: produce_block_with_signatures_def)
qed

text \<open>Importing the node's own fresh block keeps the invariant, and no block was waiting for it.\<close>

lemma own_block_returns:
  fixes C :: "('pk, 'sig, 'sk) crypto" and sv :: "'sk server" and sb :: signed_block_with_attestation
  defines "b \<equiv> bwa_block (sb_message sb)"
  assumes ok: "server_ok H anchor seen sv" and wait: "waiting_ok sv" and H: "ssz_roots H" and fresh: "fresh_block H seen b"
  shows "\<exists>sv' r. server_process_block H C sv sb = Some (sv', r) \<and> server_ok H anchor (see H b seen) sv' \<and> waiting_ok sv'"
proof -
  note nc = fresh_no_collision [OF seen_okD(2) [OF server_okD(1) [OF ok]] fresh, unfolded no_collision_def]
  have ok': "server_ok H anchor (see H b seen) sv" using server_ok_mono [OF ok] nc by blast
  have "(see H b seen) (h_block H b) = Some (blk_slot b, blk_parent_root b)" by (simp add: see_def)
  from seen_on_block [where sb = sb, folded b_def, OF server_okD(1) [OF ok'] H this, of C "validator_ids (sv_key_manager sv)"]
  obtain s' r where s': "on_block H C (sv_store sv) sb (validator_ids (sv_key_manager sv)) = Some (s', r)"
    "seen_ok H anchor (see H b seen) s'" "\<forall>x. x \<noteq> h_block H b \<longrightarrow> get_state s' x = get_state (sv_store sv) x"
    by blast
  have "p \<noteq> h_block H b" if "map_of (sv_pending_blocks sv) p = Some roots" for p roots
  proof -
    have "roots \<noteq> []" "set roots \<subseteq> {r. (r, p) \<in> parent_edges seen}"
      using that server_okD(2) [OF ok] unfolding pending_ok_def by blast+
    then have "p \<in> Range (parent_edges seen)" by (auto simp: neq_Nil_conv)
    with fresh show ?thesis by (auto simp: fresh_block_def)
  qed
  with wait s'(3) have "waiting_ok (sv\<lparr>sv_store := s'\<rparr>)"
    by (fastforce simp: waiting_ok_def has_state_def get_state_def)
  moreover have "server_ok H anchor (see H b seen) (sv\<lparr>sv_store := s'\<rparr>)"
    using ok' s'(2) by (simp add: server_ok_def pending_ok_def)
  ultimately show ?thesis using s'(1) by (simp add: server_process_block_def)
qed

lemma propose_block_returns:
  fixes C :: "('pk, 'sig, 'sk) crypto" and sv :: "'sk server"
  assumes ok: "server_ok H anchor seen sv" and wait: "waiting_ok sv" and H: "ssz_roots H"
    and fresh: "\<And>b. built_block H C (sv_store sv) slot v = Some b \<Longrightarrow> fresh_block H seen b"
  shows "returns (propose_block H C sv slot v) (\<lambda>sv'. server_ok H anchor
    (see_opt H (built_block H C (sv_store sv) slot v) seen) sv' \<and> waiting_ok sv')"
proof -
  from produce_block_total [OF server_okD(1) [OF ok], of H C slot v] obtain s1 r where
    p: "produce_block_with_signatures H C (sv_store sv) slot v = Some (s1, r)" "quiet (sv_store sv) s1" by blast
  let ?sv1 = "sv\<lparr>sv_store := s1\<rparr>"
  have ok1: "server_ok H anchor seen ?sv1 \<and> waiting_ok ?sv1" by (rule server_ok_cong [OF ok wait]) (use p(2) in simp_all)
  show ?thesis
  proof (cases r)
    case (Ok x)
    obtain b sigs where x: "x = (b, sigs)" by (cases x)
    have built: "built_block H C (sv_store sv) slot v = Some b" using p(1) Ok x by (simp add: built_block_def)
    note nc = fresh_no_collision [OF seen_okD(2) [OF server_okD(1) [OF ok]] fresh [OF built], unfolded no_collision_def]
    have ok2: "server_ok H anchor (see H b seen) ?sv1" using server_ok_mono nc ok1 by blast
    from get_attestation_target_total [OF server_okD(1) [OF conjunct1 [OF ok1]]] obtain t where
      t: "get_attestation_target s1 = Some t" by auto
    have own: "\<exists>sv' r. server_process_block H C ?sv1 \<lparr>sb_message = \<lparr>bwa_block = b, bwa_proposer_attestation = pa\<rparr>,
        sb_signature = sig\<rparr> = Some (sv', r) \<and> server_ok H anchor (see H b seen) sv' \<and> waiting_ok sv'" for pa sig
      using own_block_returns [OF conjunct1 [OF ok1] conjunct2 [OF ok1] H, where C = C and
          sb = "\<lparr>sb_message = \<lparr>bwa_block = b, bwa_proposer_attestation = pa\<rparr>, sb_signature = sig\<rparr>"] fresh [OF built] by simp
    show ?thesis
    proof (cases t)
      case target: (Ok target)
      show ?thesis
      proof (cases "sign_attestation H C (sv_key_manager sv) v (att_data (proposal_attestation H s1 slot v b target))")
        case sg: (Ok psig)
        from own [of "proposal_attestation H s1 slot v b target"
            "\<lparr>bs_attestation_signatures = sigs, bs_proposer_signature = psig\<rparr>"] obtain sv' r' where
          o: "server_process_block H C ?sv1 \<lparr>sb_message = \<lparr>bwa_block = b,
              bwa_proposer_attestation = proposal_attestation H s1 slot v b target\<rparr>,
            sb_signature = \<lparr>bs_attestation_signatures = sigs, bs_proposer_signature = psig\<rparr>\<rparr> = Some (sv', r')"
            "server_ok H anchor (see H b seen) sv'" "waiting_ok sv'" by blast
        have "server_ok H anchor (see H b seen) (send m sv') \<and> waiting_ok (send m sv')" for m
          using o(2,3) by (simp add: server_ok_def pending_ok_def waiting_ok_def)
        with o p(1) Ok x t target sg show ?thesis
          by (cases r') (simp_all add: propose_block_def Let_def built see_opt_def)
      qed (use p(1) Ok x t target ok2 ok1 in \<open>simp_all add: propose_block_def Let_def built see_opt_def\<close>)
    qed (use p(1) Ok x t in \<open>simp_all add: propose_block_def\<close>)
  qed (use p(1) ok1 in \<open>simp_all add: propose_block_def built_block_def see_opt_def\<close>)
qed

section \<open>Ticks\<close>

definition tick_proposer :: "'sk server \<Rightarrow> u64 \<Rightarrow> (u64 option, store_error) result" where
  "tick_proposer sv timestamp =
     (if tick_slot_interval sv timestamp = 0 \<and> tick_slot sv timestamp > 0
      then get_our_proposer sv (tick_slot sv timestamp) else Ok None)"

text \<open>The block the node builds during a tick.\<close>

definition tick_block :: "hashing \<Rightarrow> ('pk, 'sig, 'sk) crypto \<Rightarrow> 'sk server \<Rightarrow> u64 \<Rightarrow> block option" where
  "tick_block H C sv timestamp =
     (case tick_proposer sv timestamp of
        Ok (Some v) \<Rightarrow>
          (case on_tick C (sv_store sv) timestamp True (sv_is_aggregator sv) of
             Some (Ok (s1, _)) \<Rightarrow> built_block H C s1 (tick_slot sv timestamp) v
           | _ \<Rightarrow> None)
      | _ \<Rightarrow> None)"

lemma server_on_tick_returns:
  fixes C :: "('pk, 'sig, 'sk) crypto" and sv :: "'sk server"
  assumes ok: "server_ok H anchor seen sv" and wait: "waiting_ok sv" and H: "ssz_roots H"
    and fresh: "\<And>b. tick_block H C sv ts = Some b \<Longrightarrow> fresh_block H seen b"
  shows "returns (server_on_tick H C sv ts)
    (\<lambda>sv'. server_ok H anchor (see_opt H (tick_block H C sv ts) seen) sv' \<and> waiting_ok sv')"
proof -
  let ?P = "\<lambda>sv'. server_ok H anchor (see_opt H (tick_block H C sv ts) seen) sv' \<and> waiting_ok sv'"
  note ac = seen_okD(2) [OF server_okD(1) [OF ok]]
  have grow: "?P sv'" if "server_ok H anchor seen sv'" "waiting_ok sv'" for sv' :: "'sk server"
    using that server_ok_mono [OF that(1)] fresh fresh_no_collision [OF ac]
    by (cases "tick_block H C sv ts") (auto simp: see_opt_def no_collision_def)
  have step: "returns (bind_run (on_tick C (sv_store sv) ts (proposer \<noteq> None) (sv_is_aggregator sv)) (\<lambda>(s1, new_aggregates).
      (let sv1 = fold (\<lambda>aggregate. send (PublishAggregatedAttestation aggregate)) new_aggregates (sv\<lparr>sv_store := s1\<rparr>)
       in bind_run (case proposer of None \<Rightarrow> Some (Ok sv1) | Some v \<Rightarrow> propose_block H C sv1 (tick_slot sv ts) v) (\<lambda>sv2.
          bind_run (if tick_slot_interval sv ts = 1 then produce_attestations H C sv2 (tick_slot sv ts) else Some (Ok sv2)) (\<lambda>sv3.
          bind_run (Some (safe_target_slot (sv_store sv3))) (\<lambda>_.
          bind_run (Some (head_slot (sv_store sv3))) (\<lambda>_. Some (Ok sv3)))))))) ?P"
    (is "returns (bind_run ?tick ?rest) _")
    if pr: "tick_proposer sv ts = Ok proposer" for proposer
  proof (rule returns_bind [where P = "\<lambda>(s1, aggs). quiet (sv_store sv) s1 \<and> ?tick = Some (Ok (s1, aggs))"])
    show "returns ?tick (\<lambda>(s1, aggs). quiet (sv_store sv) s1 \<and> ?tick = Some (Ok (s1, aggs)))"
      using on_tick_quiet [OF server_okD(1) [OF ok], of C ts "proposer \<noteq> None" "sv_is_aggregator sv"]
      by (auto simp: returns_def)
  next
    fix x
    assume x: "case x of (s1, aggs) \<Rightarrow> quiet (sv_store sv) s1 \<and> ?tick = Some (Ok (s1, aggs))"
    obtain s1 aggs where x_eq: "x = (s1, aggs)" by (cases x)
    let ?sv1 = "fold (\<lambda>aggregate. send (PublishAggregatedAttestation aggregate)) aggs (sv\<lparr>sv_store := s1\<rparr>)"
    have ok1: "server_ok H anchor seen ?sv1 \<and> waiting_ok ?sv1"
      by (rule server_ok_cong [OF ok wait]) (use x x_eq in \<open>simp_all add: fold_send_keeps\<close>)
    have "returns (case proposer of None \<Rightarrow> Some (Ok ?sv1) | Some v \<Rightarrow> propose_block H C ?sv1 (tick_slot sv ts) v) ?P"
    proof (cases proposer)
      case None
      with grow ok1 show ?thesis by simp
    next
      case (Some v)
      then have b: "tick_block H C sv ts = built_block H C (sv_store ?sv1) (tick_slot sv ts) v"
        using pr x x_eq by (simp add: tick_block_def fold_send_keeps)
      with propose_block_returns [OF conjunct1 [OF ok1] conjunct2 [OF ok1] H, of C "tick_slot sv ts" v] fresh Some
      show ?thesis by simp
    qed
    then show "returns (?rest x) ?P"
      unfolding x_eq prod.case Let_def
      by (elim returns_bind) (rule returns_bind [where P = ?P], auto intro: produce_attestations_returns tick_metrics_return)
  qed
  show ?thesis
    unfolding server_on_tick_def Let_def tick_proposer_def [symmetric]
    by (cases "head_state (sv_store sv) :: (state, store_error) result"; cases "tick_proposer sv ts")
      (use grow [OF ok wait] step [unfolded Let_def] in simp_all)
qed

end
