(* ===== verification/Server_Properties.thy ===== *)
theory Server_Properties
  imports Server_Invariant
begin

text \<open>
  What the blockchain server guarantees: it never hangs, it keeps blocks with unknown parents until
  they can be processed, it performs its attestation duty with data and signatures that other nodes
  accept, its clock agrees with that of the store, and it publishes only blocks it has imported.
\<close>

section \<open>Reachable servers\<close>

text \<open>
  Messages that add no hash collision: a received block is compatible with the blocks seen, and a
  block the node builds in a tick is new to it.
\<close>

fun harmless :: "hashing \<Rightarrow> ('pk, 'sig, 'sk) crypto \<Rightarrow> seen_blocks \<Rightarrow> 'sk server \<Rightarrow> server_message \<Rightarrow> bool" where
  "harmless H C seen sv (NewBlock sb) \<longleftrightarrow> no_collision H (bwa_block (sb_message sb)) seen"
| "harmless H C seen sv (Tick ts) \<longleftrightarrow> (\<forall>b. tick_block H C sv ts = Some b \<longrightarrow> fresh_block H seen b)"
| "harmless H C seen sv _ \<longleftrightarrow> True"

fun seen_after ::
  "hashing \<Rightarrow> ('pk, 'sig, 'sk) crypto \<Rightarrow> seen_blocks \<Rightarrow> 'sk server \<Rightarrow> server_message \<Rightarrow> seen_blocks" where
  "seen_after H C seen sv (NewBlock sb) = see H (bwa_block (sb_message sb)) seen"
| "seen_after H C seen sv (Tick ts) = see_opt H (tick_block H C sv ts) seen"
| "seen_after H C seen sv _ = seen"

inductive server_step ::
  "hashing \<Rightarrow> ('pk, 'sig, 'sk) crypto \<Rightarrow> (H256 list \<Rightarrow> H256 list) \<Rightarrow>
   ((H256 \<times> u64) list \<Rightarrow> (H256 \<times> u64) list) \<Rightarrow> seen_blocks \<times> 'sk server \<Rightarrow> seen_blocks \<times> 'sk server \<Rightarrow> bool"
  for H C iter f where
  message: "harmless H C seen sv m \<Longrightarrow> handle H C iter f m sv = Some (Ok sv') \<Longrightarrow>
    server_step H C iter f (seen, sv) (seen_after H C seen sv m, sv')"

lemma handle_run:
  fixes C :: "('pk, 'sig, 'sk) crypto" and sv :: "'sk server"
  assumes H: "ssz_roots H" and it: "visits_all iter" and ok: "server_ok H anchor seen sv" and wait: "waiting_ok sv"
    and m: "harmless H C seen sv m"
  shows "\<exists>r. handle H C iter f m sv = Some r \<and>
    (\<forall>sv'. r = Ok sv' \<longrightarrow> server_ok H anchor (seen_after H C seen sv m) sv' \<and> waiting_ok sv')"
proof (cases m)
  case (Tick ts)
  with server_on_tick_returns [OF ok wait H, of C ts] m show ?thesis by (auto simp: returns_def)
next
  case InitP2P
  with ok wait show ?thesis by (simp add: server_ok_def pending_ok_def waiting_ok_def)
next
  case (NewBlock sb)
  with server_on_block_run [OF H it ok wait, of sb C f] m show ?thesis by auto
next
  case (NewAttestation sa)
  obtain s r where g: "on_gossip_attestation H C (sv_store sv) sa (validator_ids (sv_key_manager sv)) = (s, r)"
    by (meson surj_pair)
  with on_gossip_quiet(1) [OF seen_okD(1) [OF server_okD(1) [OF ok]], of H C sa "validator_ids (sv_key_manager sv)"]
  have "server_ok H anchor seen (sv\<lparr>sv_store := s\<rparr>) \<and> waiting_ok (sv\<lparr>sv_store := s\<rparr>)"
    by (intro server_ok_cong [OF ok wait]) simp_all
  with g ok wait NewAttestation show ?thesis by (simp add: server_on_gossip_attestation_def)
next
  case (NewAggregatedAttestation agg)
  obtain s r where g: "on_gossip_aggregated_attestation H C (sv_store sv) agg = (s, r)" by (meson surj_pair)
  with on_gossip_quiet(2) [OF seen_okD(1) [OF server_okD(1) [OF ok]], of H C agg]
  have "server_ok H anchor seen (sv\<lparr>sv_store := s\<rparr>) \<and> waiting_ok (sv\<lparr>sv_store := s\<rparr>)"
    by (intro server_ok_cong [OF ok wait]) simp_all
  with g NewAggregatedAttestation show ?thesis by (simp add: server_on_gossip_aggregated_attestation_def)
qed

lemma server_steps_inv:
  assumes "(server_step H C iter f)\<^sup>*\<^sup>* x y" and "ssz_roots H" and "visits_all iter"
    and "server_ok H anchor (fst x) (snd x)" and "waiting_ok (snd x)"
  shows "server_ok H anchor (fst y) (snd y) \<and> waiting_ok (snd y)"
  using assms(1,4,5)
proof induction
  case (step y z)
  from step.hyps(2) obtain seen sv m sv' where
    z: "y = (seen, sv)" "harmless H C seen sv m" "handle H C iter f m sv = Some (Ok sv')"
      "z = (seen_after H C seen sv m, sv')" by (auto elim: server_step.cases)
  from handle_run [OF assms(2,3) _ _ z(2), of anchor f] step.IH step.prems z show ?case by auto
qed auto

text \<open>What \<open>spawn\<close> starts with.\<close>

lemma spawn_ok:
  assumes "init_store H empty_tables st body = Ok s" and "wf_state st"
    and "s_head s \<noteq> hdr_parent_root (st_latest_block_header st)"
    and "spawn s keys agg now = Ok (sv, delay)"
  shows "server_ok H (s_head s)
      [s_head s \<mapsto> (hdr_slot (st_latest_block_header st), hdr_parent_root (st_latest_block_header st))] sv"
    and "waiting_ok sv"
  using init_store_seen [OF assms(1-3)] assms(4)
  by (auto simp: spawn_def Let_def server_ok_def pending_ok_def waiting_ok_def split: if_splits)

section \<open>Properties\<close>

text \<open>
  C4. The server never hangs. From its start on a genesis or checkpoint state, after any sequence of
  blocks, gossip, connection and ticks, with or without proposals, the handler of every further such
  message returns, whatever the pending blocks, the pruning that happened, and the order in which
  hash sets are visited. No block is left waiting for a parent whose state is known. The hypotheses
  are that block and header have the same root, that the parent relation of the blocks received has
  no cycle, and that a block the node builds itself was not seen before.
\<close>

theorem server_never_hangs:
  fixes C :: "('pk, 'sig, 'sk) crypto" and sv0 :: "'sk server"
  assumes "ssz_roots H" and "visits_all iter"
    and "init_store H empty_tables st body = Ok s" and "wf_state st"
    and "s_head s \<noteq> hdr_parent_root (st_latest_block_header st)"
    and "spawn s keys agg now = Ok (sv0, delay)"
    and "(server_step H C iter f)\<^sup>*\<^sup>*
      ([s_head s \<mapsto> (hdr_slot (st_latest_block_header st), hdr_parent_root (st_latest_block_header st))], sv0)
      (seen, sv)"
  shows "(\<forall>m. harmless H C seen sv m \<longrightarrow> (\<exists>r. handle H C iter f m sv = Some r)) \<and>
    (\<forall>p. map_of (sv_pending_blocks sv) p \<noteq> None \<longrightarrow> \<not> has_state (sv_store sv) p)"
proof -
  from server_steps_inv [OF assms(7,1,2)] spawn_ok [OF assms(3-6)] have
    "server_ok H (s_head s) seen sv" and w: "waiting_ok sv" by auto
  from handle_run [OF assms(1,2) this, of C _ f] w show ?thesis by (auto simp: waiting_ok_def) blast
qed

lemma demo_ssz_roots: "ssz_roots demo_hashing"
  by (simp add: ssz_roots_def demo_hashing_def block_header_of_def)

lemma visits_all_id: "visits_all (\<lambda>xs. xs)"
  by (simp add: visits_all_def)

definition demo_seen :: seen_blocks where
  "demo_seen = [2000 \<mapsto> (0, 0)]"

lemma demo_no_collision:
  "no_collision demo_hashing (demo_block 1 []) demo_seen" "no_collision demo_hashing (demo_block 5 []) demo_seen"
proof -
  have m: "demo_seen \<subseteq>\<^sub>m see demo_hashing (demo_block 1 []) demo_seen"
    "demo_seen \<subseteq>\<^sub>m see demo_hashing (demo_block 5 []) demo_seen"
    by (simp_all add: map_le_def see_def demo_seen_def demo_hashing_def demo_block_def)
  have "p < r" if "(r, p) \<in> parent_edges (see demo_hashing (demo_block slot []) demo_seen)" "slot = 1 \<or> slot = 5"
    for r p slot
    using that by (auto simp: parent_edges_def see_def demo_seen_def demo_hashing_def demo_block_def split: if_splits)
  then have "acyclic (parent_edges (see demo_hashing (demo_block 1 []) demo_seen))"
    "acyclic (parent_edges (see demo_hashing (demo_block 5 []) demo_seen))"
    by (auto intro: acyclicI_order [where f = "\<lambda>x. x"])
  with m show "no_collision demo_hashing (demo_block 1 []) demo_seen"
    "no_collision demo_hashing (demo_block 5 []) demo_seen" by (simp_all add: no_collision_def)
qed

definition demo_server :: "unit server" where
  "demo_server = \<lparr>sv_store = demo_store, sv_p2p = None, sv_key_manager = key_manager_new [(1, ()), (2, ())],
     sv_pending_blocks = [], sv_pending_block_parents = [], sv_is_aggregator = True\<rparr>"

lemma demo_spawn: "spawn demo_store [(1, ()), (2, ())] True 0 = Ok (demo_server, 12000)"
proof -
  have "cc_genesis_time (s_config demo_store) = 12" by (simp add: demo_store_defs demo_defs)
  then show ?thesis by (simp add: spawn_def demo_server_def)
qed

lemma demo_head: "s_head demo_store \<noteq> hdr_parent_root (st_latest_block_header demo_genesis)"
  by (simp add: demo_store_fields demo_defs)

lemma demo_seen_eq: "[s_head demo_store \<mapsto> (hdr_slot (st_latest_block_header demo_genesis),
    hdr_parent_root (st_latest_block_header demo_genesis))] = demo_seen"
  by (simp add: demo_seen_def demo_store_fields demo_defs)

theorem server_never_hangs_witness:
  "\<exists>r. handle demo_hashing demo_crypto (\<lambda>xs. xs) (\<lambda>xs. rev (sort_key snd xs))
     (NewBlock (demo_signed_block (demo_block 5 []))) demo_server = Some r"
proof -
  note h = server_never_hangs [OF demo_ssz_roots visits_all_id demo_store_init wf_demo_genesis demo_head demo_spawn
      rtranclp.rtrancl_refl, of demo_crypto "\<lambda>xs. rev (sort_key snd xs)", unfolded demo_seen_eq]
  have "harmless demo_hashing demo_crypto demo_seen demo_server (NewBlock (demo_signed_block (demo_block 5 [])))"
    using demo_no_collision(2) by (simp add: demo_signed_block_def)
  with h show ?thesis by blast
qed

text \<open>
  C18. A block whose parent is unknown. It is stored in full, the states stay as they are, and its
  missing ancestor is found among the ancestors of the block: either an ancestor that is not stored,
  which is requested from the network, or the oldest stored one, whose parent's state is known and
  which is enqueued. The \<open>expect\<close> in the code never fires.
\<close>

theorem orphan_block_pended:
  fixes C :: "('pk, 'sig, 'sk) crypto" and sv :: "'sk server" and sb :: signed_block_with_attestation
  defines "b \<equiv> bwa_block (sb_message sb)"
  assumes "server_ok H anchor seen sv" and "waiting_ok sv" and "ssz_roots H"
    and "seen (h_block H b) = Some (blk_slot b, blk_parent_root b)"
    and "\<not> has_state (sv_store sv) (blk_parent_root b)"
  shows "\<exists>sv' queue m. process_or_pend_block H C iter sv sb = Some (Ok (sv', queue)) \<and>
    server_ok H anchor seen sv' \<and> waiting_ok sv' \<and> (h_block H b, m) \<in> (parent_edges seen)\<^sup>+ \<and>
    get_signed_block H (sv_store sv') (h_block H b) \<noteq> None \<and>
    get_state (sv_store sv') = get_state (sv_store sv) \<and> sv_key_manager sv' = sv_key_manager sv \<and>
    (get_block_header (sv_store sv') m = None \<and> queue = [] \<and>
       sv_p2p sv' = map_option (\<lambda>sent. sent @ [FetchBlock m]) (sv_p2p sv) \<or>
     (\<exists>x. queue = [x] \<and> get_signed_block H (sv_store sv') m = Some x \<and> sv_p2p sv' = sv_p2p sv \<and>
       ready H seen (sv_store sv') x))"
  unfolding b_def by (rule pend_block_run [OF assms(2-6) [unfolded b_def]])

theorem orphan_block_pended_witness:
  "\<exists>sv' queue. process_or_pend_block demo_hashing demo_crypto (\<lambda>xs. xs) demo_server
     (demo_signed_block (demo_block 5 [])) = Some (Ok (sv', queue))"
proof -
  let ?seen = "see demo_hashing (demo_block 5 []) demo_seen"
  note ok = spawn_ok [OF demo_store_init wf_demo_genesis demo_head demo_spawn, unfolded demo_seen_eq]
  have ok5: "server_ok demo_hashing (s_head demo_store) ?seen demo_server"
    using server_ok_mono [OF ok(1)] demo_no_collision(2) by (simp add: no_collision_def)
  have "\<not> has_state demo_store 2004" by (simp add: demo_store_defs has_state_def demo_defs)
  then show ?thesis
    using orphan_block_pended [OF ok5 ok(2) demo_ssz_roots,
        of "demo_signed_block (demo_block 5 [])" demo_crypto "\<lambda>xs. xs"]
    by (simp add: demo_signed_block_def see_def demo_server_def demo_block_def demo_hashing_def) blast
qed

section \<open>Duties\<close>

lemma own_data_acceptable:
  assumes inv: "chain_inv a s" and slot: "slot \<le> s_time s div INTERVALS_PER_SLOT + 1"
  shows "\<exists>d. produce_attestation_data s slot = Some (Ok d) \<and> ad_slot d = slot \<and> data_acceptable s d \<and>
    get_state s (cp_root (ad_target d)) \<noteq> None"
proof -
  from get_attestation_target_run [OF inv] obtain cp h hd where
    t: "get_attestation_target s = Some (Ok cp)" "block_at s (cp_root cp) h" "hdr_slot h = cp_slot cp"
      "cp_slot (s_latest_justified s) \<le> cp_slot cp" "get_block_header s (s_head s) = Some hd"
      "cp_slot cp \<le> hdr_slot hd" by blast
  from justified_block [OF chain_invD(1) [OF inv]] obtain jh where
    j: "get_block_header s (cp_root (s_latest_justified s)) = Some jh"
      "hdr_slot jh = cp_slot (s_latest_justified s)" by (auto simp: block_at_def)
  let ?d = "\<lparr>ad_slot = slot, ad_head = \<lparr>cp_root = s_head s, cp_slot = hdr_slot hd\<rparr>,
    ad_target = cp, ad_source = s_latest_justified s\<rparr>"
  have "produce_attestation_data s slot = Some (Ok ?d)"
    using t(1,5) by (simp add: produce_attestation_data_def head_slot_def)
  moreover have "data_acceptable s ?d" using t j slot by (auto simp: data_acceptable_def block_at_def)
  ultimately show ?thesis using t(2) by (auto simp: block_at_def)
qed

text \<open>The attestations a node signs for its validators: all of them but the proposer, in order.\<close>

definition own_attestations ::
  "hashing \<Rightarrow> ('pk, 'sig, 'sk) crypto \<Rightarrow> 'sk key_manager \<Rightarrow> u64 \<Rightarrow> u64 \<Rightarrow> attestation_data \<Rightarrow> u64 list \<Rightarrow>
   signed_attestation list" where
  "own_attestations H C km slot n d vs =
     List.map_filter (\<lambda>v. if is_proposer v slot n then None
       else case sign_attestation H C km v d of
              Ok sig \<Rightarrow> Some \<lparr>sa_validator_id = v, sa_data = d, sa_signature = sig\<rparr> | _ \<Rightarrow> None) vs"

lemma fold_attest_as_sends:
  "sv_p2p sv = Some sent \<Longrightarrow> sv_p2p (fold (attest_as H C slot n d) vs sv) =
     Some (sent @ map PublishAttestation (own_attestations H C (sv_key_manager sv) slot n d vs))"
proof (induction vs arbitrary: sv sent)
  case Nil
  then show ?case by (simp add: own_attestations_def map_filter_simps)
next
  case (Cons v vs)
  show ?case
  proof (cases "is_proposer v slot n \<or> (\<forall>sig. sign_attestation H C (sv_key_manager sv) v d \<noteq> Ok sig)")
    case True
    then have "attest_as H C slot n d v sv = sv" by (auto simp: attest_as_def split: result.splits)
    with Cons True show ?thesis
      by (auto simp: own_attestations_def map_filter_simps split: result.splits)
  next
    case False
    then obtain sig where sig: "sign_attestation H C (sv_key_manager sv) v d = Ok sig" "\<not> is_proposer v slot n" by blast
    let ?sa = "\<lparr>sa_validator_id = v, sa_data = d, sa_signature = sig\<rparr>"
    have "attest_as H C slot n d v sv = send (PublishAttestation ?sa) sv" using sig by (simp add: attest_as_def)
    with Cons.IH [of "send (PublishAttestation ?sa) sv"] Cons.prems sig show ?thesis
      by (simp add: own_attestations_def map_filter_simps)
  qed
qed

lemma own_attestation_accepted:
  fixes C :: "('pk, 'sig, 'sk) crypto"
  assumes sa: "sa \<in> set (own_attestations H C km slot n d vs)"
    and d: "data_acceptable s d" "unat (ad_slot d) < 2 ^ 32"
    and tst: "get_state s (cp_root (ad_target d)) = Some tst"
    and sk: "map_of (km_keys km) (sa_validator_id sa) = Some sk"
    and v: "sa_validator_id sa < word_of_nat (length (st_validators tst))"
    and kp: "key_pair C sk (val_pubkey (st_validators tst ! unat (sa_validator_id sa)))"
  shows "snd (on_gossip_attestation H C s sa ids) = Ok ()"
proof -
  from sa obtain u where u: "(if is_proposer u slot n then None else case sign_attestation H C km u d of
      Ok sig \<Rightarrow> Some \<lparr>sa_validator_id = u, sa_data = d, sa_signature = sig\<rparr> | _ \<Rightarrow> None) = Some sa"
    by (auto simp: own_attestations_def set_map_filter_Some)
  then have sg: "sign_attestation H C km (sa_validator_id sa) d = Ok (sa_signature sa)" "sa_data sa = d"
    by (cases "sign_attestation H C km u d"; auto split: if_splits)+
  from sign_message_Ok [OF sg(1) [unfolded sign_attestation_def] sk kp] obtain pk sig where
    "c_pubkey C (val_pubkey (st_validators tst ! unat (sa_validator_id sa))) = Some pk"
    "c_signature C (sa_signature sa) = Some sig" "c_verify C pk (ucast (ad_slot d)) (h_data H d) sig" by blast
  then have "check_gossip_attestation H C s sa = Ok sig"
    using d sg(2) tst v by (simp add: check_gossip_attestation_Ok_iff)
  then show ?thesis by (simp add: on_gossip_attestation_def Let_def)
qed

text \<open>
  C12. Attestation duty. On a store with the chain invariant a connected node publishes, in the slot
  it attests in, one attestation for each of its validators that can sign, except the slot's
  proposer, all with the same data; and if the keys belong to validators of the target state, each of
  them is accepted by the gossip handler of a node with the same store, in the first \<open>2^32\<close> slots.
\<close>

theorem attestation_duty:
  fixes C :: "('pk, 'sig, 'sk) crypto" and sv :: "'sk server"
  assumes inv: "chain_inv a (sv_store sv)" and p2p: "sv_p2p sv = Some sent"
    and slot: "slot \<le> s_time (sv_store sv) div INTERVALS_PER_SLOT + 1" "slot < 2 ^ 32"
  shows "\<exists>d st sv'. produce_attestations H C sv slot = Some (Ok sv') \<and> ad_slot d = slot \<and>
    get_state (sv_store sv) (s_head (sv_store sv)) = Some st \<and> sv_store sv' = sv_store sv \<and>
    (let own = own_attestations H C (sv_key_manager sv) slot (word_of_nat (length (st_validators st))) d
                 (validator_ids (sv_key_manager sv))
     in sv_p2p sv' = Some (sent @ map PublishAttestation own) \<and>
        (\<forall>sa tst sk ids. sa \<in> set own \<and> get_state (sv_store sv) (cp_root (ad_target d)) = Some tst \<and>
           map_of (km_keys (sv_key_manager sv)) (sa_validator_id sa) = Some sk \<and>
           sa_validator_id sa < word_of_nat (length (st_validators tst)) \<and>
           key_pair C sk (val_pubkey (st_validators tst ! unat (sa_validator_id sa))) \<longrightarrow>
           snd (on_gossip_attestation H C (sv_store sv) sa ids) = Ok ()))"
proof -
  let ?s = "sv_store sv" and ?km = "sv_key_manager sv"
  from chain_okD(9) [OF chain_invD(1) [OF inv]] obtain st where st: "get_state ?s (s_head ?s) = Some st" by blast
  from own_data_acceptable [OF inv slot(1)] obtain d where
    d: "produce_attestation_data ?s slot = Some (Ok d)" "ad_slot d = slot" "data_acceptable ?s d" by blast
  let ?n = "word_of_nat (length (st_validators st)) :: u64"
  let ?sv = "fold (attest_as H C slot ?n d) (validator_ids ?km) sv"
  have run: "produce_attestations H C sv slot = Some (Ok ?sv)"
    using st d(1) by (simp add: produce_attestations_def head_state_def)
  have s32: "unat (ad_slot d) < 2 ^ 32" using slot(2) d(2) by (simp add: word_less_nat_alt)
  note accepted = own_attestation_accepted [where C = C, OF _ d(3) s32]
  have sends: "sv_p2p ?sv = Some (sent @ map PublishAttestation (own_attestations H C ?km slot ?n d (validator_ids ?km)))"
    by (rule fold_attest_as_sends [OF p2p])
  show ?thesis
    unfolding Let_def
  proof (intro exI conjI)
    show "produce_attestations H C sv slot = Some (Ok ?sv)" by (fact run)
    show "\<forall>sa tst sk ids. sa \<in> set (own_attestations H C ?km slot ?n d (validator_ids ?km)) \<and>
        get_state ?s (cp_root (ad_target d)) = Some tst \<and>
        map_of (km_keys ?km) (sa_validator_id sa) = Some sk \<and>
        sa_validator_id sa < word_of_nat (length (st_validators tst)) \<and>
        key_pair C sk (val_pubkey (st_validators tst ! unat (sa_validator_id sa))) \<longrightarrow>
        snd (on_gossip_attestation H C ?s sa ids) = Ok ()" using accepted by blast
  qed (fact d(2) st sends fold_attest_as_keeps(1))+
qed

theorem attestation_duty_witness:
  "\<exists>sv'. produce_attestations demo_hashing demo_crypto (demo_server\<lparr>sv_p2p := Some []\<rparr>) 1 = Some (Ok sv')"
  using attestation_duty [of 0 "demo_server\<lparr>sv_p2p := Some []\<rparr>" "[]" 1 demo_hashing demo_crypto] demo_store_inv
  by (auto simp: demo_server_def demo_store_fields)

section \<open>Clock\<close>

text \<open>The server's slot and interval are those of the store's time.\<close>

lemma div_slot_interval: "n div 800 = n div 4000 * 5 + n mod 4000 div 800" for n :: nat
proof -
  have "n = n div 4000 * 5 * 800 + n mod 4000" using div_mult_mod_eq [of n 4000] by simp
  then have "n div 800 = (n div 4000 * 5 * 800 + n mod 4000) div 800" by simp
  also have "\<dots> = n div 4000 * 5 + n mod 4000 div 800" by (rule div_mult_self3) simp
  finally show ?thesis .
qed

lemma tick_slot_of_time:
  "tick_time (sv_store sv) ts = tick_slot sv ts * INTERVALS_PER_SLOT + tick_slot_interval sv ts"
proof -
  define t where "t = saturating_sub ts (cc_genesis_time (s_config (sv_store sv)) * 1000)"
  note eq = div_slot_interval [of "unat t"]
  have lt: "unat t div 800 < 18446744073709551616" using unat_less_u64 [of t] by (rule le_less_trans [rotated]) simp
  have "unat t div 4000 * 5 < 18446744073709551616" using lt eq by linarith
  then have "unat (t div 4000 * 5 + t mod 4000 div 800) = unat t div 800"
    using lt eq by (simp add: unat_word_ariths unat_div unat_mod)
  then have "t div 4000 * 5 + t mod 4000 div 800 = t div 800" by (simp add: word_unat_eq_iff unat_div)
  then show ?thesis
    unfolding tick_time_def tick_slot_def tick_slot_interval_def MILLISECONDS_PER_SLOT_def
      MILLISECONDS_PER_INTERVAL_def INTERVALS_PER_SLOT_def t_def by simp
qed

text \<open>The next tick is at the next interval boundary of the wall clock, strictly in the future.\<close>

lemma ms_to_next_interval_bounds:
  "0 < ms_to_next_interval ts \<and> ms_to_next_interval ts \<le> MILLISECONDS_PER_INTERVAL \<and>
   (unat ts + unat (ms_to_next_interval ts)) mod 800 = 0"
proof -
  have "unat (ts mod 800) < 800" by (simp add: unat_mod)
  then have u: "unat (800 - ts mod 800 :: u64) = 800 - unat ts mod 800"
    by (simp add: unat_mod unat_sub word_le_nat_alt)
  have "n + (800 - m) = (k + 1) * 800" if "k * 800 + m = n" "m < 800" for n m k :: nat using that by arith
  from this [OF div_mult_mod_eq] have "unat ts + (800 - unat ts mod 800) = (unat ts div 800 + 1) * 800" by simp
  then have "(unat ts + (800 - unat ts mod 800)) mod 800 = 0" by (metis mod_mult_self2_is_0)
  with u show ?thesis
    by (simp add: ms_to_next_interval_def MILLISECONDS_PER_INTERVAL_def word_less_nat_alt word_le_nat_alt)
qed

section \<open>Proposals\<close>

lemma record_block_state: "get_state (record_block H sb st s) (h_block H (bwa_block (sb_message sb))) \<noteq> None"
  unfolding record_block_fields by simp

lemma record_proposer_attestation_states:
  "t_states (fst (record_proposer_attestation H C sb verify ids s)) = t_states s"
  by (auto simp: record_proposer_attestation_def Let_def neutral_new.tables_kept neutral_gossip.tables_kept
      split: option.split result.split)

lemma update_head_states: "update_head s = Some s' \<Longrightarrow> t_states s' = t_states s"
  by (auto simp: update_head_def bind_eq_Some_conv)

text \<open>No invariant is needed for this: a block that was accepted has its state stored.\<close>

lemma on_block_Ok_state:
  assumes run: "on_block H C s sb ids = Some (s', Ok u)"
  shows "has_state s' (h_block H (bwa_block (sb_message sb)))"
proof (cases "has_state s (h_block H (bwa_block (sb_message sb)))")
  case True
  with run show ?thesis by (simp add: on_block_def on_block_core_def Let_def)
next
  case False
  with run obtain st s1 where h: "update_head (record_block H sb st s) = Some s1"
    "s' = fst (record_proposer_attestation H C sb True ids s1)"
    by (auto simp: on_block_def on_block_core_def Let_def split: option.split_asm result.split_asm)
  have "t_states s' = t_states (record_block H sb st s)"
    using h by (simp add: record_proposer_attestation_states update_head_states)
  with record_block_state [of H sb st s] show ?thesis by (simp add: has_state_def get_state_def)
qed

text \<open>
  A node publishes a block only after importing it: it is of the slot and by the validator that
  propose, and the store holds its state.
\<close>

lemma proposal_imported_before_published:
  assumes run: "propose_block H C sv slot v = Some (Ok sv')" and p2p: "sv_p2p sv = Some sent"
  shows "sv_p2p sv' = Some sent \<or> (\<exists>sb. sv_p2p sv' = Some (sent @ [PublishBlock sb]) \<and>
    has_state (sv_store sv') (h_block H (bwa_block (sb_message sb))) \<and>
    ad_slot (att_data (bwa_proposer_attestation (sb_message sb))) = slot \<and>
    att_validator_id (bwa_proposer_attestation (sb_message sb)) = v)"
proof -
  from run obtain s1 r where p: "produce_block_with_signatures H C (sv_store sv) slot v = Some (s1, r)"
    by (auto simp: propose_block_def bind_eq_Some_conv)
  show ?thesis
  proof (cases r)
    case (Ok x)
    obtain b sigs where x: "x = (b, sigs)" by (cases x)
    from run p Ok x obtain target where t: "get_attestation_target s1 = Some (Ok target)"
      by (auto simp: propose_block_def outcome_simps)
    let ?pa = "proposal_attestation H s1 slot v b target"
    show ?thesis
    proof (cases "sign_attestation H C (sv_key_manager sv) v (att_data ?pa)")
      case sg: (Ok psig)
      let ?sb = "\<lparr>sb_message = \<lparr>bwa_block = b, bwa_proposer_attestation = ?pa\<rparr>,
        sb_signature = \<lparr>bs_attestation_signatures = sigs, bs_proposer_signature = psig\<rparr>\<rparr>"
      from run p Ok x t sg obtain sv2 r2 where s2: "server_process_block H C (sv\<lparr>sv_store := s1\<rparr>) ?sb = Some (sv2, r2)"
        by (auto simp: propose_block_def Let_def bind_eq_Some_conv split: if_splits)
      with run p Ok x t sg have sv': "sv' = (case r2 of Ok _ \<Rightarrow> send (PublishBlock ?sb) sv2 | _ \<Rightarrow> sv2)"
        by (cases r2) (simp_all add: propose_block_def Let_def split: if_splits)
      have p2: "sv_p2p sv2 = Some sent" using s2 p2p by (auto simp: server_process_block_def)
      have "has_state (sv_store sv2) (h_block H b)" if "r2 = Ok u" for u
      proof -
        from s2 that obtain s' where
          "on_block H C s1 ?sb (validator_ids (sv_key_manager sv)) = Some (s', Ok ())" "sv_store sv2 = s'"
          by (auto simp: server_process_block_def outcome_simps)
        from on_block_Ok_state [OF this(1)] this(2) show ?thesis by simp
      qed
      with sv' p2 show ?thesis by (cases r2) (auto simp: proposal_attestation_def)
    qed (use run p Ok x t p2p in \<open>auto simp: propose_block_def Let_def\<close>)
  qed (use run p p2p in \<open>auto simp: propose_block_def\<close>)
qed

end
