(* ===== verification/Checkpoint_Sync.thy ===== *)
theory Checkpoint_Sync
  imports Server_Properties
begin

text \<open>
  Start-up from a checkpoint or from genesis: the checks of a downloaded state
  (\<open>bin/ethlambda/src/checkpoint_sync.rs\<close>) and the choice of the anchor state
  (\<open>fetch_initial_state\<close> of \<open>bin/ethlambda/src/main.rs\<close>). The HTTP client and the SSZ decoder of
  states are parameters.
\<close>

section \<open>Verification of a checkpoint state\<close>

datatype checkpoint_sync_error = Http | SszDecode | SlotIsZero | NoValidators
  | GenesisTimeMismatch u64 u64 | ValidatorCountMismatch nat nat
  | NonSequentialValidatorIndex nat u64 u64 | ValidatorPubkeyMismatch nat
  | FinalizedExceedsStateSlot | JustifiedPrecedesFinalized | JustifiedFinalizedRootMismatch
  | BlockHeaderSlotExceedsState | BlockHeaderFinalizedRootMismatch | BlockHeaderJustifiedRootMismatch

fun check_indices :: "nat \<Rightarrow> validator list \<Rightarrow> (unit, checkpoint_sync_error) result" where
  "check_indices position [] = Ok ()"
| "check_indices position (v # vs) =
     (if val_index v \<noteq> word_of_nat position
      then Err (NonSequentialValidatorIndex position (word_of_nat position) (val_index v))
      else check_indices (position + 1) vs)"

fun check_pubkeys :: "nat \<Rightarrow> (validator \<times> validator) list \<Rightarrow> (unit, checkpoint_sync_error) result" where
  "check_pubkeys i [] = Ok ()"
| "check_pubkeys i ((state_val, expected_val) # rest) =
     (if val_pubkey state_val \<noteq> val_pubkey expected_val then Err (ValidatorPubkeyMismatch i)
      else check_pubkeys (i + 1) rest)"

definition verify_checkpoint_state ::
  "hashing \<Rightarrow> state \<Rightarrow> u64 \<Rightarrow> validator list \<Rightarrow> (unit, checkpoint_sync_error) result" where
  "verify_checkpoint_state H st expected_genesis_time expected_validators =
     (if st_slot st = 0 then Err SlotIsZero
      else if st_validators st = [] then Err NoValidators
      else if cc_genesis_time (st_config st) \<noteq> expected_genesis_time
      then Err (GenesisTimeMismatch expected_genesis_time (cc_genesis_time (st_config st)))
      else if length (st_validators st) \<noteq> length expected_validators
      then Err (ValidatorCountMismatch (length expected_validators) (length (st_validators st)))
      else
        bind_res (check_indices 0 (st_validators st)) (\<lambda>_.
        bind_res (check_pubkeys 0 (zip (st_validators st) expected_validators)) (\<lambda>_.
          let fin = st_latest_finalized st; jus = st_latest_justified st; header = st_latest_block_header st;
              block_root = h_header H header
          in if cp_slot fin > st_slot st then Err FinalizedExceedsStateSlot
             else if cp_slot jus < cp_slot fin then Err JustifiedPrecedesFinalized
             else if cp_slot jus = cp_slot fin \<and> cp_root jus \<noteq> cp_root fin then Err JustifiedFinalizedRootMismatch
             else if hdr_slot header > st_slot st then Err BlockHeaderSlotExceedsState
             else if hdr_slot header = cp_slot fin \<and> block_root \<noteq> cp_root fin then Err BlockHeaderFinalizedRootMismatch
             else if hdr_slot header = cp_slot jus \<and> block_root \<noteq> cp_root jus then Err BlockHeaderJustifiedRootMismatch
             else Ok ())))"

section \<open>The initial store\<close>

text \<open>The HTTP body of a URL, and the state it encodes.\<close>

record checkpoint_source =
  src_get :: "string \<Rightarrow> bytes option"
  src_decode :: "bytes \<Rightarrow> state option"

definition fetch_checkpoint_state ::
  "hashing \<Rightarrow> checkpoint_source \<Rightarrow> string \<Rightarrow> u64 \<Rightarrow> validator list \<Rightarrow> (state, checkpoint_sync_error) result" where
  "fetch_checkpoint_state H S url expected_genesis_time expected_validators =
     bind_res (ok_or (src_get S url) Http) (\<lambda>bytes.
     bind_res (ok_or (src_decode S bytes) SszDecode) (\<lambda>st.
     bind_res (verify_checkpoint_state H st expected_genesis_time expected_validators) (\<lambda>_. Ok st)))"

definition fetch_initial_state ::
  "hashing \<Rightarrow> checkpoint_source \<Rightarrow> string option \<Rightarrow> genesis_config \<Rightarrow> tables \<Rightarrow>
   (store, checkpoint_sync_error) result" where
  "fetch_initial_state H S checkpoint_url genesis backend =
     (let validators = genesis_validators_of genesis
      in case checkpoint_url of
           None \<Rightarrow>
             bind_res (from_genesis H (gc_genesis_time genesis) validators) (from_anchor_state H backend)
         | Some url \<Rightarrow>
             bind_res (fetch_checkpoint_state H S url (gc_genesis_time genesis) validators)
               (from_anchor_state H backend))"

section \<open>What is checked\<close>

lemma check_indices_Ok_iff:
  "check_indices n vs = Ok () \<longleftrightarrow> map val_index vs = map word_of_nat [n ..< n + length vs]"
proof (induction vs arbitrary: n)
  case (Cons v vs)
  have "[n ..< n + length (v # vs)] = n # [Suc n ..< Suc n + length vs]" by (subst upt_conv_Cons) auto
  with Cons [of "Suc n"] show ?case by auto
qed simp

lemma check_pubkeys_Ok_iff:
  "length vs = length ws \<Longrightarrow> check_pubkeys n (zip vs ws) = Ok () \<longleftrightarrow> map val_pubkey vs = map val_pubkey ws"
  by (induction vs ws arbitrary: n rule: list_induct2) auto

lemma check_indices_no_Panic [simp]: "check_indices n vs \<noteq> Panic"
  by (induction n vs rule: check_indices.induct) simp_all

lemma check_pubkeys_no_Panic [simp]: "check_pubkeys n ps \<noteq> Panic"
  by (induction n ps rule: check_pubkeys.induct) simp_all

lemma validators_eqI:
  assumes "map val_index vs = map val_index ws" and "map val_pubkey vs = map val_pubkey ws"
  shows "vs = (ws :: validator list)"
proof -
  have "length vs = length ws" using assms(1) by (rule map_eq_imp_length_eq)
  then show ?thesis using assms by (induction vs ws rule: list_induct2) (auto intro: validator.equality)
qed

lemma genesis_validators_index:
  "map val_index (genesis_validators_of gc) = map word_of_nat [0 ..< length (gc_genesis_validators gc)]"
  by (auto simp: genesis_validators_of_def enumerate_eq_zip intro!: nth_equalityI)

lemma validators_check_iff:
  fixes vs :: "validator list" and gc :: genesis_config
  defines "ws \<equiv> genesis_validators_of gc"
  shows "length vs = length ws \<and> check_indices 0 vs = Ok () \<and> check_pubkeys 0 (zip vs ws) = Ok () \<longleftrightarrow> vs = ws"
proof
  assume a: "length vs = length ws \<and> check_indices 0 vs = Ok () \<and> check_pubkeys 0 (zip vs ws) = Ok ()"
  then have "map val_pubkey vs = map val_pubkey ws" using check_pubkeys_Ok_iff [of vs ws 0] by blast
  with a show "vs = ws"
    using genesis_validators_index [of gc]
    by (intro validators_eqI) (simp_all add: check_indices_Ok_iff ws_def)
next
  assume "vs = ws"
  then show "length vs = length ws \<and> check_indices 0 vs = Ok () \<and> check_pubkeys 0 (zip vs ws) = Ok ()"
    using genesis_validators_index [of gc] check_pubkeys_Ok_iff [of ws ws 0]
    by (simp add: check_indices_Ok_iff ws_def)
qed

lemma verify_checkpoint_no_Panic: "verify_checkpoint_state H st t vs \<noteq> Panic"
  by (simp add: verify_checkpoint_state_def Let_def outcome_simps)

lemma verify_checkpoint_Ok_iff:
  "verify_checkpoint_state H st (gc_genesis_time gc) (genesis_validators_of gc) = Ok () \<longleftrightarrow>
     st_slot st \<noteq> 0 \<and> st_validators st \<noteq> [] \<and> cc_genesis_time (st_config st) = gc_genesis_time gc \<and>
     st_validators st = genesis_validators_of gc \<and>
     cp_slot (st_latest_finalized st) \<le> st_slot st \<and>
     cp_slot (st_latest_finalized st) \<le> cp_slot (st_latest_justified st) \<and>
     hdr_slot (st_latest_block_header st) \<le> st_slot st \<and>
     (cp_slot (st_latest_justified st) = cp_slot (st_latest_finalized st) \<longrightarrow>
        cp_root (st_latest_justified st) = cp_root (st_latest_finalized st)) \<and>
     (hdr_slot (st_latest_block_header st) = cp_slot (st_latest_finalized st) \<longrightarrow>
        h_header H (st_latest_block_header st) = cp_root (st_latest_finalized st)) \<and>
     (hdr_slot (st_latest_block_header st) = cp_slot (st_latest_justified st) \<longrightarrow>
        h_header H (st_latest_block_header st) = cp_root (st_latest_justified st))"
  using validators_check_iff [of "st_validators st" gc]
  by (auto simp: verify_checkpoint_state_def Let_def outcome_simps not_less split: if_splits)

text \<open>
  C36. What checkpoint sync accepts. Against the genesis configuration, a downloaded state is
  accepted exactly when it is past slot 0, has the genesis time and exactly the validators of the
  configuration, and its slots are in order (finalized up to justified, finalized and header up to
  the state's slot), with equal roots where checkpoints and header share a slot. There is no panic.
\<close>

theorem verify_checkpoint_acceptance:
  "(verify_checkpoint_state H st (gc_genesis_time gc) (genesis_validators_of gc) = Ok () \<longleftrightarrow>
     st_slot st \<noteq> 0 \<and> st_validators st \<noteq> [] \<and> cc_genesis_time (st_config st) = gc_genesis_time gc \<and>
     st_validators st = genesis_validators_of gc \<and>
     cp_slot (st_latest_finalized st) \<le> st_slot st \<and>
     cp_slot (st_latest_finalized st) \<le> cp_slot (st_latest_justified st) \<and>
     hdr_slot (st_latest_block_header st) \<le> st_slot st \<and>
     (cp_slot (st_latest_justified st) = cp_slot (st_latest_finalized st) \<longrightarrow>
        cp_root (st_latest_justified st) = cp_root (st_latest_finalized st)) \<and>
     (hdr_slot (st_latest_block_header st) = cp_slot (st_latest_finalized st) \<longrightarrow>
        h_header H (st_latest_block_header st) = cp_root (st_latest_finalized st)) \<and>
     (hdr_slot (st_latest_block_header st) = cp_slot (st_latest_justified st) \<longrightarrow>
        h_header H (st_latest_block_header st) = cp_root (st_latest_justified st))) \<and>
   verify_checkpoint_state H st (gc_genesis_time gc) (genesis_validators_of gc) \<noteq> Panic"
  using verify_checkpoint_no_Panic
  by (simp add: verify_checkpoint_Ok_iff)

definition demo_genesis_config :: genesis_config where
  "demo_genesis_config = \<lparr>gc_genesis_time = 12, gc_genesis_validators = [[0], [1], [2]]\<rparr>"

lemma demo_genesis_validators: "genesis_validators_of demo_genesis_config = demo_validators"
  by (simp add: demo_genesis_config_def genesis_validators_of_def demo_validators_def upt_rec)

theorem verify_checkpoint_acceptance_witness:
  "verify_checkpoint_state demo_hashing (demo_state 2 0 1 [2000, 2001] [True] 1)
     (gc_genesis_time demo_genesis_config) (genesis_validators_of demo_genesis_config) = Ok ()"
  using verify_checkpoint_acceptance [of demo_hashing "demo_state 2 0 1 [2000, 2001] [True] 1" demo_genesis_config]
  unfolding demo_genesis_validators by (simp add: demo_genesis_config_def demo_defs upt_rec)

section \<open>What is not checked\<close>

definition tampered_state :: state where
  "tampered_state = (demo_state 2 0 1 [2000, 2001] [True] 1)\<lparr>st_justifications_roots := [2002]\<rparr>"

text \<open>
  The justification bookkeeping is not among the checks: a state with one justification root and no
  votes is accepted, and the next block panics on it.
\<close>

lemma checkpoint_verification_incomplete:
  "verify_checkpoint_state demo_hashing tampered_state 12 demo_validators = Ok () \<and>
   state_transition demo_hashing tampered_state (demo_block 3 [demo_attestation 1 2]) = Panic"
proof
  show "verify_checkpoint_state demo_hashing tampered_state 12 demo_validators = Ok ()"
    by (simp add: verify_checkpoint_state_def tampered_state_def demo_defs upt_rec Let_def outcome_simps)
  show "state_transition demo_hashing tampered_state (demo_block 3 [demo_attestation 1 2]) = Panic"
    by (simp add: tampered_state_def transition_defs demo_defs attestation_defs)
qed

section \<open>The anchor\<close>

text \<open>
  The state a node starts on is the genesis state of the configuration, which is well formed, or the
  one downloaded, which has passed the checks (they do not make it well formed, see
  \<open>checkpoint_verification_incomplete\<close>). Either way it has the validators and the genesis time of the
  configuration.
\<close>

definition anchored_on :: "hashing \<Rightarrow> checkpoint_source \<Rightarrow> string option \<Rightarrow> genesis_config \<Rightarrow> state \<Rightarrow> bool" where
  "anchored_on H S url gc st \<longleftrightarrow> (case url of
       None \<Rightarrow> from_genesis H (gc_genesis_time gc) (genesis_validators_of gc) = (Ok st :: (state, checkpoint_sync_error) result)
     | Some u \<Rightarrow> (\<exists>bs. src_get S u = Some bs \<and> src_decode S bs = Some st \<and>
         verify_checkpoint_state H st (gc_genesis_time gc) (genesis_validators_of gc) = Ok ()))"

lemma anchored_on_keeps:
  assumes "anchored_on H S url gc st"
  shows "st_validators st = genesis_validators_of gc" and "cc_genesis_time (st_config st) = gc_genesis_time gc"
    and "url = None \<Longrightarrow> wf_state st"
proof -
  have "st_validators st = genesis_validators_of gc \<and> cc_genesis_time (st_config st) = gc_genesis_time gc \<and>
      (url = None \<longrightarrow> wf_state st)"
  proof (cases url)
    case None
    with assms have "from_genesis H (gc_genesis_time gc) (genesis_validators_of gc) =
        (Ok st :: (state, checkpoint_sync_error) result)" by (simp add: anchored_on_def)
    from from_genesis_Ok [OF this] show ?thesis by simp
  next
    case (Some u)
    with assms show ?thesis by (auto simp: anchored_on_def verify_checkpoint_Ok_iff)
  qed
  then show "st_validators st = genesis_validators_of gc" "cc_genesis_time (st_config st) = gc_genesis_time gc"
    "url = None \<Longrightarrow> wf_state st" by simp_all
qed

lemma fetch_initial_state_anchor:
  assumes "fetch_initial_state H S url gc db = Ok s"
  obtains st where "anchored_on H S url gc st"
    and "init_store H db st None = (Ok s :: (store, checkpoint_sync_error) result)"
  using assms by (cases url) (auto simp: anchored_on_def fetch_initial_state_def fetch_checkpoint_state_def
      from_anchor_state_def Let_def outcome_simps)

end
