(* ===== verification/Fork_Choice_Tree.thy ===== *)
theory Fork_Choice_Tree
  imports Fork_Choice Keys
begin

text \<open>
  The fork choice tree that a tick logs (\<open>crates/blockchain/src/fork_choice_tree.rs\<close>). The output is
  the string of the UTF-8 bytes that the code appends to its buffer; indexing a map with a missing
  key and \<open>expect\<close> are panics. The display depth bounds both loops and the recursion, so the
  functions are total.
\<close>

section \<open>Text\<close>

definition MAX_DISPLAY_DEPTH :: nat where
  "MAX_DISPLAY_DEPTH = 20"

definition hex_digit :: "nat \<Rightarrow> char" where
  "hex_digit n = (if n < 10 then char_of (48 + n) else char_of (87 + n))"

definition short_root :: "H256 \<Rightarrow> string" where
  "short_root root = concat (map (\<lambda>byte. [hex_digit (unat byte div 16), hex_digit (unat byte mod 16)])
     (take 4 (root_bytes root)))"

definition newline :: string where
  "newline = [CHR 0x0A]"

text \<open>The code points U+2500, U+2514, U+251C and U+2502.\<close>

definition horizontal :: string where
  "horizontal = [CHR 0xE2, CHR 0x94, CHR 0x80]"

definition corner :: string where
  "corner = [CHR 0xE2, CHR 0x94, CHR 0x94]"

definition tee :: string where
  "tee = [CHR 0xE2, CHR 0x94, CHR 0x9C]"

definition vertical :: string where
  "vertical = [CHR 0xE2, CHR 0x94, CHR 0x82]"

section \<open>The renderer\<close>

record tree_renderer =
  tr_blocks :: block_map
  tr_children_map :: "(H256 \<times> H256 list) list"
  tr_weights :: weight_map
  tr_head :: H256

definition render_gap :: "u64 option \<Rightarrow> u64 \<Rightarrow> nat \<Rightarrow> string \<times> nat" where
  "render_gap prev_slot slot depth =
     (case prev_slot of
        None \<Rightarrow> ([], depth)
      | Some ps \<Rightarrow>
          (let gap = saturating_sub (saturating_sub slot ps) 1
           in if gap = 1 then (''[ ]'' @ horizontal @ horizontal @ '' '', depth + 1)
              else if gap > 1 then (''['' @ decimal (unat gap) @ '']'' @ horizontal @ horizontal @ '' '', depth + 1)
              else ([], depth)))"

definition render_node :: "H256 \<Rightarrow> u64 \<Rightarrow> string" where
  "render_node root slot = short_root root @ ''('' @ decimal (unat slot) @ '')''"

definition find_tree_root :: "block_map \<Rightarrow> (H256, unit) result" where
  "find_tree_root blocks =
     expect (map_option fst (min_by_key (\<lambda>(_, slot, _). slot)
       (filter (\<lambda>(_, _, parent). parent = 0 \<or> map_of blocks parent = None) blocks)))"

text \<open>The children of every block, the heaviest first and the highest root first among equals.\<close>

definition tree_children :: "block_map \<Rightarrow> weight_map \<Rightarrow> (H256 \<times> H256 list) list" where
  "tree_children blocks weights =
     map (\<lambda>(parent, children). (parent, rev (sort_key (\<lambda>root. (weight weights root, root)) children)))
       (fold (\<lambda>(root, _, parent_root) children_map.
          if parent_root \<noteq> 0 \<and> map_of blocks parent_root \<noteq> None
          then AList.update parent_root
                 ((case map_of children_map parent_root of None \<Rightarrow> [] | Some cs \<Rightarrow> cs) @ [root]) children_map
          else children_map) blocks [])"

text \<open>The trunk: its text, its last node and the depth reached.\<close>

function render_trunk_loop ::
  "tree_renderer \<Rightarrow> H256 \<Rightarrow> nat \<Rightarrow> u64 option \<Rightarrow> (string \<times> H256 \<times> nat, unit) result" where
  "render_trunk_loop R current depth prev_slot =
     bind_res (expect (map_of (tr_blocks R) current)) (\<lambda>(slot, _).
       (case render_gap prev_slot slot depth of
          (gap, depth1) \<Rightarrow>
            (let out = gap @ render_node current slot; depth2 = depth1 + 1
             in if depth2 \<ge> MAX_DISPLAY_DEPTH then Ok (out @ horizontal @ horizontal @ '' ...'', current, depth2)
                else case map_of (tr_children_map R) current of
                       Some [child] \<Rightarrow>
                         bind_res (render_trunk_loop R child depth2 (Some slot)) (\<lambda>(out', tip, d).
                           Ok (out @ horizontal @ horizontal @ '' '' @ out', tip, d))
                     | _ \<Rightarrow> Ok (out, current, depth2))))"
  by pat_completeness auto
termination
  by (relation "measure (\<lambda>(_, _, depth, _). MAX_DISPLAY_DEPTH - depth)")
    (auto simp: render_gap_def Let_def split: option.splits if_splits)

declare render_trunk_loop.simps [simp del]

definition render_trunk :: "tree_renderer \<Rightarrow> H256 \<Rightarrow> (string \<times> H256 \<times> nat, unit) result" where
  "render_trunk R root =
     bind_res (render_trunk_loop R root 0 None) (\<lambda>(out, tip, depth). Ok (''  '' @ out, tip, depth))"

text \<open>Branches and the lines under them.\<close>

definition parent_slot :: "tree_renderer \<Rightarrow> H256 \<Rightarrow> u64 option" where
  "parent_slot R root =
     Option.bind (map_of (tr_blocks R) root) (\<lambda>(_, parent). map_option fst (map_of (tr_blocks R) parent))"

function render_branches :: "tree_renderer \<Rightarrow> H256 list \<Rightarrow> string \<Rightarrow> nat \<Rightarrow> (string, unit) result"
  and render_branch_line ::
    "tree_renderer \<Rightarrow> H256 \<Rightarrow> string \<Rightarrow> string \<Rightarrow> nat \<Rightarrow> u64 option \<Rightarrow> (string, unit) result" where
  "render_branches R [] prefix depth = Ok []"
| "render_branches R (child # rest) prefix depth =
     (let is_last = (rest = []);
          connector = (if is_last then corner else tee) @ horizontal @ horizontal @ '' '';
          continuation = (if is_last then ''    '' else vertical @ ''   '')
      in bind_res (render_branch_line R child prefix continuation depth (parent_slot R child)) (\<lambda>line.
         bind_res (render_branches R rest prefix depth) (\<lambda>out. Ok (prefix @ connector @ line @ out))))"
| "render_branch_line R current prefix continuation depth prev_slot =
     bind_res (expect (map_of (tr_blocks R) current)) (\<lambda>(slot, _).
       (case render_gap prev_slot slot depth of
          (gap, depth1) \<Rightarrow>
            (let is_head = (current = tr_head R);
                 marker = (if is_head then '' *'' else []);
                 out = gap @ render_node current slot; depth2 = depth1 + 1
             in if depth2 \<ge> MAX_DISPLAY_DEPTH then Ok (out @ horizontal @ horizontal @ '' ...'' @ newline)
                else case (case map_of (tr_children_map R) current of None \<Rightarrow> [] | Some cs \<Rightarrow> cs) of
                       [] \<Rightarrow> Ok (out @ marker @ ''  [w:'' @ decimal (unat (weight (tr_weights R) current)) @ '']'' @ newline)
                     | [only_child] \<Rightarrow>
                         bind_res (render_branch_line R only_child prefix continuation depth2 (Some slot)) (\<lambda>line.
                           Ok (out @ marker @ horizontal @ horizontal @ '' '' @ line))
                     | children \<Rightarrow>
                         bind_res (render_branches R children (prefix @ continuation) depth2) (\<lambda>sub.
                           Ok (out @ marker @ '' '' @ horizontal @ '' '' @ decimal (length children) @ '' branches'' @
                               newline @ sub)))))"
  by pat_completeness auto
termination
  by (relation "inv_image (less_than <*lex*> less_than)
      (\<lambda>x. case x of Inl (_, cs, _, depth) \<Rightarrow> (MAX_DISPLAY_DEPTH - depth, Suc (length cs))
                  | Inr (_, _, _, _, depth, _) \<Rightarrow> (MAX_DISPLAY_DEPTH - depth, 0))")
    (auto simp: render_gap_def Let_def split: option.splits if_splits)

declare render_branch_line.simps [simp del]

definition format_header :: "block_map \<Rightarrow> H256 \<Rightarrow> checkpoint \<Rightarrow> checkpoint \<Rightarrow> string" where
  "format_header blocks head justified finalized =
     ''Fork Choice Tree:'' @ newline @
     ''  Finalized: slot '' @ decimal (unat (cp_slot finalized)) @ '' | root '' @ short_root (cp_root finalized) @ newline @
     ''  Justified: slot '' @ decimal (unat (cp_slot justified)) @ '' | root '' @ short_root (cp_root justified) @ newline @
     ''  Head:      slot '' @ decimal (unat (case map_of blocks head of Some (slot, _) \<Rightarrow> slot | None \<Rightarrow> 0)) @
       '' | root '' @ short_root head @ newline"

definition format_fork_choice_tree ::
  "block_map \<Rightarrow> weight_map \<Rightarrow> H256 \<Rightarrow> checkpoint \<Rightarrow> checkpoint \<Rightarrow> (string, unit) result" where
  "format_fork_choice_tree blocks weights head justified finalized =
     (let output = format_header blocks head justified finalized
      in if blocks = [] then Ok (output @ newline @ ''  (empty)'' @ newline)
         else
           (let children_map = tree_children blocks weights;
                R = \<lparr>tr_blocks = blocks, tr_children_map = children_map, tr_weights = weights, tr_head = head\<rparr>
            in bind_res (find_tree_root blocks) (\<lambda>tree_root.
               bind_res (render_trunk R tree_root) (\<lambda>(trunk, trunk_tip, trunk_depth).
                 (let children = (case map_of children_map trunk_tip of None \<Rightarrow> [] | Some cs \<Rightarrow> cs);
                      start = output @ newline @ trunk
                  in if length children > 1
                     then bind_res (render_branches R children ''  '' trunk_depth) (\<lambda>branches.
                            Ok (start @ '' '' @ horizontal @ '' '' @ decimal (length children) @ '' branches'' @
                                newline @ branches))
                     else if trunk_tip = head then Ok (start @ '' *'' @ newline)
                     else Ok (start @ newline))))))"

section \<open>Properties\<close>

text \<open>A renderer whose children are blocks.\<close>

definition renderer_ok :: "tree_renderer \<Rightarrow> bool" where
  "renderer_ok R \<longleftrightarrow> (\<forall>p cs c. map_of (tr_children_map R) p = Some cs \<longrightarrow> c \<in> set cs \<longrightarrow> map_of (tr_blocks R) c \<noteq> None)"

lemma renderer_okD:
  "renderer_ok R \<Longrightarrow> map_of (tr_children_map R) p = Some cs \<Longrightarrow> c \<in> set cs \<Longrightarrow> \<exists>sp. map_of (tr_blocks R) c = Some sp"
  unfolding renderer_ok_def by blast

lemma render_gap_depth: "render_gap prev slot depth = (gap, d) \<Longrightarrow> depth \<le> d"
  by (auto simp: render_gap_def Let_def split: option.splits if_splits)

lemma render_trunk_loop_run:
  assumes ok: "renderer_ok R"
  shows "map_of (tr_blocks R) root = Some sp \<Longrightarrow>
    \<exists>out tip d. render_trunk_loop R root depth prev = Ok (out, tip, d)"
proof (induction "MAX_DISPLAY_DEPTH - depth" arbitrary: root depth prev sp rule: less_induct)
  case less
  obtain slot q where sp: "sp = (slot, q)" by (cases sp)
  obtain gap d where g: "render_gap prev slot depth = (gap, d)" by (cases "render_gap prev slot depth")
  note simps = render_trunk_loop.simps [of R root depth prev] less.prems sp g Let_def
  show ?case
  proof (cases "\<exists>child. map_of (tr_children_map R) root = Some [child] \<and> d + 1 < MAX_DISPLAY_DEPTH")
    case True
    then obtain child where c: "map_of (tr_children_map R) root = Some [child]" "d + 1 < MAX_DISPLAY_DEPTH" by blast
    from renderer_okD [OF ok c(1)] obtain sp' where "map_of (tr_blocks R) child = Some sp'" by auto
    moreover from render_gap_depth [OF g] c(2) have "MAX_DISPLAY_DEPTH - (d + 1) < MAX_DISPLAY_DEPTH - depth" by simp
    ultimately obtain out tip d' where "render_trunk_loop R child (d + 1) (Some slot) = Ok (out, tip, d')"
      using less.hyps by blast
    with c show ?thesis by (simp add: simps)
  next
    case False
    then show ?thesis by (auto simp: simps split: option.splits list.splits)
  qed
qed

lemma render_branches_lines:
  assumes "\<And>c k. c \<in> set cs \<Longrightarrow> \<exists>line. render_branch_line R c prefix k depth (parent_slot R c) = Ok line"
  shows "\<exists>out. render_branches R cs prefix depth = Ok out"
  using assms
proof (induction cs)
  case (Cons c cs)
  from Cons.IH [OF Cons.prems] obtain out where out: "render_branches R cs prefix depth = Ok out" by auto
  let ?k = "if cs = [] then ''    '' else vertical @ ''   ''"
  from Cons.prems [of c ?k] obtain line where "render_branch_line R c prefix ?k depth (parent_slot R c) = Ok line" by auto
  with out show ?case by (simp add: Let_def)
qed simp

lemma render_branch_line_run:
  assumes ok: "renderer_ok R"
  shows "map_of (tr_blocks R) root = Some sp \<Longrightarrow> \<exists>out. render_branch_line R root prefix k depth prev = Ok out"
proof (induction "MAX_DISPLAY_DEPTH - depth" arbitrary: root prefix k depth prev sp rule: less_induct)
  case less
  obtain slot q where sp: "sp = (slot, q)" by (cases sp)
  obtain gap d where g: "render_gap prev slot depth = (gap, d)" by (cases "render_gap prev slot depth")
  let ?cs = "case map_of (tr_children_map R) root of None \<Rightarrow> [] | Some cs \<Rightarrow> cs"
  note simps = render_branch_line.simps [of R root prefix k depth prev] less.prems sp g Let_def
  show ?case
  proof (cases "d + 1 < MAX_DISPLAY_DEPTH")
    case True
    with render_gap_depth [OF g] have lt: "MAX_DISPLAY_DEPTH - (d + 1) < MAX_DISPLAY_DEPTH - depth" by auto
    have kid: "\<exists>sp. map_of (tr_blocks R) c = Some sp" if "c \<in> set ?cs" for c
      using that renderer_okD [OF ok, of root] by (cases "map_of (tr_children_map R) root") auto
    have line: "\<exists>out. render_branch_line R c prefix' k' (d + 1) prev' = Ok out" if "c \<in> set ?cs" for c prefix' k' prev'
      using less.hyps [OF lt] kid [OF that] by blast
    from render_branches_lines [OF line] obtain sub where
      sub: "render_branches R ?cs (prefix @ k) (d + 1) = Ok sub" by blast
    show ?thesis
    proof (cases ?cs)
      case Nil
      with True show ?thesis by (simp add: simps)
    next
      case (Cons c cs)
      show ?thesis
      proof (cases cs)
        case Nil
        from line [of c prefix k "Some slot"] Cons obtain out where
          "render_branch_line R c prefix k (d + 1) (Some slot) = Ok out" by auto
        with Nil Cons True show ?thesis by (simp add: simps)
      qed (use Cons True sub in \<open>simp add: simps\<close>)
    qed
  qed (simp add: simps)
qed

lemma tree_children_fold:
  "tree_children blocks weights =
     map (\<lambda>(parent, children). (parent, rev (sort_key (\<lambda>root. (weight weights root, root)) children)))
       (children_map_of weights 0 (filter (\<lambda>(_, _, parent). map_of blocks parent \<noteq> None) blocks))"
proof -
  have "fold (\<lambda>(root, _, parent_root) children_map.
          if parent_root \<noteq> 0 \<and> map_of blocks parent_root \<noteq> None
          then AList.update parent_root
                 ((case map_of children_map parent_root of None \<Rightarrow> [] | Some cs \<Rightarrow> cs) @ [root]) children_map
          else children_map) xs cm =
      fold (push_child weights 0) (filter (\<lambda>(_, _, parent). map_of blocks parent \<noteq> None) xs) cm" for xs cm
    by (induction xs arbitrary: cm) (auto simp: push_child_def)
  then show ?thesis by (simp add: tree_children_def children_map_of_def)
qed

lemma map_of_tree_children:
  "(case map_of (tree_children blocks weights) h of None \<Rightarrow> [] | Some cs \<Rightarrow> cs) =
     rev (sort_key (\<lambda>root. (weight weights root, root))
       (map fst (filter (\<lambda>(_, _, parent). parent = h \<and> h \<noteq> 0 \<and> map_of blocks parent \<noteq> None) blocks)))"
proof -
  let ?cm = "children_map_of weights 0 (filter (\<lambda>(_, _, parent). map_of blocks parent \<noteq> None) blocks)"
  have "(case map_of ?cm h of None \<Rightarrow> [] | Some cs \<Rightarrow> cs) =
      map fst (filter (\<lambda>(_, _, parent). parent = h \<and> h \<noteq> 0 \<and> map_of blocks parent \<noteq> None) blocks)"
    unfolding children_map_of_def map_of_children_map
    by (simp add: filter_filter conj_commute case_prod_unfold conj_left_commute)
  then show ?thesis
    unfolding tree_children_fold map_of_map by (cases "map_of ?cm h") auto
qed

lemma find_tree_root_run:
  assumes "block_tree blocks" and "blocks \<noteq> []"
  shows "\<exists>r. find_tree_root blocks = Ok r \<and> map_of blocks r \<noteq> None"
proof -
  let ?top = "\<lambda>(_ :: H256, _ :: u64, parent). parent = 0 \<or> map_of blocks parent = None"
  from assms(2) obtain b where b: "min_by_key (\<lambda>(_, slot, _). slot) blocks = Some b" by (cases blocks) auto
  obtain r slot p where rsp: "b = (r, slot, p)" by (cases b)
  have bm: "b \<in> set blocks" and least: "\<And>y. y \<in> set blocks \<Longrightarrow> (\<lambda>(_, slot, _). slot) b \<le> (\<lambda>(_, slot, _). slot) y"
    using min_by_key_Some [OF b] by auto
  have "map_of blocks p = None"
  proof (rule ccontr)
    assume "map_of blocks p \<noteq> None"
    then obtain ps q where p: "map_of blocks p = Some (ps, q)" by auto
    from assms(1) bm rsp p have "ps < slot" by (auto simp: block_tree_def)
    moreover from least [OF map_of_SomeD [OF p]] rsp have "slot \<le> ps" by simp
    ultimately show False by simp
  qed
  with bm rsp have "filter ?top blocks \<noteq> []" by (auto simp: filter_empty_conv)
  then obtain c where c: "min_by_key (\<lambda>(_, slot, _). slot) (filter ?top blocks) = Some c"
    by (cases "filter ?top blocks") auto
  from min_by_key_Some(1) [OF c] have "c \<in> set blocks" by simp
  then have "map_of blocks (fst c) \<noteq> None" unfolding map_of_eq_None_iff by simp
  with c show ?thesis by (simp add: find_tree_root_def)
qed

lemma tree_children_blocks:
  assumes "map_of (tree_children blocks weights) h = Some cs" and "c \<in> set cs"
  shows "map_of blocks c \<noteq> None"
proof -
  from map_of_tree_children [of blocks weights h] assms have "c \<in> fst ` set blocks" by auto
  then show ?thesis unfolding map_of_eq_None_iff by simp
qed

text \<open>
  The tree of a block tree is always printed: the code never indexes a missing block, finds a root
  and stops at the display depth.
\<close>

lemma format_fork_choice_tree_total:
  assumes "block_tree blocks"
  shows "\<exists>out. format_fork_choice_tree blocks weights head justified finalized = Ok out"
proof (cases "blocks = []")
  case False
  define R where "R = \<lparr>tr_blocks = blocks, tr_children_map = tree_children blocks weights,
    tr_weights = weights, tr_head = head\<rparr>"
  have ok: "renderer_ok R" by (auto simp: renderer_ok_def R_def dest: tree_children_blocks)
  from find_tree_root_run [OF assms False] obtain r sp where
    r: "find_tree_root blocks = Ok r" "map_of (tr_blocks R) r = Some sp" by (auto simp: R_def)
  from render_trunk_loop_run [OF ok r(2), of 0 None] obtain trunk tip d where
    t: "render_trunk R r = Ok (''  '' @ trunk, tip, d)" by (auto simp: render_trunk_def)
  let ?cs = "case map_of (tree_children blocks weights) tip of None \<Rightarrow> [] | Some cs \<Rightarrow> cs"
  have "\<exists>sp. map_of (tr_blocks R) c = Some sp" if "c \<in> set ?cs" for c
    using that tree_children_blocks [of blocks weights tip _ c]
    by (cases "map_of (tree_children blocks weights) tip") (auto simp: R_def)
  then have "\<exists>out. render_branches R ?cs ''  '' d = Ok out"
    using render_branch_line_run [OF ok] by (intro render_branches_lines) blast
  then obtain out where "render_branches R ?cs ''  '' d = Ok out" ..
  with False r t show ?thesis
    unfolding format_fork_choice_tree_def R_def [symmetric] Let_def by simp
qed (simp add: format_fork_choice_tree_def)

text \<open>The first branch shown under a block is the child to which LMD-GHOST descends.\<close>

lemma hd_rev_sort_key:
  fixes f :: "'a \<Rightarrow> 'k::linorder"
  assumes "xs \<noteq> []" and "inj_on f (set xs)"
  shows "max_by_key f xs = Some (hd (rev (sort_key f xs)))"
proof -
  let ?ys = "sort_key f xs"
  have ne: "?ys \<noteq> []" using assms(1) by (metis set_empty set_sort)
  have l: "last ?ys \<in> set xs" using last_in_set [OF ne] by simp
  have "f y \<le> f (last ?ys)" if "y \<in> set xs" for y
  proof -
    from that obtain i where i: "i < length ?ys" "?ys ! i = y" by (metis in_set_conv_nth set_sort)
    have "map f ?ys ! i \<le> map f ?ys ! (length ?ys - 1)"
      using i by (intro sorted_nth_mono) auto
    with i ne show ?thesis by (simp add: last_conv_nth)
  qed
  with l assms obtain x where x: "max_by_key f xs = Some x" by (cases xs) auto
  from max_by_key_unique [OF x assms(2) l] \<open>\<And>y. y \<in> set xs \<Longrightarrow> f y \<le> f (last ?ys)\<close>
  have "x = last ?ys" by blast
  with x ne show ?thesis by (simp add: hd_rev)
qed

lemma first_branch_is_ghost_child:
  assumes "map_of blocks h \<noteq> None" and "map_of (tree_children blocks weights) h = Some (c # cs)"
  shows "max_by_key (\<lambda>root. (weight weights root, root))
    (case map_of (children_map_of weights 0 blocks) h of None \<Rightarrow> [] | Some ds \<Rightarrow> ds) = Some c"
proof -
  let ?f = "\<lambda>root. (weight weights root, root)"
  let ?xs = "map fst (filter (\<lambda>(_, _, parent). parent = h \<and> h \<noteq> 0) blocks)"
  have "(\<lambda>(_ :: H256, _ :: u64, parent). parent = h \<and> h \<noteq> 0 \<and> map_of blocks parent \<noteq> None) =
      (\<lambda>(_, _, parent). parent = h \<and> h \<noteq> 0)" using assms(1) by auto
  with map_of_tree_children [of blocks weights h] assms(2) have s: "rev (sort_key ?f ?xs) = c # cs" by simp
  then have "?xs \<noteq> []" by auto
  from hd_rev_sort_key [OF this, of ?f] s have "max_by_key ?f ?xs = Some c" by (simp add: inj_on_def)
  moreover have "(case map_of (children_map_of weights 0 blocks) h of None \<Rightarrow> [] | Some ds \<Rightarrow> ds) = ?xs"
    unfolding children_map_of_def map_of_children_map by simp
  ultimately show ?thesis by simp
qed

end
