(* ===== verification/Wire_Codec.thy ===== *)
theory Wire_Codec
  imports Example_Chain
begin

text \<open>
  The request/response wire format (\<open>crates/net/p2p/src/req_resp/encoding.rs\<close>, \<open>messages.rs\<close> and
  \<open>codec.rs\<close>): varints, length-prefixed snappy payloads, and the requests and responses of the status
  and blocks-by-root protocols. A stream is the list of bytes up to its end. The snappy frame
  compressor and the SSZ encodings are parameters. Shifts by 32 bits or more use the low five bits
  of the amount, as compiled code without overflow checks does.
\<close>

unbundle bit_operations_syntax

section \<open>Varints\<close>

datatype io_error = UnexpectedEof | InvalidData string | SnappyError

fun encode_varint_loop :: "nat \<Rightarrow> u32 \<Rightarrow> bytes" where
  "encode_varint_loop 0 value = []"
| "encode_varint_loop (Suc n) value =
     (let byte = ucast (value AND 0x7F) :: u8; value' = drop_bit 7 value
      in if value' \<noteq> 0 then (byte OR 0x80) # encode_varint_loop n value' else [byte])"

definition encode_varint :: "u32 \<Rightarrow> bytes" where
  "encode_varint value = encode_varint_loop 5 value"

fun decode_varint_loop :: "nat \<Rightarrow> u32 \<Rightarrow> bytes \<Rightarrow> (u32 \<times> bytes) option" where
  "decode_varint_loop i result [] = None"
| "decode_varint_loop i result (byte # rest) =
     (let value = ucast (byte AND 0x7F) :: u32;
          result' = result OR push_bit ((7 * i) mod 32) value
      in if byte AND 0x80 = 0 then Some (result', rest) else decode_varint_loop (i + 1) result' rest)"

definition decode_varint :: "bytes \<Rightarrow> (u32 \<times> bytes, io_error) result" where
  "decode_varint buf = ok_or (decode_varint_loop 0 0 buf) (InvalidData ''message size is bigger than 28 bits'')"

section \<open>Payloads\<close>

record snappy_frame =
  sf_compress :: "bytes \<Rightarrow> bytes"
  sf_decompress :: "bytes \<Rightarrow> bytes option"

definition MAX_PAYLOAD_SIZE :: nat where
  "MAX_PAYLOAD_SIZE = 10 * 1024 * 1024"

definition MAX_COMPRESSED_PAYLOAD_SIZE :: nat where
  "MAX_COMPRESSED_PAYLOAD_SIZE = 32 + MAX_PAYLOAD_SIZE + MAX_PAYLOAD_SIZE div 6 + 1024"

text \<open>The payload and what is left of the stream.\<close>

definition decode_payload :: "snappy_frame \<Rightarrow> bytes \<Rightarrow> (bytes \<times> bytes, io_error) result" where
  "decode_payload F io =
     (let buf = take MAX_COMPRESSED_PAYLOAD_SIZE io; left = drop MAX_COMPRESSED_PAYLOAD_SIZE io
      in if length buf < 2 then Err (InvalidData ''message too short'')
         else
           bind_res (decode_varint buf) (\<lambda>(size, rest).
             if unat size > MAX_PAYLOAD_SIZE then Err (InvalidData ''message size exceeds maximum allowed'')
             else
               bind_res (ok_or (sf_decompress F rest) SnappyError) (\<lambda>uncompressed.
                 if length uncompressed \<noteq> unat size
                 then Err (InvalidData ''uncompressed size does not match received size'')
                 else Ok (uncompressed, left))))"

definition write_payload :: "snappy_frame \<Rightarrow> bytes \<Rightarrow> bytes" where
  "write_payload F encoded = encode_varint (word_of_nat (length encoded)) @ sf_compress F encoded"

section \<open>Messages\<close>

definition STATUS_PROTOCOL_V1 :: string where
  "STATUS_PROTOCOL_V1 = ''/leanconsensus/req/status/1/ssz_snappy''"

definition BLOCKS_BY_ROOT_PROTOCOL_V1 :: string where
  "BLOCKS_BY_ROOT_PROTOCOL_V1 = ''/leanconsensus/req/blocks_by_root/1/ssz_snappy''"

record status =
  stt_finalized :: checkpoint
  stt_head :: checkpoint

type_synonym error_message = bytes

datatype request = StatusRequest status | BlocksByRootRequest "H256 list"

datatype response_payload = StatusPayload status | BlocksByRootPayload "signed_block_with_attestation list"

datatype response = Success response_payload | ErrorResponse u8 error_message

definition SUCCESS :: u8 where
  "SUCCESS = 0"

definition INVALID_REQUEST :: u8 where
  "INVALID_REQUEST = 1"

definition SERVER_ERROR :: u8 where
  "SERVER_ERROR = 2"

definition RESOURCE_UNAVAILABLE :: u8 where
  "RESOURCE_UNAVAILABLE = 3"

record codec =
  cd_frame :: snappy_frame
  cd_status :: "status ssz"
  cd_roots :: "(H256 list) ssz"
  cd_block :: "signed_block_with_attestation ssz"
  cd_error :: "error_message ssz"

section \<open>Codec\<close>

definition write_request :: "codec \<Rightarrow> request \<Rightarrow> bytes" where
  "write_request K req =
     write_payload (cd_frame K)
       (case req of
          StatusRequest st \<Rightarrow> ssz_encode (cd_status K) st
        | BlocksByRootRequest roots \<Rightarrow> ssz_encode (cd_roots K) roots)"

definition read_request :: "codec \<Rightarrow> string \<Rightarrow> bytes \<Rightarrow> (request, io_error) result" where
  "read_request K protocol io =
     bind_res (decode_payload (cd_frame K) io) (\<lambda>(payload, _).
       if protocol = STATUS_PROTOCOL_V1
       then bind_res (ok_or (ssz_decode (cd_status K) payload) (InvalidData ''ssz'')) (\<lambda>st. Ok (StatusRequest st))
       else if protocol = BLOCKS_BY_ROOT_PROTOCOL_V1
       then bind_res (ok_or (ssz_decode (cd_roots K) payload) (InvalidData ''ssz''))
              (\<lambda>roots. Ok (BlocksByRootRequest roots))
       else Err (InvalidData ''unknown protocol''))"

definition write_response :: "codec \<Rightarrow> response \<Rightarrow> bytes" where
  "write_response K resp =
     (case resp of
        Success (StatusPayload st) \<Rightarrow> SUCCESS # write_payload (cd_frame K) (ssz_encode (cd_status K) st)
      | Success (BlocksByRootPayload blocks) \<Rightarrow>
          concat (map (\<lambda>b. SUCCESS # write_payload (cd_frame K) (ssz_encode (cd_block K) b)) blocks)
      | ErrorResponse code message \<Rightarrow> code # write_payload (cd_frame K) (ssz_encode (cd_error K) message))"

definition decode_status_response :: "codec \<Rightarrow> bytes \<Rightarrow> (response, io_error) result" where
  "decode_status_response K io =
     (case io of
        [] \<Rightarrow> Err UnexpectedEof
      | code # io' \<Rightarrow>
          bind_res (decode_payload (cd_frame K) io') (\<lambda>(payload, _).
            if code \<noteq> SUCCESS
            then bind_res (ok_or (ssz_decode (cd_error K) payload) (InvalidData ''Invalid error message''))
                   (\<lambda>message. Ok (ErrorResponse code message))
            else bind_res (ok_or (ssz_decode (cd_status K) payload) (InvalidData ''ssz''))
                   (\<lambda>st. Ok (Success (StatusPayload st)))))"

text \<open>The loop over the chunks of a response; the stream ends it.\<close>

function decode_blocks_loop ::
  "codec \<Rightarrow> signed_block_with_attestation list \<Rightarrow> bytes \<Rightarrow> (signed_block_with_attestation list, io_error) result"
where
  "decode_blocks_loop K blocks [] = Ok blocks"
| "decode_blocks_loop K blocks (code # io) =
     (case decode_payload (cd_frame K) io of
        Err e \<Rightarrow> Err e
      | Panic \<Rightarrow> Panic
      | Ok (payload, left) \<Rightarrow>
          if code \<noteq> SUCCESS then decode_blocks_loop K blocks left
          else case ssz_decode (cd_block K) payload of
                 None \<Rightarrow> Err (InvalidData ''ssz'')
               | Some b \<Rightarrow> decode_blocks_loop K (blocks @ [b]) left)"
  by pat_completeness auto

termination
  by (relation "measure (\<lambda>(_, _, io). length io)")
    (auto simp: decode_payload_def Let_def outcome_simps split: if_splits)

definition decode_blocks_by_root_response :: "codec \<Rightarrow> bytes \<Rightarrow> (response, io_error) result" where
  "decode_blocks_by_root_response K io =
     bind_res (decode_blocks_loop K [] io) (\<lambda>blocks. Ok (Success (BlocksByRootPayload blocks)))"

definition read_response :: "codec \<Rightarrow> string \<Rightarrow> bytes \<Rightarrow> (response, io_error) result" where
  "read_response K protocol io =
     (if protocol = STATUS_PROTOCOL_V1 then decode_status_response K io
      else if protocol = BLOCKS_BY_ROOT_PROTOCOL_V1 then decode_blocks_by_root_response K io
      else Err (InvalidData ''unknown protocol''))"

section \<open>Round trips\<close>

lemma decode_payload_Ok_iff:
  "decode_payload F io = Ok (payload, left) \<longleftrightarrow>
     left = drop MAX_COMPRESSED_PAYLOAD_SIZE io \<and> 2 \<le> length (take MAX_COMPRESSED_PAYLOAD_SIZE io) \<and>
     (\<exists>size rest. decode_varint (take MAX_COMPRESSED_PAYLOAD_SIZE io) = Ok (size, rest) \<and>
        unat size \<le> MAX_PAYLOAD_SIZE \<and> sf_decompress F rest = Some payload \<and> length payload = unat size)"
  by (auto simp: decode_payload_def Let_def outcome_simps not_less split: if_splits)

lemma bit_varint_flag: "bit (0x80 :: u8) n \<longleftrightarrow> n = 7"
proof -
  have "(0x80 :: u8) = 2 ^ 7" by simp
  then show ?thesis by (simp only: bit_exp_iff) (auto simp: possible_bit_word)
qed

lemma mask_varint: "(0x7F :: u8) = mask 7" "(0x7F :: u32) = mask 7"
  by (simp_all add: mask_eq_exp_minus_1)

lemma varint_byte:
  fixes v :: u32
  shows "ucast (ucast (v AND 0x7F) AND (0x7F :: u8)) = v AND 0x7F"
    and "ucast ((ucast (v AND 0x7F) OR 0x80) AND (0x7F :: u8)) = v AND 0x7F"
    and "ucast (v AND 0x7F) AND (0x80 :: u8) = 0"
    and "(ucast (v AND 0x7F) OR 0x80) AND (0x80 :: u8) \<noteq> 0"
proof -
  note b = mask_varint bit_varint_flag bit_and_iff bit_or_iff bit_mask_iff bit_ucast_iff possible_bit_word
  show "ucast (ucast (v AND 0x7F) AND (0x7F :: u8)) = v AND 0x7F"
    by (rule bit_word_eqI) (simp only: b, auto)
  show "ucast ((ucast (v AND 0x7F) OR 0x80) AND (0x7F :: u8)) = v AND 0x7F"
    by (rule bit_word_eqI) (simp only: b, auto)
  show "ucast (v AND 0x7F) AND (0x80 :: u8) = 0"
    by (rule bit_word_eqI) (auto simp only: b bit_0_eq bot_apply bot_bool_def)
  have "bit ((ucast (v AND 0x7F) OR 0x80) AND (0x80 :: u8)) 7" by (simp only: b simp_thms)
  then show "(ucast (v AND 0x7F) OR 0x80) AND (0x80 :: u8) \<noteq> 0" by (metis bit_0_eq bot_apply bot_bool_def)
qed

lemma decode_varint_last:
  "decode_varint_loop i acc (ucast (v AND 0x7F) # rest) = Some (acc OR push_bit ((7 * i) mod 32) (v AND 0x7F), rest)"
  unfolding decode_varint_loop.simps Let_def varint_byte by (rule if_P) (rule refl)

lemma decode_varint_more:
  "decode_varint_loop i acc ((ucast (v AND 0x7F) OR 0x80) # rest) =
     decode_varint_loop (i + 1) (acc OR push_bit ((7 * i) mod 32) (v AND 0x7F)) rest"
  unfolding decode_varint_loop.simps Let_def varint_byte(2) by (rule if_not_P) (rule varint_byte(4))

lemma varint_step: "push_bit k (v AND 0x7F) OR push_bit (k + 7) (drop_bit 7 v) = push_bit k v" for v :: u32
proof (rule bit_word_eqI)
  fix n
  have "7 + (n - (k + 7)) = n - k" if "k + 7 \<le> n" using that by simp
  then show "bit (push_bit k (v AND 0x7F) OR push_bit (k + 7) (drop_bit 7 v)) n = bit (push_bit k v) n"
    unfolding mask_varint bit_or_iff bit_push_bit_iff bit_and_iff bit_mask_iff bit_drop_bit_eq comp_def
    by (cases "k + 7 \<le> n") (auto simp: possible_bit_word)
qed

lemma varint_loop_roundtrip:
  assumes "n \<le> 5" and "0 < n" and "\<And>j. bit v j \<Longrightarrow> j + 7 * (5 - n) < 32"
  shows "decode_varint_loop (5 - n) acc (encode_varint_loop n v @ rest) =
    Some (acc OR push_bit (7 * (5 - n)) v, rest)"
  using assms
proof (induction n arbitrary: v acc)
  case 0
  then show ?case by simp
next
  case (Suc n)
  let ?k = "5 - Suc n"
  have sh: "(7 * ?k) mod 32 = 7 * ?k" using Suc.prems(1) by simp
  note step = varint_step [of "7 * ?k" v]
  show ?case
  proof (cases "drop_bit 7 v = 0")
    case True
    then have "encode_varint_loop (Suc n) v @ rest = ucast (v AND 0x7F) # rest" by (simp only: encode_varint_loop.simps Let_def) simp
    moreover have "push_bit (7 * ?k) (v AND 0x7F) = push_bit (7 * ?k) v" using step True by simp
    ultimately show ?thesis using decode_varint_last [of ?k acc v rest] sh by simp
  next
    case False
    then obtain j where j: "bit v (7 + j)" by (auto simp: bit_eq_iff bit_drop_bit_eq)
    from Suc.prems(3) [OF j] have n: "0 < n" by (cases n) auto
    have e: "5 - n = ?k + 1" using Suc.prems(1) by simp
    have b: "j + 7 * (5 - n) < 32" if "bit (drop_bit 7 v) j" for j
      using Suc.prems(3) [of "7 + j"] that unfolding e by (simp add: bit_drop_bit_eq)
    have enc: "encode_varint_loop (Suc n) v @ rest = (ucast (v AND 0x7F) OR 0x80) # (encode_varint_loop n (drop_bit 7 v) @ rest)"
      using False by (simp only: encode_varint_loop.simps Let_def) simp
    have "decode_varint_loop (?k + 1) (acc OR push_bit (7 * ?k) (v AND 0x7F)) (encode_varint_loop n (drop_bit 7 v) @ rest) =
        Some ((acc OR push_bit (7 * ?k) (v AND 0x7F)) OR push_bit (7 * (?k + 1)) (drop_bit 7 v), rest)"
      unfolding e [symmetric] by (rule Suc.IH [OF _ n b]) (use Suc.prems(1) in auto)
    moreover have "7 * (?k + 1) = 7 * ?k + 7" by simp
    ultimately show ?thesis
      unfolding enc decode_varint_more sh or.assoc by (simp only: step)
  qed
qed

lemma varint_roundtrip: "decode_varint (encode_varint v @ rest) = Ok (v, rest)"
proof -
  have "decode_varint_loop (5 - 5) 0 (encode_varint_loop 5 v @ rest) = Some (0 OR push_bit (7 * (5 - 5)) v, rest)"
    by (rule varint_loop_roundtrip) (auto dest: bit_imp_le_length)
  then show ?thesis by (simp add: decode_varint_def encode_varint_def)
qed

lemma encode_varint_length: "1 \<le> length (encode_varint v) \<and> length (encode_varint v) \<le> 5"
proof -
  have "length (encode_varint_loop n v) \<le> n" for n
    by (induction n arbitrary: v) (auto simp: Let_def)
  moreover have "encode_varint_loop 5 v \<noteq> []" by (simp add: eval_nat_numeral Let_def)
  ultimately show ?thesis by (simp add: encode_varint_def Suc_le_eq)
qed

text \<open>What is relied on of the compressor and the encodings.\<close>

definition snappy_ok :: "snappy_frame \<Rightarrow> bool" where
  "snappy_ok F \<longleftrightarrow> (\<forall>x. sf_decompress F (sf_compress F x) = Some x)"

text \<open>A payload the framing can carry.\<close>

definition sendable :: "snappy_frame \<Rightarrow> bytes \<Rightarrow> bool" where
  "sendable F x \<longleftrightarrow> length x \<le> MAX_PAYLOAD_SIZE \<and> 2 \<le> length (write_payload F x) \<and>
     length (write_payload F x) \<le> MAX_COMPRESSED_PAYLOAD_SIZE"

lemma payload_roundtrip:
  assumes "snappy_ok F" and "sendable F x"
  shows "decode_payload F (write_payload F x) = Ok (x, [])"
proof -
  have len: "unat (word_of_nat (length x) :: u32) = length x"
    using assms(2) by (simp add: sendable_def MAX_PAYLOAD_SIZE_def unat_of_nat)
  have "decode_varint (write_payload F x) = Ok (word_of_nat (length x), sf_compress F x)"
    by (simp add: write_payload_def varint_roundtrip)
  with assms len show ?thesis
    by (simp add: decode_payload_Ok_iff sendable_def snappy_ok_def)
qed

text \<open>A payload that is accepted is never larger than the announced limit.\<close>

lemma payload_bound: "decode_payload F io = Ok (payload, left) \<Longrightarrow> length payload \<le> MAX_PAYLOAD_SIZE"
  by (auto simp: decode_payload_Ok_iff)

text \<open>The protocol and the payload of a request; the encoding must carry it.\<close>

fun request_protocol :: "request \<Rightarrow> string" where
  "request_protocol (StatusRequest _) = STATUS_PROTOCOL_V1"
| "request_protocol (BlocksByRootRequest _) = BLOCKS_BY_ROOT_PROTOCOL_V1"

fun request_carried :: "codec \<Rightarrow> request \<Rightarrow> bool" where
  "request_carried K (StatusRequest st) \<longleftrightarrow>
     carries (cd_status K) st \<and> sendable (cd_frame K) (ssz_encode (cd_status K) st)"
| "request_carried K (BlocksByRootRequest roots) \<longleftrightarrow>
     carries (cd_roots K) roots \<and> sendable (cd_frame K) (ssz_encode (cd_roots K) roots)"

lemma protocols_differ [simp]: "STATUS_PROTOCOL_V1 \<noteq> BLOCKS_BY_ROOT_PROTOCOL_V1"
  "BLOCKS_BY_ROOT_PROTOCOL_V1 \<noteq> STATUS_PROTOCOL_V1"
  by (simp_all add: STATUS_PROTOCOL_V1_def BLOCKS_BY_ROOT_PROTOCOL_V1_def)

text \<open>
  The responses that come back as they were sent: a status or an error on the status protocol, and at
  most one block on the blocks protocol. There an error is not carried: the reader skips its chunk.
\<close>

fun response_carried :: "codec \<Rightarrow> string \<Rightarrow> response \<Rightarrow> bool" where
  "response_carried K protocol (Success (StatusPayload st)) \<longleftrightarrow> protocol = STATUS_PROTOCOL_V1 \<and>
     carries (cd_status K) st \<and> sendable (cd_frame K) (ssz_encode (cd_status K) st)"
| "response_carried K protocol (Success (BlocksByRootPayload [])) \<longleftrightarrow> protocol = BLOCKS_BY_ROOT_PROTOCOL_V1"
| "response_carried K protocol (Success (BlocksByRootPayload [b])) \<longleftrightarrow> protocol = BLOCKS_BY_ROOT_PROTOCOL_V1 \<and>
     carries (cd_block K) b \<and> sendable (cd_frame K) (ssz_encode (cd_block K) b)"
| "response_carried K protocol (Success (BlocksByRootPayload (b # c # bs))) \<longleftrightarrow> False"
| "response_carried K protocol (ErrorResponse code message) \<longleftrightarrow> protocol = STATUS_PROTOCOL_V1 \<and>
     code \<noteq> SUCCESS \<and> carries (cd_error K) message \<and> sendable (cd_frame K) (ssz_encode (cd_error K) message)"

lemma request_roundtrip:
  assumes "snappy_ok (cd_frame K)" and "request_carried K req"
  shows "read_request K (request_protocol req) (write_request K req) = Ok req"
  using assms(2) payload_roundtrip [OF assms(1)]
  by (cases req) (simp_all add: read_request_def write_request_def carries_def)

lemma response_roundtrip:
  assumes "snappy_ok (cd_frame K)" and "response_carried K protocol resp"
  shows "read_response K protocol (write_response K resp) = Ok resp"
  using assms(2) payload_roundtrip [OF assms(1)]
  by (cases "(K, protocol, resp)" rule: response_carried.cases)
    (simp_all add: read_response_def write_response_def decode_status_response_def carries_def
      decode_blocks_by_root_response_def)

lemma error_chunk_skipped:
  assumes "snappy_ok (cd_frame K)" and "code \<noteq> SUCCESS" and "carries (cd_error K) message"
    and "sendable (cd_frame K) (ssz_encode (cd_error K) message)"
  shows "read_response K BLOCKS_BY_ROOT_PROTOCOL_V1 (write_response K (ErrorResponse code message)) =
    Ok (Success (BlocksByRootPayload []))"
  using assms(2,3) payload_roundtrip [OF assms(1,4)]
  by (simp add: read_response_def write_response_def carries_def decode_blocks_by_root_response_def)

text \<open>
  C35. The wire format round-trips. A request whose payload fits the framing is read back as it was
  written, on its protocol. So is a status and an error with its code on the status protocol, and a
  response of one block or of none on the blocks protocol. An error written on the blocks protocol is
  not read back as an error: its chunk is skipped, as the reader documents, and the response is
  successful with no blocks. Nothing is said of responses with several blocks.
\<close>

theorem codec_roundtrip:
  assumes "snappy_ok (cd_frame K)"
  shows "(request_carried K req \<longrightarrow> read_request K (request_protocol req) (write_request K req) = Ok req) \<and>
    (response_carried K protocol resp \<longrightarrow> read_response K protocol (write_response K resp) = Ok resp) \<and>
    (code \<noteq> SUCCESS \<and> carries (cd_error K) message \<and> sendable (cd_frame K) (ssz_encode (cd_error K) message) \<longrightarrow>
      read_response K BLOCKS_BY_ROOT_PROTOCOL_V1 (write_response K (ErrorResponse code message)) =
        Ok (Success (BlocksByRootPayload [])))"
  using request_roundtrip [OF assms] response_roundtrip [OF assms] error_chunk_skipped [OF assms] by blast

definition demo_status :: status where
  "demo_status = \<lparr>stt_finalized = \<lparr>cp_root = 1, cp_slot = 2\<rparr>, stt_head = \<lparr>cp_root = 3, cp_slot = 4\<rparr>\<rparr>"

definition demo_codec :: "signed_block_with_attestation \<Rightarrow> codec" where
  "demo_codec b = \<lparr>cd_frame = \<lparr>sf_compress = (\<lambda>x. x), sf_decompress = Some\<rparr>, cd_status = demo_ssz demo_status,
     cd_roots = demo_ssz [5], cd_block = demo_ssz b, cd_error = demo_ssz [1]\<rparr>"

lemma demo_sendable: "sendable (cd_frame (demo_codec b)) [7, 7]"
  using encode_varint_length [of 2]
  by (simp add: sendable_def write_payload_def demo_codec_def MAX_PAYLOAD_SIZE_def MAX_COMPRESSED_PAYLOAD_SIZE_def)

theorem codec_roundtrip_witness:
  "\<forall>b. read_request (demo_codec b) BLOCKS_BY_ROOT_PROTOCOL_V1 (write_request (demo_codec b) (BlocksByRootRequest [5])) =
       Ok (BlocksByRootRequest [5]) \<and>
     read_response (demo_codec b) STATUS_PROTOCOL_V1 (write_response (demo_codec b) (ErrorResponse 2 [1])) =
       Ok (ErrorResponse 2 [1]) \<and>
     read_response (demo_codec b) BLOCKS_BY_ROOT_PROTOCOL_V1 (write_response (demo_codec b) (ErrorResponse 2 [1])) =
       Ok (Success (BlocksByRootPayload []))"
proof
  fix b
  have s: "snappy_ok (cd_frame (demo_codec b))" by (simp add: snappy_ok_def demo_codec_def)
  have k: "request_carried (demo_codec b) (BlocksByRootRequest [5])" "carries (cd_error (demo_codec b)) [1]"
    "sendable (cd_frame (demo_codec b)) (ssz_encode (cd_error (demo_codec b)) [1])" "2 \<noteq> SUCCESS"
    using demo_sendable [of b] by (simp_all add: demo_codec_def demo_ssz_def carries_def SUCCESS_def)
  then have "response_carried (demo_codec b) STATUS_PROTOCOL_V1 (ErrorResponse 2 [1])" by simp
  with k codec_roundtrip [OF s, of "BlocksByRootRequest [5]" STATUS_PROTOCOL_V1 "ErrorResponse 2 [1]" 2 "[1]"]
  show "read_request (demo_codec b) BLOCKS_BY_ROOT_PROTOCOL_V1 (write_request (demo_codec b) (BlocksByRootRequest [5])) =
       Ok (BlocksByRootRequest [5]) \<and>
     read_response (demo_codec b) STATUS_PROTOCOL_V1 (write_response (demo_codec b) (ErrorResponse 2 [1])) =
       Ok (ErrorResponse 2 [1]) \<and>
     read_response (demo_codec b) BLOCKS_BY_ROOT_PROTOCOL_V1 (write_response (demo_codec b) (ErrorResponse 2 [1])) =
       Ok (Success (BlocksByRootPayload []))" by simp
qed

text \<open>
  A blocks response is read as a single chunk: unless the stream is longer than the largest
  compressed payload, decoding it gives at most one block, however many were sent.
\<close>

lemma blocks_response_single_chunk:
  assumes "decode_blocks_by_root_response K io = Ok (Success (BlocksByRootPayload blocks))"
    and "length io \<le> Suc MAX_COMPRESSED_PAYLOAD_SIZE"
  shows "length blocks \<le> 1"
proof (cases io)
  case Nil
  with assms(1) show ?thesis by (simp add: decode_blocks_by_root_response_def)
next
  case (Cons code io')
  from assms(1) Cons obtain payload left where p: "decode_payload (cd_frame K) io' = Ok (payload, left)"
    by (auto simp: decode_blocks_by_root_response_def outcome_simps split: result.splits)
  with assms(2) Cons have "left = []" by (simp add: decode_payload_Ok_iff)
  with assms(1) Cons p show ?thesis
    by (auto simp: decode_blocks_by_root_response_def outcome_simps split: if_splits option.splits)
qed

end
