(* ===== verification/Rpc_Server.thy ===== *)
theory Rpc_Server
  imports Checkpoint_Sync Fork_Choice_Tree Wire_Codec
begin

text \<open>
  The HTTP API (\<open>crates/net/rpc/src/lib.rs\<close> and \<open>fork_choice.rs\<close>): the routes, the finalized state a
  node serves to syncing peers, the justified checkpoint and the view of fork choice. JSON bodies are
  the values that are serialized; SSZ and the embedded page are parameters. The properties connect
  the two ends of checkpoint sync: what a running node serves is what a new node accepts.
\<close>

section \<open>Handlers\<close>

definition JSON_CONTENT_TYPE :: string where
  "JSON_CONTENT_TYPE = ''application/json; charset=utf-8''"

definition SSZ_CONTENT_TYPE :: string where
  "SSZ_CONTENT_TYPE = ''application/octet-stream''"

definition HTML_CONTENT_TYPE :: string where
  "HTML_CONTENT_TYPE = ''text/html; charset=utf-8''"

definition get_latest_finalized_state :: "store \<Rightarrow> (state, store_error) result" where
  "get_latest_finalized_state s =
     bind_res (expect (get_state s (cp_root (s_latest_finalized s)))) (\<lambda>st.
       Ok (st\<lparr>st_latest_block_header := (st_latest_block_header st)\<lparr>hdr_state_root := 0\<rparr>\<rparr>))"

definition get_latest_justified_state :: "store \<Rightarrow> checkpoint" where
  "get_latest_justified_state s = s_latest_justified s"

record fork_choice_node =
  fcn_root :: H256
  fcn_slot :: u64
  fcn_parent_root :: H256
  fcn_proposer_index :: u64
  fcn_weight :: u64

record fork_choice_response =
  fcr_nodes :: "fork_choice_node list"
  fcr_head :: H256
  fcr_justified :: checkpoint
  fcr_finalized :: checkpoint
  fcr_safe_target :: H256
  fcr_validator_count :: u64

definition get_fork_choice :: "store \<Rightarrow> (fork_choice_response, store_error) result option" where
  "get_fork_choice s =
     (let blocks = get_live_chain s;
          attestations = extract_latest_known_attestations s
      in Option.bind (compute_block_weights (cp_slot (s_latest_finalized s)) blocks attestations) (\<lambda>weights.
         Some (bind_res (head_state s) (\<lambda>st.
           Ok \<lparr>fcr_nodes = map (\<lambda>(root, slot, parent_root).
                  \<lparr>fcn_root = root, fcn_slot = slot, fcn_parent_root = parent_root,
                   fcn_proposer_index =
                     (case get_block_header s root of Some h \<Rightarrow> hdr_proposer_index h | None \<Rightarrow> 0),
                   fcn_weight = weight weights root\<rparr>) blocks,
               fcr_head = s_head s, fcr_justified = s_latest_justified s,
               fcr_finalized = s_latest_finalized s, fcr_safe_target = s_safe_target s,
               fcr_validator_count = word_of_nat (length (st_validators st))\<rparr>))))"

datatype api_body = Ssz bytes | CheckpointJson checkpoint | ForkChoiceJson fork_choice_response | Static string

record api_response =
  ar_content_type :: string
  ar_body :: api_body

definition get_health :: api_response where
  "get_health = \<lparr>ar_content_type = JSON_CONTENT_TYPE,
     ar_body = Static ''{\"status\":\"healthy\",\"service\":\"lean-rpc-api\"}''\<rparr>"

text \<open>The response to a GET request, or none for a path without a route.\<close>

definition build_api_router ::
  "state ssz \<Rightarrow> string \<Rightarrow> store \<Rightarrow> string \<Rightarrow> (api_response option, store_error) result option" where
  "build_api_router E html s path =
     (if path = ''/lean/v0/health'' then Some (Ok (Some get_health))
      else if path = ''/lean/v0/states/finalized''
      then Some (bind_res (get_latest_finalized_state s) (\<lambda>st.
             Ok (Some \<lparr>ar_content_type = SSZ_CONTENT_TYPE, ar_body = Ssz (ssz_encode E st)\<rparr>)))
      else if path = ''/lean/v0/checkpoints/justified''
      then Some (Ok (Some \<lparr>ar_content_type = JSON_CONTENT_TYPE,
             ar_body = CheckpointJson (get_latest_justified_state s)\<rparr>))
      else if path = ''/lean/v0/fork_choice''
      then bind_run (get_fork_choice s) (\<lambda>r.
             Some (Ok (Some \<lparr>ar_content_type = JSON_CONTENT_TYPE, ar_body = ForkChoiceJson r\<rparr>)))
      else if path = ''/lean/v0/fork_choice/ui''
      then Some (Ok (Some \<lparr>ar_content_type = HTML_CONTENT_TYPE, ar_body = Static html\<rparr>))
      else Some (Ok None))"

section \<open>Checkpoints of a state\<close>

text \<open>
  After the first block the justified and the finalized checkpoint of a state are blocks of its
  history, hence before its latest block.
\<close>

definition anchored :: "state \<Rightarrow> bool" where
  "anchored st \<longleftrightarrow> st_slot st = hdr_slot (st_latest_block_header st) \<and>
     (hdr_slot (st_latest_block_header st) \<noteq> 0 \<longrightarrow>
        checkpoint_exists st (st_latest_justified st) \<and> checkpoint_exists st (st_latest_finalized st))"

lemma from_genesis_anchored: "from_genesis H t vs = Ok s \<Longrightarrow> anchored s"
  by (auto simp: from_genesis_def Let_def anchored_def split: if_splits)

lemma checkpoint_exists_header:
  assumes wf: "wf_state s" and run: "process_block_header H s b = Ok s'"
    and a: "hdr_slot (st_latest_block_header s) \<noteq> 0 \<longrightarrow>
      checkpoint_exists s (st_latest_justified s) \<and> checkpoint_exists s (st_latest_finalized s)"
  shows "checkpoint_exists s' (st_latest_justified s') \<and> checkpoint_exists s' (st_latest_finalized s')"
proof (cases "hdr_slot (st_latest_block_header s) = 0")
  case True
  with wf have "st_historical_block_hashes s = []" "cp_slot (st_latest_justified s) = 0" "cp_slot (st_latest_finalized s) = 0"
    by (auto simp: wf_state_def)
  with True show ?thesis by (simp add: header_Ok(2) [OF wf run] checkpoint_exists_def)
next
  case False
  with a show ?thesis by (auto simp: header_Ok(2) [OF wf run] checkpoint_exists_def nth_append)
qed

lemma state_transition_anchored:
  assumes wf: "wf_state s" and run: "state_transition H s b = Ok s'"
    and a: "hdr_slot (st_latest_block_header s) \<noteq> 0 \<longrightarrow>
      checkpoint_exists s (st_latest_justified s) \<and> checkpoint_exists s (st_latest_finalized s)"
  shows "anchored s'" and "st_latest_finalized s' = st_latest_finalized s \<or> cp_root (st_latest_finalized s') \<noteq> 0 \<or>
    cp_slot (st_latest_finalized s') = 0"
proof -
  from run obtain s1 s2 where st: "process_slots H s (blk_slot b) = Ok s1"
    "process_block_header H s1 b = Ok s2"
    "process_attestations s2 (body_attestations (blk_body b)) = Ok s'" by (rule state_transition_Ok_steps)
  have w1: "wf_state s1" by (rule process_slots_wf [OF wf st(1)])
  have w2: "wf_state s2" by (rule header_wf [OF w1 st(2)])
  have s1: "st_latest_justified s1 = st_latest_justified s" "st_latest_finalized s1 = st_latest_finalized s"
    "st_historical_block_hashes s1 = st_historical_block_hashes s"
    "hdr_slot (st_latest_block_header s1) = hdr_slot (st_latest_block_header s)"
    using st(1) by (auto simp: process_slots_Ok_iff)
  from checkpoint_exists_header [OF w1 st(2)] a s1 have
    c2: "checkpoint_exists s2 (st_latest_justified s2)" "checkpoint_exists s2 (st_latest_finalized s2)"
    by (simp_all add: checkpoint_exists_def)
  note f = process_attestations_finality(3,4) [OF w2 st(3)] and k = process_attestations_wf [OF w2 st(3)]
  have "checkpoint_exists s' (st_latest_justified s') \<and> checkpoint_exists s' (st_latest_finalized s')"
    using f c2 k(7) by (auto simp: checkpoint_exists_def dest!: finalized_byD)
  moreover have "st_slot s' = hdr_slot (st_latest_block_header s')"
    using state_transition_keeps(3,5) [OF wf run] by (simp add: block_header_of_def)
  ultimately show "anchored s'" by (simp add: anchored_def)
  have "st_latest_finalized s2 = st_latest_finalized s \<or> cp_slot (st_latest_finalized s2) = 0"
  proof (cases "hdr_slot (st_latest_block_header s1) = 0")
    case True
    with w1 have "cp_slot (st_latest_finalized s1) = 0" by (auto simp: wf_state_def)
    then show ?thesis by (simp add: header_Ok(2) [OF w1 st(2)])
  qed (simp add: header_Ok(2) [OF w1 st(2)] s1)
  with f(1) show "st_latest_finalized s' = st_latest_finalized s \<or> cp_root (st_latest_finalized s') \<noteq> 0 \<or>
    cp_slot (st_latest_finalized s') = 0" by (auto dest!: finalized_byD)
qed

section \<open>The finalized state of a running node\<close>

text \<open>
  All states of the store are anchored and share validators and configuration, and the state of the
  finalized block is stored.
\<close>

definition serves :: "validator list \<Rightarrow> chain_config \<Rightarrow> store \<Rightarrow> bool" where
  "serves vs cfg s \<longleftrightarrow>
     (\<forall>r st. get_state s r = Some st \<longrightarrow> anchored st \<and> st_validators st = vs \<and> st_config st = cfg) \<and>
     (\<exists>st. get_state s (cp_root (s_latest_finalized s)) = Some st \<and>
        hdr_slot (st_latest_block_header st) = cp_slot (s_latest_finalized s))"

lemma serves_cong:
  "serves vs cfg s \<Longrightarrow> get_state s' = get_state s \<Longrightarrow> s_latest_finalized s' = s_latest_finalized s \<Longrightarrow> serves vs cfg s'"
  by (simp add: serves_def)

lemma anchored_fields:
  "anchored (st\<lparr>st_latest_block_header := (st_latest_block_header st)\<lparr>hdr_state_root := r\<rparr>\<rparr>) = anchored st"
  "wf_state (st\<lparr>st_latest_block_header := (st_latest_block_header st)\<lparr>hdr_state_root := r\<rparr>\<rparr>) = wf_state st"
  by (simp_all add: anchored_def checkpoint_exists_def wf_state_def)

lemma record_block_serves:
  assumes rec: "recordable a H s (bwa_block (sb_message sb)) pst st" and sv: "serves vs cfg s"
  shows "serves vs cfg (record_block H sb st s)"
proof -
  let ?b = "bwa_block (sb_message sb)" and ?s = "record_block H sb st s"
  let ?post = "st\<lparr>st_latest_block_header := (st_latest_block_header st)\<lparr>hdr_state_root := blk_state_root ?b\<rparr>\<rparr>"
  from rec have c: "chain_ok a s" and pst: "get_state s (blk_parent_root ?b) = Some pst"
    and run: "state_transition H pst ?b = Ok st" by (auto simp: recordable_def)
  note f = record_block_fields [where sb = sb and st = st and s = s and H = H]
  note wf = state_trackedD(1,4) [OF chain_okD(3) [OF c pst]]
  from sv pst have p: "anchored pst" "st_validators pst = vs" "st_config pst = cfg" by (auto simp: serves_def)
  note an = state_transition_anchored [OF wf(1) run conjunct2 [OF p(1) [unfolded anchored_def]]]
  note k = state_transition_keeps(1,2) [OF wf(1) run]
  have states: "anchored x \<and> st_validators x = vs \<and> st_config x = cfg" if "get_state ?s r = Some x" for r x
    using that sv an(1) k p(2,3) unfolding f(1) serves_def
    by (auto simp: anchored_fields split: if_splits)
  have "\<exists>x. get_state ?s (cp_root (s_latest_finalized ?s)) = Some x \<and>
      hdr_slot (st_latest_block_header x) = cp_slot (s_latest_finalized ?s)"
  proof (cases "cp_slot (s_latest_finalized s) < cp_slot (st_latest_finalized st)")
    case False
    then have "s_latest_finalized ?s = s_latest_finalized s" unfolding f(5) advance_checkpoints_fields by simp
    moreover from rec have "get_state s (h_block H ?b) = None" by (simp add: recordable_def)
    ultimately show ?thesis using sv unfolding f(1) serves_def by auto
  next
    case True
    then have fin: "s_latest_finalized ?s = st_latest_finalized st"
      unfolding f(5) advance_checkpoints_fields by simp
    have nz: "cp_root (st_latest_finalized st) \<noteq> 0" using an(2) True wf(2) by auto
    have "hdr_slot (st_latest_block_header st) \<noteq> 0"
      using state_transition_history(3) [OF wf(1) run] state_transition_keeps(5) [OF wf(1) run]
      by (auto simp: block_header_of_def)
    with an(1) have ce: "checkpoint_exists st (st_latest_finalized st)" by (simp add: anchored_def)
    note live = state_trackedD(7) [OF recorded_new_state [OF rec], of "unat (cp_slot (st_latest_finalized st))"]
    from live ce nz fin obtain q where
      "((cp_slot (st_latest_finalized st), cp_root (st_latest_finalized st)), q) \<in> set (t_live_chain ?s)"
      by (auto simp: checkpoint_exists_def)
    note q = this and keep = record_block_keeps_chain [OF rec]
    from chain_okD(4) [OF keep q] obtain x where x: "get_state ?s (cp_root (st_latest_finalized st)) = Some x" by blast
    from state_trackedD(5) [OF chain_okD(3) [OF keep x] q] x show ?thesis unfolding fin by auto
  qed
  with states show ?thesis by (simp add: serves_def)
qed

lemma on_block_serves:
  assumes inv: "chain_inv a s" and np: "fresh_root H s (bwa_block (sb_message sb))"
    and run: "on_block H C s sb ids = Some (s', r)" and sv: "serves vs cfg s"
  shows "serves vs cfg s'"
proof (cases "s' = s")
  case False
  let ?b = "bwa_block (sb_message sb)"
  from run False obtain pst st s1 where p: "\<not> has_state s (h_block H ?b)" "get_state s (blk_parent_root ?b) = Some pst"
    "state_transition H pst ?b = Ok st" "update_head (record_block H sb st s) = Some s1"
    "record_proposer_attestation H C sb True ids s1 = (s', r)"
    by (auto simp: on_block_def on_block_core_def Let_def split: option.split_asm result.split_asm if_splits)
  then have rec: "recordable a H s ?b pst st"
    using chain_invD(1) [OF inv] np by (auto simp: recordable_def fresh_root_def has_state_def get_state_def)
  from update_head_run [OF record_block_keeps_chain [OF rec]] p(4) obtain h where
    h: "s1 = (record_block H sb st s)\<lparr>s_head := h\<rparr>" "chain_inv a s1" by auto
  note k = record_proposer_attestation_keeps [OF p(5) h(2)]
  show ?thesis
    by (rule serves_cong [OF record_block_serves [OF rec sv]]) (use k h(1) in \<open>auto simp: get_state_def fun_eq_iff\<close>)
qed (use sv in simp)

lemma chain_step_serves:
  assumes "chain_step H C s s'" and "chain_inv a s" and "serves vs cfg s"
  shows "serves vs cfg s'"
proof -
  note q = on_gossip_quiet [OF chain_okD(1) [OF chain_invD(1) [OF assms(2)]]]
  have frame: "serves vs cfg s''" if "quiet s s''" for s''
    using that assms(3) by (auto simp: quiet_def chain_frame_def serves_def get_state_def)
  show ?thesis
    using assms(1)
  proof (cases rule: chain_step.cases)
    case (block sb ids r)
    then show ?thesis using on_block_serves assms(2,3) by blast
  next
    case (attestation sa ids r)
    then show ?thesis using q(1) [of H C sa ids] frame by simp
  next
    case (aggregate agg r)
    then show ?thesis using q(2) [of H C agg] frame by simp
  next
    case (tick ts hp ia aggs)
    with on_tick_run [OF assms(2), of C ts hp ia] have "chain_frame s s'" by auto
    then show ?thesis using assms(3) by (auto simp: chain_frame_def serves_def get_state_def)
  qed
qed

lemma init_store_serves:
  assumes "init_store H empty_tables anchor body = Ok s" and "anchored anchor"
  shows "serves (st_validators anchor) (st_config anchor) s"
  using assms
  by (auto simp: init_store_def Let_def serves_def get_state_def empty_tables_def tbl_put_def
      anchored_def checkpoint_exists_def split: if_splits)

lemma running_node_serves:
  assumes "init_store H empty_tables anchor body = Ok s0" and "wf_state anchor" and "s_head s0 \<noteq> 0"
    and "s_head s0 \<noteq> hdr_parent_root (st_latest_block_header anchor)" and "anchored anchor"
    and "(chain_step H C)\<^sup>*\<^sup>* s0 s"
  shows "chain_inv (hdr_slot (st_latest_block_header anchor)) s" and "serves (st_validators anchor) (st_config anchor) s"
proof -
  have "chain_inv (hdr_slot (st_latest_block_header anchor)) s \<and> serves (st_validators anchor) (st_config anchor) s"
    using assms(6)
  proof induction
    case base
    show ?case using init_store_chain [OF assms(1-4)] init_store_serves [OF assms(1,5)] by simp
  next
    case (step y z)
    then show ?case using chain_step_inv chain_step_serves by blast
  qed
  then show "chain_inv (hdr_slot (st_latest_block_header anchor)) s"
    and "serves (st_validators anchor) (st_config anchor) s" by auto
qed

text \<open>Retention keeps it too: the finalized root is among the protected ones.\<close>

lemma prune_old_data_serves:
  assumes "serves vs cfg s"
  shows "serves vs cfg (prune_old_data f s)"
proof -
  let ?p = "[cp_root (s_latest_finalized s), cp_root (s_latest_justified s)]"
  let ?ks = "keys_beyond f STATES_TO_KEEP ?p (t_block_headers s)"
  have "t_states (prune_old_data f s) = tbl_delete ?ks (t_states s)"
    by (simp add: prune_old_data_def prune_old_states_def prune_old_blocks_def Let_def tbl_delete_def)
  then have st: "get_state (prune_old_data f s) r = (if r \<in> set ?ks then None else get_state s r)" for r
    by (simp add: get_state_def)
  have fin: "s_latest_finalized (prune_old_data f s) = s_latest_finalized s"
    by (simp add: prune_old_data_def prune_old_states_def prune_old_blocks_def Let_def)
  have "cp_root (s_latest_finalized s) \<notin> set ?ks" by (auto simp: keys_beyond_def Let_def)
  with assms show ?thesis by (auto simp: serves_def st fin split: if_splits)
qed

section \<open>Properties\<close>

lemma anchored_verifies:
  assumes "wf_state st" and "anchored st" and "st_slot st \<noteq> 0" and "st_validators st = genesis_validators_of gc"
    and "cc_genesis_time (st_config st) = gc_genesis_time gc" and "genesis_validators_of gc \<noteq> []"
  shows "verify_checkpoint_state H st (gc_genesis_time gc) (genesis_validators_of gc) = Ok ()"
proof -
  let ?h = "hdr_slot (st_latest_block_header st)"
  from assms(2,3) have ce: "checkpoint_exists st (st_latest_justified st)" "checkpoint_exists st (st_latest_finalized st)"
    and slot: "st_slot st = ?h" by (auto simp: anchored_def)
  from assms(1) have len: "length (st_historical_block_hashes st) = unat ?h" by (simp add: wf_state_def)
  with ce have lt: "cp_slot (st_latest_justified st) < ?h" "cp_slot (st_latest_finalized st) < ?h"
    by (simp_all add: checkpoint_exists_def word_less_nat_alt)
  have root: "cp_root (st_latest_justified st) = cp_root (st_latest_finalized st)"
    if "cp_slot (st_latest_justified st) = cp_slot (st_latest_finalized st)"
    using ce that by (auto simp: checkpoint_exists_def)
  from assms(1) have "cp_slot (st_latest_finalized st) \<le> cp_slot (st_latest_justified st)" by (simp add: wf_state_def)
  with lt slot root assms(3-6) show ?thesis by (auto simp: verify_checkpoint_Ok_iff)
qed

text \<open>
  C13. Checkpoint sync between two nodes. A node that was started on a well-formed anchor state of a
  genesis configuration and has run any sequence of blocks, gossip and ticks (no state being pruned by
  retention) always has a finalized state to serve: the state of the finalized checkpoint's slot. Once something after genesis is
  finalized, every node with the same genesis configuration that downloads this state accepts it and
  starts from it; the state is again well formed, so the same holds of the new node.
\<close>

theorem finalized_state_syncs:
  assumes "init_store H empty_tables anchor body = Ok s0" and "wf_state anchor" and "s_head s0 \<noteq> 0"
    and "s_head s0 \<noteq> hdr_parent_root (st_latest_block_header anchor)" and "anchored anchor"
    and "(chain_step H C)\<^sup>*\<^sup>* s0 s"
    and "st_validators anchor = genesis_validators_of gc" and "genesis_validators_of gc \<noteq> []"
    and "cc_genesis_time (st_config anchor) = gc_genesis_time gc"
  shows "\<exists>st. get_latest_finalized_state s = Ok st \<and> wf_state st \<and> anchored st \<and>
    st_slot st = cp_slot (s_latest_finalized s) \<and>
    (cp_slot (s_latest_finalized s) \<noteq> 0 \<longrightarrow>
      (\<forall>S url bytes. src_get S url = Some bytes \<and> src_decode S bytes = Some st \<longrightarrow>
        (\<exists>s'. fetch_initial_state H S (Some url) gc empty_tables = Ok s' \<and>
           cp_slot (s_latest_finalized s') = cp_slot (s_latest_finalized s))))"
proof -
  note run = running_node_serves [OF assms(1-6)]
  from run(2) obtain st0 where st0: "get_state s (cp_root (s_latest_finalized s)) = Some st0"
    "hdr_slot (st_latest_block_header st0) = cp_slot (s_latest_finalized s)"
    "anchored st0" "st_validators st0 = genesis_validators_of gc"
    "cc_genesis_time (st_config st0) = gc_genesis_time gc" using assms(7,9) by (auto simp: serves_def)
  define st where "st = st0\<lparr>st_latest_block_header := (st_latest_block_header st0)\<lparr>hdr_state_root := 0\<rparr>\<rparr>"
  have wf: "wf_state st" "anchored st"
    using state_trackedD(1) [OF chain_okD(3) [OF chain_invD(1) [OF run(1)] st0(1)]] st0(3)
    by (simp_all add: st_def anchored_fields)
  have slot: "st_slot st = cp_slot (s_latest_finalized s)" using st0(2,3) by (simp add: st_def anchored_def)
  have "\<exists>s'. fetch_initial_state H S (Some url) gc empty_tables = Ok s' \<and>
      cp_slot (s_latest_finalized s') = cp_slot (s_latest_finalized s)"
    if "cp_slot (s_latest_finalized s) \<noteq> 0" "src_get S url = Some bytes" "src_decode S bytes = Some st" for S url bytes
  proof -
    have "verify_checkpoint_state H st (gc_genesis_time gc) (genesis_validators_of gc) = Ok ()"
      using anchored_verifies [OF wf _ _ _ assms(8)] that(1) slot st0(4,5) by (simp add: st_def)
    with that(2,3) st0(2) show ?thesis
      by (simp add: fetch_initial_state_def fetch_checkpoint_state_def from_anchor_state_def init_store_def Let_def st_def)
  qed
  with st0(1) wf slot show ?thesis
    by (intro exI [of _ st]) (simp add: get_latest_finalized_state_def st_def)
qed

definition demo_anchor :: state where
  "demo_anchor = demo_state 2 0 1 [2000, 2001] [True] 1"

definition demo_source :: checkpoint_source where
  "demo_source = \<lparr>src_get = (\<lambda>_. Some [1]), src_decode = (\<lambda>_. Some demo_anchor)\<rparr>"

theorem finalized_state_syncs_witness:
  "\<exists>s s'. init_store demo_hashing empty_tables demo_anchor None = (Ok s :: (store, store_error) result) \<and>
     get_latest_finalized_state s = Ok demo_anchor \<and>
     fetch_initial_state demo_hashing demo_source (Some ''url'') demo_genesis_config empty_tables = Ok s' \<and>
     cp_slot (s_latest_finalized s') = 2"
proof -
  note d = demo_anchor_def demo_defs
  obtain s where s: "init_store demo_hashing empty_tables demo_anchor None = (Ok s :: (store, store_error) result)"
    "s_head s = 2002" "cp_slot (s_latest_finalized s) = 2" "get_latest_finalized_state s = Ok demo_anchor"
    by (simp add: init_store_def Let_def d get_latest_finalized_state_def get_state_def tbl_put_def empty_tables_def)
  have wf: "wf_state demo_anchor" by (simp add: wf_state_def d)
  have an: "anchored demo_anchor" by (simp add: anchored_def checkpoint_exists_def d)
  have hd: "s_head s \<noteq> 0" "s_head s \<noteq> hdr_parent_root (st_latest_block_header demo_anchor)"
    using s(2) by (simp_all add: d)
  have gc: "st_validators demo_anchor = genesis_validators_of demo_genesis_config"
    "genesis_validators_of demo_genesis_config \<noteq> []"
    "cc_genesis_time (st_config demo_anchor) = gc_genesis_time demo_genesis_config"
    unfolding demo_genesis_validators by (simp_all add: d demo_genesis_config_def)
  from finalized_state_syncs [OF s(1) wf hd an rtranclp.rtrancl_refl gc] s(3,4)
  have "src_get demo_source ''url'' = Some [1] \<and> src_decode demo_source [1] = Some demo_anchor \<longrightarrow>
      (\<exists>s'. fetch_initial_state demo_hashing demo_source (Some ''url'') demo_genesis_config empty_tables = Ok s' \<and>
         cp_slot (s_latest_finalized s') = 2)" by fastforce
  with s show ?thesis by (auto simp: demo_source_def)
qed

section \<open>Views of fork choice\<close>

lemma live_chain_tree:
  assumes "chain_ok a s"
  shows "block_tree (get_live_chain s)"
  using chain_okD(1,2) [OF assms] by (intro live_chain_block_tree) (auto simp: store_ok_def tables_ok_def)

text \<open>
  The fork choice view is always available: it shows the live chain, each block with the number of
  latest known attestations that support it above the finalized slot.
\<close>

lemma get_fork_choice_run:
  assumes "chain_inv a s"
  shows "\<exists>r. get_fork_choice s = Some (Ok r) \<and> fcr_head r = s_head s \<and>
    map fcn_root (fcr_nodes r) = map fst (get_live_chain s) \<and>
    (\<forall>n \<in> set (fcr_nodes r). fcn_weight n = word_of_nat (length (filter (\<lambda>(_, d).
       supports (cp_slot (s_latest_finalized s)) (map_of (get_live_chain s)) (cp_root (ad_head d)) (fcn_root n))
       (extract_latest_known_attestations s))))"
proof -
  note c = chain_invD(1) [OF assms]
  from compute_block_weights_counts [OF live_chain_tree [OF c]] obtain w where
    w: "compute_block_weights (cp_slot (s_latest_finalized s)) (get_live_chain s) (extract_latest_known_attestations s) = Some w"
    "\<forall>r. weight w r = word_of_nat (length (filter (\<lambda>(_, d).
       supports (cp_slot (s_latest_finalized s)) (map_of (get_live_chain s)) (cp_root (ad_head d)) r)
       (extract_latest_known_attestations s)))" by blast
  from chain_okD(9) [OF c] obtain st where "get_state s (s_head s) = Some st" by blast
  with w show ?thesis
    by (auto simp: get_fork_choice_def Let_def head_state_def comp_def case_prod_unfold)
qed

text \<open>Every route answers, and the tree that ticks log is always printed.\<close>

lemma views_total:
  assumes "chain_inv a s" and "serves vs cfg s"
  shows "\<exists>r. build_api_router E html s path = Some (Ok r)"
    and "\<exists>out. format_fork_choice_tree (get_live_chain s) weights head justified finalized = Ok out"
proof -
  from assms(2) obtain st where "get_state s (cp_root (s_latest_finalized s)) = Some st" by (auto simp: serves_def)
  with get_fork_choice_run [OF assms(1)] show "\<exists>r. build_api_router E html s path = Some (Ok r)"
    by (auto simp: build_api_router_def get_latest_finalized_state_def)
  show "\<exists>out. format_fork_choice_tree (get_live_chain s) weights head justified finalized = Ok out"
    by (rule format_fork_choice_tree_total [OF live_chain_tree [OF chain_invD(1) [OF assms(1)]]])
qed

end
