(* ===== verification/Backend.thy ===== *)
theory Backend
  imports Keys
begin

text \<open>
  The storage interface of \<open>crates/storage/src/api\<close> and its in-memory implementation
  \<open>crates/storage/src/backend/in_memory.rs\<close>, at the level of byte strings. A backend is a record of
  the methods of the traits \<open>StorageBackend\<close>, \<open>StorageReadView\<close> and \<open>StorageWriteBatch\<close>; every method may
  fail. The locale \<open>storage_api\<close> is the contract of these traits: a backend holds one map per table, and
  a committed batch acts as its calls one after another. It is interpreted on the in-memory backend.
  The locale \<open>ordered_storage\<close> adds what the store expects of a scan, ascending keys.
\<close>

section \<open>Tables\<close>

datatype table = BlockHeaders | BlockBodies | BlockSignatures | States | GossipSignatures
  | AttestationDataByRoot | Metadata | LiveChain

definition ALL_TABLES :: "table list" where
  "ALL_TABLES = [BlockHeaders, BlockBodies, BlockSignatures, States, GossipSignatures,
     AttestationDataByRoot, Metadata, LiveChain]"

fun table_name :: "table \<Rightarrow> string" where
  "table_name BlockHeaders = ''block_headers''"
| "table_name BlockBodies = ''block_bodies''"
| "table_name BlockSignatures = ''block_signatures''"
| "table_name States = ''states''"
| "table_name GossipSignatures = ''gossip_signatures''"
| "table_name AttestationDataByRoot = ''attestation_data_by_root''"
| "table_name Metadata = ''metadata''"
| "table_name LiveChain = ''live_chain''"

section \<open>The traits\<close>

type_synonym storage_error = string

text \<open>
  A read view is the data itself: nothing is written while the store holds one. The items of an
  iterator are results, as an item may fail to be read.
\<close>

record ('d, 'b) storage_backend =
  sb_begin_read :: "'d \<Rightarrow> ('d, storage_error) result"
  sb_get :: "'d \<Rightarrow> table \<Rightarrow> bytes \<Rightarrow> (bytes option, storage_error) result"
  sb_prefix_iterator ::
    "'d \<Rightarrow> table \<Rightarrow> bytes \<Rightarrow> ((bytes \<times> bytes, storage_error) result list, storage_error) result"
  sb_begin_write :: "'d \<Rightarrow> ('b, storage_error) result"
  sb_put_batch :: "'d \<Rightarrow> 'b \<Rightarrow> table \<Rightarrow> (bytes \<times> bytes) list \<Rightarrow> ('b, storage_error) result"
  sb_delete_batch :: "'d \<Rightarrow> 'b \<Rightarrow> table \<Rightarrow> bytes list \<Rightarrow> ('b, storage_error) result"
  sb_commit :: "'d \<Rightarrow> 'b \<Rightarrow> ('d, storage_error) result"
  sb_estimate_table_bytes :: "'d \<Rightarrow> table \<Rightarrow> u64"

text \<open>The default of the trait, for backends that cannot tell.\<close>

definition no_estimate :: "'d \<Rightarrow> table \<Rightarrow> u64" where
  "no_estimate _ _ = 0"

section \<open>The in-memory backend\<close>

type_synonym table_data = "(bytes \<times> bytes) list"
type_synonym storage_data = "(table \<times> table_data) list"

datatype pending_op = Put bytes | Delete

type_synonym pending_ops = "(table \<times> (bytes \<times> pending_op) list) list"

definition in_memory_new :: storage_data where
  "in_memory_new = map (\<lambda>t. (t, [])) ALL_TABLES"

text \<open>Taking the lock fails only after a panic of another thread that holds it.\<close>

definition in_memory_begin_read :: "storage_data \<Rightarrow> (storage_data, storage_error) result" where
  "in_memory_begin_read data = Ok data"

definition in_memory_get :: "storage_data \<Rightarrow> table \<Rightarrow> bytes \<Rightarrow> (bytes option, storage_error) result" where
  "in_memory_get data table key =
     bind_res (expect (map_of data table)) (\<lambda>table_data. Ok (map_of table_data key))"

definition starts_with :: "bytes \<Rightarrow> bytes \<Rightarrow> bool" where
  "starts_with key prefix \<longleftrightarrow> take (length prefix) key = prefix"

definition in_memory_prefix_iterator ::
  "storage_data \<Rightarrow> table \<Rightarrow> bytes \<Rightarrow> ((bytes \<times> bytes, storage_error) result list, storage_error) result" where
  "in_memory_prefix_iterator data table prefix =
     bind_res (expect (map_of data table))
       (\<lambda>table_data. Ok (map Ok (filter (\<lambda>(k, _). starts_with k prefix) table_data)))"

definition in_memory_begin_write :: "storage_data \<Rightarrow> (pending_ops, storage_error) result" where
  "in_memory_begin_write data = Ok []"

definition ops_of :: "pending_ops \<Rightarrow> table \<Rightarrow> (bytes \<times> pending_op) list" where
  "ops_of ops table = (case map_of ops table of None \<Rightarrow> [] | Some table_ops \<Rightarrow> table_ops)"

definition in_memory_put_batch ::
  "storage_data \<Rightarrow> pending_ops \<Rightarrow> table \<Rightarrow> (bytes \<times> bytes) list \<Rightarrow> (pending_ops, storage_error) result" where
  "in_memory_put_batch data ops table batch =
     Ok (AList.update table (fold (\<lambda>(key, v). AList.update key (Put v)) batch (ops_of ops table)) ops)"

definition in_memory_delete_batch ::
  "storage_data \<Rightarrow> pending_ops \<Rightarrow> table \<Rightarrow> bytes list \<Rightarrow> (pending_ops, storage_error) result" where
  "in_memory_delete_batch data ops table keys =
     Ok (AList.update table (fold (\<lambda>key. AList.update key Delete) keys (ops_of ops table)) ops)"

definition apply_op :: "bytes \<times> pending_op \<Rightarrow> table_data \<Rightarrow> table_data" where
  "apply_op = (\<lambda>(key, op) table_data.
     case op of Put v \<Rightarrow> AList.update key v table_data | Delete \<Rightarrow> AList.delete key table_data)"

definition in_memory_commit :: "storage_data \<Rightarrow> pending_ops \<Rightarrow> (storage_data, storage_error) result" where
  "in_memory_commit data ops =
     fold_res (\<lambda>(table, table_ops) d.
         bind_res (expect (map_of d table))
           (\<lambda>table_data. Ok (AList.update table (fold apply_op table_ops table_data) d)))
       ops data"

definition in_memory_backend :: "(storage_data, pending_ops) storage_backend" where
  "in_memory_backend =
     \<lparr>sb_begin_read = in_memory_begin_read, sb_get = in_memory_get,
      sb_prefix_iterator = in_memory_prefix_iterator, sb_begin_write = in_memory_begin_write,
      sb_put_batch = in_memory_put_batch, sb_delete_batch = in_memory_delete_batch,
      sb_commit = in_memory_commit, sb_estimate_table_bytes = no_estimate\<rparr>"

section \<open>Calls of a client\<close>

text \<open>
  The calls a client makes on a write batch and what they do to the contents of the tables. The
  client expects every call to succeed.
\<close>

type_synonym contents = "table \<Rightarrow> bytes \<rightharpoonup> bytes"

datatype batch_op = PutBatch table "(bytes \<times> bytes) list" | DeleteBatch table "bytes list"

fun perform :: "batch_op \<Rightarrow> contents \<Rightarrow> contents" where
  "perform (PutBatch t kvs) c = c(t := c t ++ map_of (rev kvs))"
| "perform (DeleteBatch t ks) c = c(t := c t |` (- set ks))"

fun issue :: "('d, 'b) storage_backend \<Rightarrow> 'd \<Rightarrow> batch_op \<Rightarrow> 'b \<Rightarrow> ('b, unit) result" where
  "issue B d (PutBatch t kvs) b = expect_ok (sb_put_batch B d b t kvs)"
| "issue B d (DeleteBatch t ks) b = expect_ok (sb_delete_batch B d b t ks)"

definition commit_ops :: "('d, 'b) storage_backend \<Rightarrow> batch_op list \<Rightarrow> 'd \<Rightarrow> ('d, unit) result" where
  "commit_ops B ops d =
     bind_res (expect_ok (sb_begin_write B d)) (\<lambda>batch.
     bind_res (fold_res (issue B d) ops batch) (\<lambda>batch.
       expect_ok (sb_commit B d batch)))"

text \<open>All entries of a table; items that could not be read are skipped.\<close>

definition scan :: "('d, 'b) storage_backend \<Rightarrow> 'd \<Rightarrow> table \<Rightarrow> ((bytes \<times> bytes) list, unit) result" where
  "scan B d t =
     bind_res (expect_ok (sb_begin_read B d)) (\<lambda>view.
     bind_res (expect_ok (sb_prefix_iterator B view t [])) (\<lambda>items.
       Ok (List.map_filter ok_value items)))"

definition read_key :: "('d, 'b) storage_backend \<Rightarrow> 'd \<Rightarrow> table \<Rightarrow> bytes \<Rightarrow> (bytes option, unit) result" where
  "read_key B d t key =
     bind_res (expect_ok (sb_begin_read B d)) (\<lambda>view. expect_ok (sb_get B view t key))"

section \<open>The contract\<close>

text \<open>
  \<open>contents d\<close> is the map each table holds and \<open>effect d b\<close> what committing a batch of the
  database \<open>d\<close> will do to it.
\<close>

locale storage_api =
  fixes B :: "('d, 'b) storage_backend" and inv :: "'d \<Rightarrow> bool" and batch_inv :: "'d \<Rightarrow> 'b \<Rightarrow> bool"
    and contents :: "'d \<Rightarrow> contents" and effect :: "'d \<Rightarrow> 'b \<Rightarrow> contents \<Rightarrow> contents"
  assumes begin_read_ok: "inv d \<Longrightarrow> sb_begin_read B d = Ok d"
    and get_ok: "inv d \<Longrightarrow> sb_get B d t k = Ok (contents d t k)"
    and iterate_ok: "inv d \<Longrightarrow> \<exists>kvs. sb_prefix_iterator B d t p = Ok (map Ok kvs) \<and> distinct (map fst kvs) \<and>
      (\<forall>k v. (k, v) \<in> set kvs \<longleftrightarrow> starts_with k p \<and> contents d t k = Some v)"
    and begin_write_ok: "inv d \<Longrightarrow> \<exists>b. sb_begin_write B d = Ok b \<and> batch_inv d b \<and> (\<forall>c. effect d b c = c)"
    and put_ok: "inv d \<Longrightarrow> batch_inv d b \<Longrightarrow> \<exists>b'. sb_put_batch B d b t kvs = Ok b' \<and> batch_inv d b' \<and>
      (\<forall>c. effect d b' c = perform (PutBatch t kvs) (effect d b c))"
    and delete_ok: "inv d \<Longrightarrow> batch_inv d b \<Longrightarrow> \<exists>b'. sb_delete_batch B d b t ks = Ok b' \<and> batch_inv d b' \<and>
      (\<forall>c. effect d b' c = perform (DeleteBatch t ks) (effect d b c))"
    and commit_ok: "inv d \<Longrightarrow> batch_inv d b \<Longrightarrow> \<exists>d'. sb_commit B d b = Ok d' \<and> inv d' \<and>
      contents d' = effect d b (contents d)"
begin

lemma issue_ok:
  assumes "inv d" and "batch_inv d b"
  shows "\<exists>b'. issue B d op b = Ok b' \<and> batch_inv d b' \<and> (\<forall>c. effect d b' c = perform op (effect d b c))"
  using put_ok [OF assms] delete_ok [OF assms] by (cases op) (metis issue.simps expect_ok.simps(1))+

lemma issue_all_ok:
  assumes "inv d" and "batch_inv d b"
  shows "\<exists>b'. fold_res (issue B d) ops b = Ok b' \<and> batch_inv d b' \<and>
    (\<forall>c. effect d b' c = fold perform ops (effect d b c))"
  using assms(2)
proof (induction ops arbitrary: b)
  case (Cons op ops)
  from issue_ok [OF assms(1) Cons.prems] obtain b1 where
    "issue B d op b = Ok b1" "batch_inv d b1" "\<forall>c. effect d b1 c = perform op (effect d b c)" by metis
  with Cons.IH [of b1] show ?case by simp
qed simp

lemma commit_ops_ok:
  assumes "inv d"
  shows "\<exists>d'. commit_ops B ops d = Ok d' \<and> inv d' \<and> contents d' = fold perform ops (contents d)"
proof -
  from begin_write_ok [OF assms] obtain b where
    b: "sb_begin_write B d = Ok b" "batch_inv d b" "\<forall>c. effect d b c = c" by blast
  from issue_all_ok [OF assms b(2)] obtain b' where
    b': "fold_res (issue B d) ops b = Ok b'" "batch_inv d b'" "\<forall>c. effect d b' c = fold perform ops (effect d b c)"
    by metis
  from commit_ok [OF assms b'(2)] b b' show ?thesis by (auto simp: commit_ops_def)
qed

lemma read_key_ok: "inv d \<Longrightarrow> read_key B d t k = Ok (contents d t k)"
  by (simp add: read_key_def begin_read_ok get_ok)

lemma scan_ok:
  assumes "inv d"
  shows "\<exists>kvs. scan B d t = Ok kvs \<and> distinct (map fst kvs) \<and> map_of kvs = contents d t"
proof -
  from iterate_ok [OF assms, of t "[]"] obtain kvs where
    kvs: "sb_prefix_iterator B d t [] = Ok (map Ok kvs)" "distinct (map fst kvs)"
      "\<forall>k v. (k, v) \<in> set kvs \<longleftrightarrow> starts_with k [] \<and> contents d t k = Some v" by blast
  then have "map_of kvs k = Some v \<longleftrightarrow> contents d t k = Some v" for k v
    by (simp add: starts_with_def map_of_eq_Some_iff)
  then have "map_of kvs = contents d t" by (intro ext) (metis option.exhaust)
  with kvs show ?thesis by (simp add: scan_def begin_read_ok assms map_filter_ok)
qed

end

locale ordered_storage = storage_api +
  assumes iterate_ascending: "inv d \<Longrightarrow> sb_prefix_iterator B d t p = Ok (map Ok kvs) \<Longrightarrow>
    sorted_wrt (<) (map fst kvs)"
begin

text \<open>A scan of an ordered backend is determined by the contents of the table.\<close>

lemma scan_sorted:
  assumes "inv d" and "sorted_wrt (<) (map fst kvs)" and "map_of kvs = contents d t"
  shows "scan B d t = Ok kvs"
proof -
  from iterate_ok [OF assms(1), of t "[]"] obtain kvs' where
    k: "sb_prefix_iterator B d t [] = Ok (map Ok kvs')" "distinct (map fst kvs')" by blast
  have "scan B d t = Ok kvs'" using k by (simp add: scan_def begin_read_ok assms(1) map_filter_ok)
  moreover from this scan_ok [OF assms(1), of t] have "map_of kvs' = contents d t" by auto
  ultimately show ?thesis
    using sorted_map_of_unique [OF iterate_ascending [OF assms(1) k(1)] assms(2)] assms(3) by simp
qed

end

section \<open>The in-memory backend meets the contract\<close>

definition storage_ok :: "storage_data \<Rightarrow> bool" where
  "storage_ok data \<longleftrightarrow> (\<forall>t. \<exists>td. map_of data t = Some td \<and> distinct (map fst td))"

definition batch_ok :: "pending_ops \<Rightarrow> bool" where
  "batch_ok ops \<longleftrightarrow> distinct (map fst ops) \<and> (\<forall>(t, tops) \<in> set ops. distinct (map fst tops))"

fun op_value :: "pending_op \<Rightarrow> bytes option" where
  "op_value (Put v) = Some v"
| "op_value Delete = None"

definition contents_of :: "storage_data \<Rightarrow> contents" where
  "contents_of data t = (case map_of data t of None \<Rightarrow> Map.empty | Some td \<Rightarrow> map_of td)"

definition effect_of :: "pending_ops \<Rightarrow> contents \<Rightarrow> contents" where
  "effect_of ops c t k = (case map_of (ops_of ops t) k of None \<Rightarrow> c t k | Some op \<Rightarrow> op_value op)"

lemma ops_of_update: "ops_of (AList.update t tops ops) t' = (if t' = t then tops else ops_of ops t')"
  by (simp add: ops_of_def)

lemma map_of_fold_put:
  "map_of (fold (\<lambda>(key, v). AList.update key (Put v)) batch tops) k =
     (if k \<in> fst ` set batch then map_option Put (map_of (rev batch) k) else map_of tops k)"
proof (induction batch arbitrary: tops rule: rev_induct)
  case Nil
  then show ?case by simp
next
  case (snoc b batch)
  then show ?case by (cases b) auto
qed

lemma map_of_fold_pending_delete:
  "map_of (fold (\<lambda>key. AList.update key Delete) keys tops) k =
     (if k \<in> set keys then Some Delete else map_of tops k)"
  by (induction keys arbitrary: tops) auto

lemma distinct_fold_update:
  "distinct (map fst tops) \<Longrightarrow> distinct (map fst (fold (\<lambda>x. AList.update (f x) (g x)) xs tops))"
  by (induction xs arbitrary: tops) (auto simp: distinct_update)

lemma distinct_ops_of: "batch_ok ops \<Longrightarrow> distinct (map fst (ops_of ops t))"
  by (auto simp: batch_ok_def ops_of_def split: option.splits dest!: map_of_SomeD)

lemma batch_ok_update:
  assumes "batch_ok ops" and "distinct (map fst tops)"
  shows "batch_ok (AList.update t tops ops)"
proof -
  have d: "distinct (map fst (AList.update t tops ops))"
    using assms(1) by (simp add: batch_ok_def distinct_update)
  have "distinct (map fst x)" if "(t', x) \<in> set (AList.update t tops ops)" for t' x
    using map_of_is_SomeI [OF d that] assms by (auto simp: batch_ok_def split: if_splits dest!: map_of_SomeD)
  with d show ?thesis by (auto simp: batch_ok_def)
qed

lemma map_of_fold_apply:
  assumes "distinct (map fst tops)"
  shows "map_of (fold apply_op tops td) k =
    (case map_of tops k of None \<Rightarrow> map_of td k | Some op \<Rightarrow> op_value op)"
  using assms
proof (induction tops arbitrary: td)
  case Nil
  then show ?case by simp
next
  case (Cons o1 tops)
  obtain k1 op where o1: "o1 = (k1, op)" by (cases o1)
  have "map_of (apply_op (k1, op) td) k = (if k = k1 then op_value op else map_of td k)"
    by (cases op) (auto simp: apply_op_def AList.delete_conv')
  moreover have "map_of tops k1 = None" using Cons.prems o1 by (simp add: map_of_eq_None_iff)
  ultimately show ?case using Cons.IH [of "apply_op (k1, op) td"] Cons.prems o1
    by (cases "k = k1") (simp_all split: option.splits)
qed

lemma distinct_fold_apply: "distinct (map fst td) \<Longrightarrow> distinct (map fst (fold apply_op tops td))"
proof (induction tops arbitrary: td)
  case Nil
  then show ?case by simp
next
  case (Cons o1 tops)
  obtain k1 op where o1: "o1 = (k1, op)" by (cases o1)
  have "distinct (map fst (apply_op (k1, op) td))"
    using Cons.prems by (cases op) (auto simp: apply_op_def distinct_update AList.distinct_delete)
  with Cons o1 show ?case by simp
qed

lemma in_memory_commit_ok:
  assumes "storage_ok data" and "distinct (map fst ops)"
  shows "\<exists>data'. in_memory_commit data ops = Ok data' \<and> storage_ok data' \<and>
    (\<forall>t td. map_of data t = Some td \<longrightarrow> map_of data' t = Some (fold apply_op (ops_of ops t) td))"
  using assms
proof (induction ops arbitrary: data)
  case Nil
  then show ?case by (simp add: in_memory_commit_def ops_of_def)
next
  case (Cons x ops)
  obtain t0 tops where x: "x = (t0, tops)" by (cases x)
  from Cons.prems(1) obtain td0 where td0: "map_of data t0 = Some td0" "distinct (map fst td0)"
    unfolding storage_ok_def by blast
  let ?d1 = "AList.update t0 (fold apply_op tops td0) data"
  have ok1: "storage_ok ?d1"
    using Cons.prems(1) td0(2) by (auto simp: storage_ok_def distinct_fold_apply)
  have "distinct (map fst ops)" using Cons.prems(2) by simp
  from Cons.IH [OF ok1 this] obtain d' where
    d': "in_memory_commit ?d1 ops = Ok d'" "storage_ok d'"
      "\<forall>t td. map_of ?d1 t = Some td \<longrightarrow> map_of d' t = Some (fold apply_op (ops_of ops t) td)" by blast
  have run: "in_memory_commit data (x # ops) = Ok d'"
    using d'(1) td0(1) by (simp add: in_memory_commit_def x)
  have "map_of d' t = Some (fold apply_op (ops_of (x # ops) t) td)" if "map_of data t = Some td" for t td
  proof (cases "t = t0")
    case True
    with Cons.prems(2) x have "ops_of ops t = []"
      by (simp add: ops_of_def map_of_eq_None_iff split: option.splits) (metis map_of_SomeD image_eqI fst_conv)
    with d'(3) that td0(1) True x show ?thesis by (simp add: ops_of_def)
  next
    case False
    with d'(3) that x show ?thesis by (simp add: ops_of_def)
  qed
  with run d'(2) show ?case by blast
qed

lemma storage_okD: "storage_ok d \<Longrightarrow> \<exists>td. map_of d t = Some td \<and> distinct (map fst td)"
  by (simp add: storage_ok_def)

lemma effect_of_put:
  assumes "in_memory_put_batch d b t kvs = Ok b'"
  shows "effect_of b' c = perform (PutBatch t kvs) (effect_of b c)"
proof (intro ext)
  fix t' k
  from assms have b': "b' = AList.update t (fold (\<lambda>(key, v). AList.update key (Put v)) kvs (ops_of b t)) b"
    by (simp add: in_memory_put_batch_def)
  have "k \<in> fst ` set kvs \<longleftrightarrow> map_of (rev kvs) k \<noteq> None" by (metis map_of_eq_None_iff set_rev)
  then show "effect_of b' c t' k = perform (PutBatch t kvs) (effect_of b c) t' k"
    by (cases "map_of (rev kvs) k"; cases "t' = t")
      (simp_all add: b' effect_of_def ops_of_update map_of_fold_put map_add_def)
qed

lemma effect_of_delete:
  "in_memory_delete_batch d b t ks = Ok b' \<Longrightarrow> effect_of b' c = perform (DeleteBatch t ks) (effect_of b c)"
  by (intro ext) (auto simp: effect_of_def in_memory_delete_batch_def ops_of_update
      map_of_fold_pending_delete restrict_map_def)

lemma in_memory_commit_contents:
  assumes "storage_ok d" and "batch_ok b"
  shows "\<exists>d'. in_memory_commit d b = Ok d' \<and> storage_ok d' \<and> contents_of d' = effect_of b (contents_of d)"
proof -
  have "distinct (map fst b)" using assms(2) by (simp add: batch_ok_def)
  from in_memory_commit_ok [OF assms(1) this] obtain d' where
    d': "in_memory_commit d b = Ok d'" "storage_ok d'"
      "\<forall>t td. map_of d t = Some td \<longrightarrow> map_of d' t = Some (fold apply_op (ops_of b t) td)" by blast
  have "contents_of d' t k = effect_of b (contents_of d) t k" for t k
  proof -
    from storage_okD [OF assms(1)] obtain td where td: "map_of d t = Some td" by blast
    with d'(3) map_of_fold_apply [OF distinct_ops_of [OF assms(2)], of t td k] show ?thesis
      by (simp add: contents_of_def effect_of_def split: option.splits)
  qed
  with d'(1,2) show ?thesis by blast
qed

interpretation memory: storage_api in_memory_backend storage_ok "\<lambda>_. batch_ok" contents_of "\<lambda>_. effect_of"
proof (standard, goal_cases)
  case 1
  show ?case by (simp add: in_memory_backend_def in_memory_begin_read_def)
next
  case (2 d t k)
  with storage_okD [of d t] show ?case
    by (auto simp: in_memory_backend_def in_memory_get_def contents_of_def)
next
  case (3 d t p)
  then obtain td where "map_of d t = Some td" "distinct (map fst td)" using storage_okD by blast
  then show ?case
    by (intro exI [of _ "filter (\<lambda>(k, _). starts_with k p) td"])
      (auto simp: in_memory_backend_def in_memory_prefix_iterator_def contents_of_def distinct_map_filter)
next
  case 4
  show ?case
    by (simp add: in_memory_backend_def in_memory_begin_write_def batch_ok_def effect_of_def ops_of_def fun_eq_iff)
next
  case (5 d b t kvs)
  then have "batch_ok (AList.update t (fold (\<lambda>(key, v). AList.update key (Put v)) kvs (ops_of b t)) b)"
    unfolding case_prod_unfold by (intro batch_ok_update distinct_fold_update distinct_ops_of)
  then show ?case using effect_of_put [of d b t kvs]
    by (simp add: in_memory_backend_def in_memory_put_batch_def)
next
  case (6 d b t ks)
  then have "batch_ok (AList.update t (fold (\<lambda>key. AList.update key Delete) ks (ops_of b t)) b)"
    by (intro batch_ok_update distinct_fold_update distinct_ops_of)
  then show ?case using effect_of_delete [of d b t ks]
    by (simp add: in_memory_backend_def in_memory_delete_batch_def)
next
  case (7 d b)
  from in_memory_commit_contents [OF this] show ?case by (simp add: in_memory_backend_def)
qed

lemma contents_of_new [simp]: "contents_of in_memory_new t = Map.empty"
  by (cases t) (simp_all add: contents_of_def in_memory_new_def ALL_TABLES_def)

lemma storage_ok_new: "storage_ok in_memory_new"
proof -
  have "map_of in_memory_new t = Some []" for t
    by (cases t) (simp_all add: in_memory_new_def ALL_TABLES_def)
  then show ?thesis by (simp add: storage_ok_def)
qed

section \<open>Properties\<close>

text \<open>
  The in-memory backend is a key-value store with atomic batches: whatever calls were made on
  a write batch, its commit succeeds, and afterwards every read gives what performing the calls one
  after another on the maps of the tables gives; in particular the last call that names a key
  decides about it, and all other keys of all tables are unchanged.
\<close>

lemma in_memory_batch_semantics:
  assumes "storage_ok d"
  shows "\<exists>d'. commit_ops in_memory_backend ops d = Ok d' \<and> storage_ok d' \<and>
    (\<forall>t k. read_key in_memory_backend d' t k = Ok (fold perform ops (contents_of d) t k))"
  using memory.commit_ops_ok [OF assms, of ops] memory.read_key_ok by metis

end
