(* ===== verification/Chain_Metrics.thy ===== *)
theory Chain_Metrics
  imports Metrics Server_Properties Rpc_Server Backend
begin

text \<open>
  Where the blockchain code updates its metrics, the server that exposes them
  (\<open>crates/net/rpc/src/metrics.rs\<close>, \<open>crates/common/metrics/src/gather.rs\<close>) and the heap profiling
  endpoints beside it (\<open>heap_profiling.rs\<close>). The calls of a handler are modelled on the store it
  leaves behind; timers are left out. On reachable stores the calls succeed and the gauges show what
  the store holds.
\<close>

section \<open>Calls of the handlers\<close>

text \<open>
  After a block was imported, and at the end of a tick (\<open>blockchain/src/lib.rs\<close>). The size of a table
  is what the backend estimates.
\<close>

definition block_gauges ::
  "'r prometheus \<Rightarrow> (table \<Rightarrow> u64) \<Rightarrow> 'sk server \<Rightarrow> 'r metrics \<Rightarrow> 'r metrics_run" where
  "block_gauges P estimate_table_bytes sv mx =
     bind_res (head_slot (sv_store sv)) (\<lambda>slot.
     bind_res (update_head_slot P slot mx) (\<lambda>mx.
     bind_res (update_latest_justified_slot P (cp_slot (s_latest_justified (sv_store sv))) mx) (\<lambda>mx.
     bind_res (update_latest_finalized_slot P (cp_slot (s_latest_finalized (sv_store sv))) mx) (\<lambda>mx.
     bind_res (update_validators_count P (word_of_nat (length (validator_ids (sv_key_manager sv)))) mx) (\<lambda>mx.
       fold_res (\<lambda>table. update_table_bytes P (table_name table) (estimate_table_bytes table)) ALL_TABLES mx)))))"

definition tick_gauges :: "'r prometheus \<Rightarrow> 'sk server \<Rightarrow> 'r metrics \<Rightarrow> 'r metrics_run" where
  "tick_gauges P sv mx =
     bind_res (safe_target_slot (sv_store sv)) (\<lambda>safe_target_slot.
     bind_res (update_safe_target_slot P safe_target_slot mx) (\<lambda>mx.
     bind_res (head_slot (sv_store sv)) (\<lambda>slot. update_head_slot P slot mx)))"

text \<open>When new payloads are accepted, and when the head moves to another branch (\<open>blockchain/src/store.rs\<close>).\<close>

definition payload_gauges :: "'r prometheus \<Rightarrow> store \<Rightarrow> 'r metrics \<Rightarrow> 'r metrics_run" where
  "payload_gauges P s mx =
     bind_res (update_latest_new_aggregated_payloads P (new_aggregated_payloads_count s) mx)
       (update_latest_known_aggregated_payloads P (known_aggregated_payloads_count s))"

definition reorg_metrics :: "'r prometheus \<Rightarrow> store \<Rightarrow> H256 \<Rightarrow> 'r metrics \<Rightarrow> 'r metrics_run" where
  "reorg_metrics P s new_head mx =
     (case reorg_depth (s_head s) new_head s of
        None \<Rightarrow> Ok mx
      | Some depth \<Rightarrow>
          bind_res (inc_fork_choice_reorgs P mx) (observe_fork_choice_reorg_depth P (word_of_nat depth)))"

text \<open>
  A gossiped attestation counts as invalid when its data is, and as valid when it was accepted; the
  outcome of the signature check has counters of its own.
\<close>

definition gossip_attestation_metrics ::
  "'r prometheus \<Rightarrow> hashing \<Rightarrow> ('pk, 'sig, 'sk) crypto \<Rightarrow> store \<Rightarrow> signed_attestation \<Rightarrow> u64 list \<Rightarrow>
   'r metrics \<Rightarrow> 'r metrics_run" where
  "gossip_attestation_metrics P H C s sa local_validator_ids mx =
     (case validate_attestation_data s (sa_data sa) of
        Err _ \<Rightarrow> inc_attestations_invalid P mx
      | Panic \<Rightarrow> Panic
      | Ok _ \<Rightarrow>
          (case check_gossip_attestation H C s sa of
             Panic \<Rightarrow> Panic
           | Err e \<Rightarrow> if e = SignatureVerificationFailed then inc_pq_sig_attestation_signatures_invalid P mx else Ok mx
           | Ok _ \<Rightarrow>
               bind_res (inc_pq_sig_attestation_signatures_valid P mx) (\<lambda>mx.
               bind_res (if in_our_subnet local_validator_ids (sa_validator_id sa)
                         then update_gossip_signatures P
                           (s_gossip_signatures_count (fst (on_gossip_attestation H C s sa local_validator_ids))) mx
                         else Ok mx) (inc_attestations_valid P))))"

definition gossip_aggregate_metrics ::
  "'r prometheus \<Rightarrow> hashing \<Rightarrow> ('pk, 'sig, 'sk) crypto \<Rightarrow> store \<Rightarrow> signed_aggregated_attestation \<Rightarrow>
   'r metrics \<Rightarrow> 'r metrics_run" where
  "gossip_aggregate_metrics P H C s aggregated mx =
     (case validate_attestation_data s (saa_data aggregated) of
        Err _ \<Rightarrow> inc_attestations_invalid P mx
      | Panic \<Rightarrow> Panic
      | Ok _ \<Rightarrow>
          (case check_gossip_aggregate H C s aggregated of
             Panic \<Rightarrow> Panic
           | Err _ \<Rightarrow> Ok mx
           | Ok _ \<Rightarrow>
               bind_res (update_latest_new_aggregated_payloads P
                   (new_aggregated_payloads_count (fst (on_gossip_aggregated_attestation H C s aggregated))) mx)
                 (inc_attestations_valid P)))"

text \<open>What \<open>main\<close> does first. The version of the client is set by the build.\<close>

definition start_metrics :: "'r prometheus \<Rightarrow> string \<Rightarrow> u64 option \<Rightarrow> u64 \<Rightarrow> 'r metrics \<Rightarrow> 'r metrics_run" where
  "start_metrics P client_version now attestation_committee_count mx =
     bind_res (metrics_init P mx) (\<lambda>mx.
     bind_res (set_node_info P ''ethlambda'' client_version mx) (\<lambda>mx.
     bind_res (set_node_start_time P now mx) (set_attestation_committee_count P attestation_committee_count)))"

definition CLIENT_VERSION :: "string \<Rightarrow> string \<Rightarrow> string \<Rightarrow> string \<Rightarrow> string \<Rightarrow> string \<Rightarrow> string" where
  "CLIENT_VERSION pkg_name pkg_version git_branch git_sha host_triple rustc_semver =
     pkg_name @ ''/v'' @ pkg_version @ ''-'' @ git_branch @ ''-'' @ git_sha @ ''/'' @ host_triple @ ''/rustc-v'' @
     rustc_semver"

section \<open>The metrics server\<close>

text \<open>\<open>String::from_utf8\<close> accepts well-formed UTF-8: no overlong forms, no surrogates, at most U+10FFFF.\<close>

definition utf8_tail :: "u8 \<Rightarrow> bool" where
  "utf8_tail b \<longleftrightarrow> 0x80 \<le> b \<and> b \<le> 0xBF"

fun utf8_valid :: "bytes \<Rightarrow> bool" where
  "utf8_valid [] = True"
| "utf8_valid (a # bs) =
     (if a \<le> 0x7F then utf8_valid bs
      else case bs of
        [] \<Rightarrow> False
      | b # cs \<Rightarrow>
          if 0xC2 \<le> a \<and> a \<le> 0xDF then utf8_tail b \<and> utf8_valid cs
          else case cs of
            [] \<Rightarrow> False
          | c # ds \<Rightarrow>
              if 0xE0 \<le> a \<and> a \<le> 0xEF
              then (if a = 0xE0 then 0xA0 \<le> b \<and> b \<le> 0xBF else if a = 0xED then 0x80 \<le> b \<and> b \<le> 0x9F else utf8_tail b) \<and>
                   utf8_tail c \<and> utf8_valid ds
              else case ds of
                [] \<Rightarrow> False
              | d # es \<Rightarrow>
                  0xF0 \<le> a \<and> a \<le> 0xF4 \<and>
                  (if a = 0xF0 then 0x90 \<le> b \<and> b \<le> 0xBF else if a = 0xF4 then 0x80 \<le> b \<and> b \<le> 0x8F else utf8_tail b) \<and>
                  utf8_tail c \<and> utf8_tail d \<and> utf8_valid es)"

datatype gather_error = Prometheus string | FromUtf8 bytes

definition gather_default_metrics :: "'r prometheus \<Rightarrow> 'r metrics \<Rightarrow> (bytes, gather_error) result" where
  "gather_default_metrics P mx =
     bind_res (map_err Prometheus (pr_gather_text P (mx_registry mx))) (\<lambda>buffer.
       if utf8_valid buffer then Ok buffer else Err (FromUtf8 buffer))"

text \<open>A content type that the handler does not set is chosen by the HTTP library.\<close>

record debug_response =
  dr_status :: nat
  dr_content_type :: "string option"
  dr_body :: bytes

definition get_metrics :: "'r prometheus \<Rightarrow> 'r metrics \<Rightarrow> (debug_response, unit) result" where
  "get_metrics P mx =
     (case gather_default_metrics P mx of
        Ok body \<Rightarrow> Ok \<lparr>dr_status = 200, dr_content_type = Some ''text/plain; version=0.0.4; charset=utf-8'', dr_body = body\<rparr>
      | Err _ \<Rightarrow> Ok \<lparr>dr_status = 200, dr_content_type = Some ''text/plain; version=0.0.4; charset=utf-8'', dr_body = []\<rparr>
      | Panic \<Rightarrow> Panic)"

text \<open>The jemalloc profiler: nothing when it is not enabled, otherwise its two dumps.\<close>

record profiler =
  pf_dump_pprof :: "(bytes, string) result"
  pf_dump_flamegraph :: "(bytes, string) result"

definition handle_get_heap :: "profiler option \<Rightarrow> (debug_response, unit) result" where
  "handle_get_heap prof_ctl =
     (case prof_ctl of
        None \<Rightarrow> Ok \<lparr>dr_status = 500, dr_content_type = None, dr_body = string_bytes ''Heap profiling not enabled''\<rparr>
      | Some guard \<Rightarrow>
          (case pf_dump_pprof guard of
             Ok pprof \<Rightarrow> Ok \<lparr>dr_status = 200, dr_content_type = Some ''application/octet-stream'', dr_body = pprof\<rparr>
           | Err err \<Rightarrow> Ok \<lparr>dr_status = 500, dr_content_type = None,
               dr_body = string_bytes (''Failed to dump heap profile: '' @ err)\<rparr>
           | Panic \<Rightarrow> Panic))"

definition handle_get_heap_flamegraph :: "profiler option \<Rightarrow> (debug_response, unit) result" where
  "handle_get_heap_flamegraph prof_ctl =
     (case prof_ctl of
        None \<Rightarrow> Ok \<lparr>dr_status = 500, dr_content_type = None, dr_body = string_bytes ''Heap profiling not enabled''\<rparr>
      | Some guard \<Rightarrow>
          (case pf_dump_flamegraph guard of
             Ok svg \<Rightarrow> Ok \<lparr>dr_status = 200, dr_content_type = Some ''image/svg+xml'', dr_body = svg\<rparr>
           | Err err \<Rightarrow> Ok \<lparr>dr_status = 500, dr_content_type = None,
               dr_body = string_bytes (''Failed to dump flamegraph: '' @ err)\<rparr>
           | Panic \<Rightarrow> Panic))"

definition start_prometheus_metrics_api ::
  "'r prometheus \<Rightarrow> 'r metrics \<Rightarrow> string \<Rightarrow> (debug_response, unit) result option" where
  "start_prometheus_metrics_api P mx path = (if path = ''/metrics'' then Some (get_metrics P mx) else None)"

definition build_debug_router :: "profiler option \<Rightarrow> string \<Rightarrow> (debug_response, unit) result option" where
  "build_debug_router prof_ctl path =
     (if path = ''/debug/pprof/allocs'' then Some (handle_get_heap prof_ctl)
      else if path = ''/debug/pprof/allocs/flamegraph'' then Some (handle_get_heap_flamegraph prof_ctl)
      else None)"

text \<open>The merged routers; a path without a route is answered by the HTTP library.\<close>

definition start_metrics_server ::
  "'r prometheus \<Rightarrow> profiler option \<Rightarrow> 'r metrics \<Rightarrow> string \<Rightarrow> (debug_response, unit) result option" where
  "start_metrics_server P prof_ctl mx path =
     (case start_prometheus_metrics_api P mx path of Some r \<Rightarrow> Some r | None \<Rightarrow> build_debug_router prof_ctl path)"

section \<open>The gauges of a chain\<close>

lemma table_name_inj: "table_name t = table_name t' \<Longrightarrow> t = t'"
  by (cases t; cases t') simp_all

lemma gauges_differ:
  "distinct [LEAN_HEAD_SLOT, LEAN_LATEST_JUSTIFIED_SLOT, LEAN_LATEST_FINALIZED_SLOT, LEAN_CURRENT_SLOT,
     LEAN_VALIDATORS_COUNT, LEAN_SAFE_TARGET_SLOT, LEAN_TABLE_BYTES, LEAN_GOSSIP_SIGNATURES]"
  "distinct [LEAN_GOSSIP_SIGNATURES, LEAN_TABLE_BYTES, LEAN_SAFE_TARGET_SLOT, LEAN_VALIDATORS_COUNT,
     LEAN_CURRENT_SLOT, LEAN_LATEST_FINALIZED_SLOT, LEAN_LATEST_JUSTIFIED_SLOT, LEAN_HEAD_SLOT]"
  by (simp_all add: shape_defs)

text \<open>Head, justified, finalized and safe target slots of a store with the chain invariant are small.\<close>

lemma tracked_slot:
  assumes "chain_inv a s" and "get_state s r \<noteq> None"
  shows "\<exists>h st. get_block_header s r = Some h \<and> get_state s r = Some st \<and>
    hdr_slot h = hdr_slot (st_latest_block_header st) \<and> unat (hdr_slot h) < 2 ^ 63"
proof -
  from assms(2) obtain st where st: "get_state s r = Some st" by blast
  note tr = chain_okD(3) [OF chain_invD(1) [OF assms(1)] st]
  from state_trackedD(1) [OF tr] have "unat (hdr_slot (st_latest_block_header st)) \<le> HISTORICAL_ROOTS_LIMIT"
    by (simp add: wf_state_def)
  with state_trackedD(8) [OF tr] st show ?thesis by (auto simp: HISTORICAL_ROOTS_LIMIT_def)
qed

lemma chain_slots:
  assumes "chain_inv a s"
  shows "\<exists>h. get_block_header s (s_head s) = Some h \<and> unat (hdr_slot h) < 2 ^ 63 \<and>
      unat (cp_slot (s_latest_justified s)) < 2 ^ 63 \<and> unat (cp_slot (s_latest_finalized s)) < 2 ^ 63"
    and "\<exists>h. get_block_header s (s_safe_target s) = Some h \<and> unat (hdr_slot h) < 2 ^ 63"
proof -
  note ok = chain_invD(1) [OF assms]
  from tracked_slot [OF assms chain_okD(9) [OF ok]] obtain h st where h: "get_block_header s (s_head s) = Some h"
    "get_state s (s_head s) = Some st" "hdr_slot h = hdr_slot (st_latest_block_header st)" "unat (hdr_slot h) < 2 ^ 63" by blast
  have "cp_slot (s_latest_justified s) \<le> hdr_slot h" using chain_invD(2) [OF assms] h(2,3) by (simp add: head_ok_def)
  with h chain_okD(6) [OF ok] show "\<exists>h. get_block_header s (s_head s) = Some h \<and> unat (hdr_slot h) < 2 ^ 63 \<and>
      unat (cp_slot (s_latest_justified s)) < 2 ^ 63 \<and> unat (cp_slot (s_latest_finalized s)) < 2 ^ 63"
    by (fastforce simp: word_le_nat_alt)
  from tracked_slot [OF assms chain_okD(10) [OF ok]]
  show "\<exists>h. get_block_header s (s_safe_target s) = Some h \<and> unat (hdr_slot h) < 2 ^ 63" by blast
qed

lemma tick_slot_small: "unat (tick_slot sv ts) < 2 ^ 63"
proof -
  have "unat (tick_slot sv ts) = unat (saturating_sub ts (cc_genesis_time (s_config (sv_store sv)) * 1000)) div 4000"
    by (simp add: tick_slot_def MILLISECONDS_PER_SLOT_def MILLISECONDS_PER_INTERVAL_def INTERVALS_PER_SLOT_def unat_div)
  also have "\<dots> < 2 ^ 63" by (rule less_mult_imp_div_less, rule less_le_trans [OF unat_less_u64]) simp
  finally show ?thesis .
qed

context prometheus_library
begin

lemma goes_bind:
  assumes "goes mx run rd sm"
    and "\<And>mx'. metrics_ok registered mx' \<Longrightarrow> reading (mx_registry mx') = rd \<Longrightarrow> yields (f mx') Q"
  shows "yields (bind_res run f) Q"
  using assms by (auto simp: goes_def intro: yields_bind)

lemma table_bytes_yields:
  assumes "metrics_ok registered mx"
  shows "yields (fold_res (\<lambda>table. update_table_bytes P (table_name table) (estimate table)) ts mx) (\<lambda>mx'.
    metrics_ok registered mx' \<and>
    (\<forall>t \<in> set ts. reading (mx_registry mx') (LEAN_TABLE_BYTES, [table_name t]) = estimate t) \<and>
    (\<forall>k. k \<notin> (\<lambda>t. (LEAN_TABLE_BYTES, [table_name t])) ` set ts \<longrightarrow>
       reading (mx_registry mx') k = reading (mx_registry mx) k))"
  using assms
proof (induction ts arbitrary: mx)
  case (Cons t ts)
  have g: "goes mx (update_table_bytes P (table_name t) (estimate t) mx)
    ((reading (mx_registry mx))((LEAN_TABLE_BYTES, [table_name t]) := estimate t)) (samples (mx_registry mx))"
    unfolding update_table_bytes_def
    by (rule set_gauge_goes [OF Cons.prems]) (simp add: member_defs, simp_all add: shape_defs)
  show ?case unfolding fold_res.simps
  proof (rule goes_bind [OF g])
    fix mx1
    assume mx1: "metrics_ok registered mx1"
      "reading (mx_registry mx1) = (reading (mx_registry mx))((LEAN_TABLE_BYTES, [table_name t]) := estimate t)"
    show "yields (fold_res (\<lambda>table. update_table_bytes P (table_name table) (estimate table)) ts mx1) (\<lambda>mx'.
      metrics_ok registered mx' \<and>
      (\<forall>u \<in> set (t # ts). reading (mx_registry mx') (LEAN_TABLE_BYTES, [table_name u]) = estimate u) \<and>
      (\<forall>k. k \<notin> (\<lambda>t. (LEAN_TABLE_BYTES, [table_name t])) ` set (t # ts) \<longrightarrow>
         reading (mx_registry mx') k = reading (mx_registry mx) k))"
    proof (rule yields_mono [OF Cons.IH [OF mx1(1)]], elim conjE, intro conjI)
      fix mx'
      assume h: "\<forall>u \<in> set ts. reading (mx_registry mx') (LEAN_TABLE_BYTES, [table_name u]) = estimate u"
        "\<forall>k. k \<notin> (\<lambda>t. (LEAN_TABLE_BYTES, [table_name t])) ` set ts \<longrightarrow>
           reading (mx_registry mx') k = reading (mx_registry mx1) k"
      have "reading (mx_registry mx') (LEAN_TABLE_BYTES, [table_name t]) = estimate t" if "t \<notin> set ts"
      proof -
        have "(LEAN_TABLE_BYTES, [table_name t]) \<notin> (\<lambda>t. (LEAN_TABLE_BYTES, [table_name t])) ` set ts"
          using that by (auto dest: table_name_inj)
        with h(2) mx1(2) show ?thesis by simp
      qed
      with h(1) show "\<forall>u \<in> set (t # ts). reading (mx_registry mx') (LEAN_TABLE_BYTES, [table_name u]) = estimate u"
        by auto
      show "\<forall>k. k \<notin> (\<lambda>t. (LEAN_TABLE_BYTES, [table_name t])) ` set (t # ts) \<longrightarrow>
         reading (mx_registry mx') k = reading (mx_registry mx) k" using h(2) mx1(2) by simp
    qed simp
  qed
qed simp

text \<open>The gauges that are set from an unsigned integer.\<close>

lemma checked_step:
  assumes "metrics_ok registered mx" and "unat v < 2 ^ 63"
    and "m \<in> {LEAN_HEAD_SLOT, LEAN_LATEST_JUSTIFIED_SLOT, LEAN_LATEST_FINALIZED_SLOT, LEAN_CURRENT_SLOT,
      LEAN_VALIDATORS_COUNT, LEAN_SAFE_TARGET_SLOT}"
  shows "\<exists>mx'. set_gauge_checked P m v mx = Ok mx' \<and> metrics_ok registered mx' \<and>
    reading (mx_registry mx') = (reading (mx_registry mx))((m, []) := v)"
proof -
  from assms(3) have "m \<in> set all_metrics" by (auto simp: member_defs)
  moreover from assms(3) have "mt_kind m = IntGauge" "mt_labels m = []" by (auto simp: shape_defs)
  ultimately show ?thesis using goesD [OF set_checked_goes [OF assms(1) _ _ _ assms(2)]] by blast
qed

end

context prometheus_library
begin

lemma block_gauges_yields:
  assumes ok: "metrics_ok registered mx" and inv: "chain_inv a (sv_store sv)"
    and n: "length (validator_ids (sv_key_manager sv)) < 2 ^ 63"
  shows "yields (block_gauges P estimate sv mx) (\<lambda>mx'. metrics_ok registered mx' \<and>
    head_slot (sv_store sv) = (Ok (reading (mx_registry mx') (LEAN_HEAD_SLOT, [])) :: (u64, unit) result) \<and>
    reading (mx_registry mx') (LEAN_LATEST_JUSTIFIED_SLOT, []) = cp_slot (s_latest_justified (sv_store sv)) \<and>
    reading (mx_registry mx') (LEAN_LATEST_FINALIZED_SLOT, []) = cp_slot (s_latest_finalized (sv_store sv)) \<and>
    unat (reading (mx_registry mx') (LEAN_VALIDATORS_COUNT, [])) = length (validator_ids (sv_key_manager sv)) \<and>
    (\<forall>t. reading (mx_registry mx') (LEAN_TABLE_BYTES, [table_name t]) = estimate t) \<and>
    (\<forall>labels. reading (mx_registry mx') (LEAN_GOSSIP_SIGNATURES, labels) =
       reading (mx_registry mx) (LEAN_GOSSIP_SIGNATURES, labels)))"
proof -
  let ?s = "sv_store sv" and ?n = "word_of_nat (length (validator_ids (sv_key_manager sv))) :: u64"
  from chain_slots(1) [OF inv] obtain h where h: "get_block_header ?s (s_head ?s) = Some h" "unat (hdr_slot h) < 2 ^ 63"
    "unat (cp_slot (s_latest_justified ?s)) < 2 ^ 63" "unat (cp_slot (s_latest_finalized ?s)) < 2 ^ 63" by blast
  have hs: "head_slot ?s = (Ok (hdr_slot h) :: (u64, unit) result)" by (simp add: head_slot_def h(1))
  have len: "unat (word_of_nat (length (validator_ids (sv_key_manager sv))) :: u64) = length (validator_ids (sv_key_manager sv))"
    using n by (simp add: unat_of_nat)
  have all: "t \<in> set ALL_TABLES" for t by (cases t) (simp_all add: ALL_TABLES_def)
  from checked_step [OF ok h(2), of LEAN_HEAD_SLOT] obtain mx1 where
    1: "set_gauge_checked P LEAN_HEAD_SLOT (hdr_slot h) mx = Ok mx1" "metrics_ok registered mx1"
      "reading (mx_registry mx1) = (reading (mx_registry mx))((LEAN_HEAD_SLOT, []) := hdr_slot h)" by auto
  from checked_step [OF 1(2) h(3), of LEAN_LATEST_JUSTIFIED_SLOT] obtain mx2 where
    2: "set_gauge_checked P LEAN_LATEST_JUSTIFIED_SLOT (cp_slot (s_latest_justified ?s)) mx1 = Ok mx2"
      "metrics_ok registered mx2" "reading (mx_registry mx2) =
        (reading (mx_registry mx1))((LEAN_LATEST_JUSTIFIED_SLOT, []) := cp_slot (s_latest_justified ?s))" by auto
  from checked_step [OF 2(2) h(4), of LEAN_LATEST_FINALIZED_SLOT] obtain mx3 where
    3: "set_gauge_checked P LEAN_LATEST_FINALIZED_SLOT (cp_slot (s_latest_finalized ?s)) mx2 = Ok mx3"
      "metrics_ok registered mx3" "reading (mx_registry mx3) =
        (reading (mx_registry mx2))((LEAN_LATEST_FINALIZED_SLOT, []) := cp_slot (s_latest_finalized ?s))" by auto
  from checked_step [OF 3(2), of ?n LEAN_VALIDATORS_COUNT] n len obtain mx4 where
    4: "set_gauge_checked P LEAN_VALIDATORS_COUNT ?n mx3 = Ok mx4" "metrics_ok registered mx4"
      "reading (mx_registry mx4) = (reading (mx_registry mx3))((LEAN_VALIDATORS_COUNT, []) := ?n)" by auto
  have run: "block_gauges P estimate sv mx =
      fold_res (\<lambda>table. update_table_bytes P (table_name table) (estimate table)) ALL_TABLES mx4"
    by (simp add: block_gauges_def hs 1(1) 2(1) 3(1) 4(1) update_head_slot_def update_latest_justified_slot_def
        update_latest_finalized_slot_def update_validators_count_def)
  show ?thesis
    unfolding run by (rule yields_mono [OF table_bytes_yields [OF 4(2)]])
      (use all hs len in \<open>auto simp: image_iff 1(3) 2(3) 3(3) 4(3) gauges_differ [simplified]\<close>)
qed

lemma tick_gauges_yields:
  assumes ok: "metrics_ok registered mx" and inv: "chain_inv a (sv_store sv)"
  shows "yields (bind_res (update_current_slot P (tick_slot sv' ts) mx) (tick_gauges P sv)) (\<lambda>mx'.
    metrics_ok registered mx' \<and>
    reading (mx_registry mx') (LEAN_CURRENT_SLOT, []) = tick_slot sv' ts \<and>
    head_slot (sv_store sv) = (Ok (reading (mx_registry mx') (LEAN_HEAD_SLOT, [])) :: (u64, unit) result) \<and>
    safe_target_slot (sv_store sv) = (Ok (reading (mx_registry mx') (LEAN_SAFE_TARGET_SLOT, [])) :: (u64, unit) result))"
proof -
  let ?s = "sv_store sv"
  from chain_slots [OF inv] obtain h g where h: "get_block_header ?s (s_head ?s) = Some h" "unat (hdr_slot h) < 2 ^ 63"
    "get_block_header ?s (s_safe_target ?s) = Some g" "unat (hdr_slot g) < 2 ^ 63" by blast
  have hs: "head_slot ?s = (Ok (hdr_slot h) :: (u64, unit) result)"
    "safe_target_slot ?s = (Ok (hdr_slot g) :: (u64, unit) result)" by (simp_all add: head_slot_def safe_target_slot_def h)
  from checked_step [OF ok tick_slot_small [of sv' ts], of LEAN_CURRENT_SLOT] obtain mx1 where
    1: "set_gauge_checked P LEAN_CURRENT_SLOT (tick_slot sv' ts) mx = Ok mx1" "metrics_ok registered mx1"
      "reading (mx_registry mx1) = (reading (mx_registry mx))((LEAN_CURRENT_SLOT, []) := tick_slot sv' ts)" by auto
  from checked_step [OF 1(2) h(4), of LEAN_SAFE_TARGET_SLOT] obtain mx2 where
    2: "set_gauge_checked P LEAN_SAFE_TARGET_SLOT (hdr_slot g) mx1 = Ok mx2" "metrics_ok registered mx2"
      "reading (mx_registry mx2) = (reading (mx_registry mx1))((LEAN_SAFE_TARGET_SLOT, []) := hdr_slot g)" by auto
  from checked_step [OF 2(2) h(2), of LEAN_HEAD_SLOT] obtain mx3 where
    3: "set_gauge_checked P LEAN_HEAD_SLOT (hdr_slot h) mx2 = Ok mx3" "metrics_ok registered mx3"
      "reading (mx_registry mx3) = (reading (mx_registry mx2))((LEAN_HEAD_SLOT, []) := hdr_slot h)" by auto
  have "bind_res (update_current_slot P (tick_slot sv' ts) mx) (tick_gauges P sv) = Ok mx3"
    by (simp add: tick_gauges_def hs 1(1) 2(1) 3(1) update_current_slot_def update_safe_target_slot_def update_head_slot_def)
  then show ?thesis by (simp add: hs 3(2) 1(3) 2(3) 3(3) gauges_differ [simplified])
qed

text \<open>The counters of valid and invalid attestations after a gossiped attestation.\<close>

lemma counter_step:
  assumes "metrics_ok registered mx"
    and "m \<in> {LEAN_ATTESTATIONS_VALID_TOTAL, LEAN_ATTESTATIONS_INVALID_TOTAL,
      LEAN_PQ_SIG_ATTESTATION_SIGNATURES_VALID_TOTAL, LEAN_PQ_SIG_ATTESTATION_SIGNATURES_INVALID_TOTAL}"
  shows "\<exists>mx'. inc_counter P m [] 1 mx = Ok mx' \<and> metrics_ok registered mx' \<and>
    reading (mx_registry mx') = (reading (mx_registry mx))((m, []) := reading (mx_registry mx) (m, []) + 1)"
proof -
  from assms(2) have "m \<in> set all_metrics" by (auto simp: member_defs)
  moreover from assms(2) have "mt_kind m = IntCounter" "mt_labels m = []" by (auto simp: shape_defs)
  ultimately show ?thesis using goesD [OF inc_counter_goes [OF assms(1), of m "[]"]] by fastforce
qed

end

lemma counters_differ:
  "distinct [LEAN_ATTESTATIONS_VALID_TOTAL, LEAN_ATTESTATIONS_INVALID_TOTAL, LEAN_GOSSIP_SIGNATURES,
     LEAN_PQ_SIG_ATTESTATION_SIGNATURES_VALID_TOTAL, LEAN_PQ_SIG_ATTESTATION_SIGNATURES_INVALID_TOTAL]"
  "distinct [LEAN_PQ_SIG_ATTESTATION_SIGNATURES_INVALID_TOTAL, LEAN_PQ_SIG_ATTESTATION_SIGNATURES_VALID_TOTAL,
     LEAN_GOSSIP_SIGNATURES, LEAN_ATTESTATIONS_INVALID_TOTAL, LEAN_ATTESTATIONS_VALID_TOTAL]"
  by (simp_all add: shape_defs)

lemma check_gossip_attestation_validates:
  "check_gossip_attestation H C s sa = Ok sig \<Longrightarrow> validate_attestation_data s (sa_data sa) = Ok ()"
  by (auto simp: check_gossip_attestation_def Let_def outcome_simps split: if_splits)

context prometheus_library
begin

lemma gossip_attestation_counted:
  assumes ok: "metrics_ok registered mx" and np: "snd (on_gossip_attestation H C s sa ids) \<noteq> Panic"
  shows "yields (gossip_attestation_metrics P H C s sa ids mx) (\<lambda>mx'. metrics_ok registered mx' \<and>
    reading (mx_registry mx') (LEAN_ATTESTATIONS_VALID_TOTAL, []) =
      reading (mx_registry mx) (LEAN_ATTESTATIONS_VALID_TOTAL, []) +
        of_bool (snd (on_gossip_attestation H C s sa ids) = Ok ()) \<and>
    reading (mx_registry mx') (LEAN_ATTESTATIONS_INVALID_TOTAL, []) =
      reading (mx_registry mx) (LEAN_ATTESTATIONS_INVALID_TOTAL, []) +
        of_bool (validate_attestation_data s (sa_data sa) \<noteq> Ok ()))"
proof (cases "check_gossip_attestation H C s sa")
  case Panic
  with np show ?thesis by (simp add: on_gossip_attestation_def)
next
  case (Err e)
  note diff = counters_differ [simplified]
  show ?thesis
  proof (cases "validate_attestation_data s (sa_data sa)")
    case (Ok u)
    with Err ok counter_step [OF ok, of LEAN_PQ_SIG_ATTESTATION_SIGNATURES_INVALID_TOTAL] diff show ?thesis
      by (auto simp: gossip_attestation_metrics_def on_gossip_attestation_def api_defs)
  next
    case (Err e')
    with \<open>check_gossip_attestation H C s sa = Err e\<close> counter_step [OF ok, of LEAN_ATTESTATIONS_INVALID_TOTAL] diff show ?thesis
      by (auto simp: gossip_attestation_metrics_def on_gossip_attestation_def api_defs)
  next
    case Panic
    with Err show ?thesis by (simp add: check_gossip_attestation_def Let_def)
  qed
next
  case (Ok sig)
  note diff = counters_differ [simplified]
  from counter_step [OF ok, of LEAN_PQ_SIG_ATTESTATION_SIGNATURES_VALID_TOTAL] obtain mx1 where
    1: "inc_counter P LEAN_PQ_SIG_ATTESTATION_SIGNATURES_VALID_TOTAL [] 1 mx = Ok mx1" "metrics_ok registered mx1"
      "reading (mx_registry mx1) = (reading (mx_registry mx))((LEAN_PQ_SIG_ATTESTATION_SIGNATURES_VALID_TOTAL, []) :=
         reading (mx_registry mx) (LEAN_PQ_SIG_ATTESTATION_SIGNATURES_VALID_TOTAL, []) + 1)" by auto
  let ?run = "if in_our_subnet ids (sa_validator_id sa) then update_gossip_signatures P
      (s_gossip_signatures_count (fst (on_gossip_attestation H C s sa ids))) mx1 else Ok mx1"
  have g: "LEAN_GOSSIP_SIGNATURES \<in> set all_metrics" "mt_kind LEAN_GOSSIP_SIGNATURES = IntGauge"
    "mt_labels LEAN_GOSSIP_SIGNATURES = []" by (simp add: member_defs) (simp_all add: shape_defs)
  have "\<exists>mx2. ?run = Ok mx2 \<and> metrics_ok registered mx2 \<and>
      (\<forall>m. m \<noteq> LEAN_GOSSIP_SIGNATURES \<longrightarrow> reading (mx_registry mx2) (m, []) = reading (mx_registry mx1) (m, []))"
  proof (cases "in_our_subnet ids (sa_validator_id sa)")
    case True
    have "length [] = length (mt_labels LEAN_GOSSIP_SIGNATURES)" by (simp add: g(3))
    from goesD [OF set_gauge_goes [OF 1(2) g(1,2) this]] True show ?thesis
      unfolding update_gossip_signatures_def by fastforce
  qed (use 1(2) in simp)
  then obtain mx2 where 2: "?run = Ok mx2" "metrics_ok registered mx2"
    "\<forall>m. m \<noteq> LEAN_GOSSIP_SIGNATURES \<longrightarrow> reading (mx_registry mx2) (m, []) = reading (mx_registry mx1) (m, [])" by blast
  from counter_step [OF 2(2), of LEAN_ATTESTATIONS_VALID_TOTAL] obtain mx3 where
    3: "inc_counter P LEAN_ATTESTATIONS_VALID_TOTAL [] 1 mx2 = Ok mx3" "metrics_ok registered mx3"
      "reading (mx_registry mx3) = (reading (mx_registry mx2))((LEAN_ATTESTATIONS_VALID_TOTAL, []) :=
         reading (mx_registry mx2) (LEAN_ATTESTATIONS_VALID_TOTAL, []) + 1)" by auto
  have "gossip_attestation_metrics P H C s sa ids mx = Ok mx3"
    by (simp add: gossip_attestation_metrics_def Ok check_gossip_attestation_validates [OF Ok]
        inc_pq_sig_attestation_signatures_valid_def inc_attestations_valid_def 1(1) 2(1) 3(1))
  moreover have "snd (on_gossip_attestation H C s sa ids) = Ok ()" by (simp add: on_gossip_attestation_def Ok Let_def)
  ultimately show ?thesis
    using 2(3) check_gossip_attestation_validates [OF Ok] by (simp add: 1(3) 3(2,3) diff)
qed

end

lemma reachable_chain_inv:
  assumes "init_store H empty_tables anchor body = Ok s0" and "wf_state anchor" and "s_head s0 \<noteq> 0"
    and "s_head s0 \<noteq> hdr_parent_root (st_latest_block_header anchor)" and "(chain_step H C)\<^sup>*\<^sup>* s0 s"
  shows "chain_inv (hdr_slot (st_latest_block_header anchor)) s"
  using assms(5) by (induction) (rule init_store_chain [OF assms(1-4)], rule chain_step_inv)

text \<open>The answer to a request for the metrics never reports the failure to gather them.\<close>

lemma metrics_always_served:
  assumes "pr_gather_text P (mx_registry mx) \<noteq> Panic"
  shows "\<exists>body. start_metrics_server P prof mx ''/metrics'' =
    Some (Ok \<lparr>dr_status = 200, dr_content_type = Some ''text/plain; version=0.0.4; charset=utf-8'', dr_body = body\<rparr>) \<and>
    (body \<noteq> [] \<longrightarrow> pr_gather_text P (mx_registry mx) = Ok body \<and> utf8_valid body)"
  using assms by (cases "pr_gather_text P (mx_registry mx)")
    (auto simp: start_metrics_server_def start_prometheus_metrics_api_def get_metrics_def gather_default_metrics_def)

section \<open>Properties\<close>

text \<open>
  C33. The gauges show the chain. On every store that blocks, gossip and ticks can produce from an
  initial one, the metric calls after a block succeed, and then the gauges of the head, justified and
  finalized slot, of the node's validators and of the tables show what the store, the key manager and
  the backend hold; likewise the calls of a tick succeed, for every timestamp, and the gauges of the
  current slot, the safe target and the head are up to date. The conversions to signed integers,
  which panic from \<open>2^63\<close> on, never fail, because slots of stored states are bounded by the history
  limit. A gossiped attestation, unless its handler panics, is counted as valid exactly when it is
  accepted.
\<close>

theorem gauges_show_chain:
  fixes C :: "('pk, 'sig, 'sk) crypto" and sv :: "'sk server"
  assumes "prometheus_library P registered reading samples" and "metrics_ok registered mx"
    and "init_store H empty_tables anchor body = Ok s0" and "wf_state anchor" and "s_head s0 \<noteq> 0"
    and "s_head s0 \<noteq> hdr_parent_root (st_latest_block_header anchor)" and "(chain_step H C)\<^sup>*\<^sup>* s0 (sv_store sv)"
    and "length (validator_ids (sv_key_manager sv)) < 2 ^ 63"
  shows "(\<exists>mx'. block_gauges P estimate sv mx = Ok mx' \<and> metrics_ok registered mx' \<and>
      head_slot (sv_store sv) = (Ok (reading (mx_registry mx') (LEAN_HEAD_SLOT, [])) :: (u64, unit) result) \<and>
      reading (mx_registry mx') (LEAN_LATEST_JUSTIFIED_SLOT, []) = cp_slot (s_latest_justified (sv_store sv)) \<and>
      reading (mx_registry mx') (LEAN_LATEST_FINALIZED_SLOT, []) = cp_slot (s_latest_finalized (sv_store sv)) \<and>
      unat (reading (mx_registry mx') (LEAN_VALIDATORS_COUNT, [])) = length (validator_ids (sv_key_manager sv)) \<and>
      (\<forall>t. reading (mx_registry mx') (LEAN_TABLE_BYTES, [table_name t]) = estimate t)) \<and>
    (\<exists>mx1 mx'. update_current_slot P (tick_slot sv' ts) mx = Ok mx1 \<and> tick_gauges P sv mx1 = Ok mx' \<and>
      metrics_ok registered mx' \<and> reading (mx_registry mx') (LEAN_CURRENT_SLOT, []) = tick_slot sv' ts \<and>
      head_slot (sv_store sv) = (Ok (reading (mx_registry mx') (LEAN_HEAD_SLOT, [])) :: (u64, unit) result) \<and>
      safe_target_slot (sv_store sv) = (Ok (reading (mx_registry mx') (LEAN_SAFE_TARGET_SLOT, [])) :: (u64, unit) result)) \<and>
    (snd (on_gossip_attestation H C (sv_store sv) sa ids) \<noteq> Panic \<longrightarrow>
      (\<exists>mx'. gossip_attestation_metrics P H C (sv_store sv) sa ids mx = Ok mx' \<and>
        reading (mx_registry mx') (LEAN_ATTESTATIONS_VALID_TOTAL, []) =
          reading (mx_registry mx) (LEAN_ATTESTATIONS_VALID_TOTAL, []) +
            of_bool (snd (on_gossip_attestation H C (sv_store sv) sa ids) = Ok ())))"
proof -
  note inv = reachable_chain_inv [OF assms(3-7)]
  show ?thesis
  proof (intro conjI impI, goal_cases block tick gossip)
    case block
    from prometheus_library.block_gauges_yields [OF assms(1,2) inv assms(8), of estimate] show ?case
      unfolding yields_def by blast
  next
    case tick
    from prometheus_library.tick_gauges_yields [OF assms(1,2) inv, of sv' ts] show ?case
      unfolding yields_def outcome_simps by blast
  next
    case gossip
    from prometheus_library.gossip_attestation_counted [OF assms(1,2) gossip] show ?case unfolding yields_def by blast
  qed
qed

theorem gauges_show_chain_witness:
  "\<exists>mx'. block_gauges list_prometheus (\<lambda>_. 7) demo_server
      \<lparr>mx_lazy = [], mx_registry = \<lparr>lr_metrics = [], lr_values = [], lr_samples = []\<rparr>\<rparr> = Ok mx' \<and>
    list_reading (mx_registry mx') (LEAN_HEAD_SLOT, []) = 0 \<and>
    list_reading (mx_registry mx') (LEAN_TABLE_BYTES, [''states'']) = 7"
proof -
  let ?mx = "\<lparr>mx_lazy = [], mx_registry = \<lparr>lr_metrics = [], lr_values = [], lr_samples = []\<rparr>\<rparr>"
  have mx: "metrics_ok (\<lambda>r. set (lr_metrics r)) ?mx" by (simp add: metrics_ok_def)
  have head: "s_head demo_store \<noteq> 0" "s_head demo_store \<noteq> hdr_parent_root (st_latest_block_header demo_genesis)"
    by (simp_all add: demo_store_fields demo_defs)
  have reach: "(chain_step demo_hashing demo_crypto)\<^sup>*\<^sup>* demo_store (sv_store demo_server)"
    and ids: "length (validator_ids (sv_key_manager demo_server)) < 2 ^ 63"
    by (simp_all add: demo_server_def key_manager_new_def validator_ids_def)
  from gauges_show_chain [OF list_metrics.prometheus_library_axioms mx demo_store_init wf_demo_genesis head reach ids,
      of "\<lambda>_. 7"] obtain mx' where
    "block_gauges list_prometheus (\<lambda>_. 7) demo_server ?mx = Ok mx'"
    "head_slot (sv_store demo_server) = (Ok (list_reading (mx_registry mx') (LEAN_HEAD_SLOT, [])) :: (u64, unit) result)"
    "\<forall>t. list_reading (mx_registry mx') (LEAN_TABLE_BYTES, [table_name t]) = 7" by blast
  moreover have "head_slot (sv_store demo_server) = (Ok 0 :: (u64, unit) result)"
    by (simp add: demo_server_def head_slot_def get_block_header_def demo_store_defs demo_defs)
  ultimately show ?thesis by (metis result.inject(1) table_name.simps(4))
qed

end
