(* ===== verification/Verified_Votes.thy ===== *)
theory Verified_Votes
  imports Server_Properties
begin

text \<open>
  Every vote the store keeps is verified. The payloads in both buffers carry proofs that are valid for
  data with the root they are filed under, the attestation data is filed under its root, and every
  state has the same validators and is filed under the root of its header (\<open>votes_verified\<close>). Gossip,
  blocks and ticks only add what is verified (\<open>adds_verified\<close>), the aggregation of gossip signatures
  included: there the proof is made over the public keys in the order of the signature table, and
  verified over those of the participants in ascending order, which for ids of one byte is the same.
\<close>

section \<open>Verified votes\<close>

text \<open>The prover returns only proofs that verify under the keys it was given, in the same order.\<close>

definition aggregates_verify :: "('pk, 'sig, 'sk) crypto \<Rightarrow> bool" where
  "aggregates_verify C \<longleftrightarrow> (\<forall>pks sigs message slot p. c_aggregate C pks sigs message slot = Some p \<longrightarrow>
     c_decode_aggregate C p \<and> c_verify_aggregate C pks message p slot)"

text \<open>
  What verified means for a payload, for attestation data and for a state, relative to the validators
  and to a set of attestation data.
\<close>

definition entry_verified ::
  "hashing \<Rightarrow> ('pk, 'sig, 'sk) crypto \<Rightarrow> validator list \<Rightarrow> attestation_data set \<Rightarrow>
   signature_key \<times> stored_aggregated_payload \<Rightarrow> bool" where
  "entry_verified H C vs D = (\<lambda>((v, r), payload).
     v \<in> set (validator_indices (asp_participants (sap_proof payload))) \<and>
     (\<exists>d \<in> D. h_data H d = r \<and> proof_valid H C vs
        \<lparr>aa_aggregation_bits = asp_participants (sap_proof payload), aa_data = d\<rparr> (sap_proof payload)))"

definition data_sealed :: "hashing \<Rightarrow> attestation_data set \<Rightarrow> H256 \<Rightarrow> attestation_data \<Rightarrow> bool" where
  "data_sealed H D r d \<longleftrightarrow> h_data H d = r \<and> d \<in> D \<and> unat (ad_slot d) < 2 ^ 32"

definition state_sealed :: "hashing \<Rightarrow> validator list \<Rightarrow> H256 \<Rightarrow> state \<Rightarrow> bool" where
  "state_sealed H vs r st \<longleftrightarrow> st_validators st = vs \<and> h_header H (st_latest_block_header st) = r \<and>
     hdr_state_root (st_latest_block_header st) \<noteq> 0"

definition votes_verified ::
  "hashing \<Rightarrow> ('pk, 'sig, 'sk) crypto \<Rightarrow> validator list \<Rightarrow> attestation_data set \<Rightarrow> store \<Rightarrow> bool" where
  "votes_verified H C vs D s \<longleftrightarrow>
     (\<forall>r st. get_state s r = Some st \<longrightarrow> state_sealed H vs r st) \<and>
     (\<forall>r d. get_attestation_data_by_root s r = Some d \<longrightarrow> data_sealed H D r d) \<and>
     (\<forall>e \<in> set (pb_entries (s_new_payloads s)) \<union> set (pb_entries (s_known_payloads s)). entry_verified H C vs D e)"

lemma votes_verifiedD:
  assumes "votes_verified H C vs D s"
  shows "\<And>r st. get_state s r = Some st \<Longrightarrow> state_sealed H vs r st"
    and "\<And>r d. get_attestation_data_by_root s r = Some d \<Longrightarrow> data_sealed H D r d"
    and "\<And>e. e \<in> set (pb_entries (s_new_payloads s)) \<union> set (pb_entries (s_known_payloads s)) \<Longrightarrow> entry_verified H C vs D e"
  using assms unfolding votes_verified_def by blast+

text \<open>What a step may do: drop anything, and add what is verified.\<close>

definition adds_verified ::
  "hashing \<Rightarrow> ('pk, 'sig, 'sk) crypto \<Rightarrow> validator list \<Rightarrow> attestation_data set \<Rightarrow> store \<Rightarrow> store \<Rightarrow> bool" where
  "adds_verified H C vs D s s' \<longleftrightarrow>
     (\<forall>r st. get_state s' r = Some st \<longrightarrow> get_state s r = Some st \<or> state_sealed H vs r st) \<and>
     (\<forall>r d. get_attestation_data_by_root s' r = Some d \<longrightarrow>
        get_attestation_data_by_root s r = Some d \<or> data_sealed H D r d) \<and>
     set (pb_entries (s_new_payloads s')) \<union> set (pb_entries (s_known_payloads s')) \<subseteq>
       set (pb_entries (s_new_payloads s)) \<union> set (pb_entries (s_known_payloads s)) \<union> Collect (entry_verified H C vs D)"

lemma adds_verified_keeps: "adds_verified H C vs D s s' \<Longrightarrow> votes_verified H C vs D s \<Longrightarrow> votes_verified H C vs D s'"
  unfolding adds_verified_def votes_verified_def by blast

lemma adds_verified_refl [simp]: "adds_verified H C vs D s s"
  by (simp add: adds_verified_def)

lemma adds_verified_trans:
  "adds_verified H C vs D s s' \<Longrightarrow> adds_verified H C vs D s' s'' \<Longrightarrow> adds_verified H C vs D s s''"
  unfolding adds_verified_def by blast

lemma adds_verified_frame:
  assumes "t_states s' = t_states s" and "t_attestation_data_by_root s' = t_attestation_data_by_root s"
    and "s_new_payloads s' = s_new_payloads s" and "s_known_payloads s' = s_known_payloads s"
  shows "adds_verified H C vs D s s'"
  using assms by (simp add: adds_verified_def get_state_def get_attestation_data_by_root_def)

section \<open>Operations of the store\<close>

lemma adds_payloads:
  assumes "\<forall>e \<in> set es. entry_verified H C vs D e"
  shows "adds_verified H C vs D s (insert_new_aggregated_payloads_batch es s)"
    and "adds_verified H C vs D s (insert_known_aggregated_payloads_batch es s)"
proof -
  have "set (pb_entries (buffer_push_batch es b)) \<subseteq> set (pb_entries b) \<union> Collect (entry_verified H C vs D)" for b
    using assms set_buffer_push_batch [of es b] by auto
  then show "adds_verified H C vs D s (insert_new_aggregated_payloads_batch es s)"
    "adds_verified H C vs D s (insert_known_aggregated_payloads_batch es s)"
    by (fastforce simp: adds_verified_def insert_new_aggregated_payloads_batch_def
        insert_known_aggregated_payloads_batch_def get_state_def get_attestation_data_by_root_def)+
qed

lemma adds_promote: "adds_verified H C vs D s (promote_new_aggregated_payloads s)"
  using set_buffer_push_batch [of "pb_entries (s_new_payloads s)" "s_known_payloads s"]
  by (auto simp: adds_verified_def promote_new_aggregated_payloads_def buffer_drain_def get_state_def
      get_attestation_data_by_root_def)

lemma adds_data:
  assumes "\<forall>(r, d) \<in> set es. data_sealed H D r d"
  shows "adds_verified H C vs D s (insert_attestation_data_by_root_batch es s)"
proof -
  have "get_attestation_data_by_root (insert_attestation_data_by_root_batch es s) r = Some d \<Longrightarrow>
      get_attestation_data_by_root s r = Some d \<or> data_sealed H D r d" for r d
    using assms by (auto simp: get_attestation_data_by_root_def insert_attestation_data_by_root_batch_def
        root_table.map_of_put_batch dest!: map_of_SomeD split: if_splits)
  then show ?thesis
    by (auto simp: adds_verified_def insert_attestation_data_by_root_batch_def get_state_def)
qed

lemma adds_datum:
  assumes "data_sealed H D r d"
  shows "adds_verified H C vs D s (insert_attestation_data_by_root r d s)"
  using assms by (auto simp: adds_verified_def insert_attestation_data_by_root_def get_state_def
      get_attestation_data_by_root_def split: if_splits)

lemma adds_prune:
  "adds_verified H C vs D s (snd (prune_live_chain f s))"
  "adds_verified H C vs D s (snd (prune_gossip_signatures f s))"
  "adds_verified H C vs D s (snd (prune_attestation_data_by_root f s))"
proof -
  show "adds_verified H C vs D s (snd (prune_live_chain f s))"
    "adds_verified H C vs D s (snd (prune_gossip_signatures f s))"
    by (rule adds_verified_frame; simp add: prune_live_chain_def prune_gossip_signatures_def case_prod_unfold Let_def)+
  show "adds_verified H C vs D s (snd (prune_attestation_data_by_root f s))"
    by (simp add: adds_verified_def prune_attestation_data_by_root_def prune_by_slot_def Let_def get_state_def
        get_attestation_data_by_root_def)
qed

lemma adds_update_checkpoints: "adds_verified H C vs D s (update_checkpoints fc s)"
proof -
  let ?s1 = "s\<lparr>s_head := fc_head fc,
    s_latest_justified := (case fc_justified fc of Some cp \<Rightarrow> cp | None \<Rightarrow> s_latest_justified s),
    s_latest_finalized := (case fc_finalized fc of Some cp \<Rightarrow> cp | None \<Rightarrow> s_latest_finalized s)\<rparr>"
  have s1: "adds_verified H C vs D s ?s1" by (rule adds_verified_frame) simp_all
  have "adds_verified H C vs D s (snd (prune_attestation_data_by_root f (snd (prune_gossip_signatures f
      (snd (prune_live_chain f ?s1))))))" for f
    by (rule adds_verified_trans [OF s1 adds_verified_trans [OF adds_prune(1) adds_verified_trans [OF adds_prune(2,3)]]])
  with s1 show ?thesis
    unfolding update_checkpoints_def Let_def by (cases "fc_finalized fc") auto
qed

lemma adds_advance: "adds_verified H C vs D s (advance_checkpoints st s)"
  by (simp add: advance_checkpoints_def Let_def adds_update_checkpoints)

lemma adds_signed_block: "adds_verified H C vs D s (insert_signed_block H' r sb s)"
  by (rule adds_verified_frame) (simp_all add: insert_signed_block_def write_signed_block_def Let_def)

lemma adds_state: "state_sealed H vs r st \<Longrightarrow> adds_verified H C vs D s (insert_state r st s)"
  by (auto simp: adds_verified_def insert_state_def get_state_def get_attestation_data_by_root_def split: if_splits)

lemma adds_update_head: "update_head s = Some s' \<Longrightarrow> adds_verified H C vs D s s'"
  by (auto simp: update_head_def bind_eq_Some_conv intro: adds_verified_frame)

lemma adds_accept: "accept_new_attestations s = Some s' \<Longrightarrow> adds_verified H C vs D s s'"
  unfolding accept_new_attestations_def by (rule adds_verified_trans [OF adds_promote adds_update_head])

lemma adds_insert_gossip: "adds_verified H C vs D s (insert_gossip_signature C' r slot v sig s)"
  by (rule adds_verified_frame) (simp_all add: insert_gossip_signature_def Let_def)

lemma adds_delete_gossip: "adds_verified H C vs D s (delete_gossip_signatures ks s)"
  by (rule adds_verified_frame) (simp_all add: delete_gossip_signatures_def)

section \<open>Aggregation\<close>

text \<open>The signatures of a group are those of its root, in the order of the table.\<close>

definition signatures_for ::
  "('pk, 'sig, 'sk) crypto \<Rightarrow> H256 \<Rightarrow> (signature_key \<times> stored_signature) list \<Rightarrow> (u64 \<times> 'sig) list" where
  "signatures_for C dr = List.map_filter (\<lambda>((v, r), stored).
     if r = dr then map_option (Pair v) (to_validator_signature C stored) else None)"

lemma fold_group_signature:
  "(case map_of (fold (group_signature C) sigs groups) dr of None \<Rightarrow> [] | Some g \<Rightarrow> g) =
     (case map_of groups dr of None \<Rightarrow> [] | Some g \<Rightarrow> g) @ signatures_for C dr sigs"
proof (induction sigs arbitrary: groups)
  case Nil
  then show ?case by (simp add: signatures_for_def map_filter_simps)
next
  case (Cons e sigs)
  obtain v r stored where e: "e = ((v, r), stored)" by (metis prod.exhaust)
  show ?case unfolding fold_Cons comp_apply Cons.IH
    by (auto simp: e group_signature_def signatures_for_def map_filter_simps split: option.split)
qed

lemma usable_sorted:
  assumes "tbl_sorted encode_signature_key sigs" and "length vs \<le> 256"
  shows "sorted_wrt (<) (map fst (List.map_filter (usable_signature C vs) (signatures_for C dr sigs)))"
proof -
  have "sorted_wrt (\<lambda>a b. encode_signature_key (fst a, dr) < encode_signature_key (fst b, dr)) (signatures_for C dr sigs)"
    unfolding signatures_for_def
    by (rule sorted_wrt_map_filter [OF assms(1) [unfolded tbl_sorted_def]]) (auto split: if_splits)
  then have "sorted_wrt (\<lambda>a b. fst a < fst b) (List.map_filter (usable_signature C vs) (signatures_for C dr sigs))"
    by (rule sorted_wrt_map_filter)
      (use assms(2) small_key_order in \<open>fastforce simp: usable_signature_def split: if_splits option.splits prod.splits\<close>)
  then show ?thesis by (simp add: sorted_wrt_map)
qed

lemma sorted_ids_bits:
  assumes "sorted_wrt (<) ids" and "aggregation_bits_from_validator_indices ids = Ok bits"
  shows "validator_indices bits = ids"
proof -
  from aggregation_bits_roundtrip [of ids] assms(2) have
    b: "set (validator_indices bits) = set ids" "sorted (map unat (validator_indices bits))" "distinct (validator_indices bits)"
    by (auto split: if_splits)
  have "sorted (validator_indices bits)"
    using b(2) by (simp add: sorted_map sorted_wrt_mono_rel [rotated] word_le_nat_alt)
  moreover have "sorted ids" "distinct ids" using assms(1) by (simp_all add: strict_sorted_iff)
  ultimately show ?thesis using b(1,3) sorted_distinct_set_unique by blast
qed

text \<open>
  With ids beyond one byte the two orders differ: the signatures of validators 1 and 256 are
  aggregated with the key of 256 first, and the proof is verified with the key of 1 first.
\<close>

lemma wide_ids_aggregated_reversed:
  assumes "to_validator_signature C x = Some sx" and "to_validator_signature C y = Some sy"
    and "aggregation_bits_from_validator_indices [256, 1] = Ok bits"
  shows "map fst (signatures_for C r (tbl_put encode_signature_key (256, r) y
           (tbl_put encode_signature_key (1, r) x []))) = [256, 1] \<and> validator_indices bits = [1, 256]"
proof -
  have lt: "encode_signature_key (256, r) < encode_signature_key (1, r)" by (rule wide_ids_reordered)
  from aggregation_bits_roundtrip [of "[256, 1]"] assms(3) have
    b: "set (validator_indices bits) = {256, 1}" "sorted (map unat (validator_indices bits))" "distinct (validator_indices bits)"
    by (auto split: if_splits)
  have "sorted (validator_indices bits)"
    using b(2) by (simp add: sorted_map sorted_wrt_mono_rel [rotated] word_le_nat_alt)
  moreover have "sorted [1, 256 :: u64]" "distinct [1, 256 :: u64]" by simp_all
  ultimately have "validator_indices bits = [1, 256]"
    using b(1,3) by (intro sorted_distinct_set_unique) auto
  with assms(1,2) lt less_not_sym [OF lt] show ?thesis
    by (simp add: tbl_put_def signatures_for_def map_filter_simps)
qed

text \<open>What a group contributes is verified.\<close>

definition aggregate_verified ::
  "hashing \<Rightarrow> ('pk, 'sig, 'sk) crypto \<Rightarrow> validator list \<Rightarrow> attestation_data set \<Rightarrow> signed_aggregated_attestation \<Rightarrow> bool" where
  "aggregate_verified H C vs D agg \<longleftrightarrow> saa_data agg \<in> D \<and> proof_valid H C vs
     \<lparr>aa_aggregation_bits = asp_participants (saa_proof agg), aa_data = saa_data agg\<rparr> (saa_proof agg)"

definition acc_verified ::
  "hashing \<Rightarrow> ('pk, 'sig, 'sk) crypto \<Rightarrow> validator list \<Rightarrow> attestation_data set \<Rightarrow> aggregation_acc \<Rightarrow> bool" where
  "acc_verified H C vs D acc \<longleftrightarrow> (\<forall>e \<in> set (ga_payloads acc). entry_verified H C vs D e) \<and>
     (\<forall>agg \<in> set (ga_aggregates acc). aggregate_verified H C vs D agg)"

lemma usable_pubkeys:
  "list_all2 (\<lambda>vid pk. c_pubkey C (val_pubkey (vs ! unat vid)) = Some pk)
     (map fst (List.map_filter (usable_signature C vs) xs)) (map (fst \<circ> snd) (List.map_filter (usable_signature C vs) xs))"
  by (auto simp: list_all2_map1 list_all2_map2 list_all2_same set_map_filter_Some usable_signature_def get_pubkey_def
      split: if_splits option.splits)

lemma aggregate_group_verified:
  fixes C :: "('pk, 'sig, 'sk) crypto"
  assumes law: "aggregates_verify C" and n: "length vs \<le> 256" and so: "tbl_sorted encode_signature_key sigs"
    and data: "\<And>d. get_attestation_data_by_root s dr = Some d \<Longrightarrow> data_sealed H D dr d"
    and run: "aggregate_group C s vs (dr, signatures_for C dr sigs) acc = Ok acc'" and acc: "acc_verified H C vs D acc"
  shows "acc_verified H C vs D acc'"
proof -
  define us where "us = List.map_filter (usable_signature C vs) (signatures_for C dr sigs)"
  have sorted: "sorted_wrt (<) (map fst us)" unfolding us_def by (rule usable_sorted [OF so n])
  have ids: "\<forall>v \<in> set (map fst us). unat v < length vs"
    by (auto simp: us_def set_map_filter_Some usable_signature_def split: if_splits option.splits)
  show ?thesis
  proof (cases "acc' = acc")
    case False
    with run obtain d p bits where d: "get_attestation_data_by_root s dr = Some d"
      and agg: "aggregate_signatures C (map (fst \<circ> snd) us) (map (snd \<circ> snd) us) dr (ucast (ad_slot d)) = Ok p"
      and bits: "aggregation_bits_from_validator_indices (map fst us) = Ok bits"
      and acc': "acc' = \<lparr>ga_aggregates = ga_aggregates acc @ [\<lparr>saa_data = d, saa_proof = \<lparr>asp_participants = bits, asp_proof_data = p\<rparr>\<rparr>],
        ga_payloads = ga_payloads acc @ map (\<lambda>vid. ((vid, dr), \<lparr>sap_slot = ad_slot d,
          sap_proof = \<lparr>asp_participants = bits, asp_proof_data = p\<rparr>\<rparr>)) (map fst us),
        ga_deletes = ga_deletes acc @ map (\<lambda>vid. (vid, dr)) (map fst us)\<rparr>"
      unfolding aggregate_group_def us_def Let_def
      by (auto simp: outcome_simps split: option.splits if_splits result.splits)
    note sd = data [OF d, unfolded data_sealed_def]
    have vi: "validator_indices bits = map fst us" by (rule sorted_ids_bits [OF sorted bits])
    from agg have "c_aggregate C (map (fst \<circ> snd) us) (map (snd \<circ> snd) us) dr (ucast (ad_slot d)) = Some p"
      by (auto simp: aggregate_signatures_def outcome_simps split: if_splits)
    with law have v: "c_decode_aggregate C p" "c_verify_aggregate C (map (fst \<circ> snd) us) dr p (ucast (ad_slot d))"
      unfolding aggregates_verify_def by blast+
    have lt: "\<forall>v \<in> set (map fst us). v < word_of_nat (length vs)"
      using ids n by (simp add: word_less_nat_alt unat_of_nat)
    have pv: "proof_valid H C vs \<lparr>aa_aggregation_bits = bits, aa_data = d\<rparr> \<lparr>asp_participants = bits, asp_proof_data = p\<rparr>"
      using sd v lt usable_pubkeys [of C vs "signatures_for C dr sigs", folded us_def]
      unfolding proof_valid_def by (auto simp: vi)
    have "entry_verified H C vs D ((v, dr), \<lparr>sap_slot = ad_slot d, sap_proof = \<lparr>asp_participants = bits, asp_proof_data = p\<rparr>\<rparr>)"
      if "v \<in> set (map fst us)" for v using sd vi pv that by (auto simp: entry_verified_def)
    then show ?thesis using acc sd pv unfolding acc' acc_verified_def aggregate_verified_def by auto
  qed (use acc in simp)
qed

lemma aggregate_groups_verified:
  fixes C :: "('pk, 'sig, 'sk) crypto"
  assumes law: "aggregates_verify C" and n: "length vs \<le> 256" and so: "tbl_sorted encode_signature_key sigs"
    and data: "\<And>r d. get_attestation_data_by_root s r = Some d \<Longrightarrow> data_sealed H D r d"
    and groups: "\<forall>(dr, g) \<in> set groups. g = signatures_for C dr sigs"
    and run: "fold_res (aggregate_group C s vs) groups acc = Ok acc'" and acc: "acc_verified H C vs D acc"
  shows "acc_verified H C vs D acc'"
  using groups run acc
proof (induction groups arbitrary: acc)
  case (Cons g groups)
  obtain dr where g: "g = (dr, signatures_for C dr sigs)" using Cons.prems(1) by (cases g) auto
  from Cons.prems(2) obtain acc1 where r: "aggregate_group C s vs g acc = Ok acc1"
    "fold_res (aggregate_group C s vs) groups acc1 = Ok acc'" by (auto simp: bind_res_Ok_iff)
  from aggregate_group_verified [OF law n so data r(1) [unfolded g] Cons.prems(3)]
  show ?case using Cons.IH Cons.prems(1) r(2) by auto
qed simp

lemma adds_aggregates:
  fixes C :: "('pk, 'sig, 'sk) crypto"
  assumes law: "aggregates_verify C" and n: "length vs \<le> 256" and ok: "store_ok s" and v: "votes_verified H C vs D s"
    and run: "aggregate_committee_signatures C s = Ok (s', aggs)"
  shows "adds_verified H C vs D s s' \<and> (\<forall>agg \<in> set aggs. aggregate_verified H C vs D agg)"
proof (cases "iter_gossip_signatures s = []")
  case True
  with run show ?thesis by (auto simp: aggregate_committee_signatures_def)
next
  case False
  let ?t = "t_gossip_signatures s" and ?acc0 = "\<lparr>ga_aggregates = [], ga_payloads = [], ga_deletes = []\<rparr>"
  from False run obtain st acc where st: "get_state s (s_head s) = Some st"
    and acc: "fold_res (aggregate_group C s (st_validators st)) (fold (group_signature C) ?t []) ?acc0 = Ok acc"
    and s': "s' = delete_gossip_signatures (ga_deletes acc) (insert_new_aggregated_payloads_batch (ga_payloads acc) s)"
      "aggs = ga_aggregates acc"
    by (auto simp: aggregate_committee_signatures_def Let_def head_state_def iter_gossip_signatures_def outcome_simps)
  have so: "tbl_sorted encode_signature_key ?t" using ok by (simp add: store_ok_def tables_ok_def)
  have "groups_ok ({} \<union> fst ` set ?t) (fold (group_signature C) ?t [])"
    by (rule fold_group_signature_ok) (simp_all add: groups_ok_def tbl_sorted_distinct [OF so])
  then have d: "distinct (map fst (fold (group_signature C) ?t []))" by (simp add: groups_ok_def)
  have "g = signatures_for C dr ?t" if "(dr, g) \<in> set (fold (group_signature C) ?t [])" for dr g
    using fold_group_signature [of C ?t "[]" dr] map_of_is_SomeI [OF d that] by simp
  then have g: "\<forall>(dr, g) \<in> set (fold (group_signature C) ?t []). g = signatures_for C dr ?t" by blast
  have vs: "st_validators st = vs" using votes_verifiedD(1) [OF v st] by (simp add: state_sealed_def)
  have "acc_verified H C vs D acc"
    by (rule aggregate_groups_verified [OF law n so votes_verifiedD(2) [OF v] g acc [unfolded vs]])
      (simp_all add: acc_verified_def)
  then have "\<forall>e \<in> set (ga_payloads acc). entry_verified H C vs D e" "\<forall>agg \<in> set aggs. aggregate_verified H C vs D agg"
    by (simp_all add: acc_verified_def s'(2))
  with adds_verified_trans [OF adds_payloads(1) adds_delete_gossip] s'(1) show ?thesis by blast
qed

section \<open>Ticks\<close>

lemma tick_interval_votes:
  fixes C :: "('pk, 'sig, 'sk) crypto"
  assumes law: "aggregates_verify C" and n: "length vs \<le> 256" and ok: "store_ok s" and v: "votes_verified H C vs D s"
    and run: "tick_interval C hp ia interval s = Some (Ok (s', aggs))"
  shows "votes_verified H C vs D s' \<and> (\<forall>agg \<in> set aggs. aggregate_verified H C vs D agg)"
proof -
  note k = adds_verified_keeps [OF _ v]
  from run consider "s' = s" "aggs = []" | "accept_new_attestations s = Some s'" "aggs = []"
    | "aggregate_committee_signatures C s = Ok (s', aggs)" | "update_safe_target s = Some (Ok s')" "aggs = []"
    by (auto simp: tick_interval_def outcome_simps split: if_splits)
  then show ?thesis
  proof cases
    case 3
    from adds_aggregates [OF law n ok v this] k show ?thesis by blast
  next
    case 4
    then have "adds_verified H C vs D s s'"
      by (auto simp: update_safe_target_def Let_def bind_eq_Some_conv set_safe_target_def
          intro: adds_verified_frame split: option.splits)
    with k 4(2) show ?thesis by simp
  qed (use v k [OF adds_accept] in auto)
qed

lemma tick_loop_votes:
  fixes C :: "('pk, 'sig, 'sk) crypto"
  assumes law: "aggregates_verify C" and n: "length vs \<le> 256"
    and "chain_inv a s" and "votes_verified H C vs D s" and "\<forall>agg \<in> set acc. aggregate_verified H C vs D agg"
    and "tick_loop C hp ia time s acc = Some (Ok (s', aggs))"
  shows "votes_verified H C vs D s' \<and> (\<forall>agg \<in> set aggs. aggregate_verified H C vs D agg)"
  using assms(3-)
proof (induction "unat time - unat (s_time s)" arbitrary: s acc rule: less_induct)
  case less
  show ?case
  proof (cases "s_time s < time")
    case False
    with less.prems show ?thesis by (subst (asm) tick_loop.simps) simp
  next
    case True
    let ?t = "s_time s + 1"
    have un: "unat ?t = unat (s_time s) + 1" using True by (intro unat_succ)
    have "unat (?t mod INTERVALS_PER_SLOT) < 5" by (simp add: INTERVALS_PER_SLOT_def unat_mod)
    from tick_interval_run [OF neutral_set_time.keeps_inv [OF less.prems(1)] this, of C "hp \<and> ?t = time" ia ?t]
    obtain s1 aggs1 where s1: "tick_interval C (hp \<and> ?t = time) ia (?t mod INTERVALS_PER_SLOT) (set_time ?t s) =
        Some (Ok (s1, aggs1))" "chain_inv a s1" "s_time s1 = ?t" by (auto simp: set_time_def)
    have v: "votes_verified H C vs D (set_time ?t s)"
      by (rule adds_verified_keeps [OF adds_verified_frame less.prems(2)]) (simp_all add: set_time_def)
    have ok: "store_ok (set_time ?t s)"
      by (rule neutral_set_time.ok_kept [OF chain_okD(1) [OF chain_invD(1) [OF less.prems(1)]]])
    note v1 = tick_interval_votes [OF law n ok v s1(1)]
    have "unat time - unat (s_time s1) < unat time - unat (s_time s)"
      using True un s1(3) by (simp add: word_less_nat_alt)
    moreover have "tick_loop C hp ia time s1 (acc @ aggs1) = Some (Ok (s', aggs))"
      using less.prems(4) True s1(1) by (subst (asm) tick_loop.simps) simp
    moreover have "\<forall>agg \<in> set (acc @ aggs1). aggregate_verified H C vs D agg" using less.prems(3) v1 by auto
    ultimately show ?thesis using less.hyps s1(2) v1 by blast
  qed
qed

lemma on_tick_votes:
  fixes C :: "('pk, 'sig, 'sk) crypto"
  assumes law: "aggregates_verify C" and n: "length vs \<le> 256" and inv: "chain_inv a s" and v: "votes_verified H C vs D s"
    and run: "on_tick C s ts hp ia = Some (Ok (s', aggs))"
  shows "votes_verified H C vs D s' \<and> (\<forall>agg \<in> set aggs. aggregate_verified H C vs D agg)"
proof -
  let ?s = "if saturating_sub (tick_time s ts) (s_time s) > INTERVALS_PER_SLOT
    then set_time (tick_time s ts - INTERVALS_PER_SLOT) s else s"
  have "adds_verified H C vs D s ?s" by (rule adds_verified_frame) (simp_all add: set_time_def)
  from adds_verified_keeps [OF this v] have v': "votes_verified H C vs D ?s" .
  have "chain_inv a ?s" using inv neutral_set_time.keeps_inv by simp
  from tick_loop_votes [OF law n this v', of "[]"] run show ?thesis by (simp add: on_tick_def Let_def)
qed

section \<open>Gossip and blocks\<close>

lemma on_gossip_attestation_votes:
  assumes v: "votes_verified H C vs D s" and run: "on_gossip_attestation H C s sa ids = (s', r)" and D: "sa_data sa \<in> D"
  shows "votes_verified H C vs D s'"
proof (cases "check_gossip_attestation H C s sa")
  case (Ok sig)
  then have "data_sealed H D (h_data H (sa_data sa)) (sa_data sa)"
    using D by (simp add: check_gossip_attestation_Ok_iff data_sealed_def)
  note d = adds_datum [OF this, of C vs s]
  from run Ok have "s' = insert_attestation_data_by_root (h_data H (sa_data sa)) (sa_data sa) s \<or>
    s' = insert_gossip_signature C (h_data H (sa_data sa)) (ad_slot (sa_data sa)) (sa_validator_id sa) sig
      (insert_attestation_data_by_root (h_data H (sa_data sa)) (sa_data sa) s)"
    by (auto simp: on_gossip_attestation_def Let_def split: if_splits)
  with d adds_verified_trans [OF d adds_insert_gossip] have "adds_verified H C vs D s s'" by auto
  then show ?thesis by (rule adds_verified_keeps [OF _ v])
qed (use run v in \<open>simp_all add: on_gossip_attestation_def\<close>)

lemma on_gossip_aggregate_votes:
  assumes v: "votes_verified H C vs D s" and run: "on_gossip_aggregated_attestation H C s agg = (s', r)"
    and D: "saa_data agg \<in> D"
  shows "votes_verified H C vs D s'"
proof (cases "check_gossip_aggregate H C s agg")
  case (Ok x)
  let ?d = "saa_data agg" and ?p = "saa_proof agg"
  from Ok obtain st where st: "get_state s (cp_root (ad_target ?d)) = Some st"
    and pv: "proof_valid H C (st_validators st) \<lparr>aa_aggregation_bits = asp_participants ?p, aa_data = ?d\<rparr> ?p"
    by (auto simp: check_gossip_aggregate_Ok_iff)
  have vs: "st_validators st = vs" using votes_verifiedD(1) [OF v st] by (simp add: state_sealed_def)
  have "data_sealed H D (h_data H ?d) ?d" using D pv by (simp add: data_sealed_def proof_valid_def)
  note d = adds_datum [OF this, of C vs s]
  let ?es = "map (\<lambda>vid. ((vid, h_data H ?d), \<lparr>sap_slot = ad_slot ?d, sap_proof = ?p\<rparr>)) (participant_indices ?p)"
  have "\<forall>e \<in> set ?es. entry_verified H C vs D e"
    using D pv by (auto simp: entry_verified_def participant_indices_def vs)
  from adds_verified_trans [OF d adds_payloads(1) [OF this]] run Ok have "adds_verified H C vs D s s'"
    by (auto simp: on_gossip_aggregated_attestation_def Let_def)
  then show ?thesis by (rule adds_verified_keeps [OF _ v])
qed (use run v in \<open>simp_all add: on_gossip_aggregated_attestation_def\<close>)

text \<open>The attestation data a block brings: that of its body and that of its proposer.\<close>

definition block_data :: "signed_block_with_attestation \<Rightarrow> attestation_data set" where
  "block_data sb = insert (att_data (bwa_proposer_attestation (sb_message sb)))
     (aa_data ` set (body_attestations (blk_body (bwa_block (sb_message sb)))))"

lemma record_block_votes:
  fixes sb :: signed_block_with_attestation
  defines "b \<equiv> bwa_block (sb_message sb)"
  assumes H: "ssz_roots H" "\<forall>st. h_state H st \<noteq> 0" and D: "block_data sb \<subseteq> D"
    and pst: "st_validators pst = vs" "wf_state pst" and run: "state_transition H pst b = Ok st"
    and ver: "verify_signatures H C pst sb = Ok ()"
  shows "adds_verified H C vs D s (record_block H sb st s)"
proof -
  let ?atts = "body_attestations (blk_body b)" and ?ps = "bs_attestation_signatures (sb_signature sb)"
  let ?pa = "att_data (bwa_proposer_attestation (sb_message sb))"
  from ver have pv: "list_all2 (proof_valid H C vs) ?atts ?ps" and ps: "unat (ad_slot ?pa) < 2 ^ 32"
    by (simp_all add: verify_signatures_Ok_iff Let_def b_def pst(1))
  have z: "aa_data att \<in> D \<and> proof_valid H C vs att p" if "(att, p) \<in> set (zip ?atts ?ps)" for att p
    using that D pv by (auto simp: block_data_def list_all2_iff b_def dest: set_zip_leftD)
  note k = state_transition_keeps [OF pst(2) run]
  let ?post = "st\<lparr>st_latest_block_header := (st_latest_block_header st)\<lparr>hdr_state_root := blk_state_root b\<rparr>\<rparr>"
  have "state_sealed H vs (h_block H b) ?post"
    using k(1) H k(6) [symmetric] unfolding state_sealed_def
    by (simp add: k(5) pst(1) ssz_roots_def block_header_of_def)
  from adds_verified_trans [OF adds_verified_trans [OF adds_advance adds_signed_block] adds_state [OF this]]
  have states: "adds_verified H C vs D s (insert_state (h_block H b) ?post
      (insert_signed_block H (h_block H b) sb (advance_checkpoints ?post s)))" .
  have "\<forall>(r, d) \<in> set (body_data_entries H (zip ?atts ?ps) @ [(h_data H ?pa, ?pa)]). data_sealed H D r d"
    using z ps D by (auto simp: body_data_entries_def data_sealed_def proof_valid_def block_data_def)
  note data = adds_data [OF this]
  have "entry_verified H C vs D e" if e: "e \<in> set (body_payload_entries H (zip ?atts ?ps))" for e
  proof -
    from e obtain att p v where ap: "(att, p) \<in> set (zip ?atts ?ps)" "v \<in> set (validator_indices (aa_aggregation_bits att))"
      "e = ((v, h_data H (aa_data att)), \<lparr>sap_slot = ad_slot (aa_data att), sap_proof = p\<rparr>)"
      by (auto simp: body_payload_entries_def)
    have "asp_participants p = aa_aggregation_bits att" using z [OF ap(1)] by (simp add: proof_valid_def)
    with z [OF ap(1)] ap(2) show ?thesis 
      by (auto simp: ap(3) entry_verified_def proof_valid_def intro!: bexI [of _ "aa_data att"])
  qed
  then have "\<forall>e \<in> set (body_payload_entries H (zip ?atts ?ps)). entry_verified H C vs D e" by blast
  from adds_verified_trans [OF adds_verified_trans [OF states data] adds_payloads(2) [OF this]]
  show ?thesis by (simp add: record_block_def Let_def b_def)
qed

lemma on_block_votes:
  assumes H: "ssz_roots H" "\<forall>st. h_state H st \<noteq> 0" and inv: "chain_inv a s" and v: "votes_verified H C vs D s"
    and D: "block_data sb \<subseteq> D" and run: "on_block H C s sb ids = Some (s', r)"
  shows "votes_verified H C vs D s'"
proof (cases "s' = s")
  case False
  let ?b = "bwa_block (sb_message sb)"
  from run False obtain pst st s1 where pst: "get_state s (blk_parent_root ?b) = Some pst"
    and ver: "verify_signatures H C pst sb = Ok ()" and st: "state_transition H pst ?b = Ok st"
    and s1: "update_head (record_block H sb st s) = Some s1"
    and s': "record_proposer_attestation H C sb True ids s1 = (s', r)"
    by (auto simp: on_block_def on_block_core_def Let_def split: option.splits result.splits if_splits)
  have wf: "wf_state pst" by (rule state_trackedD(1) [OF chain_okD(3) [OF chain_invD(1) [OF inv] pst]])
  have vs: "st_validators pst = vs" using votes_verifiedD(1) [OF v pst] by (simp add: state_sealed_def)
  have "adds_verified H C vs D s1 s'"
    using s' adds_insert_gossip by (auto simp: record_proposer_attestation_def Let_def split: if_splits option.splits)
  with adds_verified_trans [OF record_block_votes [OF H D vs wf st ver] adds_update_head [OF s1]]
  have "adds_verified H C vs D s s'" by (rule adds_verified_trans)
  then show ?thesis by (rule adds_verified_keeps [OF _ v])
qed (use v in simp)

end
