(* ===== verification/Proposals.thy ===== *)
theory Proposals
  imports Verified_Votes
begin

text \<open>
  What a node proposes and aggregates is accepted. On every store that blocks, gossip and ticks lead
  to, a proposer whose turn it is builds a block, imports it and publishes it, and every node with the
  parent's state accepts it; and every aggregate the node publishes verifies at every other node. The
  block is built from votes that are verified (theory \<open>Verified_Votes\<close>), attestations never make the
  state transition fail, and the proposer's signature is made with its own key.
\<close>

section \<open>Building on the head\<close>

text \<open>The votes and proofs a block is built from.\<close>

definition available_votes :: "store \<Rightarrow> attestation list" where
  "available_votes s = map (\<lambda>(v, data). \<lparr>att_validator_id = v, att_data = data\<rparr>)
     (extract_latest_attestations s (map fst (iter_known_aggregated_payloads s)))"

definition available_proofs :: "store \<Rightarrow> payload_map" where
  "available_proofs s = collect_map (map (\<lambda>(key, sps). (key, map sap_proof sps)) (iter_known_aggregated_payloads s))"

lemma available_proofs_verified:
  assumes v: "votes_verified H C vs D s" and ps: "map_of (available_proofs s) (v, r) = Some ps" "p \<in> set ps"
  shows "\<exists>d \<in> D. h_data H d = r \<and> proof_valid H C vs \<lparr>aa_aggregation_bits = asp_participants p, aa_data = d\<rparr> p"
proof -
  from ps obtain sps sp where "((v, r), sps) \<in> set (buffer_grouped (s_known_payloads s))" "sp \<in> set sps" "sap_proof sp = p"
    by (auto simp: available_proofs_def map_of_collect_map iter_known_aggregated_payloads_def dest!: map_of_SomeD)
  from grouped_entries [OF this(1,2)] this(3) votes_verifiedD(3) [OF v, of "((v, r), sp)"] show ?thesis
    by (auto simp: entry_verified_def)
qed

lemma available_votes_facts:
  assumes v: "votes_verified H C vs D s" and n: "length vs \<le> VALIDATOR_REGISTRY_LIMIT"
  shows "length (available_votes s) \<le> VALIDATOR_REGISTRY_LIMIT"
    and "\<forall>a \<in> set (available_votes s). unat (att_validator_id a) < VALIDATOR_REGISTRY_LIMIT \<and> att_data a \<in> D"
proof -
  let ?x = "extract_latest_attestations s (map fst (iter_known_aggregated_payloads s))"
  have inv: "distinct (map fst ?x)" "\<And>v d. map_of ?x v = Some d \<Longrightarrow>
      \<exists>r. (v, r) \<in> set (map fst (iter_known_aggregated_payloads s)) \<and> get_attestation_data_by_root s r = Some d"
    using extract_latest_inv [of "get_attestation_data_by_root s" "map fst (iter_known_aggregated_payloads s)"]
    unfolding extract_latest_attestations_def latest_inv_def case_prod_unfold by blast+
  have n64: "unat (word_of_nat (length vs) :: u64) = length vs"
    using n by (simp add: unat_of_nat VALIDATOR_REGISTRY_LIMIT_def)
  have x: "unat u < length vs \<and> d \<in> D" if "(u, d) \<in> set ?x" for u d
  proof -
    from inv(2) [OF map_of_is_SomeI [OF inv(1) that]] obtain r ps where
      r: "((u, r), ps) \<in> set (buffer_grouped (s_known_payloads s))" "get_attestation_data_by_root s r = Some d"
      by (auto simp: iter_known_aggregated_payloads_def)
    from grouped_key [OF r(1)] obtain p where "((u, r), p) \<in> set (pb_entries (s_known_payloads s))" by auto
    with votes_verifiedD(3) [OF v, of "((u, r), p)"] have "u < word_of_nat (length vs)"
      by (auto simp: entry_verified_def proof_valid_def)
    with n64 votes_verifiedD(2) [OF v r(2)] show ?thesis by (simp add: word_less_nat_alt data_sealed_def)
  qed
  then show "\<forall>a \<in> set (available_votes s). unat (att_validator_id a) < VALIDATOR_REGISTRY_LIMIT \<and> att_data a \<in> D"
    using n by (fastforce simp: available_votes_def)
  have "length ?x = card (unat ` fst ` set ?x)"
    using distinct_card [OF inv(1)] by (subst card_image) (auto intro!: inj_onI simp: word_unat_eq_iff)
  also have "\<dots> \<le> card {..<length vs}" using x by (intro card_mono) auto
  finally show "length (available_votes s) \<le> VALIDATOR_REGISTRY_LIMIT" using n by (simp add: available_votes_def)
qed

lemma candidate_applies:
  assumes "wf_state st" and "state_sealed H vs r st" and "st_slot st < slot" and "unat slot \<le> HISTORICAL_ROOTS_LIMIT"
    and "is_proposer p slot (word_of_nat (length vs))" and "candidate_block slot p r as = Ok b"
  shows "\<exists>post. apply_block H st slot b = Ok post"
proof -
  let ?s1 = "st\<lparr>st_slot := slot\<rparr>"
  have ps: "process_slots H st slot = Ok ?s1"
    using assms(2,3) by (simp add: process_slots_Ok_iff state_sealed_def)
  have b: "blk_slot b = slot" "blk_proposer_index b = p" "blk_parent_root b = r"
    using assms(6) by (auto simp: candidate_block_def split: if_splits)
  have "hdr_slot (st_latest_block_header st) < slot" using assms(1,3) by (auto simp: wf_state_def)
  then have "\<exists>post. process_block H ?s1 b = Ok post"
    using process_block_accepts_iff [OF process_slots_wf [OF assms(1) ps], of H b] assms(2,4,5) b
    by (simp add: state_sealed_def)
  with ps show ?thesis by (auto simp: apply_block_def map_err_Ok_iff)
qed

lemma build_on_head_verified:
  assumes inv: "chain_inv a s" and v: "votes_verified H C vs D s" and inj: "inj_on (h_data H) D"
    and st: "get_state s (s_head s) = Some st" and slot: "st_slot st < slot" "unat slot \<le> HISTORICAL_ROOTS_LIMIT"
    and duty: "is_proposer p slot (word_of_nat (length vs))"
  shows "\<exists>b sigs post. build_on_head H s (s_head s) slot p = Ok (b, sigs) \<and> length sigs \<le> VALIDATOR_REGISTRY_LIMIT \<and>
    list_all2 (proof_valid H C vs) (body_attestations (blk_body b)) sigs \<and>
    aa_data ` set (body_attestations (blk_body b)) \<subseteq> D \<and> state_transition H st b = Ok post \<and>
    blk_slot b = slot \<and> blk_proposer_index b = p \<and> blk_parent_root b = s_head s"
proof -
  have wf: "wf_state st" by (rule state_trackedD(1) [OF chain_okD(3) [OF chain_invD(1) [OF inv] st]])
  note sealed = votes_verifiedD(1) [OF v st]
  then have vs: "st_validators st = vs" by (simp add: state_sealed_def)
  then have n: "length vs \<le> VALIDATOR_REGISTRY_LIMIT" using wf by (simp add: wf_state_def)
  note av = available_votes_facts [OF v n]
  obtain included b post sigs where
    bb: "build_block H st slot p (s_head s) (available_votes s) (get_block_roots s) (available_proofs s) = Ok (b, post, sigs)"
      "set included \<subseteq> set (available_votes s)" "length sigs \<le> VALIDATOR_REGISTRY_LIMIT"
      "select_aggregated_proofs H included (available_proofs s) = Ok (body_attestations (blk_body b), sigs)"
    using build_block_returns_block [OF wf av(1), of slot p "s_head s" H "get_block_roots s" "available_proofs s"]
      av(2) candidate_applies [OF wf sealed slot duty] by blast
  have "att_data ` set included \<subseteq> D" using bb(2) av(2) by auto
  from bb(4) inj this have sel: "list_all2 (proof_valid H C vs) (body_attestations (blk_body b)) sigs \<and>
      aa_data ` set (body_attestations (blk_body b)) \<subseteq> D"
    by (rule selected_verified) (rule available_proofs_verified [OF v])
  have "build_on_head H s (s_head s) slot p = Ok (b, sigs)"
    using bb(1) st duty vs
    by (simp add: build_on_head_def Let_def available_votes_def available_proofs_def)
  with sel build_block_accepted [OF bb(1)] bb(3) show ?thesis by blast
qed

section \<open>Reachable stores\<close>

text \<open>
  The steps of the chain store whose attestation data is in a given set. On that set the root of
  the data must be injective, which excludes collisions among the data the node has met.
\<close>

inductive vote_step :: "hashing \<Rightarrow> ('pk, 'sig, 'sk) crypto \<Rightarrow> attestation_data set \<Rightarrow> store \<Rightarrow> store \<Rightarrow> bool"
  for H C D where
  block: "on_block H C s sb ids = Some (s', r) \<Longrightarrow> fresh_root H s (bwa_block (sb_message sb)) \<Longrightarrow>
    block_data sb \<subseteq> D \<Longrightarrow> vote_step H C D s s'"
| attestation: "on_gossip_attestation H C s sa ids = (s', r) \<Longrightarrow> sa_data sa \<in> D \<Longrightarrow> vote_step H C D s s'"
| aggregate: "on_gossip_aggregated_attestation H C s agg = (s', r) \<Longrightarrow> saa_data agg \<in> D \<Longrightarrow> vote_step H C D s s'"
| tick: "on_tick C s ts hp ia = Some (Ok (s', aggs)) \<Longrightarrow> vote_step H C D s s'"

lemma vote_step_chain: "vote_step H C D s s' \<Longrightarrow> chain_step H C s s'"
  by (auto elim!: vote_step.cases intro: chain_step.intros)

text \<open>
  What the results rely on: block and header have the same root, state roots are not zero, the
  attestation data seen have distinct roots, aggregates verify, and there are at most 256 validators.
  The last is a restriction: signatures are visited in the order of their keys, which for ids up to
  255 is the ascending order in which a verifying node lists the public keys, and for larger ids is not.
\<close>

definition sound_setting :: "hashing \<Rightarrow> ('pk, 'sig, 'sk) crypto \<Rightarrow> validator list \<Rightarrow> attestation_data set \<Rightarrow> bool" where
  "sound_setting H C vs D \<longleftrightarrow> ssz_roots H \<and> (\<forall>st. h_state H st \<noteq> 0) \<and> inj_on (h_data H) D \<and>
     aggregates_verify C \<and> length vs \<le> 256"

lemma vote_step_inv:
  assumes "sound_setting H C vs D" and "vote_step H C D s s'" and "chain_inv a s" and "votes_verified H C vs D s"
  shows "chain_inv a s' \<and> votes_verified H C vs D s'"
proof
  show "chain_inv a s'" by (rule chain_step_inv [OF vote_step_chain [OF assms(2)] assms(3)])
  note set = assms(1) [unfolded sound_setting_def]
  from assms(2) show "votes_verified H C vs D s'"
  proof cases
    case (block sb ids r)
    with set on_block_votes assms(3,4) show ?thesis by blast
  next
    case (tick ts hp ia aggs)
    with set on_tick_votes assms(3,4) show ?thesis by blast
  qed (use assms(4) on_gossip_attestation_votes on_gossip_aggregate_votes in blast)+
qed

lemma init_votes:
  assumes "init_store H empty_tables anchor body = (Ok s :: (store, 'e) result)" and "\<forall>st. h_state H st \<noteq> 0"
  shows "votes_verified H C (st_validators anchor) D s"
proof -
  from assms(1) have "get_attestation_data_by_root s r = None" "pb_entries (s_new_payloads s) = []"
    "pb_entries (s_known_payloads s) = []" for r
    by (auto simp: init_store_def Let_def empty_tables_def get_attestation_data_by_root_def buffer_new_def split: if_splits)
  moreover have "state_sealed H (st_validators anchor) r st" if "get_state s r = Some st" for r st
    using assms that by (auto simp: init_store_def Let_def empty_tables_def get_state_def state_sealed_def split: if_splits)
  ultimately show ?thesis by (simp add: votes_verified_def)
qed

lemma reachable_votes:
  assumes "sound_setting H C (st_validators anchor) D" and "init_store H empty_tables anchor body = Ok s0"
    and "wf_state anchor" and "s_head s0 \<noteq> 0" and "s_head s0 \<noteq> hdr_parent_root (st_latest_block_header anchor)"
    and "(vote_step H C D)\<^sup>*\<^sup>* s0 s"
  shows "chain_inv (hdr_slot (st_latest_block_header anchor)) s \<and> votes_verified H C (st_validators anchor) D s"
  using assms(6)
proof induction
  case base
  from init_store_chain [OF assms(2-5)] init_votes [OF assms(2)] assms(1) show ?case
    by (simp add: sound_setting_def)
next
  case (step s s')
  from vote_step_inv [OF assms(1) step.hyps(2)] step.IH show ?case by blast
qed

section \<open>Proposals\<close>

lemma proposer_in_range:
  assumes "is_proposer v slot (word_of_nat (length vs))" and "length vs \<le> 256"
  shows "unat v < length vs"
proof -
  have n: "unat (word_of_nat (length vs) :: u64) = length vs" using assms(2) by (simp add: unat_of_nat)
  have "(word_of_nat (length vs) :: u64) \<noteq> 0"
    using assms(1) by (auto simp: is_proposer_def current_proposer_def split: if_splits)
  with is_proposer_iff [OF this, of v slot] assms(1) n show ?thesis
    by (metis mod_less_divisor unat_gt_0)
qed

text \<open>The signed block around the built block passes every check of a node that has the parent's state.\<close>

lemma signed_proposal_accepted:
  assumes inv: "chain_inv a s" and np: "h_block H (bwa_block (sb_message sb)) \<notin> snd ` set (t_live_chain s)"
    and pst: "get_state s (blk_parent_root (bwa_block (sb_message sb))) = Some pst"
    and st: "state_transition H pst (bwa_block (sb_message sb)) = Ok post" and ver: "verify_signatures H C pst sb = Ok ()"
  shows "\<exists>s'. on_block H C s sb ids = Some (s', Ok ()) \<and> chain_inv a s' \<and> has_state s' (h_block H (bwa_block (sb_message sb)))"
  using on_block_run [OF inv, of H sb C ids] np pst st ver by (auto simp: fresh_root_def)

lemma proposal_head_run:
  assumes "sound_setting H C vs D" and "chain_inv a s" and "votes_verified H C vs D s"
  shows "\<exists>s2. get_proposal_head C s slot = Some (Ok (s2, s_head s2)) \<and> chain_inv a s2 \<and> votes_verified H C vs D s2 \<and>
    chain_frame s s2"
proof -
  let ?ms = "cc_genesis_time (s_config s) * 1000 + slot * MILLISECONDS_PER_SLOT"
  from on_tick_run [OF assms(2), of C ?ms True False] obtain s1 aggs where
    s1: "on_tick C s ?ms True False = Some (Ok (s1, aggs))" "chain_inv a s1" "chain_frame s s1" by blast
  from accept_new_attestations_run [OF chain_invD(1) [OF s1(2)]] obtain s2 where
    s2: "accept_new_attestations s1 = Some s2" "chain_inv a s2" "chain_frame s1 s2" by blast
  have "votes_verified H C vs D s1"
    using on_tick_votes [OF _ _ assms(2,3) s1(1)] assms(1) by (simp add: sound_setting_def)
  from adds_verified_keeps [OF adds_accept [OF s2(1)] this] have "votes_verified H C vs D s2" .
  with s1 s2 chain_frame_trans [OF s1(3) s2(3)] show ?thesis by (simp add: get_proposal_head_def)
qed

lemma signed_proposal_verifies:
  fixes sk :: 'sk and C :: "('pk, 'sig, 'sk) crypto"
  assumes pv: "list_all2 (proof_valid H C vs) (body_attestations (blk_body b)) sigs" and vs: "st_validators st = vs"
    and b: "blk_proposer_index b = v" "unat v < length vs" and d: "unat (ad_slot d) < 2 ^ 32"
    and sig: "sign_attestation H C km v d = Ok bs" "map_of (km_keys km) v = Some sk" "key_pair C sk (val_pubkey (vs ! unat v))"
  shows "verify_signatures H C st \<lparr>sb_message = \<lparr>bwa_block = b, bwa_proposer_attestation = \<lparr>att_validator_id = v, att_data = d\<rparr>\<rparr>,
    sb_signature = \<lparr>bs_attestation_signatures = sigs, bs_proposer_signature = bs\<rparr>\<rparr> = Ok ()"
  using assms sign_message_Ok [OF sig(1) [unfolded sign_attestation_def] sig(2,3)]
  by (auto simp: verify_signatures_Ok_iff Let_def)

lemma aggregates_accepted:
  assumes v: "aggregate_verified H C vs D agg" and d: "data_acceptable t (saa_data agg)"
    and st: "get_state t (cp_root (ad_target (saa_data agg))) = Some st" "st_validators st = vs"
  shows "snd (on_gossip_aggregated_attestation H C t agg) = Ok ()"
proof -
  have "check_gossip_aggregate H C t agg = Ok ()"
    using assms by (simp add: check_gossip_aggregate_Ok_iff aggregate_verified_def)
  then show ?thesis by (simp add: on_gossip_aggregated_attestation_def Let_def)
qed

section \<open>Properties\<close>

text \<open>
  C10. Proposal duty. On every store reached from an anchor by blocks, gossip and ticks, when a slot
  beyond those of all stored states comes and one of the node's validators is its proposer, the node
  builds a block on its head, imports it and publishes it; and every node that has the same state for
  the parent imports it too. The hypotheses: the prover's proofs verify, roots do not collide on the
  attestation data met, there are at most 256 validators, the slot is within the history limit, the
  key signs and belongs to the validator, and the new block is not the parent of a live block.
\<close>

theorem proposal_duty:
  fixes C :: "('pk, 'sig, 'sk) crypto" and sv :: "'sk server"
  assumes set: "sound_setting H C (st_validators anchor) D" and init: "init_store H empty_tables anchor body = Ok s0"
    "wf_state anchor" "s_head s0 \<noteq> 0" "s_head s0 \<noteq> hdr_parent_root (st_latest_block_header anchor)"
    and reach: "(vote_step H C D)\<^sup>*\<^sup>* s0 (sv_store sv)" and p2p: "sv_p2p sv = Some sent"
    and slot: "\<forall>r st. get_state (sv_store sv) r = Some st \<longrightarrow> st_slot st < slot" "unat slot \<le> HISTORICAL_ROOTS_LIMIT"
    and duty: "is_proposer v slot (word_of_nat (length (st_validators anchor)))"
    and key: "map_of (km_keys (sv_key_manager sv)) v = Some sk" "key_pair C sk (val_pubkey (st_validators anchor ! unat v))" "signs C sk"
    and fresh: "\<forall>b. built_block H C (sv_store sv) slot v = Some b \<longrightarrow> h_block H b \<notin> snd ` set (t_live_chain (sv_store sv))"
  shows "\<exists>sv' sb pst. propose_block H C sv slot v = Some (Ok sv') \<and> sv_p2p sv' = Some (sent @ [PublishBlock sb]) \<and>
    blk_slot (bwa_block (sb_message sb)) = slot \<and> blk_proposer_index (bwa_block (sb_message sb)) = v \<and>
    has_state (sv_store sv') (h_block H (bwa_block (sb_message sb))) \<and>
    get_state (sv_store sv) (blk_parent_root (bwa_block (sb_message sb))) = Some pst \<and>
    (\<forall>a s ids. chain_inv a s \<and> get_state s (blk_parent_root (bwa_block (sb_message sb))) = Some pst \<and>
       h_block H (bwa_block (sb_message sb)) \<notin> snd ` set (t_live_chain s) \<longrightarrow>
       (\<exists>s'. on_block H C s sb ids = Some (s', Ok ()) \<and> has_state s' (h_block H (bwa_block (sb_message sb)))))"
proof -
  let ?vs = "st_validators anchor" and ?km = "sv_key_manager sv"
  let ?a = "hdr_slot (st_latest_block_header anchor)"
  note set' = set [unfolded sound_setting_def]
  from reachable_votes [OF set init reach] have inv: "chain_inv ?a (sv_store sv)"
    and votes: "votes_verified H C ?vs D (sv_store sv)" by blast+
  from proposal_head_run [OF set inv votes, of slot] obtain s2 where
    h: "get_proposal_head C (sv_store sv) slot = Some (Ok (s2, s_head s2))" "chain_inv ?a s2"
      "votes_verified H C ?vs D s2" "chain_frame (sv_store sv) s2" by blast
  from chain_okD(9) [OF chain_invD(1) [OF h(2)]] obtain pst where pst: "get_state s2 (s_head s2) = Some pst" by blast
  then have pst0: "get_state (sv_store sv) (s_head s2) = Some pst" using chain_frame_reads(1) [OF h(4)] by simp
  from build_on_head_verified [OF h(2,3) _ pst _ slot(2) duty] set' slot(1) pst0 obtain b sigs post where
    b: "build_on_head H s2 (s_head s2) slot v = Ok (b, sigs)" "length sigs \<le> VALIDATOR_REGISTRY_LIMIT"
      "list_all2 (proof_valid H C ?vs) (body_attestations (blk_body b)) sigs" "state_transition H pst b = Ok post"
      "blk_slot b = slot" "blk_proposer_index b = v" "blk_parent_root b = s_head s2" by blast
  have prod: "produce_block_with_signatures H C (sv_store sv) slot v = Some (s2, Ok (b, sigs))"
    by (simp add: produce_block_with_signatures_def h(1) b(1))
  from get_attestation_target_run [OF h(2)] obtain cp where cp: "get_attestation_target s2 = Some (Ok cp)" by blast
  let ?pa = "proposal_attestation H s2 slot v b cp"
  from sign_attestation_signs [OF key(1,3), of H "att_data ?pa"] obtain bs where
    bs: "sign_attestation H C ?km v (att_data ?pa) = Ok bs" by blast
  define sb where "sb = \<lparr>sb_message = \<lparr>bwa_block = b, bwa_proposer_attestation = ?pa\<rparr>,
    sb_signature = \<lparr>bs_attestation_signatures = sigs, bs_proposer_signature = bs\<rparr>\<rparr>"
  have sb: "bwa_block (sb_message sb) = b" by (simp add: sb_def)
  have v: "unat v < length ?vs" using proposer_in_range [OF duty] set' by blast
  have vs: "st_validators pst = ?vs" using votes_verifiedD(1) [OF h(3) pst] by (simp add: state_sealed_def)
  have s32: "unat (ad_slot (att_data ?pa)) < 2 ^ 32"
    using slot(2) by (simp add: proposal_attestation_def HISTORICAL_ROOTS_LIMIT_def)
  have ver: "verify_signatures H C pst sb = Ok ()"
    using signed_proposal_verifies [OF b(3) vs b(6) v s32 bs key(1,2)] by (simp add: sb_def proposal_attestation_def)
  note acc = signed_proposal_accepted [where sb = sb and C = C, unfolded sb b(7), OF _ _ _ b(4) ver]
  have np: "h_block H b \<notin> snd ` set (t_live_chain s2)"
    using fresh prod h(4) by (simp add: built_block_def chain_frame_def)
  from acc [OF h(2) np pst, of "validator_ids ?km"] obtain s3 where
    s3: "on_block H C s2 sb (validator_ids ?km) = Some (s3, Ok ())" "chain_inv ?a s3" "has_state s3 (h_block H b)" by blast
  obtain hs where hs: "head_slot s3 = (Ok hs :: (u64, store_error) result)"
    using get_attestation_target_run [OF s3(2)] by (auto simp: head_slot_def)
  let ?sv = "send (PublishBlock sb) (sv\<lparr>sv_store := s3\<rparr>)"
  have run: "propose_block H C sv slot v = Some (Ok ?sv)"
    using prod cp bs b(2) s3(1) hs
    by (simp add: propose_block_def Let_def server_process_block_def sb_def)
  have peers: "\<forall>a s ids. chain_inv a s \<and> get_state s (s_head s2) = Some pst \<and> h_block H b \<notin> snd ` set (t_live_chain s) \<longrightarrow>
      (\<exists>s'. on_block H C s sb ids = Some (s', Ok ()) \<and> has_state s' (h_block H b))" using acc by blast
  have "sv_p2p ?sv = Some (sent @ [PublishBlock sb])" "sv_store ?sv = s3" using p2p by simp_all
  with run peers show ?thesis
    by (intro exI [of _ ?sv] exI [of _ sb] exI [of _ pst]) (simp add: sb b(5-7) s3(3) pst0)
qed

text \<open>An example in which signatures have the size of the container.\<close>

definition demo_signing :: "(bytes, bytes, unit) crypto" where
  "demo_signing = demo_crypto\<lparr>c_sign := (\<lambda>_ _ _. Some (replicate SIGNATURE_SIZE 1))\<rparr>"

lemma demo_setting: "sound_setting demo_hashing demo_signing (st_validators demo_genesis) {}"
  using demo_ssz_roots ucast_add_nonzero [of 1000]
  by (simp add: sound_setting_def demo_hashing_def demo_signing_def aggregates_verify_def demo_crypto_def)
    (simp add: demo_defs)

theorem proposal_duty_witness:
  "\<exists>sv' sb. propose_block demo_hashing demo_signing (demo_server\<lparr>sv_p2p := Some []\<rparr>) 1 1 = Some (Ok sv') \<and>
     sv_p2p sv' = Some [PublishBlock sb] \<and> blk_slot (bwa_block (sb_message sb)) = 1"
proof -
  let ?sv = "demo_server\<lparr>sv_p2p := Some []\<rparr>"
  have st: "sv_store ?sv = demo_store" "sv_p2p ?sv = Some []" by (simp_all add: demo_server_def)
  have slot: "\<forall>r st. get_state demo_store r = Some st \<longrightarrow> st_slot st < 1"
    by (auto simp: demo_store_defs get_state_def demo_defs split: if_splits)
  have "h_block demo_hashing b \<noteq> 0" for b
    using ucast_add_nonzero [of 2000 "blk_slot b"] by (simp add: demo_hashing_def)
  then have fresh: "\<forall>b. built_block demo_hashing demo_signing demo_store 1 1 = Some b \<longrightarrow>
      h_block demo_hashing b \<notin> snd ` set (t_live_chain demo_store)" by (simp add: demo_store_fields)
  have vals: "length (st_validators demo_genesis) = 3" by (simp add: demo_defs)
  have duty: "is_proposer 1 1 (word_of_nat (length (st_validators demo_genesis)))"
    unfolding vals by (simp add: is_proposer_def current_proposer_def)
  have key: "map_of (km_keys (sv_key_manager ?sv)) 1 = Some ()" by (simp add: demo_server_def key_manager_new_def)
  have kp: "key_pair demo_signing () pubkey" "signs demo_signing ()" for pubkey
    by (simp_all add: key_pair_def signs_def demo_signing_def demo_crypto_def SIGNATURE_SIZE_def)
  have s0: "s_head demo_store \<noteq> 0" by (simp add: demo_store_fields)
  have lim: "unat (1 :: u64) \<le> HISTORICAL_ROOTS_LIMIT" by (simp add: HISTORICAL_ROOTS_LIMIT_def)
  from proposal_duty [OF demo_setting demo_store_init wf_demo_genesis s0 demo_head _ st(2), unfolded st(1),
      OF rtranclp.rtrancl_refl slot lim duty key kp fresh] show ?thesis by (metis append_Nil)
qed

text \<open>
  C11. Aggregation duty, for at most 256 validators. Every aggregate that a tick of an aggregator
  returns to be published is accepted by the gossip handler of every node that finds its data
  acceptable and whose target state has the same validators. The aggregator's store is reached by
  blocks, gossip and ticks from an initial one, distinct attestation data seen on the way have
  distinct roots, and an aggregate over keys, message and slot verifies for the same keys in the same
  order. The bound on the validators is needed for that order: the aggregator visits the signatures
  by the little-endian bytes of the validator ids, the verifying node takes the keys by ascending id,
  and from id 256 on the two orders differ, so nothing is claimed there.
\<close>

theorem aggregation_duty:
  fixes C :: "('pk, 'sig, 'sk) crypto"
  assumes set: "sound_setting H C (st_validators anchor) D" and init: "init_store H empty_tables anchor body = Ok s0"
    "wf_state anchor" "s_head s0 \<noteq> 0" "s_head s0 \<noteq> hdr_parent_root (st_latest_block_header anchor)"
    and reach: "(vote_step H C D)\<^sup>*\<^sup>* s0 s" and run: "on_tick C s ts has_proposal True = Some (Ok (s', aggs))"
    and agg: "agg \<in> set aggs" and d: "data_acceptable t (saa_data agg)"
    and st: "get_state t (cp_root (ad_target (saa_data agg))) = Some st" "st_validators st = st_validators anchor"
  shows "snd (on_gossip_aggregated_attestation H C t agg) = Ok ()"
proof -
  note sv = reachable_votes [OF set init reach]
  have "aggregate_verified H C (st_validators anchor) D agg"
    using on_tick_votes [OF _ _ conjunct1 [OF sv] conjunct2 [OF sv] run] set agg by (auto simp: sound_setting_def)
  from aggregates_accepted [OF this d st] show ?thesis .
qed

definition demo_voted :: store where
  "demo_voted = fst (on_gossip_attestation demo_hashing demo_signing demo_store demo_vote [0])"

lemma demo_check: "check_gossip_attestation demo_hashing demo_signing demo_store demo_vote = Ok [7]"
proof -
  have h: "get_block_header demo_store 2000 = Some ((st_latest_block_header demo_genesis)\<lparr>hdr_state_root := 1000\<rparr>)"
    by (simp add: demo_store_defs get_block_header_def demo_defs)
  have "data_acceptable demo_store (demo_data 1 0 0)"
    by (simp add: data_acceptable_def demo_data_def demo_checkpoint_def h demo_store_fields)
      (simp add: demo_defs)
  then show ?thesis
    by (simp add: check_gossip_attestation_Ok_iff demo_vote_def demo_data_def demo_checkpoint_def demo_store_fields
        demo_signing_def demo_crypto_def) (simp add: demo_defs)
qed

lemma demo_voted_eq: "demo_voted = insert_gossip_signature demo_signing 4001 1 2 [7]
   (insert_attestation_data_by_root 4001 (demo_data 1 0 0) demo_store)"
  using demo_check by (simp add: demo_voted_def on_gossip_attestation_def demo_vote_def Let_def in_our_subnet_def
    compute_subnet_id_def ATTESTATION_COMMITTEE_COUNT_def) (simp add: demo_defs)

lemma demo_voted_fields:
  "t_gossip_signatures demo_voted = [((2, 4001), \<lparr>ss_slot = 1, ss_signature_bytes = [7]\<rparr>)]"
  "get_attestation_data_by_root demo_voted 4001 = Some (demo_data 1 0 0)"
  "get_state demo_voted = get_state demo_store" "get_block_header demo_voted = get_block_header demo_store" "s_head demo_voted = 2000" "s_time demo_voted = 0"
  "s_config demo_voted = \<lparr>cc_genesis_time = 12\<rparr>"
proof -
  have g: "t_gossip_signatures demo_store = []" by (simp add: demo_store_defs demo_defs)
  then show "t_gossip_signatures demo_voted = [((2, 4001), \<lparr>ss_slot = 1, ss_signature_bytes = [7]\<rparr>)]"
    by (simp add: demo_voted_eq insert_gossip_signature_def insert_attestation_data_by_root_def tbl_put_def Let_def
      stored_signature_new_def demo_signing_def demo_crypto_def)
  have "s_config demo_store = \<lparr>cc_genesis_time = 12\<rparr>" by (simp add: demo_store_defs demo_defs)
  then show "get_attestation_data_by_root demo_voted 4001 = Some (demo_data 1 0 0)"
   "get_state demo_voted = get_state demo_store" "get_block_header demo_voted = get_block_header demo_store"
   "s_head demo_voted = 2000" "s_time demo_voted = 0"   "s_config demo_voted = \<lparr>cc_genesis_time = 12\<rparr>"
   by (simp_all add: demo_voted_eq insert_gossip_signature_def insert_attestation_data_by_root_def Let_def
      get_attestation_data_by_root_def demo_store_fields fun_eq_iff get_state_def get_block_header_def)
qed

definition demo_aggregate :: signed_aggregated_attestation where
  "demo_aggregate = \<lparr>saa_data = demo_data 1 0 0,
     saa_proof = \<lparr>asp_participants = [False, False, True], asp_proof_data = [1]\<rparr>\<rparr>"

lemma demo_aggregated:
  assumes "t_gossip_signatures s = t_gossip_signatures demo_voted" and "t_attestation_data_by_root s = t_attestation_data_by_root demo_voted"
   and "t_states s = t_states demo_voted" and "s_head s = 2000"
  shows "\<exists>s'. aggregate_committee_signatures demo_signing s = Ok (s', [demo_aggregate])"
proof -
  have st: "head_state s = (Ok (demo_genesis\<lparr>st_latest_block_header :=
     (st_latest_block_header demo_genesis)\<lparr>hdr_state_root := 1000\<rparr>\<rparr>) :: (state, store_error) result)"
    using demo_voted_fields(3) demo_store_fields(3) assms(3,4) by (simp add: head_state_def get_state_def fun_eq_iff)
  have d: "get_attestation_data_by_root s 4001 = Some (demo_data 1 0 0)"
    using demo_voted_fields(2) assms(2) by (simp add: get_attestation_data_by_root_def)
  have v: "st_validators demo_genesis = demo_validators" by (simp add: demo_defs)
  have u: "usable_signature demo_signing demo_validators (2, [7]) = Some (2, [2], [7])"
   by (simp add: usable_signature_def demo_validators_def get_pubkey_def demo_signing_def demo_crypto_def)
  have b: "aggregation_bits_from_validator_indices [2] = Ok [False, False, True]"
  proof -
    have "[False, False, False][2 := True] = [False, False, True]" by (simp add: numeral_2_eq_2)
    then show ?thesis by (simp add: aggregation_bits_from_validator_indices_def bits_of_ids_def max_id_def
        with_capacity_def VALIDATOR_REGISTRY_LIMIT_def bit_set_def)
  qed
  have a: "aggregate_signatures demo_signing [[2]] [[7]] 4001 (ucast (ad_slot (demo_data 1 0 0))) = Ok [1]"
    by (simp add: aggregate_signatures_def demo_signing_def demo_crypto_def MIB_def)
  have s: "to_validator_signature demo_signing \<lparr>ss_slot = 1, ss_signature_bytes = [7]\<rparr> = Some [7]"
    by (simp add: to_validator_signature_def demo_signing_def demo_crypto_def)
  show ?thesis
   by (simp add: aggregate_committee_signatures_def iter_gossip_signatures_def assms(1) demo_voted_fields(1) st
     group_signature_def s aggregate_group_def d v u map_filter_simps b a demo_aggregate_def Let_def)
qed
lemma demo_tick: "\<exists>s'. on_tick demo_signing demo_voted 13600 False True = Some (Ok (s', [demo_aggregate]))"
proof -
  have t: "tick_time demo_voted 13600 = 2"
    by (simp add: tick_time_def demo_voted_fields(7) saturating_sub_def MILLISECONDS_PER_INTERVAL_def)
  let ?s = "set_time 2 demo_voted"
  obtain s' where s': "aggregate_committee_signatures demo_signing ?s = Ok (s', [demo_aggregate])"
    using demo_aggregated [of ?s] by (auto simp: set_time_def demo_voted_fields)
  have "chain_inv 0 ?s"
    unfolding demo_voted_eq by (intro neutral_set_time.keeps_inv neutral_gossip.keeps_inv neutral_data.keeps_inv demo_store_inv)
  from aggregate_committee_signatures_run [OF this, of demo_signing] s' have tm: "s_time s' = 2" by (auto simp: set_time_def)
  have two: "tick_loop demo_signing False True 2 s' [demo_aggregate] = Some (Ok (s', [demo_aggregate]))"
    by (subst tick_loop.simps) (simp add: tm)
  have one: "tick_loop demo_signing False True 2 (set_time 1 demo_voted) [] = Some (Ok (s', [demo_aggregate]))"
    by (subst tick_loop.simps)
      (simp add: set_time_def tick_interval_def INTERVALS_PER_SLOT_def s' [unfolded set_time_def] two)
  have "tick_loop demo_signing False True 2 demo_voted [] = Some (Ok (s', [demo_aggregate]))"
    by (subst tick_loop.simps)
      (simp add: demo_voted_fields(6) tick_interval_def INTERVALS_PER_SLOT_def one)
  then show ?thesis by (simp add: on_tick_def t demo_voted_fields(6) saturating_sub_def INTERVALS_PER_SLOT_def)
qed

lemma demo_reach: "vote_step demo_hashing demo_signing {demo_data 1 0 0} demo_store demo_voted"
  by (rule vote_step.attestation [where sa = demo_vote and ids = "[0]" and r = "snd (on_gossip_attestation demo_hashing demo_signing demo_store demo_vote [0])"])
    (simp_all add: demo_voted_def demo_vote_def)

theorem aggregation_duty_witness:
  "\<exists>s'. on_tick demo_signing demo_voted 13600 False True = Some (Ok (s', [demo_aggregate])) \<and>
     snd (on_gossip_aggregated_attestation demo_hashing demo_signing demo_store demo_aggregate) = Ok ()"
proof -
  have set: "sound_setting demo_hashing demo_signing (st_validators demo_genesis) {demo_data 1 0 0}"
    using demo_setting by (simp add: sound_setting_def)
  have s0: "s_head demo_store \<noteq> 0" by (simp add: demo_store_fields)
  have d: "data_acceptable demo_store (saa_data demo_aggregate)"
    using demo_check by (simp add: demo_aggregate_def check_gossip_attestation_Ok_iff demo_vote_def)
  obtain s' where t: "on_tick demo_signing demo_voted 13600 False True = Some (Ok (s', [demo_aggregate]))"
    using demo_tick by blast
  have agg: "demo_aggregate \<in> set [demo_aggregate]" by simp
  have st: "get_state demo_store (cp_root (ad_target (saa_data demo_aggregate))) = Some (demo_genesis\<lparr>st_latest_block_header :=
     (st_latest_block_header demo_genesis)\<lparr>hdr_state_root := 1000\<rparr>\<rparr>)"
    using demo_store_fields(3) by (simp add: demo_aggregate_def demo_data_def demo_checkpoint_def)
  have reach: "(vote_step demo_hashing demo_signing {demo_data 1 0 0})\<^sup>*\<^sup>* demo_store demo_voted"
    using demo_reach by blast
  from aggregation_duty [OF set demo_store_init wf_demo_genesis s0 demo_head reach t agg d st] t
  show ?thesis by simp
qed

end
