(* ===== verification/Gossip.thy ===== *)
theory Gossip
  imports Wire_Codec Chain_Server Keys
begin

text \<open>
  Gossip messages (\<open>crates/net/p2p/src/gossipsub/\<close> and the topic and message-id functions of
  \<open>crates/net/p2p/src/lib.rs\<close>): raw snappy compression with a size limit, topics, the decoding of
  a message by the kind in its topic, and message ids. The snappy crate, the SSZ encodings and
  SHA-256 are parameters.
\<close>

section \<open>Compression\<close>

record snappy_raw =
  sr_compress :: "bytes \<Rightarrow> bytes"
  sr_decompress_len :: "bytes \<Rightarrow> nat option"
  sr_decompress :: "bytes \<Rightarrow> bytes option"

datatype decompress_error = Snap | TooLarge nat nat

definition decompress_message :: "snappy_raw \<Rightarrow> bytes \<Rightarrow> (bytes, decompress_error) result" where
  "decompress_message R data =
     bind_res (ok_or (sr_decompress_len R data) Snap) (\<lambda>uncompressed_size.
       if uncompressed_size > MAX_PAYLOAD_SIZE then Err (TooLarge uncompressed_size MAX_PAYLOAD_SIZE)
       else ok_or (sr_decompress R data) Snap)"

definition compress_message :: "snappy_raw \<Rightarrow> bytes \<Rightarrow> bytes" where
  "compress_message R data = sr_compress R data"

section \<open>Topics\<close>

definition BLOCK_TOPIC_KIND :: string where
  "BLOCK_TOPIC_KIND = ''block''"

definition ATTESTATION_SUBNET_TOPIC_PREFIX :: string where
  "ATTESTATION_SUBNET_TOPIC_PREFIX = ''attestation''"

definition AGGREGATION_TOPIC_KIND :: string where
  "AGGREGATION_TOPIC_KIND = ''aggregation''"

definition network_name :: string where
  "network_name = ''devnet0''"

definition topic_of_kind :: "string \<Rightarrow> string" where
  "topic_of_kind kind = ''/leanconsensus/'' @ network_name @ ''/'' @ kind @ ''/ssz_snappy''"

definition attestation_subnet :: "u64 option \<Rightarrow> u64 \<Rightarrow> u64" where
  "attestation_subnet validator_id attestation_committee_count =
     (case validator_id of Some vid \<Rightarrow> vid mod attestation_committee_count | None \<Rightarrow> 0)"

definition attestation_topic_kind :: "u64 \<Rightarrow> string" where
  "attestation_topic_kind subnet_id = ATTESTATION_SUBNET_TOPIC_PREFIX @ ''_'' @ decimal (unat subnet_id)"

text \<open>The topics a node subscribes to.\<close>

definition subscriptions :: "u64 option \<Rightarrow> u64 \<Rightarrow> bool \<Rightarrow> string list" where
  "subscriptions validator_id attestation_committee_count is_aggregator =
     [topic_of_kind BLOCK_TOPIC_KIND, topic_of_kind AGGREGATION_TOPIC_KIND] @
     (if is_aggregator
      then [topic_of_kind (attestation_topic_kind (attestation_subnet validator_id attestation_committee_count))]
      else [])"

fun split_on :: "char \<Rightarrow> string \<Rightarrow> string list" where
  "split_on c [] = [[]]"
| "split_on c (x # xs) =
     (if x = c then [] # split_on c xs
      else case split_on c xs of [] \<Rightarrow> [[x]] | w # ws \<Rightarrow> (x # w) # ws)"

definition topic_kind :: "string \<Rightarrow> string option" where
  "topic_kind topic = (let parts = split_on CHR ''/'' topic in if 3 < length parts then Some (parts ! 3) else None)"

section \<open>Messages\<close>

record gossip_codec =
  gc_snappy :: snappy_raw
  gc_block :: "signed_block_with_attestation ssz"
  gc_aggregation :: "signed_aggregated_attestation ssz"
  gc_attestation :: "signed_attestation ssz"

definition decode_gossip :: "gossip_codec \<Rightarrow> 'a ssz \<Rightarrow> bytes \<Rightarrow> 'a option" where
  "decode_gossip G E data =
     (case decompress_message (gc_snappy G) data of
        Ok uncompressed_data \<Rightarrow> ssz_decode E uncompressed_data
      | _ \<Rightarrow> None)"

text \<open>What a message on a topic is forwarded as, if anything.\<close>

definition gossip_message :: "gossip_codec \<Rightarrow> string \<Rightarrow> bytes \<Rightarrow> server_message option" where
  "gossip_message G topic data =
     (case topic_kind topic of
        None \<Rightarrow> None
      | Some kind \<Rightarrow>
          if kind = BLOCK_TOPIC_KIND then map_option NewBlock (decode_gossip G (gc_block G) data)
          else if kind = AGGREGATION_TOPIC_KIND
          then map_option NewAggregatedAttestation (decode_gossip G (gc_aggregation G) data)
          else if take (length ATTESTATION_SUBNET_TOPIC_PREFIX) kind = ATTESTATION_SUBNET_TOPIC_PREFIX
          then map_option NewAttestation (decode_gossip G (gc_attestation G) data)
          else None)"

definition encode_gossip :: "gossip_codec \<Rightarrow> 'a ssz \<Rightarrow> 'a \<Rightarrow> bytes" where
  "encode_gossip G E x = compress_message (gc_snappy G) (ssz_encode E x)"

section \<open>Message ids\<close>

definition MESSAGE_DOMAIN_INVALID_SNAPPY :: bytes where
  "MESSAGE_DOMAIN_INVALID_SNAPPY = [0, 0, 0, 0]"

definition MESSAGE_DOMAIN_VALID_SNAPPY :: bytes where
  "MESSAGE_DOMAIN_VALID_SNAPPY = [1, 0, 0, 0]"

definition message_id_preimage :: "snappy_raw \<Rightarrow> string \<Rightarrow> bytes \<Rightarrow> bytes" where
  "message_id_preimage R topic data0 =
     (case (case decompress_message R data0 of
              Ok data \<Rightarrow> (MESSAGE_DOMAIN_VALID_SNAPPY, data)
            | _ \<Rightarrow> (MESSAGE_DOMAIN_INVALID_SNAPPY, data0)) of
        (domain, data) \<Rightarrow>
          domain @ rev (be_bytes 8 (unat (word_of_nat (length (string_bytes topic)) :: u64))) @
          string_bytes topic @ data)"

definition compute_message_id :: "(bytes \<Rightarrow> bytes) \<Rightarrow> snappy_raw \<Rightarrow> string \<Rightarrow> bytes \<Rightarrow> bytes" where
  "compute_message_id sha256 R topic data = take 20 (sha256 (message_id_preimage R topic data))"

section \<open>Properties\<close>

text \<open>What is relied on of raw snappy for one message.\<close>

definition compresses :: "snappy_raw \<Rightarrow> bytes \<Rightarrow> bool" where
  "compresses R x \<longleftrightarrow> sr_decompress_len R (sr_compress R x) = Some (length x) \<and>
     sr_decompress R (sr_compress R x) = Some x"

lemma decompress_compress:
  "compresses R x \<Longrightarrow> decompress_message R (compress_message R x) =
     (if length x \<le> MAX_PAYLOAD_SIZE then Ok x else Err (TooLarge (length x) MAX_PAYLOAD_SIZE))"
  by (simp add: decompress_message_def compress_message_def compresses_def)

lemma split_on_free: "c \<notin> set s \<Longrightarrow> split_on c (s @ c # t) = s # split_on c t"
  by (induction s) auto

lemma split_on_end: "c \<notin> set s \<Longrightarrow> split_on c s = [s]"
  by (induction s) auto

lemma topic_kind_of_kind: "CHR ''/'' \<notin> set kind \<Longrightarrow> topic_kind (topic_of_kind kind) = Some kind"
  by (simp add: topic_kind_def topic_of_kind_def network_name_def split_on_free split_on_end Let_def)

lemma slash_not_decimal: "CHR ''/'' \<notin> set (decimal n)"
proof
  assume "CHR ''/'' \<in> set (decimal n)"
  then obtain k :: nat where "k < 10" "CHR ''/'' = char_of (48 + k)" using decimal_chars by blast
  then have "of_char (CHR ''/'') = (48 + k) mod (256 :: nat)" by simp
  with \<open>k < 10\<close> show False by simp
qed

lemma topic_kinds:
  "topic_kind (topic_of_kind BLOCK_TOPIC_KIND) = Some BLOCK_TOPIC_KIND"
  "topic_kind (topic_of_kind AGGREGATION_TOPIC_KIND) = Some AGGREGATION_TOPIC_KIND"
  "topic_kind (topic_of_kind (attestation_topic_kind n)) = Some (attestation_topic_kind n)"
  by (rule topic_kind_of_kind,
      simp add: BLOCK_TOPIC_KIND_def AGGREGATION_TOPIC_KIND_def attestation_topic_kind_def
        ATTESTATION_SUBNET_TOPIC_PREFIX_def slash_not_decimal)+

text \<open>A message that its encoding carries and that is within the size limit.\<close>

definition deliverable :: "gossip_codec \<Rightarrow> 'a ssz \<Rightarrow> 'a \<Rightarrow> bool" where
  "deliverable G E x \<longleftrightarrow> carries E x \<and> compresses (gc_snappy G) (ssz_encode E x) \<and>
     length (ssz_encode E x) \<le> MAX_PAYLOAD_SIZE"

lemma decode_encode_gossip: "deliverable G E x \<Longrightarrow> decode_gossip G E (encode_gossip G E x) = Some x"
  by (simp add: decode_gossip_def encode_gossip_def deliverable_def decompress_compress carries_def)

lemma gossip_message_encode:
  "deliverable G (gc_block G) b \<Longrightarrow>
     gossip_message G (topic_of_kind BLOCK_TOPIC_KIND) (encode_gossip G (gc_block G) b) = Some (NewBlock b)"
  "deliverable G (gc_aggregation G) agg \<Longrightarrow>
     gossip_message G (topic_of_kind AGGREGATION_TOPIC_KIND) (encode_gossip G (gc_aggregation G) agg) =
       Some (NewAggregatedAttestation agg)"
  "deliverable G (gc_attestation G) sa \<Longrightarrow>
     gossip_message G (topic_of_kind (attestation_topic_kind n)) (encode_gossip G (gc_attestation G) sa) =
       Some (NewAttestation sa)"
  by (simp_all add: gossip_message_def topic_kinds decode_encode_gossip)
    (simp_all add: attestation_topic_kind_def BLOCK_TOPIC_KIND_def AGGREGATION_TOPIC_KIND_def
      ATTESTATION_SUBNET_TOPIC_PREFIX_def)

text \<open>A decompression bomb is rejected by its announced size, before it is decompressed.\<close>

lemma gossip_size_bound:
  "sr_decompress_len R data = Some n \<Longrightarrow> MAX_PAYLOAD_SIZE < n \<Longrightarrow>
     decompress_message R data = Err (TooLarge n MAX_PAYLOAD_SIZE)"
  by (simp add: decompress_message_def)

text \<open>
  Message ids separate their parts: two messages with the same hash input agree on the topic and
  on the data, decompressed if that is possible.
\<close>

lemma message_id_preimage_separates:
  assumes eq: "message_id_preimage R topic data = message_id_preimage R topic' data'"
    and len: "length topic < 2 ^ 64" "length topic' < 2 ^ 64"
  shows "topic = topic' \<and>
    (\<forall>x. decompress_message R data = Ok x \<longleftrightarrow> decompress_message R data' = Ok x) \<and>
    ((\<forall>x. decompress_message R data \<noteq> Ok x) \<longrightarrow> data = data')"
proof -
  define part where "part d = (case decompress_message R d of Ok x \<Rightarrow> (MESSAGE_DOMAIN_VALID_SNAPPY, x)
    | _ \<Rightarrow> (MESSAGE_DOMAIN_INVALID_SNAPPY, d))" for d
  have dom: "length (fst (part d)) = 4" for d
    by (simp add: part_def MESSAGE_DOMAIN_VALID_SNAPPY_def MESSAGE_DOMAIN_INVALID_SNAPPY_def split: result.splits)
  have pre: "message_id_preimage R t d = fst (part d) @
      rev (be_bytes 8 (unat (word_of_nat (length (string_bytes t)) :: u64))) @ string_bytes t @ snd (part d)" for t d
    by (simp add: message_id_preimage_def part_def split: result.splits)
  have l: "length (string_bytes t) = length t" for t by (simp add: string_bytes_def)
  from eq have p1: "fst (part data) = fst (part data')"
    and rest: "rev (be_bytes 8 (unat (word_of_nat (length topic) :: u64))) @ string_bytes topic @ snd (part data) =
      rev (be_bytes 8 (unat (word_of_nat (length topic') :: u64))) @ string_bytes topic' @ snd (part data')"
    unfolding pre l by (simp_all add: append_eq_append_conv dom)
  from rest have w: "(word_of_nat (length topic) :: u64) = word_of_nat (length topic')"
    and r2: "string_bytes topic @ snd (part data) = string_bytes topic' @ snd (part data')"
    by (simp_all add: append_eq_append_conv)
  from w have "unat (word_of_nat (length topic) :: u64) = unat (word_of_nat (length topic') :: u64)" by simp
  with len have "length topic = length topic'" by (simp add: unat_of_nat)
  with r2 l have t: "topic = topic'" and p2: "snd (part data) = snd (part data')"
    by (simp_all add: append_eq_append_conv string_bytes_inject)
  with p1 show ?thesis
    by (auto simp: part_def MESSAGE_DOMAIN_VALID_SNAPPY_def MESSAGE_DOMAIN_INVALID_SNAPPY_def split: result.splits)
qed

end
