(* ===== verification/Peer_Metrics.thy ===== *)
theory Peer_Metrics
  imports Prelude
begin

text \<open>
  The peer metrics of \<open>crates/net/p2p/src/metrics.rs\<close>: the registry of node names, the gauge of
  connected peers per name, and the counters of connection and disconnection events. The global
  registries of the process are one record. A gauge is a 64-bit word; a labelled metric is a map
  from label values, created at zero when a label is first used.
\<close>

section \<open>State\<close>

type_synonym peer_id = nat

record p2p_metrics =
  pm_name_registry :: "(peer_id \<times> string) list"
  pm_connected_peers :: "(string \<times> i64) list"
  pm_connection_events :: "((string \<times> string) \<times> u64) list"
  pm_disconnection_events :: "((string \<times> string) \<times> u64) list"
  pm_attestation_committee_subnet :: i64

definition p2p_metrics_new :: p2p_metrics where
  "p2p_metrics_new = \<lparr>pm_name_registry = [], pm_connected_peers = [], pm_connection_events = [],
     pm_disconnection_events = [], pm_attestation_committee_subnet = 0\<rparr>"

definition label_value :: "('l \<times> 'a::len word) list \<Rightarrow> 'l \<Rightarrow> 'a word" where
  "label_value m labels = (case map_of m labels of None \<Rightarrow> 0 | Some v \<Rightarrow> v)"

definition label_add :: "'l \<Rightarrow> 'a::len word \<Rightarrow> ('l \<times> 'a word) list \<Rightarrow> ('l \<times> 'a word) list" where
  "label_add labels d m = AList.update labels (label_value m labels + d) m"

section \<open>Operations\<close>

text \<open>The peer id of a private key, when it is valid, is computed by the identity library.\<close>

definition populate_name_registry ::
  "(H256 \<Rightarrow> peer_id option) \<Rightarrow> (string \<times> H256) list \<Rightarrow> p2p_metrics \<Rightarrow> p2p_metrics" where
  "populate_name_registry peer_of_privkey names_and_privkeys m =
     m\<lparr>pm_name_registry := collect_map (List.map_filter
         (\<lambda>(name, privkey). map_option (\<lambda>peer_id. (peer_id, name)) (peer_of_privkey privkey))
         names_and_privkeys)\<rparr>"

definition resolve :: "p2p_metrics \<Rightarrow> peer_id option \<Rightarrow> string" where
  "resolve m peer_id =
     (case Option.bind peer_id (map_of (pm_name_registry m)) of None \<Rightarrow> ''unknown'' | Some name \<Rightarrow> name)"

definition set_attestation_committee_subnet :: "u64 \<Rightarrow> p2p_metrics \<Rightarrow> p2p_metrics" where
  "set_attestation_committee_subnet subnet_id m =
     m\<lparr>pm_attestation_committee_subnet := (if unat subnet_id < 2 ^ 63 then subnet_id else 0)\<rparr>"

definition notify_peer_connected :: "peer_id option \<Rightarrow> string \<Rightarrow> string \<Rightarrow> p2p_metrics \<Rightarrow> p2p_metrics" where
  "notify_peer_connected peer_id direction res m =
     (let m1 = m\<lparr>pm_connection_events := label_add (direction, res) 1 (pm_connection_events m)\<rparr>
      in if res = ''success''
         then m1\<lparr>pm_connected_peers := label_add (resolve m1 peer_id) 1 (pm_connected_peers m1)\<rparr>
         else m1)"

definition notify_peer_disconnected :: "peer_id option \<Rightarrow> string \<Rightarrow> string \<Rightarrow> p2p_metrics \<Rightarrow> p2p_metrics" where
  "notify_peer_disconnected peer_id direction reason m =
     (let m1 = m\<lparr>pm_disconnection_events := label_add (direction, reason) 1 (pm_disconnection_events m)\<rparr>
      in m1\<lparr>pm_connected_peers := label_add (resolve m1 peer_id) (- 1) (pm_connected_peers m1)\<rparr>)"

section \<open>Labels of events\<close>

definition connection_direction :: "bool \<Rightarrow> string" where
  "connection_direction is_dialer = (if is_dialer then ''outbound'' else ''inbound'')"

definition to_lower :: "char \<Rightarrow> char" where
  "to_lower c = (let n = of_char c :: nat in if 65 \<le> n \<and> n \<le> 90 then char_of (n + 32) else c)"

fun contains :: "string \<Rightarrow> string \<Rightarrow> bool" where
  "contains [] needle \<longleftrightarrow> needle = []"
| "contains (c # cs) needle \<longleftrightarrow> take (length needle) (c # cs) = needle \<or> contains cs needle"

text \<open>Why a connection was closed, by the text of the error, if there was one.\<close>

definition disconnect_reason :: "string option \<Rightarrow> string" where
  "disconnect_reason cause =
     (case cause of
        None \<Rightarrow> ''remote_close''
      | Some err \<Rightarrow>
          (let err_str = map to_lower err
           in if contains err_str ''timeout'' \<or> contains err_str ''timedout'' \<or> contains err_str ''keepalive''
              then ''timeout''
              else if contains err_str ''reset'' \<or> contains err_str ''connectionreset'' then ''remote_close''
              else ''error''))"

definition dial_result :: "string \<Rightarrow> string" where
  "dial_result error = (if contains (map to_lower error) ''timed out'' then ''timeout'' else ''error'')"

section \<open>The gauge of connected peers\<close>

lemma label_value_add [simp]:
  "label_value (label_add k d m) k' = (if k' = k then label_value m k + d else label_value m k')"
  by (simp add: label_value_def label_add_def)

lemma resolve_updates [simp]:
  "resolve (m\<lparr>pm_connected_peers := g\<rparr>) = resolve m" "resolve (m\<lparr>pm_connection_events := e\<rparr>) = resolve m"
  "resolve (m\<lparr>pm_disconnection_events := d\<rparr>) = resolve m"
  by (simp_all add: resolve_def fun_eq_iff)

text \<open>The gauges count the given peers by their resolved names.\<close>

definition counts_peers :: "p2p_metrics \<Rightarrow> peer_id list \<Rightarrow> bool" where
  "counts_peers m peers \<longleftrightarrow>
     (\<forall>name. label_value (pm_connected_peers m) name =
        word_of_nat (length (filter (\<lambda>p. resolve m (Some p) = name) peers)))"

lemma dial_result_no_success [simp]: "dial_result e \<noteq> ''success''"
  by (simp add: dial_result_def)

lemma counts_peers_connected:
  assumes "counts_peers m peers" and "p \<notin> set peers"
  shows "counts_peers (notify_peer_connected (Some p) d ''success'' m) (p # peers)"
  using assms by (auto simp: counts_peers_def notify_peer_connected_def Let_def)

lemma counts_peers_failed:
  "counts_peers m peers \<Longrightarrow> res \<noteq> ''success'' \<Longrightarrow> counts_peers (notify_peer_connected p d res m) peers"
  by (auto simp: counts_peers_def notify_peer_connected_def)

lemma length_filter_removeAll:
  "distinct xs \<Longrightarrow> x \<in> set xs \<Longrightarrow>
     length (filter P xs) = length (filter P (removeAll x xs)) + (if P x then 1 else 0)"
proof (induction xs)
  case (Cons y xs)
  then show ?case by (cases "y = x") simp_all
qed simp

lemma counts_peers_disconnected:
  assumes "counts_peers m peers" and "distinct peers" and "p \<in> set peers"
  shows "counts_peers (notify_peer_disconnected (Some p) d r m) (removeAll p peers)"
proof -
  let ?m = "notify_peer_disconnected (Some p) d r m"
  have r: "resolve ?m = resolve m" by (simp add: notify_peer_disconnected_def Let_def)
  have "label_value (pm_connected_peers ?m) name =
      word_of_nat (length (filter (\<lambda>q. resolve m (Some q) = name) (removeAll p peers)))" for name
    using assms(1) length_filter_removeAll [OF assms(2,3), of "\<lambda>q. resolve m (Some q) = name"]
    unfolding counts_peers_def notify_peer_disconnected_def Let_def by auto
  then show ?thesis unfolding counts_peers_def r by blast
qed

lemma counts_peers_new: "counts_peers (p2p_metrics_new\<lparr>pm_name_registry := reg\<rparr>) []"
  by (simp add: counts_peers_def p2p_metrics_new_def label_value_def)

lemma counts_peers_subnet [simp]:
  "counts_peers (set_attestation_committee_subnet n m) peers = counts_peers m peers"
  by (simp add: counts_peers_def set_attestation_committee_subnet_def resolve_def)

end
