(* ===== verification/Swarm.thy ===== *)
theory Swarm
  imports Gossip Peer_Metrics
begin

text \<open>
  The construction of the libp2p swarm and the parsing of bootnode records
  (\<open>build_swarm\<close> and \<open>parse_enrs\<close> of \<open>crates/net/p2p/src/lib.rs\<close>). The swarm is its identity, its
  configuration and the list of the calls it was given; whether a call succeeds, and what the
  libraries for keys, addresses and node records compute, are parameters.
\<close>

section \<open>Bootnodes\<close>

type_synonym u16 = "16 word"

datatype ip_addr = V4 "32 word" | V6 "128 word"

type_synonym socket_addr = "ip_addr \<times> u16"

record bootnode =
  bn_ip :: ip_addr
  bn_quic_port :: u16
  bn_public_key :: bytes

text \<open>Base64, RLP decoding of node records and of their values, and the check of public keys.\<close>

record enr_library =
  en_base64 :: "bytes \<Rightarrow> bytes"
  en_node_record :: "bytes \<Rightarrow> (bytes \<times> bytes) list option"
  en_h264 :: "bytes \<Rightarrow> bytes option"
  en_public_key :: "bytes \<Rightarrow> bytes option"
  en_u16 :: "bytes \<Rightarrow> u16 option"
  en_ipv4 :: "bytes \<Rightarrow> 32 word option"
  en_ipv6 :: "bytes \<Rightarrow> 128 word option"

text \<open>The address under a key, if there is one; a present address must decode.\<close>

definition record_ip ::
  "(bytes \<Rightarrow> 'a option) \<Rightarrow> ('a \<Rightarrow> ip_addr) \<Rightarrow> (bytes \<times> bytes) list \<Rightarrow> string \<Rightarrow> (ip_addr option, unit) result" where
  "record_ip decode ip pairs key =
     (case map_of pairs (string_bytes key) of
        None \<Rightarrow> Ok None
      | Some bytes \<Rightarrow> bind_res (expect (decode bytes)) (\<lambda>a. Ok (Some (ip a))))"

definition parse_enr :: "enr_library \<Rightarrow> string \<Rightarrow> (bootnode, unit) result" where
  "parse_enr N enr_str =
     (if length (string_bytes enr_str) < 4 then Panic
      else
        bind_res (expect (en_node_record N (en_base64 N (drop 4 (string_bytes enr_str))))) (\<lambda>pairs.
        bind_res (expect (map_of pairs (string_bytes ''quic''))) (\<lambda>quic_port_bytes.
        bind_res (expect (map_of pairs (string_bytes ''secp256k1''))) (\<lambda>public_key_rlp.
        bind_res (expect (en_h264 N public_key_rlp)) (\<lambda>public_key_bytes.
        bind_res (expect (en_public_key N public_key_bytes)) (\<lambda>public_key.
        bind_res (expect (en_u16 N quic_port_bytes)) (\<lambda>quic_port.
        bind_res (record_ip (en_ipv4 N) V4 pairs ''ip'') (\<lambda>ipv4.
        bind_res (record_ip (en_ipv6 N) V6 pairs ''ip6'') (\<lambda>ipv6.
        bind_res (expect (case ipv4 of Some ip \<Rightarrow> Some ip | None \<Rightarrow> ipv6)) (\<lambda>ip.
          Ok \<lparr>bn_ip = ip, bn_quic_port = quic_port, bn_public_key = public_key\<rparr>))))))))))"

definition parse_enrs :: "enr_library \<Rightarrow> string list \<Rightarrow> (bootnode list, unit) result" where
  "parse_enrs N enrs = map_res (parse_enr N) enrs"

section \<open>The swarm\<close>

record gossipsub_config =
  gs_mesh_n :: nat
  gs_mesh_n_low :: nat
  gs_mesh_n_high :: nat
  gs_gossip_lazy :: nat
  gs_heartbeat_interval_ms :: nat
  gs_fanout_ttl_secs :: nat
  gs_history_length :: nat
  gs_history_gossip :: nat
  gs_duplicate_cache_time_secs :: nat
  gs_max_transmit_size :: nat
  gs_max_messages_per_rpc :: "nat option"
  gs_allow_self_origin :: bool
  gs_idontwant_message_size_threshold :: nat

definition gossipsub_config :: gossipsub_config where
  "gossipsub_config =
     \<lparr>gs_mesh_n = 8, gs_mesh_n_low = 6, gs_mesh_n_high = 12, gs_gossip_lazy = 6,
      gs_heartbeat_interval_ms = 700, gs_fanout_ttl_secs = 60, gs_history_length = 6, gs_history_gossip = 3,
      gs_duplicate_cache_time_secs = 4 * 3 * 2, gs_max_transmit_size = MAX_COMPRESSED_PAYLOAD_SIZE,
      gs_max_messages_per_rpc = Some 500, gs_allow_self_origin = True,
      gs_idontwant_message_size_threshold = 1000\<rparr>"

datatype swarm_call = DialCall string | ListenOn string | Subscribe string

record swarm =
  sw_local_peer_id :: peer_id
  sw_gossipsub :: gossipsub_config
  sw_protocols :: "string list"
  sw_calls :: "swarm_call list"

text \<open>
  What is taken from libp2p: the peer id of a secret key, if it is valid, and of a public key, the
  QUIC address of a socket, that address with a peer id, which configurations are valid, and which
  calls succeed.
\<close>

record libp2p =
  lp_identity :: "bytes \<Rightarrow> peer_id option"
  lp_peer_id :: "bytes \<Rightarrow> peer_id"
  lp_quic_addr :: "ip_addr \<Rightarrow> u16 \<Rightarrow> string"
  lp_with_p2p :: "string \<Rightarrow> peer_id \<Rightarrow> string option"
  lp_valid_config :: "gossipsub_config \<Rightarrow> bool"
  lp_accepts :: "swarm_call \<Rightarrow> bool"

record swarm_config =
  swc_node_key :: bytes
  swc_bootnodes :: "bootnode list"
  swc_listening_socket :: socket_addr
  swc_validator_id :: "u64 option"
  swc_attestation_committee_count :: u64
  swc_is_aggregator :: bool

record built_swarm =
  bsw_swarm :: swarm
  bsw_attestation_topic :: string
  bsw_block_topic :: string
  bsw_aggregation_topic :: string
  bsw_bootnode_addrs :: "(peer_id \<times> string) list"

definition swarm_new :: "libp2p \<Rightarrow> bytes \<Rightarrow> (swarm, unit) result" where
  "swarm_new L node_key =
     (if \<not> lp_valid_config L gossipsub_config then Panic
      else bind_res (expect (lp_identity L node_key)) (\<lambda>local_peer_id.
        Ok \<lparr>sw_local_peer_id = local_peer_id, sw_gossipsub = gossipsub_config,
            sw_protocols = [STATUS_PROTOCOL_V1, BLOCKS_BY_ROOT_PROTOCOL_V1], sw_calls = []\<rparr>))"

text \<open>A call on the swarm: \<open>None\<close> if the library refuses it.\<close>

definition swarm_do :: "libp2p \<Rightarrow> swarm_call \<Rightarrow> swarm \<Rightarrow> swarm option" where
  "swarm_do L call sw = (if lp_accepts L call then Some (sw\<lparr>sw_calls := sw_calls sw @ [call]\<rparr>) else None)"

definition bootnode_addr :: "libp2p \<Rightarrow> bootnode \<Rightarrow> (string, unit) result" where
  "bootnode_addr L bn =
     expect (lp_with_p2p L (lp_quic_addr L (bn_ip bn) (bn_quic_port bn)) (lp_peer_id L (bn_public_key bn)))"

definition dial_bootnode ::
  "libp2p \<Rightarrow> bootnode \<Rightarrow> swarm \<times> (peer_id \<times> string) list \<Rightarrow> (swarm \<times> (peer_id \<times> string) list, unit) result" where
  "dial_bootnode L bn = (\<lambda>(sw, bootnode_addrs).
     (let peer_id = lp_peer_id L (bn_public_key bn)
      in if peer_id = sw_local_peer_id sw then Ok (sw, bootnode_addrs)
         else bind_res (bootnode_addr L bn) (\<lambda>addr.
              bind_res (expect (swarm_do L (DialCall addr) sw)) (\<lambda>sw'.
                Ok (sw', AList.update peer_id addr bootnode_addrs)))))"

text \<open>The subnet of the first validator; taking it modulo a count of zero panics.\<close>

definition checked_subnet :: "u64 option \<Rightarrow> u64 \<Rightarrow> (u64, unit) result" where
  "checked_subnet validator_id attestation_committee_count =
     (if validator_id \<noteq> None \<and> attestation_committee_count = 0 then Panic
      else Ok (attestation_subnet validator_id attestation_committee_count))"

definition build_swarm ::
  "libp2p \<Rightarrow> swarm_config \<Rightarrow> p2p_metrics \<Rightarrow> (built_swarm \<times> p2p_metrics, unit) result" where
  "build_swarm L config m =
     bind_res (swarm_new L (swc_node_key config)) (\<lambda>sw0.
     bind_res (fold_res (dial_bootnode L) (swc_bootnodes config) (sw0, [])) (\<lambda>(sw1, bootnode_addrs).
     bind_res (expect (swarm_do L (ListenOn (case swc_listening_socket config of (ip, port) \<Rightarrow> lp_quic_addr L ip port)) sw1))
       (\<lambda>sw2.
     let block_topic = topic_of_kind BLOCK_TOPIC_KIND in
     bind_res (expect (swarm_do L (Subscribe block_topic) sw2)) (\<lambda>sw3.
     let aggregation_topic = topic_of_kind AGGREGATION_TOPIC_KIND in
     bind_res (expect (swarm_do L (Subscribe aggregation_topic) sw3)) (\<lambda>sw4.
     bind_res (checked_subnet (swc_validator_id config) (swc_attestation_committee_count config)) (\<lambda>subnet_id.
     let attestation_topic = topic_of_kind (attestation_topic_kind subnet_id) in
     bind_res (if swc_is_aggregator config then ok_or (swarm_do L (Subscribe attestation_topic) sw4) () else Ok sw4)
       (\<lambda>sw5.
       Ok (\<lparr>bsw_swarm = sw5, bsw_attestation_topic = attestation_topic, bsw_block_topic = block_topic,
            bsw_aggregation_topic = aggregation_topic, bsw_bootnode_addrs = bootnode_addrs\<rparr>,
           set_attestation_committee_subnet subnet_id m))))))))"

section \<open>Properties\<close>

text \<open>The bootnodes that are dialed with their addresses, and what the libraries must accept for a configuration.\<close>

definition dialed :: "libp2p \<Rightarrow> peer_id \<Rightarrow> bootnode list \<Rightarrow> (peer_id \<times> string) list" where
  "dialed L me bns = List.map_filter (\<lambda>bn.
     if lp_peer_id L (bn_public_key bn) = me then None
     else map_option (Pair (lp_peer_id L (bn_public_key bn))) (ok_value (bootnode_addr L bn))) bns"

definition swarm_calls_of :: "libp2p \<Rightarrow> swarm_config \<Rightarrow> peer_id \<Rightarrow> swarm_call list" where
  "swarm_calls_of L config me =
     map (\<lambda>(_, addr). DialCall addr) (dialed L me (swc_bootnodes config)) @
     [ListenOn (case swc_listening_socket config of (ip, port) \<Rightarrow> lp_quic_addr L ip port)] @
     map Subscribe (subscriptions (swc_validator_id config) (swc_attestation_committee_count config)
       (swc_is_aggregator config))"

definition buildable :: "libp2p \<Rightarrow> swarm_config \<Rightarrow> peer_id \<Rightarrow> bool" where
  "buildable L config me \<longleftrightarrow>
     lp_valid_config L gossipsub_config \<and> lp_identity L (swc_node_key config) = Some me \<and>
     list_all (\<lambda>bn. lp_peer_id L (bn_public_key bn) = me \<or> (\<exists>addr. bootnode_addr L bn = Ok addr)) (swc_bootnodes config) \<and>
     list_all (lp_accepts L) (swarm_calls_of L config me) \<and>
     (swc_validator_id config = None \<or> swc_attestation_committee_count config \<noteq> 0)"

lemma dial_bootnode_cases:
  "lp_peer_id L (bn_public_key bn) = sw_local_peer_id sw \<Longrightarrow> dial_bootnode L bn (sw, addrs) = Ok (sw, addrs)"
  "lp_peer_id L (bn_public_key bn) \<noteq> sw_local_peer_id sw \<Longrightarrow> dial_bootnode L bn (sw, addrs) =
     bind_res (bootnode_addr L bn) (\<lambda>addr.
       if lp_accepts L (DialCall addr)
       then Ok (sw\<lparr>sw_calls := sw_calls sw @ [DialCall addr]\<rparr>, AList.update (lp_peer_id L (bn_public_key bn)) addr addrs)
       else Panic)"
  by (cases "bootnode_addr L bn"; simp add: dial_bootnode_def swarm_do_def Let_def)+

lemma dialed_Nil [simp]: "dialed L me [] = []"
  by (simp add: dialed_def map_filter_simps)

lemma dialed_Cons [simp]:
  "dialed L me (bn # bns) =
     (if lp_peer_id L (bn_public_key bn) = me then []
      else case ok_value (bootnode_addr L bn) of None \<Rightarrow> [] | Some addr \<Rightarrow> [(lp_peer_id L (bn_public_key bn), addr)]) @
     dialed L me bns"
  by (simp add: dialed_def map_filter_simps split: option.splits)

lemma dial_bootnodes:
  assumes "list_all (\<lambda>bn. lp_peer_id L (bn_public_key bn) = sw_local_peer_id sw \<or> (\<exists>addr. bootnode_addr L bn = Ok addr)) bns"
    and "list_all (\<lambda>(_, addr). lp_accepts L (DialCall addr)) (dialed L (sw_local_peer_id sw) bns)"
  shows "fold_res (dial_bootnode L) bns (sw, addrs) =
    Ok (sw\<lparr>sw_calls := sw_calls sw @ map (\<lambda>(_, addr). DialCall addr) (dialed L (sw_local_peer_id sw) bns)\<rparr>,
        fold (\<lambda>(p, addr). AList.update p addr) (dialed L (sw_local_peer_id sw) bns) addrs)"
  using assms
  by (induction bns arbitrary: sw addrs)
    (auto simp: dial_bootnode_cases)

text \<open>
  With a library that accepts them, exactly these calls are made: every bootnode but the node itself is
  dialed, then the node listens, then it subscribes to its topics.
\<close>

lemma build_swarm_run:
  assumes "buildable L config me"
  shows "build_swarm L config m =
    Ok (\<lparr>bsw_swarm = \<lparr>sw_local_peer_id = me, sw_gossipsub = gossipsub_config,
           sw_protocols = [STATUS_PROTOCOL_V1, BLOCKS_BY_ROOT_PROTOCOL_V1], sw_calls = swarm_calls_of L config me\<rparr>,
         bsw_attestation_topic = topic_of_kind (attestation_topic_kind
           (attestation_subnet (swc_validator_id config) (swc_attestation_committee_count config))),
         bsw_block_topic = topic_of_kind BLOCK_TOPIC_KIND, bsw_aggregation_topic = topic_of_kind AGGREGATION_TOPIC_KIND,
         bsw_bootnode_addrs = collect_map (dialed L me (swc_bootnodes config))\<rparr>,
        set_attestation_committee_subnet
          (attestation_subnet (swc_validator_id config) (swc_attestation_committee_count config)) m)"
proof -
  let ?sw = "\<lparr>sw_local_peer_id = me, sw_gossipsub = gossipsub_config,
    sw_protocols = [STATUS_PROTOCOL_V1, BLOCKS_BY_ROOT_PROTOCOL_V1], sw_calls = []\<rparr>"
  have d: "fold_res (dial_bootnode L) (swc_bootnodes config) (?sw, []) =
    Ok (?sw\<lparr>sw_calls := map (\<lambda>(_, addr). DialCall addr) (dialed L me (swc_bootnodes config))\<rparr>,
        collect_map (dialed L me (swc_bootnodes config)))"
  proof -
    have "list_all (\<lambda>(_, addr). lp_accepts L (DialCall addr)) (dialed L me (swc_bootnodes config))"
      using assms by (fastforce simp: buildable_def swarm_calls_of_def list_all_iff)
    then show ?thesis
      using assms dial_bootnodes [of L ?sw "swc_bootnodes config" "[]"]
      by (simp add: buildable_def collect_map_def)
  qed
  from assms show ?thesis
    by (cases "swc_is_aggregator config")
      (auto simp: build_swarm_def swarm_new_def d swarm_do_def checked_subnet_def buildable_def swarm_calls_of_def
        subscriptions_def Let_def outcome_simps)
qed

text \<open>Conversely a swarm is only built when every call succeeded.\<close>

lemma dial_bootnodes_Ok:
  assumes "fold_res (dial_bootnode L) bns (sw, addrs) = Ok r"
  shows "list_all (\<lambda>bn. lp_peer_id L (bn_public_key bn) = sw_local_peer_id sw \<or> (\<exists>addr. bootnode_addr L bn = Ok addr)) bns \<and>
    list_all (\<lambda>(_, addr). lp_accepts L (DialCall addr)) (dialed L (sw_local_peer_id sw) bns)"
  using assms
proof (induction bns arbitrary: sw addrs)
  case (Cons bn bns)
  show ?case
  proof (cases "lp_peer_id L (bn_public_key bn) = sw_local_peer_id sw")
    case True
    with Cons show ?thesis by (auto simp: dial_bootnode_cases)
  next
    case False
    with Cons.prems obtain addr where a: "bootnode_addr L bn = Ok addr" "lp_accepts L (DialCall addr)"
      "fold_res (dial_bootnode L) bns (sw\<lparr>sw_calls := sw_calls sw @ [DialCall addr]\<rparr>,
         AList.update (lp_peer_id L (bn_public_key bn)) addr addrs) = Ok r"
      by (auto simp: dial_bootnode_cases outcome_simps split: if_splits)
    from Cons.IH [OF a(3)] a(1,2) False show ?thesis by auto
  qed
qed simp

lemma build_swarm_Ok:
  assumes "build_swarm L config m = Ok r"
  shows "\<exists>me. buildable L config me"
proof -
  from assms obtain me where me: "lp_valid_config L gossipsub_config" "lp_identity L (swc_node_key config) = Some me"
    by (auto simp: build_swarm_def swarm_new_def outcome_simps split: if_splits)
  let ?sw = "\<lparr>sw_local_peer_id = me, sw_gossipsub = gossipsub_config,
    sw_protocols = [STATUS_PROTOCOL_V1, BLOCKS_BY_ROOT_PROTOCOL_V1], sw_calls = []\<rparr>"
  from assms me obtain sw1 addrs where
    f: "fold_res (dial_bootnode L) (swc_bootnodes config) (?sw, []) = Ok (sw1, addrs)"
    by (auto simp: build_swarm_def swarm_new_def outcome_simps)
  from dial_bootnodes_Ok [OF this] have d:
    "list_all (\<lambda>bn. lp_peer_id L (bn_public_key bn) = me \<or> (\<exists>addr. bootnode_addr L bn = Ok addr)) (swc_bootnodes config)"
    "list_all (\<lambda>(_, addr). lp_accepts L (DialCall addr)) (dialed L me (swc_bootnodes config))" by simp_all
  from assms me f have "lp_accepts L (ListenOn (case swc_listening_socket config of (ip, port) \<Rightarrow> lp_quic_addr L ip port))"
    and "list_all (lp_accepts L) (map Subscribe (subscriptions (swc_validator_id config)
      (swc_attestation_committee_count config) (swc_is_aggregator config)))"
    and "swc_validator_id config = None \<or> swc_attestation_committee_count config \<noteq> 0"
    by (auto simp: build_swarm_def swarm_new_def swarm_do_def checked_subnet_def subscriptions_def Let_def outcome_simps
        split: if_splits)
  with me d show ?thesis by (auto simp: buildable_def swarm_calls_of_def list_all_iff)
qed

text \<open>The topics of a built swarm and those it subscribed to.\<close>

definition topics_subscribed :: "built_swarm \<Rightarrow> string set" where
  "topics_subscribed b = {topic. Subscribe topic \<in> set (sw_calls (bsw_swarm b))}"

lemma build_swarm_topics:
  assumes "build_swarm L config m = Ok (b, m')"
  shows "bsw_block_topic b = topic_of_kind BLOCK_TOPIC_KIND \<and>
    bsw_aggregation_topic b = topic_of_kind AGGREGATION_TOPIC_KIND \<and>
    bsw_attestation_topic b = topic_of_kind (attestation_topic_kind
      (attestation_subnet (swc_validator_id config) (swc_attestation_committee_count config))) \<and>
    topics_subscribed b = set (subscriptions (swc_validator_id config) (swc_attestation_committee_count config)
      (swc_is_aggregator config))"
proof -
  from build_swarm_Ok [OF assms] obtain me where "buildable L config me" by blast
  from build_swarm_run [OF this, of m] assms show ?thesis
    by (auto simp: topics_subscribed_def swarm_calls_of_def)
qed

section \<open>An example\<close>

definition demo_libp2p :: libp2p where
  "demo_libp2p =
     \<lparr>lp_identity = (\<lambda>key. if key = [] then None else Some 1), lp_peer_id = length,
      lp_quic_addr = (\<lambda>ip port. ''addr''), lp_with_p2p = (\<lambda>addr peer. Some (addr @ ''/'' @ decimal peer)),
      lp_valid_config = (\<lambda>c. gs_mesh_n_low c \<le> gs_mesh_n c \<and> gs_mesh_n c \<le> gs_mesh_n_high c \<and>
        gs_history_gossip c \<le> gs_history_length c), lp_accepts = (\<lambda>_. True)\<rparr>"

definition demo_swarm_config :: swarm_config where
  "demo_swarm_config =
     \<lparr>swc_node_key = [9], swc_bootnodes = [\<lparr>bn_ip = V4 1, bn_quic_port = 9001, bn_public_key = [1, 2]\<rparr>],
      swc_listening_socket = (V4 0, 9000), swc_validator_id = None, swc_attestation_committee_count = 1,
      swc_is_aggregator = True\<rparr>"

lemma demo_buildable: "buildable demo_libp2p demo_swarm_config 1"
  by (simp add: buildable_def demo_libp2p_def demo_swarm_config_def gossipsub_config_def bootnode_addr_def list_all_iff)

text \<open>The swarm that is built and the metrics after it.\<close>

definition demo_built :: "built_swarm \<times> p2p_metrics" where
  "demo_built = the (ok_value (build_swarm demo_libp2p demo_swarm_config p2p_metrics_new))"

lemma demo_build: "build_swarm demo_libp2p demo_swarm_config p2p_metrics_new = Ok demo_built"
  using build_swarm_run [OF demo_buildable, of p2p_metrics_new] by (simp add: demo_built_def)

lemma demo_build_split:
  "build_swarm demo_libp2p demo_swarm_config p2p_metrics_new = Ok (fst demo_built, snd demo_built)"
  by (simp add: demo_build)

end
