(* ===== verification/P2P_Server.thy ===== *)
theory P2P_Server
  imports Swarm
begin

text \<open>
  The P2P actor (\<open>crates/net/p2p/src/lib.rs\<close> and \<open>crates/net/p2p/src/req_resp/handlers.rs\<close>): peers,
  gossip, status and block requests, and the bookkeeping of block fetches with their retries. The
  swarm is the list of the commands it was given, the blockchain actor the list of the messages sent
  to it, and timers the list of messages to the actor itself with their delays in milliseconds. The
  random choice of a peer and the request id the swarm assigns are inputs.
\<close>

section \<open>State\<close>

type_synonym request_id = nat

definition MAX_FETCH_RETRIES :: u32 where
  "MAX_FETCH_RETRIES = 10"

definition INITIAL_BACKOFF_MS :: u64 where
  "INITIAL_BACKOFF_MS = 5"

definition BACKOFF_MULTIPLIER :: u64 where
  "BACKOFF_MULTIPLIER = 2"

definition PEER_REDIAL_INTERVAL_SECS :: u64 where
  "PEER_REDIAL_INTERVAL_SECS = 12"

record pending_request =
  pr_attempts :: u32
  pr_failed_peers :: "peer_id list"

datatype swarm_command = Publish string bytes | Dial string
  | SendRequest peer_id request string | SendResponse nat response

datatype p2p_timer = RetryBlockFetch H256 | RetryPeerRedial peer_id

record p2p_server =
  ps_swarm :: "swarm_command list"
  ps_store :: store
  ps_blockchain :: "server_message list option"
  ps_attestation_topic :: string
  ps_block_topic :: string
  ps_aggregation_topic :: string
  ps_connected_peers :: "peer_id list"
  ps_pending_requests :: "(H256 \<times> pending_request) list"
  ps_request_id_map :: "(request_id \<times> H256) list"
  ps_bootnode_addrs :: "(peer_id \<times> string) list"
  ps_timers :: "(u64 \<times> p2p_timer) list"
  ps_metrics :: p2p_metrics

text \<open>What a handler takes from outside: a random element of a list, and the id of a request it sends.\<close>

record outside =
  out_choose :: "peer_id list \<Rightarrow> peer_id option"
  out_request_id :: "request_id option"

text \<open>The metrics are global; their state at start-up is an argument.\<close>

definition p2p_spawn :: "built_swarm \<Rightarrow> store \<Rightarrow> p2p_metrics \<Rightarrow> p2p_server" where
  "p2p_spawn built s m =
     \<lparr>ps_swarm = [], ps_store = s, ps_blockchain = None,
      ps_attestation_topic = bsw_attestation_topic built, ps_block_topic = bsw_block_topic built,
      ps_aggregation_topic = bsw_aggregation_topic built,
      ps_connected_peers = [], ps_pending_requests = [], ps_request_id_map = [],
      ps_bootnode_addrs = bsw_bootnode_addrs built, ps_timers = [], ps_metrics = m\<rparr>"

definition command :: "swarm_command \<Rightarrow> p2p_server \<Rightarrow> p2p_server" where
  "command c sv = sv\<lparr>ps_swarm := ps_swarm sv @ [c]\<rparr>"

definition send_after :: "u64 \<Rightarrow> p2p_timer \<Rightarrow> p2p_server \<Rightarrow> p2p_server" where
  "send_after delay m sv = sv\<lparr>ps_timers := ps_timers sv @ [(delay, m)]\<rparr>"

definition forward :: "server_message \<Rightarrow> p2p_server \<Rightarrow> p2p_server" where
  "forward m sv = (case ps_blockchain sv of None \<Rightarrow> sv | Some ms \<Rightarrow> sv\<lparr>ps_blockchain := Some (ms @ [m])\<rparr>)"

section \<open>Fetching blocks\<close>

definition fetch_pool :: "p2p_server \<Rightarrow> H256 \<Rightarrow> peer_id list" where
  "fetch_pool sv root =
     (let failed = (case map_of (ps_pending_requests sv) root of None \<Rightarrow> [] | Some p \<Rightarrow> pr_failed_peers p)
      in if failed = [] then ps_connected_peers sv
         else filter (\<lambda>p. p \<notin> set failed) (ps_connected_peers sv))"

definition clear_failed :: "H256 \<Rightarrow> p2p_server \<Rightarrow> p2p_server" where
  "clear_failed root sv =
     (case map_of (ps_pending_requests sv) root of
        None \<Rightarrow> sv
      | Some p \<Rightarrow> sv\<lparr>ps_pending_requests :=
                      AList.update root (p\<lparr>pr_failed_peers := []\<rparr>) (ps_pending_requests sv)\<rparr>)"

definition fetch_block_from_peer :: "outside \<Rightarrow> p2p_server \<Rightarrow> H256 \<Rightarrow> p2p_server \<times> bool" where
  "fetch_block_from_peer X sv root =
     (if ps_connected_peers sv = [] then (sv, False)
      else
        (let (sv1, pool) = (if fetch_pool sv root = [] then (clear_failed root sv, ps_connected_peers sv)
                            else (sv, fetch_pool sv root))
         in case out_choose X pool of
              None \<Rightarrow> (sv1, False)
            | Some peer \<Rightarrow>
                (case out_request_id X of
                   None \<Rightarrow> (sv1, False)
                 | Some request_id \<Rightarrow>
                     (let sv2 = command (SendRequest peer (BlocksByRootRequest [root]) BLOCKS_BY_ROOT_PROTOCOL_V1) sv1
                      in (sv2\<lparr>ps_pending_requests :=
                                or_insert root \<lparr>pr_attempts = 1, pr_failed_peers = []\<rparr> (ps_pending_requests sv2),
                              ps_request_id_map := AList.update request_id root (ps_request_id_map sv2)\<rparr>, True)))))"

definition handle_fetch_failure :: "H256 \<Rightarrow> peer_id \<Rightarrow> p2p_server \<Rightarrow> p2p_server" where
  "handle_fetch_failure root peer sv =
     (case map_of (ps_pending_requests sv) root of
        None \<Rightarrow> sv
      | Some p \<Rightarrow>
          (let failed = (if peer \<in> set (pr_failed_peers p) then pr_failed_peers p else peer # pr_failed_peers p)
           in if pr_attempts p \<ge> MAX_FETCH_RETRIES
              then sv\<lparr>ps_pending_requests := AList.delete root (ps_pending_requests sv)\<rparr>
              else send_after (INITIAL_BACKOFF_MS * BACKOFF_MULTIPLIER ^ unat (pr_attempts p - 1))
                     (RetryBlockFetch root)
                     (sv\<lparr>ps_pending_requests := AList.update root
                           \<lparr>pr_attempts = pr_attempts p + 1, pr_failed_peers = failed\<rparr> (ps_pending_requests sv)\<rparr>)))"

definition accept_fetched_block ::
  "hashing \<Rightarrow> H256 \<Rightarrow> signed_block_with_attestation \<Rightarrow> p2p_server \<Rightarrow> p2p_server" where
  "accept_fetched_block H requested_root block sv =
     (if h_block H (bwa_block (sb_message block)) \<noteq> requested_root then sv
      else forward (NewBlock block)
             (sv\<lparr>ps_pending_requests :=
                   AList.delete (h_block H (bwa_block (sb_message block))) (ps_pending_requests sv)\<rparr>))"

definition handle_blocks_by_root_response ::
  "hashing \<Rightarrow> signed_block_with_attestation list \<Rightarrow> peer_id \<Rightarrow> request_id \<Rightarrow> p2p_server \<Rightarrow> p2p_server" where
  "handle_blocks_by_root_response H blocks peer request_id sv =
     (case map_of (ps_request_id_map sv) request_id of
        None \<Rightarrow> sv
      | Some requested_root \<Rightarrow>
          (let sv1 = sv\<lparr>ps_request_id_map := AList.delete request_id (ps_request_id_map sv)\<rparr>
           in if blocks = []
              then handle_fetch_failure requested_root peer
                     (sv1\<lparr>ps_request_id_map := AList.update request_id requested_root (ps_request_id_map sv1)\<rparr>)
              else fold (accept_fetched_block H requested_root) blocks sv1))"

section \<open>Requests of others\<close>

definition build_status :: "store \<Rightarrow> (status, unit) result" where
  "build_status s =
     bind_res (expect (get_block_header s (s_head s))) (\<lambda>header.
       Ok \<lparr>stt_finalized = s_latest_finalized s,
           stt_head = \<lparr>cp_root = s_head s, cp_slot = hdr_slot header\<rparr>\<rparr>)"

definition handle_status_request :: "nat \<Rightarrow> p2p_server \<Rightarrow> (p2p_server, unit) result" where
  "handle_status_request channel sv =
     bind_res (build_status (ps_store sv)) (\<lambda>our_status.
       Ok (command (SendResponse channel (Success (StatusPayload our_status))) sv))"

definition handle_blocks_by_root_request :: "hashing \<Rightarrow> H256 list \<Rightarrow> nat \<Rightarrow> p2p_server \<Rightarrow> p2p_server" where
  "handle_blocks_by_root_request H roots channel sv =
     command (SendResponse channel
       (Success (BlocksByRootPayload (List.map_filter (get_signed_block H (ps_store sv)) roots)))) sv"

datatype req_resp_event = RequestMessage peer_id request nat
  | ResponseMessage peer_id request_id response
  | OutboundFailure peer_id request_id | InboundFailure peer_id | ResponseSent peer_id

fun handle_req_resp_message :: "hashing \<Rightarrow> req_resp_event \<Rightarrow> p2p_server \<Rightarrow> (p2p_server, unit) result" where
  "handle_req_resp_message H (RequestMessage peer (StatusRequest st) channel) sv = handle_status_request channel sv"
| "handle_req_resp_message H (RequestMessage peer (BlocksByRootRequest roots) channel) sv =
     Ok (handle_blocks_by_root_request H roots channel sv)"
| "handle_req_resp_message H (ResponseMessage peer request_id (Success (StatusPayload st))) sv = Ok sv"
| "handle_req_resp_message H (ResponseMessage peer request_id (Success (BlocksByRootPayload blocks))) sv =
     Ok (handle_blocks_by_root_response H blocks peer request_id sv)"
| "handle_req_resp_message H (ResponseMessage peer request_id (ErrorResponse code message)) sv = Ok sv"
| "handle_req_resp_message H (OutboundFailure peer request_id) sv =
     Ok (case map_of (ps_request_id_map sv) request_id of
           None \<Rightarrow> sv
         | Some root \<Rightarrow>
             handle_fetch_failure root peer
               (sv\<lparr>ps_request_id_map := AList.delete request_id (ps_request_id_map sv)\<rparr>))"
| "handle_req_resp_message H (InboundFailure peer) sv = Ok sv"
| "handle_req_resp_message H (ResponseSent peer) sv = Ok sv"

section \<open>Events of the swarm\<close>

datatype swarm_event = ReqResp req_resp_event | GossipMessage string bytes
  | ConnectionEstablished peer_id bool nat | ConnectionClosed peer_id bool nat "string option"
  | OutgoingConnectionError "peer_id option" string | IncomingConnectionError "peer_id option" | OtherEvent

definition measure_peers :: "(p2p_metrics \<Rightarrow> p2p_metrics) \<Rightarrow> p2p_server \<Rightarrow> p2p_server" where
  "measure_peers f sv = sv\<lparr>ps_metrics := f (ps_metrics sv)\<rparr>"

definition handle_gossipsub_message :: "gossip_codec \<Rightarrow> string \<Rightarrow> bytes \<Rightarrow> p2p_server \<Rightarrow> p2p_server" where
  "handle_gossipsub_message G topic data sv =
     (case gossip_message G topic data of None \<Rightarrow> sv | Some m \<Rightarrow> forward m sv)"

definition schedule_redial :: "peer_id \<Rightarrow> p2p_server \<Rightarrow> p2p_server" where
  "schedule_redial peer sv = send_after (PEER_REDIAL_INTERVAL_SECS * 1000) (RetryPeerRedial peer) sv"

fun handle_swarm_event :: "hashing \<Rightarrow> gossip_codec \<Rightarrow> outside \<Rightarrow> swarm_event \<Rightarrow> p2p_server \<Rightarrow> (p2p_server, unit) result" where
  "handle_swarm_event H G X (ReqResp e) sv = handle_req_resp_message H e sv"
| "handle_swarm_event H G X (GossipMessage topic data) sv = Ok (handle_gossipsub_message G topic data sv)"
| "handle_swarm_event H G X (ConnectionEstablished peer is_dialer num_established) sv =
     (if num_established = 1
      then
        (let sv1 = measure_peers (notify_peer_connected (Some peer) (connection_direction is_dialer) ''success'')
                     (sv\<lparr>ps_connected_peers := List.insert peer (ps_connected_peers sv)\<rparr>)
         in bind_res (build_status (ps_store sv1)) (\<lambda>our_status.
              Ok (case out_request_id X of
                    None \<Rightarrow> sv1
                  | Some _ \<Rightarrow> command (SendRequest peer (StatusRequest our_status) STATUS_PROTOCOL_V1) sv1)))
      else Ok sv)"
| "handle_swarm_event H G X (ConnectionClosed peer is_dialer num_established cause) sv =
     Ok (if num_established = 0
         then
           (let sv1 = measure_peers
                        (notify_peer_disconnected (Some peer) (connection_direction is_dialer) (disconnect_reason cause))
                        (sv\<lparr>ps_connected_peers := removeAll peer (ps_connected_peers sv)\<rparr>)
            in if map_of (ps_bootnode_addrs sv1) peer \<noteq> None then schedule_redial peer sv1 else sv1)
         else sv)"
| "handle_swarm_event H G X (OutgoingConnectionError peer_id error) sv =
     (let sv1 = measure_peers (notify_peer_connected peer_id ''outbound'' (dial_result error)) sv
      in Ok (case peer_id of
               None \<Rightarrow> sv1
             | Some pid \<Rightarrow>
                 if map_of (ps_bootnode_addrs sv1) pid \<noteq> None \<and> pid \<notin> set (ps_connected_peers sv1)
                 then schedule_redial pid sv1 else sv1))"
| "handle_swarm_event H G X (IncomingConnectionError peer_id) sv =
     Ok (measure_peers (notify_peer_connected peer_id ''inbound'' ''error'') sv)"
| "handle_swarm_event H G X OtherEvent sv = Ok sv"

section \<open>Messages to the actor\<close>

definition publish_block :: "gossip_codec \<Rightarrow> signed_block_with_attestation \<Rightarrow> p2p_server \<Rightarrow> p2p_server" where
  "publish_block G signed_block sv = command (Publish (ps_block_topic sv) (encode_gossip G (gc_block G) signed_block)) sv"

definition publish_attestation :: "gossip_codec \<Rightarrow> signed_attestation \<Rightarrow> p2p_server \<Rightarrow> p2p_server" where
  "publish_attestation G attestation sv =
     command (Publish (ps_attestation_topic sv) (encode_gossip G (gc_attestation G) attestation)) sv"

definition publish_aggregated_attestation ::
  "gossip_codec \<Rightarrow> signed_aggregated_attestation \<Rightarrow> p2p_server \<Rightarrow> p2p_server" where
  "publish_aggregated_attestation G attestation sv =
     command (Publish (ps_aggregation_topic sv) (encode_gossip G (gc_aggregation G) attestation)) sv"

definition handle_fetch_block :: "outside \<Rightarrow> H256 \<Rightarrow> p2p_server \<Rightarrow> p2p_server" where
  "handle_fetch_block X root sv =
     (if map_of (ps_pending_requests sv) root \<noteq> None then sv else fst (fetch_block_from_peer X sv root))"

definition handle_retry_block_fetch :: "outside \<Rightarrow> H256 \<Rightarrow> p2p_server \<Rightarrow> p2p_server" where
  "handle_retry_block_fetch X root sv =
     (if map_of (ps_pending_requests sv) root = None then sv
      else
        (case fetch_block_from_peer X sv root of
           (sv1, sent) \<Rightarrow>
             if sent then sv1
             else sv1\<lparr>ps_pending_requests := AList.delete root (ps_pending_requests sv1)\<rparr>))"

definition handle_retry_peer_redial :: "peer_id \<Rightarrow> p2p_server \<Rightarrow> p2p_server" where
  "handle_retry_peer_redial peer sv =
     (if peer \<in> set (ps_connected_peers sv) then sv
      else case map_of (ps_bootnode_addrs sv) peer of None \<Rightarrow> sv | Some addr \<Rightarrow> command (Dial addr) sv)"

datatype p2p_event = SwarmEvent swarm_event | InitBlockChain | Message p2p_message | Timer p2p_timer

fun p2p_handle :: "hashing \<Rightarrow> gossip_codec \<Rightarrow> outside \<Rightarrow> p2p_event \<Rightarrow> p2p_server \<Rightarrow> (p2p_server, unit) result" where
  "p2p_handle H G X (SwarmEvent e) sv = handle_swarm_event H G X e sv"
| "p2p_handle H G X InitBlockChain sv = Ok (sv\<lparr>ps_blockchain := Some []\<rparr>)"
| "p2p_handle H G X (Message (PublishBlock block)) sv = Ok (publish_block G block sv)"
| "p2p_handle H G X (Message (PublishAttestation attestation)) sv = Ok (publish_attestation G attestation sv)"
| "p2p_handle H G X (Message (PublishAggregatedAttestation attestation)) sv =
     Ok (publish_aggregated_attestation G attestation sv)"
| "p2p_handle H G X (Message (FetchBlock root)) sv = Ok (handle_fetch_block X root sv)"
| "p2p_handle H G X (Timer (RetryBlockFetch root)) sv = Ok (handle_retry_block_fetch X root sv)"
| "p2p_handle H G X (Timer (RetryPeerRedial peer)) sv = Ok (handle_retry_peer_redial peer sv)"

end
