(* ===== verification/P2P_Properties.thy ===== *)
theory P2P_Properties
  imports P2P_Server Chain_Properties
begin

text \<open>
  What the P2P actor guarantees: fetches are retried a bounded number of times with bounded delays
  and then given up, peers that failed are avoided as long as others are connected, only blocks
  with the requested root are passed on, and published messages reach the blockchain actor of the
  nodes that subscribe to the topic.
\<close>

section \<open>Fetch bookkeeping\<close>

definition fetch_ok :: "p2p_server \<Rightarrow> bool" where
  "fetch_ok sv \<longleftrightarrow>
     (\<forall>root p. map_of (ps_pending_requests sv) root = Some p \<longrightarrow> 1 \<le> unat (pr_attempts p) \<and> unat (pr_attempts p) \<le> 10) \<and>
     (\<forall>d root. (d, RetryBlockFetch root) \<in> set (ps_timers sv) \<longrightarrow> (\<exists>k < 9. d = 5 * 2 ^ k))"

text \<open>What is fixed when the actor is spawned.\<close>

definition topics_of :: "p2p_server \<Rightarrow> string \<times> string \<times> string \<times> (peer_id \<times> string) list" where
  "topics_of sv = (ps_block_topic sv, ps_aggregation_topic sv, ps_attestation_topic sv, ps_bootnode_addrs sv)"

lemma max_fetch_retries: "pr_attempts p \<ge> MAX_FETCH_RETRIES \<longleftrightarrow> 10 \<le> unat (pr_attempts p)"
  by (simp add: MAX_FETCH_RETRIES_def word_le_nat_alt)

definition add_failed :: "peer_id \<Rightarrow> peer_id list \<Rightarrow> peer_id list" where
  "add_failed peer failed = (if peer \<in> set failed then failed else peer # failed)"

text \<open>The two outcomes of a failure: another attempt after a delay, or giving up.\<close>

lemma handle_fetch_failure_retry:
  assumes "map_of (ps_pending_requests sv) root = Some p" and "1 \<le> unat (pr_attempts p)" "unat (pr_attempts p) < 10"
  shows "handle_fetch_failure root peer sv =
      sv\<lparr>ps_pending_requests := AList.update root
           \<lparr>pr_attempts = pr_attempts p + 1, pr_failed_peers = add_failed peer (pr_failed_peers p)\<rparr> (ps_pending_requests sv),
         ps_timers := ps_timers sv @ [(5 * 2 ^ (unat (pr_attempts p) - 1), RetryBlockFetch root)]\<rparr>"
    and "unat (pr_attempts p + 1) = unat (pr_attempts p) + 1"
proof -
  have dn: "unat (pr_attempts p - 1) = unat (pr_attempts p) - 1" using assms(2) by (simp add: unat_sub word_le_nat_alt)
  have "\<not> pr_attempts p \<ge> MAX_FETCH_RETRIES" using assms(3) by (simp add: MAX_FETCH_RETRIES_def word_le_nat_alt)
  with assms(1) dn show "handle_fetch_failure root peer sv =
      sv\<lparr>ps_pending_requests := AList.update root
           \<lparr>pr_attempts = pr_attempts p + 1, pr_failed_peers = add_failed peer (pr_failed_peers p)\<rparr> (ps_pending_requests sv),
         ps_timers := ps_timers sv @ [(5 * 2 ^ (unat (pr_attempts p) - 1), RetryBlockFetch root)]\<rparr>"
    by (simp add: handle_fetch_failure_def add_failed_def send_after_def INITIAL_BACKOFF_MS_def BACKOFF_MULTIPLIER_def)
  show "unat (pr_attempts p + 1) = unat (pr_attempts p) + 1" using assms(3) by (simp add: unat_word_ariths)
qed

lemma handle_fetch_failure_stop:
  assumes "map_of (ps_pending_requests sv) root = Some p" and "10 \<le> unat (pr_attempts p)"
  shows "handle_fetch_failure root peer sv =
    sv\<lparr>ps_pending_requests := AList.delete root (ps_pending_requests sv)\<rparr>"
  using assms unfolding max_fetch_retries [symmetric] by (simp add: handle_fetch_failure_def)

lemma fetch_ok_delete: "fetch_ok sv \<Longrightarrow> fetch_ok (sv\<lparr>ps_pending_requests := AList.delete root (ps_pending_requests sv)\<rparr>)"
  by (auto simp: fetch_ok_def delete_conv split: if_splits)

lemma handle_fetch_failure_ok:
  assumes "fetch_ok sv"
  shows "fetch_ok (handle_fetch_failure root peer sv)"
proof (cases "map_of (ps_pending_requests sv) root")
  case None
  with assms show ?thesis by (simp add: handle_fetch_failure_def)
next
  case (Some p)
  with assms have a: "1 \<le> unat (pr_attempts p)" "unat (pr_attempts p) \<le> 10" by (auto simp: fetch_ok_def)
  show ?thesis
  proof (cases "10 \<le> unat (pr_attempts p)")
    case True
    with fetch_ok_delete [OF assms] show ?thesis by (simp add: handle_fetch_failure_stop [OF Some])
  next
    case False
    then have "unat (pr_attempts p) < 10" by simp
    note r = handle_fetch_failure_retry [OF Some a(1) this]
    have "\<exists>k < 9. (5 :: u64) * 2 ^ (unat (pr_attempts p) - 1) = 5 * 2 ^ k"
      using a False by (intro exI [of _ "unat (pr_attempts p) - 1"]) auto
    then show ?thesis
      using assms a False unfolding r(1) fetch_ok_def by (auto simp: r(2) split: if_splits)
  qed
qed

lemma forward_fields [simp]:
  "ps_pending_requests (forward m sv) = ps_pending_requests sv" "ps_timers (forward m sv) = ps_timers sv"
  "ps_swarm (forward m sv) = ps_swarm sv" "topics_of (forward m sv) = topics_of sv"
  by (simp_all add: forward_def topics_of_def split: option.splits)

lemma fetch_block_from_peer_ok:
  assumes "fetch_ok sv"
  shows "fetch_ok (fst (fetch_block_from_peer X sv root))"
proof -
  have c: "fetch_ok (clear_failed root sv)"
    using assms by (auto simp: clear_failed_def fetch_ok_def split: option.splits if_splits)
  have o: "fetch_ok (sv1\<lparr>ps_swarm := x, ps_pending_requests := or_insert root \<lparr>pr_attempts = 1, pr_failed_peers = []\<rparr>
      (ps_pending_requests sv1), ps_request_id_map := y\<rparr>)" if "fetch_ok sv1" for sv1 x y
    using that by (auto simp: fetch_ok_def map_of_or_insert split: option.splits if_splits)
  show ?thesis
    using assms c o by (auto simp: fetch_block_from_peer_def Let_def command_def split: option.splits)
qed

lemma fetch_ok_maps [simp]:
  "fetch_ok (sv\<lparr>ps_request_id_map := m\<rparr>) = fetch_ok sv" "fetch_ok (sv\<lparr>ps_connected_peers := ps\<rparr>) = fetch_ok sv"
  "fetch_ok (sv\<lparr>ps_blockchain := bc\<rparr>) = fetch_ok sv" "fetch_ok (command c sv) = fetch_ok sv"
  "fetch_ok (schedule_redial peer sv) = fetch_ok sv" "fetch_ok (forward msg sv) = fetch_ok sv"
  "fetch_ok (measure_peers f sv) = fetch_ok sv"
  by (auto simp: fetch_ok_def command_def schedule_redial_def send_after_def measure_peers_def)

lemma accept_fetched_blocks_ok: "fetch_ok sv \<Longrightarrow> fetch_ok (fold (accept_fetched_block H root) bs sv)"
proof (induction bs arbitrary: sv)
  case (Cons b bs)
  have "fetch_ok (accept_fetched_block H root b sv)"
    using fetch_ok_delete [OF Cons.prems] by (simp add: accept_fetched_block_def Cons.prems)
  with Cons.IH show ?case by simp
qed simp

lemma handle_req_resp_message_ok:
  assumes "fetch_ok sv" and "handle_req_resp_message H e sv = Ok sv'"
  shows "fetch_ok sv'"
  using assms
  by (cases "(H, e, sv)" rule: handle_req_resp_message.cases)
    (auto simp: handle_status_request_def handle_blocks_by_root_request_def handle_blocks_by_root_response_def
      Let_def outcome_simps intro!: handle_fetch_failure_ok accept_fetched_blocks_ok split: option.splits if_splits)

lemma handle_swarm_event_ok:
  assumes "fetch_ok sv" and "handle_swarm_event H G X e sv = Ok sv'"
  shows "fetch_ok sv'"
  using assms handle_req_resp_message_ok
  by (cases "(H, G, X, e, sv)" rule: handle_swarm_event.cases)
    (auto simp: handle_gossipsub_message_def Let_def outcome_simps split: option.splits if_splits)

lemma p2p_handle_ok:
  assumes "fetch_ok sv" and "p2p_handle H G X e sv = Ok sv'"
  shows "fetch_ok sv'"
proof (cases "(H, G, X, e, sv)" rule: p2p_handle.cases)
  case (1 H G X e sv)
  with assms handle_swarm_event_ok show ?thesis by auto
next
  case (7 H G X root sv)
  have "fetch_ok (fst (fetch_block_from_peer X sv root))" using assms 7 fetch_block_from_peer_ok by simp
  with assms 7 fetch_ok_delete [OF this, of root] show ?thesis
    by (cases "fetch_block_from_peer X sv root") (auto simp: handle_retry_block_fetch_def split: if_splits)
qed (use assms in \<open>auto simp: publish_block_def publish_attestation_def publish_aggregated_attestation_def
      handle_fetch_block_def handle_retry_peer_redial_def fetch_block_from_peer_ok split: if_splits option.splits\<close>)

section \<open>Retries\<close>

text \<open>Further failures of a pending fetch while attempts are left.\<close>

lemma fetch_failures:
  assumes "map_of (ps_pending_requests sv) root = Some p" and "unat (pr_attempts p) = a" and "1 \<le> a"
    and "a + length peers \<le> 10"
  shows "\<exists>p'. map_of (ps_pending_requests (fold (handle_fetch_failure root) peers sv)) root = Some p' \<and>
    unat (pr_attempts p') = a + length peers \<and>
    ps_timers (fold (handle_fetch_failure root) peers sv) =
      ps_timers sv @ map (\<lambda>k. (5 * 2 ^ k, RetryBlockFetch root)) [a - 1 ..< a - 1 + length peers]"
  using assms
proof (induction peers arbitrary: sv p a)
  case Nil
  then show ?case by simp
next
  case (Cons peer peers)
  have "1 \<le> unat (pr_attempts p)" "unat (pr_attempts p) < 10" using Cons.prems by simp_all
  note r = handle_fetch_failure_retry(1) [OF Cons.prems(1) this, of peer] handle_fetch_failure_retry(2) [OF Cons.prems(1) this]
  let ?sv = "handle_fetch_failure root peer sv"
  let ?p = "\<lparr>pr_attempts = pr_attempts p + 1, pr_failed_peers = add_failed peer (pr_failed_peers p)\<rparr>"
  have p: "map_of (ps_pending_requests ?sv) root = Some ?p" "unat (pr_attempts ?p) = a + 1"
    using Cons.prems(2) by (simp_all add: r)
  have t: "ps_timers ?sv = ps_timers sv @ [(5 * 2 ^ (a - 1), RetryBlockFetch root)]"
    using Cons.prems(2) by (simp add: r(1))
  from Cons.IH [OF p] Cons.prems(3,4) obtain p' where
    p': "map_of (ps_pending_requests (fold (handle_fetch_failure root) peers ?sv)) root = Some p'"
      "unat (pr_attempts p') = a + 1 + length peers"
      "ps_timers (fold (handle_fetch_failure root) peers ?sv) =
         ps_timers ?sv @ map (\<lambda>k. (5 * 2 ^ k, RetryBlockFetch root)) [a ..< a + length peers]" by auto
  have "[a - 1 ..< a - 1 + length (peer # peers)] = (a - 1) # [a ..< a + length peers]"
    using Cons.prems(3) by (subst upt_conv_Cons) auto
  with p' t show ?case by auto
qed

lemma fetch_gives_up:
  assumes "map_of (ps_pending_requests sv) root = Some p" and "unat (pr_attempts p) = a" and "1 \<le> a" and "a \<le> 10"
    and "length peers = 11 - a"
  shows "map_of (ps_pending_requests (fold (handle_fetch_failure root) peers sv)) root = None \<and>
    ps_timers (fold (handle_fetch_failure root) peers sv) =
      ps_timers sv @ map (\<lambda>k. (5 * 2 ^ k, RetryBlockFetch root)) [a - 1 ..< 9]"
proof -
  from assms(4,5) obtain qs q where pq: "peers = qs @ [q]" "length qs = 10 - a"
    by (cases peers rule: rev_cases) auto
  from fetch_failures [OF assms(1-3), of qs] pq(2) assms(3,4) obtain p' where
    p': "map_of (ps_pending_requests (fold (handle_fetch_failure root) qs sv)) root = Some p'"
      "unat (pr_attempts p') = 10"
      "ps_timers (fold (handle_fetch_failure root) qs sv) =
         ps_timers sv @ map (\<lambda>k. (5 * 2 ^ k, RetryBlockFetch root)) [a - 1 ..< 9]" by auto
  from handle_fetch_failure_stop [OF p'(1), of q] p'(2,3) show ?thesis by (simp add: pq delete_conv)
qed

text \<open>
  A fetch asks a connected peer, and one that failed before only if every connected peer did. The
  choice may be any function that picks an element of a list.
\<close>

lemma fetch_asks_fresh_peer:
  assumes "fetch_block_from_peer X sv root = (sv', True)"
    and "\<And>ps p. out_choose X ps = Some p \<Longrightarrow> p \<in> set ps"
  shows "\<exists>peer. ps_swarm sv' = ps_swarm sv @ [SendRequest peer (BlocksByRootRequest [root]) BLOCKS_BY_ROOT_PROTOCOL_V1] \<and>
    peer \<in> set (ps_connected_peers sv) \<and>
    (\<forall>p. map_of (ps_pending_requests sv) root = Some p \<longrightarrow>
       peer \<notin> set (pr_failed_peers p) \<or> set (ps_connected_peers sv) \<subseteq> set (pr_failed_peers p))"
proof -
  have pool: "set (fetch_pool sv root) = {q \<in> set (ps_connected_peers sv).
      \<forall>p. map_of (ps_pending_requests sv) root = Some p \<longrightarrow> q \<notin> set (pr_failed_peers p)}"
    by (auto simp: fetch_pool_def Let_def split: option.splits if_splits)
  have cl: "ps_swarm (clear_failed root sv) = ps_swarm sv" by (simp add: clear_failed_def split: option.splits)
  show ?thesis
  proof (cases "fetch_pool sv root = []")
    case True
    then have "\<forall>p. map_of (ps_pending_requests sv) root = Some p \<longrightarrow> set (ps_connected_peers sv) \<subseteq> set (pr_failed_peers p)"
      using pool by auto
    with True assms cl show ?thesis
      by (fastforce simp: fetch_block_from_peer_def Let_def command_def split: if_splits option.splits)
  next
    case False
    from False assms obtain peer where "peer \<in> set (fetch_pool sv root)"
      "ps_swarm sv' = ps_swarm sv @ [SendRequest peer (BlocksByRootRequest [root]) BLOCKS_BY_ROOT_PROTOCOL_V1]"
      by (auto simp: fetch_block_from_peer_def Let_def command_def split: if_splits option.splits)
    with pool show ?thesis by blast
  qed
qed

section \<open>Fetched blocks\<close>

text \<open>Only blocks with the requested root are passed on, and they settle the fetch.\<close>

lemma accept_fetched_blocks:
  assumes "ps_blockchain sv = Some ms"
  shows "ps_blockchain (fold (accept_fetched_block H root) bs sv) =
      Some (ms @ map NewBlock (filter (\<lambda>b. h_block H (bwa_block (sb_message b)) = root) bs))"
    and "ps_timers (fold (accept_fetched_block H root) bs sv) = ps_timers sv"
    and "map_of (ps_pending_requests (fold (accept_fetched_block H root) bs sv)) =
      (if \<exists>b \<in> set bs. h_block H (bwa_block (sb_message b)) = root
       then (map_of (ps_pending_requests sv))(root := None) else map_of (ps_pending_requests sv))"
  using assms
  by (induction bs arbitrary: sv ms)
    (simp_all add: accept_fetched_block_def forward_def delete_conv')

text \<open>
  A response with blocks of other roots only ends the request without a retry: the fetch stays
  pending with no request and no timer, and later requests for the block are ignored as duplicates.
\<close>

lemma mismatched_response_blocks_fetch:
  assumes "map_of (ps_request_id_map sv) rid = Some root" and "map_of (ps_pending_requests sv) root = Some p"
    and "bs \<noteq> []" and "\<forall>b \<in> set bs. h_block H (bwa_block (sb_message b)) \<noteq> root"
    and "ps_blockchain sv = Some ms"
    and "handle_req_resp_message H (ResponseMessage peer rid (Success (BlocksByRootPayload bs))) sv = Ok sv'"
  shows "map_of (ps_pending_requests sv') root = Some p \<and> ps_timers sv' = ps_timers sv \<and>
    map_of (ps_request_id_map sv') rid = None \<and> handle_fetch_block X root sv' = sv'"
proof -
  let ?sv = "sv\<lparr>ps_request_id_map := AList.delete rid (ps_request_id_map sv)\<rparr>"
  have sv': "sv' = fold (accept_fetched_block H root) bs ?sv"
    using assms(1,3,6) by (simp add: handle_blocks_by_root_response_def Let_def)
  have id: "ps_request_id_map (fold (accept_fetched_block H root) cs x) = ps_request_id_map x" for cs x
    by (induction cs arbitrary: x) (simp_all add: accept_fetched_block_def forward_def split: option.splits)
  note a = accept_fetched_blocks [of ?sv ms H root bs]
  show ?thesis
    using a assms(2,4,5) by (simp add: sv' id delete_conv handle_fetch_block_def)
qed

lemma fetch_block_sends:
  assumes new: "map_of (ps_pending_requests a) root = None" and peers: "ps_connected_peers a \<noteq> []"
    and choose: "\<forall>ps. ps \<noteq> [] \<longrightarrow> (\<exists>p \<in> set ps. out_choose X ps = Some p)" and rid: "out_request_id X = Some rid"
  shows "\<exists>peer \<in> set (ps_connected_peers a).
    handle_fetch_block X root a =
      (command (SendRequest peer (BlocksByRootRequest [root]) BLOCKS_BY_ROOT_PROTOCOL_V1) a)\<lparr>ps_pending_requests :=
         or_insert root \<lparr>pr_attempts = 1, pr_failed_peers = []\<rparr> (ps_pending_requests a),
       ps_request_id_map := AList.update rid root (ps_request_id_map a)\<rparr>"
proof -
  from choose peers obtain peer where p: "peer \<in> set (ps_connected_peers a)"
    "out_choose X (ps_connected_peers a) = Some peer" by blast
  have "fetch_pool a root = ps_connected_peers a" using new by (simp add: fetch_pool_def)
  with p new peers rid show ?thesis
    by (auto simp: handle_fetch_block_def fetch_block_from_peer_def Let_def command_def)
qed

section \<open>Reachable servers\<close>

text \<open>Events arrive in any order; a timer fires once.\<close>

inductive p2p_event_step :: "hashing \<Rightarrow> gossip_codec \<Rightarrow> p2p_event \<Rightarrow> p2p_server \<Rightarrow> p2p_server \<Rightarrow> bool" for H G where
  event: "(\<And>t. e \<noteq> Timer t) \<Longrightarrow> p2p_handle H G X e sv = Ok sv' \<Longrightarrow> p2p_event_step H G e sv sv'"
| timer: "(d, t) \<in> set (ps_timers sv) \<Longrightarrow>
    p2p_handle H G X (Timer t) (sv\<lparr>ps_timers := remove1 (d, t) (ps_timers sv)\<rparr>) = Ok sv' \<Longrightarrow>
    p2p_event_step H G (Timer t) sv sv'"

definition p2p_step :: "hashing \<Rightarrow> gossip_codec \<Rightarrow> p2p_server \<Rightarrow> p2p_server \<Rightarrow> bool" where
  "p2p_step H G sv sv' \<longleftrightarrow> (\<exists>e. p2p_event_step H G e sv sv')"

lemma p2p_event_step_ok: "p2p_event_step H G e sv sv' \<Longrightarrow> fetch_ok sv \<Longrightarrow> fetch_ok sv'"
proof (induction rule: p2p_event_step.induct)
  case (event e X sv sv')
  then show ?case using p2p_handle_ok by blast
next
  case (timer d t sv X sv')
  have "fetch_ok (sv\<lparr>ps_timers := remove1 (d, t) (ps_timers sv)\<rparr>)"
    using timer.prems by (auto simp: fetch_ok_def dest!: subsetD [OF set_remove1_subset])
  with timer.hyps p2p_handle_ok show ?case by blast
qed

text \<open>Topics and bootnodes are fixed when the actor is spawned.\<close>

lemma topics_simps [simp]:
  "topics_of (command c sv) = topics_of sv" "topics_of (send_after d m sv) = topics_of sv"
  "topics_of (sv\<lparr>ps_request_id_map := ids\<rparr>) = topics_of sv" "topics_of (sv\<lparr>ps_pending_requests := ps\<rparr>) = topics_of sv"
  "topics_of (sv\<lparr>ps_connected_peers := cs\<rparr>) = topics_of sv" "topics_of (sv\<lparr>ps_blockchain := bc\<rparr>) = topics_of sv"
  "topics_of (sv\<lparr>ps_timers := ts\<rparr>) = topics_of sv" "topics_of (schedule_redial peer sv) = topics_of sv"
  "topics_of (measure_peers f sv) = topics_of sv"
  by (simp_all add: topics_of_def command_def send_after_def schedule_redial_def measure_peers_def)

lemma topics_fetch [simp]: "topics_of (handle_fetch_failure root peer sv) = topics_of sv"
  "topics_of (fst (fetch_block_from_peer X sv root)) = topics_of sv"
  "topics_of (fold (accept_fetched_block H root) bs sv) = topics_of sv"
proof -
  show "topics_of (handle_fetch_failure root peer sv) = topics_of sv"
    by (simp add: handle_fetch_failure_def Let_def split: option.splits)
  show "topics_of (fst (fetch_block_from_peer X sv root)) = topics_of sv"
    by (simp add: fetch_block_from_peer_def Let_def clear_failed_def topics_of_def command_def split: option.splits)
  show "topics_of (fold (accept_fetched_block H root) bs sv) = topics_of sv"
    by (induction bs arbitrary: sv) (simp_all add: accept_fetched_block_def)
qed

lemma handle_req_resp_topics: "handle_req_resp_message H e sv = Ok sv' \<Longrightarrow> topics_of sv' = topics_of sv"
  by (cases "(H, e, sv)" rule: handle_req_resp_message.cases)
    (auto simp: handle_status_request_def handle_blocks_by_root_request_def handle_blocks_by_root_response_def
      Let_def outcome_simps split: option.splits if_splits)

lemma p2p_handle_topics:
  assumes "p2p_handle H G X e sv = Ok sv'"
  shows "topics_of sv' = topics_of sv"
proof (cases "(H, G, X, e, sv)" rule: p2p_handle.cases)
  case (1 H G X e sv)
  with assms handle_req_resp_topics show ?thesis
    by (cases "(H, G, X, e, sv)" rule: handle_swarm_event.cases)
      (auto simp: handle_gossipsub_message_def Let_def outcome_simps split: option.splits if_splits)
next
  case (7 H G X root sv)
  with assms topics_fetch(2) [of X sv root] show ?thesis
    by (cases "fetch_block_from_peer X sv root") (auto simp: handle_retry_block_fetch_def split: if_splits)
qed (use assms in \<open>auto simp: publish_block_def publish_attestation_def publish_aggregated_attestation_def
      handle_fetch_block_def handle_retry_peer_redial_def split: if_splits option.splits\<close>)

lemma p2p_reachable:
  assumes "(p2p_step H G)\<^sup>*\<^sup>* (p2p_spawn b0 s m0) sv"
  shows "fetch_ok sv" and "topics_of sv = topics_of (p2p_spawn b0 s m0)"
proof -
  show "fetch_ok sv"
    using assms
  proof induction
    case base
    show ?case by (simp add: fetch_ok_def p2p_spawn_def)
  qed (auto simp: p2p_step_def intro: p2p_event_step_ok)
  show "topics_of sv = topics_of (p2p_spawn b0 s m0)"
    using assms
  proof induction
    case (step y z)
    from step.hyps(2) have "topics_of z = topics_of y"
      by (auto simp: p2p_step_def elim!: p2p_event_step.cases dest: p2p_handle_topics)
    with step.IH show ?case by simp
  qed simp
qed

section \<open>Properties\<close>

text \<open>The delays in milliseconds that the comment at \<open>MAX_FETCH_RETRIES\<close> lists.\<close>

definition documented_delays :: "u64 list" where
  "documented_delays = [5, 10, 20, 40, 80, 160, 320, 640, 1280, 2560]"

lemma documented_delays_nth: "k < 9 \<Longrightarrow> documented_delays ! k = 5 * 2 ^ k"
  by (auto simp: documented_delays_def less_Suc_eq numeral_eq_Suc)

lemma more_failures_none:
  "map_of (ps_pending_requests sv) root = None \<Longrightarrow>
     map_of (ps_pending_requests (fold (handle_fetch_failure root) peers sv)) root = None"
  by (induction peers arbitrary: sv) (simp_all add: handle_fetch_failure_def)

lemma enough_failures:
  assumes "map_of (ps_pending_requests sv) root = Some p" and "1 \<le> unat (pr_attempts p)" and "unat (pr_attempts p) \<le> 10"
    and "10 < length peers"
  shows "map_of (ps_pending_requests (fold (handle_fetch_failure root) peers sv)) root = None"
proof -
  let ?n = "11 - unat (pr_attempts p)"
  have "map_of (ps_pending_requests (fold (handle_fetch_failure root) (take ?n peers) sv)) root = None"
    using fetch_gives_up [OF assms(1) refl assms(2,3), of "take ?n peers"] assms(2,4) by simp
  from more_failures_none [OF this, of "drop ?n peers"] show ?thesis
    by (metis append_take_drop_id fold_append o_apply)
qed

text \<open>
  C30. Block fetches end. In every state the P2P actor can reach, a pending fetch has made between
  one and \<open>MAX_FETCH_RETRIES\<close> attempts. When attempt \<open>a\<close> below that bound fails, one retry is
  scheduled, with the \<open>a\<close>-th of the delays that the comment at the constant lists (5 ms, 10 ms, and so
  on, doubling), and the fetch has made one attempt more. The delay of every scheduled retry is in
  that list, and more than \<open>MAX_FETCH_RETRIES\<close> failures leave nothing pending: the block may be asked
  for anew. (The list has ten delays; what becomes of the last one is the content of
  \<open>fetch_gives_up\<close> and differs from what the comment suggests.)
\<close>

theorem block_fetch_gives_up:
  assumes "(p2p_step H G)\<^sup>*\<^sup>* (p2p_spawn b0 s m0) sv"
  shows "(\<forall>d root. (d, RetryBlockFetch root) \<in> set (ps_timers sv) \<longrightarrow> d \<in> set documented_delays) \<and>
    (\<forall>root p. map_of (ps_pending_requests sv) root = Some p \<longrightarrow>
      1 \<le> pr_attempts p \<and> pr_attempts p \<le> MAX_FETCH_RETRIES \<and>
      (pr_attempts p < MAX_FETCH_RETRIES \<longrightarrow> (\<forall>peer.
        ps_timers (handle_fetch_failure root peer sv) =
          ps_timers sv @ [(documented_delays ! (unat (pr_attempts p) - 1), RetryBlockFetch root)] \<and>
        map_option pr_attempts (map_of (ps_pending_requests (handle_fetch_failure root peer sv)) root) =
          Some (pr_attempts p + 1))) \<and>
      (\<forall>peers. unat MAX_FETCH_RETRIES < length peers \<longrightarrow>
        map_of (ps_pending_requests (fold (handle_fetch_failure root) peers sv)) root = None))"
proof -
  have ok: "fetch_ok sv" by (rule p2p_reachable [OF assms])
  have "d \<in> set documented_delays" if "(d, RetryBlockFetch root) \<in> set (ps_timers sv)" for d root
  proof -
    from that ok obtain k where k: "k < 9" "d = 5 * 2 ^ k" unfolding fetch_ok_def by blast
    then have "k < length documented_delays" by (simp add: documented_delays_def)
    with k documented_delays_nth [OF k(1)] show ?thesis by (metis nth_mem)
  qed
  moreover have "1 \<le> pr_attempts p \<and> pr_attempts p \<le> MAX_FETCH_RETRIES \<and>
      (pr_attempts p < MAX_FETCH_RETRIES \<longrightarrow> (\<forall>peer.
        ps_timers (handle_fetch_failure root peer sv) =
          ps_timers sv @ [(documented_delays ! (unat (pr_attempts p) - 1), RetryBlockFetch root)] \<and>
        map_option pr_attempts (map_of (ps_pending_requests (handle_fetch_failure root peer sv)) root) =
          Some (pr_attempts p + 1))) \<and>
      (\<forall>peers. unat MAX_FETCH_RETRIES < length peers \<longrightarrow>
        map_of (ps_pending_requests (fold (handle_fetch_failure root) peers sv)) root = None)"
    if p: "map_of (ps_pending_requests sv) root = Some p" for root p
  proof (intro conjI impI allI)
    from p ok have a: "1 \<le> unat (pr_attempts p)" "unat (pr_attempts p) \<le> 10" by (auto simp: fetch_ok_def)
    then show "1 \<le> pr_attempts p" "pr_attempts p \<le> MAX_FETCH_RETRIES"
      by (simp_all add: word_le_nat_alt MAX_FETCH_RETRIES_def)
    fix peer
    assume "pr_attempts p < MAX_FETCH_RETRIES"
    then have "unat (pr_attempts p) < 10" by (simp add: word_less_nat_alt MAX_FETCH_RETRIES_def)
    note r = handle_fetch_failure_retry(1) [OF p a(1) this, of peer] documented_delays_nth [of "unat (pr_attempts p) - 1"]
    with \<open>unat (pr_attempts p) < 10\<close> a(1) show "ps_timers (handle_fetch_failure root peer sv) =
        ps_timers sv @ [(documented_delays ! (unat (pr_attempts p) - 1), RetryBlockFetch root)]"
      "map_option pr_attempts (map_of (ps_pending_requests (handle_fetch_failure root peer sv)) root) =
        Some (pr_attempts p + 1)" by simp_all
  next
    fix peers :: "peer_id list"
    assume "unat MAX_FETCH_RETRIES < length peers"
    with enough_failures [OF p] ok p
    show "map_of (ps_pending_requests (fold (handle_fetch_failure root) peers sv)) root = None"
      by (auto simp: fetch_ok_def MAX_FETCH_RETRIES_def)
  qed
  ultimately show ?thesis by blast
qed

theorem block_fetch_gives_up_witness:
  "\<exists>G sv p. (p2p_step demo_hashing G)\<^sup>*\<^sup>* (p2p_spawn (fst demo_built) demo_store (snd demo_built)) sv \<and>
     map_of (ps_pending_requests sv) 42 = Some p \<and>
     ps_timers (handle_fetch_failure 42 7 sv) = ps_timers sv @ [(5, RetryBlockFetch 42)] \<and>
     map_of (ps_pending_requests (fold (handle_fetch_failure 42) (replicate 11 7) sv)) 42 = None"
proof -
  fix G :: gossip_codec
  let ?X = "\<lparr>out_choose = (\<lambda>ps. case ps of [] \<Rightarrow> None | p # _ \<Rightarrow> Some p), out_request_id = Some 1\<rparr>"
  let ?sv0 = "p2p_spawn (fst demo_built) demo_store (snd demo_built)"
  have "get_block_header demo_store 2000 \<noteq> None" by (simp add: get_block_header_def demo_store_defs demo_defs)
  then obtain st where st: "build_status demo_store = Ok st"
    by (auto simp: build_status_def demo_store_fields)
  define sv1 where "sv1 = command (SendRequest 7 (StatusRequest st) STATUS_PROTOCOL_V1) 
    (measure_peers (notify_peer_connected (Some 7) ''outbound'' ''success'') (?sv0\<lparr>ps_connected_peers := [7]\<rparr>))"
  define sv2 where "sv2 = handle_fetch_block ?X 42 sv1"
  have "p2p_step demo_hashing G ?sv0 sv1"
    unfolding p2p_step_def
    by (rule exI, rule p2p_event_step.event [of "SwarmEvent (ConnectionEstablished 7 True 1)" demo_hashing G ?X])
      (use st in \<open>simp_all add: sv1_def p2p_spawn_def measure_peers_def connection_direction_def\<close>)
  moreover have "p2p_step demo_hashing G sv1 sv2"
    unfolding p2p_step_def
    by (rule exI, rule p2p_event_step.event [of "Message (FetchBlock 42)" demo_hashing G ?X]) (simp_all add: sv2_def)
  ultimately have r: "(p2p_step demo_hashing G)\<^sup>*\<^sup>* ?sv0 sv2" by auto
  have p: "map_of (ps_pending_requests sv2) 42 = Some \<lparr>pr_attempts = 1, pr_failed_peers = []\<rparr>"
    by (simp add: sv2_def sv1_def handle_fetch_block_def fetch_block_from_peer_def fetch_pool_def p2p_spawn_def
        measure_peers_def command_def Let_def map_of_or_insert)
  note b = block_fetch_gives_up [OF r, THEN conjunct2, THEN spec, THEN spec, THEN mp, OF p]
  have "unat MAX_FETCH_RETRIES < length (replicate 11 (7 :: nat))" by (simp add: MAX_FETCH_RETRIES_def)
  with b have "map_of (ps_pending_requests (fold (handle_fetch_failure 42) (replicate 11 7) sv2)) 42 = None" by blast
  moreover have "ps_timers (handle_fetch_failure 42 7 sv2) = ps_timers sv2 @ [(5, RetryBlockFetch 42)]"
    using b by (simp add: MAX_FETCH_RETRIES_def documented_delays_def)
  ultimately show ?thesis using r p by blast
qed

text \<open>
  A message to the sender makes it publish on the topic, and the published data, once received,
  reaches the blockchain actor of the receiver as the given message.
\<close>

definition delivers ::
  "hashing \<Rightarrow> gossip_codec \<Rightarrow> p2p_server \<Rightarrow> p2p_server \<Rightarrow> p2p_message \<Rightarrow> string \<Rightarrow> server_message \<Rightarrow> bool" where
  "delivers H G sender receiver out topic m \<longleftrightarrow>
     (\<forall>X Y. \<exists>sv data sv'. p2p_handle H G X (Message out) sender = Ok sv \<and>
        ps_swarm sv = ps_swarm sender @ [Publish topic data] \<and>
        p2p_handle H G Y (SwarmEvent (GossipMessage topic data)) receiver = Ok sv' \<and>
        ps_blockchain sv' = map_option (\<lambda>ms. ms @ [m]) (ps_blockchain receiver))"

lemma deliversI:
  assumes "\<And>X. p2p_handle H G X (Message out) sender = Ok (command (Publish topic data) sender)"
    and "gossip_message G topic data = Some m"
  shows "delivers H G sender receiver out topic m"
  using assms
  by (auto simp: delivers_def handle_gossipsub_message_def forward_def command_def split: option.splits)

text \<open>
  C29. Gossip reaches its readers. What an actor publishes, at any time after it was spawned, is
  passed on to the blockchain actor of a receiver as the same block, aggregate or attestation, and
  is on a topic that every node subscribes to when its swarm is built, attestations on one that the
  aggregators of the same subnet subscribe to.
\<close>

theorem gossip_delivered:
  assumes "build_swarm L config m = Ok (built, m0)" and "(p2p_step H G)\<^sup>*\<^sup>* (p2p_spawn built s m0) sender"
    and "build_swarm L' config' m' = Ok (built', m0')"
  shows "(deliverable G (gc_block G) b \<longrightarrow>
      (\<exists>topic \<in> topics_subscribed built'. delivers H G sender receiver (PublishBlock b) topic (NewBlock b))) \<and>
    (deliverable G (gc_aggregation G) ag \<longrightarrow>
      (\<exists>topic \<in> topics_subscribed built'.
         delivers H G sender receiver (PublishAggregatedAttestation ag) topic (NewAggregatedAttestation ag))) \<and>
    (deliverable G (gc_attestation G) sa \<and> swc_is_aggregator config' \<and>
     attestation_subnet (swc_validator_id config') (swc_attestation_committee_count config') =
       attestation_subnet (swc_validator_id config) (swc_attestation_committee_count config) \<longrightarrow>
      (\<exists>topic \<in> topics_subscribed built'.
         delivers H G sender receiver (PublishAttestation sa) topic (NewAttestation sa)))"
proof -
  let ?subnet = "attestation_subnet (swc_validator_id config) (swc_attestation_committee_count config)"
  from p2p_reachable(2) [OF assms(2)] build_swarm_topics [OF assms(1)]
  have t: "ps_block_topic sender = topic_of_kind BLOCK_TOPIC_KIND"
    "ps_aggregation_topic sender = topic_of_kind AGGREGATION_TOPIC_KIND"
    "ps_attestation_topic sender = topic_of_kind (attestation_topic_kind ?subnet)"
    by (simp_all add: topics_of_def p2p_spawn_def)
  have "delivers H G sender receiver (PublishBlock b) (topic_of_kind BLOCK_TOPIC_KIND) (NewBlock b)"
    if "deliverable G (gc_block G) b"
    by (rule deliversI [OF _ gossip_message_encode(1) [OF that]]) (simp add: publish_block_def t)
  moreover have "delivers H G sender receiver (PublishAggregatedAttestation ag) (topic_of_kind AGGREGATION_TOPIC_KIND)
      (NewAggregatedAttestation ag)" if "deliverable G (gc_aggregation G) ag"
    by (rule deliversI [OF _ gossip_message_encode(2) [OF that]]) (simp add: publish_aggregated_attestation_def t)
  moreover have "delivers H G sender receiver (PublishAttestation sa)
      (topic_of_kind (attestation_topic_kind ?subnet)) (NewAttestation sa)"
    if "deliverable G (gc_attestation G) sa"
    by (rule deliversI [OF _ gossip_message_encode(3) [OF that]]) (simp add: publish_attestation_def t)
  ultimately show ?thesis using build_swarm_topics [OF assms(3)] by (auto simp: subscriptions_def)
qed

definition demo_gossip :: "signed_block_with_attestation \<Rightarrow> signed_aggregated_attestation \<Rightarrow> signed_attestation \<Rightarrow> gossip_codec" where
  "demo_gossip b ag sa =
     \<lparr>gc_snappy = \<lparr>sr_compress = (\<lambda>x. x), sr_decompress_len = (\<lambda>x. Some (length x)), sr_decompress = Some\<rparr>,
      gc_block = demo_ssz b, gc_aggregation = demo_ssz ag, gc_attestation = demo_ssz sa\<rparr>"

theorem gossip_delivered_witness:
  "\<forall>b ag sa. \<exists>topic \<in> topics_subscribed (fst demo_built).
     delivers demo_hashing (demo_gossip b ag sa) (p2p_spawn (fst demo_built) demo_store (snd demo_built))
       ((p2p_spawn (fst demo_built) demo_store (snd demo_built))\<lparr>ps_blockchain := Some []\<rparr>) (PublishBlock b) topic (NewBlock b)"
proof (intro allI)
  fix b ag sa
  let ?G = "demo_gossip b ag sa"
  have "deliverable ?G (gc_block ?G) b"
    by (simp add: deliverable_def demo_gossip_def carries_def compresses_def demo_ssz_def MAX_PAYLOAD_SIZE_def)
  then show "\<exists>topic \<in> topics_subscribed (fst demo_built).
     delivers demo_hashing ?G (p2p_spawn (fst demo_built) demo_store (snd demo_built))
       ((p2p_spawn (fst demo_built) demo_store (snd demo_built))\<lparr>ps_blockchain := Some []\<rparr>) (PublishBlock b) topic (NewBlock b)"
    using gossip_delivered [OF demo_build_split rtranclp.rtrancl_refl demo_build_split] by blast
qed

end
