(* ===== verification/Peer_Properties.thy ===== *)
theory Peer_Properties
  imports P2P_Properties
begin

text \<open>
  Peers over the life of the P2P actor: the gauge of connected peers agrees with the set of
  connected peers, and a bootnode that was lost is dialed again.
\<close>

section \<open>What changes the peers\<close>

definition peers_of :: "p2p_server \<Rightarrow> peer_id list \<times> p2p_metrics" where
  "peers_of sv = (ps_connected_peers sv, ps_metrics sv)"

lemma peers_simps [simp]:
  "peers_of (command c sv) = peers_of sv" "peers_of (send_after d t sv) = peers_of sv"
  "peers_of (sv\<lparr>ps_request_id_map := ids\<rparr>) = peers_of sv" "peers_of (sv\<lparr>ps_pending_requests := ps\<rparr>) = peers_of sv"
  "peers_of (sv\<lparr>ps_blockchain := bc\<rparr>) = peers_of sv" "peers_of (sv\<lparr>ps_timers := ts\<rparr>) = peers_of sv"
  "peers_of (schedule_redial peer sv) = peers_of sv" "peers_of (forward msg sv) = peers_of sv"
  by (simp_all add: peers_of_def command_def send_after_def schedule_redial_def forward_def split: option.splits)

lemma peers_fetch [simp]:
  "peers_of (handle_fetch_failure root peer sv) = peers_of sv"
  "peers_of (fst (fetch_block_from_peer X sv root)) = peers_of sv"
  "peers_of (fold (accept_fetched_block H root) bs sv) = peers_of sv"
proof -
  show "peers_of (handle_fetch_failure root peer sv) = peers_of sv"
    by (simp add: handle_fetch_failure_def Let_def split: option.splits)
  show "peers_of (fst (fetch_block_from_peer X sv root)) = peers_of sv"
    by (simp add: fetch_block_from_peer_def Let_def clear_failed_def peers_of_def command_def split: option.splits)
  show "peers_of (fold (accept_fetched_block H root) bs sv) = peers_of sv"
    by (induction bs arbitrary: sv) (simp_all add: accept_fetched_block_def)
qed

lemma handle_req_resp_peers: "handle_req_resp_message H e sv = Ok sv' \<Longrightarrow> peers_of sv' = peers_of sv"
  by (cases "(H, e, sv)" rule: handle_req_resp_message.cases)
    (auto simp: handle_status_request_def handle_blocks_by_root_request_def handle_blocks_by_root_response_def
      Let_def outcome_simps split: option.splits if_splits)

text \<open>The peers after an event, which only connection events change.\<close>

fun peers_after :: "p2p_event \<Rightarrow> peer_id list \<times> p2p_metrics \<Rightarrow> peer_id list \<times> p2p_metrics" where
  "peers_after (SwarmEvent (ConnectionEstablished peer is_dialer n)) (peers, m) =
     (if n = 1 then (List.insert peer peers,
        notify_peer_connected (Some peer) (connection_direction is_dialer) ''success'' m) else (peers, m))"
| "peers_after (SwarmEvent (ConnectionClosed peer is_dialer n cause)) (peers, m) =
     (if n = 0 then (removeAll peer peers,
        notify_peer_disconnected (Some peer) (connection_direction is_dialer) (disconnect_reason cause) m) else (peers, m))"
| "peers_after (SwarmEvent (OutgoingConnectionError peer e)) (peers, m) =
     (peers, notify_peer_connected peer ''outbound'' (dial_result e) m)"
| "peers_after (SwarmEvent (IncomingConnectionError peer)) (peers, m) =
     (peers, notify_peer_connected peer ''inbound'' ''error'' m)"
| "peers_after e pm = pm"

lemma handle_swarm_event_peers:
  assumes "handle_swarm_event H G X e sv = Ok sv'"
  shows "peers_of sv' = peers_after (SwarmEvent e) (peers_of sv)"
proof (cases "(H, G, X, e, sv)" rule: handle_swarm_event.cases)
  case (1 H G X e sv)
  with assms handle_req_resp_peers show ?thesis by (auto simp: peers_of_def)
next
  case (2 H G X topic data sv)
  have "peers_of (handle_gossipsub_message G topic data sv) = peers_of sv"
    by (simp add: handle_gossipsub_message_def split: option.splits)
  with assms 2 show ?thesis by (auto simp: peers_of_def)
qed (use assms in \<open>auto simp: peers_of_def measure_peers_def command_def schedule_redial_def send_after_def Let_def
      outcome_simps split: option.splits if_splits\<close>)

lemma p2p_handle_peers:
  assumes "p2p_handle H G X e sv = Ok sv'"
  shows "peers_of sv' = peers_after e (peers_of sv)"
proof (cases "(H, G, X, e, sv)" rule: p2p_handle.cases)
  case (1 H G X e sv)
  with assms handle_swarm_event_peers show ?thesis by simp
next
  case (7 H G X root sv)
  have "peers_of (fst (fetch_block_from_peer X sv root)) = peers_of sv" by simp
  with assms 7 show ?thesis
    by (cases "fetch_block_from_peer X sv root") (auto simp: handle_retry_block_fetch_def split: if_splits)
qed (use assms in \<open>auto simp: publish_block_def publish_attestation_def publish_aggregated_attestation_def
      handle_fetch_block_def handle_retry_peer_redial_def split: if_splits option.splits\<close>)

section \<open>The gauge of connected peers\<close>

text \<open>
  What libp2p documents of connection events: the number of connections to a peer is one after the
  first one was established, when the peer was not connected before, and zero after the last one
  was closed.
\<close>

fun connections_counted :: "p2p_server \<Rightarrow> p2p_event \<Rightarrow> bool" where
  "connections_counted sv (SwarmEvent (ConnectionEstablished peer _ n)) =
     (n = 1 \<longrightarrow> peer \<notin> set (ps_connected_peers sv))"
| "connections_counted sv (SwarmEvent (ConnectionClosed peer _ n _)) =
     (n = 0 \<longrightarrow> peer \<in> set (ps_connected_peers sv))"
| "connections_counted sv e = True"

definition connection_step :: "hashing \<Rightarrow> gossip_codec \<Rightarrow> p2p_server \<Rightarrow> p2p_server \<Rightarrow> bool" where
  "connection_step H G sv sv' \<longleftrightarrow> (\<exists>e. connections_counted sv e \<and> p2p_event_step H G e sv sv')"

definition peers_counted :: "p2p_server \<Rightarrow> bool" where
  "peers_counted sv \<longleftrightarrow> distinct (ps_connected_peers sv) \<and> counts_peers (ps_metrics sv) (ps_connected_peers sv)"

lemma peers_after_counted:
  assumes "peers_counted sv" and "connections_counted sv e" and "peers_after e (peers_of sv) = (peers, m)"
  shows "distinct peers \<and> counts_peers m peers"
  using assms
  by (cases "(e, peers_of sv)" rule: peers_after.cases)
    (auto simp: peers_counted_def peers_of_def distinct_removeAll counts_peers_connected counts_peers_failed
      counts_peers_disconnected split: if_splits)

lemma connection_step_counted:
  assumes "connection_step H G sv sv'" and "peers_counted sv"
  shows "peers_counted sv'"
proof -
  from assms(1) obtain e where e: "connections_counted sv e" "p2p_event_step H G e sv sv'" by (auto simp: connection_step_def)
  from e(2) have "peers_of sv' = peers_after e (peers_of sv)" by cases (auto dest: p2p_handle_peers)
  then have "peers_after e (peers_of sv) = (ps_connected_peers sv', ps_metrics sv')" by (simp add: peers_of_def)
  from peers_after_counted [OF assms(2) e(1) this] show ?thesis by (simp add: peers_counted_def)
qed

text \<open>
  C32. The gauge of connected peers is exact. In every state the P2P actor can reach, when connection
  events come with the number of connections as libp2p documents it, the gauge of every node name
  is the number of the connected peers that resolve to this name, peers without a name counting as
  unknown; no peer is counted twice.
\<close>

theorem connected_peers_gauge:
  assumes "(connection_step H G)\<^sup>*\<^sup>* (p2p_spawn built s (set_attestation_committee_subnet n
      (populate_name_registry peer_of names p2p_metrics_new))) sv"
  shows "distinct (ps_connected_peers sv) \<and>
    (\<forall>name. label_value (pm_connected_peers (ps_metrics sv)) name =
       word_of_nat (length (filter (\<lambda>p. resolve (ps_metrics sv) (Some p) = name) (ps_connected_peers sv))))"
proof -
  have "peers_counted sv"
    using assms
  proof induction
    case base
    show ?case by (simp add: peers_counted_def p2p_spawn_def populate_name_registry_def counts_peers_new)
  qed (rule connection_step_counted)
  then show ?thesis by (simp add: peers_counted_def counts_peers_def)
qed

theorem connected_peers_gauge_witness:
  "\<exists>G sv. (connection_step demo_hashing G)\<^sup>*\<^sup>* (p2p_spawn (fst demo_built) demo_store
      (set_attestation_committee_subnet 0 (populate_name_registry (\<lambda>_. Some 7) [(''node'', 5)] p2p_metrics_new))) sv \<and>
     label_value (pm_connected_peers (ps_metrics sv)) ''node'' = 1"
proof -
  fix G :: gossip_codec
  let ?X = "\<lparr>out_choose = (\<lambda>_. None), out_request_id = None\<rparr>"
  let ?m = "set_attestation_committee_subnet 0 (populate_name_registry (\<lambda>_. Some 7) [(''node'', 5)] p2p_metrics_new)"
  let ?sv0 = "p2p_spawn (fst demo_built) demo_store ?m"
  let ?e = "SwarmEvent (ConnectionEstablished 7 True 1)"
  have "get_block_header demo_store 2000 \<noteq> None" by (simp add: get_block_header_def demo_store_defs demo_defs)
  then obtain st where st: "build_status demo_store = Ok st" by (auto simp: build_status_def demo_store_fields)
  define sv1 where "sv1 = measure_peers (notify_peer_connected (Some 7) ''outbound'' ''success'')
    (?sv0\<lparr>ps_connected_peers := [7]\<rparr>)"
  have "p2p_event_step demo_hashing G ?e ?sv0 sv1"
    by (rule p2p_event_step.event [of _ demo_hashing G ?X])
      (use st in \<open>simp_all add: sv1_def p2p_spawn_def measure_peers_def connection_direction_def\<close>)
  then have r: "(connection_step demo_hashing G)\<^sup>*\<^sup>* ?sv0 sv1"
    by (intro r_into_rtranclp) (auto simp: connection_step_def p2p_spawn_def intro!: exI [of _ ?e])
  have "ps_connected_peers sv1 = [7]" "resolve (ps_metrics sv1) (Some 7) = ''node''"
    by (simp_all add: sv1_def measure_peers_def p2p_spawn_def notify_peer_connected_def Let_def resolve_def
        populate_name_registry_def set_attestation_committee_subnet_def map_filter_simps collect_map_def)
  with connected_peers_gauge [OF r] have "label_value (pm_connected_peers (ps_metrics sv1)) ''node'' = 1" by simp
  with r show ?thesis by blast
qed

section \<open>Redialing bootnodes\<close>

text \<open>
  C31. Bootnodes are not forgotten. The address of every bootnode but the node itself is kept for the
  life of the P2P actor. Whenever the last connection to a bootnode is closed, or dialing it fails
  while it is not connected, a redial is scheduled in twelve seconds, and when that timer fires the
  swarm is told to dial the address again, unless the bootnode has connected in the meantime.
\<close>

theorem bootnode_redialed:
  assumes "build_swarm L config m = Ok (built, m0)" and "(p2p_step H G)\<^sup>*\<^sup>* (p2p_spawn built s m0) sv"
    and "bn \<in> set (swc_bootnodes config)" and "peer = lp_peer_id L (bn_public_key bn)"
    and "peer \<noteq> sw_local_peer_id (bsw_swarm built)"
  shows "\<exists>addr. DialCall addr \<in> set (sw_calls (bsw_swarm built)) \<and>
    (\<forall>X is_dialer cause. \<exists>sv'. p2p_handle H G X (SwarmEvent (ConnectionClosed peer is_dialer 0 cause)) sv = Ok sv' \<and>
       ps_timers sv' = ps_timers sv @ [(12000, RetryPeerRedial peer)] \<and> peer \<notin> set (ps_connected_peers sv')) \<and>
    (peer \<notin> set (ps_connected_peers sv) \<longrightarrow>
      (\<forall>X e. \<exists>sv'. p2p_handle H G X (SwarmEvent (OutgoingConnectionError (Some peer) e)) sv = Ok sv' \<and>
         ps_timers sv' = ps_timers sv @ [(12000, RetryPeerRedial peer)])) \<and>
    (\<forall>X. p2p_handle H G X (Timer (RetryPeerRedial peer)) sv =
       Ok (if peer \<in> set (ps_connected_peers sv) then sv else command (Dial addr) sv))"
proof -
  from build_swarm_Ok [OF assms(1)] obtain me where me: "buildable L config me" by blast
  from build_swarm_run [OF me, of m] assms(1)
  have b: "sw_local_peer_id (bsw_swarm built) = me" "sw_calls (bsw_swarm built) = swarm_calls_of L config me"
    "bsw_bootnode_addrs built = collect_map (dialed L me (swc_bootnodes config))" by auto
  from me assms(3-5) b(1) obtain addr where "bootnode_addr L bn = Ok addr" by (auto simp: buildable_def list_all_iff)
  with assms(3-5) b(1) have "(peer, addr) \<in> set (dialed L me (swc_bootnodes config))"
    by (force simp: dialed_def map_filter_def)
  then have "map_of (rev (dialed L me (swc_bootnodes config))) peer \<noteq> None"
    by (auto simp: map_of_eq_None_iff intro: image_eqI [of _ _ "(peer, addr)"])
  then obtain addr' where a: "map_of (rev (dialed L me (swc_bootnodes config))) peer = Some addr'" by blast
  then have "(peer, addr') \<in> set (dialed L me (swc_bootnodes config))" using map_of_SomeD by fastforce
  note a = a this
  have "ps_bootnode_addrs sv = bsw_bootnode_addrs built"
    using p2p_reachable(2) [OF assms(2)] by (simp add: topics_of_def p2p_spawn_def)
  with a(1) b(3) have addr: "map_of (ps_bootnode_addrs sv) peer = Some addr'" by (simp add: map_of_collect_map)
  have "DialCall addr' \<in> set (sw_calls (bsw_swarm built))" using a(2) b(2) by (force simp: swarm_calls_of_def)
  with addr show ?thesis
    by (intro exI [of _ addr'])
      (simp add: measure_peers_def schedule_redial_def send_after_def PEER_REDIAL_INTERVAL_SECS_def
        handle_retry_peer_redial_def Let_def)
qed

theorem bootnode_redialed_witness:
  "\<forall>G X. \<exists>addr. p2p_handle demo_hashing G X (Timer (RetryPeerRedial 2))
       (p2p_spawn (fst demo_built) demo_store (snd demo_built)) =
     Ok (command (Dial addr) (p2p_spawn (fst demo_built) demo_store (snd demo_built)))"
proof (intro allI)
  fix G X
  let ?bn = "\<lparr>bn_ip = V4 1, bn_quic_port = 9001, bn_public_key = [1, 2]\<rparr>"
  let ?sv = "p2p_spawn (fst demo_built) demo_store (snd demo_built)"
  have bn: "?bn \<in> set (swc_bootnodes demo_swarm_config)" "2 = lp_peer_id demo_libp2p (bn_public_key ?bn)"
    by (simp_all add: demo_swarm_config_def demo_libp2p_def)
  have me: "2 \<noteq> sw_local_peer_id (bsw_swarm (fst demo_built))"
    using build_swarm_run [OF demo_buildable, of p2p_metrics_new] by (simp add: demo_built_def)
  have n: "2 \<notin> set (ps_connected_peers ?sv)" by (simp add: p2p_spawn_def)
  from bootnode_redialed [OF demo_build_split rtranclp.rtrancl_refl bn me, where H = demo_hashing and G = G and s = demo_store] n
  show "\<exists>addr. p2p_handle demo_hashing G X (Timer (RetryPeerRedial 2)) ?sv = Ok (command (Dial addr) ?sv)" by auto
qed

end
