(* ===== verification/Swarm_Adapter.thy ===== *)
theory Swarm_Adapter
  imports P2P_Server
begin

text \<open>
  The task that owns the swarm (\<open>crates/net/p2p/src/swarm_adapter.rs\<close>): it forwards the events of the
  swarm to the P2P actor and executes the commands of the actor. The channels are lists; the loop is
  a step relation whose labels say what a step did, so that every interleaving of events and
  commands is covered. The running swarm is the parameter \<open>swarm_runtime\<close>.
\<close>

section \<open>Commands\<close>

text \<open>The calls on a running swarm with whether they succeed, the id of a request, and its next event.\<close>

record 'w swarm_runtime =
  rt_publish :: "string \<Rightarrow> bytes \<Rightarrow> 'w \<Rightarrow> 'w \<times> bool"
  rt_dial :: "string \<Rightarrow> 'w \<Rightarrow> 'w \<times> bool"
  rt_send_request :: "peer_id \<Rightarrow> request \<Rightarrow> string \<Rightarrow> 'w \<Rightarrow> 'w \<times> request_id"
  rt_send_response :: "nat \<Rightarrow> response \<Rightarrow> 'w \<Rightarrow> 'w \<times> bool"
  rt_next :: "'w \<Rightarrow> swarm_event option \<Rightarrow> 'w \<Rightarrow> bool"

text \<open>Failures are only logged; the id of a request is reported to the sender.\<close>

fun execute_command :: "'w swarm_runtime \<Rightarrow> swarm_command \<Rightarrow> 'w \<Rightarrow> 'w \<times> request_id option" where
  "execute_command R (Publish topic data) w = (fst (rt_publish R topic data w), None)"
| "execute_command R (Dial addr) w = (fst (rt_dial R addr w), None)"
| "execute_command R (SendRequest peer req protocol) w =
     (case rt_send_request R peer req protocol w of (w', request_id) \<Rightarrow> (w', Some request_id))"
| "execute_command R (SendResponse channel resp) w = (fst (rt_send_response R channel resp w), None)"

section \<open>The loop\<close>

record 'w swarm_adapter =
  ad_swarm :: 'w
  ad_commands :: "swarm_command list"
  ad_events :: "swarm_event list"
  ad_running :: bool
  ad_actor_alive :: bool

definition start_swarm_adapter :: "'w \<Rightarrow> 'w swarm_adapter" where
  "start_swarm_adapter w =
     \<lparr>ad_swarm = w, ad_commands = [], ad_events = [], ad_running = True, ad_actor_alive = True\<rparr>"

datatype adapter_label = Sent swarm_command bool | Executed swarm_command "request_id option"
  | Delivered swarm_event | Received swarm_event | LoopExit | ActorExit

text \<open>
  Either branch of the loop may be taken when both are ready. The actor sends commands and takes
  events at any time; a command sent after the loop has ended is refused. When the actor is gone, both
  its ends of the channels are closed.
\<close>

inductive swarm_loop_step :: "'w swarm_runtime \<Rightarrow> adapter_label \<Rightarrow> 'w swarm_adapter \<Rightarrow> 'w swarm_adapter \<Rightarrow> bool"
  for R where
  event: "ad_running a \<Longrightarrow> ad_actor_alive a \<Longrightarrow> rt_next R (ad_swarm a) (Some e) w \<Longrightarrow>
    swarm_loop_step R (Delivered e) a (a\<lparr>ad_swarm := w, ad_events := ad_events a @ [e]\<rparr>)"
| event_refused: "ad_running a \<Longrightarrow> \<not> ad_actor_alive a \<Longrightarrow> rt_next R (ad_swarm a) (Some e) w \<Longrightarrow>
    swarm_loop_step R LoopExit a (a\<lparr>ad_swarm := w, ad_running := False\<rparr>)"
| swarm_ended: "ad_running a \<Longrightarrow> rt_next R (ad_swarm a) None w \<Longrightarrow>
    swarm_loop_step R LoopExit a (a\<lparr>ad_swarm := w, ad_running := False\<rparr>)"
| execute: "ad_running a \<Longrightarrow> ad_commands a = cmd # cmds \<Longrightarrow> execute_command R cmd (ad_swarm a) = (w, rid) \<Longrightarrow>
    swarm_loop_step R (Executed cmd rid) a (a\<lparr>ad_swarm := w, ad_commands := cmds\<rparr>)"
| commands_ended: "ad_running a \<Longrightarrow> \<not> ad_actor_alive a \<Longrightarrow> ad_commands a = [] \<Longrightarrow>
    swarm_loop_step R LoopExit a (a\<lparr>ad_running := False\<rparr>)"
| send: "ad_actor_alive a \<Longrightarrow>
    swarm_loop_step R (Sent cmd (ad_running a)) a
      (if ad_running a then a\<lparr>ad_commands := ad_commands a @ [cmd]\<rparr> else a)"
| receive: "ad_actor_alive a \<Longrightarrow> ad_events a = e # es \<Longrightarrow>
    swarm_loop_step R (Received e) a (a\<lparr>ad_events := es\<rparr>)"
| actor_exit: "ad_actor_alive a \<Longrightarrow> swarm_loop_step R ActorExit a (a\<lparr>ad_actor_alive := False\<rparr>)"

inductive_cases swarm_loop_stepE: "swarm_loop_step R l a a'"

inductive adapter_run :: "'w swarm_runtime \<Rightarrow> 'w swarm_adapter \<Rightarrow> adapter_label list \<Rightarrow> 'w swarm_adapter \<Rightarrow> bool"
  for R a where
  start: "adapter_run R a [] a"
| step: "adapter_run R a ls a' \<Longrightarrow> swarm_loop_step R l a' a'' \<Longrightarrow> adapter_run R a (ls @ [l]) a''"

section \<open>Order\<close>

definition accepted :: "adapter_label list \<Rightarrow> swarm_command list" where
  "accepted ls = List.map_filter (\<lambda>l. case l of Sent c True \<Rightarrow> Some c | _ \<Rightarrow> None) ls"

definition executed :: "adapter_label list \<Rightarrow> swarm_command list" where
  "executed ls = List.map_filter (\<lambda>l. case l of Executed c _ \<Rightarrow> Some c | _ \<Rightarrow> None) ls"

definition delivered :: "adapter_label list \<Rightarrow> swarm_event list" where
  "delivered ls = List.map_filter (\<lambda>l. case l of Delivered e \<Rightarrow> Some e | _ \<Rightarrow> None) ls"

definition received :: "adapter_label list \<Rightarrow> swarm_event list" where
  "received ls = List.map_filter (\<lambda>l. case l of Received e \<Rightarrow> Some e | _ \<Rightarrow> None) ls"

lemmas trace_defs = accepted_def executed_def delivered_def received_def

lemma map_filter_snoc: "List.map_filter f (xs @ [x]) = List.map_filter f xs @ (case f x of None \<Rightarrow> [] | Some y \<Rightarrow> [y])"
  by (induction xs) (simp_all add: map_filter_simps split: option.splits)

text \<open>
  In every run the commands are executed and the events received in the order in which they were
  sent, none twice; what was accepted and not yet executed waits in the channel.
\<close>

lemma adapter_in_order:
  assumes "adapter_run R (start_swarm_adapter w) ls a"
  shows "accepted ls = executed ls @ ad_commands a" and "delivered ls = received ls @ ad_events a"
proof -
  have "accepted ls = executed ls @ ad_commands a \<and> delivered ls = received ls @ ad_events a"
    using assms
  proof induction
    case start
    show ?case by (simp add: trace_defs map_filter_simps start_swarm_adapter_def)
  next
    case (step ls a' l a'')
    from step.hyps(2) step.IH show ?case
      by (auto simp: trace_defs map_filter_snoc elim!: swarm_loop_stepE)
  qed
  then show "accepted ls = executed ls @ ad_commands a" "delivered ls = received ls @ ad_events a" by simp_all
qed

text \<open>As long as the loop runs, waiting commands can be executed, whatever the calls on the swarm return.\<close>

lemma adapter_executes:
  assumes "adapter_run R a0 ls a" and "ad_running a"
  shows "\<exists>ls' a'. adapter_run R a0 (ls @ ls') a' \<and> executed ls' = ad_commands a \<and> ad_commands a' = [] \<and> ad_running a'"
  using assms
proof (induction "ad_commands a" arbitrary: ls a)
  case Nil
  then show ?case by (intro exI [of _ "[]"] exI [of _ a]) (simp add: executed_def map_filter_simps)
next
  case (Cons cmd cmds)
  obtain w rid where x: "execute_command R cmd (ad_swarm a) = (w, rid)" by fastforce
  let ?a = "a\<lparr>ad_swarm := w, ad_commands := cmds\<rparr>"
  have "adapter_run R a0 (ls @ [Executed cmd rid]) ?a"
    by (rule adapter_run.step [OF Cons.prems(1) swarm_loop_step.execute [OF Cons.prems(2) Cons.hyps(2) [symmetric] x]])
  from Cons.hyps(1) [OF _ this] Cons.prems(2) obtain ls' a' where
    r: "adapter_run R a0 ((ls @ [Executed cmd rid]) @ ls') a'" "executed ls' = cmds" "ad_commands a' = []" "ad_running a'"
    by auto
  then show ?case using Cons.hyps(2)
    by (intro exI [of _ "Executed cmd rid # ls'"] exI [of _ a']) (simp add: executed_def map_filter_simps)
qed

end
