(* ===== verification/Node.thy ===== *)
theory Node
  imports Checkpoint_Sync P2P_Properties
begin

text \<open>
  The node binary (\<open>bin/ethlambda/src/main.rs\<close>): reading the configuration and the keys, and starting
  and connecting the two actors. The file system, the YAML, hex and key libraries, the clock and the
  database are the parameter \<open>environment\<close>. A failed \<open>expect\<close> is a panic, \<open>process::exit(1)\<close> the error
  \<open>Exit\<close>. Paths are those of Unix, strings are ASCII.
\<close>

section \<open>Keys in hexadecimal\<close>

definition is_whitespace :: "char \<Rightarrow> bool" where
  "is_whitespace c \<longleftrightarrow> of_char c \<in> {9 .. 13 :: nat} \<or> c = CHR '' ''"

definition trim :: "string \<Rightarrow> string" where
  "trim s = rev (dropWhile is_whitespace (rev (dropWhile is_whitespace s)))"

fun trim_start_0x :: "string \<Rightarrow> string" where
  "trim_start_0x (c # d # s) = (if [c, d] = ''0x'' then trim_start_0x s else c # d # s)"
| "trim_start_0x s = s"

definition strip_0x :: "string \<Rightarrow> string" where
  "strip_0x s = (if take 2 s = ''0x'' then drop 2 s else s)"

definition PUBKEY_SIZE :: nat where
  "PUBKEY_SIZE = 52"

datatype hex_error = NotHex nat | WrongLength nat nat

definition deser_hex_pubkeys :: "(string \<Rightarrow> bytes option) \<Rightarrow> string list \<Rightarrow> (bytes list, hex_error) result" where
  "deser_hex_pubkeys hex_decode hex_strings =
     map_res (\<lambda>(idx, s).
         bind_res (ok_or (hex_decode (strip_0x s)) (NotHex idx)) (\<lambda>bytes.
           if length bytes = PUBKEY_SIZE then Ok bytes else Err (WrongLength idx (length bytes))))
       (enumerate 0 hex_strings)"

text \<open>Keys of annotated validators are read without the prefix.\<close>

definition deser_pubkey_hex :: "(string \<Rightarrow> bytes option) \<Rightarrow> string \<Rightarrow> bytes option" where
  "deser_pubkey_hex hex_decode value =
     Option.bind (hex_decode value) (\<lambda>bytes. if length bytes = PUBKEY_SIZE then Some bytes else None)"

section \<open>The environment\<close>

record annotated_validator =
  av_index :: u64
  av_pubkey :: bytes
  av_privkey_file :: string

text \<open>
  Files by path, the fields that YAML files hold, hex and key decoding, the peer id of a private key,
  the tables of the database in the working directory if it can be opened, and the time.
\<close>

record 'sk environment =
  ev_read_to_string :: "string \<Rightarrow> string option"
  ev_read :: "string \<Rightarrow> bytes option"
  ev_hex_decode :: "string \<Rightarrow> bytes option"
  ev_yaml_genesis :: "string \<Rightarrow> (u64 \<times> string list) option"
  ev_yaml_names :: "string \<Rightarrow> (string \<times> H256) list option"
  ev_yaml_strings :: "string \<Rightarrow> string list option"
  ev_yaml_validators :: "string \<Rightarrow> (string \<times> (u64 \<times> string \<times> string) list) list option"
  ev_secret_key :: "bytes \<Rightarrow> 'sk option"
  ev_peer_of_privkey :: "H256 \<Rightarrow> peer_id option"
  ev_database :: "tables option"
  ev_now_ms :: nat

datatype start_error = Exit | InitFailed checkpoint_sync_error

definition is_absolute :: "string \<Rightarrow> bool" where
  "is_absolute path \<longleftrightarrow> take 1 path = ''/''"

definition join :: "string \<Rightarrow> string \<Rightarrow> string" where
  "join dir path =
     (if is_absolute path then path
      else if dir = [] \<or> last dir = CHR ''/'' then dir @ path
      else dir @ ''/'' @ path)"

section \<open>Reading files\<close>

definition read_hex_file_bytes :: "'sk environment \<Rightarrow> string \<Rightarrow> (bytes, start_error) result" where
  "read_hex_file_bytes E path =
     bind_res (ok_or (ev_read_to_string E path) Exit) (\<lambda>file_content.
       ok_or (ev_hex_decode E (trim_start_0x (trim file_content))) Exit)"

definition read_genesis_config :: "'sk environment \<Rightarrow> string \<Rightarrow> (genesis_config, start_error) result" where
  "read_genesis_config E config_path =
     bind_res (expect (ev_read_to_string E config_path)) (\<lambda>config_yaml.
     bind_res (expect (ev_yaml_genesis E config_yaml)) (\<lambda>(genesis_time, hex_strings).
     bind_res (expect_ok (deser_hex_pubkeys (ev_hex_decode E) hex_strings)) (\<lambda>genesis_validators.
       Ok \<lparr>gc_genesis_time = genesis_time, gc_genesis_validators = genesis_validators\<rparr>)))"

definition node_names :: "'sk environment \<Rightarrow> string \<Rightarrow> ((string \<times> H256) list, start_error) result" where
  "node_names E validator_config =
     bind_res (expect (ev_read_to_string E validator_config)) (\<lambda>config_yaml.
     bind_res (expect (ev_yaml_names E config_yaml)) (\<lambda>validators. Ok (collect_map validators)))"

definition read_bootnodes :: "enr_library \<Rightarrow> 'sk environment \<Rightarrow> string \<Rightarrow> (bootnode list, start_error) result" where
  "read_bootnodes N E bootnodes_path =
     bind_res (expect (ev_read_to_string E bootnodes_path)) (\<lambda>bootnodes_yaml.
     bind_res (expect (ev_yaml_strings E bootnodes_yaml)) (\<lambda>enrs. expect_ok (parse_enrs N enrs)))"

definition annotated :: "(string \<Rightarrow> bytes option) \<Rightarrow> u64 \<times> string \<times> string \<Rightarrow> annotated_validator option" where
  "annotated hex_decode = (\<lambda>(index, pubkey_hex, privkey_file).
     map_option (\<lambda>pubkey. \<lparr>av_index = index, av_pubkey = pubkey, av_privkey_file = privkey_file\<rparr>)
       (deser_pubkey_hex hex_decode pubkey_hex))"

definition parse_validators ::
  "'sk environment \<Rightarrow> string \<Rightarrow> (string \<times> annotated_validator list) list option" where
  "parse_validators E validators_yaml =
     Option.bind (ev_yaml_validators E validators_yaml) (\<lambda>entries.
       those (map (\<lambda>(name, vs). map_option (Pair name) (those (map (annotated (ev_hex_decode E)) vs))) entries))"

definition load_key ::
  "'sk environment \<Rightarrow> string \<Rightarrow> annotated_validator \<Rightarrow> (u64 \<times> 'sk) list \<Rightarrow> ((u64 \<times> 'sk) list, start_error) result" where
  "load_key E validator_keys_dir validator validator_keys =
     (let secret_key_path = (if is_absolute (av_privkey_file validator) then av_privkey_file validator
                             else join validator_keys_dir (av_privkey_file validator))
      in bind_res (expect (ev_read E secret_key_path)) (\<lambda>secret_key_bytes.
         bind_res (ok_or (ev_secret_key E secret_key_bytes) Exit) (\<lambda>secret_key.
           Ok (AList.update (av_index validator) secret_key validator_keys))))"

definition read_validator_keys ::
  "'sk environment \<Rightarrow> string \<Rightarrow> string \<Rightarrow> string \<Rightarrow> ((u64 \<times> 'sk) list, start_error) result" where
  "read_validator_keys E validators_path validator_keys_dir node_id =
     bind_res (expect (ev_read_to_string E validators_path)) (\<lambda>validators_yaml.
     bind_res (expect (parse_validators E validators_yaml)) (\<lambda>validator_infos.
     bind_res (expect (map_of validator_infos node_id)) (\<lambda>validator_vec.
       fold_res (load_key E validator_keys_dir) validator_vec [])))"

section \<open>Start-up\<close>

record cli_options =
  cli_custom_network_config_dir :: string
  cli_gossipsub_port :: u16
  cli_http_address :: ip_addr
  cli_api_port :: u16
  cli_metrics_port :: u16
  cli_node_key :: string
  cli_node_id :: string
  cli_checkpoint_sync_url :: "string option"
  cli_is_aggregator :: bool
  cli_attestation_committee_count :: u64

record 'sk node =
  nd_blockchain :: "'sk server"
  nd_first_tick :: nat
  nd_swarm :: swarm
  nd_p2p :: p2p_server
  nd_metrics_socket :: socket_addr
  nd_api_socket :: socket_addr
  nd_api_store :: store

definition first_validator_id :: "(u64 \<times> 'sk) list \<Rightarrow> u64 option" where
  "first_validator_id validator_keys =
     (if validator_keys = [] then None else Some (Min (set (map fst validator_keys))))"

definition swarm_config_of :: "cli_options \<Rightarrow> bytes \<Rightarrow> bootnode list \<Rightarrow> (u64 \<times> 'sk) list \<Rightarrow> swarm_config" where
  "swarm_config_of options node_p2p_key bootnodes validator_keys =
     \<lparr>swc_node_key = node_p2p_key, swc_bootnodes = bootnodes,
      swc_listening_socket = (V4 0, cli_gossipsub_port options),
      swc_validator_id = first_validator_id validator_keys,
      swc_attestation_committee_count = cli_attestation_committee_count options,
      swc_is_aggregator = cli_is_aggregator options\<rparr>"

text \<open>
  The node at the moment when the blockchain and the P2P actor have handled the message that gives
  them a reference to each other, and no other message. The typed tables stand for the database; a
  call that only panics or returns has no error to convert. The calls that set up the metrics at the
  beginning of \<open>main\<close> are \<open>start_metrics\<close> of \<open>Chain_Metrics\<close>, where it is shown which sequences of
  metric calls succeed; the definition starts after them.
\<close>

definition node_main ::
  "hashing \<Rightarrow> libp2p \<Rightarrow> enr_library \<Rightarrow> checkpoint_source \<Rightarrow> 'sk environment \<Rightarrow> cli_options \<Rightarrow>
   ('sk node, start_error) result" where
  "node_main H L N S E options =
     (let dir = cli_custom_network_config_dir options in
      bind_res (read_hex_file_bytes E (cli_node_key options)) (\<lambda>node_p2p_key.
      bind_res (read_genesis_config E (join dir ''config.yaml'')) (\<lambda>genesis_config.
      bind_res (node_names E (join dir ''validator-config.yaml'')) (\<lambda>names.
      let metrics = populate_name_registry (ev_peer_of_privkey E) names p2p_metrics_new in
      bind_res (read_bootnodes N E (join dir ''nodes.yaml'')) (\<lambda>bootnodes.
      bind_res (read_validator_keys E (join dir ''annotated_validators.yaml'') (join dir ''hash-sig-keys'')
                  (cli_node_id options)) (\<lambda>validator_keys.
      bind_res (expect (ev_database E)) (\<lambda>backend.
      bind_res (map_err InitFailed (fetch_initial_state H S (cli_checkpoint_sync_url options) genesis_config backend))
        (\<lambda>store.
      bind_res (expect_ok (spawn store validator_keys (cli_is_aggregator options) (ev_now_ms E)))
        (\<lambda>(blockchain, first_tick).
      bind_res (expect_ok (build_swarm L (swarm_config_of options node_p2p_key bootnodes validator_keys) metrics))
        (\<lambda>(built, metrics').
      let p2p = p2p_spawn built store metrics' in
        Ok \<lparr>nd_blockchain = blockchain\<lparr>sv_p2p := Some []\<rparr>, nd_first_tick = first_tick,
            nd_swarm = bsw_swarm built, nd_p2p = p2p\<lparr>ps_blockchain := Some []\<rparr>,
            nd_metrics_socket = (cli_http_address options, cli_metrics_port options),
            nd_api_socket = (cli_http_address options, cli_api_port options),
            nd_api_store = store\<rparr>))))))))))"

section \<open>Hexadecimal keys\<close>

text \<open>What the hex library documents: decoding inverts encoding, and encoded text has hex digits only.\<close>

definition hex_ok :: "(bytes \<Rightarrow> string) \<Rightarrow> (string \<Rightarrow> bytes option) \<Rightarrow> bool" where
  "hex_ok hex_encode hex_decode \<longleftrightarrow>
     (\<forall>bs. hex_decode (hex_encode bs) = Some bs \<and> set (hex_encode bs) \<subseteq> set ''0123456789abcdef'')"

lemma strip_0x_hex: "set s \<subseteq> set ''0123456789abcdef'' \<Longrightarrow> strip_0x s = s" "strip_0x (''0x'' @ s) = s"
proof -
  assume "set s \<subseteq> set ''0123456789abcdef''"
  moreover have "set (take 2 s) \<subseteq> set s" by (rule set_take_subset)
  ultimately have "CHR ''x'' \<notin> set (take 2 s)" by auto
  then show "strip_0x s = s" by (auto simp: strip_0x_def)
next
  show "strip_0x (''0x'' @ s) = s" by (simp add: strip_0x_def)
qed

lemma deser_hex_pubkeys_map:
  assumes "\<forall>pk \<in> set pks. hex_decode (strip_0x (h pk)) = Some pk \<and> length pk = PUBKEY_SIZE"
  shows "deser_hex_pubkeys hex_decode (map h pks) = Ok pks"
proof -
  have "map_res (\<lambda>(idx, s). bind_res (ok_or (hex_decode (strip_0x s)) (NotHex idx)) (\<lambda>bytes.
      if length bytes = PUBKEY_SIZE then Ok bytes else Err (WrongLength idx (length bytes))))
      (enumerate k (map h pks)) = Ok pks" for k
    using assms by (induction pks arbitrary: k) simp_all
  then show ?thesis unfolding deser_hex_pubkeys_def .
qed

text \<open>Public keys survive being written as hex, with or without the prefix.\<close>

lemma deser_hex_pubkeys_roundtrip:
  assumes "hex_ok hex_encode hex_decode" and "\<forall>pk \<in> set pks. length pk = PUBKEY_SIZE"
  shows "deser_hex_pubkeys hex_decode (map hex_encode pks) = Ok pks"
    and "deser_hex_pubkeys hex_decode (map (\<lambda>pk. ''0x'' @ hex_encode pk) pks) = Ok pks"
proof -
  have "strip_0x (hex_encode pk) = hex_encode pk" for pk
    using assms(1) by (intro strip_0x_hex) (simp only: hex_ok_def)
  with assms show "deser_hex_pubkeys hex_decode (map hex_encode pks) = Ok pks"
    by (intro deser_hex_pubkeys_map) (simp add: hex_ok_def)
  show "deser_hex_pubkeys hex_decode (map (\<lambda>pk. ''0x'' @ hex_encode pk) pks) = Ok pks"
    using assms by (intro deser_hex_pubkeys_map) (simp add: hex_ok_def strip_0x_hex(2) del: append_Cons)
qed

section \<open>What a node starts with\<close>

text \<open>The files of a node and what they hold.\<close>

definition configured ::
  "enr_library \<Rightarrow> 'sk environment \<Rightarrow> cli_options \<Rightarrow> bytes \<Rightarrow> genesis_config \<Rightarrow> (string \<times> H256) list \<Rightarrow>
   bootnode list \<Rightarrow> (u64 \<times> 'sk) list \<Rightarrow> bool" where
  "configured N E options node_key gc names bootnodes keys \<longleftrightarrow>
     (let dir = cli_custom_network_config_dir options
      in read_hex_file_bytes E (cli_node_key options) = Ok node_key \<and>
         read_genesis_config E (join dir ''config.yaml'') = Ok gc \<and>
         node_names E (join dir ''validator-config.yaml'') = Ok names \<and>
         read_bootnodes N E (join dir ''nodes.yaml'') = Ok bootnodes \<and>
         read_validator_keys E (join dir ''annotated_validators.yaml'') (join dir ''hash-sig-keys'')
           (cli_node_id options) = Ok keys)"

text \<open>The running node, made of the parts that were started.\<close>

definition started ::
  "cli_options \<Rightarrow> store \<Rightarrow> 'sk server \<times> nat \<Rightarrow> built_swarm \<times> p2p_metrics \<Rightarrow> 'sk node" where
  "started options s = (\<lambda>(sv, delay) (built, m).
     \<lparr>nd_blockchain = sv\<lparr>sv_p2p := Some []\<rparr>, nd_first_tick = delay, nd_swarm = bsw_swarm built,
      nd_p2p = (p2p_spawn built s m)\<lparr>ps_blockchain := Some []\<rparr>,
      nd_metrics_socket = (cli_http_address options, cli_metrics_port options),
      nd_api_socket = (cli_http_address options, cli_api_port options), nd_api_store = s\<rparr>)"

lemma node_main_Ok_iff:
  "node_main H L N S E options = Ok node \<longleftrightarrow>
     (\<exists>node_key gc names bootnodes keys db s sd bm.
        configured N E options node_key gc names bootnodes keys \<and> ev_database E = Some db \<and>
        fetch_initial_state H S (cli_checkpoint_sync_url options) gc db = Ok s \<and>
        spawn s keys (cli_is_aggregator options) (ev_now_ms E) = Ok sd \<and>
        build_swarm L (swarm_config_of options node_key bootnodes keys)
          (populate_name_registry (ev_peer_of_privkey E) names p2p_metrics_new) = Ok bm \<and>
        node = started options s sd bm)"
  unfolding node_main_def configured_def started_def
  by (auto simp: Let_def outcome_simps case_prod_unfold)

text \<open>
  C14. What a started node runs on. Whenever the start-up of the binary succeeds on an empty database,
  the anchor state is the genesis state of the configuration file, or, with a checkpoint URL, the
  downloaded state that passed \<open>verify_checkpoint_state\<close>; its validators and genesis time are those of
  the configuration, and a genesis anchor is well formed. The blockchain actor has the keys of the
  node's validators, both actors are connected and share the store with the API, and both are in a
  state reached from their initial ones. If moreover the anchor is well formed (a downloaded one need
  not be) and its root is not its own parent root, the blockchain actor handles every message that
  brings no hash collision (\<open>harmless\<close>).
\<close>

theorem node_started:
  fixes C :: "('pk, 'sig, 'sk) crypto" and E :: "'sk environment"
  assumes "node_main H L N S E options = Ok node" and "ev_database E = Some empty_tables"
    and "ssz_roots H" and "visits_all iter"
  shows "\<exists>node_key gc names bootnodes keys st s sv built m.
    configured N E options node_key gc names bootnodes keys \<and>
    anchored_on H S (cli_checkpoint_sync_url options) gc st \<and>
    st_validators st = genesis_validators_of gc \<and> cc_genesis_time (st_config st) = gc_genesis_time gc \<and>
    (cli_checkpoint_sync_url options = None \<longrightarrow> wf_state st) \<and>
    init_store H empty_tables st None = (Ok s :: (store, checkpoint_sync_error) result) \<and>
    spawn s keys (cli_is_aggregator options) (ev_now_ms E) = Ok (sv, nd_first_tick node) \<and>
    (\<forall>seen. (server_step H C iter f)\<^sup>*\<^sup>* (seen, sv) (seen, nd_blockchain node)) \<and>
    sv_p2p (nd_blockchain node) = Some [] \<and> km_keys (sv_key_manager (nd_blockchain node)) = keys \<and>
    build_swarm L (swarm_config_of options node_key bootnodes keys)
      (populate_name_registry (ev_peer_of_privkey E) names p2p_metrics_new) = Ok (built, m) \<and>
    (\<forall>G. (p2p_step H G)\<^sup>*\<^sup>* (p2p_spawn built s m) (nd_p2p node)) \<and>
    ps_blockchain (nd_p2p node) = Some [] \<and>
    sv_store (nd_blockchain node) = s \<and> ps_store (nd_p2p node) = s \<and> nd_api_store node = s \<and>
    (wf_state st \<and> s_head s \<noteq> hdr_parent_root (st_latest_block_header st) \<longrightarrow>
      (\<forall>msg. harmless H C [s_head s \<mapsto> (hdr_slot (st_latest_block_header st), hdr_parent_root (st_latest_block_header st))]
          (nd_blockchain node) msg \<longrightarrow> (\<exists>r. handle H C iter f msg (nd_blockchain node) = Some r)))"
proof -
  from assms(1,2) obtain node_key gc names bootnodes keys s sv delay built m where
    cfg: "configured N E options node_key gc names bootnodes keys"
    and fetch: "fetch_initial_state H S (cli_checkpoint_sync_url options) gc empty_tables = Ok s"
    and sp: "spawn s keys (cli_is_aggregator options) (ev_now_ms E) = Ok (sv, delay)"
    and b: "build_swarm L (swarm_config_of options node_key bootnodes keys)
      (populate_name_registry (ev_peer_of_privkey E) names p2p_metrics_new) = Ok (built, m)"
    and node: "node = started options s (sv, delay) (built, m)" unfolding node_main_Ok_iff by fastforce
  from fetch_initial_state_anchor [OF fetch] obtain st where
    st: "anchored_on H S (cli_checkpoint_sync_url options) gc st"
      "init_store H empty_tables st None = (Ok s :: (store, checkpoint_sync_error) result)" .
  have bc: "nd_blockchain node = sv\<lparr>sv_p2p := Some []\<rparr>" and p2p: "nd_p2p node = (p2p_spawn built s m)\<lparr>ps_blockchain := Some []\<rparr>"
    and rest: "nd_first_tick node = delay" "nd_api_store node = s" by (simp_all add: node started_def)
  have step: "(server_step H C iter f)\<^sup>*\<^sup>* (seen, sv) (seen, nd_blockchain node)" for seen
    using server_step.message [of H C seen sv InitP2P iter f] by (intro r_into_rtranclp) (simp add: bc)
  have "p2p_step H G (p2p_spawn built s m) (nd_p2p node)" for G
    unfolding p2p_step_def p2p by (rule exI, rule p2p_event_step.event [of InitBlockChain _ _ undefined]) simp_all
  then have p: "(p2p_step H G)\<^sup>*\<^sup>* (p2p_spawn built s m) (nd_p2p node)" for G by blast
  have fields: "sv_store (nd_blockchain node) = s" "km_keys (sv_key_manager (nd_blockchain node)) = keys"
    "sv_p2p (nd_blockchain node) = Some []" "ps_store (nd_p2p node) = s" "ps_blockchain (nd_p2p node) = Some []"
    using sp by (auto simp: bc p2p p2p_spawn_def spawn_def key_manager_new_def Let_def split: if_splits)
  have "\<exists>r. handle H C iter f msg (nd_blockchain node) = Some r"
    if wf: "wf_state st" and ne: "s_head s \<noteq> hdr_parent_root (st_latest_block_header st)"
      and h: "harmless H C [s_head s \<mapsto> (hdr_slot (st_latest_block_header st), hdr_parent_root (st_latest_block_header st))]
        (nd_blockchain node) msg" for msg
  proof -
    from server_steps_inv [OF step assms(3,4)] spawn_ok [OF st(2) wf ne sp] have
      "server_ok H (s_head s) [s_head s \<mapsto> (hdr_slot (st_latest_block_header st), hdr_parent_root (st_latest_block_header st))]
        (nd_blockchain node)" "waiting_ok (nd_blockchain node)" by auto
    from handle_run [OF assms(3,4) this h] show ?thesis by blast
  qed
  then have h: "wf_state st \<and> s_head s \<noteq> hdr_parent_root (st_latest_block_header st) \<longrightarrow>
      (\<forall>msg. harmless H C [s_head s \<mapsto> (hdr_slot (st_latest_block_header st), hdr_parent_root (st_latest_block_header st))]
          (nd_blockchain node) msg \<longrightarrow> (\<exists>r. handle H C iter f msg (nd_blockchain node) = Some r))" by blast
  note a = anchored_on_keeps [OF st(1)]
  have "cli_checkpoint_sync_url options = None \<longrightarrow> wf_state st" using a(3) by blast
  with cfg st a(1,2) sp b p fields rest step h show ?thesis
    by (intro exI [of _ node_key] exI [of _ gc] exI [of _ names] exI [of _ bootnodes] exI [of _ keys] exI [of _ st]
        exI [of _ s] exI [of _ sv] exI [of _ built] exI [of _ m]) (simp only: simp_thms)
qed

section \<open>An example\<close>

definition demo_environment :: "unit environment" where
  "demo_environment =
     \<lparr>ev_read_to_string = Some, ev_read = (\<lambda>_. Some []), ev_hex_decode = (\<lambda>_. Some (replicate 52 0)),
      ev_yaml_genesis = (\<lambda>_. Some (12, [''00''])), ev_yaml_names = (\<lambda>_. Some [(''node'', 5)]),
      ev_yaml_strings = (\<lambda>_. Some []), ev_yaml_validators = (\<lambda>_. Some [(''node'', [(0, ''00'', ''key'')])]),
      ev_secret_key = (\<lambda>_. Some ()), ev_peer_of_privkey = (\<lambda>_. Some 1), ev_database = Some empty_tables, ev_now_ms = 0\<rparr>"

definition demo_options :: cli_options where
  "demo_options =
     \<lparr>cli_custom_network_config_dir = ''dir'', cli_gossipsub_port = 9000, cli_http_address = V4 1,
      cli_api_port = 5052, cli_metrics_port = 5054, cli_node_key = ''key'', cli_node_id = ''node'',
      cli_checkpoint_sync_url = None, cli_is_aggregator = False, cli_attestation_committee_count = 1\<rparr>"

lemma demo_configured:
  "configured N demo_environment demo_options (replicate 52 0)
     \<lparr>gc_genesis_time = 12, gc_genesis_validators = [replicate 52 0]\<rparr> [(''node'', 5)] [] [(0, ())]"
  by (simp add: configured_def demo_environment_def demo_options_def read_hex_file_bytes_def read_genesis_config_def
      node_names_def read_bootnodes_def read_validator_keys_def parse_validators_def annotated_def deser_pubkey_hex_def
      deser_hex_pubkeys_def PUBKEY_SIZE_def load_key_def parse_enrs_def collect_map_def Let_def)

lemma demo_node_starts: "\<exists>node. node_main demo_hashing demo_libp2p N S demo_environment demo_options = Ok node"
proof -
  let ?gc = "\<lparr>gc_genesis_time = 12, gc_genesis_validators = [replicate 52 0]\<rparr>"
  obtain s where s: "fetch_initial_state demo_hashing S None ?gc empty_tables = Ok s" "cc_genesis_time (s_config s) = 12"
    by (simp add: fetch_initial_state_def from_anchor_state_def from_genesis_def init_store_def genesis_validators_of_def
        VALIDATOR_REGISTRY_LIMIT_def Let_def)
  obtain sd where sd: "spawn s [(0, ())] False 0 = Ok sd" using s(2) by (simp add: spawn_def)
  have "buildable demo_libp2p (swarm_config_of demo_options (replicate 52 0) [] [(0, ())]) 1"
    by (simp add: buildable_def swarm_config_of_def demo_options_def demo_libp2p_def gossipsub_config_def list_all_iff)
  note b = build_swarm_run [OF this, of "populate_name_registry (\<lambda>_. Some 1) [(''node'', 5)] p2p_metrics_new"]
  have e: "ev_database demo_environment = Some empty_tables" "ev_now_ms demo_environment = 0"
    "ev_peer_of_privkey demo_environment = (\<lambda>_. Some 1)" "cli_checkpoint_sync_url demo_options = None"
    "cli_is_aggregator demo_options = False" by (simp_all add: demo_environment_def demo_options_def)
  show ?thesis unfolding node_main_Ok_iff e
    by (intro exI conjI) (rule demo_configured, rule refl, rule s(1), rule sd, rule b, rule refl)
qed

theorem node_started_witness:
  "\<forall>N S. \<exists>node r. node_main demo_hashing demo_libp2p N S demo_environment demo_options = Ok node \<and>
     sv_p2p (nd_blockchain node) = Some [] \<and> km_keys (sv_key_manager (nd_blockchain node)) = [(0, ())] \<and>
     handle demo_hashing demo_crypto (\<lambda>xs. xs) (\<lambda>xs. xs) (NewAttestation demo_vote) (nd_blockchain node) = Some r"
proof (intro allI)
  fix N S
  from demo_node_starts obtain node where n: "node_main demo_hashing demo_libp2p N S demo_environment demo_options = Ok node" by blast
  have db: "ev_database demo_environment = Some empty_tables" by (simp add: demo_environment_def)
  have url: "cli_checkpoint_sync_url demo_options = None" by (simp add: demo_options_def)
  from node_started [OF n db demo_ssz_roots visits_all_id, where C = demo_crypto and f = "\<lambda>xs. xs"]
  obtain node_key gc names bootnodes keys st s where k: "configured N demo_environment demo_options node_key gc names bootnodes keys"
    "anchored_on demo_hashing S (cli_checkpoint_sync_url demo_options) gc st" "cli_checkpoint_sync_url demo_options = None \<longrightarrow> wf_state st"
    "init_store demo_hashing empty_tables st None = (Ok s :: (store, checkpoint_sync_error) result)"
    "sv_p2p (nd_blockchain node) = Some []" "km_keys (sv_key_manager (nd_blockchain node)) = keys"
    "wf_state st \<and> s_head s \<noteq> hdr_parent_root (st_latest_block_header st) \<longrightarrow>
      (\<forall>msg. harmless demo_hashing demo_crypto [s_head s \<mapsto> (hdr_slot (st_latest_block_header st),
          hdr_parent_root (st_latest_block_header st))] (nd_blockchain node) msg \<longrightarrow>
        (\<exists>r. handle demo_hashing demo_crypto (\<lambda>xs. xs) (\<lambda>xs. xs) msg (nd_blockchain node) = Some r))"
    by (elim exE conjE) (rule that)
  from k(1) demo_configured [of N] have keys: "keys = [(0, ())]" by (simp add: configured_def Let_def)
  have "hdr_parent_root (st_latest_block_header st) = 0"
    using k(2) by (auto simp: anchored_on_def url from_genesis_def Let_def split: if_splits)
  moreover have "s_head s \<noteq> 0"
    using k(4) ucast_add_nonzero [of 2000 "hdr_slot (st_latest_block_header st)"]
    by (auto simp: init_store_def demo_hashing_def Let_def split: if_splits)
  ultimately obtain r where
    "handle demo_hashing demo_crypto (\<lambda>xs. xs) (\<lambda>xs. xs) (NewAttestation demo_vote) (nd_blockchain node) = Some r"
    using k(3,7) url by (metis harmless.simps(4))
  with n keys k(5,6) show "\<exists>node r. node_main demo_hashing demo_libp2p N S demo_environment demo_options = Ok node \<and>
     sv_p2p (nd_blockchain node) = Some [] \<and> km_keys (sv_key_manager (nd_blockchain node)) = [(0, ())] \<and>
     handle demo_hashing demo_crypto (\<lambda>xs. xs) (\<lambda>xs. xs) (NewAttestation demo_vote) (nd_blockchain node) = Some r" by blast
qed

end
