(* ===== verification/Byte_Store.thy ===== *)
theory Byte_Store
  imports Backend Storage_Properties
begin

text \<open>
  The store of \<open>crates/storage/src/store.rs\<close> as it runs on a storage backend: every operation with the
  calls it makes on the backend, keys and values encoded as bytes, and a panic wherever a call fails
  or bytes do not decode. The struct \<open>Store\<close> is the backend together with the buffers and the counter.
  The theory \<open>Byte_Refinement\<close> shows that these operations implement those of \<open>Storage\<close>.
\<close>

section \<open>Encodings\<close>

record store_codec =
  sc_header :: "block_header ssz"
  sc_body :: "block_body ssz"
  sc_signatures :: "block_signatures_with_attestation ssz"
  sc_state :: "state ssz"
  sc_gossip_signature :: "stored_signature ssz"
  sc_attestation_data :: "attestation_data ssz"
  sc_config :: "chain_config ssz"
  sc_checkpoint :: "checkpoint ssz"

definition u64_ssz :: "u64 ssz" where
  "u64_ssz = \<lparr>ssz_encode = (\<lambda>n. rev (be_bytes 8 (unat n))),
     ssz_decode = (\<lambda>bs. if length bs = 8 then Some (word_of_nat (of_be_bytes (rev bs))) else None)\<rparr>"

definition root_ssz :: "H256 ssz" where
  "root_ssz = \<lparr>ssz_encode = root_bytes,
     ssz_decode = (\<lambda>bs. if length bs = 32 then Some (word_of_nat (of_be_bytes bs)) else None)\<rparr>"

definition KEY_TIME :: bytes where
  "KEY_TIME = string_bytes ''time''"

definition KEY_CONFIG :: bytes where
  "KEY_CONFIG = string_bytes ''config''"

definition KEY_HEAD :: bytes where
  "KEY_HEAD = string_bytes ''head''"

definition KEY_SAFE_TARGET :: bytes where
  "KEY_SAFE_TARGET = string_bytes ''safe_target''"

definition KEY_LATEST_JUSTIFIED :: bytes where
  "KEY_LATEST_JUSTIFIED = string_bytes ''latest_justified''"

definition KEY_LATEST_FINALIZED :: bytes where
  "KEY_LATEST_FINALIZED = string_bytes ''latest_finalized''"

section \<open>The struct\<close>

record 'd byte_store =
  ys_backend :: 'd
  ys_new_payloads :: payload_buffer
  ys_known_payloads :: payload_buffer
  ys_gossip_signatures_count :: nat

text \<open>Begin a batch, make the calls, commit.\<close>

definition db_write ::
  "('d, 'b) storage_backend \<Rightarrow> batch_op list \<Rightarrow> 'd byte_store \<Rightarrow> ('d byte_store, unit) result" where
  "db_write B ops y = bind_res (commit_ops B ops (ys_backend y)) (\<lambda>d. Ok (y\<lparr>ys_backend := d\<rparr>))"

definition expect_decode :: "'a ssz \<Rightarrow> bytes \<Rightarrow> ('a, unit) result" where
  "expect_decode E bs = expect (ssz_decode E bs)"

text \<open>Look a key up and decode the value.\<close>

definition db_lookup ::
  "('d, 'b) storage_backend \<Rightarrow> 'a ssz \<Rightarrow> table \<Rightarrow> bytes \<Rightarrow> 'd byte_store \<Rightarrow> ('a option, unit) result" where
  "db_lookup B E t key y =
     bind_res (read_key B (ys_backend y) t key) (\<lambda>v.
       case v of None \<Rightarrow> Ok None
       | Some bs \<Rightarrow> bind_res (expect_decode E bs) (\<lambda>x. Ok (Some x)))"

section \<open>Initialization\<close>

definition db_count_gossip_signatures :: "('d, 'b) storage_backend \<Rightarrow> 'd \<Rightarrow> (nat, unit) result" where
  "db_count_gossip_signatures B d = bind_res (scan B d GossipSignatures) (\<lambda>kvs. Ok (length kvs))"

definition db_init_store ::
  "('d, 'b) storage_backend \<Rightarrow> store_codec \<Rightarrow> hashing \<Rightarrow> 'd \<Rightarrow> state \<Rightarrow> block_body option \<Rightarrow>
   ('d byte_store, unit) result" where
  "db_init_store B K H d anchor_state0 anchor_body =
     (let original_state_root = hdr_state_root (st_latest_block_header anchor_state0);
          zeroed = anchor_state0\<lparr>st_latest_block_header :=
                     (st_latest_block_header anchor_state0)\<lparr>hdr_state_root := 0\<rparr>\<rparr>;
          anchor_state_root = h_state H zeroed
      in if original_state_root = 0 \<or> original_state_root = anchor_state_root
         then
           (let header = (st_latest_block_header zeroed)\<lparr>hdr_state_root := anchor_state_root\<rparr>;
                anchor_state = zeroed\<lparr>st_latest_block_header := header\<rparr>;
                anchor_block_root = h_header H header;
                anchor_checkpoint = \<lparr>cp_root = anchor_block_root, cp_slot = hdr_slot header\<rparr>
            in bind_res (commit_ops B
                 ([PutBatch Metadata
                     [(KEY_TIME, ssz_encode u64_ssz 0),
                      (KEY_CONFIG, ssz_encode (sc_config K) (st_config anchor_state)),
                      (KEY_HEAD, root_bytes anchor_block_root),
                      (KEY_SAFE_TARGET, root_bytes anchor_block_root),
                      (KEY_LATEST_JUSTIFIED, ssz_encode (sc_checkpoint K) anchor_checkpoint),
                      (KEY_LATEST_FINALIZED, ssz_encode (sc_checkpoint K) anchor_checkpoint)],
                   PutBatch BlockHeaders [(root_bytes anchor_block_root, ssz_encode (sc_header K) header)]] @
                  (case anchor_body of
                     Some body \<Rightarrow> [PutBatch BlockBodies [(root_bytes anchor_block_root, ssz_encode (sc_body K) body)]]
                   | None \<Rightarrow> []) @
                  [PutBatch States [(root_bytes anchor_block_root, ssz_encode (sc_state K) anchor_state)],
                   PutBatch LiveChain [(encode_live_chain_key (hdr_slot header, anchor_block_root),
                                        root_bytes (hdr_parent_root header))]]) d) (\<lambda>d'.
               bind_res (db_count_gossip_signatures B d') (\<lambda>initial_gossip_count.
                 Ok \<lparr>ys_backend = d', ys_new_payloads = buffer_new NEW_PAYLOAD_CAP,
                     ys_known_payloads = buffer_new AGGREGATED_PAYLOAD_CAP,
                     ys_gossip_signatures_count = initial_gossip_count\<rparr>)))
         else Panic)"

section \<open>Metadata\<close>

definition get_metadata ::
  "('d, 'b) storage_backend \<Rightarrow> 'a ssz \<Rightarrow> bytes \<Rightarrow> 'd byte_store \<Rightarrow> ('a, unit) result" where
  "get_metadata B E key y =
     bind_res (read_key B (ys_backend y) Metadata key) (\<lambda>v. bind_res (expect v) (expect_decode E))"

definition set_metadata ::
  "('d, 'b) storage_backend \<Rightarrow> 'a ssz \<Rightarrow> bytes \<Rightarrow> 'a \<Rightarrow> 'd byte_store \<Rightarrow> ('d byte_store, unit) result" where
  "set_metadata B E key value y = db_write B [PutBatch Metadata [(key, ssz_encode E value)]] y"

definition db_set_time :: "('d, 'b) storage_backend \<Rightarrow> u64 \<Rightarrow> 'd byte_store \<Rightarrow> ('d byte_store, unit) result" where
  "db_set_time B time y = set_metadata B u64_ssz KEY_TIME time y"

definition db_set_safe_target ::
  "('d, 'b) storage_backend \<Rightarrow> H256 \<Rightarrow> 'd byte_store \<Rightarrow> ('d byte_store, unit) result" where
  "db_set_safe_target B safe_target y = set_metadata B root_ssz KEY_SAFE_TARGET safe_target y"

section \<open>Pruning\<close>

text \<open>The keys of the live chain up to the first slot that is not below the bound.\<close>

fun live_keys_below :: "u64 \<Rightarrow> (bytes \<times> bytes) list \<Rightarrow> (bytes list, unit) result" where
  "live_keys_below bound [] = Ok []"
| "live_keys_below bound ((k, _) # kvs) =
     bind_res (decode_live_chain_key k) (\<lambda>(slot, _).
       if slot < bound then bind_res (live_keys_below bound kvs) (\<lambda>ks. Ok (k # ks)) else Ok [])"

definition db_prune_live_chain ::
  "('d, 'b) storage_backend \<Rightarrow> u64 \<Rightarrow> 'd byte_store \<Rightarrow> (nat \<times> 'd byte_store, unit) result" where
  "db_prune_live_chain B finalized_slot y =
     bind_res (scan B (ys_backend y) LiveChain) (\<lambda>kvs.
     bind_res (live_keys_below finalized_slot kvs) (\<lambda>keys_to_delete.
       if keys_to_delete = [] then Ok (0, y)
       else bind_res (db_write B [DeleteBatch LiveChain keys_to_delete] y)
              (\<lambda>y'. Ok (length keys_to_delete, y'))))"

definition db_prune_by_slot ::
  "('d, 'b) storage_backend \<Rightarrow> table \<Rightarrow> u64 \<Rightarrow> (bytes \<Rightarrow> u64 option) \<Rightarrow> 'd byte_store \<Rightarrow>
   (nat \<times> 'd byte_store, unit) result" where
  "db_prune_by_slot B t finalized_slot get_slot y =
     bind_res (scan B (ys_backend y) t) (\<lambda>kvs.
       (let to_delete = map fst (filter (\<lambda>(_, v).
              case get_slot v of Some slot \<Rightarrow> slot \<le> finalized_slot | None \<Rightarrow> False) kvs)
        in if to_delete = [] then Ok (length to_delete, y)
           else bind_res (db_write B [DeleteBatch t to_delete] y) (\<lambda>y'. Ok (length to_delete, y'))))"

definition db_prune_gossip_signatures ::
  "('d, 'b) storage_backend \<Rightarrow> store_codec \<Rightarrow> u64 \<Rightarrow> 'd byte_store \<Rightarrow> (nat \<times> 'd byte_store, unit) result" where
  "db_prune_gossip_signatures B K finalized_slot y =
     bind_res (db_prune_by_slot B GossipSignatures finalized_slot
                 (\<lambda>bs. map_option ss_slot (ssz_decode (sc_gossip_signature K) bs)) y) (\<lambda>(pruned, y').
       Ok (pruned, y'\<lparr>ys_gossip_signatures_count := ys_gossip_signatures_count y' - pruned\<rparr>))"

definition db_prune_attestation_data_by_root ::
  "('d, 'b) storage_backend \<Rightarrow> store_codec \<Rightarrow> u64 \<Rightarrow> 'd byte_store \<Rightarrow> (nat \<times> 'd byte_store, unit) result" where
  "db_prune_attestation_data_by_root B K finalized_slot y =
     db_prune_by_slot B AttestationDataByRoot finalized_slot
       (\<lambda>bs. map_option ad_slot (ssz_decode (sc_attestation_data K) bs)) y"

text \<open>The encoded roots beyond the retention window, by descending slot, that are not protected.\<close>

definition db_keys_beyond ::
  "('d, 'b) storage_backend \<Rightarrow> store_codec \<Rightarrow> ((bytes \<times> u64) list \<Rightarrow> (bytes \<times> u64) list) \<Rightarrow> nat \<Rightarrow>
   H256 list \<Rightarrow> 'd byte_store \<Rightarrow> (bytes list, unit) result" where
  "db_keys_beyond B K sort_desc keep protected_roots y =
     bind_res (scan B (ys_backend y) BlockHeaders) (\<lambda>kvs.
     bind_res (map_res (\<lambda>(key, v). bind_res (expect_decode (sc_header K) v) (\<lambda>h. Ok (key, hdr_slot h))) kvs)
       (\<lambda>entries.
         if length entries \<le> keep then Ok []
         else Ok (map fst (filter (\<lambda>(key, _). key \<notin> set (map root_bytes protected_roots))
                (drop keep (sort_desc entries))))))"

definition db_prune_old_states ::
  "('d, 'b) storage_backend \<Rightarrow> store_codec \<Rightarrow> ((bytes \<times> u64) list \<Rightarrow> (bytes \<times> u64) list) \<Rightarrow>
   H256 list \<Rightarrow> 'd byte_store \<Rightarrow> (nat \<times> 'd byte_store, unit) result" where
  "db_prune_old_states B K sort_desc protected_roots y =
     bind_res (db_keys_beyond B K sort_desc STATES_TO_KEEP protected_roots y) (\<lambda>keys.
       if keys = [] then Ok (0, y)
       else bind_res (db_write B [DeleteBatch States keys] y) (\<lambda>y'. Ok (length keys, y')))"

definition db_prune_old_blocks ::
  "('d, 'b) storage_backend \<Rightarrow> store_codec \<Rightarrow> ((bytes \<times> u64) list \<Rightarrow> (bytes \<times> u64) list) \<Rightarrow>
   H256 list \<Rightarrow> 'd byte_store \<Rightarrow> (nat \<times> 'd byte_store, unit) result" where
  "db_prune_old_blocks B K sort_desc protected_roots y =
     bind_res (db_keys_beyond B K sort_desc BLOCKS_TO_KEEP protected_roots y) (\<lambda>keys.
       if keys = [] then Ok (0, y)
       else bind_res (db_write B [DeleteBatch BlockHeaders keys, DeleteBatch BlockBodies keys,
                                  DeleteBatch BlockSignatures keys] y) (\<lambda>y'. Ok (length keys, y')))"

definition db_prune_old_data ::
  "('d, 'b) storage_backend \<Rightarrow> store_codec \<Rightarrow> ((bytes \<times> u64) list \<Rightarrow> (bytes \<times> u64) list) \<Rightarrow>
   'd byte_store \<Rightarrow> ('d byte_store, unit) result" where
  "db_prune_old_data B K sort_desc y =
     bind_res (get_metadata B (sc_checkpoint K) KEY_LATEST_FINALIZED y) (\<lambda>finalized.
     bind_res (get_metadata B (sc_checkpoint K) KEY_LATEST_JUSTIFIED y) (\<lambda>justified.
     let protected_roots = [cp_root finalized, cp_root justified]
     in bind_res (db_prune_old_states B K sort_desc protected_roots y) (\<lambda>(_, y1).
        bind_res (db_prune_old_blocks B K sort_desc protected_roots y1) (\<lambda>(_, y2). Ok y2))))"

section \<open>Checkpoints\<close>

definition checkpoint_entries :: "store_codec \<Rightarrow> fork_checkpoints \<Rightarrow> (bytes \<times> bytes) list" where
  "checkpoint_entries K fc =
     [(KEY_HEAD, root_bytes (fc_head fc))] @
     (case fc_justified fc of None \<Rightarrow> [] | Some cp \<Rightarrow> [(KEY_LATEST_JUSTIFIED, ssz_encode (sc_checkpoint K) cp)]) @
     (case fc_finalized fc of None \<Rightarrow> [] | Some cp \<Rightarrow> [(KEY_LATEST_FINALIZED, ssz_encode (sc_checkpoint K) cp)])"

definition db_update_checkpoints ::
  "('d, 'b) storage_backend \<Rightarrow> store_codec \<Rightarrow> fork_checkpoints \<Rightarrow> 'd byte_store \<Rightarrow> ('d byte_store, unit) result" where
  "db_update_checkpoints B K fc y =
     bind_res (get_metadata B (sc_checkpoint K) KEY_LATEST_FINALIZED y) (\<lambda>old_finalized.
     bind_res (db_write B [PutBatch Metadata (checkpoint_entries K fc)] y) (\<lambda>y1.
       case fc_finalized fc of
         None \<Rightarrow> Ok y1
       | Some finalized \<Rightarrow>
           if cp_slot finalized > cp_slot old_finalized
           then bind_res (db_prune_live_chain B (cp_slot finalized) y1) (\<lambda>(_, y2).
                bind_res (db_prune_gossip_signatures B K (cp_slot finalized) y2) (\<lambda>(_, y3).
                bind_res (db_prune_attestation_data_by_root B K (cp_slot finalized) y3) (\<lambda>(_, y4). Ok y4)))
           else Ok y1))"

section \<open>Blocks and states\<close>

definition live_chain_entry :: "bytes \<times> bytes \<Rightarrow> (H256 \<times> u64 \<times> H256, unit) result" where
  "live_chain_entry = (\<lambda>(k, v).
     bind_res (decode_live_chain_key k) (\<lambda>(slot, root).
     bind_res (expect_decode root_ssz v) (\<lambda>parent_root. Ok (root, (slot, parent_root)))))"

definition db_get_live_chain ::
  "('d, 'b) storage_backend \<Rightarrow> 'd byte_store \<Rightarrow> ((H256 \<times> u64 \<times> H256) list, unit) result" where
  "db_get_live_chain B y =
     bind_res (scan B (ys_backend y) LiveChain) (\<lambda>kvs.
     bind_res (map_res live_chain_entry kvs) (\<lambda>entries. Ok (collect_map entries)))"

definition db_get_block_roots :: "('d, 'b) storage_backend \<Rightarrow> 'd byte_store \<Rightarrow> (H256 list, unit) result" where
  "db_get_block_roots B y =
     bind_res (scan B (ys_backend y) LiveChain) (\<lambda>kvs.
     bind_res (map_res (\<lambda>(k, _). bind_res (decode_live_chain_key k) (\<lambda>(_, root). Ok root)) kvs)
       (\<lambda>roots. Ok (remdups roots)))"

definition db_get_block_header ::
  "('d, 'b) storage_backend \<Rightarrow> store_codec \<Rightarrow> H256 \<Rightarrow> 'd byte_store \<Rightarrow> (block_header option, unit) result" where
  "db_get_block_header B K root y = db_lookup B (sc_header K) BlockHeaders (root_bytes root) y"

definition signed_block_ops :: "store_codec \<Rightarrow> hashing \<Rightarrow> H256 \<Rightarrow> signed_block_with_attestation \<Rightarrow> batch_op list" where
  "signed_block_ops K H root signed_block =
     (let b = bwa_block (sb_message signed_block);
          signatures = \<lparr>bsa_proposer_attestation = bwa_proposer_attestation (sb_message signed_block),
                        bsa_signatures = sb_signature signed_block\<rparr>;
          header = block_header_of H b
      in [PutBatch BlockHeaders [(root_bytes root, ssz_encode (sc_header K) header)]] @
         (if hdr_body_root header \<noteq> EMPTY_BODY_ROOT H
          then [PutBatch BlockBodies [(root_bytes root, ssz_encode (sc_body K) (blk_body b))]] else []) @
         [PutBatch BlockSignatures [(root_bytes root, ssz_encode (sc_signatures K) signatures)]])"

definition db_insert_pending_block ::
  "('d, 'b) storage_backend \<Rightarrow> store_codec \<Rightarrow> hashing \<Rightarrow> H256 \<Rightarrow> signed_block_with_attestation \<Rightarrow>
   'd byte_store \<Rightarrow> ('d byte_store, unit) result" where
  "db_insert_pending_block B K H root signed_block y = db_write B (signed_block_ops K H root signed_block) y"

definition db_insert_signed_block ::
  "('d, 'b) storage_backend \<Rightarrow> store_codec \<Rightarrow> hashing \<Rightarrow> H256 \<Rightarrow> signed_block_with_attestation \<Rightarrow>
   'd byte_store \<Rightarrow> ('d byte_store, unit) result" where
  "db_insert_signed_block B K H root signed_block y =
     (let b = bwa_block (sb_message signed_block)
      in db_write B (signed_block_ops K H root signed_block @
           [PutBatch LiveChain [(encode_live_chain_key (blk_slot b, root), root_bytes (blk_parent_root b))]]) y)"

definition db_get_signed_block ::
  "('d, 'b) storage_backend \<Rightarrow> store_codec \<Rightarrow> hashing \<Rightarrow> H256 \<Rightarrow> 'd byte_store \<Rightarrow>
   (signed_block_with_attestation option, unit) result" where
  "db_get_signed_block B K H root y =
     bind_res (read_key B (ys_backend y) BlockHeaders (root_bytes root)) (\<lambda>header_bytes.
     bind_res (read_key B (ys_backend y) BlockSignatures (root_bytes root)) (\<lambda>sig_bytes.
       case (header_bytes, sig_bytes) of
         (Some hb, Some sb) \<Rightarrow>
           bind_res (expect_decode (sc_header K) hb) (\<lambda>header.
           bind_res (if hdr_body_root header = EMPTY_BODY_ROOT H then Ok (Some block_body_default)
                     else db_lookup B (sc_body K) BlockBodies (root_bytes root) y) (\<lambda>body.
             case body of
               None \<Rightarrow> Ok None
             | Some body \<Rightarrow>
                 bind_res (expect_decode (sc_signatures K) sb) (\<lambda>signatures.
                   Ok (Some (to_signed_block signatures (from_header_and_body header body))))))
       | _ \<Rightarrow> Ok None))"

definition db_get_state ::
  "('d, 'b) storage_backend \<Rightarrow> store_codec \<Rightarrow> H256 \<Rightarrow> 'd byte_store \<Rightarrow> (state option, unit) result" where
  "db_get_state B K root y = db_lookup B (sc_state K) States (root_bytes root) y"

definition db_has_state :: "('d, 'b) storage_backend \<Rightarrow> H256 \<Rightarrow> 'd byte_store \<Rightarrow> (bool, unit) result" where
  "db_has_state B root y =
     bind_res (read_key B (ys_backend y) States (root_bytes root)) (\<lambda>v. Ok (v \<noteq> None))"

definition db_insert_state ::
  "('d, 'b) storage_backend \<Rightarrow> store_codec \<Rightarrow> H256 \<Rightarrow> state \<Rightarrow> 'd byte_store \<Rightarrow> ('d byte_store, unit) result" where
  "db_insert_state B K root st y = db_write B [PutBatch States [(root_bytes root, ssz_encode (sc_state K) st)]] y"

section \<open>Attestation data\<close>

definition db_insert_attestation_data_by_root ::
  "('d, 'b) storage_backend \<Rightarrow> store_codec \<Rightarrow> H256 \<Rightarrow> attestation_data \<Rightarrow> 'd byte_store \<Rightarrow>
   ('d byte_store, unit) result" where
  "db_insert_attestation_data_by_root B K root data y =
     db_write B [PutBatch AttestationDataByRoot [(root_bytes root, ssz_encode (sc_attestation_data K) data)]] y"

definition db_insert_attestation_data_by_root_batch ::
  "('d, 'b) storage_backend \<Rightarrow> store_codec \<Rightarrow> (H256 \<times> attestation_data) list \<Rightarrow> 'd byte_store \<Rightarrow>
   ('d byte_store, unit) result" where
  "db_insert_attestation_data_by_root_batch B K entries y =
     (if entries = [] then Ok y
      else db_write B [PutBatch AttestationDataByRoot
             (map (\<lambda>(root, data). (root_bytes root, ssz_encode (sc_attestation_data K) data)) entries)] y)"

definition db_get_attestation_data_by_root ::
  "('d, 'b) storage_backend \<Rightarrow> store_codec \<Rightarrow> H256 \<Rightarrow> 'd byte_store \<Rightarrow> (attestation_data option, unit) result" where
  "db_get_attestation_data_by_root B K root y =
     db_lookup B (sc_attestation_data K) AttestationDataByRoot (root_bytes root) y"

definition db_extract_step ::
  "('d, 'b) storage_backend \<Rightarrow> store_codec \<Rightarrow> 'd byte_store \<Rightarrow> signature_key \<Rightarrow>
   (H256 \<times> attestation_data option) list \<times> (u64 \<times> attestation_data) list \<Rightarrow>
   ((H256 \<times> attestation_data option) list \<times> (u64 \<times> attestation_data) list, unit) result" where
  "db_extract_step B K y = (\<lambda>(validator_id, data_root) (data_cache, res).
     bind_res (case map_of data_cache data_root of
                 Some cached \<Rightarrow> Ok (data_cache, cached)
               | None \<Rightarrow> bind_res (db_get_attestation_data_by_root B K data_root y)
                           (\<lambda>found. Ok (AList.update data_root found data_cache, found))) (\<lambda>(cache, data).
       Ok (cache,
           case data of
             None \<Rightarrow> res
           | Some data \<Rightarrow>
               if (case map_of res validator_id of
                     None \<Rightarrow> True | Some existing \<Rightarrow> ad_slot existing < ad_slot data)
               then AList.update validator_id data res else res)))"

definition db_extract_latest_attestations ::
  "('d, 'b) storage_backend \<Rightarrow> store_codec \<Rightarrow> signature_key list \<Rightarrow> 'd byte_store \<Rightarrow>
   ((u64 \<times> attestation_data) list, unit) result" where
  "db_extract_latest_attestations B K keys y =
     bind_res (fold_res (db_extract_step B K y) keys ([], [])) (\<lambda>(_, res). Ok res)"

section \<open>Payloads\<close>

definition db_insert_known_payloads ::
  "(signature_key \<times> stored_aggregated_payload) list \<Rightarrow> 'd byte_store \<Rightarrow> 'd byte_store" where
  "db_insert_known_payloads entries y = y\<lparr>ys_known_payloads := buffer_push_batch entries (ys_known_payloads y)\<rparr>"

definition db_insert_new_payloads ::
  "(signature_key \<times> stored_aggregated_payload) list \<Rightarrow> 'd byte_store \<Rightarrow> 'd byte_store" where
  "db_insert_new_payloads entries y = y\<lparr>ys_new_payloads := buffer_push_batch entries (ys_new_payloads y)\<rparr>"

definition db_promote_new_aggregated_payloads :: "'d byte_store \<Rightarrow> 'd byte_store" where
  "db_promote_new_aggregated_payloads y =
     (case buffer_drain (ys_new_payloads y) of
        (drained, b) \<Rightarrow> y\<lparr>ys_new_payloads := b,
                          ys_known_payloads := buffer_push_batch drained (ys_known_payloads y)\<rparr>)"

section \<open>Gossip signatures\<close>

definition db_delete_gossip_signatures ::
  "('d, 'b) storage_backend \<Rightarrow> signature_key list \<Rightarrow> 'd byte_store \<Rightarrow> ('d byte_store, unit) result" where
  "db_delete_gossip_signatures B keys y =
     (if keys = [] then Ok y
      else bind_res (db_write B [DeleteBatch GossipSignatures (map encode_signature_key keys)] y) (\<lambda>y'.
             Ok (y'\<lparr>ys_gossip_signatures_count := ys_gossip_signatures_count y' - length keys\<rparr>)))"

text \<open>A key must decode; a value that does not is skipped.\<close>

fun gossip_entries :: "stored_signature ssz \<Rightarrow> (bytes \<times> bytes) list \<Rightarrow> ((signature_key \<times> stored_signature) list, unit) result" where
  "gossip_entries E [] = Ok []"
| "gossip_entries E ((k, v) # kvs) =
     bind_res (decode_signature_key k) (\<lambda>key.
     bind_res (gossip_entries E kvs) (\<lambda>rest.
       Ok (case ssz_decode E v of None \<Rightarrow> rest | Some stored \<Rightarrow> (key, stored) # rest)))"

definition db_iter_gossip_signatures ::
  "('d, 'b) storage_backend \<Rightarrow> store_codec \<Rightarrow> 'd byte_store \<Rightarrow> ((signature_key \<times> stored_signature) list, unit) result" where
  "db_iter_gossip_signatures B K y =
     bind_res (scan B (ys_backend y) GossipSignatures) (gossip_entries (sc_gossip_signature K))"

definition db_insert_gossip_signature ::
  "('d, 'b) storage_backend \<Rightarrow> store_codec \<Rightarrow> ('pk, 'sig, 'sk) crypto \<Rightarrow> H256 \<Rightarrow> u64 \<Rightarrow> u64 \<Rightarrow> 'sig \<Rightarrow>
   'd byte_store \<Rightarrow> ('d byte_store, unit) result" where
  "db_insert_gossip_signature B K C data_root slot validator_id signature y =
     (let encoded_key = encode_signature_key (validator_id, data_root)
      in bind_res (read_key B (ys_backend y) GossipSignatures encoded_key) (\<lambda>v.
         bind_res (db_write B [PutBatch GossipSignatures
             [(encoded_key, ssz_encode (sc_gossip_signature K) (stored_signature_new C slot signature))]] y) (\<lambda>y'.
           Ok (if v = None then y'\<lparr>ys_gossip_signatures_count := ys_gossip_signatures_count y' + 1\<rparr> else y'))))"

section \<open>Derived accessors\<close>

definition db_head_slot :: "('d, 'b) storage_backend \<Rightarrow> store_codec \<Rightarrow> 'd byte_store \<Rightarrow> (u64, unit) result" where
  "db_head_slot B K y =
     bind_res (get_metadata B root_ssz KEY_HEAD y) (\<lambda>head.
     bind_res (db_get_block_header B K head y) (\<lambda>h. bind_res (expect h) (\<lambda>h. Ok (hdr_slot h))))"

definition db_safe_target_slot :: "('d, 'b) storage_backend \<Rightarrow> store_codec \<Rightarrow> 'd byte_store \<Rightarrow> (u64, unit) result" where
  "db_safe_target_slot B K y =
     bind_res (get_metadata B root_ssz KEY_SAFE_TARGET y) (\<lambda>target.
     bind_res (db_get_block_header B K target y) (\<lambda>h. bind_res (expect h) (\<lambda>h. Ok (hdr_slot h))))"

definition db_head_state :: "('d, 'b) storage_backend \<Rightarrow> store_codec \<Rightarrow> 'd byte_store \<Rightarrow> (state, unit) result" where
  "db_head_state B K y =
     bind_res (get_metadata B root_ssz KEY_HEAD y) (\<lambda>head. bind_res (db_get_state B K head y) expect)"

end
