(* ===== verification/Rocksdb.thy ===== *)
theory Rocksdb
  imports Backend Tables
begin

text \<open>
  The persistent backend of \<open>crates/storage/src/backend/rocksdb.rs\<close>. The RocksDB library is the
  parameter \<open>rocksdb\<close>: a database of column families, of which the backend keeps one per table. The
  locale \<open>rocksdb_library\<close> states what the library documents, relative to the databases on which its
  calls do not fail: a family is a map, iteration starts at the first key not below the prefix and
  visits the rest of the family in ascending byte order, and a write applies the operations of a
  batch in their order. From this the backend is an ordered storage (\<open>ordered_storage\<close>); in
  particular cutting the iteration at the first key without the prefix loses no key. The locale is
  interpreted on a library of sorted lists.
\<close>

section \<open>The library\<close>

record ('db, 'cf, 'wb) rocksdb =
  rk_open_cf_descriptors :: "string list \<Rightarrow> ('db, storage_error) result"
  rk_cf_handle :: "'db \<Rightarrow> string \<Rightarrow> 'cf option"
  rk_get_cf :: "'db \<Rightarrow> 'cf \<Rightarrow> bytes \<Rightarrow> (bytes option, storage_error) result"
  rk_prefix_iterator_cf :: "'db \<Rightarrow> 'cf \<Rightarrow> bytes \<Rightarrow> (bytes \<times> bytes, storage_error) result list"
  rk_write_batch_default :: 'wb
  rk_put_cf :: "'cf \<Rightarrow> bytes \<Rightarrow> bytes \<Rightarrow> 'wb \<Rightarrow> 'wb"
  rk_delete_cf :: "'cf \<Rightarrow> bytes \<Rightarrow> 'wb \<Rightarrow> 'wb"
  rk_write_opt :: "'db \<Rightarrow> 'wb \<Rightarrow> bool \<Rightarrow> ('db, storage_error) result"
  rk_property_int_value_cf :: "'db \<Rightarrow> 'cf \<Rightarrow> string \<Rightarrow> (u64 option, storage_error) result"

section \<open>The backend\<close>

fun cf_name :: "table \<Rightarrow> string" where
  "cf_name BlockHeaders = ''block_headers''"
| "cf_name BlockBodies = ''block_bodies''"
| "cf_name BlockSignatures = ''block_signatures''"
| "cf_name States = ''states''"
| "cf_name GossipSignatures = ''gossip_signatures''"
| "cf_name AttestationDataByRoot = ''attestation_data_by_root''"
| "cf_name Metadata = ''metadata''"
| "cf_name LiveChain = ''live_chain''"

definition rocksdb_open :: "('db, 'cf, 'wb) rocksdb \<Rightarrow> ('db, storage_error) result" where
  "rocksdb_open L = rk_open_cf_descriptors L (map cf_name ALL_TABLES)"

definition rocksdb_begin_read :: "('db, 'cf, 'wb) rocksdb \<Rightarrow> 'db \<Rightarrow> ('db, storage_error) result" where
  "rocksdb_begin_read L db = Ok db"

definition rocksdb_begin_write :: "('db, 'cf, 'wb) rocksdb \<Rightarrow> 'db \<Rightarrow> ('wb, storage_error) result" where
  "rocksdb_begin_write L db = Ok (rk_write_batch_default L)"

definition column_family :: "('db, 'cf, 'wb) rocksdb \<Rightarrow> 'db \<Rightarrow> table \<Rightarrow> ('cf, storage_error) result" where
  "column_family L db table =
     ok_or (rk_cf_handle L db (cf_name table)) (''Column family '' @ cf_name table @ '' not found'')"

text \<open>Both properties are 0 when they cannot be read; the sum wraps.\<close>

definition rocksdb_property :: "('db, 'cf, 'wb) rocksdb \<Rightarrow> 'db \<Rightarrow> 'cf \<Rightarrow> string \<Rightarrow> u64" where
  "rocksdb_property L db cf name =
     (case rk_property_int_value_cf L db cf name of Ok (Some n) \<Rightarrow> n | _ \<Rightarrow> 0)"

definition rocksdb_estimate_table_bytes :: "('db, 'cf, 'wb) rocksdb \<Rightarrow> 'db \<Rightarrow> table \<Rightarrow> u64" where
  "rocksdb_estimate_table_bytes L db table =
     (case rk_cf_handle L db (cf_name table) of
        None \<Rightarrow> 0
      | Some cf \<Rightarrow> rocksdb_property L db cf ''rocksdb.estimate-live-data-size'' +
                   rocksdb_property L db cf ''rocksdb.cur-size-all-mem-tables'')"

definition rocksdb_get ::
  "('db, 'cf, 'wb) rocksdb \<Rightarrow> 'db \<Rightarrow> table \<Rightarrow> bytes \<Rightarrow> (bytes option, storage_error) result" where
  "rocksdb_get L db table key = bind_res (column_family L db table) (\<lambda>cf. rk_get_cf L db cf key)"

definition rocksdb_prefix_iterator ::
  "('db, 'cf, 'wb) rocksdb \<Rightarrow> 'db \<Rightarrow> table \<Rightarrow> bytes \<Rightarrow>
   ((bytes \<times> bytes, storage_error) result list, storage_error) result" where
  "rocksdb_prefix_iterator L db table prefix =
     bind_res (column_family L db table) (\<lambda>cf.
       Ok (takeWhile (\<lambda>res. case res of Ok (key, _) \<Rightarrow> starts_with key prefix | _ \<Rightarrow> True)
             (rk_prefix_iterator_cf L db cf prefix)))"

definition rocksdb_put_batch ::
  "('db, 'cf, 'wb) rocksdb \<Rightarrow> 'db \<Rightarrow> 'wb \<Rightarrow> table \<Rightarrow> (bytes \<times> bytes) list \<Rightarrow> ('wb, storage_error) result" where
  "rocksdb_put_batch L db wb table batch =
     bind_res (column_family L db table) (\<lambda>cf. Ok (fold (\<lambda>(key, value). rk_put_cf L cf key value) batch wb))"

definition rocksdb_delete_batch ::
  "('db, 'cf, 'wb) rocksdb \<Rightarrow> 'db \<Rightarrow> 'wb \<Rightarrow> table \<Rightarrow> bytes list \<Rightarrow> ('wb, storage_error) result" where
  "rocksdb_delete_batch L db wb table keys =
     bind_res (column_family L db table) (\<lambda>cf. Ok (fold (rk_delete_cf L cf) keys wb))"

definition rocksdb_commit ::
  "('db, 'cf, 'wb) rocksdb \<Rightarrow> 'db \<Rightarrow> 'wb \<Rightarrow> ('db, storage_error) result" where
  "rocksdb_commit L db wb = rk_write_opt L db wb False"

definition rocksdb_backend :: "('db, 'cf, 'wb) rocksdb \<Rightarrow> ('db, 'wb) storage_backend" where
  "rocksdb_backend L =
     \<lparr>sb_begin_read = rocksdb_begin_read L, sb_get = rocksdb_get L,
      sb_prefix_iterator = rocksdb_prefix_iterator L, sb_begin_write = rocksdb_begin_write L,
      sb_put_batch = rocksdb_put_batch L, sb_delete_batch = rocksdb_delete_batch L,
      sb_commit = rocksdb_commit L, sb_estimate_table_bytes = rocksdb_estimate_table_bytes L\<rparr>"

lemmas rocksdb_defs = rocksdb_backend_def rocksdb_begin_read_def rocksdb_get_def
  rocksdb_prefix_iterator_def rocksdb_begin_write_def rocksdb_put_batch_def rocksdb_delete_batch_def
  rocksdb_commit_def column_family_def

section \<open>Keys with a prefix\<close>

text \<open>The keys that start with a prefix are an interval that begins at the prefix.\<close>

lemma starts_with_ge: "starts_with k p \<Longrightarrow> p \<le> k"
proof (induction p arbitrary: k)
  case (Cons a p)
  then show ?case by (cases k) (auto simp: starts_with_def)
qed simp

lemma starts_with_between:
  "p \<le> k \<Longrightarrow> k \<le> k' \<Longrightarrow> starts_with k' p \<Longrightarrow> starts_with k p"
proof (induction p arbitrary: k k')
  case Nil
  then show ?case by (simp add: starts_with_def)
next
  case (Cons a p)
  then show ?case by (cases k; cases k') (auto simp: starts_with_def)
qed

lemma takeWhile_prefix:
  assumes "sorted_wrt (<) (map fst kvs)" and "\<forall>k \<in> fst ` set kvs. p \<le> k"
  shows "takeWhile (\<lambda>kv. starts_with (fst kv) p) kvs = filter (\<lambda>kv. starts_with (fst kv) p) kvs"
  using assms
proof (induction kvs)
  case (Cons kv kvs)
  show ?case
  proof (cases "starts_with (fst kv) p")
    case False
    have "\<not> starts_with (fst kv') p" if "kv' \<in> set kvs" for kv'
      using starts_with_between [of p "fst kv" "fst kv'"] False Cons.prems that by (auto simp: less_imp_le)
    with False show ?thesis by (simp add: filter_empty_conv)
  qed (use Cons in simp)
qed simp

lemma takeWhile_map_Ok:
  "takeWhile (\<lambda>res. case res of Ok (key, _) \<Rightarrow> P key | _ \<Rightarrow> True) (map Ok kvs) =
     map Ok (takeWhile (\<lambda>kv. P (fst kv)) kvs)"
  by (induction kvs) auto

section \<open>What the library documents\<close>

text \<open>
  \<open>live db\<close>: the database was opened with the families of all tables and its calls succeed.
  \<open>family db cf\<close> is the map a column family holds and \<open>record_of wb\<close> the operations recorded in a batch,
  the oldest first; \<open>None\<close> stands for a deletion.
\<close>

type_synonym 'cf family_map = "'cf \<Rightarrow> bytes \<rightharpoonup> bytes"

fun replay :: "'cf \<times> bytes \<times> bytes option \<Rightarrow> 'cf family_map \<Rightarrow> 'cf family_map" where
  "replay (cf, k, v) m = m(cf := (m cf)(k := v))"

text \<open>The tables of the storage interface, seen through the handles of the families.\<close>

definition tables_of :: "('db, 'cf, 'wb) rocksdb \<Rightarrow> ('db \<Rightarrow> 'cf family_map) \<Rightarrow> 'db \<Rightarrow> contents" where
  "tables_of L family db t =
     (case rk_cf_handle L db (cf_name t) of None \<Rightarrow> Map.empty | Some cf \<Rightarrow> family db cf)"

definition replayed_on :: "'cf option \<Rightarrow> ('cf \<times> bytes \<times> bytes option) list \<Rightarrow> (bytes \<rightharpoonup> bytes) \<Rightarrow> (bytes \<rightharpoonup> bytes)" where
  "replayed_on cf ops m = fold (\<lambda>(cf', k, v) m. if cf = Some cf' then m(k := v) else m) ops m"

definition batch_effect ::
  "('db, 'cf, 'wb) rocksdb \<Rightarrow> ('wb \<Rightarrow> ('cf \<times> bytes \<times> bytes option) list) \<Rightarrow> 'db \<Rightarrow> 'wb \<Rightarrow> contents \<Rightarrow> contents" where
  "batch_effect L record_of db wb c t = replayed_on (rk_cf_handle L db (cf_name t)) (record_of wb) (c t)"

definition own_families ::
  "('db, 'cf, 'wb) rocksdb \<Rightarrow> ('wb \<Rightarrow> ('cf \<times> bytes \<times> bytes option) list) \<Rightarrow> 'db \<Rightarrow> 'wb \<Rightarrow> bool" where
  "own_families L record_of db wb \<longleftrightarrow> fst ` set (record_of wb) \<subseteq> ran (rk_cf_handle L db)"

lemma replayed_on_append: "replayed_on cf (ops @ ops') m = replayed_on cf ops' (replayed_on cf ops m)"
  by (simp add: replayed_on_def)

lemma replay_family: "fold replay ops m cf = replayed_on (Some cf) ops (m cf)"
  by (induction ops arbitrary: m) (auto simp: replayed_on_def)

lemma replayed_on_puts:
  "replayed_on (Some cf) (map (\<lambda>(k, v). (cf', k, Some v)) kvs) m =
     (if cf' = cf then m ++ map_of (rev kvs) else m)"
  by (induction kvs arbitrary: m) (auto simp: replayed_on_def)

lemma replayed_on_deletes:
  "replayed_on (Some cf) (map (\<lambda>k. (cf', k, None)) ks) m = (if cf' = cf then m |` (- set ks) else m)"
  by (induction ks arbitrary: m) (auto simp: replayed_on_def restrict_map_def fun_eq_iff)

locale rocksdb_library =
  fixes L :: "('db, 'cf, 'wb) rocksdb" and live :: "'db \<Rightarrow> bool"
    and family :: "'db \<Rightarrow> 'cf family_map"
    and record_of :: "'wb \<Rightarrow> ('cf \<times> bytes \<times> bytes option) list"
  assumes families: "live db \<Longrightarrow> \<exists>cf. rk_cf_handle L db (cf_name t) = Some cf"
    and distinct_families: "live db \<Longrightarrow> rk_cf_handle L db n = Some cf \<Longrightarrow> rk_cf_handle L db n' = Some cf \<Longrightarrow> n = n'"
    and get_cf: "live db \<Longrightarrow> rk_get_cf L db cf k = Ok (family db cf k)"
    and iterate_cf: "live db \<Longrightarrow> \<exists>kvs. rk_prefix_iterator_cf L db cf p = map Ok kvs \<and>
      sorted_wrt (<) (map fst kvs) \<and> (\<forall>k v. (k, v) \<in> set kvs \<longleftrightarrow> p \<le> k \<and> family db cf k = Some v)"
    and empty_batch: "record_of (rk_write_batch_default L) = []"
    and put_cf: "record_of (rk_put_cf L cf k v wb) = record_of wb @ [(cf, k, Some v)]"
    and delete_cf: "record_of (rk_delete_cf L cf k wb) = record_of wb @ [(cf, k, None)]"
    and write_opt: "live db \<Longrightarrow> own_families L record_of db wb \<Longrightarrow> \<exists>db'. rk_write_opt L db wb sync = Ok db' \<and> live db' \<and>
      rk_cf_handle L db' = rk_cf_handle L db \<and> family db' = fold replay (record_of wb) (family db)"
begin

lemma record_of_puts:
  "record_of (fold (\<lambda>(key, value). rk_put_cf L cf key value) kvs wb) =
     record_of wb @ map (\<lambda>(k, v). (cf, k, Some v)) kvs"
  by (induction kvs arbitrary: wb) (auto simp: put_cf)

lemma record_of_deletes:
  "record_of (fold (rk_delete_cf L cf) ks wb) = record_of wb @ map (\<lambda>k. (cf, k, None)) ks"
  by (induction ks arbitrary: wb) (auto simp: delete_cf)

lemma same_family:
  assumes "live db" and "rk_cf_handle L db (cf_name t) = Some cf" and "rk_cf_handle L db (cf_name t') = Some cf'"
  shows "cf = cf' \<longleftrightarrow> t' = t"
proof -
  have "cf_name t = cf_name t' \<longleftrightarrow> t' = t" by (cases t; cases t') simp_all
  with assms distinct_families [OF assms(1)] show ?thesis by (metis option.inject)
qed

lemma own_families_put:
  "rk_cf_handle L db n = Some cf \<Longrightarrow> own_families L record_of db wb \<Longrightarrow>
     own_families L record_of db (fold (\<lambda>(key, value). rk_put_cf L cf key value) kvs wb)"
  by (auto simp: own_families_def record_of_puts ranI)

lemma own_families_delete:
  "rk_cf_handle L db n = Some cf \<Longrightarrow> own_families L record_of db wb \<Longrightarrow>
     own_families L record_of db (fold (rk_delete_cf L cf) ks wb)"
  by (auto simp: own_families_def record_of_deletes ranI)

lemma batch_effect_put:
  assumes "live db" and cf: "rk_cf_handle L db (cf_name t) = Some cf"
  shows "batch_effect L record_of db (fold (\<lambda>(key, value). rk_put_cf L cf key value) kvs wb) c =
    perform (PutBatch t kvs) (batch_effect L record_of db wb c)"
proof
  fix t'
  from families [OF assms(1)] obtain cf' where cf': "rk_cf_handle L db (cf_name t') = Some cf'" by blast
  from same_family [OF assms cf'] show "batch_effect L record_of db
      (fold (\<lambda>(key, value). rk_put_cf L cf key value) kvs wb) c t' =
    perform (PutBatch t kvs) (batch_effect L record_of db wb c) t'"
    using cf cf' by (auto simp: batch_effect_def record_of_puts replayed_on_append replayed_on_puts)
qed

lemma batch_effect_delete:
  assumes "live db" and cf: "rk_cf_handle L db (cf_name t) = Some cf"
  shows "batch_effect L record_of db (fold (rk_delete_cf L cf) ks wb) c =
    perform (DeleteBatch t ks) (batch_effect L record_of db wb c)"
proof
  fix t'
  from families [OF assms(1)] obtain cf' where cf': "rk_cf_handle L db (cf_name t') = Some cf'" by blast
  from same_family [OF assms cf'] show "batch_effect L record_of db (fold (rk_delete_cf L cf) ks wb) c t' =
    perform (DeleteBatch t ks) (batch_effect L record_of db wb c) t'"
    using cf cf' by (auto simp: batch_effect_def record_of_deletes replayed_on_append replayed_on_deletes)
qed

lemma commit_tables:
  assumes "live db" and "own_families L record_of db wb"
  shows "\<exists>db'. rocksdb_commit L db wb = Ok db' \<and> live db' \<and>
    tables_of L family db' = batch_effect L record_of db wb (tables_of L family db)"
proof -
  from write_opt [OF assms, of False] obtain db' where
    db': "rk_write_opt L db wb False = Ok db'" "live db'" "rk_cf_handle L db' = rk_cf_handle L db"
      "family db' = fold replay (record_of wb) (family db)" by blast
  have "tables_of L family db' t = batch_effect L record_of db wb (tables_of L family db) t" for t
  proof -
    from families [OF assms(1)] obtain cf where "rk_cf_handle L db (cf_name t) = Some cf" by blast
    with db' show ?thesis by (simp add: tables_of_def batch_effect_def replay_family)
  qed
  with db' show ?thesis by (auto simp: rocksdb_commit_def)
qed

lemma prefix_iterator_interval:
  assumes "live db"
  shows "\<exists>kvs. rocksdb_prefix_iterator L db t p = Ok (map Ok kvs) \<and> sorted_wrt (<) (map fst kvs) \<and>
    (\<forall>k v. (k, v) \<in> set kvs \<longleftrightarrow> starts_with k p \<and> tables_of L family db t k = Some v)"
proof -
  from families [OF assms] obtain cf where cf: "rk_cf_handle L db (cf_name t) = Some cf" by blast
  from iterate_cf [OF assms, of cf p] obtain kvs where
    kvs: "rk_prefix_iterator_cf L db cf p = map Ok kvs" "sorted_wrt (<) (map fst kvs)"
      "\<forall>k v. (k, v) \<in> set kvs \<longleftrightarrow> p \<le> k \<and> family db cf k = Some v" by blast
  let ?sel = "filter (\<lambda>kv. starts_with (fst kv) p) kvs"
  have "\<forall>k \<in> fst ` set kvs. p \<le> k" using kvs(3) by force
  from takeWhile_prefix [OF kvs(2) this] kvs(1) cf
  have "rocksdb_prefix_iterator L db t p = Ok (map Ok ?sel)"
    by (simp add: rocksdb_defs takeWhile_map_Ok)
  moreover have "sorted_wrt (<) (map fst ?sel)"
    using kvs(2) by (simp add: sorted_wrt_map sorted_wrt_filter)
  moreover have "(k, v) \<in> set ?sel \<longleftrightarrow> starts_with k p \<and> tables_of L family db t k = Some v" for k v
    using kvs(3) cf starts_with_ge by (auto simp: tables_of_def)
  ultimately show ?thesis by blast
qed

end

text \<open>The backend on a library that behaves as documented meets the contract.\<close>

sublocale rocksdb_library \<subseteq> rocks: ordered_storage "rocksdb_backend L" live "own_families L record_of"
  "tables_of L family" "batch_effect L record_of"
proof (standard, goal_cases)
  case (1 db)
  show ?case by (simp add: rocksdb_defs)
next
  case (2 db t k)
  with families [of db t] show ?case by (auto simp: rocksdb_defs get_cf tables_of_def)
next
  case (3 db t p)
  from prefix_iterator_interval [OF this, of t p] show ?case
    by (auto simp: rocksdb_backend_def strict_sorted_iff)
next
  case (4 db)
  show ?case by (simp add: rocksdb_defs own_families_def batch_effect_def empty_batch replayed_on_def fun_eq_iff)
next
  case (5 db wb t kvs)
  with families [of db t] obtain cf where cf: "rk_cf_handle L db (cf_name t) = Some cf" by blast
  with 5 own_families_put [OF cf, of wb] batch_effect_put [OF 5(1) cf] show ?case by (simp add: rocksdb_defs)
next
  case (6 db wb t ks)
  with families [of db t] obtain cf where cf: "rk_cf_handle L db (cf_name t) = Some cf" by blast
  with 6 own_families_delete [OF cf, of wb] batch_effect_delete [OF 6(1) cf] show ?case by (simp add: rocksdb_defs)
next
  case (7 db wb)
  from commit_tables [OF this] show ?case by (simp add: rocksdb_backend_def)
next
  case (8 db t p kvs)
  from prefix_iterator_interval [OF 8(1), of t p] 8(2) show ?case
    by (auto simp: rocksdb_backend_def dest: injD [OF inj_mapI] simp: inj_map_eq_map [of Ok] inj_def)
qed

section \<open>A library of sorted lists\<close>

type_synonym list_db = "(string \<times> (bytes \<times> bytes) list) list"
type_synonym list_batch = "(string \<times> bytes \<times> bytes option) list"

definition list_table :: "list_db \<Rightarrow> string \<Rightarrow> (bytes \<times> bytes) list" where
  "list_table db cf = (case map_of db cf of None \<Rightarrow> [] | Some t \<Rightarrow> t)"

fun list_write :: "string \<times> bytes \<times> bytes option \<Rightarrow> list_db \<Rightarrow> list_db" where
  "list_write (cf, k, Some v) db = AList.update cf (tbl_put id k v (list_table db cf)) db"
| "list_write (cf, k, None) db = AList.update cf (tbl_delete [k] (list_table db cf)) db"

definition list_rocksdb :: "(list_db, string, list_batch) rocksdb" where
  "list_rocksdb =
     \<lparr>rk_open_cf_descriptors = (\<lambda>names. Ok (map (\<lambda>n. (n, [])) names)),
      rk_cf_handle = (\<lambda>db n. map_option (\<lambda>_. n) (map_of db n)),
      rk_get_cf = (\<lambda>db cf k. Ok (map_of (list_table db cf) k)),
      rk_prefix_iterator_cf = (\<lambda>db cf p. map Ok (filter (\<lambda>(k, _). p \<le> k) (list_table db cf))),
      rk_write_batch_default = [],
      rk_put_cf = (\<lambda>cf k v wb. wb @ [(cf, k, Some v)]),
      rk_delete_cf = (\<lambda>cf k wb. wb @ [(cf, k, None)]),
      rk_write_opt = (\<lambda>db wb _. Ok (fold list_write wb db)),
      rk_property_int_value_cf = (\<lambda>db cf _. Ok (Some (word_of_nat (length (list_table db cf)))))\<rparr>"

definition list_live :: "list_db \<Rightarrow> bool" where
  "list_live db \<longleftrightarrow> (\<forall>t. map_of db (cf_name t) \<noteq> None) \<and> (\<forall>cf. tbl_sorted id (list_table db cf))"

definition list_family :: "list_db \<Rightarrow> string family_map" where
  "list_family db cf = map_of (list_table db cf)"

interpretation id_table: keyed_table id
  by unfold_locales simp

lemma list_write_table:
  "list_table (list_write (cf, k, v) db) cf' =
     (if cf' = cf then case v of Some w \<Rightarrow> tbl_put id k w (list_table db cf) | None \<Rightarrow> tbl_delete [k] (list_table db cf)
      else list_table db cf')"
  by (cases v) (simp_all add: list_table_def)

lemma list_write_live: "list_live db \<Longrightarrow> list_live (list_write op db)"
proof -
  assume db: "list_live db"
  obtain cf k v where op: "op = (cf, k, v)" by (cases op)
  have "map_of (list_write (cf, k, v) db) (cf_name t) \<noteq> None" for t
    using db by (cases v) (auto simp: list_live_def)
  moreover have "tbl_sorted id (list_table (list_write (cf, k, v) db) cf')" for cf'
    using db by (auto simp: list_live_def list_write_table split: option.splits)
  ultimately show ?thesis by (simp add: list_live_def op)
qed

lemma list_write_family: "list_family (list_write op db) = replay op (list_family db)"
proof -
  obtain cf k v where op: "op = (cf, k, v)" by (cases op)
  have "list_family (list_write (cf, k, v) db) cf' = replay (cf, k, v) (list_family db) cf'" for cf'
    unfolding list_family_def list_write_table by (cases v) (auto simp: list_family_def fun_eq_iff)
  then show ?thesis unfolding op ..
qed

lemma list_writes:
  assumes "list_live db"
  shows "list_live (fold list_write ops db) \<and> list_family (fold list_write ops db) = fold replay ops (list_family db)"
  using assms by (induction ops arbitrary: db) (auto simp: list_write_live list_write_family)

lemma list_write_handles:
  assumes "fst ` set ops \<subseteq> dom (map_of db)"
  shows "map_option (\<lambda>_. n) (map_of (fold list_write ops db) n) = map_option (\<lambda>_. n) (map_of db n)"
  using assms
proof (induction ops arbitrary: db)
  case (Cons op ops)
  obtain cf k v where op: "op = (cf, k, v)" by (cases op)
  have m: "map_of (list_write op db) n = None \<longleftrightarrow> map_of db n = None" for n
    using Cons.prems by (cases v) (auto simp: op)
  then have "dom (map_of (list_write op db)) = dom (map_of db)" by (auto simp: dom_def)
  with Cons.prems have "fst ` set ops \<subseteq> dom (map_of (list_write op db))" by simp
  from Cons.IH [OF this] m [of n] show ?case by (cases "map_of db n") auto
qed simp

interpretation list_library: rocksdb_library list_rocksdb list_live list_family "\<lambda>wb. wb"
proof (standard, goal_cases)
  case (1 db t)
  then show ?case by (auto simp: list_rocksdb_def list_live_def)
next
  case (2 db n cf n')
  then show ?case by (auto simp: list_rocksdb_def)
next
  case (3 db cf k)
  show ?case by (simp add: list_rocksdb_def list_family_def)
next
  case (4 db cf p)
  let ?kvs = "filter (\<lambda>(k, _). p \<le> k) (list_table db cf)"
  from 4 have s: "tbl_sorted id (list_table db cf)" by (simp add: list_live_def)
  have "sorted_wrt (<) (map fst ?kvs)" using tbl_sorted_filter [OF s] by (simp add: tbl_sorted_def sorted_wrt_map)
  moreover have "(k, v) \<in> set ?kvs \<longleftrightarrow> p \<le> k \<and> list_family db cf k = Some v" for k v
    using tbl_sorted_distinct [OF s] by (auto simp: list_family_def)
  ultimately show ?case by (intro exI [of _ ?kvs]) (simp add: list_rocksdb_def)
next
  case (8 db wb sync)
  have "fst ` set wb \<subseteq> dom (map_of db)"
    using 8(2) by (auto simp: own_families_def list_rocksdb_def ran_def)
  from list_write_handles [OF this] list_writes [OF 8(1), of wb] show ?case
    by (simp add: list_rocksdb_def fun_eq_iff)
qed (simp_all add: list_rocksdb_def)

lemma list_open: "\<exists>db. rocksdb_open list_rocksdb = Ok db \<and> list_live db \<and> (\<forall>t. tables_of list_rocksdb list_family db t = Map.empty)"
proof -
  let ?db = "map (\<lambda>n. (n, [])) (map cf_name ALL_TABLES) :: list_db"
  have m: "map_of ?db (cf_name t) = Some []" for t by (cases t) (simp_all add: ALL_TABLES_def)
  have "list_table ?db cf = []" for cf
    by (auto simp: list_table_def split: option.splits dest!: map_of_SomeD)
  with m have "list_live ?db" by (simp add: list_live_def)
  moreover have "tables_of list_rocksdb list_family ?db t = Map.empty" for t
    using m by (simp add: tables_of_def list_rocksdb_def list_family_def list_table_def)
  ultimately show ?thesis by (simp add: rocksdb_open_def list_rocksdb_def)
qed

end
