(* ===== verification/Byte_Refinement.thy ===== *)
theory Byte_Refinement
  imports Byte_Store Rocksdb
begin

text \<open>
  The byte-level store implements the typed one. A backend represents a typed store when each of its
  tables holds exactly the encoded entries and the metadata table the encoded fields
  (\<open>represents\<close>). On every ordered backend (\<open>ordered_storage\<close>) each operation of \<open>Byte_Store\<close> then returns
  without a panic and leaves a backend that represents the result of the operation of \<open>Storage\<close>, and
  each read returns what the typed read returns. The properties state it for the RocksDB backend.
\<close>

section \<open>Tables as bytes\<close>

definition table_bytes :: "('k \<Rightarrow> bytes) \<Rightarrow> 'v ssz \<Rightarrow> ('k \<times> 'v) list \<Rightarrow> (bytes \<times> bytes) list" where
  "table_bytes enc E t = map (\<lambda>(k, v). (enc k, ssz_encode E v)) t"

definition holds_table :: "(bytes \<rightharpoonup> bytes) \<Rightarrow> ('k \<Rightarrow> bytes) \<Rightarrow> 'v ssz \<Rightarrow> ('k \<times> 'v) list \<Rightarrow> bool" where
  "holds_table m enc E t \<longleftrightarrow>
     m = map_of (table_bytes enc E t) \<and> tbl_sorted enc t \<and> (\<forall>v \<in> snd ` set t. carries E v)"

definition holds_value :: "(bytes \<rightharpoonup> bytes) \<Rightarrow> bytes \<Rightarrow> 'v ssz \<Rightarrow> 'v \<Rightarrow> bool" where
  "holds_value m key E v \<longleftrightarrow> m key = Some (ssz_encode E v) \<and> carries E v"

lemma table_bytes_simps [simp]:
  "table_bytes enc E [] = []"
  "table_bytes enc E ((k, v) # t) = (enc k, ssz_encode E v) # table_bytes enc E t"
  "length (table_bytes enc E t) = length t"
  by (simp_all add: table_bytes_def)

lemma sorted_table_bytes: "tbl_sorted enc t \<Longrightarrow> sorted_wrt (<) (map fst (table_bytes enc E t))"
  by (simp add: tbl_sorted_def table_bytes_def sorted_wrt_map case_prod_unfold)

context keyed_table
begin

lemma map_of_table_bytes: "map_of (table_bytes enc E t) (enc k) = map_option (ssz_encode E) (map_of t k)"
  using inj_enc by (induction t) (auto simp: inj_eq)

lemma table_bytes_keys: "kb \<notin> range enc \<Longrightarrow> map_of (table_bytes enc E t) kb = None"
  by (induction t) auto

lemma table_bytes_eqI:
  assumes "\<And>k. f (enc k) = map_option (ssz_encode E) (map_of t k)" and "\<And>kb. kb \<notin> range enc \<Longrightarrow> f kb = None"
  shows "f = map_of (table_bytes enc E t)"
proof
  fix kb
  show "f kb = map_of (table_bytes enc E t) kb"
    by (cases "kb \<in> range enc") (auto simp: assms map_of_table_bytes table_bytes_keys)
qed

lemma table_bytes_rev: "rev (table_bytes enc E t) = table_bytes enc E (rev t)"
  by (simp add: table_bytes_def rev_map)

lemma set_put_batch: "snd ` set (tbl_put_batch enc kvs t) \<subseteq> snd ` set t \<union> snd ` set kvs"
proof (induction kvs arbitrary: t)
  case (Cons kv kvs)
  obtain k v where "kv = (k, v)" by (cases kv)
  with Cons [of "tbl_put enc k v t"] show ?case
    by (auto simp: tbl_put_batch_def set_tbl_put [OF inj_enc])
qed (simp add: tbl_put_batch_def)

lemma holds_put_batch:
  assumes "holds_table m enc E t" and "\<forall>v \<in> snd ` set kvs. carries E v"
  shows "holds_table (m ++ map_of (rev (table_bytes enc E kvs))) enc E (tbl_put_batch enc kvs t)"
proof -
  from assms(1) have m: "m = map_of (table_bytes enc E t)" "tbl_sorted enc t" "\<forall>v \<in> snd ` set t. carries E v"
    by (simp_all add: holds_table_def)
  have "m ++ map_of (rev (table_bytes enc E kvs)) = map_of (table_bytes enc E (tbl_put_batch enc kvs t))"
    unfolding m(1) table_bytes_rev
    by (rule table_bytes_eqI)
      (auto simp: map_of_put_batch map_of_table_bytes table_bytes_keys map_add_def split: option.splits)
  with m assms(2) set_put_batch [of kvs t] show ?thesis unfolding holds_table_def by (auto dest!: subsetD)
qed

lemma holds_put:
  "holds_table m enc E t \<Longrightarrow> carries E v \<Longrightarrow> holds_table (m(enc k \<mapsto> ssz_encode E v)) enc E (tbl_put enc k v t)"
  using holds_put_batch [of m E t "[(k, v)]"] by (simp add: tbl_put_batch_def)

lemma holds_delete:
  assumes "holds_table m enc E t"
  shows "holds_table (m |` (- enc ` set ks)) enc E (tbl_delete ks t)"
proof -
  from assms have m: "m = map_of (table_bytes enc E t)" "tbl_sorted enc t" "\<forall>v \<in> snd ` set t. carries E v"
    by (simp_all add: holds_table_def)
  have "m |` (- enc ` set ks) = map_of (table_bytes enc E (tbl_delete ks t))"
    unfolding m(1) using inj_enc
    by (intro table_bytes_eqI) (auto simp: restrict_map_def map_of_table_bytes table_bytes_keys inj_eq)
  moreover have "\<forall>v \<in> snd ` set (tbl_delete ks t). carries E v" using m(3) by (auto simp: tbl_delete_def)
  ultimately show ?thesis using m(2) by (simp add: holds_table_def)
qed

lemma holds_lookup: "holds_table m enc E t \<Longrightarrow> m (enc k) = map_option (ssz_encode E) (map_of t k)"
  by (simp add: holds_table_def map_of_table_bytes)

end

lemma holds_carries: "holds_table m enc E t \<Longrightarrow> (k, v) \<in> set t \<Longrightarrow> ssz_decode E (ssz_encode E v) = Some v"
  by (force simp: holds_table_def carries_def)

lemma holds_decode: "holds_table m enc E t \<Longrightarrow> map_of t k = Some v \<Longrightarrow> ssz_decode E (ssz_encode E v) = Some v"
  by (rule holds_carries) (auto dest: map_of_SomeD)

section \<open>Representation of a store\<close>

definition tables_represented :: "store_codec \<Rightarrow> contents \<Rightarrow> 'a tables_scheme \<Rightarrow> bool" where
  "tables_represented K c s \<longleftrightarrow>
     holds_table (c BlockHeaders) root_bytes (sc_header K) (t_block_headers s) \<and>
     holds_table (c BlockBodies) root_bytes (sc_body K) (t_block_bodies s) \<and>
     holds_table (c BlockSignatures) root_bytes (sc_signatures K) (t_block_signatures s) \<and>
     holds_table (c States) root_bytes (sc_state K) (t_states s) \<and>
     holds_table (c GossipSignatures) encode_signature_key (sc_gossip_signature K) (t_gossip_signatures s) \<and>
     holds_table (c AttestationDataByRoot) root_bytes (sc_attestation_data K) (t_attestation_data_by_root s) \<and>
     holds_table (c LiveChain) encode_live_chain_key root_ssz (t_live_chain s)"

definition metadata_represented :: "store_codec \<Rightarrow> (bytes \<rightharpoonup> bytes) \<Rightarrow> store \<Rightarrow> bool" where
  "metadata_represented K m s \<longleftrightarrow>
     holds_value m KEY_TIME u64_ssz (s_time s) \<and>
     holds_value m KEY_CONFIG (sc_config K) (s_config s) \<and>
     holds_value m KEY_HEAD root_ssz (s_head s) \<and>
     holds_value m KEY_SAFE_TARGET root_ssz (s_safe_target s) \<and>
     holds_value m KEY_LATEST_JUSTIFIED (sc_checkpoint K) (s_latest_justified s) \<and>
     holds_value m KEY_LATEST_FINALIZED (sc_checkpoint K) (s_latest_finalized s)"

definition represents :: "store_codec \<Rightarrow> contents \<Rightarrow> store \<Rightarrow> bool" where
  "represents K c s \<longleftrightarrow> tables_represented K c s \<and> metadata_represented K (c Metadata) s"

definition implements ::
  "('d \<Rightarrow> bool) \<Rightarrow> ('d \<Rightarrow> contents) \<Rightarrow> store_codec \<Rightarrow> 'd byte_store \<Rightarrow> store \<Rightarrow> bool" where
  "implements good contents K y s \<longleftrightarrow>
     good (ys_backend y) \<and> represents K (contents (ys_backend y)) s \<and>
     ys_new_payloads y = s_new_payloads s \<and> ys_known_payloads y = s_known_payloads s \<and>
     ys_gossip_signatures_count y = s_gossip_signatures_count s"

lemmas represents_defs = represents_def tables_represented_def metadata_represented_def

lemmas key_defs = KEY_TIME_def KEY_CONFIG_def KEY_HEAD_def KEY_SAFE_TARGET_def KEY_LATEST_JUSTIFIED_def
  KEY_LATEST_FINALIZED_def

lemma metadata_keys [simp]:
  "KEY_TIME \<noteq> KEY_CONFIG" "KEY_TIME \<noteq> KEY_HEAD" "KEY_TIME \<noteq> KEY_SAFE_TARGET"
  "KEY_TIME \<noteq> KEY_LATEST_JUSTIFIED" "KEY_TIME \<noteq> KEY_LATEST_FINALIZED"
  "KEY_CONFIG \<noteq> KEY_HEAD" "KEY_CONFIG \<noteq> KEY_SAFE_TARGET" "KEY_CONFIG \<noteq> KEY_LATEST_JUSTIFIED"
  "KEY_CONFIG \<noteq> KEY_LATEST_FINALIZED" "KEY_HEAD \<noteq> KEY_SAFE_TARGET" "KEY_HEAD \<noteq> KEY_LATEST_JUSTIFIED"
  "KEY_HEAD \<noteq> KEY_LATEST_FINALIZED" "KEY_SAFE_TARGET \<noteq> KEY_LATEST_JUSTIFIED"
  "KEY_SAFE_TARGET \<noteq> KEY_LATEST_FINALIZED" "KEY_LATEST_JUSTIFIED \<noteq> KEY_LATEST_FINALIZED"
  by (simp_all add: key_defs string_bytes_inject)

lemmas metadata_keys_sym [simp] = metadata_keys [symmetric]

lemma carries_u64 [simp]: "carries u64_ssz n"
  by (simp add: carries_def u64_ssz_def)

lemma carries_root [simp]: "carries root_ssz r"
  by (simp add: carries_def root_ssz_def)

lemma encode_root [simp]: "ssz_encode root_ssz = root_bytes"
  by (simp add: root_ssz_def)

lemma holds_value_upd [simp]:
  "holds_value (m(k' \<mapsto> b)) key E v \<longleftrightarrow> (if key = k' then b = ssz_encode E v \<and> carries E v else holds_value m key E v)"
  by (auto simp: holds_value_def)

section \<open>Sorting encoded roots\<close>

text \<open>The order of roots that a sort of their encodings induces.\<close>

definition root_sort :: "((bytes \<times> u64) list \<Rightarrow> (bytes \<times> u64) list) \<Rightarrow> (H256 \<times> u64) list \<Rightarrow> (H256 \<times> u64) list" where
  "root_sort g xs = map (\<lambda>(b, slot). (word_of_nat (of_be_bytes b), slot)) (g (map (\<lambda>(r, slot). (root_bytes r, slot)) xs))"

lemma sort_roots:
  assumes "sorts_desc g"
  shows "g (map (\<lambda>(r, slot). (root_bytes r, slot)) xs) = map (\<lambda>(r, slot). (root_bytes r, slot)) (root_sort g xs)"
proof -
  let ?ys = "map (\<lambda>(r, slot). (root_bytes r, slot)) xs"
  have "mset (g ?ys) = mset ?ys" using assms by (simp only: sorts_desc_def)
  then have "set (g ?ys) = set ?ys" by (rule mset_eq_setD)
  then have "\<exists>r slot. e = (root_bytes r, slot)" if "e \<in> set (g ?ys)" for e using that by auto
  then have "(\<lambda>(r, slot). (root_bytes r, slot)) ((\<lambda>(b, slot). (word_of_nat (of_be_bytes b), slot)) e) = e"
    if "e \<in> set (g ?ys)" for e using that by fastforce
  then show ?thesis by (simp add: root_sort_def map_idI)
qed

lemma sorts_desc_root_sort:
  assumes "sorts_desc g"
  shows "sorts_desc (root_sort g)"
  unfolding sorts_desc_def
proof (intro allI conjI)
  fix xs
  let ?enc = "\<lambda>(r, slot). (root_bytes r, slot :: u64)"
  have "mset (g (map ?enc xs)) = mset (map ?enc xs)" using assms by (simp only: sorts_desc_def)
  then have "mset (root_sort g xs) =
      image_mset (\<lambda>(b, slot). (word_of_nat (of_be_bytes b), slot)) (mset (map ?enc xs))"
    by (simp only: root_sort_def mset_map)
  then show "mset (root_sort g xs) = mset xs" by (simp add: multiset.map_comp comp_def case_prod_unfold)
  have "sorted_wrt (\<lambda>a b. snd b \<le> snd a) (map ?enc (root_sort g xs))"
    using assms by (simp only: sort_roots [OF assms, symmetric] sorts_desc_def)
  then show "sorted_wrt (\<lambda>a b. snd b \<le> snd a) (root_sort g xs)" by (simp add: sorted_wrt_map case_prod_unfold)
qed

text \<open>What the encodings must carry when a store is set up from an anchor.\<close>

definition anchor_carried :: "store_codec \<Rightarrow> store \<Rightarrow> block_body option \<Rightarrow> bool" where
  "anchor_carried K s body \<longleftrightarrow>
     (\<forall>h. get_block_header s (s_head s) = Some h \<longrightarrow> carries (sc_header K) h) \<and>
     (\<forall>st. get_state s (s_head s) = Some st \<longrightarrow> carries (sc_state K) st) \<and>
     carries (sc_config K) (s_config s) \<and> carries (sc_checkpoint K) (s_latest_finalized s) \<and>
     (\<forall>b. body = Some b \<longrightarrow> carries (sc_body K) b)"

section \<open>Setting up a store\<close>

text \<open>The anchor with its state root filled in, and what both levels make of it.\<close>

definition anchored :: "hashing \<Rightarrow> state \<Rightarrow> state" where
  "anchored H st =
     (let zeroed = st\<lparr>st_latest_block_header := (st_latest_block_header st)\<lparr>hdr_state_root := 0\<rparr>\<rparr>
      in st\<lparr>st_latest_block_header := (st_latest_block_header st)\<lparr>hdr_state_root := h_state H zeroed\<rparr>\<rparr>)"

definition anchor_accepted :: "hashing \<Rightarrow> state \<Rightarrow> bool" where
  "anchor_accepted H st \<longleftrightarrow> hdr_state_root (st_latest_block_header st) = 0 \<or>
     hdr_state_root (st_latest_block_header st) =
       h_state H (st\<lparr>st_latest_block_header := (st_latest_block_header st)\<lparr>hdr_state_root := 0\<rparr>\<rparr>)"

definition anchor_checkpoint :: "hashing \<Rightarrow> state \<Rightarrow> checkpoint" where
  "anchor_checkpoint H a = \<lparr>cp_root = h_header H (st_latest_block_header a), cp_slot = hdr_slot (st_latest_block_header a)\<rparr>"

definition anchor_store :: "hashing \<Rightarrow> tables \<Rightarrow> state \<Rightarrow> block_body option \<Rightarrow> store" where
  "anchor_store H db a body =
     (let header = st_latest_block_header a; root = h_header H header
      in \<lparr>t_block_headers = tbl_put root_bytes root header (t_block_headers db),
          t_block_bodies = (case body of Some b \<Rightarrow> tbl_put root_bytes root b (t_block_bodies db) | None \<Rightarrow> t_block_bodies db),
          t_block_signatures = t_block_signatures db, t_states = tbl_put root_bytes root a (t_states db),
          t_gossip_signatures = t_gossip_signatures db, t_attestation_data_by_root = t_attestation_data_by_root db,
          t_live_chain = tbl_put encode_live_chain_key (hdr_slot header, root) (hdr_parent_root header) (t_live_chain db),
          s_time = 0, s_config = st_config a, s_head = root, s_safe_target = root,
          s_latest_justified = anchor_checkpoint H a, s_latest_finalized = anchor_checkpoint H a,
          s_new_payloads = buffer_new NEW_PAYLOAD_CAP, s_known_payloads = buffer_new AGGREGATED_PAYLOAD_CAP,
          s_gossip_signatures_count = count_gossip_signatures db\<rparr>)"

definition anchor_ops :: "store_codec \<Rightarrow> hashing \<Rightarrow> state \<Rightarrow> block_body option \<Rightarrow> batch_op list" where
  "anchor_ops K H a body =
     (let header = st_latest_block_header a; root = h_header H header
      in [PutBatch Metadata
            [(KEY_TIME, ssz_encode u64_ssz 0), (KEY_CONFIG, ssz_encode (sc_config K) (st_config a)),
             (KEY_HEAD, root_bytes root), (KEY_SAFE_TARGET, root_bytes root),
             (KEY_LATEST_JUSTIFIED, ssz_encode (sc_checkpoint K) (anchor_checkpoint H a)),
             (KEY_LATEST_FINALIZED, ssz_encode (sc_checkpoint K) (anchor_checkpoint H a))],
          PutBatch BlockHeaders [(root_bytes root, ssz_encode (sc_header K) header)]] @
         (case body of Some b \<Rightarrow> [PutBatch BlockBodies [(root_bytes root, ssz_encode (sc_body K) b)]] | None \<Rightarrow> []) @
         [PutBatch States [(root_bytes root, ssz_encode (sc_state K) a)],
          PutBatch LiveChain [(encode_live_chain_key (hdr_slot header, root), root_bytes (hdr_parent_root header))]])"

lemma init_store_alt:
  "init_store H db st body = (if anchor_accepted H st then Ok (anchor_store H db (anchored H st) body) else Panic)"
  by (simp add: init_store_def anchor_accepted_def anchor_store_def anchored_def anchor_checkpoint_def Let_def)

lemma db_init_store_alt:
  "db_init_store B K H d st body =
     (if anchor_accepted H st
      then bind_res (commit_ops B (anchor_ops K H (anchored H st) body) d) (\<lambda>d'.
           bind_res (db_count_gossip_signatures B d') (\<lambda>n.
             Ok \<lparr>ys_backend = d', ys_new_payloads = buffer_new NEW_PAYLOAD_CAP,
                 ys_known_payloads = buffer_new AGGREGATED_PAYLOAD_CAP, ys_gossip_signatures_count = n\<rparr>))
      else Panic)"
  by (simp add: db_init_store_def anchor_accepted_def anchor_ops_def anchored_def anchor_checkpoint_def Let_def)

section \<open>The calls of a store\<close>

text \<open>
  Every call that changes the store. A single payload is a batch of one.
\<close>

datatype 'sig store_call = SetTime u64 | SetSafeTarget H256 | UpdateCheckpoints fork_checkpoints | PruneOldData
  | InsertPendingBlock H256 signed_block_with_attestation | InsertSignedBlock H256 signed_block_with_attestation
  | InsertState H256 state | InsertAttestationData H256 attestation_data
  | InsertAttestationDataBatch "(H256 \<times> attestation_data) list"
  | InsertKnownPayloads "(signature_key \<times> stored_aggregated_payload) list"
  | InsertNewPayloads "(signature_key \<times> stored_aggregated_payload) list" | PromoteNewPayloads
  | DeleteGossipSignatures "signature_key list" | InsertGossipSignature H256 u64 u64 'sig

fun typed_call ::
  "hashing \<Rightarrow> ('pk, 'sig, 'sk) crypto \<Rightarrow> ((H256 \<times> u64) list \<Rightarrow> (H256 \<times> u64) list) \<Rightarrow> 'sig store_call \<Rightarrow> store \<Rightarrow> store" where
  "typed_call H C f (SetTime t) s = set_time t s"
| "typed_call H C f (SetSafeTarget r) s = set_safe_target r s"
| "typed_call H C f (UpdateCheckpoints fc) s = update_checkpoints fc s"
| "typed_call H C f PruneOldData s = prune_old_data f s"
| "typed_call H C f (InsertPendingBlock r sb) s = insert_pending_block H r sb s"
| "typed_call H C f (InsertSignedBlock r sb) s = insert_signed_block H r sb s"
| "typed_call H C f (InsertState r st) s = insert_state r st s"
| "typed_call H C f (InsertAttestationData r d) s = insert_attestation_data_by_root r d s"
| "typed_call H C f (InsertAttestationDataBatch es) s = insert_attestation_data_by_root_batch es s"
| "typed_call H C f (InsertKnownPayloads es) s = insert_known_aggregated_payloads_batch es s"
| "typed_call H C f (InsertNewPayloads es) s = insert_new_aggregated_payloads_batch es s"
| "typed_call H C f PromoteNewPayloads s = promote_new_aggregated_payloads s"
| "typed_call H C f (DeleteGossipSignatures keys) s = delete_gossip_signatures keys s"
| "typed_call H C f (InsertGossipSignature r slot v sig) s = insert_gossip_signature C r slot v sig s"

fun db_call ::
  "('d, 'b) storage_backend \<Rightarrow> store_codec \<Rightarrow> hashing \<Rightarrow> ('pk, 'sig, 'sk) crypto \<Rightarrow>
   ((bytes \<times> u64) list \<Rightarrow> (bytes \<times> u64) list) \<Rightarrow> 'sig store_call \<Rightarrow> 'd byte_store \<Rightarrow> ('d byte_store, unit) result" where
  "db_call B K H C g (SetTime t) y = db_set_time B t y"
| "db_call B K H C g (SetSafeTarget r) y = db_set_safe_target B r y"
| "db_call B K H C g (UpdateCheckpoints fc) y = db_update_checkpoints B K fc y"
| "db_call B K H C g PruneOldData y = db_prune_old_data B K g y"
| "db_call B K H C g (InsertPendingBlock r sb) y = db_insert_pending_block B K H r sb y"
| "db_call B K H C g (InsertSignedBlock r sb) y = db_insert_signed_block B K H r sb y"
| "db_call B K H C g (InsertState r st) y = db_insert_state B K r st y"
| "db_call B K H C g (InsertAttestationData r d) y = db_insert_attestation_data_by_root B K r d y"
| "db_call B K H C g (InsertAttestationDataBatch es) y = db_insert_attestation_data_by_root_batch B K es y"
| "db_call B K H C g (InsertKnownPayloads es) y = Ok (db_insert_known_payloads es y)"
| "db_call B K H C g (InsertNewPayloads es) y = Ok (db_insert_new_payloads es y)"
| "db_call B K H C g PromoteNewPayloads y = Ok (db_promote_new_aggregated_payloads y)"
| "db_call B K H C g (DeleteGossipSignatures keys) y = db_delete_gossip_signatures B keys y"
| "db_call B K H C g (InsertGossipSignature r slot v sig) y = db_insert_gossip_signature B K C r slot v sig y"

section \<open>Writes\<close>

definition block_carried :: "store_codec \<Rightarrow> hashing \<Rightarrow> signed_block_with_attestation \<Rightarrow> bool" where
  "block_carried K H sb \<longleftrightarrow> carries (sc_header K) (block_header_of H (bwa_block (sb_message sb))) \<and>
     carries (sc_body K) (blk_body (bwa_block (sb_message sb))) \<and> carries (sc_signatures K) (from_signed_block sb)"

lemma signed_block_ops_represent:
  assumes "represents K c s" and "block_carried K H sb"
  shows "represents K (fold perform (signed_block_ops K H root sb) c) (write_signed_block H root sb s)"
  using assms
  by (auto simp: represents_defs signed_block_ops_def write_signed_block_def Let_def block_carried_def
      from_signed_block_def root_table.holds_put)

text \<open>The encodings carry the values a call writes.\<close>

fun call_carried :: "store_codec \<Rightarrow> hashing \<Rightarrow> ('pk, 'sig, 'sk) crypto \<Rightarrow> 'sig store_call \<Rightarrow> bool" where
  "call_carried K H C (UpdateCheckpoints fc) \<longleftrightarrow>
     (\<forall>cp. fc_justified fc = Some cp \<or> fc_finalized fc = Some cp \<longrightarrow> carries (sc_checkpoint K) cp)"
| "call_carried K H C (InsertPendingBlock r sb) \<longleftrightarrow> block_carried K H sb"
| "call_carried K H C (InsertSignedBlock r sb) \<longleftrightarrow> block_carried K H sb"
| "call_carried K H C (InsertState r st) \<longleftrightarrow> carries (sc_state K) st"
| "call_carried K H C (InsertAttestationData r d) \<longleftrightarrow> carries (sc_attestation_data K) d"
| "call_carried K H C (InsertAttestationDataBatch es) \<longleftrightarrow> (\<forall>d \<in> snd ` set es. carries (sc_attestation_data K) d)"
| "call_carried K H C (InsertGossipSignature r slot v sig) \<longleftrightarrow>
     carries (sc_gossip_signature K) (stored_signature_new C slot sig)"
| "call_carried K H C _ \<longleftrightarrow> True"

lemma write_signed_block_buffers [simp]:
  "s_new_payloads (write_signed_block H root sb s) = s_new_payloads s"
  "s_known_payloads (write_signed_block H root sb s) = s_known_payloads s"
  "s_gossip_signatures_count (write_signed_block H root sb s) = s_gossip_signatures_count s"
  by (simp_all add: write_signed_block_def Let_def)

context ordered_storage
begin

lemma db_write_implements:
  assumes "implements inv contents K y s" and "represents K (fold perform ops (contents (ys_backend y))) s'"
    and "s_new_payloads s' = s_new_payloads s" and "s_known_payloads s' = s_known_payloads s"
    and "s_gossip_signatures_count s' = s_gossip_signatures_count s"
  shows "\<exists>y'. db_write B ops y = Ok y' \<and> implements inv contents K y' s'"
  using commit_ops_ok [of "ys_backend y" ops] assms by (auto simp: db_write_def implements_def)

lemma set_time_implements:
  assumes "implements inv contents K y s"
  shows "\<exists>y'. db_set_time B t y = Ok y' \<and> implements inv contents K y' (set_time t s)"
  unfolding db_set_time_def set_metadata_def using assms
  by (intro db_write_implements) (auto simp: implements_def represents_defs set_time_def)

lemma set_safe_target_implements:
  assumes "implements inv contents K y s"
  shows "\<exists>y'. db_set_safe_target B r y = Ok y' \<and> implements inv contents K y' (set_safe_target r s)"
  unfolding db_set_safe_target_def set_metadata_def using assms
  by (intro db_write_implements) (auto simp: implements_def represents_defs set_safe_target_def)

lemma insert_pending_block_implements:
  assumes "implements inv contents K y s" and "block_carried K H sb"
  shows "\<exists>y'. db_insert_pending_block B K H root sb y = Ok y' \<and>
    implements inv contents K y' (insert_pending_block H root sb s)"
  unfolding db_insert_pending_block_def using assms
  by (intro db_write_implements) (auto simp: implements_def insert_pending_block_def intro: signed_block_ops_represent)

lemma insert_signed_block_implements:
  assumes "implements inv contents K y s" and "block_carried K H sb"
  shows "\<exists>y'. db_insert_signed_block B K H root sb y = Ok y' \<and>
    implements inv contents K y' (insert_signed_block H root sb s)"
proof -
  have "represents K (contents (ys_backend y)) s" using assms(1) by (simp add: implements_def)
  from signed_block_ops_represent [OF this assms(2), of root] show ?thesis
    unfolding db_insert_signed_block_def Let_def using assms(1)
    by (intro db_write_implements)
      (auto simp: insert_signed_block_def Let_def represents_defs
        chain_table.holds_put [where E = root_ssz, unfolded encode_root])
qed

lemma insert_state_implements:
  assumes "implements inv contents K y s" and "carries (sc_state K) st"
  shows "\<exists>y'. db_insert_state B K root st y = Ok y' \<and> implements inv contents K y' (insert_state root st s)"
  unfolding db_insert_state_def using assms
  by (intro db_write_implements) (auto simp: implements_def represents_defs insert_state_def root_table.holds_put)

lemma insert_attestation_data_implements:
  assumes "implements inv contents K y s" and "carries (sc_attestation_data K) data"
  shows "\<exists>y'. db_insert_attestation_data_by_root B K root data y = Ok y' \<and>
    implements inv contents K y' (insert_attestation_data_by_root root data s)"
  unfolding db_insert_attestation_data_by_root_def using assms
  by (intro db_write_implements)
    (auto simp: implements_def represents_defs insert_attestation_data_by_root_def root_table.holds_put)

lemma insert_attestation_data_batch_implements:
  assumes "implements inv contents K y s" and "\<forall>data \<in> snd ` set entries. carries (sc_attestation_data K) data"
  shows "\<exists>y'. db_insert_attestation_data_by_root_batch B K entries y = Ok y' \<and>
    implements inv contents K y' (insert_attestation_data_by_root_batch entries s)"
proof (cases "entries = []")
  case True
  with assms(1) show ?thesis
    by (simp add: db_insert_attestation_data_by_root_batch_def insert_attestation_data_by_root_batch_def)
next
  case False
  have "db_insert_attestation_data_by_root_batch B K entries y =
      db_write B [PutBatch AttestationDataByRoot (table_bytes root_bytes (sc_attestation_data K) entries)] y"
    using False by (simp add: db_insert_attestation_data_by_root_batch_def table_bytes_def)
  with False assms show ?thesis
    by (simp only:) (rule db_write_implements, auto simp: implements_def represents_defs
        insert_attestation_data_by_root_batch_def root_table.holds_put_batch)
qed

lemma implements_count:
  "implements inv contents K y s \<Longrightarrow>
     implements inv contents K (y\<lparr>ys_gossip_signatures_count := n\<rparr>) (s\<lparr>s_gossip_signatures_count := n\<rparr>)"
  by (auto simp: implements_def represents_defs)

lemma insert_gossip_signature_implements:
  assumes "implements inv contents K y s" and "carries (sc_gossip_signature K) (stored_signature_new C slot sig)"
  shows "\<exists>y'. db_insert_gossip_signature B K C dr slot v sig y = Ok y' \<and>
    implements inv contents K y' (insert_gossip_signature C dr slot v sig s)"
proof -
  let ?k = "encode_signature_key (v, dr)" and ?x = "stored_signature_new C slot sig"
  let ?s1 = "s\<lparr>t_gossip_signatures := tbl_put encode_signature_key (v, dr) ?x (t_gossip_signatures s)\<rparr>"
  have "inv (ys_backend y)" using assms(1) by (simp add: implements_def)
  moreover have "contents (ys_backend y) GossipSignatures ?k =
      map_option (ssz_encode (sc_gossip_signature K)) (map_of (t_gossip_signatures s) (v, dr))"
    using assms(1) by (auto simp: implements_def represents_defs intro: signature_table.holds_lookup)
  ultimately have r: "read_key B (ys_backend y) GossipSignatures ?k =
      Ok (map_option (ssz_encode (sc_gossip_signature K)) (map_of (t_gossip_signatures s) (v, dr)))"
    by (simp add: read_key_ok)
  have "\<exists>y1. db_write B [PutBatch GossipSignatures [(?k, ssz_encode (sc_gossip_signature K) ?x)]] y = Ok y1 \<and>
      implements inv contents K y1 ?s1"
    using assms by (intro db_write_implements) (auto simp: implements_def represents_defs signature_table.holds_put)
  then obtain y1 where y1: "db_write B [PutBatch GossipSignatures [(?k, ssz_encode (sc_gossip_signature K) ?x)]] y = Ok y1"
    "implements inv contents K y1 ?s1" by blast
  then have "ys_gossip_signatures_count y1 = s_gossip_signatures_count ?s1" by (simp add: implements_def)
  with r y1 implements_count [OF y1(2), of "Suc (s_gossip_signatures_count s)"] show ?thesis
    by (auto simp: db_insert_gossip_signature_def insert_gossip_signature_def Let_def)
qed

lemma delete_gossip_signatures_implements:
  assumes "implements inv contents K y s"
  shows "\<exists>y'. db_delete_gossip_signatures B keys y = Ok y' \<and>
    implements inv contents K y' (delete_gossip_signatures keys s)"
proof (cases "keys = []")
  case True
  with assms show ?thesis by (simp add: db_delete_gossip_signatures_def delete_gossip_signatures_def)
next
  case False
  let ?s1 = "s\<lparr>t_gossip_signatures := tbl_delete keys (t_gossip_signatures s)\<rparr>"
  have "\<exists>y1. db_write B [DeleteBatch GossipSignatures (map encode_signature_key keys)] y = Ok y1 \<and>
      implements inv contents K y1 ?s1"
    using assms by (intro db_write_implements) (auto simp: implements_def represents_defs signature_table.holds_delete)
  then obtain y1 where y1: "db_write B [DeleteBatch GossipSignatures (map encode_signature_key keys)] y = Ok y1"
    "implements inv contents K y1 ?s1" by blast
  then have "ys_gossip_signatures_count y1 = s_gossip_signatures_count s" by (simp add: implements_def)
  with False y1 implements_count [OF y1(2), of "s_gossip_signatures_count s - length keys"] show ?thesis
    by (simp add: db_delete_gossip_signatures_def delete_gossip_signatures_def)
qed

section \<open>Pruning\<close>

lemma scan_table:
  assumes "inv d" and "holds_table (contents d T) enc E t"
  shows "scan B d T = Ok (table_bytes enc E t)"
  using assms by (intro scan_sorted) (auto simp: holds_table_def sorted_table_bytes)

text \<open>
  Deleting the selected keys of one table. The typed store after the deletion is \<open>s'\<close>.
\<close>

lemma prune_by_slot_run:
  assumes y: "implements inv contents K y s" and t: "holds_table (contents (ys_backend y) T) enc E t"
    and slot: "\<And>k v. (k, v) \<in> set t \<Longrightarrow> get (ssz_encode E v) = Some (slot v)"
    and inj: "keyed_table enc"
    and s': "\<And>c ks. represents K c s \<Longrightarrow> holds_table (c T) enc E t \<Longrightarrow>
      represents K (c(T := c T |` (- enc ` set ks))) (upd (tbl_delete ks t))"
    and keep: "upd t = s" "\<And>t'. s_new_payloads (upd t') = s_new_payloads s"
      "\<And>t'. s_known_payloads (upd t') = s_known_payloads s"
      "\<And>t'. s_gossip_signatures_count (upd t') = s_gossip_signatures_count s"
  shows "\<exists>y'. db_prune_by_slot B T bound get y = Ok (fst (prune_by_slot slot bound t), y') \<and>
    implements inv contents K y' (upd (snd (prune_by_slot slot bound t)))"
proof -
  let ?ks = "map fst (filter (\<lambda>(_, v). slot v \<le> bound) t)"
  have "inv (ys_backend y)" using y by (simp add: implements_def)
  from scan_table [OF this t] have scan: "scan B (ys_backend y) T = Ok (table_bytes enc E t)" .
  have sel: "map fst (filter (\<lambda>(_, v). case get v of Some n \<Rightarrow> n \<le> bound | None \<Rightarrow> False) (table_bytes enc E t)) =
      map enc ?ks"
  proof -
    have "filter ((\<lambda>(_, v). case get v of Some n \<Rightarrow> n \<le> bound | None \<Rightarrow> False) \<circ> (\<lambda>(k, v). (enc k, ssz_encode E v))) t =
        filter (\<lambda>(_, v). slot v \<le> bound) t" by (rule filter_cong) (auto simp: slot)
    then show ?thesis by (simp add: table_bytes_def filter_map comp_def case_prod_unfold)
  qed
  have "represents K (contents (ys_backend y)) s" using y by (simp add: implements_def)
  from s' [OF this t, of ?ks]
  have "represents K (fold perform [DeleteBatch T (map enc ?ks)] (contents (ys_backend y))) (upd (tbl_delete ?ks t))"
    by (simp only: fold.simps perform.simps id_apply comp_apply set_map)
  note w = db_write_implements [OF y this keep(2-4)]
  show ?thesis
  proof (cases "?ks = []")
    case True
    with y keep(1) show ?thesis
      unfolding db_prune_by_slot_def scan prune_by_slot_def bind_res.simps Let_def sel by simp
  next
    case False
    with w show ?thesis unfolding db_prune_by_slot_def scan prune_by_slot_def bind_res.simps Let_def sel by auto
  qed
qed

lemma prune_gossip_signatures_implements:
  assumes y: "implements inv contents K y s"
  shows "\<exists>y'. db_prune_gossip_signatures B K bound y = Ok (fst (prune_gossip_signatures bound s), y') \<and>
    implements inv contents K y' (snd (prune_gossip_signatures bound s))"
proof -
  let ?t = "t_gossip_signatures s" and ?E = "sc_gossip_signature K"
  let ?get = "\<lambda>bs. map_option ss_slot (ssz_decode ?E bs)"
  let ?s1 = "s\<lparr>t_gossip_signatures := snd (prune_by_slot ss_slot bound ?t)\<rparr>"
  have t: "holds_table (contents (ys_backend y) GossipSignatures) encode_signature_key ?E ?t"
    using y by (simp add: implements_def represents_defs)
  have "\<exists>y1. db_prune_by_slot B GossipSignatures bound ?get y = Ok (fst (prune_by_slot ss_slot bound ?t), y1) \<and>
      implements inv contents K y1 ?s1"
    by (rule prune_by_slot_run [OF y t, where upd = "\<lambda>t'. s\<lparr>t_gossip_signatures := t'\<rparr>"])
      (auto simp: holds_carries [OF t] signature_table.keyed_table_axioms represents_defs signature_table.holds_delete)
  then obtain y1 where y1: "db_prune_by_slot B GossipSignatures bound ?get y = Ok (fst (prune_by_slot ss_slot bound ?t), y1)"
    "implements inv contents K y1 ?s1" by blast
  let ?n = "s_gossip_signatures_count s - fst (prune_by_slot ss_slot bound ?t)"
  have "ys_gossip_signatures_count y1 = s_gossip_signatures_count s" using y1(2) by (simp add: implements_def)
  with y1 implements_count [OF y1(2), of ?n] show ?thesis
    by (simp add: db_prune_gossip_signatures_def prune_gossip_signatures_def case_prod_unfold)
qed

lemma prune_attestation_data_implements:
  assumes y: "implements inv contents K y s"
  shows "\<exists>y'. db_prune_attestation_data_by_root B K bound y = Ok (fst (prune_attestation_data_by_root bound s), y') \<and>
    implements inv contents K y' (snd (prune_attestation_data_by_root bound s))"
proof -
  let ?t = "t_attestation_data_by_root s" and ?E = "sc_attestation_data K"
  have t: "holds_table (contents (ys_backend y) AttestationDataByRoot) root_bytes ?E ?t"
    using y by (simp add: implements_def represents_defs)
  have "\<exists>y1. db_prune_by_slot B AttestationDataByRoot bound (\<lambda>bs. map_option ad_slot (ssz_decode ?E bs)) y =
        Ok (fst (prune_by_slot ad_slot bound ?t), y1) \<and>
      implements inv contents K y1 (s\<lparr>t_attestation_data_by_root := snd (prune_by_slot ad_slot bound ?t)\<rparr>)"
    by (rule prune_by_slot_run [OF y t, where upd = "\<lambda>t'. s\<lparr>t_attestation_data_by_root := t'\<rparr>"])
      (auto simp: holds_carries [OF t] root_table.keyed_table_axioms represents_defs root_table.holds_delete)
  then show ?thesis
    by (simp add: db_prune_attestation_data_by_root_def prune_attestation_data_by_root_def case_prod_unfold)
qed

lemma live_keys_below_table:
  "live_keys_below bound (table_bytes encode_live_chain_key E t) =
     Ok (map encode_live_chain_key (map fst (takeWhile (\<lambda>((slot, _), _). slot < bound) t)))"
  by (induction t) (auto simp: decode_encode_live_chain_key)

lemma prune_live_chain_implements:
  assumes y: "implements inv contents K y s"
  shows "\<exists>y'. db_prune_live_chain B bound y = Ok (fst (prune_live_chain bound s), y') \<and>
    implements inv contents K y' (snd (prune_live_chain bound s))"
proof -
  let ?ks = "map fst (takeWhile (\<lambda>((slot, _), _). slot < bound) (t_live_chain s))"
  have t: "inv (ys_backend y)"
    "holds_table (contents (ys_backend y) LiveChain) encode_live_chain_key root_ssz (t_live_chain s)"
    using y by (simp_all add: implements_def represents_defs)
  have w: "\<exists>y'. db_write B [DeleteBatch LiveChain (map encode_live_chain_key ?ks)] y = Ok y' \<and>
      implements inv contents K y' (s\<lparr>t_live_chain := tbl_delete ?ks (t_live_chain s)\<rparr>)"
    using y chain_table.holds_delete [OF t(2), of ?ks]
    by (intro db_write_implements) (auto simp: implements_def represents_defs image_image)
  show ?thesis
  proof (cases "?ks = []")
    case True
    with y show ?thesis
      unfolding db_prune_live_chain_def scan_table [OF t] prune_live_chain_def bind_res.simps Let_def live_keys_below_table
      by simp
  next
    case False
    with w show ?thesis
      unfolding db_prune_live_chain_def scan_table [OF t] prune_live_chain_def bind_res.simps Let_def live_keys_below_table
      by auto
  qed
qed

lemma keys_beyond_bytes:
  assumes y: "implements inv contents K y s" and g: "sorts_desc g"
  shows "db_keys_beyond B K g keep prot y = Ok (map root_bytes (keys_beyond (root_sort g) keep prot (t_block_headers s)))"
proof -
  let ?hs = "t_block_headers s" and ?enc = "\<lambda>(r, slot). (root_bytes r, slot :: u64)"
  let ?entries = "map (\<lambda>(root, header). (root, hdr_slot header)) ?hs"
  have t: "inv (ys_backend y)" "holds_table (contents (ys_backend y) BlockHeaders) root_bytes (sc_header K) ?hs"
    using y by (simp_all add: implements_def represents_defs)
  have dec: "map_res (\<lambda>(key, v). bind_res (expect_decode (sc_header K) v) (\<lambda>h. Ok (key, hdr_slot h)))
      (table_bytes root_bytes (sc_header K) hs) = Ok (map ?enc (map (\<lambda>(root, header). (root, hdr_slot header)) hs))"
    if "set hs \<subseteq> set ?hs" for hs
    using that by (induction hs) (auto simp: expect_decode_def holds_carries [OF t(2)])
  have sel: "map fst (filter (\<lambda>(key, _). key \<notin> set (map root_bytes prot)) (map ?enc xs)) =
      map root_bytes (map fst (filter (\<lambda>(key, _). key \<notin> set prot) xs))" for xs :: "(H256 \<times> u64) list"
    by (induction xs) auto
  show ?thesis
    unfolding db_keys_beyond_def scan_table [OF t] bind_res.simps dec [OF order_refl] keys_beyond_def Let_def
      sort_roots [OF g] drop_map sel by simp
qed

lemma prune_old_states_implements:
  assumes y: "implements inv contents K y s" and g: "sorts_desc g"
  shows "\<exists>y'. db_prune_old_states B K g prot y = Ok (fst (prune_old_states (root_sort g) prot s), y') \<and>
    implements inv contents K y' (snd (prune_old_states (root_sort g) prot s))"
proof -
  let ?ks = "keys_beyond (root_sort g) STATES_TO_KEEP prot (t_block_headers s)"
  have w: "\<exists>y'. db_write B [DeleteBatch States (map root_bytes ?ks)] y = Ok y' \<and>
      implements inv contents K y' (s\<lparr>t_states := tbl_delete ?ks (t_states s)\<rparr>)"
    using y by (intro db_write_implements) (auto simp: implements_def represents_defs root_table.holds_delete)
  show ?thesis
    using w y unfolding db_prune_old_states_def keys_beyond_bytes [OF y g] prune_old_states_def Let_def
    by (cases "?ks = []") auto
qed

lemma prune_old_blocks_implements:
  assumes y: "implements inv contents K y s" and g: "sorts_desc g"
  shows "\<exists>y'. db_prune_old_blocks B K g prot y = Ok (fst (prune_old_blocks (root_sort g) prot s), y') \<and>
    implements inv contents K y' (snd (prune_old_blocks (root_sort g) prot s))"
proof -
  let ?ks = "keys_beyond (root_sort g) BLOCKS_TO_KEEP prot (t_block_headers s)"
  have w: "\<exists>y'. db_write B [DeleteBatch BlockHeaders (map root_bytes ?ks), DeleteBatch BlockBodies (map root_bytes ?ks),
        DeleteBatch BlockSignatures (map root_bytes ?ks)] y = Ok y' \<and>
      implements inv contents K y' (s\<lparr>t_block_headers := tbl_delete ?ks (t_block_headers s),
        t_block_bodies := tbl_delete ?ks (t_block_bodies s), t_block_signatures := tbl_delete ?ks (t_block_signatures s)\<rparr>)"
    using y by (intro db_write_implements) (auto simp: implements_def represents_defs root_table.holds_delete)
  show ?thesis
    using w y unfolding db_prune_old_blocks_def keys_beyond_bytes [OF y g] prune_old_blocks_def Let_def
    by (cases "?ks = []") auto
qed

section \<open>Metadata\<close>

lemma get_metadata_value:
  "inv (ys_backend y) \<Longrightarrow> holds_value (contents (ys_backend y) Metadata) key E v \<Longrightarrow> get_metadata B E key y = Ok v"
  by (simp add: get_metadata_def read_key_ok holds_value_def carries_def expect_decode_def)

lemma metadata_reads:
  assumes "implements inv contents K y s"
  shows "get_metadata B u64_ssz KEY_TIME y = Ok (s_time s)"
    and "get_metadata B (sc_config K) KEY_CONFIG y = Ok (s_config s)"
    and "get_metadata B root_ssz KEY_HEAD y = Ok (s_head s)"
    and "get_metadata B root_ssz KEY_SAFE_TARGET y = Ok (s_safe_target s)"
    and "get_metadata B (sc_checkpoint K) KEY_LATEST_JUSTIFIED y = Ok (s_latest_justified s)"
    and "get_metadata B (sc_checkpoint K) KEY_LATEST_FINALIZED y = Ok (s_latest_finalized s)"
  using assms by (auto simp: implements_def represents_defs intro!: get_metadata_value)

lemma prune_old_data_implements:
  assumes y: "implements inv contents K y s" and g: "sorts_desc g"
  shows "\<exists>y'. db_prune_old_data B K g y = Ok y' \<and> implements inv contents K y' (prune_old_data (root_sort g) s)"
proof -
  let ?prot = "[cp_root (s_latest_finalized s), cp_root (s_latest_justified s)]"
  from prune_old_states_implements [OF y g, of ?prot] obtain y1 where
    y1: "db_prune_old_states B K g ?prot y = Ok (fst (prune_old_states (root_sort g) ?prot s), y1)"
      "implements inv contents K y1 (snd (prune_old_states (root_sort g) ?prot s))" by blast
  from prune_old_blocks_implements [OF y1(2) g, of ?prot] y1(1) show ?thesis
    by (auto simp: db_prune_old_data_def metadata_reads [OF y] prune_old_data_def Let_def)
qed

lemma checkpoint_entries_represent:
  assumes "metadata_represented K m s"
    and "\<forall>cp. fc_justified fc = Some cp \<or> fc_finalized fc = Some cp \<longrightarrow> carries (sc_checkpoint K) cp"
  shows "metadata_represented K (m ++ map_of (rev (checkpoint_entries K fc)))
    (s\<lparr>s_head := fc_head fc,
       s_latest_justified := (case fc_justified fc of Some cp \<Rightarrow> cp | None \<Rightarrow> s_latest_justified s),
       s_latest_finalized := (case fc_finalized fc of Some cp \<Rightarrow> cp | None \<Rightarrow> s_latest_finalized s)\<rparr>)"
  using assms
  by (cases "fc_justified fc"; cases "fc_finalized fc")
    (auto simp: metadata_represented_def checkpoint_entries_def holds_value_def)

lemma update_checkpoints_implements:
  assumes y: "implements inv contents K y s"
    and fc: "\<forall>cp. fc_justified fc = Some cp \<or> fc_finalized fc = Some cp \<longrightarrow> carries (sc_checkpoint K) cp"
  shows "\<exists>y'. db_update_checkpoints B K fc y = Ok y' \<and> implements inv contents K y' (update_checkpoints fc s)"
proof -
  let ?s1 = "s\<lparr>s_head := fc_head fc,
       s_latest_justified := (case fc_justified fc of Some cp \<Rightarrow> cp | None \<Rightarrow> s_latest_justified s),
       s_latest_finalized := (case fc_finalized fc of Some cp \<Rightarrow> cp | None \<Rightarrow> s_latest_finalized s)\<rparr>"
  have "metadata_represented K (contents (ys_backend y) Metadata) s" using y by (simp add: implements_def represents_def)
  from checkpoint_entries_represent [OF this fc]
  have "represents K (fold perform [PutBatch Metadata (checkpoint_entries K fc)] (contents (ys_backend y))) ?s1"
    using y by (simp add: implements_def represents_def tables_represented_def)
  from db_write_implements [OF y this] obtain y1 where
    y1: "db_write B [PutBatch Metadata (checkpoint_entries K fc)] y = Ok y1" "implements inv contents K y1 ?s1" by auto
  show ?thesis
  proof (cases "\<exists>f. fc_finalized fc = Some f \<and> cp_slot f > cp_slot (s_latest_finalized s)")
    case True
    then obtain f where f: "fc_finalized fc = Some f" "cp_slot f > cp_slot (s_latest_finalized s)" by blast
    from prune_live_chain_implements [OF y1(2), of "cp_slot f"] obtain y2 where
      y2: "db_prune_live_chain B (cp_slot f) y1 = Ok (fst (prune_live_chain (cp_slot f) ?s1), y2)"
        "implements inv contents K y2 (snd (prune_live_chain (cp_slot f) ?s1))" by blast
    from prune_gossip_signatures_implements [OF y2(2), of "cp_slot f"] obtain n3 y3 where
      y3: "db_prune_gossip_signatures B K (cp_slot f) y2 = Ok (n3, y3)"
        "implements inv contents K y3 (snd (prune_gossip_signatures (cp_slot f) (snd (prune_live_chain (cp_slot f) ?s1))))" by blast
    from prune_attestation_data_implements [OF y3(2), of "cp_slot f"] y1(1) y2(1) y3(1) f show ?thesis
      by (auto simp: db_update_checkpoints_def metadata_reads [OF y] update_checkpoints_def Let_def)
  next
    case False
    with y1 show ?thesis
      by (auto simp: db_update_checkpoints_def metadata_reads [OF y] update_checkpoints_def Let_def split: option.splits)
  qed
qed

section \<open>Initialization\<close>

lemma count_gossip_bytes:
  assumes "inv d" and "tables_represented K (contents d) db"
  shows "db_count_gossip_signatures B d = Ok (count_gossip_signatures db)"
proof -
  have "holds_table (contents d GossipSignatures) encode_signature_key (sc_gossip_signature K) (t_gossip_signatures db)"
    using assms(2) by (simp add: tables_represented_def)
  from scan_table [OF assms(1) this] show ?thesis
    by (simp add: db_count_gossip_signatures_def count_gossip_signatures_def)
qed

lemma anchor_ops_represent:
  assumes "tables_represented K c db" and "carries (sc_header K) (st_latest_block_header a)" and "carries (sc_state K) a"
    and "carries (sc_config K) (st_config a)" and "\<And>cp. carries (sc_checkpoint K) (anchor_checkpoint H a)"
    and "\<And>b. body = Some b \<Longrightarrow> carries (sc_body K) b"
  shows "represents K (fold perform (anchor_ops K H a body) c) (anchor_store H db a body)"
  using assms unfolding represents_defs
  by (cases body)
    (simp_all add: anchor_ops_def anchor_store_def Let_def root_table.holds_put
      chain_table.holds_put [where E = root_ssz, unfolded encode_root])

lemma init_store_implements:
  fixes db :: tables
  assumes d: "inv d" "tables_represented K (contents d) db"
    and s: "init_store H db st body = (Ok s :: (store, unit) result)"
    and c: "anchor_carried K s body"
  shows "\<exists>y. db_init_store B K H d st body = Ok y \<and> implements inv contents K y s"
proof -
  let ?a = "anchored H st"
  from s have ok: "anchor_accepted H st" and s_eq: "s = anchor_store H db ?a body"
    by (simp_all add: init_store_alt split: if_splits)
  have rep: "represents K (fold perform (anchor_ops K H ?a body) (contents d)) s"
    unfolding s_eq using c s_eq
    by (intro anchor_ops_represent [OF d(2)])
      (auto simp: anchor_carried_def anchor_store_def Let_def get_block_header_def get_state_def)
  from commit_ops_ok [OF d(1), of "anchor_ops K H ?a body"] obtain d' where
    d': "commit_ops B (anchor_ops K H ?a body) d = Ok d'" "inv d'"
      "contents d' = fold perform (anchor_ops K H ?a body) (contents d)" by blast
  have "tables_represented K (contents d') s" using rep d'(3) by (simp add: represents_def)
  from count_gossip_bytes [OF d'(2) this] have n: "db_count_gossip_signatures B d' = Ok (s_gossip_signatures_count s)"
    by (simp add: s_eq anchor_store_def Let_def count_gossip_signatures_def)
  from ok d' n rep show ?thesis
    by (auto simp: db_init_store_alt implements_def) (simp_all add: s_eq anchor_store_def Let_def)
qed

section \<open>Reads\<close>

lemma lookup_table:
  assumes "inv (ys_backend y)" and "holds_table (contents (ys_backend y) T) enc E t" and "keyed_table enc"
  shows "db_lookup B E T (enc k) y = Ok (map_of t k)"
  using keyed_table.holds_lookup [OF assms(3,2), of k] holds_decode [OF assms(2), of k]
  by (cases "map_of t k") (simp_all add: db_lookup_def read_key_ok assms(1) expect_decode_def)

lemma table_reads:
  assumes "implements inv contents K y s"
  shows "db_get_block_header B K root y = Ok (get_block_header s root)"
    and "db_get_state B K root y = Ok (get_state s root)"
    and "db_get_attestation_data_by_root B K root y = Ok (get_attestation_data_by_root s root)"
  unfolding db_get_block_header_def db_get_state_def db_get_attestation_data_by_root_def
    get_block_header_def get_state_def get_attestation_data_by_root_def
  using assms by (auto simp: implements_def represents_defs intro!: lookup_table root_table.keyed_table_axioms)

lemma has_state_bytes:
  assumes "implements inv contents K y s"
  shows "db_has_state B root y = Ok (has_state s root)"
proof -
  have "contents (ys_backend y) States (root_bytes root) = map_option (ssz_encode (sc_state K)) (map_of (t_states s) root)"
    using assms by (auto simp: implements_def represents_defs intro: root_table.holds_lookup)
  with assms show ?thesis by (simp add: db_has_state_def has_state_def read_key_ok implements_def)
qed

lemma get_signed_block_bytes:
  assumes "implements inv contents K y s"
  shows "db_get_signed_block B K H root y = Ok (get_signed_block H s root)"
proof -
  have t: "inv (ys_backend y)"
    "holds_table (contents (ys_backend y) BlockHeaders) root_bytes (sc_header K) (t_block_headers s)"
    "holds_table (contents (ys_backend y) BlockBodies) root_bytes (sc_body K) (t_block_bodies s)"
    "holds_table (contents (ys_backend y) BlockSignatures) root_bytes (sc_signatures K) (t_block_signatures s)"
    using assms by (simp_all add: implements_def represents_defs)
  note reads = root_table.holds_lookup [OF t(2), of root] root_table.holds_lookup [OF t(4), of root]
    lookup_table [OF t(1,3) root_table.keyed_table_axioms, of root]
  show ?thesis
    using holds_decode [OF t(2), of root] holds_decode [OF t(4), of root]
    by (cases "map_of (t_block_headers s) root"; cases "map_of (t_block_signatures s) root";
        cases "map_of (t_block_bodies s) root")
      (simp_all add: db_get_signed_block_def get_signed_block_def read_key_ok t(1) reads expect_decode_def)
qed

lemma live_chain_entries:
  "map_res live_chain_entry (table_bytes encode_live_chain_key root_ssz t) =
     Ok (map (\<lambda>((slot, root), parent_root). (root, (slot, parent_root))) t)"
proof (induction t)
  case (Cons e t)
  obtain slot root parent where "e = ((slot, root), parent)" by (metis prod.exhaust)
  with Cons carries_root [of parent] show ?case
    by (simp add: live_chain_entry_def decode_encode_live_chain_key expect_decode_def carries_def)
qed simp

lemma live_chain_roots:
  "map_res (\<lambda>(k, _). bind_res (decode_live_chain_key k) (\<lambda>(_, root). Ok root))
     (table_bytes encode_live_chain_key E t) = Ok (map (\<lambda>((_, root), _). root) t)"
  by (induction t) (auto simp: decode_encode_live_chain_key)

lemma gossip_entries_table:
  "\<forall>v \<in> snd ` set t. carries E v \<Longrightarrow> gossip_entries E (table_bytes encode_signature_key E t) = Ok t"
  by (induction t) (auto simp: decode_encode_signature_key carries_def)

lemma scan_reads:
  assumes "implements inv contents K y s"
  shows "db_get_live_chain B y = Ok (get_live_chain s)"
    and "db_get_block_roots B y = Ok (get_block_roots s)"
    and "db_iter_gossip_signatures B K y = Ok (iter_gossip_signatures s)"
proof -
  have t: "inv (ys_backend y)"
    "holds_table (contents (ys_backend y) LiveChain) encode_live_chain_key root_ssz (t_live_chain s)"
    "holds_table (contents (ys_backend y) GossipSignatures) encode_signature_key (sc_gossip_signature K) (t_gossip_signatures s)"
    using assms by (simp_all add: implements_def represents_defs)
  show "db_get_live_chain B y = Ok (get_live_chain s)"
    by (simp add: db_get_live_chain_def get_live_chain_def scan_table [OF t(1,2)] live_chain_entries)
  show "db_get_block_roots B y = Ok (get_block_roots s)"
    by (simp add: db_get_block_roots_def get_block_roots_def scan_table [OF t(1,2)] live_chain_roots)
  have "\<forall>v \<in> snd ` set (t_gossip_signatures s). carries (sc_gossip_signature K) v" using t(3) by (simp add: holds_table_def)
  then show "db_iter_gossip_signatures B K y = Ok (iter_gossip_signatures s)"
    by (simp add: db_iter_gossip_signatures_def iter_gossip_signatures_def scan_table [OF t(1,3)] gossip_entries_table)
qed

lemma extract_step_bytes:
  assumes "implements inv contents K y s"
  shows "db_extract_step B K y key acc = Ok (extract_step (get_attestation_data_by_root s) key acc)"
proof -
  obtain v dr cache res where eq: "key = (v, dr)" "acc = (cache, res)" by (cases key; cases acc)
  show ?thesis
    by (cases "map_of cache dr")
      (auto simp: eq db_extract_step_def extract_step_def table_reads [OF assms] or_insert_def Let_def split: option.splits)
qed

lemma extract_latest_bytes:
  assumes "implements inv contents K y s"
  shows "db_extract_latest_attestations B K keys y = Ok (extract_latest_attestations s keys)"
proof -
  have "fold_res (db_extract_step B K y) keys acc = Ok (fold (extract_step (get_attestation_data_by_root s)) keys acc)" for acc
    by (induction keys arbitrary: acc) (simp_all add: extract_step_bytes [OF assms])
  then show ?thesis by (simp add: db_extract_latest_attestations_def extract_latest_attestations_def case_prod_unfold)
qed

lemma derived_reads:
  assumes "implements inv contents K y s"
  shows "db_head_slot B K y = head_slot s" and "db_safe_target_slot B K y = safe_target_slot s"
    and "db_head_state B K y = head_state s"
  by (simp_all add: db_head_slot_def db_safe_target_slot_def db_head_state_def head_slot_def safe_target_slot_def
      head_state_def metadata_reads [OF assms] table_reads [OF assms])

section \<open>Sequences of calls\<close>

lemma payload_calls_implement:
  assumes "implements inv contents K y s"
  shows "implements inv contents K (db_insert_known_payloads es y) (insert_known_aggregated_payloads_batch es s)"
    and "implements inv contents K (db_insert_new_payloads es y) (insert_new_aggregated_payloads_batch es s)"
    and "implements inv contents K (db_promote_new_aggregated_payloads y) (promote_new_aggregated_payloads s)"
  using assms
  by (auto simp: implements_def represents_defs db_insert_known_payloads_def insert_known_aggregated_payloads_batch_def
      db_insert_new_payloads_def insert_new_aggregated_payloads_batch_def db_promote_new_aggregated_payloads_def
      promote_new_aggregated_payloads_def buffer_drain_def)

lemma call_implements:
  assumes y: "implements inv contents K y s" and g: "sorts_desc g" and c: "call_carried K H C call"
  shows "\<exists>y'. db_call B K H C g call y = Ok y' \<and> implements inv contents K y' (typed_call H C (root_sort g) call s)"
  using c
  by (cases call)
    (auto intro: set_time_implements [OF y] set_safe_target_implements [OF y] update_checkpoints_implements [OF y]
      prune_old_data_implements [OF y g] insert_pending_block_implements [OF y] insert_signed_block_implements [OF y]
      insert_state_implements [OF y] insert_attestation_data_implements [OF y]
      insert_attestation_data_batch_implements [OF y] payload_calls_implement [OF y]
      delete_gossip_signatures_implements [OF y] insert_gossip_signature_implements [OF y])

lemma calls_implement:
  assumes "implements inv contents K y s" and "sorts_desc g" and "list_all (call_carried K H C) calls"
  shows "\<exists>y'. fold_res (db_call B K H C g) calls y = Ok y' \<and>
    implements inv contents K y' (fold (typed_call H C (root_sort g)) calls s)"
  using assms(1,3)
proof (induction calls arbitrary: y s)
  case (Cons call calls)
  from call_implements [OF Cons.prems(1) assms(2), of H C call] Cons.prems(2) obtain y1 where
    "db_call B K H C g call y = Ok y1" "implements inv contents K y1 (typed_call H C (root_sort g) call s)" by auto
  with Cons.IH [of y1] Cons.prems(2) show ?case by simp
qed simp

end

context rocksdb_library
begin

lemma backend_ordered: "ordered_storage (rocksdb_backend L) live (own_families L record_of)
    (tables_of L family) (batch_effect L record_of)"
  by (rule rocks.ordered_storage_axioms)

end

section \<open>Properties\<close>

text \<open>
  C23. The store on RocksDB implements the typed store, from start-up on. On a database whose tables
  represent typed tables (an empty one does), initializing the store from an anchor and then making
  any sequence of calls succeeds, without a panic on a backend error or on undecodable bytes, and
  leaves a database that represents the typed store after the same calls. The library behaves as
  documented, the sort by slot sorts, and the encodings carry the values that are written.
\<close>

theorem rocksdb_store_refines:
  fixes db :: tables
  assumes "rocksdb_library L live family record_of" and "live d"
    and "tables_represented K (tables_of L family d) db"
    and "init_store H db st body = (Ok s0 :: (store, unit) result)" and "anchor_carried K s0 body"
    and "sorts_desc g" and "list_all (call_carried K H C) calls"
  shows "\<exists>y0 y. db_init_store (rocksdb_backend L) K H d st body = Ok y0 \<and>
    fold_res (db_call (rocksdb_backend L) K H C g) calls y0 = Ok y \<and>
    implements live (tables_of L family) K y (fold (typed_call H C (root_sort g)) calls s0)"
proof -
  note o = rocksdb_library.backend_ordered [OF assms(1)]
  from ordered_storage.init_store_implements [OF o assms(2-5)] obtain y0 where
    y0: "db_init_store (rocksdb_backend L) K H d st body = Ok y0" "implements live (tables_of L family) K y0 s0" by blast
  from ordered_storage.calls_implement [OF o y0(2) assms(6,7)] y0(1) show ?thesis by blast
qed

definition demo_store_codec :: store_codec where
  "demo_store_codec =
     (let a = anchored demo_hashing demo_genesis
      in \<lparr>sc_header = demo_ssz (st_latest_block_header a), sc_body = demo_ssz block_body_default,
          sc_signatures = demo_ssz undefined, sc_state = demo_ssz a,
          sc_gossip_signature = demo_ssz (stored_signature_new demo_crypto 1 [3]),
          sc_attestation_data = demo_ssz (demo_data 1 0 1), sc_config = demo_ssz (st_config a),
          sc_checkpoint = demo_ssz (anchor_checkpoint demo_hashing a)\<rparr>)"

lemma carries_demo [simp]: "carries (demo_ssz x) x"
  by (simp add: carries_def demo_ssz_def)

lemma demo_anchor_accepted: "anchor_accepted demo_hashing demo_genesis"
  by (auto simp: anchor_accepted_def demo_defs)

lemma demo_anchor_carried:
  "anchor_carried demo_store_codec (anchor_store demo_hashing empty_tables (anchored demo_hashing demo_genesis) None) None"
  by (auto simp: anchor_carried_def anchor_store_def demo_store_codec_def get_block_header_def get_state_def Let_def)

lemma tables_represented_empty: "(\<And>t. c t = Map.empty) \<Longrightarrow> tables_represented K c empty_tables"
  by (simp add: tables_represented_def holds_table_def empty_tables_def)

theorem rocksdb_store_refines_witness:
  "\<exists>d y0 y s. rocksdb_open list_rocksdb = Ok d \<and>
     db_init_store (rocksdb_backend list_rocksdb) demo_store_codec demo_hashing d demo_genesis None = Ok y0 \<and>
     fold_res (db_call (rocksdb_backend list_rocksdb) demo_store_codec demo_hashing demo_crypto
         (\<lambda>xs. rev (sort_key snd xs))) [InsertGossipSignature 7 1 2 [3], SetTime 5] y0 = Ok y \<and>
     implements list_live (tables_of list_rocksdb list_family) demo_store_codec y s \<and> s_time s = 5"
proof -
  let ?s0 = "anchor_store demo_hashing empty_tables (anchored demo_hashing demo_genesis) None"
  let ?g = "\<lambda>xs. rev (sort_key snd xs)" and ?calls = "[InsertGossipSignature 7 1 2 [3], SetTime 5]"
  from list_open obtain d where d: "rocksdb_open list_rocksdb = Ok d" "list_live d"
    "\<And>t. tables_of list_rocksdb list_family d t = Map.empty" by blast
  have i: "init_store demo_hashing empty_tables demo_genesis None = (Ok ?s0 :: (store, unit) result)"
    by (simp add: init_store_alt demo_anchor_accepted)
  have c: "list_all (call_carried demo_store_codec demo_hashing demo_crypto) ?calls"
    by (simp add: demo_store_codec_def Let_def)
  from rocksdb_store_refines [OF list_library.rocksdb_library_axioms d(2) tables_represented_empty [OF d(3)] i
      demo_anchor_carried sorts_desc_sort_key c] d(1)
  show ?thesis by (fastforce simp: set_time_def)
qed

text \<open>
  C24. Reading back from RocksDB: on a database that represents a typed store every read of the store,
  by key, by scan, or of the metadata (clock, configuration, head, safe target, justified and finalized
  checkpoint, each under its own key), returns what the typed store returns. In particular a scan of
  the live chain visits the blocks by slot, bytes read from the tables always decode, and panics
  happen only where the typed store has no head or no safe target.
\<close>

theorem rocksdb_store_reads:
  assumes "rocksdb_library L live family record_of" and "implements live (tables_of L family) K y s"
  shows "db_get_block_header (rocksdb_backend L) K root y = Ok (get_block_header s root) \<and>
    db_get_state (rocksdb_backend L) K root y = Ok (get_state s root) \<and>
    db_has_state (rocksdb_backend L) root y = Ok (has_state s root) \<and>
    db_get_signed_block (rocksdb_backend L) K H root y = Ok (get_signed_block H s root) \<and>
    db_get_attestation_data_by_root (rocksdb_backend L) K root y = Ok (get_attestation_data_by_root s root) \<and>
    db_extract_latest_attestations (rocksdb_backend L) K keys y = Ok (extract_latest_attestations s keys) \<and>
    db_get_live_chain (rocksdb_backend L) y = Ok (get_live_chain s) \<and>
    db_get_block_roots (rocksdb_backend L) y = Ok (get_block_roots s) \<and>
    db_iter_gossip_signatures (rocksdb_backend L) K y = Ok (iter_gossip_signatures s) \<and>
    get_metadata (rocksdb_backend L) u64_ssz KEY_TIME y = Ok (s_time s) \<and>
    get_metadata (rocksdb_backend L) (sc_config K) KEY_CONFIG y = Ok (s_config s) \<and>
    get_metadata (rocksdb_backend L) root_ssz KEY_HEAD y = Ok (s_head s) \<and>
    get_metadata (rocksdb_backend L) root_ssz KEY_SAFE_TARGET y = Ok (s_safe_target s) \<and>
    get_metadata (rocksdb_backend L) (sc_checkpoint K) KEY_LATEST_JUSTIFIED y = Ok (s_latest_justified s) \<and>
    get_metadata (rocksdb_backend L) (sc_checkpoint K) KEY_LATEST_FINALIZED y = Ok (s_latest_finalized s) \<and>
    db_head_slot (rocksdb_backend L) K y = head_slot s \<and>
    db_safe_target_slot (rocksdb_backend L) K y = safe_target_slot s \<and>
    db_head_state (rocksdb_backend L) K y = head_state s"
proof -
  note o = rocksdb_library.backend_ordered [OF assms(1)]
  note r = ordered_storage.table_reads [OF o assms(2)] ordered_storage.has_state_bytes [OF o assms(2)]
    ordered_storage.get_signed_block_bytes [OF o assms(2)] ordered_storage.extract_latest_bytes [OF o assms(2)]
    ordered_storage.scan_reads [OF o assms(2)] ordered_storage.metadata_reads [OF o assms(2)]
    ordered_storage.derived_reads [OF o assms(2)]
  show ?thesis by (intro conjI) (rule r)+
qed

theorem rocksdb_store_reads_witness:
  "\<exists>d y0. rocksdb_open list_rocksdb = Ok d \<and>
     db_init_store (rocksdb_backend list_rocksdb) demo_store_codec demo_hashing d demo_genesis None = Ok y0 \<and>
     db_head_state (rocksdb_backend list_rocksdb) demo_store_codec y0 = Ok (anchored demo_hashing demo_genesis)"
proof -
  let ?s0 = "anchor_store demo_hashing empty_tables (anchored demo_hashing demo_genesis) None"
  from list_open obtain d where d: "rocksdb_open list_rocksdb = Ok d" "list_live d"
    "\<And>t. tables_of list_rocksdb list_family d t = Map.empty" by blast
  have i: "init_store demo_hashing empty_tables demo_genesis None = (Ok ?s0 :: (store, unit) result)"
    by (simp add: init_store_alt demo_anchor_accepted)
  from ordered_storage.init_store_implements [OF list_library.backend_ordered d(2) tables_represented_empty [OF d(3)] i
      demo_anchor_carried]
  obtain y0 where y0: "db_init_store (rocksdb_backend list_rocksdb) demo_store_codec demo_hashing d demo_genesis None = Ok y0"
    "implements list_live (tables_of list_rocksdb list_family) demo_store_codec y0 ?s0" by blast
  from rocksdb_store_reads [OF list_library.rocksdb_library_axioms y0(2)]
  have "db_head_state (rocksdb_backend list_rocksdb) demo_store_codec y0 = head_state ?s0" by blast
  then have "db_head_state (rocksdb_backend list_rocksdb) demo_store_codec y0 = Ok (anchored demo_hashing demo_genesis)"
    by (simp add: head_state_def get_state_def anchor_store_def Let_def)
  with d(1) y0(1) show ?thesis by blast
qed

section \<open>Unordered backends\<close>

text \<open>
  The in-memory backend iterates in the order of a hash map. There pruning the live chain may stop
  before it has seen every finalized slot: here slot 1 survives a pruning of all slots below 3.
\<close>

lemma in_memory_prune_incomplete:
  "\<exists>y. storage_ok (ys_backend y) \<and>
     contents_of (ys_backend y) LiveChain (encode_live_chain_key (1, 7)) = Some (root_bytes 0) \<and>
     db_prune_live_chain in_memory_backend 3 y = Ok (0, y)"
proof -
  let ?d = "AList.update LiveChain [(encode_live_chain_key (5, 6), root_bytes 0), (encode_live_chain_key (1, 7), root_bytes 0)]
    in_memory_new"
  let ?y = "\<lparr>ys_backend = ?d, ys_new_payloads = buffer_new 0, ys_known_payloads = buffer_new 0,
    ys_gossip_signatures_count = 0\<rparr>"
  have ne: "encode_live_chain_key (5, 6) \<noteq> encode_live_chain_key (1, 7)"
    using inj_encode_live_chain_key by (simp add: inj_eq)
  have ok: "storage_ok ?d" using storage_ok_new ne by (auto simp: storage_ok_def)
  have "db_prune_live_chain in_memory_backend 3 ?y = Ok (0, ?y)"
    by (simp add: db_prune_live_chain_def scan_def in_memory_backend_def in_memory_begin_read_def
        in_memory_prefix_iterator_def starts_with_def decode_encode_live_chain_key map_filter_simps)
  with ok ne show ?thesis by (intro exI [of _ ?y]) (simp add: contents_of_def)
qed

end
