(* ===== verification/Test_Fixtures.thy ===== *)
theory Test_Fixtures
  imports State_Invariants
begin

text \<open>
  The types of the JSON test vectors (\<open>crates/common/test-fixtures/src/lib.rs\<close>) and their conversions to
  the consensus types. A bounded list that is too long panics. Blocks are converted faithfully; of a
  state, the justified slots and the open votes are dropped.
\<close>

section \<open>The types of the vectors\<close>

record 'a container =
  ct_data :: "'a list"

record fixture_config =
  fc_genesis_time :: u64

record fixture_checkpoint =
  fcp_root :: H256
  fcp_slot :: u64

record fixture_block_header =
  fbh_slot :: u64
  fbh_proposer_index :: u64
  fbh_parent_root :: H256
  fbh_state_root :: H256
  fbh_body_root :: H256

record fixture_validator =
  fv_index :: u64
  fv_pubkey :: bytes

record test_state =
  ts_config :: fixture_config
  ts_slot :: u64
  ts_latest_block_header :: fixture_block_header
  ts_latest_justified :: fixture_checkpoint
  ts_latest_finalized :: fixture_checkpoint
  ts_historical_block_hashes :: "H256 container"
  ts_justified_slots :: "u64 container"
  ts_validators :: "fixture_validator container"
  ts_justifications_roots :: "H256 container"
  ts_justifications_validators :: "bool container"

record fixture_attestation_data =
  fad_slot :: u64
  fad_head :: fixture_checkpoint
  fad_target :: fixture_checkpoint
  fad_source :: fixture_checkpoint

record fixture_aggregation_bits =
  fab_data :: "bool list"

record fixture_aggregated_attestation =
  faa_aggregation_bits :: fixture_aggregation_bits
  faa_data :: fixture_attestation_data

record fixture_block_body =
  fbb_attestations :: "fixture_aggregated_attestation container"

record fixture_block =
  fb_slot :: u64
  fb_proposer_index :: u64
  fb_parent_root :: H256
  fb_state_root :: H256
  fb_body :: fixture_block_body

section \<open>Conversions\<close>

definition config_of_fixture :: "fixture_config \<Rightarrow> chain_config" where
  "config_of_fixture c = \<lparr>cc_genesis_time = fc_genesis_time c\<rparr>"

definition checkpoint_of_fixture :: "fixture_checkpoint \<Rightarrow> checkpoint" where
  "checkpoint_of_fixture c = \<lparr>cp_root = fcp_root c, cp_slot = fcp_slot c\<rparr>"

definition header_of_fixture :: "fixture_block_header \<Rightarrow> block_header" where
  "header_of_fixture h =
     \<lparr>hdr_slot = fbh_slot h, hdr_proposer_index = fbh_proposer_index h, hdr_parent_root = fbh_parent_root h,
      hdr_state_root = fbh_state_root h, hdr_body_root = fbh_body_root h\<rparr>"

definition validator_of_fixture :: "fixture_validator \<Rightarrow> validator" where
  "validator_of_fixture v = \<lparr>val_pubkey = fv_pubkey v, val_index = fv_index v\<rparr>"

definition variable_list :: "nat \<Rightarrow> 'a list \<Rightarrow> ('a list, unit) result" where
  "variable_list limit xs = (if length xs \<le> limit then Ok xs else Panic)"

definition state_of_fixture :: "test_state \<Rightarrow> (state, unit) result" where
  "state_of_fixture ts =
     bind_res (variable_list HISTORICAL_ROOTS_LIMIT (ct_data (ts_historical_block_hashes ts))) (\<lambda>historical_block_hashes.
     bind_res (variable_list VALIDATOR_REGISTRY_LIMIT (map validator_of_fixture (ct_data (ts_validators ts)))) (\<lambda>validators.
     bind_res (variable_list HISTORICAL_ROOTS_LIMIT (ct_data (ts_justifications_roots ts))) (\<lambda>justifications_roots.
       Ok \<lparr>st_config = config_of_fixture (ts_config ts), st_slot = ts_slot ts,
           st_latest_block_header = header_of_fixture (ts_latest_block_header ts),
           st_latest_justified = checkpoint_of_fixture (ts_latest_justified ts),
           st_latest_finalized = checkpoint_of_fixture (ts_latest_finalized ts),
           st_historical_block_hashes = historical_block_hashes, st_justified_slots = [],
           st_validators = validators, st_justifications_roots = justifications_roots,
           st_justifications_validators = []\<rparr>)))"

definition attestation_data_of_fixture :: "fixture_attestation_data \<Rightarrow> attestation_data" where
  "attestation_data_of_fixture d =
     \<lparr>ad_slot = fad_slot d, ad_head = checkpoint_of_fixture (fad_head d),
      ad_target = checkpoint_of_fixture (fad_target d), ad_source = checkpoint_of_fixture (fad_source d)\<rparr>"

definition aggregation_bits_of_fixture :: "fixture_aggregation_bits \<Rightarrow> (aggregation_bits, unit) result" where
  "aggregation_bits_of_fixture b =
     bind_res (expect (with_capacity VALIDATOR_REGISTRY_LIMIT (length (fab_data b)))) (\<lambda>bits.
       fold_res (\<lambda>(i, x) bits. expect (bit_set bits i x)) (enumerate 0 (fab_data b)) bits)"

definition aggregated_attestation_of_fixture ::
  "fixture_aggregated_attestation \<Rightarrow> (aggregated_attestation, unit) result" where
  "aggregated_attestation_of_fixture a =
     bind_res (aggregation_bits_of_fixture (faa_aggregation_bits a)) (\<lambda>bits.
       Ok \<lparr>aa_aggregation_bits = bits, aa_data = attestation_data_of_fixture (faa_data a)\<rparr>)"

definition body_of_fixture :: "fixture_block_body \<Rightarrow> (block_body, unit) result" where
  "body_of_fixture b =
     bind_res (map_res aggregated_attestation_of_fixture (ct_data (fbb_attestations b))) (\<lambda>attestations.
     bind_res (variable_list VALIDATOR_REGISTRY_LIMIT attestations) (\<lambda>attestations.
       Ok \<lparr>body_attestations = attestations\<rparr>))"

definition block_of_fixture :: "fixture_block \<Rightarrow> (block, unit) result" where
  "block_of_fixture b =
     bind_res (body_of_fixture (fb_body b)) (\<lambda>body.
       Ok \<lparr>blk_slot = fb_slot b, blk_proposer_index = fb_proposer_index b, blk_parent_root = fb_parent_root b,
           blk_state_root = fb_state_root b, blk_body = body\<rparr>)"

section \<open>What is kept\<close>

text \<open>The vector that describes a value.\<close>

definition fixture_checkpoint_of :: "checkpoint \<Rightarrow> fixture_checkpoint" where
  "fixture_checkpoint_of c = \<lparr>fcp_root = cp_root c, fcp_slot = cp_slot c\<rparr>"

definition fixture_attestation_of :: "aggregated_attestation \<Rightarrow> fixture_aggregated_attestation" where
  "fixture_attestation_of a =
     \<lparr>faa_aggregation_bits = \<lparr>fab_data = aa_aggregation_bits a\<rparr>,
      faa_data = \<lparr>fad_slot = ad_slot (aa_data a), fad_head = fixture_checkpoint_of (ad_head (aa_data a)),
                  fad_target = fixture_checkpoint_of (ad_target (aa_data a)),
                  fad_source = fixture_checkpoint_of (ad_source (aa_data a))\<rparr>\<rparr>"

definition fixture_block_of :: "block \<Rightarrow> fixture_block" where
  "fixture_block_of b =
     \<lparr>fb_slot = blk_slot b, fb_proposer_index = blk_proposer_index b, fb_parent_root = blk_parent_root b,
      fb_state_root = blk_state_root b,
      fb_body = \<lparr>fbb_attestations = \<lparr>ct_data = map fixture_attestation_of (body_attestations (blk_body b))\<rparr>\<rparr>\<rparr>"

definition fixture_state_of :: "u64 list \<Rightarrow> state \<Rightarrow> test_state" where
  "fixture_state_of slots s =
     \<lparr>ts_config = \<lparr>fc_genesis_time = cc_genesis_time (st_config s)\<rparr>, ts_slot = st_slot s,
      ts_latest_block_header =
        \<lparr>fbh_slot = hdr_slot (st_latest_block_header s), fbh_proposer_index = hdr_proposer_index (st_latest_block_header s),
         fbh_parent_root = hdr_parent_root (st_latest_block_header s),
         fbh_state_root = hdr_state_root (st_latest_block_header s),
         fbh_body_root = hdr_body_root (st_latest_block_header s)\<rparr>,
      ts_latest_justified = fixture_checkpoint_of (st_latest_justified s),
      ts_latest_finalized = fixture_checkpoint_of (st_latest_finalized s),
      ts_historical_block_hashes = \<lparr>ct_data = st_historical_block_hashes s\<rparr>,
      ts_justified_slots = \<lparr>ct_data = slots\<rparr>,
      ts_validators = \<lparr>ct_data = map (\<lambda>v. \<lparr>fv_index = val_index v, fv_pubkey = val_pubkey v\<rparr>) (st_validators s)\<rparr>,
      ts_justifications_roots = \<lparr>ct_data = st_justifications_roots s\<rparr>,
      ts_justifications_validators = \<lparr>ct_data = st_justifications_validators s\<rparr>\<rparr>"

lemma checkpoint_of_fixture_checkpoint_of [simp]: "checkpoint_of_fixture (fixture_checkpoint_of c) = c"
  by (simp add: checkpoint_of_fixture_def fixture_checkpoint_of_def)

lemma fixture_bits_fill:
  "fold_res (\<lambda>(i, x) bits. expect (bit_set bits i x)) (enumerate (length done) xs) (done @ replicate (length xs) False) =
     (Ok (done @ xs) :: (bitlist, unit) result)"
proof (induction xs arbitrary: "done")
  case (Cons x xs)
  have "bit_set (done @ False # replicate (length xs) False) (length done) x =
      Some ((done @ [x]) @ replicate (length xs) False)" by (simp add: bit_set_def)
  with Cons.IH [of "done @ [x]"] show ?case by simp
qed simp

lemma attestation_roundtrip:
  assumes "length (aa_aggregation_bits a) \<le> VALIDATOR_REGISTRY_LIMIT"
  shows "aggregated_attestation_of_fixture (fixture_attestation_of a) = Ok a"
proof -
  have "aggregation_bits_of_fixture \<lparr>fab_data = aa_aggregation_bits a\<rparr> = Ok (aa_aggregation_bits a)"
    using assms fixture_bits_fill [of "[]" "aa_aggregation_bits a"]
    by (simp add: aggregation_bits_of_fixture_def with_capacity_def)
  then show ?thesis
    by (simp add: aggregated_attestation_of_fixture_def fixture_attestation_of_def attestation_data_of_fixture_def)
qed

text \<open>Blocks within the limits are converted faithfully.\<close>

lemma fixture_block_roundtrip:
  assumes "length (body_attestations (blk_body b)) \<le> VALIDATOR_REGISTRY_LIMIT"
    and "\<forall>a \<in> set (body_attestations (blk_body b)). length (aa_aggregation_bits a) \<le> VALIDATOR_REGISTRY_LIMIT"
  shows "block_of_fixture (fixture_block_of b) = Ok b"
proof -
  have "map_res aggregated_attestation_of_fixture (map fixture_attestation_of (body_attestations (blk_body b))) =
      Ok (body_attestations (blk_body b))"
    using assms(2) by (simp add: map_res_Ok_iff list_all2_map1 list_all2_same attestation_roundtrip)
  with assms(1) show ?thesis
    by (simp add: block_of_fixture_def fixture_block_of_def body_of_fixture_def variable_list_def)
qed

lemma wf_roots_bound:
  assumes "wf_state s"
  shows "length (st_justifications_roots s) \<le> HISTORICAL_ROOTS_LIMIT"
proof -
  let ?late = "drop (Suc (unat (cp_slot (st_latest_finalized s)))) (st_historical_block_hashes s)"
  have "length (st_justifications_roots s) = card (set (st_justifications_roots s))"
    using assms by (simp add: wf_state_def distinct_card)
  also have "\<dots> \<le> card (set ?late)" using assms by (intro card_mono) (auto simp: wf_state_def)
  also have "\<dots> \<le> length ?late" by (rule card_length)
  also have "\<dots> \<le> length (st_historical_block_hashes s)" by simp
  also have "\<dots> \<le> HISTORICAL_ROOTS_LIMIT" using assms by (simp add: wf_state_def)
  finally show ?thesis .
qed

text \<open>
  The conversion of a state forgets its justified slots and open votes, whatever the vector says
  about them. The result is well formed only if there was nothing to forget.
\<close>

lemma fixture_state_forgets:
  assumes "wf_state s"
  shows "\<exists>s'. state_of_fixture (fixture_state_of slots s) = Ok s' \<and>
    s' = s\<lparr>st_justified_slots := [], st_justifications_validators := []\<rparr> \<and> (wf_state s' \<longleftrightarrow> s' = s)"
proof -
  let ?s = "s\<lparr>st_justified_slots := [], st_justifications_validators := []\<rparr>"
  have "length (st_historical_block_hashes s) \<le> HISTORICAL_ROOTS_LIMIT" "length (st_validators s) \<le> VALIDATOR_REGISTRY_LIMIT"
    using assms by (simp_all add: wf_state_def)
  then have "state_of_fixture (fixture_state_of slots s) = Ok ?s"
    using wf_roots_bound [OF assms]
    by (cases s) (simp add: state_of_fixture_def fixture_state_of_def variable_list_def config_of_fixture_def
        header_of_fixture_def validator_of_fixture_def comp_def map_idI)
  moreover have "wf_state ?s \<longleftrightarrow> ?s = s"
  proof
    assume "wf_state ?s"
    with assms have "length (st_justified_slots s) = 0" "length (st_justifications_validators s) = 0"
      by (simp_all add: wf_state_def)
    then show "?s = s" by simp
  qed (use assms in simp)
  ultimately show ?thesis by blast
qed

end
