(* ===== verification/Backend_Tests.thy ===== *)
theory Backend_Tests
  imports Rocksdb
begin

text \<open>
  The test suite for storage backends (\<open>crates/storage/src/backend/tests.rs\<close>). A test takes the
  database and returns it as the test leaves it; \<open>unwrap\<close> on an error and a failed assertion panic.
  Every backend that meets the contract \<open>storage_api\<close> passes the suite, hence the in-memory backend
  and the RocksDB backend do.
\<close>

section \<open>The suite\<close>

definition assert_eq :: "'a \<Rightarrow> 'a \<Rightarrow> 'd \<Rightarrow> ('d, unit) result" where
  "assert_eq a b d = (if a = b then Ok d else Panic)"

text \<open>Writing one batch, and reading a key.\<close>

definition put_text :: "table \<Rightarrow> (string \<times> string) list \<Rightarrow> batch_op" where
  "put_text t kvs = PutBatch t (map (\<lambda>(k, v). (string_bytes k, string_bytes v)) kvs)"

definition delete_text :: "table \<Rightarrow> string list \<Rightarrow> batch_op" where
  "delete_text t ks = DeleteBatch t (map string_bytes ks)"

definition expect_value :: "('d, 'b) storage_backend \<Rightarrow> table \<Rightarrow> string \<Rightarrow> string option \<Rightarrow> 'd \<Rightarrow> ('d, unit) result" where
  "expect_value B t k v d =
     bind_res (read_key B d t (string_bytes k)) (\<lambda>value. assert_eq value (map_option string_bytes v) d)"

definition test_put_and_get :: "('d, 'b) storage_backend \<Rightarrow> 'd \<Rightarrow> ('d, unit) result" where
  "test_put_and_get B d =
     bind_res (commit_ops B [put_text BlockHeaders [(''test_put_get_key'', ''value1'')]] d)
       (expect_value B BlockHeaders ''test_put_get_key'' (Some ''value1''))"

definition test_delete :: "('d, 'b) storage_backend \<Rightarrow> 'd \<Rightarrow> ('d, unit) result" where
  "test_delete B d =
     bind_res (commit_ops B [put_text BlockHeaders [(''test_delete_key'', ''value1'')]] d) (\<lambda>d.
     bind_res (commit_ops B [delete_text BlockHeaders [''test_delete_key'']] d)
       (expect_value B BlockHeaders ''test_delete_key'' None))"

definition test_prefix_iterator :: "('d, 'b) storage_backend \<Rightarrow> 'd \<Rightarrow> ('d, unit) result" where
  "test_prefix_iterator B d =
     bind_res (commit_ops B [put_text Metadata
       [(''test_prefix:a'', ''1''), (''test_prefix:b'', ''2''), (''test_other:x'', ''3'')]] d) (\<lambda>d.
     bind_res (expect_ok (sb_begin_read B d)) (\<lambda>view.
     bind_res (expect_ok (sb_prefix_iterator B view Metadata (string_bytes ''test_prefix:''))) (\<lambda>items.
     bind_res (expect_ok (map_res (\<lambda>item. item) items)) (\<lambda>results.
       assert_eq (map fst (sort_key fst results)) [string_bytes ''test_prefix:a'', string_bytes ''test_prefix:b''] d))))"

definition test_nonexistent_key :: "('d, 'b) storage_backend \<Rightarrow> 'd \<Rightarrow> ('d, unit) result" where
  "test_nonexistent_key B d = expect_value B BlockHeaders ''test_nonexistent_key_12345'' None d"

definition test_delete_then_put :: "('d, 'b) storage_backend \<Rightarrow> 'd \<Rightarrow> ('d, unit) result" where
  "test_delete_then_put B d =
     bind_res (commit_ops B [put_text BlockHeaders [(''test_del_put_key'', ''old'')]] d) (\<lambda>d.
     bind_res (commit_ops B [delete_text BlockHeaders [''test_del_put_key''],
         put_text BlockHeaders [(''test_del_put_key'', ''new'')]] d)
       (expect_value B BlockHeaders ''test_del_put_key'' (Some ''new'')))"

definition test_put_then_delete :: "('d, 'b) storage_backend \<Rightarrow> 'd \<Rightarrow> ('d, unit) result" where
  "test_put_then_delete B d =
     bind_res (commit_ops B [put_text BlockHeaders [(''test_put_del_key'', ''value'')],
         delete_text BlockHeaders [''test_put_del_key'']] d)
       (expect_value B BlockHeaders ''test_put_del_key'' None)"

definition test_multiple_tables :: "('d, 'b) storage_backend \<Rightarrow> 'd \<Rightarrow> ('d, unit) result" where
  "test_multiple_tables B d =
     bind_res (commit_ops B [put_text BlockHeaders [(''test_multi_key'', ''block'')],
         put_text States [(''test_multi_key'', ''state'')]] d) (\<lambda>d.
     bind_res (expect_value B BlockHeaders ''test_multi_key'' (Some ''block'') d)
       (expect_value B States ''test_multi_key'' (Some ''state'')))"

definition run_backend_tests :: "('d, 'b) storage_backend \<Rightarrow> 'd \<Rightarrow> ('d, unit) result" where
  "run_backend_tests B d =
     fold_res (\<lambda>test. test B) [test_put_and_get, test_delete, test_prefix_iterator, test_nonexistent_key,
       test_delete_then_put, test_put_then_delete, test_multiple_tables] d"

section \<open>Backends that meet the contract pass\<close>

context storage_api
begin

lemma commit_then:
  assumes "inv d" and "\<And>d'. inv d' \<Longrightarrow> contents d' = fold perform ops (contents d) \<Longrightarrow> \<exists>d2. f d' = Ok d2 \<and> R d2"
  shows "\<exists>d2. bind_res (commit_ops B ops d) f = Ok d2 \<and> R d2"
  using commit_ops_ok [OF assms(1), of ops] assms(2) by auto

lemma expect_value_ok:
  "inv d \<Longrightarrow> contents d t (string_bytes k) = map_option string_bytes v \<Longrightarrow> expect_value B t k v d = Ok d"
  by (simp add: expect_value_def assert_eq_def read_key_ok)

text \<open>A test passes, whatever the tables hold, and changes only the given entries.\<close>

definition passes :: "('d \<Rightarrow> ('d, unit) result) \<Rightarrow> (table \<times> string) set \<Rightarrow> bool" where
  "passes test written \<longleftrightarrow> (\<forall>d. inv d \<longrightarrow> (\<exists>d'. test d = Ok d' \<and> inv d' \<and>
     (\<forall>t k. (t, k) \<notin> apsnd string_bytes ` written \<longrightarrow> contents d' t k = contents d t k)))"

lemma simple_tests_pass:
  "passes (test_put_and_get B) {(BlockHeaders, ''test_put_get_key'')}"
  "passes (test_delete B) {(BlockHeaders, ''test_delete_key'')}"
  "passes (test_delete_then_put B) {(BlockHeaders, ''test_del_put_key'')}"
  "passes (test_put_then_delete B) {(BlockHeaders, ''test_put_del_key'')}"
  "passes (test_multiple_tables B) {(BlockHeaders, ''test_multi_key''), (States, ''test_multi_key'')}"
  unfolding passes_def test_put_and_get_def test_delete_def test_delete_then_put_def test_put_then_delete_def
    test_multiple_tables_def
  by (auto intro!: commit_then simp: expect_value_ok put_text_def delete_text_def)

lemma prefix_test_passes:
  assumes "inv d" and "\<forall>k. starts_with k (string_bytes ''test_prefix:'') \<longrightarrow> contents d Metadata k = None"
  shows "\<exists>d'. test_prefix_iterator B d = Ok d' \<and> inv d' \<and> (\<forall>t. t \<noteq> Metadata \<longrightarrow> contents d' t = contents d t)"
  unfolding test_prefix_iterator_def
proof (rule commit_then [OF assms(1)])
  fix d'
  assume inv: "inv d'" and c: "contents d' = fold perform [put_text Metadata
    [(''test_prefix:a'', ''1''), (''test_prefix:b'', ''2''), (''test_other:x'', ''3'')]] (contents d)"
  let ?p = "string_bytes ''test_prefix:''" and ?a = "string_bytes ''test_prefix:a''" and ?b = "string_bytes ''test_prefix:b''"
  from iterate_ok [OF inv, of Metadata ?p] obtain kvs where
    kvs: "sb_prefix_iterator B d' Metadata ?p = Ok (map Ok kvs)" "distinct (map fst kvs)"
      "\<And>k v. (k, v) \<in> set kvs \<longleftrightarrow> starts_with k ?p \<and> contents d' Metadata k = Some v" by blast
  have "starts_with ?a ?p" "starts_with ?b ?p" "\<not> starts_with (string_bytes ''test_other:x'') ?p" "?a < ?b"
    by (simp_all add: starts_with_def string_bytes_def)
  note order = this
  have "(?a, string_bytes ''1'') \<in> set kvs" "(?b, string_bytes ''2'') \<in> set kvs"
    using order by (auto simp: kvs(3) c put_text_def)
  moreover have "k \<in> {?a, ?b}" if "(k, v) \<in> set kvs" for k v
    using that order assms(2) by (auto simp: kvs(3) c put_text_def split: if_splits)
  ultimately have "set (map fst kvs) = {?a, ?b}" by force
  moreover have "sorted (map fst (sort_key fst kvs))" "distinct (map fst (sort_key fst kvs))"
    "set (map fst (sort_key fst kvs)) = set (map fst kvs)" using kvs(2) by (simp_all add: distinct_map)
  ultimately have "map fst (sort_key fst kvs) = [?a, ?b]"
    using \<open>?a < ?b\<close> by (intro sorted_distinct_set_unique) (auto)
  moreover have "map_res (\<lambda>item. item) (map Ok kvs) = (Ok kvs :: ((bytes \<times> bytes) list, storage_error) result)"
    by (induction kvs) auto
  ultimately show "\<exists>d2. bind_res (expect_ok (sb_begin_read B d')) (\<lambda>view.
     bind_res (expect_ok (sb_prefix_iterator B view Metadata ?p)) (\<lambda>items.
     bind_res (expect_ok (map_res (\<lambda>item. item) items)) (\<lambda>results.
       assert_eq (map fst (sort_key fst results)) [?a, ?b] d'))) = Ok d2 \<and> inv d2 \<and>
     (\<forall>t. t \<noteq> Metadata \<longrightarrow> contents d2 t = contents d t)"
    using inv c by (simp add: begin_read_ok kvs(1) assert_eq_def put_text_def)
qed

lemma backend_tests_pass:
  assumes "inv d" and "\<And>t k. contents d t k = None"
  shows "\<exists>d'. run_backend_tests B d = Ok d' \<and> inv d'"
proof -
  note pass = simple_tests_pass [unfolded passes_def]
  from pass(1) assms(1) obtain d1 where
    1: "test_put_and_get B d = Ok d1" "inv d1" "\<And>t k. (t, k) \<notin> apsnd string_bytes ` {(BlockHeaders, ''test_put_get_key'')} \<Longrightarrow>
      contents d1 t k = None" using assms(2) by metis
  from pass(2) 1(2) obtain d2 where
    2: "test_delete B d1 = Ok d2" "inv d2" "\<And>t k. (t, k) \<notin> apsnd string_bytes ` {(BlockHeaders, ''test_delete_key'')} \<Longrightarrow>
      contents d2 t k = contents d1 t k" by metis
  have "\<forall>k. starts_with k (string_bytes ''test_prefix:'') \<longrightarrow> contents d2 Metadata k = None" using 1(3) 2(3) by simp
  from prefix_test_passes [OF 2(2) this] obtain d3 where
    3: "test_prefix_iterator B d2 = Ok d3" "inv d3" "\<forall>t. t \<noteq> Metadata \<longrightarrow> contents d3 t = contents d2 t" by blast
  have "contents d3 BlockHeaders (string_bytes ''test_nonexistent_key_12345'') = None"
    using 1(3) 2(3) 3(3) by (simp add: string_bytes_def)
  then have 4: "test_nonexistent_key B d3 = Ok d3" by (simp add: test_nonexistent_key_def expect_value_ok 3(2))
  from pass(3) 3(2) obtain d5 where 5: "test_delete_then_put B d3 = Ok d5" "inv d5" by metis
  from pass(4) 5(2) obtain d6 where 6: "test_put_then_delete B d5 = Ok d6" "inv d6" by metis
  from pass(5) 6(2) obtain d7 where 7: "test_multiple_tables B d6 = Ok d7" "inv d7" by metis
  show ?thesis by (simp add: run_backend_tests_def 1(1) 2(1) 3(1) 4 5(1) 6(1) 7)
qed

end

context rocksdb_library
begin

lemma rocksdb_tests_pass:
  assumes "live db" and "\<And>t. tables_of L family db t = Map.empty"
  shows "\<exists>db'. run_backend_tests (rocksdb_backend L) db = Ok db'"
  using rocks.backend_tests_pass [OF assms(1)] assms(2) by auto

end

text \<open>The two backends of the repository, RocksDB on any library that behaves as documented.\<close>

lemma test_in_memory_backend: "\<exists>d'. run_backend_tests in_memory_backend in_memory_new = Ok d'"
  using memory.backend_tests_pass [OF storage_ok_new] by auto

lemma test_rocksdb_backend:
  assumes "rocksdb_library L live family record_of" and "live db" and "\<And>t. tables_of L family db t = Map.empty"
  shows "\<exists>db'. run_backend_tests (rocksdb_backend L) db = Ok db'"
  by (rule rocksdb_library.rocksdb_tests_pass [OF assms])

end
