(* ===== verification/Store_Tests.thy ===== *)
theory Store_Tests
  imports Storage_Properties
begin

text \<open>
  The tests of the store (\<open>crates/storage/src/store.rs\<close>) on the typed store. The retention tests
  insert blocks at the slots \<open>0, \<dots>, n - 1\<close>, with roots that count upwards; the limits are too large to
  evaluate the tests, which are proved from what the pruned keys of such a store are, for every sort
  by descending slot. The payload buffer tests are evaluated.
\<close>

type_synonym slot_sort = "(H256 \<times> u64) list \<Rightarrow> (H256 \<times> u64) list"

section \<open>Test stores\<close>

text \<open>The index in the first eight bytes, big-endian.\<close>

definition test_root :: "nat \<Rightarrow> H256" where
  "test_root index = word_of_nat (index * 2 ^ 192)"

definition test_header :: "u64 \<Rightarrow> block_header" where
  "test_header slot = \<lparr>hdr_slot = slot, hdr_proposer_index = 0, hdr_parent_root = 0, hdr_state_root = 0, hdr_body_root = 0\<rparr>"

text \<open>
  \<open>test_store\<close>: no tables, empty buffers; the metadata entries, which the tests do not read before
  they are written, are those of any store.
\<close>

definition test_store :: "store \<Rightarrow> store" where
  "test_store any_store = any_store\<lparr>t_block_headers := [], t_block_bodies := [], t_block_signatures := [], t_states := [],
     t_gossip_signatures := [], t_attestation_data_by_root := [], t_live_chain := [],
     s_new_payloads := buffer_new NEW_PAYLOAD_CAP, s_known_payloads := buffer_new AGGREGATED_PAYLOAD_CAP,
     s_gossip_signatures_count := 0\<rparr>"

text \<open>The bodies, signatures and states are dummies that nothing decodes: they are arguments.\<close>

definition insert_header :: "block_body \<Rightarrow> block_signatures_with_attestation \<Rightarrow> H256 \<Rightarrow> u64 \<Rightarrow> store \<Rightarrow> store" where
  "insert_header body sigs root slot s =
     s\<lparr>t_block_headers := tbl_put root_bytes root (test_header slot) (t_block_headers s),
       t_block_bodies := tbl_put root_bytes root body (t_block_bodies s),
       t_block_signatures := tbl_put root_bytes root sigs (t_block_signatures s)\<rparr>"

text \<open>The loops over \<open>0..n\<close>, without and with states.\<close>

definition insert_headers :: "nat \<Rightarrow> block_body \<Rightarrow> block_signatures_with_attestation \<Rightarrow> store \<Rightarrow> store" where
  "insert_headers n body sigs s = fold (\<lambda>i. insert_header body sigs (test_root i) (word_of_nat i)) [0..<n] s"

definition insert_headers_and_states ::
  "nat \<Rightarrow> block_body \<Rightarrow> block_signatures_with_attestation \<Rightarrow> state \<Rightarrow> store \<Rightarrow> store" where
  "insert_headers_and_states n body sigs st s =
     fold (\<lambda>i s. insert_state (test_root i) st (insert_header body sigs (test_root i) (word_of_nat i) s)) [0..<n] s"

definition has_key :: "('k \<times> 'v) list \<Rightarrow> 'k \<Rightarrow> bool" where
  "has_key t k \<longleftrightarrow> map_of t k \<noteq> None"

section \<open>Which keys are pruned\<close>

lemma unat_test_root: "i < 2 ^ 64 \<Longrightarrow> unat (test_root i) = i * 2 ^ 192"
  unfolding test_root_def unat_of_nat by simp

lemma test_root_eq: "i < 2 ^ 64 \<Longrightarrow> j < 2 ^ 64 \<Longrightarrow> test_root i = test_root j \<longleftrightarrow> i = j"
  using unat_test_root [of i] unat_test_root [of j] by (metis mult_right_cancel power_not_zero zero_neq_numeral)

lemma test_root_less: "i < j \<Longrightarrow> j < 2 ^ 64 \<Longrightarrow> root_bytes (test_root i) < root_bytes (test_root j)"
  by (simp add: word_less_nat_alt unat_test_root)

text \<open>Every insertion goes to the end of its table.\<close>

lemma put_at_end:
  assumes "n < 2 ^ 64"
  shows "tbl_put root_bytes (test_root n) v (map (\<lambda>i. (test_root i, x i)) [0..<n]) =
    map (\<lambda>i. (test_root i, x i)) [0..<n] @ [(test_root n, v)]"
proof -
  have "root_bytes (test_root i) < root_bytes (test_root n)" if "i < n" for i
    using that assms by (rule test_root_less)
  then show ?thesis by (auto simp: tbl_put_def filter_map comp_def filter_empty_conv filter_id_conv dest: order.asym)
qed

lemma insert_headers_eq:
  assumes "n \<le> 2 ^ 64"
  shows "insert_headers n body sigs (test_store s) = (test_store s)
    \<lparr>t_block_headers := map (\<lambda>i. (test_root i, test_header (word_of_nat i))) [0..<n],
     t_block_bodies := map (\<lambda>i. (test_root i, body)) [0..<n],
     t_block_signatures := map (\<lambda>i. (test_root i, sigs)) [0..<n]\<rparr>"
  using assms
proof (induction n)
  case (Suc n)
  then have "insert_headers (Suc n) body sigs (test_store s) =
      insert_header body sigs (test_root n) (word_of_nat n) (insert_headers n body sigs (test_store s))"
    by (simp add: insert_headers_def)
  with Suc show ?case by (simp add: insert_header_def put_at_end)
qed (simp add: insert_headers_def test_store_def)

lemma insert_headers_and_states_eq:
  assumes "n \<le> 2 ^ 64" and "t_states s = []"
    and "t_block_headers s = []" "t_block_bodies s = []" "t_block_signatures s = []"
  shows "insert_headers_and_states n body sigs st s = s
    \<lparr>t_block_headers := map (\<lambda>i. (test_root i, test_header (word_of_nat i))) [0..<n],
     t_block_bodies := map (\<lambda>i. (test_root i, body)) [0..<n],
     t_block_signatures := map (\<lambda>i. (test_root i, sigs)) [0..<n],
     t_states := map (\<lambda>i. (test_root i, st)) [0..<n]\<rparr>"
  using assms
proof (induction n)
  case (Suc n)
  then have "insert_headers_and_states (Suc n) body sigs st s =
      insert_state (test_root n) st (insert_header body sigs (test_root n) (word_of_nat n)
        (insert_headers_and_states n body sigs st s))"
    by (simp add: insert_headers_and_states_def)
  with Suc show ?case by (simp add: insert_header_def insert_state_def put_at_end)
qed (simp add: insert_headers_and_states_def)

lemma descending_entries:
  assumes f: "sorts_desc f" and n: "n \<le> 2 ^ 64"
  shows "f (map (\<lambda>i. (test_root i, word_of_nat i)) [0..<n]) = rev (map (\<lambda>i. (test_root i, word_of_nat i)) [0..<n])"
proof -
  let ?xs = "map (\<lambda>i. (test_root i, word_of_nat i :: u64)) [0..<n]"
  have u: "unat (word_of_nat i :: u64) = i" if "i < n" for i using that n by (simp add: unat_of_nat)
  then have w: "(word_of_nat i :: u64) \<le> word_of_nat j \<longleftrightarrow> i \<le> j" "(word_of_nat i :: u64) = word_of_nat j \<longleftrightarrow> i = j"
    if "i < n" "j < n" for i j using that by (auto simp: word_le_nat_alt dest: arg_cong [where f = unat])
  from f have m: "mset (f ?xs) = mset ?xs" "sorted_wrt (\<lambda>a b. snd b \<le> snd a) (f ?xs)" unfolding sorts_desc_def by blast+
  have "rev (f ?xs) = ?xs"
  proof (rule map_sorted_distinct_set_unique [where f = snd])
    show "inj_on snd (set (rev (f ?xs)) \<union> set ?xs)" using w(2) mset_eq_setD [OF m(1)] by (auto intro!: inj_onI)
    show "sorted (map snd (rev (f ?xs)))" using m(2) by (simp add: sorted_wrt_rev sorted_wrt_map rev_map [symmetric])
    have d: "distinct (map snd ?xs)" using w(2) by (auto simp: distinct_map intro!: inj_onI)
    have "mset (map snd (f ?xs)) = mset (map snd ?xs)" by (simp only: mset_map m(1))
    from mset_eq_imp_distinct_iff [OF this] d show "distinct (map snd (rev (f ?xs)))"
      by (simp only: rev_map [symmetric] distinct_rev)
    show "distinct (map snd ?xs)" by (rule d)
    show "sorted (map snd ?xs)" using w(1) by (auto simp: sorted_iff_nth_mono)
    show "set (rev (f ?xs)) = set ?xs" using mset_eq_setD [OF m(1)] by simp
  qed
  then show ?thesis by (rule iffD1 [OF rev_swap])
qed

lemma pruned_keys:
  assumes "sorts_desc f" and "n \<le> 2 ^ 64"
  shows "keys_beyond f keep protected (map (\<lambda>i. (test_root i, test_header (word_of_nat i))) [0..<n]) =
    filter (\<lambda>r. r \<notin> set protected) (rev (map test_root [0..<n - keep]))"
proof (cases "n \<le> keep")
  case False
  have "map fst (filter (\<lambda>(key, _). key \<notin> set protected) xs) = filter (\<lambda>r. r \<notin> set protected) (map fst xs)"
    for xs :: "(H256 \<times> u64) list" by (induction xs) auto
  with False show ?thesis
    by (simp add: keys_beyond_def comp_def test_header_def descending_entries [OF assms] rev_map [symmetric]
        drop_rev drop_map take_map)
qed (simp add: keys_beyond_def)

text \<open>What deleting the oldest entries leaves.\<close>

lemma delete_oldest:
  assumes "m \<le> n" and "n \<le> 2 ^ 64"
  shows "tbl_delete (rev (map test_root [0..<m])) (map (\<lambda>i. (test_root i, x i)) [0..<n]) =
    map (\<lambda>i. (test_root i, x i)) [m..<n]"
proof -
  have "filter (\<lambda>i. test_root i \<notin> test_root ` {0..<m}) [0..<m] = []" by (simp add: filter_empty_conv)
  moreover have "filter (\<lambda>i. test_root i \<notin> test_root ` {0..<m}) [m..<n] = [m..<n]"
    using assms by (auto simp: filter_id_conv test_root_eq image_iff)
  moreover have "[0..<n] = [0..<m] @ [m..<n]" using assms(1) by (metis le0 le_add_diff_inverse upt_add_eq_append)
  ultimately show ?thesis by (simp add: tbl_delete_def filter_map comp_def)
qed

lemma has_key_entries:
  assumes "n \<le> 2 ^ 64" and "i < n"
  shows "has_key (map (\<lambda>i. (test_root i, x i)) [m..<n]) (test_root i) \<longleftrightarrow> m \<le> i"
proof -
  have "test_root i \<in> test_root ` {m..<n} \<longleftrightarrow> m \<le> i" using assms by (auto simp: test_root_eq)
  then show ?thesis by (simp add: has_key_def map_of_eq_None_iff image_image)
qed

lemma has_key_delete: "has_key (tbl_delete ks t) k \<longleftrightarrow> k \<notin> set ks \<and> has_key t k"
  by (simp add: has_key_def)

section \<open>Blocks\<close>

definition prune_old_blocks_within_retention ::
  "slot_sort \<Rightarrow> block_body \<Rightarrow> block_signatures_with_attestation \<Rightarrow> store \<Rightarrow> bool" where
  "prune_old_blocks_within_retention sort_desc body sigs any_store =
     (let s = insert_headers BLOCKS_TO_KEEP body sigs (test_store any_store);
          (pruned, s') = prune_old_blocks sort_desc [] s
      in length (t_block_headers s) = BLOCKS_TO_KEEP \<and> pruned = 0 \<and> length (t_block_headers s') = BLOCKS_TO_KEEP)"

definition prune_old_blocks_exceeding_retention ::
  "slot_sort \<Rightarrow> block_body \<Rightarrow> block_signatures_with_attestation \<Rightarrow> store \<Rightarrow> bool" where
  "prune_old_blocks_exceeding_retention sort_desc body sigs any_store =
     (let total = BLOCKS_TO_KEEP + 10;
          s = insert_headers total body sigs (test_store any_store);
          (pruned, s') = prune_old_blocks sort_desc [] s
      in length (t_block_headers s) = total \<and> pruned = 10 \<and> length (t_block_headers s') = BLOCKS_TO_KEEP \<and>
         length (t_block_bodies s') = BLOCKS_TO_KEEP \<and> length (t_block_signatures s') = BLOCKS_TO_KEEP \<and>
         (\<forall>i \<in> {0..<10}. \<not> has_key (t_block_headers s') (test_root i)) \<and>
         (\<forall>i \<in> {10..<total}. has_key (t_block_headers s') (test_root i)))"

definition prune_old_blocks_preserves_protected ::
  "slot_sort \<Rightarrow> block_body \<Rightarrow> block_signatures_with_attestation \<Rightarrow> store \<Rightarrow> bool" where
  "prune_old_blocks_preserves_protected sort_desc body sigs any_store =
     (let total = BLOCKS_TO_KEEP + 10;
          s = insert_headers total body sigs (test_store any_store);
          finalized_root = test_root 0; justified_root = test_root 1;
          (pruned, s') = prune_old_blocks sort_desc [finalized_root, justified_root] s
      in pruned = 8 \<and> has_key (t_block_headers s') finalized_root \<and> has_key (t_block_headers s') justified_root \<and>
         has_key (t_block_bodies s') finalized_root \<and> has_key (t_block_signatures s') finalized_root)"

lemma upt_small: "[0..<10] = [0, 1, 2, 3, 4, 5, 6, 7, 8, 9 :: nat]" "[0..<5] = [0, 1, 2, 3, 4 :: nat]"
  by code_simp+

lemma limits: "BLOCKS_TO_KEEP + 10 \<le> 2 ^ 64" "STATES_TO_KEEP + 5 \<le> 2 ^ 64"
  by (simp_all add: BLOCKS_TO_KEEP_def STATES_TO_KEEP_def)

lemma block_retention_tests_pass:
  assumes f: "sorts_desc f"
  shows "prune_old_blocks_within_retention f body sigs s"
    and "prune_old_blocks_exceeding_retention f body sigs s"
    and "prune_old_blocks_preserves_protected f body sigs s"
proof -
  have n: "BLOCKS_TO_KEEP \<le> 2 ^ 64" using limits(1) by linarith
  show "prune_old_blocks_within_retention f body sigs s"
    by (simp add: prune_old_blocks_within_retention_def prune_old_blocks_def insert_headers_eq [OF n] Let_def pruned_keys [OF f n])
  note keys = pruned_keys [OF f limits(1), of BLOCKS_TO_KEEP, simplified diff_add_inverse]
  note del = delete_oldest [OF le_add2 limits(1)]
  show "prune_old_blocks_exceeding_retention f body sigs s"
    using limits(1) by (simp add: prune_old_blocks_exceeding_retention_def prune_old_blocks_def insert_headers_eq [OF limits(1)] keys Let_def
        del has_key_entries del: upt_rec_numeral)
  show "prune_old_blocks_preserves_protected f body sigs s"
    by (simp add: prune_old_blocks_preserves_protected_def prune_old_blocks_def insert_headers_eq [OF limits(1)] keys Let_def
        has_key_delete has_key_entries [OF limits(1)] upt_small test_root_eq)
qed

section \<open>States\<close>

definition prune_old_states_within_retention ::
  "slot_sort \<Rightarrow> block_body \<Rightarrow> block_signatures_with_attestation \<Rightarrow> state \<Rightarrow> store \<Rightarrow> bool" where
  "prune_old_states_within_retention sort_desc body sigs st any_store =
     (let s = insert_headers_and_states STATES_TO_KEEP body sigs st (test_store any_store)
      in length (t_states s) = STATES_TO_KEEP \<and> fst (prune_old_states sort_desc [] s) = 0)"

definition prune_old_states_exceeding_retention ::
  "slot_sort \<Rightarrow> block_body \<Rightarrow> block_signatures_with_attestation \<Rightarrow> state \<Rightarrow> store \<Rightarrow> bool" where
  "prune_old_states_exceeding_retention sort_desc body sigs st any_store =
     (let total = STATES_TO_KEEP + 5;
          s = insert_headers_and_states total body sigs st (test_store any_store);
          (pruned, s') = prune_old_states sort_desc [] s
      in length (t_states s) = total \<and> pruned = 5 \<and> length (t_states s') = STATES_TO_KEEP \<and>
         (\<forall>i \<in> {0..<5}. \<not> has_key (t_states s') (test_root i)) \<and>
         (\<forall>i \<in> {5..<total}. has_key (t_states s') (test_root i)))"

definition prune_old_states_preserves_protected ::
  "slot_sort \<Rightarrow> block_body \<Rightarrow> block_signatures_with_attestation \<Rightarrow> state \<Rightarrow> store \<Rightarrow> bool" where
  "prune_old_states_preserves_protected sort_desc body sigs st any_store =
     (let total = STATES_TO_KEEP + 5;
          s = insert_headers_and_states total body sigs st (test_store any_store);
          finalized_root = test_root 0; justified_root = test_root 2;
          (pruned, s') = prune_old_states sort_desc [finalized_root, justified_root] s
      in pruned = 3 \<and> has_key (t_states s') finalized_root \<and> has_key (t_states s') justified_root)"

lemma state_retention_tests_pass:
  assumes f: "sorts_desc f"
  shows "prune_old_states_within_retention f body sigs st s"
    and "prune_old_states_exceeding_retention f body sigs st s"
    and "prune_old_states_preserves_protected f body sigs st s"
proof -
  have n: "STATES_TO_KEEP \<le> 2 ^ 64" using limits(2) by linarith
  show "prune_old_states_within_retention f body sigs st s"
    by (simp add: prune_old_states_within_retention_def prune_old_states_def insert_headers_and_states_eq [OF n] test_store_def
        pruned_keys [OF f n])
  note keys = pruned_keys [OF f limits(2), of STATES_TO_KEEP, simplified diff_add_inverse]
  show "prune_old_states_exceeding_retention f body sigs st s"
    using limits(2) by (simp add: prune_old_states_exceeding_retention_def prune_old_states_def insert_headers_and_states_eq [OF limits(2)] test_store_def
        keys Let_def delete_oldest [OF le_add2 limits(2)] has_key_entries del: upt_rec_numeral)
  show "prune_old_states_preserves_protected f body sigs st s"
    by (simp add: prune_old_states_preserves_protected_def prune_old_states_def insert_headers_and_states_eq [OF limits(2)] test_store_def keys
        Let_def has_key_delete has_key_entries [OF limits(2)] upt_small test_root_eq)
qed

section \<open>Both\<close>

definition set_checkpoints :: "checkpoint \<Rightarrow> checkpoint \<Rightarrow> store \<Rightarrow> store" where
  "set_checkpoints finalized justified s = s\<lparr>s_latest_finalized := finalized, s_latest_justified := justified\<rparr>"

definition fallback_pruning_removes_old_states_and_blocks ::
  "slot_sort \<Rightarrow> block_body \<Rightarrow> block_signatures_with_attestation \<Rightarrow> state \<Rightarrow> store \<Rightarrow> bool" where
  "fallback_pruning_removes_old_states_and_blocks sort_desc body sigs st any_store =
     (let finalized_root = test_root 0; justified_root = test_root 1; total_states = STATES_TO_KEEP + 5;
          s = insert_headers_and_states total_states body sigs st
                (set_checkpoints \<lparr>cp_root = finalized_root, cp_slot = 0\<rparr> \<lparr>cp_root = justified_root, cp_slot = 1\<rparr> (test_store any_store));
          s1 = update_checkpoints (head_only (test_root (total_states - 1))) s;
          s2 = prune_old_data sort_desc s1
      in length (t_states s) = total_states \<and> length (t_block_headers s) = total_states \<and>
         length (t_states s1) = total_states \<and> length (t_states s2) = STATES_TO_KEEP + 2 \<and>
         has_key (t_states s2) finalized_root \<and> has_key (t_states s2) justified_root \<and>
         length (t_block_headers s2) = total_states)"

definition fallback_pruning_no_op_within_retention ::
  "slot_sort \<Rightarrow> block_body \<Rightarrow> block_signatures_with_attestation \<Rightarrow> state \<Rightarrow> store \<Rightarrow> bool" where
  "fallback_pruning_no_op_within_retention sort_desc body sigs st any_store =
     (let s = insert_headers_and_states STATES_TO_KEEP body sigs st
                (set_checkpoints \<lparr>cp_root = test_root 0, cp_slot = 0\<rparr> \<lparr>cp_root = test_root 0, cp_slot = 0\<rparr> (test_store any_store));
          s2 = prune_old_data sort_desc (update_checkpoints (head_only (test_root (STATES_TO_KEEP - 1))) s)
      in length (t_states s2) = STATES_TO_KEEP \<and> length (t_block_headers s2) = STATES_TO_KEEP)"

lemma fallback_tests_pass:
  assumes f: "sorts_desc f"
  shows "fallback_pruning_removes_old_states_and_blocks f body sigs st s"
    and "fallback_pruning_no_op_within_retention f body sigs st s"
proof -
  have few: "STATES_TO_KEEP + 5 - BLOCKS_TO_KEEP = 0" "STATES_TO_KEEP - BLOCKS_TO_KEEP = 0"
    by (simp_all add: STATES_TO_KEEP_def BLOCKS_TO_KEEP_def)
  have n: "STATES_TO_KEEP \<le> 2 ^ 64" using limits(2) by linarith
  note keys = pruned_keys [OF f limits(2), of STATES_TO_KEEP, simplified diff_add_inverse]
    pruned_keys [OF f limits(2), of BLOCKS_TO_KEEP, unfolded few]
  let ?t = "map (\<lambda>i. (test_root i, st)) [0..<STATES_TO_KEEP + 5]"
  have "length (tbl_delete (map test_root [4, 3, 2]) ?t) = length ?t - length (map test_root [4, 3, 2])"
    using limits(2) by (intro length_tbl_delete) (auto simp: distinct_map comp_def test_root_eq image_image intro!: inj_onI imageI)
  then show "fallback_pruning_removes_old_states_and_blocks f body sigs st s"
    by (simp add: fallback_pruning_removes_old_states_and_blocks_def prune_old_data_def prune_old_states_def prune_old_blocks_def
        insert_headers_and_states_eq [OF limits(2)] test_store_def set_checkpoints_def update_checkpoints_def head_only_def keys Let_def
        has_key_delete has_key_entries [OF limits(2)] upt_small test_root_eq)
  show "fallback_pruning_no_op_within_retention f body sigs st s"
    by (simp add: fallback_pruning_no_op_within_retention_def prune_old_data_def prune_old_states_def prune_old_blocks_def
        insert_headers_and_states_eq [OF n] test_store_def set_checkpoints_def update_checkpoints_def head_only_def Let_def
        pruned_keys [OF f n] few)
qed

section \<open>Payload buffers\<close>

definition make_payload :: "u64 \<Rightarrow> stored_aggregated_payload" where
  "make_payload slot = \<lparr>sap_slot = slot, sap_proof = proof_empty []\<rparr>"

definition payload_buffer_fifo_eviction :: bool where
  "payload_buffer_fifo_eviction =
     (let key = (0, 0);
          buf = fold (\<lambda>slot. buffer_push (key, make_payload slot)) [1, 2, 3] (buffer_new 3);
          buf' = buffer_push (key, make_payload 4) buf
      in length (pb_entries buf) = 3 \<and> length (pb_entries buf') = 3 \<and>
         map (\<lambda>(_, p). sap_slot p) (pb_entries buf') = [2, 3, 4])"

definition payload_buffer_grouped_returns_correct_groups :: bool where
  "payload_buffer_grouped_returns_correct_groups =
     (let key_a = (0, 0); key_b = (1, 0);
          buf = buffer_push (key_a, make_payload 3) (buffer_push (key_b, make_payload 2)
                  (buffer_push (key_a, make_payload 1) (buffer_new 10)));
          grouped = buffer_grouped buf
      in length grouped = 2 \<and> map_option (map sap_slot) (map_of grouped key_a) = Some [1, 3] \<and>
         map_option (map sap_slot) (map_of grouped key_b) = Some [2])"

definition payload_buffer_drain_empties_buffer :: bool where
  "payload_buffer_drain_empties_buffer =
     (let key = (0, 0);
          buf = buffer_push (key, make_payload 2) (buffer_push (key, make_payload 1) (buffer_new 10))
      in case buffer_drain buf of (drained, buf') \<Rightarrow> length drained = 2 \<and> pb_entries buf' = [])"

definition promote_moves_new_to_known :: "store \<Rightarrow> bool" where
  "promote_moves_new_to_known any_store =
     (let s = test_store any_store; key = (0, 0);
          s1 = insert_new_aggregated_payload key (make_payload 2) (insert_new_aggregated_payload key (make_payload 1) s);
          s2 = promote_new_aggregated_payloads s1
      in length (pb_entries (s_new_payloads s1)) = 2 \<and> length (pb_entries (s_known_payloads s1)) = 0 \<and>
         length (pb_entries (s_new_payloads s2)) = 0 \<and> length (pb_entries (s_known_payloads s2)) = 2)"

lemma payload_tests_pass:
  "payload_buffer_fifo_eviction" "payload_buffer_grouped_returns_correct_groups"
  "payload_buffer_drain_empties_buffer" "promote_moves_new_to_known s"
  by (simp_all add: payload_buffer_fifo_eviction_def payload_buffer_grouped_returns_correct_groups_def
      payload_buffer_drain_empties_buffer_def promote_moves_new_to_known_def make_payload_def buffer_new_def buffer_push_def
      buffer_drain_def buffer_grouped_def buffer_push_batch_def insert_new_aggregated_payload_def
      promote_new_aggregated_payloads_def test_store_def NEW_PAYLOAD_CAP_def AGGREGATED_PAYLOAD_CAP_def Let_def)

end
