(* ===== verification/Tree_Tests.thy ===== *)
theory Tree_Tests
  imports Fork_Choice_Tree
begin

text \<open>
  The tests of the fork choice tree printer (\<open>crates/blockchain/src/fork_choice_tree.rs\<close>), evaluated
  on the model. A test is a predicate over the printed text; the roots of the tests repeat one byte
  32 times, so that their order and their printed form follow from the byte. The two larger trees are
  printed with a renderer of which only the lookups are known, which keeps the evaluation short.
\<close>

section \<open>Roots that repeat a byte\<close>

lemma foldl_bytes:
  "foldl (\<lambda>acc b. acc * 256 + unat b) a bs = a * 256 ^ length bs + of_be_bytes bs" for bs :: bytes
proof (induction bs arbitrary: a)
  case (Cons b bs)
  from Cons [of "a * 256 + unat b"] Cons [of "unat b"] show ?case
    by (simp add: of_be_bytes_def algebra_simps)
qed (simp add: of_be_bytes_def)

lemma of_be_bytes_Cons: "of_be_bytes (b # bs) = unat b * 256 ^ length bs + of_be_bytes bs"
  using foldl_bytes [of "unat b" bs] by (simp add: of_be_bytes_def)

lemma be_bytes_of_be_bytes: "of_be_bytes bs < 256 ^ length bs \<and> be_bytes (length bs) (of_be_bytes bs) = bs"
proof (induction bs)
  case Nil
  show ?case by (simp add: of_be_bytes_def)
next
  case (Cons b bs)
  have b: "unat b < 256" using unsigned_less [of b] by simp
  then have "unat b * 256 ^ length bs + of_be_bytes bs < (unat b + 1) * 256 ^ length bs" using Cons by simp
  also have "\<dots> \<le> 256 * 256 ^ length bs" using b by (intro mult_le_mono1) simp
  finally show ?case using Cons by (simp add: of_be_bytes_Cons)
qed

definition root_of_byte :: "u8 \<Rightarrow> H256" where
  "root_of_byte b = word_of_nat (of_be_bytes (replicate 32 b))"

lemma root_bytes_of_byte: "root_bytes (root_of_byte b) = replicate 32 b"
proof -
  have "of_be_bytes (replicate 32 b) < 256 ^ 32" "be_bytes 32 (of_be_bytes (replicate 32 b)) = replicate 32 b"
    using be_bytes_of_be_bytes [of "replicate 32 b"] by simp_all
  moreover from this(1) have "unat (root_of_byte b) = of_be_bytes (replicate 32 b)"
    unfolding root_of_byte_def unat_of_nat by simp
  ultimately show ?thesis by (simp add: root_bytes_def)
qed

lemma root_of_byte_less: "root_of_byte a < root_of_byte b \<longleftrightarrow> a < b"
proof -
  have "replicate (Suc n) a < replicate (Suc n) b \<longleftrightarrow> a < b" for n by (induction n) auto
  from this [of 31] root_bytes_less_iff [of "root_of_byte a" "root_of_byte b"] show ?thesis
    by (simp add: root_bytes_of_byte)
qed

lemma root_of_byte_eq: "root_of_byte a = root_of_byte b \<longleftrightarrow> a = b"
  using root_of_byte_less by (metis linorder_neq_iff)

lemma root_of_byte_zero: "root_of_byte b = 0 \<longleftrightarrow> b = 0"
proof -
  have "of_be_bytes (replicate n 0) = 0" for n by (induction n) (simp_all add: of_be_bytes_Cons, simp add: of_be_bytes_def)
  then have "root_of_byte 0 = 0" by (simp add: root_of_byte_def)
  then show ?thesis using root_of_byte_eq [of b 0] by simp
qed

lemma zero_root: "0 = root_of_byte 0"
  using root_of_byte_zero [of 0] by simp

definition hex_byte :: "u8 \<Rightarrow> string" where
  "hex_byte b = [hex_digit (unat b div 16), hex_digit (unat b mod 16)]"

lemma short_root_of_byte: "short_root (root_of_byte b) = hex_byte b @ hex_byte b @ hex_byte b @ hex_byte b"
proof -
  have "take 4 (replicate 32 b) = [b, b, b, b]" by (simp add: numeral_eq_Suc)
  then show ?thesis by (simp add: short_root_def root_bytes_of_byte hex_byte_def)
qed

section \<open>The tests\<close>

text \<open>The text after the first occurrence of a string, and the number of its occurrences.\<close>

fun after_text :: "string \<Rightarrow> string \<Rightarrow> string option" where
  "after_text [] needle = (if needle = [] then Some [] else None)"
| "after_text (c # cs) needle =
     (if take (length needle) (c # cs) = needle then Some (drop (length needle) (c # cs)) else after_text cs needle)"

definition contains_text :: "string \<Rightarrow> string \<Rightarrow> bool" where
  "contains_text s needle \<longleftrightarrow> after_text s needle \<noteq> None"

fun occurrences :: "nat \<Rightarrow> string \<Rightarrow> string \<Rightarrow> nat" where
  "occurrences 0 s needle = 0"
| "occurrences (Suc fuel) s needle =
     (case after_text s needle of None \<Rightarrow> 0 | Some rest \<Rightarrow> Suc (occurrences fuel rest needle))"

text \<open>The tests render with the first block justified and finalized.\<close>

definition render :: "block_map \<Rightarrow> weight_map \<Rightarrow> H256 \<Rightarrow> H256 \<Rightarrow> string" where
  "render blocks weights head base =
     (case format_fork_choice_tree blocks weights head \<lparr>cp_root = base, cp_slot = 0\<rparr> \<lparr>cp_root = base, cp_slot = 0\<rparr> of
        Ok out \<Rightarrow> out | _ \<Rightarrow> [])"

definition linear_chain :: bool where
  "linear_chain =
     (let r = root_of_byte 1; a = root_of_byte 2; b = root_of_byte 3; c = root_of_byte 4;
          res = render [(r, (0, 0)), (a, (1, r)), (b, (2, a)), (c, (3, b))] [] c r
      in contains_text res ''Fork Choice Tree:'' \<and> contains_text res (short_root r @ ''(0)'') \<and>
         contains_text res (short_root c @ ''(3)'') \<and> contains_text res ''*'')"

definition fork_with_two_branches :: bool where
  "fork_with_two_branches =
     (let r = root_of_byte 1; a = root_of_byte 2; b = root_of_byte 3; c = root_of_byte 4; d = root_of_byte 5;
          res = render [(r, (0, 0)), (a, (1, r)), (b, (2, a)), (c, (3, b)), (d, (3, b))] [(c, 3), (d, 1)] c r
      in (contains_text res (tee @ horizontal @ horizontal) \<or> contains_text res (corner @ horizontal @ horizontal)) \<and>
         contains_text res ''2 branches'' \<and> contains_text res ''[w:3]'' \<and> contains_text res ''[w:1]'' \<and>
         contains_text res ''*'')"

definition missing_single_slot :: bool where
  "missing_single_slot =
     (let r = root_of_byte 1; a = root_of_byte 2
      in contains_text (render [(r, (0, 0)), (a, (2, r))] [] a r) ''[ ]'')"

definition missing_multiple_slots :: bool where
  "missing_multiple_slots =
     (let r = root_of_byte 1; a = root_of_byte 2
      in contains_text (render [(r, (0, 0)), (a, (4, r))] [] a r) ''[3]'')"

definition empty_blocks :: bool where
  "empty_blocks =
     (let res = render [] [] 0 0 in contains_text res ''Fork Choice Tree:'' \<and> contains_text res ''(empty)'')"

definition single_block_chain :: bool where
  "single_block_chain =
     (let r = root_of_byte 1; res = render [(r, (0, 0))] [] r r
      in contains_text res (short_root r @ ''(0)'') \<and> contains_text res ''*'')"

definition long_chain :: block_map where
  "long_chain = (let nodes = map (\<lambda>i. root_of_byte (word_of_nat i)) [1..<26]
     in (nodes ! 0, (0, 0)) # map (\<lambda>i. (nodes ! i, (word_of_nat i, nodes ! (i - 1)))) [1..<25])"

definition depth_truncation :: bool where
  "depth_truncation =
     (let res = render long_chain [] (root_of_byte 25) (root_of_byte 1)
      in contains_text res ''...'' \<and> \<not> contains_text res ''(24)'')"

definition nested_blocks :: block_map where
  "nested_blocks =
     (let r = root_of_byte 1; a = root_of_byte 2; b = root_of_byte 3; c = root_of_byte 4; d = root_of_byte 5;
          e = root_of_byte 6; f = root_of_byte 7; g = root_of_byte 8
      in [(r, (0, 0)), (a, (1, r)), (b, (2, a)), (c, (3, b)), (d, (3, b)), (e, (4, c)), (f, (5, e)), (g, (5, e))])"

definition nested_weights :: weight_map where
  "nested_weights = [(root_of_byte 4, 5), (root_of_byte 5, 2), (root_of_byte 6, 4), (root_of_byte 7, 4), (root_of_byte 8, 1)]"

definition nested_fork :: bool where
  "nested_fork =
     (let res = render nested_blocks nested_weights (root_of_byte 7) (root_of_byte 1)
      in contains_text res ''2 branches'' \<and> occurrences (length res) res ''2 branches'' = 2 \<and>
         contains_text res ''[w:4]'' \<and> contains_text res ''[w:1]'' \<and> contains_text res ''[w:2]'')"

definition head_marker_on_correct_node :: bool where
  "head_marker_on_correct_node =
     (let r = root_of_byte 1; a = root_of_byte 2; b = root_of_byte 3; c = root_of_byte 4; d = root_of_byte 5;
          res = render [(r, (0, 0)), (a, (1, r)), (b, (2, a)), (c, (3, b)), (d, (3, b))] [(c, 5), (d, 2)] c r
      in case after_text res (short_root c @ ''(3)'') of None \<Rightarrow> False | Some after_c \<Rightarrow> take 2 after_c = '' *'')"

section \<open>Evaluation\<close>

text \<open>A search advances by one comparison per character.\<close>

lemma after_text_skip [simp]: "c \<noteq> d \<Longrightarrow> after_text (c # cs) (d # ds) = after_text cs (d # ds)"
  by simp

lemma after_text_try [simp]:
  "after_text (c # cs) (c # ds) = (if take (length ds) cs = ds then Some (drop (length ds) cs) else after_text cs (c # ds))"
  by simp

declare after_text.simps(2) [simp del]

lemma digits [simp]:
  "char_of (48 :: nat) = CHR ''0''" "char_of (49 :: nat) = CHR ''1''" "char_of (50 :: nat) = CHR ''2''"
  "char_of (51 :: nat) = CHR ''3''" "char_of (52 :: nat) = CHR ''4''" "char_of (53 :: nat) = CHR ''5''"
  "char_of (54 :: nat) = CHR ''6''" "char_of (55 :: nat) = CHR ''7''" "char_of (56 :: nat) = CHR ''8''"
  "char_of (57 :: nat) = CHR ''9''" "char_of (97 :: nat) = CHR ''a''" "char_of (98 :: nat) = CHR ''b''"
  "char_of (99 :: nat) = CHR ''c''" "char_of (100 :: nat) = CHR ''d''" "char_of (101 :: nat) = CHR ''e''"
  "char_of (102 :: nat) = CHR ''f''"
  by code_simp+

lemmas root_simps = root_of_byte_eq root_of_byte_zero root_of_byte_less
lemmas children_simps = tree_children_def weight_def root_simps word_le_nat_alt
lemmas render_simps = render_def format_fork_choice_tree_def format_header_def find_tree_root_def
  render_trunk_def render_trunk_loop.simps render_gap_def render_node_def MAX_DISPLAY_DEPTH_def newline_def horizontal_def
  corner_def tee_def vertical_def parent_slot_def render_branch_line.simps Let_def saturating_sub_def decimal.simps
  root_simps short_root_of_byte hex_byte_def hex_digit_def weight_def

lemma chain_children:
  "tree_children [(root_of_byte 1, (0, 0)), (root_of_byte 2, (1, root_of_byte 1)), (root_of_byte 3, (2, root_of_byte 2)),
     (root_of_byte 4, (3, root_of_byte 3))] [] =
   [(root_of_byte 1, [root_of_byte 2]), (root_of_byte 2, [root_of_byte 3]), (root_of_byte 3, [root_of_byte 4])]"
  by (simp add: children_simps)

lemma fork_children:
  assumes "wd < wc"
  shows "tree_children [(root_of_byte 1, (0, 0)), (root_of_byte 2, (1, root_of_byte 1)), (root_of_byte 3, (2, root_of_byte 2)),
     (root_of_byte 4, (3, root_of_byte 3)), (root_of_byte 5, (3, root_of_byte 3))] [(root_of_byte 4, wc), (root_of_byte 5, wd)] =
   [(root_of_byte 1, [root_of_byte 2]), (root_of_byte 2, [root_of_byte 3]), (root_of_byte 3, [root_of_byte 4, root_of_byte 5])]"
  using assms less_imp_not_less [OF assms] by (simp add: children_simps not_le) (simp add: word_less_nat_alt)

lemmas nested_blocks_eq = nested_blocks_def [unfolded Let_def]

lemma nested_children:
  "tree_children nested_blocks nested_weights =
   [(root_of_byte 1, [root_of_byte 2]), (root_of_byte 2, [root_of_byte 3]), (root_of_byte 3, [root_of_byte 4, root_of_byte 5]),
    (root_of_byte 4, [root_of_byte 6]), (root_of_byte 6, [root_of_byte 7, root_of_byte 8])]"
  by (simp add: nested_blocks_def nested_weights_def Let_def children_simps)

text \<open>The part of the output after the header; what the tests ask of it needs the renderer only by its lookups.\<close>

definition render_tree :: "tree_renderer \<Rightarrow> H256 \<Rightarrow> (string, unit) result" where
  "render_tree R tree_root =
     bind_res (render_trunk R tree_root) (\<lambda>(trunk, trunk_tip, trunk_depth).
       (let children = (case map_of (tr_children_map R) trunk_tip of None \<Rightarrow> [] | Some cs \<Rightarrow> cs)
        in if length children > 1
           then bind_res (render_branches R children ''  '' trunk_depth) (\<lambda>branches.
                  Ok (trunk @ '' '' @ horizontal @ '' '' @ decimal (length children) @ '' branches'' @ newline @ branches))
           else if trunk_tip = tr_head R then Ok (trunk @ '' *'' @ newline)
           else Ok (trunk @ newline)))"

lemma render_tree_tests:
  assumes "blocks \<noteq> []" and "find_tree_root blocks = Ok r"
    and "\<exists>out. render_tree \<lparr>tr_blocks = blocks, tr_children_map = tree_children blocks weights,
        tr_weights = weights, tr_head = head\<rparr> r = Ok out \<and>
      P (format_header blocks head \<lparr>cp_root = base, cp_slot = 0\<rparr> \<lparr>cp_root = base, cp_slot = 0\<rparr> @ newline @ out)"
  shows "P (render blocks weights head base)"
  using assms unfolding render_def format_fork_choice_tree_def render_tree_def Let_def
  by (auto split: if_splits simp: bind_res_Ok_iff)

lemmas step_simps = render_tree_def render_trunk_def render_trunk_loop.simps render_gap_def render_node_def MAX_DISPLAY_DEPTH_def
  newline_def horizontal_def corner_def tee_def vertical_def parent_slot_def render_branch_line.simps Let_def
  saturating_sub_def decimal.simps root_simps short_root_of_byte hex_byte_def hex_digit_def

lemma long_chain_eq:
  "long_chain = (root_of_byte 1, (0, 0)) #
     map (\<lambda>i. (root_of_byte (word_of_nat (Suc i)), (word_of_nat i, root_of_byte (word_of_nat i)))) [1..<25]"
  unfolding long_chain_def Let_def by (auto simp del: upt_rec_numeral)

lemma long_chain_literal:
  "long_chain =
    [(root_of_byte 1, (0, 0)), (root_of_byte 2, (1, root_of_byte 1)), (root_of_byte 3, (2, root_of_byte 2)),
     (root_of_byte 4, (3, root_of_byte 3)), (root_of_byte 5, (4, root_of_byte 4)),
     (root_of_byte 6, (5, root_of_byte 5)), (root_of_byte 7, (6, root_of_byte 6)),
     (root_of_byte 8, (7, root_of_byte 7)), (root_of_byte 9, (8, root_of_byte 8)),
     (root_of_byte 10, (9, root_of_byte 9)), (root_of_byte 11, (10, root_of_byte 10)),
     (root_of_byte 12, (11, root_of_byte 11)), (root_of_byte 13, (12, root_of_byte 12)),
     (root_of_byte 14, (13, root_of_byte 13)), (root_of_byte 15, (14, root_of_byte 14)),
     (root_of_byte 16, (15, root_of_byte 15)), (root_of_byte 17, (16, root_of_byte 16)),
     (root_of_byte 18, (17, root_of_byte 17)), (root_of_byte 19, (18, root_of_byte 18)),
     (root_of_byte 20, (19, root_of_byte 19)), (root_of_byte 21, (20, root_of_byte 20)),
     (root_of_byte 22, (21, root_of_byte 21)), (root_of_byte 23, (22, root_of_byte 22)),
     (root_of_byte 24, (23, root_of_byte 23)), (root_of_byte 25, (24, root_of_byte 24))]"
  unfolding long_chain_eq by (simp add: upt_rec)

lemma long_children:
  "tree_children long_chain [] =
    [(root_of_byte 1, [root_of_byte 2]), (root_of_byte 2, [root_of_byte 3]), (root_of_byte 3, [root_of_byte 4]),
     (root_of_byte 4, [root_of_byte 5]), (root_of_byte 5, [root_of_byte 6]), (root_of_byte 6, [root_of_byte 7]),
     (root_of_byte 7, [root_of_byte 8]), (root_of_byte 8, [root_of_byte 9]), (root_of_byte 9, [root_of_byte 10]),
     (root_of_byte 10, [root_of_byte 11]), (root_of_byte 11, [root_of_byte 12]),
     (root_of_byte 12, [root_of_byte 13]), (root_of_byte 13, [root_of_byte 14]),
     (root_of_byte 14, [root_of_byte 15]), (root_of_byte 15, [root_of_byte 16]),
     (root_of_byte 16, [root_of_byte 17]), (root_of_byte 17, [root_of_byte 18]),
     (root_of_byte 18, [root_of_byte 19]), (root_of_byte 19, [root_of_byte 20]),
     (root_of_byte 20, [root_of_byte 21]), (root_of_byte 21, [root_of_byte 22]),
     (root_of_byte 22, [root_of_byte 23]), (root_of_byte 23, [root_of_byte 24]),
     (root_of_byte 24, [root_of_byte 25])]"
  by (simp add: tree_children_def long_chain_literal root_simps)

lemma lookups: "distinct (map fst t) \<Longrightarrow> list_all (\<lambda>(k, v). map_of t k = Some v) t"
  by (auto simp: list_all_iff)

lemma depth_truncation_passes: "depth_truncation"
proof -
  define R where "R = \<lparr>tr_blocks = long_chain, tr_children_map = tree_children long_chain [], tr_weights = [],
    tr_head = root_of_byte 25\<rparr>"
  have 1: "list_all (\<lambda>(k, v). map_of (tr_blocks R) k = Some v) long_chain"
    unfolding R_def tree_renderer.simps by (rule lookups) (simp add: long_chain_literal root_simps)
  have 2: "list_all (\<lambda>(k, v). map_of (tr_children_map R) k = Some v) (tree_children long_chain [])"
    unfolding R_def tree_renderer.simps by (rule lookups) (simp add: long_children root_simps)
  note look = 1 [unfolded long_chain_literal, simplified] 2 [unfolded long_children, simplified]
  have R: "tr_head R = root_of_byte 25" by (simp add: R_def)
  let ?P = "\<lambda>res. contains_text res ''...'' \<and> \<not> contains_text res ''(24)''"
  have "\<exists>out. render_tree R (root_of_byte 1) = Ok out \<and> ?P (format_header long_chain (root_of_byte 25)
      \<lparr>cp_root = root_of_byte 1, cp_slot = 0\<rparr> \<lparr>cp_root = root_of_byte 1, cp_slot = 0\<rparr> @ newline @ out)"
    by (simp add: step_simps look R, simp add: format_header_def step_simps long_chain_literal, simp add: contains_text_def)
  then show ?thesis unfolding depth_truncation_def Let_def R_def
    by (intro render_tree_tests [where P = ?P and r = "root_of_byte 1"])
      (simp_all add: long_chain_literal find_tree_root_def root_simps)
qed

lemma nested_fork_passes: "nested_fork"
proof -
  define R where "R = \<lparr>tr_blocks = nested_blocks, tr_children_map = tree_children nested_blocks nested_weights,
    tr_weights = nested_weights, tr_head = root_of_byte 7\<rparr>"
  have 1: "list_all (\<lambda>(k, v). map_of (tr_blocks R) k = Some v) nested_blocks"
    unfolding R_def tree_renderer.simps by (rule lookups) (simp add: nested_blocks_eq root_simps)
  have 2: "list_all (\<lambda>(k, v). map_of (tr_children_map R) k = Some v) (tree_children nested_blocks nested_weights)"
    unfolding R_def tree_renderer.simps by (rule lookups) (simp add: nested_children root_simps)
  have leaves: "map_of (tr_children_map R) (root_of_byte 5) = None" "map_of (tr_children_map R) (root_of_byte 7) = None"
    "map_of (tr_children_map R) (root_of_byte 8) = None"
    by (simp_all add: R_def nested_children root_simps)
  have weights: "weight (tr_weights R) (root_of_byte 5) = 2" "weight (tr_weights R) (root_of_byte 7) = 4"
    "weight (tr_weights R) (root_of_byte 8) = 1" "tr_head R = root_of_byte 7"
    by (simp_all add: R_def nested_weights_def weight_def root_simps)
  note look = 1 [unfolded nested_blocks_eq, simplified] 2 [unfolded nested_children, simplified] leaves weights
  let ?P = "\<lambda>res. contains_text res ''2 branches'' \<and> occurrences (length res) res ''2 branches'' = 2 \<and>
    contains_text res ''[w:4]'' \<and> contains_text res ''[w:1]'' \<and> contains_text res ''[w:2]''"
  have "\<exists>out. render_tree R (root_of_byte 1) = Ok out \<and> ?P (format_header nested_blocks (root_of_byte 7)
      \<lparr>cp_root = root_of_byte 1, cp_slot = 0\<rparr> \<lparr>cp_root = root_of_byte 1, cp_slot = 0\<rparr> @ newline @ out)"
    by (simp add: step_simps look, simp add: format_header_def step_simps nested_blocks_eq,
        simp add: contains_text_def numeral_eq_Suc)
  then show ?thesis unfolding nested_fork_def Let_def R_def
    by (intro render_tree_tests [where P = ?P and r = "root_of_byte 1"])
      (simp_all add: nested_blocks_eq find_tree_root_def root_simps)
qed

lemma tree_tests_pass:
  "linear_chain" "fork_with_two_branches" "head_marker_on_correct_node" "missing_single_slot" "missing_multiple_slots"
  "single_block_chain" "empty_blocks"
proof -
  show "linear_chain"
    unfolding linear_chain_def Let_def by (simp add: render_simps chain_children, simp add: contains_text_def)
  show "fork_with_two_branches"
    unfolding fork_with_two_branches_def Let_def by (simp add: render_simps fork_children, simp add: contains_text_def)
  show "head_marker_on_correct_node"
    unfolding head_marker_on_correct_node_def Let_def by (simp add: render_simps fork_children)
  show "missing_single_slot"
    unfolding missing_single_slot_def Let_def by (simp add: render_simps children_simps, simp add: contains_text_def)
  show "missing_multiple_slots"
    unfolding missing_multiple_slots_def Let_def by (simp add: render_simps children_simps, simp add: contains_text_def)
  show "single_block_chain"
    unfolding single_block_chain_def Let_def by (simp add: render_simps children_simps, simp add: contains_text_def)
  show "empty_blocks"
    unfolding empty_blocks_def Let_def
    by (simp add: render_def format_fork_choice_tree_def format_header_def decimal.simps newline_def zero_root
        short_root_of_byte hex_byte_def hex_digit_def, simp add: contains_text_def)
qed

end
