(* ===== verification/Node_Tests.thy ===== *)
theory Node_Tests
  imports Rpc_Server Tree_Tests
begin

text \<open>
  The unit tests of the repository that run on the modelled code without a file, a key or a clock,
  evaluated on the model: checkpoint verification (\<open>bin/ethlambda/src/checkpoint_sync.rs\<close>), block
  weights (\<open>fork_choice/src/lib.rs\<close>), genesis, keys, signature verification, varints and the HTTP
  API. A test is a predicate; where it hashes, it is shown for every hash function, and a root that the
  test takes to be wrong is assumed to differ from the hash.
\<close>

fun is_ok :: "('a, 'e) result \<Rightarrow> bool" where
  "is_ok (Ok _) = True"
| "is_ok _ = False"

fun is_err :: "('a, 'e) result \<Rightarrow> bool" where
  "is_err (Err _) = True"
| "is_err _ = False"

section \<open>Verification of checkpoint states\<close>

definition create_test_state :: "u64 \<Rightarrow> validator list \<Rightarrow> u64 \<Rightarrow> state" where
  "create_test_state slot validators genesis_time =
     \<lparr>st_config = \<lparr>cc_genesis_time = genesis_time\<rparr>, st_slot = slot,
      st_latest_block_header = \<lparr>hdr_slot = slot, hdr_proposer_index = 0, hdr_parent_root = 0,
        hdr_state_root = 0, hdr_body_root = 0\<rparr>,
      st_latest_justified = \<lparr>cp_root = 0, cp_slot = saturating_sub slot 10\<rparr>,
      st_latest_finalized = \<lparr>cp_root = 0, cp_slot = saturating_sub slot 20\<rparr>,
      st_historical_block_hashes = [], st_justified_slots = [], st_validators = validators,
      st_justifications_roots = [], st_justifications_validators = []\<rparr>"

definition create_test_validator :: validator where
  "create_test_validator = \<lparr>val_pubkey = replicate 52 1, val_index = 0\<rparr>"

definition create_different_validator :: validator where
  "create_different_validator = \<lparr>val_pubkey = replicate 52 2, val_index = 0\<rparr>"

definition create_validators_with_indices :: "nat \<Rightarrow> validator list" where
  "create_validators_with_indices n =
     map (\<lambda>i. \<lparr>val_pubkey = replicate 52 (word_of_nat i + 1), val_index = word_of_nat i\<rparr>) [0..<n]"

definition verify_accepts_valid_state :: "hashing \<Rightarrow> bool" where
  "verify_accepts_valid_state H =
     (let validators = [create_test_validator]; st = create_test_state 100 validators 1000
      in is_ok (verify_checkpoint_state H st 1000 validators))"

definition verify_rejects_slot_zero :: "hashing \<Rightarrow> bool" where
  "verify_rejects_slot_zero H =
     (let validators = [create_test_validator]; st = create_test_state 0 validators 1000
      in is_err (verify_checkpoint_state H st 1000 validators))"

definition verify_rejects_empty_validators :: "hashing \<Rightarrow> bool" where
  "verify_rejects_empty_validators H =
     (let st = create_test_state 100 [] 1000 in is_err (verify_checkpoint_state H st 1000 []))"

definition verify_rejects_genesis_time_mismatch :: "hashing \<Rightarrow> bool" where
  "verify_rejects_genesis_time_mismatch H =
     (let validators = [create_test_validator]; st = create_test_state 100 validators 1000
      in is_err (verify_checkpoint_state H st 9999 validators))"

definition verify_rejects_validator_count_mismatch :: "hashing \<Rightarrow> bool" where
  "verify_rejects_validator_count_mismatch H =
     (let validators = [create_test_validator]; st = create_test_state 100 validators 1000;
          extra_validators = create_validators_with_indices 2
      in is_err (verify_checkpoint_state H st 1000 extra_validators))"

definition verify_accepts_multiple_validators_with_sequential_indices :: "hashing \<Rightarrow> bool" where
  "verify_accepts_multiple_validators_with_sequential_indices H =
     (let validators = create_validators_with_indices 3; st = create_test_state 100 validators 1000
      in is_ok (verify_checkpoint_state H st 1000 validators))"

definition verify_rejects_non_sequential_validator_indices :: "hashing \<Rightarrow> bool" where
  "verify_rejects_non_sequential_validator_indices H =
     (let validators = create_validators_with_indices 3;
          validators = validators[1 := (validators ! 1)\<lparr>val_index := 5\<rparr>];
          st = create_test_state 100 validators 1000;
          expected_validators = create_validators_with_indices 3
      in is_err (verify_checkpoint_state H st 1000 expected_validators))"

definition verify_rejects_duplicate_validator_indices :: "hashing \<Rightarrow> bool" where
  "verify_rejects_duplicate_validator_indices H =
     (let validators = create_validators_with_indices 3;
          validators = validators[2 := (validators ! 2)\<lparr>val_index := 0\<rparr>];
          st = create_test_state 100 validators 1000;
          expected_validators = create_validators_with_indices 3
      in is_err (verify_checkpoint_state H st 1000 expected_validators))"

definition verify_rejects_validator_pubkey_mismatch :: "hashing \<Rightarrow> bool" where
  "verify_rejects_validator_pubkey_mismatch H =
     (let validators = [create_test_validator]; st = create_test_state 100 validators 1000;
          different_validators = [create_different_validator]
      in is_err (verify_checkpoint_state H st 1000 different_validators))"

text \<open>The remaining tests change the state before it is verified.\<close>

definition verify_changed :: "hashing \<Rightarrow> (state \<Rightarrow> state) \<Rightarrow> (unit, checkpoint_sync_error) result" where
  "verify_changed H f =
     (let validators = [create_test_validator]; st = create_test_state 100 validators 1000
      in verify_checkpoint_state H (f st) 1000 validators)"

definition set_finalized :: "u64 \<Rightarrow> H256 \<Rightarrow> state \<Rightarrow> state" where
  "set_finalized slot r st = st\<lparr>st_latest_finalized := \<lparr>cp_root = r, cp_slot = slot\<rparr>\<rparr>"

definition set_justified_checkpoint :: "u64 \<Rightarrow> H256 \<Rightarrow> state \<Rightarrow> state" where
  "set_justified_checkpoint slot r st = st\<lparr>st_latest_justified := \<lparr>cp_root = r, cp_slot = slot\<rparr>\<rparr>"

definition set_header_slot :: "u64 \<Rightarrow> state \<Rightarrow> state" where
  "set_header_slot slot st = st\<lparr>st_latest_block_header := (st_latest_block_header st)\<lparr>hdr_slot := slot\<rparr>\<rparr>"

definition verify_rejects_finalized_after_state_slot :: "hashing \<Rightarrow> bool" where
  "verify_rejects_finalized_after_state_slot H \<longleftrightarrow> is_err (verify_changed H (set_finalized 101 0))"

definition verify_rejects_justified_before_finalized :: "hashing \<Rightarrow> bool" where
  "verify_rejects_justified_before_finalized H \<longleftrightarrow>
     is_err (verify_changed H (set_justified_checkpoint 40 0 \<circ> set_finalized 50 0))"

definition verify_accepts_justified_equals_finalized_with_matching_roots :: "hashing \<Rightarrow> bool" where
  "verify_accepts_justified_equals_finalized_with_matching_roots H =
     (let common_root = root_of_byte 42
      in is_ok (verify_changed H (set_justified_checkpoint 50 common_root \<circ> set_finalized 50 common_root)))"

definition verify_rejects_justified_equals_finalized_with_different_roots :: "hashing \<Rightarrow> bool" where
  "verify_rejects_justified_equals_finalized_with_different_roots H \<longleftrightarrow>
     is_err (verify_changed H (set_justified_checkpoint 50 (root_of_byte 2) \<circ> set_finalized 50 (root_of_byte 1)))"

definition verify_rejects_block_header_slot_exceeds_state :: "hashing \<Rightarrow> bool" where
  "verify_rejects_block_header_slot_exceeds_state H \<longleftrightarrow> is_err (verify_changed H (set_header_slot 101))"

definition test_header_root :: "hashing \<Rightarrow> u64 \<Rightarrow> H256" where
  "test_header_root H slot =
     h_header H (st_latest_block_header (set_header_slot slot (create_test_state 100 [create_test_validator] 1000)))"

definition verify_accepts_block_header_matches_finalized_with_correct_root :: "hashing \<Rightarrow> bool" where
  "verify_accepts_block_header_matches_finalized_with_correct_root H \<longleftrightarrow>
     is_ok (verify_changed H (set_finalized 50 (test_header_root H 50) \<circ> set_header_slot 50))"

definition verify_rejects_block_header_matches_finalized_with_wrong_root :: "hashing \<Rightarrow> bool" where
  "verify_rejects_block_header_matches_finalized_with_wrong_root H \<longleftrightarrow>
     is_err (verify_changed H (set_finalized 50 (root_of_byte 99) \<circ> set_header_slot 50))"

definition verify_accepts_block_header_matches_justified_with_correct_root :: "hashing \<Rightarrow> bool" where
  "verify_accepts_block_header_matches_justified_with_correct_root H \<longleftrightarrow>
     is_ok (verify_changed H (set_justified_checkpoint 90 (test_header_root H 90) \<circ> set_header_slot 90))"

definition verify_rejects_block_header_matches_justified_with_wrong_root :: "hashing \<Rightarrow> bool" where
  "verify_rejects_block_header_matches_justified_with_wrong_root H \<longleftrightarrow>
     is_err (verify_changed H (set_justified_checkpoint 90 (root_of_byte 99) \<circ> set_header_slot 90))"

lemmas checkpoint_test_defs = verify_checkpoint_state_def create_test_state_def create_test_validator_def
  create_different_validator_def create_validators_with_indices_def saturating_sub_def verify_changed_def
  set_finalized_def set_justified_checkpoint_def set_header_slot_def test_header_root_def Let_def upt_rec

lemma checkpoint_tests_of_validators_pass:
  "verify_accepts_valid_state H" "verify_rejects_slot_zero H" "verify_rejects_empty_validators H"
  "verify_rejects_genesis_time_mismatch H" "verify_rejects_validator_count_mismatch H"
  "verify_accepts_multiple_validators_with_sequential_indices H"
  "verify_rejects_non_sequential_validator_indices H" "verify_rejects_duplicate_validator_indices H"
  "verify_rejects_validator_pubkey_mismatch H"
  unfolding verify_accepts_valid_state_def verify_rejects_slot_zero_def verify_rejects_empty_validators_def
    verify_rejects_genesis_time_mismatch_def verify_rejects_validator_count_mismatch_def
    verify_accepts_multiple_validators_with_sequential_indices_def
    verify_rejects_non_sequential_validator_indices_def verify_rejects_duplicate_validator_indices_def
    verify_rejects_validator_pubkey_mismatch_def
  by (simp_all add: checkpoint_test_defs)

lemma checkpoint_tests_of_checkpoints_pass:
  "verify_rejects_finalized_after_state_slot H" "verify_rejects_justified_before_finalized H"
  "verify_accepts_justified_equals_finalized_with_matching_roots H"
  "verify_rejects_justified_equals_finalized_with_different_roots H"
  "verify_rejects_block_header_slot_exceeds_state H"
  "verify_accepts_block_header_matches_finalized_with_correct_root H"
  "test_header_root H 50 \<noteq> root_of_byte 99 \<Longrightarrow> verify_rejects_block_header_matches_finalized_with_wrong_root H"
  "verify_accepts_block_header_matches_justified_with_correct_root H"
  "test_header_root H 90 \<noteq> root_of_byte 99 \<Longrightarrow> verify_rejects_block_header_matches_justified_with_wrong_root H"
  unfolding verify_rejects_finalized_after_state_slot_def verify_rejects_justified_before_finalized_def
    verify_accepts_justified_equals_finalized_with_matching_roots_def
    verify_rejects_justified_equals_finalized_with_different_roots_def verify_rejects_block_header_slot_exceeds_state_def
    verify_accepts_block_header_matches_finalized_with_correct_root_def
    verify_rejects_block_header_matches_finalized_with_wrong_root_def
    verify_accepts_block_header_matches_justified_with_correct_root_def
    verify_rejects_block_header_matches_justified_with_wrong_root_def
  by (simp_all add: checkpoint_test_defs root_simps)

section \<open>Block weights\<close>

definition make_attestation :: "H256 \<Rightarrow> u64 \<Rightarrow> attestation_data" where
  "make_attestation head_root slot =
     \<lparr>ad_slot = slot, ad_head = \<lparr>cp_root = head_root, cp_slot = slot\<rparr>,
      ad_target = checkpoint_default, ad_source = checkpoint_default\<rparr>"

definition test_compute_block_weights :: bool where
  "test_compute_block_weights =
     (let root_a = root_of_byte 1; root_b = root_of_byte 2; root_c = root_of_byte 3;
          blocks = [(root_a, (0, 0)), (root_b, (1, root_a)), (root_c, (2, root_b))];
          attestations = [(0, make_attestation root_c 2), (1, make_attestation root_b 1)]
      in case compute_block_weights 0 blocks attestations of
           None \<Rightarrow> False
         | Some weights \<Rightarrow> weight weights root_c = 1 \<and> weight weights root_b = 2 \<and> weight weights root_a = 0)"

definition test_compute_block_weights_empty :: bool where
  "test_compute_block_weights_empty \<longleftrightarrow> compute_block_weights 0 [] [] = Some []"

lemma weight_tests_pass: "test_compute_block_weights" "test_compute_block_weights_empty"
  by (simp_all add: test_compute_block_weights_def test_compute_block_weights_empty_def compute_block_weights_def
      make_attestation_def root_simps Let_def walk_back.simps weight_def bump_def checkpoint_default_def)

section \<open>Genesis, keys, signatures and varints\<close>

definition state_from_genesis_uses_defaults :: "hashing \<Rightarrow> bytes \<Rightarrow> bool" where
  "state_from_genesis_uses_defaults H pubkey =
     (case (from_genesis H 1770407233 [\<lparr>val_pubkey = pubkey, val_index = 0\<rparr>] :: (state, unit) result) of
        Ok st \<Rightarrow> cc_genesis_time (st_config st) = 1770407233 \<and> st_slot st = 0 \<and>
          cp_root (st_latest_justified st) = 0 \<and> cp_slot (st_latest_justified st) = 0 \<and>
          cp_root (st_latest_finalized st) = 0 \<and> cp_slot (st_latest_finalized st) = 0 \<and>
          st_historical_block_hashes st = [] \<and> st_justified_slots st = [] \<and>
          st_justifications_roots st = [] \<and> st_justifications_validators st = []
      | _ \<Rightarrow> False)"

definition test_validator_ids :: bool where
  "test_validator_ids \<longleftrightarrow> length (validator_ids (key_manager_new ([] :: (u64 \<times> unit) list))) = 0"

definition test_sign_attestation_validator_not_found :: "('pk, 'sig, 'sk) crypto \<Rightarrow> bool" where
  "test_sign_attestation_validator_not_found C \<longleftrightarrow>
     sign_message C (key_manager_new []) 123 0 0 = Err (ValidatorKeyNotFound 123)"

definition verify_signatures_rejects_participants_mismatch :: "hashing \<Rightarrow> ('pk, 'sig, 'sk) crypto \<Rightarrow> bool" where
  "verify_signatures_rejects_participants_mismatch H C =
     (case (from_genesis H 1000 [] :: (state, unit) result) of
        Ok st \<Rightarrow>
          (let data = \<lparr>ad_slot = 0, ad_head = checkpoint_default, ad_target = checkpoint_default, ad_source = checkpoint_default\<rparr>;
               att = \<lparr>aa_aggregation_bits = [True, True, False, False], aa_data = data\<rparr>;
               p = proof_empty [True, True, True, False];
               b = \<lparr>blk_slot = 0, blk_proposer_index = 0, blk_parent_root = 0, blk_state_root = 0,
                    blk_body = \<lparr>body_attestations = [att]\<rparr>\<rparr>;
               signed_block =
                 \<lparr>sb_message = \<lparr>bwa_block = b, bwa_proposer_attestation = \<lparr>att_validator_id = 0, att_data = data\<rparr>\<rparr>,
                  sb_signature = \<lparr>bs_attestation_signatures = [p], bs_proposer_signature = replicate SIGNATURE_SIZE 0\<rparr>\<rparr>
           in verify_signatures H C st signed_block = Err ParticipantsMismatch)
      | _ \<Rightarrow> False)"

definition test_decode_varint :: bool where
  "test_decode_varint \<longleftrightarrow> decode_varint [0x96, 0x01] = Ok (150, [])"

lemma other_tests_pass:
  "state_from_genesis_uses_defaults H pubkey" "test_validator_ids" "test_sign_attestation_validator_not_found C"
  "verify_signatures_rejects_participants_mismatch H C" "test_decode_varint"
  by (simp_all add: state_from_genesis_uses_defaults_def from_genesis_def Let_def VALIDATOR_REGISTRY_LIMIT_def
      test_validator_ids_def validator_ids_def key_manager_new_def test_sign_attestation_validator_not_found_def
      sign_message_def verify_signatures_rejects_participants_mismatch_def verify_signatures_def verify_attestation_proof_def proof_empty_def
      test_decode_varint_def decode_varint_def checkpoint_default_def)

section \<open>The HTTP API\<close>

definition rpc_test_state :: "hashing \<Rightarrow> state" where
  "rpc_test_state H =
     (let genesis_checkpoint = \<lparr>cp_root = 0, cp_slot = 0\<rparr>
      in \<lparr>st_config = \<lparr>cc_genesis_time = 1000\<rparr>, st_slot = 0,
          st_latest_block_header = \<lparr>hdr_slot = 0, hdr_proposer_index = 0, hdr_parent_root = 0, hdr_state_root = 0,
            hdr_body_root = h_body H \<lparr>body_attestations = []\<rparr>\<rparr>,
          st_latest_justified = genesis_checkpoint, st_latest_finalized = genesis_checkpoint,
          st_historical_block_hashes = [], st_justified_slots = [], st_validators = [],
          st_justifications_roots = [], st_justifications_validators = []\<rparr>)"

text \<open>The response to one request on a store from the test state.\<close>

definition oneshot ::
  "(store \<Rightarrow> string \<Rightarrow> (api_response option, store_error) result option) \<Rightarrow> hashing \<Rightarrow> string \<Rightarrow> (store \<times> api_response) option" where
  "oneshot router H path =
     (case (from_anchor_state H empty_tables (rpc_test_state H) :: (store, unit) result) of
        Ok s \<Rightarrow> (case router s path of Some (Ok (Some response)) \<Rightarrow> Some (s, response) | _ \<Rightarrow> None)
      | _ \<Rightarrow> None)"

definition build_test_router :: "string \<Rightarrow> store \<Rightarrow> string \<Rightarrow> (api_response option, store_error) result option" where
  "build_test_router html s path =
     (if path = ''/lean/v0/fork_choice''
      then bind_run (get_fork_choice s) (\<lambda>r. Some (Ok (Some \<lparr>ar_content_type = JSON_CONTENT_TYPE, ar_body = ForkChoiceJson r\<rparr>)))
      else if path = ''/lean/v0/fork_choice/ui''
      then Some (Ok (Some \<lparr>ar_content_type = HTML_CONTENT_TYPE, ar_body = Static html\<rparr>))
      else Some (Ok None))"

definition test_get_latest_justified_checkpoint :: "hashing \<Rightarrow> state ssz \<Rightarrow> string \<Rightarrow> bool" where
  "test_get_latest_justified_checkpoint H E html =
     (case oneshot (build_api_router E html) H ''/lean/v0/checkpoints/justified'' of
        Some (s, response) \<Rightarrow> ar_body response = CheckpointJson (s_latest_justified s)
      | None \<Rightarrow> False)"

definition test_get_latest_finalized_state :: "hashing \<Rightarrow> state ssz \<Rightarrow> string \<Rightarrow> bool" where
  "test_get_latest_finalized_state H E html =
     (case oneshot (build_api_router E html) H ''/lean/v0/states/finalized'' of
        Some (s, response) \<Rightarrow>
          (case get_state s (cp_root (s_latest_finalized s)) of
             Some st \<Rightarrow>
               (let expected_state = st\<lparr>st_latest_block_header := (st_latest_block_header st)\<lparr>hdr_state_root := 0\<rparr>\<rparr>
                in ar_content_type response = SSZ_CONTENT_TYPE \<and> ar_body response = Ssz (ssz_encode E expected_state))
           | None \<Rightarrow> False)
      | None \<Rightarrow> False)"

definition test_get_fork_choice_returns_json :: "hashing \<Rightarrow> string \<Rightarrow> bool" where
  "test_get_fork_choice_returns_json H html =
     (case oneshot (build_test_router html) H ''/lean/v0/fork_choice'' of
        Some (s, response) \<Rightarrow>
          ar_content_type response = JSON_CONTENT_TYPE \<and>
          (case ar_body response of ForkChoiceJson _ \<Rightarrow> True | _ \<Rightarrow> False)
      | None \<Rightarrow> False)"

text \<open>The page is a file the build embeds; the test asks for two of its words.\<close>

definition test_get_fork_choice_ui_returns_html :: "hashing \<Rightarrow> string \<Rightarrow> bool" where
  "test_get_fork_choice_ui_returns_html H html =
     (case oneshot (build_test_router html) H ''/lean/v0/fork_choice/ui'' of
        Some (s, response) \<Rightarrow>
          ar_content_type response = HTML_CONTENT_TYPE \<and>
          (case ar_body response of
             Static page \<Rightarrow> contains_text page ''<!DOCTYPE html>'' \<and> contains_text page ''d3''
           | _ \<Rightarrow> False)
      | None \<Rightarrow> False)"

lemma rpc_tests_pass:
  "test_get_latest_justified_checkpoint H E html" "test_get_latest_finalized_state H E html"
  "test_get_fork_choice_returns_json H html"
  "contains_text html ''<!DOCTYPE html>'' \<Longrightarrow> contains_text html ''d3'' \<Longrightarrow> test_get_fork_choice_ui_returns_html H html"
  by (simp_all add: test_get_latest_justified_checkpoint_def test_get_latest_finalized_state_def
      test_get_fork_choice_returns_json_def test_get_fork_choice_ui_returns_html_def oneshot_def from_anchor_state_def
      init_store_def rpc_test_state_def build_api_router_def build_test_router_def get_latest_justified_state_def get_latest_finalized_state_def
      get_fork_choice_def get_state_def head_state_def empty_tables_def extract_latest_known_attestations_def
      extract_latest_attestations_def compute_block_weights_def buffer_unique_keys_def buffer_new_def bind_run_def
      iter_known_aggregated_payload_keys_def Let_def)

end
