(* ===== verification/Spec2Isabelle.thy ===== *)
theory Spec2Isabelle
  imports Chain_Metrics Proposals Rpc_Server Peer_Properties Swarm_Adapter Node Byte_Refinement Test_Fixtures
    Backend_Tests Store_Tests Node_Tests
begin

text \<open>
  A verification development for ethlambda, a client of the lean consensus protocol written in Rust.
  All paths below are relative to \<open>src/\<close>.

  \<^bold>\<open>The program.\<close> A node runs two actors. The blockchain actor (\<open>crates/blockchain\<close>) owns the fork
  choice store: every 800 ms a tick accepts attestations, updates the head and the safe target,
  aggregates signatures, and at the right interval lets the node's validators propose or attest; blocks
  and attestations from the network are verified and recorded, and blocks whose parent is unknown wait
  until the parent was fetched. The P2P actor (\<open>crates/net/p2p\<close>) encodes and decodes gossip and
  request/response messages and fetches blocks with retries. Both read the store
  (\<open>crates/storage\<close>), which keeps headers, bodies, signatures, states, the live chain and attestation
  data in tables of a key-value backend, RocksDB in a running node. The consensus rules proper are the state transition
  (\<open>crates/blockchain/state_transition\<close>) and LMD-GHOST (\<open>crates/blockchain/fork_choice\<close>). An HTTP API
  (\<open>crates/net/rpc\<close>) serves the finalized state, from which other nodes start
  (\<open>bin/ethlambda/src/checkpoint_sync.rs\<close>). The binary (\<open>bin/ethlambda/src/main.rs\<close>) reads the
  configuration and starts and connects the parts.

  \<^bold>\<open>Conventions.\<close> A struct is a record with a field prefix, an enum a datatype, \<open>u64\<close> a 64-bit word
  with wrapping arithmetic, a root (\<open>H256\<close>) a 256-bit word. A call returns \<open>Ok\<close>, \<open>Err\<close> or \<open>Panic\<close> (type
  \<open>result\<close>): every \<open>expect\<close>, index and bounded-list overflow of the source is a \<open>Panic\<close> branch. A loop
  that need not end on arbitrary data is a \<open>partial_function\<close> into \<open>option\<close> (\<open>None\<close> is divergence) and is
  proved to return where the code relies on it; every other loop is a total function. A hash map is an
  association list whose order is the iteration order. For maps that are arguments or part of the state
  the statements therefore hold for every order, and for the hash set of pending children the order is
  the argument \<open>iter\<close>. A map or set that the code builds, iterates and drops within one call has one
  order in the model: the groups of \<open>aggregate_attestations_by_data\<close>, \<open>buffer_grouped\<close>,
  \<open>group_signature\<close> and \<open>add_to_group\<close> and the merged keys of \<open>update_safe_target\<close> the order of insertion,
  the remaining validators of \<open>select_proofs\<close> the ascending one. What depends on such an order (which of
  several possible proofs a proposal carries, the order of attestations in its body and of published
  aggregates) is shown for that order only. Logging is left out except where it reads the store and
  could panic (the head update does not log its tree or count reorganizations here; the tree that is
  logged has a theory of its own); the calls of the metrics are in theories of their own.

  \<^bold>\<open>Parameters.\<close> Code outside the repository is an argument: tree hashing (record \<open>hashing\<close>), XMSS
  signatures and leanVM aggregation (\<open>crypto\<close>), snappy, SSZ and SHA-256 (\<open>snappy_frame\<close>, \<open>snappy_raw\<close>,
  \<open>ssz\<close>, \<open>store_codec\<close>), the RocksDB library (\<open>rocksdb\<close>), libp2p (\<open>libp2p\<close>, \<open>swarm_runtime\<close>, and \<open>outside\<close> for
  the random choice of a peer and request ids), the decoders of node records (\<open>enr_library\<close>), the HTTP
  client (\<open>checkpoint_source\<close>), Prometheus and the jemalloc profiler (\<open>prometheus\<close>, \<open>profiler\<close>), and files,
  YAML, hex and the clock (\<open>environment\<close>). What is assumed of them is named: \<open>ssz_roots\<close> (a block and its
  header have the same root), \<open>no_collision\<close> (the parent relation of the blocks seen has no cycle),
  \<open>visits_all\<close> (iterating over a hash set visits its elements), \<open>sorts_desc\<close> (an unstable sort sorts),
  \<open>key_pair\<close> and \<open>signs\<close> (a signature verifies), \<open>aggregates_verify\<close> (an aggregate of verified
  signatures verifies for the same keys in the same order), \<open>sound_setting\<close> (for proposals and
  aggregates: state roots are not zero, the attestation data met have different roots, and there are at
  most 256 validators; from id 256 on the code aggregates the keys in another order than it verifies
  them in, so nothing is shown there), \<open>snappy_ok\<close>, \<open>compresses\<close>, \<open>carries\<close> and \<open>hex_ok\<close> (decoding inverts encoding), the locale
  \<open>rocksdb_library\<close> (column families are maps, iterated in byte order, batches apply in order),
  \<open>prometheus_library\<close> (a valid metric with an unused name is registered, calls on registered metrics
  succeed), \<open>connections_counted\<close> (libp2p counts the connections to a peer).

  \<^bold>\<open>Theories, in the order of dependence.\<close>
  \<^item> \<open>Prelude\<close>: outcomes, integers, bit lists, hash maps and the lemmas on them that carry the other
    proofs (collections \<open>outcome_simps\<close>, \<open>bit_simps\<close>, \<open>word_nat\<close>).
  \<^item> \<open>Types\<close>: the containers of \<open>crates/common/types\<close>, genesis, the record of hash functions.
  \<^item> \<open>Justified_Slots\<close>: \<open>justified_slots_ops.rs\<close>. The locale \<open>justified_window\<close> states what the state
    transition relies on; its interpretation on the bit lists shows that they implement a set of slots.
  \<^item> \<open>State_Transition\<close>: \<open>state_transition/src/lib.rs\<close>, one definition per function, with the loops over
    history and attestations; which distances are justifiable.
  \<^item> \<open>Example_Chain\<close>: a chain of three validators on which hypotheses are instantiated.
  \<^item> \<open>State_Invariants\<close>: well-formed states (\<open>wf_state\<close>); the transition keeps them and never panics on
    them, exactly which blocks it accepts, its errors, reachable states, equivalence with the
    slot-by-slot specification.
  \<^item> \<open>Finality\<close>: a slot is justified exactly when two thirds of the validators are recorded for it, by
    attestations that are counted; a checkpoint is finalized only as the justified source of a justified
    target without a slot in between that is justifiable after the slot finalized at that moment.
  \<^item> \<open>Fork_Choice\<close>: \<open>fork_choice/src/lib.rs\<close>; on block trees LMD-GHOST returns, its weights count the
    supporting attestations, and the head is the end of the greedy descent (\<open>ghost_path\<close>), whatever the
    iteration order. \<open>Fork_Choice_Tree\<close>: the tree that ticks log (\<open>fork_choice_tree.rs\<close>).
  \<^item> \<open>Keys\<close>, \<open>Tables\<close>, \<open>Payload_Buffer\<close>, \<open>Storage\<close>: \<open>crates/storage\<close> on typed tables, which the theories
    above it use. Key encodings and their order; tables ordered by encoded key (locale \<open>keyed_table\<close>,
    interpreted for the three kinds of key); the bounded payload buffers; the store with every operation.
    \<open>Storage_Properties\<close>: the invariant of the store, round trips, pruning, retention, latest votes.
  \<^item> \<open>Backend\<close>, \<open>Rocksdb\<close>, \<open>Byte_Store\<close>, \<open>Byte_Refinement\<close>: the same store on bytes. The storage traits with
    the locales \<open>storage_api\<close> (a committed batch acts as its calls one after another) and
    \<open>ordered_storage\<close> (scans ascend), the first interpreted on the in-memory backend, the second on the
    RocksDB backend over \<open>rocksdb_library\<close>; every operation of the store with its backend calls, its
    encodings and its panics; and the proof that on RocksDB it implements the typed store.
  \<^item> \<open>Signatures\<close>: the wrappers of \<open>crates/common/crypto\<close> and the verification of signed blocks.
    \<open>Block_Building\<close>: selecting attestations and proofs for a block (\<open>build_block\<close> and its helpers in
    \<open>blockchain/src/store.rs\<close>).
  \<^item> \<open>Chain_Store\<close>: the rest of \<open>blockchain/src/store.rs\<close>: ticks, gossip, blocks, head, safe target,
    attestation targets, block production. \<open>Chain_Invariant\<close> and \<open>Chain_Ticks\<close>: the invariant
    \<open>chain_inv\<close> and that every operation keeps it; operations that leave the chain alone share the locale
    \<open>chain_neutral\<close>. \<open>Chain_Properties\<close>: the properties of import, ticks, gossip, targets and proposals.
  \<^item> \<open>Key_Manager\<close> and \<open>Chain_Server\<close>: \<open>key_manager.rs\<close> and the actor of \<open>blockchain/src/lib.rs\<close>.
    \<open>Seen_Blocks\<close>, \<open>Server_Invariant\<close>, \<open>Server_Properties\<close>: a weaker invariant that also survives
    retention pruning and pending blocks, relative to the blocks seen so far; with it the handlers
    return, pending blocks are resolved, and attestation duties are fulfilled. \<open>Verified_Votes\<close>: every
    proof in the payload buffers verifies, through gossip, aggregation, blocks and ticks. \<open>Proposals\<close>:
    hence the blocks and the aggregates a node publishes are accepted by other nodes.
  \<^item> \<open>Wire_Codec\<close>, \<open>Gossip\<close>, \<open>Peer_Metrics\<close>, \<open>Swarm\<close>, \<open>P2P_Server\<close>, \<open>Swarm_Adapter\<close>: \<open>crates/net/p2p\<close>.
    Varints, payloads, requests, responses, topics, gossip messages, message ids; the counters of peers;
    bootnode records and the construction of the swarm; the actor; the task that owns the swarm, as a
    step relation in which commands and events keep their order. \<open>P2P_Properties\<close>: the invariant of
    fetches over all reachable states, and delivery of gossip. \<open>Peer_Properties\<close>: the gauge of connected
    peers is exact, and lost bootnodes are dialed again.
  \<^item> \<open>Checkpoint_Sync\<close> and \<open>Rpc_Server\<close>: both ends of checkpoint sync and the HTTP API.
  \<^item> \<open>Metrics\<close>: the metrics of the blockchain crates with their lazy registration; calls succeed in every
    order. \<open>Chain_Metrics\<close>: the calls of the handlers, the gauges on reachable stores, and the server of
    metrics and heap profiles.
  \<^item> \<open>Node\<close>: reading the configuration and starting the node; on a well-formed anchor, as the genesis
    state is, a node that has started is in a state to which the results on the two actors apply.
  \<^item> \<open>Test_Fixtures\<close>: the types of the test vectors (\<open>crates/common/test-fixtures\<close>) and what their
    conversion keeps.
  \<^item> \<open>Backend_Tests\<close>, \<open>Store_Tests\<close>, \<open>Tree_Tests\<close>, \<open>Node_Tests\<close>: the unit tests that run on the modelled code,
    as predicates the model satisfies. Every backend that meets \<open>storage_api\<close> passes the backend suite.
  \<^item> This theory: a missing block is fetched, across the P2P actors of two nodes and the wire format.

  \<^bold>\<open>Scope of the main results.\<close> The properties of the chain store hold on every store reached from a
  well-formed anchor by blocks, gossip and ticks (\<open>chain_step\<close>) as long as nothing is pruned by retention
  and no block without a state has the root of a parent of a live block (\<open>fresh_root\<close>: a hash collision;
  blocks that are already known may come again); those of
  the server also hold under pruning, and for every message, ticks with and without a proposal
  included, where a block the node builds itself was not seen before. That published blocks and
  aggregates are accepted is shown for stores reached by steps whose attestation data are in a fixed set
  (\<open>vote_step\<close>), with the restrictions of \<open>sound_setting\<close>. A downloaded checkpoint state that passes the
  checks need not be well formed, and then nothing is shown of the node that starts on it beyond its
  validators and configuration. Slots fit 32 bits where signatures are involved, because the code converts them with
  \<open>expect\<close>. Distances up to \<open>2^62\<close> slots are covered by the characterization of justifiable slots.

  \<^bold>\<open>Not modelled.\<close> Timers are modelled as calls but not placed in the handlers. Binding sockets, the
  command-line parser, the build script and the serde attributes only call libraries; the heap profiling
  endpoints are those of the Linux build. Unit tests on real keys, recorded bytes, pinned hashes or files
  test the libraries that are parameters here. Actors handle one message at a
  time, as the runtime guarantees; their interleaving is the order of the messages, over which the step
  relations quantify. The clones of the store that the actors hold share one backend; each actor is
  verified on the store it sees.
\<close>

section \<open>Fetching a block across two nodes\<close>

definition demo_holder :: p2p_server where
  "demo_holder = p2p_spawn (fst demo_built) (insert_signed_block demo_hashing 2001 (demo_signed_block (demo_block 1 [])) demo_store) (snd demo_built)"

definition demo_asker :: p2p_server where
  "demo_asker = (p2p_spawn (fst demo_built) demo_store (snd demo_built))\<lparr>ps_connected_peers := [7], ps_blockchain := Some []\<rparr>"

definition demo_outside :: outside where
  "demo_outside = \<lparr>out_choose = (\<lambda>ps. case ps of [] \<Rightarrow> None | p # _ \<Rightarrow> Some p), out_request_id = Some 1\<rparr>"

definition demo_fetch_codec :: codec where
  "demo_fetch_codec = (demo_codec (demo_signed_block (demo_block 1 [])))\<lparr>cd_roots := demo_ssz [2001]\<rparr>"

text \<open>
  C19. A missing block is fetched. When the blockchain actor of a node asks for a block that is not
  being fetched yet and some peer is connected, its P2P actor sends a request to a connected peer. A
  peer that has the block decodes the request and answers with the block, and the answer, decoded by
  the requesting node, reaches its blockchain actor as a new block; the fetch is then no longer
  pending. The encodings must carry the request and the block within the size limits.
\<close>

theorem missing_block_fetched:
  assumes "map_of (ps_pending_requests a) wanted = None" and "ps_connected_peers a \<noteq> []"
    and "\<forall>ps. ps \<noteq> [] \<longrightarrow> (\<exists>p \<in> set ps. out_choose X ps = Some p)" and "out_request_id X = Some rid"
    and "ps_blockchain a = Some ms"
    and "get_signed_block H (ps_store b) wanted = Some sb" and "h_block H (bwa_block (sb_message sb)) = wanted"
    and "snappy_ok (cd_frame K)" and "request_carried K (BlocksByRootRequest [wanted])"
    and "response_carried K BLOCKS_BY_ROOT_PROTOCOL_V1 (Success (BlocksByRootPayload [sb]))"
  shows "\<exists>peer req resp a1 b1 a2. peer \<in> set (ps_connected_peers a) \<and>
    p2p_handle H G X (Message (FetchBlock wanted)) a = Ok a1 \<and>
    ps_swarm a1 = ps_swarm a @ [SendRequest peer req BLOCKS_BY_ROOT_PROTOCOL_V1] \<and>
    read_request K BLOCKS_BY_ROOT_PROTOCOL_V1 (write_request K req) = Ok req \<and>
    p2p_handle H G Y (SwarmEvent (ReqResp (RequestMessage me req channel))) b = Ok b1 \<and>
    ps_swarm b1 = ps_swarm b @ [SendResponse channel resp] \<and>
    read_response K BLOCKS_BY_ROOT_PROTOCOL_V1 (write_response K resp) = Ok resp \<and>
    p2p_handle H G Z (SwarmEvent (ReqResp (ResponseMessage peer rid resp))) a1 = Ok a2 \<and>
    ps_blockchain a2 = Some (ms @ [NewBlock sb]) \<and> map_of (ps_pending_requests a2) wanted = None"
proof -
  let ?req = "BlocksByRootRequest [wanted]" and ?resp = "Success (BlocksByRootPayload [sb])"
  from fetch_block_sends [OF assms(1-4)] obtain peer where peer: "peer \<in> set (ps_connected_peers a)"
    and a1: "handle_fetch_block X wanted a =
      (command (SendRequest peer ?req BLOCKS_BY_ROOT_PROTOCOL_V1) a)\<lparr>ps_pending_requests :=
         or_insert wanted \<lparr>pr_attempts = 1, pr_failed_peers = []\<rparr> (ps_pending_requests a),
       ps_request_id_map := AList.update rid wanted (ps_request_id_map a)\<rparr>" (is "_ = ?a1") by blast
  let ?b1 = "command (SendResponse channel ?resp) b"
  have b1: "handle_blocks_by_root_request H [wanted] channel b = ?b1"
    using assms(6) by (simp add: handle_blocks_by_root_request_def map_filter_simps)
  let ?a2 = "fold (accept_fetched_block H wanted) [sb] (?a1\<lparr>ps_request_id_map := AList.delete rid (ps_request_id_map ?a1)\<rparr>)"
  have a2: "handle_blocks_by_root_response H [sb] peer rid ?a1 = ?a2"
    by (simp add: handle_blocks_by_root_response_def Let_def)
  have bc: "ps_blockchain (?a1\<lparr>ps_request_id_map := AList.delete rid (ps_request_id_map ?a1)\<rparr>) = Some ms"
    using assms(5) by (simp add: command_def)
  note acc = accept_fetched_blocks [OF bc, where root = wanted and bs = "[sb]" and H = H]
  show ?thesis
  proof (intro exI conjI)
    show "peer \<in> set (ps_connected_peers a)" by (fact peer)
    show "p2p_handle H G X (Message (FetchBlock wanted)) a = Ok ?a1" using a1 by simp
    show "ps_swarm ?a1 = ps_swarm a @ [SendRequest peer ?req BLOCKS_BY_ROOT_PROTOCOL_V1]" by (simp add: command_def)
    show "read_request K BLOCKS_BY_ROOT_PROTOCOL_V1 (write_request K ?req) = Ok ?req"
      using request_roundtrip [OF assms(8,9)] by simp
    show "p2p_handle H G Y (SwarmEvent (ReqResp (RequestMessage me ?req channel))) b = Ok ?b1" by (simp add: b1)
    show "read_response K BLOCKS_BY_ROOT_PROTOCOL_V1 (write_response K ?resp) = Ok ?resp"
      by (rule response_roundtrip [OF assms(8,10)])
    show "p2p_handle H G Z (SwarmEvent (ReqResp (ResponseMessage peer rid ?resp))) ?a1 = Ok ?a2" using a2 by simp
    show "ps_swarm ?b1 = ps_swarm b @ [SendResponse channel ?resp]" by (simp add: command_def)
  qed (use acc assms(7) in \<open>simp_all del: fold.simps\<close>)
qed

theorem missing_block_fetched_witness:
  "\<forall>G. \<exists>peer resp a1 a2. p2p_handle demo_hashing G demo_outside (Message (FetchBlock 2001)) demo_asker = Ok a1 \<and>
     p2p_handle demo_hashing G demo_outside (SwarmEvent (ReqResp (ResponseMessage peer 1 resp))) a1 = Ok a2 \<and>
     ps_blockchain a2 = Some [NewBlock (demo_signed_block (demo_block 1 []))]"
proof
  fix G
  let ?sb = "demo_signed_block (demo_block 1 [])"
  have get: "get_signed_block demo_hashing (ps_store demo_holder) 2001 = Some ?sb"
    by (simp add: demo_holder_def p2p_spawn_def get_signed_block_def insert_signed_block_def write_signed_block_def
        Let_def EMPTY_BODY_ROOT_def demo_signed_block_def demo_defs to_signed_block_def from_signed_block_def
        from_header_and_body_def block_header_of_def)
  have root: "h_block demo_hashing (bwa_block (sb_message ?sb)) = 2001" by (simp add: demo_signed_block_def demo_defs)
  have choose: "\<forall>ps. ps \<noteq> [] \<longrightarrow> (\<exists>p \<in> set ps. out_choose demo_outside ps = Some p)"
    by (auto simp: demo_outside_def neq_Nil_conv)
  have K: "snappy_ok (cd_frame demo_fetch_codec)" by (simp add: snappy_ok_def demo_codec_def demo_fetch_codec_def)
  have c: "request_carried demo_fetch_codec (BlocksByRootRequest [2001])"
    "response_carried demo_fetch_codec BLOCKS_BY_ROOT_PROTOCOL_V1 (Success (BlocksByRootPayload [?sb]))"
    using demo_sendable [of ?sb] by (simp_all add: demo_fetch_codec_def demo_codec_def demo_ssz_def carries_def)
  have a: "map_of (ps_pending_requests demo_asker) 2001 = None" "ps_connected_peers demo_asker \<noteq> []"
    "ps_blockchain demo_asker = Some []" "out_request_id demo_outside = Some 1"
    by (simp_all add: demo_asker_def p2p_spawn_def demo_outside_def)
  from missing_block_fetched [OF a(1,2) choose a(4) a(3) get root K c, where G = G and Z = demo_outside]
  show "\<exists>peer resp a1 a2. p2p_handle demo_hashing G demo_outside (Message (FetchBlock 2001)) demo_asker = Ok a1 \<and>
     p2p_handle demo_hashing G demo_outside (SwarmEvent (ReqResp (ResponseMessage peer 1 resp))) a1 = Ok a2 \<and>
     ps_blockchain a2 = Some [NewBlock ?sb]" by (metis append_Nil)
qed

end
